(* ===== verification/Prelude.thy ===== *)
theory Prelude
  imports Main "HOL-Library.Word" "HOL-Library.Multiset"
begin

text \<open>
  What every other theory shares: the machine integers of \<^verbatim>\<open>utils/types.h\<close>, the result
  type of kernel code, the lemmas about words read as natural numbers, and the byte memory.

  The kernel is compiled for a 32-bit i386: \<^verbatim>\<open>uint32_t\<close>, \<^verbatim>\<open>size_t\<close>, \<^verbatim>\<open>uintptr_t\<close> and every
  pointer are 32-bit words and their arithmetic wraps.  \<open>0\<close> is \<^verbatim>\<open>NULL\<close>.
\<close>

unbundle bit_operations_syntax

section \<open>Machine integers\<close>

type_synonym u8 = "8 word"
type_synonym u16 = "16 word"
type_synonym u32 = "32 word"
type_synonym u64 = "64 word"

text \<open>Facts that turn word arithmetic into arithmetic on natural numbers.\<close>

named_theorems unat_simps

lemma unat_lt_u32 [simp]: "unat (w :: u32) < 4294967296"
  using unsigned_less [of w] by simp

lemma unat_lt_u8 [simp]: "unat (w :: u8) < 256"
  using unsigned_less [of w] by simp

lemma unat_add_u32 [unat_simps]: "unat (a + b :: u32) = (unat a + unat b) mod 4294967296"
  by (simp add: unat_word_ariths)

lemma unat_mult_u32 [unat_simps]: "unat (a * b :: u32) = (unat a * unat b) mod 4294967296"
  by (simp add: unat_word_ariths)

lemma unat_sub_u32 [unat_simps]:
  "unat (a - b :: u32) =
     (if unat b \<le> unat a then unat a - unat b else unat a + 4294967296 - unat b)"
  by (simp add: unat_sub_if')

lemma unat_of_nat_u32 [unat_simps]: "unat (of_nat n :: u32) = n mod 4294967296"
  by (simp add: unat_of_nat)

lemma unat_of_nat_u32_small [simp]: "n < 4294967296 \<Longrightarrow> unat (of_nat n :: u32) = n"
  by (simp add: unat_of_nat)

lemma unat_drop_bit_u32 [unat_simps]: "unat (drop_bit n (a :: u32)) = unat a div 2 ^ n"
  by (simp only: unat_drop_bit_eq) (simp add: drop_bit_eq_div)

lemma unat_and_mask [unat_simps]: "unat ((a :: 'a :: len word) AND mask n) = unat a mod 2 ^ n"
  by (simp only: take_bit_eq_mask [symmetric] unsigned_take_bit_eq) (simp add: take_bit_eq_mod)

lemma of_nat_unat_u32 [simp]: "(of_nat (unat (a :: u32)) :: u32) = a"
  by simp

lemma u32_eqI: "unat (a :: u32) = unat b \<Longrightarrow> a = b"
  by (rule word_unat_eq_iff [THEN iffD2])

lemma of_nat_u32_inj:
  "a < 4294967296 \<Longrightarrow> b < 4294967296 \<Longrightarrow> (of_nat a :: u32) = of_nat b \<longleftrightarrow> a = b"
  by (metis unat_of_nat_u32_small)

lemma of_nat_u32_eq_0: "a < 4294967296 \<Longrightarrow> (of_nat a :: u32) = 0 \<longleftrightarrow> a = 0"
  using of_nat_u32_inj [of a 0] by simp

text \<open>The address with a given number; opaque to the simplifier, unlike \<open>of_nat\<close>.\<close>

definition adr :: "nat \<Rightarrow> u32" where
  "adr n = of_nat n"

lemma adr_eq_iff [simp]:
  "a < 4294967296 \<Longrightarrow> b < 4294967296 \<Longrightarrow> adr a = adr b \<longleftrightarrow> a = b"
  by (simp add: adr_def of_nat_u32_inj)

lemma adr_eq_0 [simp]: "a < 4294967296 \<Longrightarrow> adr a = 0 \<longleftrightarrow> a = 0"
  by (simp add: adr_def of_nat_u32_eq_0)

lemma unat_adr [simp]: "a < 4294967296 \<Longrightarrow> unat (adr a) = a"
  by (simp add: adr_def)

lemma adr_unat [simp]: "adr (unat a) = a"
  by (simp add: adr_def)

lemma adr_add: "adr (a + b) = adr a + of_nat b"
  by (simp add: adr_def)

lemma adr_diff: "b \<le> a \<Longrightarrow> adr (a - b) = adr a - of_nat b"
  by (simp add: adr_def of_nat_diff)

lemma word_le_unat: "(a :: 'a :: len word) \<le> b \<longleftrightarrow> unat a \<le> unat b"
  by (simp add: word_le_nat_alt)

lemma word_less_unat: "(a :: 'a :: len word) < b \<longleftrightarrow> unat a < unat b"
  by (simp add: word_less_nat_alt)

lemma unat_Suc_less: "(i :: u32) < n \<Longrightarrow> unat (i + 1) = Suc (unat i)"
proof -
  assume "i < n"
  then have "unat i + 1 < 4294967296"
    using unat_lt_u32 [of n] by (simp only: word_less_unat)
  then show ?thesis
    by (simp add: unat_add_u32)
qed

text \<open>Narrow integers survive being widened.\<close>

lemma ucast_widen [simp]: "ucast (ucast (a :: u8) :: u32) = a" "ucast (ucast (b :: u16) :: u32) = b" "ucast (ucast (a :: u8) :: u16) = a"
  by (rule bit_word_eqI; simp add: bit_simps)+

lemmas u32_order = word_le_unat word_less_unat

text \<open>Clearing the low bits of a word is rounding down to a multiple of a power of two.\<close>

lemma and_not_mask_eq: "(a :: 'a :: len word) AND NOT (mask n) = a - (a AND mask n)"
proof -
  have "a = (a AND NOT (mask n)) OR (a AND mask n)"
    by (rule bit_eqI) (auto simp: bit_simps)
  also have "\<dots> = (a AND NOT (mask n)) + (a AND mask n)"
    by (rule disjunctive_add [symmetric]) (auto simp: bit_simps)
  finally show ?thesis
    by (metis add_diff_cancel_right')
qed

lemma unat_and_not_mask [unat_simps]:
  "unat ((a :: u32) AND NOT (mask n)) = unat a - unat a mod 2 ^ n"
proof -
  have "unat (a AND mask n) \<le> unat a"
    by (simp add: unat_and_mask)
  then show ?thesis
    by (simp add: and_not_mask_eq unat_sub_u32 unat_and_mask)
qed


section \<open>Results of kernel code\<close>

text \<open>
  A call returns, stops the machine, or never comes back.  \<open>KPanic\<close> is a call of
  \<^verbatim>\<open>KPANIC\<close> with its message, which ends in \<^verbatim>\<open>while(1)\<close>; \<open>NoObject\<close> is an access through a
  pointer at which the model holds no object (\<^verbatim>\<open>NULL\<close> among them), whose outcome the source
  does not determine; \<open>DivideError\<close> is the processor's division trap.  The outer \<open>None\<close> is a
  loop that does not end.
\<close>

datatype kerror = KPanic string | NoObject | DivideError

type_synonym 'a kres = "(kerror + 'a) option"

abbreviation kret :: "'a \<Rightarrow> 'a kres" where
  "kret x \<equiv> Some (Inr x)"

abbreviation kpanic :: "string \<Rightarrow> 'a kres" where
  "kpanic msg \<equiv> Some (Inl (KPanic msg))"

abbreviation kfault :: "'a kres" where
  "kfault \<equiv> Some (Inl NoObject)"

definition kbind :: "'a kres \<Rightarrow> ('a \<Rightarrow> 'b kres) \<Rightarrow> 'b kres" where
  "kbind m f = (case m of None \<Rightarrow> None | Some (Inl e) \<Rightarrow> Some (Inl e) | Some (Inr x) \<Rightarrow> f x)"

lemma kbind_simps [simp]:
  "kbind None f = None" "kbind (Some (Inl e)) f = Some (Inl e)" "kbind (kret x) f = f x"
  by (simp_all add: kbind_def)

lemma kbind_kret_eq:
  "kbind m f = kret y \<longleftrightarrow> (\<exists>x. m = kret x \<and> f x = kret y)"
  by (auto simp: kbind_def split: option.splits sum.splits)

lemma kbind_kretE: "kbind m f = kret y \<Longrightarrow> (\<And>x. m = kret x \<Longrightarrow> f x = kret y \<Longrightarrow> P) \<Longrightarrow> P"
  by (auto simp: kbind_kret_eq)

lemma kbind_kret [simp]: "kbind m kret = m"
  by (auto simp: kbind_def split: option.splits sum.splits)

lemma kbind_assoc: "kbind (kbind m f) g = kbind m (\<lambda>x. kbind (f x) g)"
  by (auto simp: kbind_def split: option.splits sum.splits)

lemma kbind_mono [partial_function_mono]:
  assumes "mono_option B" and "\<And>y. mono_option (\<lambda>f. C y f)"
  shows "mono_option (\<lambda>f. kbind (B f) (\<lambda>y. C y f))"
  using assms unfolding monotone_def flat_ord_def kbind_def
  by (fastforce split: option.splits sum.splits)

text \<open>A pointer read: the object at an address, or an undetermined access.\<close>

definition deref :: "(u32 \<rightharpoonup> 'a) \<Rightarrow> u32 \<Rightarrow> 'a kres" where
  "deref h p = (case h p of None \<Rightarrow> kfault | Some x \<Rightarrow> kret x)"

lemma deref_Some [simp]: "h p = Some x \<Longrightarrow> deref h p = kret x"
  by (simp add: deref_def)

lemma deref_None [simp]: "h p = None \<Longrightarrow> deref h p = kfault"
  by (simp add: deref_def)

text \<open>\<^verbatim>\<open>p->field = v\<close>: the object at an address is updated in place.\<close>

definition modify :: "(u32 \<rightharpoonup> 'a) \<Rightarrow> u32 \<Rightarrow> ('a \<Rightarrow> 'a) \<Rightarrow> (u32 \<rightharpoonup> 'a) kres" where
  "modify h p f = (case h p of None \<Rightarrow> kfault | Some x \<Rightarrow> kret (h(p \<mapsto> f x)))"

lemma modify_Some [simp]: "h p = Some x \<Longrightarrow> modify h p f = kret (h(p \<mapsto> f x))"
  by (simp add: modify_def)

end
