(* ===== verification/Memory.thy ===== *)
theory Memory
  imports Prelude
begin

text \<open>
  The byte memory and the two byte-wise copy routines of \<^verbatim>\<open>kernel/src/utils/string.c\<close>.
  A memory gives every 32-bit address its byte; address arithmetic wraps, as the processor's
  does.  The two loops are translated as they stand and then given closed forms, which is what
  the other theories use.
\<close>

type_synonym mem = "u32 \<Rightarrow> u8"

section \<open>The loops\<close>

function memcpy_loop :: "mem \<Rightarrow> u32 \<Rightarrow> u32 \<Rightarrow> u32 \<Rightarrow> mem" where
  "memcpy_loop m d s n = (if n = 0 then m else memcpy_loop (m(d := m s)) (d + 1) (s + 1) (n - 1))"
  by pat_completeness auto
termination
  by (relation "measure (\<lambda>(m, d, s, n). unat n)") (auto simp: measure_unat)

definition memcpy :: "mem \<Rightarrow> u32 \<Rightarrow> u32 \<Rightarrow> u32 \<Rightarrow> mem" where
  "memcpy m dest src n = memcpy_loop m dest src n"

function memset_loop :: "mem \<Rightarrow> u32 \<Rightarrow> u32 \<Rightarrow> u8 \<Rightarrow> mem" where
  "memset_loop m ptr end_ptr ch =
     (if ptr = end_ptr then m else memset_loop (m(ptr := ch)) (ptr + 1) end_ptr ch)"
  by pat_completeness auto
termination
proof (relation "measure (\<lambda>(m, ptr, end_ptr, ch). unat (end_ptr - ptr))")
  fix m :: mem and ptr end_ptr :: u32 and ch :: u8
  assume "ptr \<noteq> end_ptr"
  then have "unat (end_ptr - ptr - 1) < unat (end_ptr - ptr)"
    by (intro measure_unat) simp
  then show "((m(ptr := ch), ptr + 1, end_ptr, ch), (m, ptr, end_ptr, ch))
      \<in> measure (\<lambda>(m, ptr, end_ptr, ch). unat (end_ptr - ptr))"
    by (simp add: algebra_simps)
qed simp

definition memset :: "mem \<Rightarrow> u32 \<Rightarrow> u8 \<Rightarrow> u32 \<Rightarrow> mem" where
  "memset m dest ch n = memset_loop m dest (dest + n) ch"

declare memcpy_loop.simps [simp del] memset_loop.simps [simp del]


section \<open>Address ranges\<close>

text \<open>
  The \<open>n\<close> bytes from \<open>p\<close> on, across the end of the address space if need be: an address is in
  the range when its distance from \<open>p\<close> is below \<open>n\<close>.
\<close>

definition in_range :: "u32 \<Rightarrow> u32 \<Rightarrow> nat \<Rightarrow> bool" where
  "in_range a p n \<longleftrightarrow> unat (a - p) < n"

definition disjoint_ranges :: "u32 \<Rightarrow> nat \<Rightarrow> u32 \<Rightarrow> nat \<Rightarrow> bool" where
  "disjoint_ranges p n q k \<longleftrightarrow> (\<forall>a. \<not> (in_range a p n \<and> in_range a q k))"

definition bytes_at :: "mem \<Rightarrow> u32 \<Rightarrow> nat \<Rightarrow> u8 list" where
  "bytes_at m p n = map (\<lambda>i. m (p + of_nat i)) [0..<n]"

lemma in_range_0 [simp]: "\<not> in_range a p 0"
  by (simp add: in_range_def)

lemma in_range_offset [simp]: "i < 4294967296 \<Longrightarrow> in_range (p + of_nat i) p n \<longleftrightarrow> i < n"
  by (simp add: in_range_def)

lemma in_range_below: "i < unat (n :: u32) \<Longrightarrow> in_range (p + of_nat i) p (unat n)"
  using unat_lt_u32 [of n] by (simp add: less_trans [of i "unat n"])

lemma in_range_ex: "in_range a p n \<longleftrightarrow> (\<exists>i < n. i < 4294967296 \<and> a = p + of_nat i)"
proof
  assume "in_range a p n"
  then show "\<exists>i < n. i < 4294967296 \<and> a = p + of_nat i"
    by (intro exI [of _ "unat (a - p)"]) (auto simp: in_range_def)
next
  assume "\<exists>i < n. i < 4294967296 \<and> a = p + of_nat i"
  then show "in_range a p n"
    by auto
qed

lemma in_range_pred:
  assumes "n \<noteq> (0 :: u32)"
  shows "in_range a (p + 1) (unat (n - 1)) \<longleftrightarrow> in_range a p (unat n) \<and> a \<noteq> p"
proof -
  have n: "unat (n - 1) = unat n - 1"
    using assms by (rule unat_minus_one)
  show ?thesis
  proof (cases "a = p")
    case True
    have "unat (a - (p + 1)) = 4294967295"
      by (simp add: True unsigned_minus_1_eq_mask mask_eq_exp_minus_1)
    moreover have "unat n - 1 < 4294967295"
      using unat_lt_u32 [of n] by linarith
    ultimately show ?thesis
      by (simp add: in_range_def True n)
  next
    case False
    then have "a - p \<noteq> 0"
      by simp
    then have "unat (a - p - 1) = unat (a - p) - 1" and "unat (a - p) \<noteq> 0"
      by (auto simp: unat_minus_one unat_eq_zero)
    then show ?thesis
      using False by (auto simp: in_range_def n diff_diff_eq)
  qed
qed

lemma in_range_window:
  assumes "i < 4294967296" and "a + n \<le> 4294967296"
  shows "in_range (p + of_nat i) (p + of_nat a) n \<longleftrightarrow> a \<le> i \<and> i < a + n"
proof
  assume "in_range (p + of_nat i) (p + of_nat a) n"
  then obtain j where j: "j < n" "p + of_nat i = p + of_nat a + of_nat j"
    by (auto simp: in_range_ex)
  then have "(of_nat i :: u32) = of_nat (a + j)"
    by (simp add: add.assoc)
  then have "i = a + j"
    using of_nat_u32_inj [of i "a + j"] j(1) assms by linarith
  then show "a \<le> i \<and> i < a + n"
    using j(1) by simp
next
  assume i: "a \<le> i \<and> i < a + n"
  have "p + of_nat i = p + of_nat a + of_nat (i - a)"
    using i by (simp add: of_nat_diff)
  moreover have "i - a < n" "i - a < 4294967296"
    using i assms by linarith+
  ultimately show "in_range (p + of_nat i) (p + of_nat a) n"
    by (simp only: in_range_offset)
qed

lemma bytes_at_length [simp]: "length (bytes_at m p n) = n"
  by (simp add: bytes_at_def)

lemma bytes_at_nth [simp]: "i < n \<Longrightarrow> bytes_at m p n ! i = m (p + of_nat i)"
  by (simp add: bytes_at_def)

lemma bytes_at_eqI:
  "(\<And>i. i < n \<Longrightarrow> m (p + of_nat i) = m' (q + of_nat i)) \<Longrightarrow> bytes_at m p n = bytes_at m' q n"
  by (simp add: bytes_at_def)

lemma bytes_at_0 [simp]: "bytes_at m p 0 = []"
  by (simp add: bytes_at_def)

lemma bytes_at_add: "bytes_at m p (n + k) = bytes_at m p n @ bytes_at m (p + of_nat n) k"
  by (rule nth_equalityI) (auto simp: nth_append add.assoc simp flip: of_nat_add)

lemma bytes_at_Suc: "bytes_at m p (Suc n) = m p # bytes_at m (p + 1) n"
  using bytes_at_add [of m p 1 n] by (simp add: bytes_at_def)

lemma disjoint_ranges_sym: "disjoint_ranges p n q k \<Longrightarrow> disjoint_ranges q k p n"
  by (auto simp: disjoint_ranges_def)

lemma disjoint_rangesD:
  "disjoint_ranges p n q k \<Longrightarrow> i < k \<Longrightarrow> k \<le> 4294967296 \<Longrightarrow> \<not> in_range (q + of_nat i) p n"
  by (auto simp: disjoint_ranges_def)

lemma far_disjoint:
  "unat p + n \<le> unat q \<Longrightarrow> unat q + k < 4294967296 \<Longrightarrow> disjoint_ranges p n q k"
  unfolding disjoint_ranges_def in_range_ex
proof (intro allI notI; elim conjE exE)
  fix a i j
  assume lim: "unat p + n \<le> unat q" "unat q + k < 4294967296"
    and ij: "i < n" "a = p + of_nat i" "j < k" "a = q + of_nat j"
  have "unat (p + of_nat i) = unat p + i" "unat (q + of_nat j) = unat q + j"
    using lim ij(1,3) by (simp_all add: unat_add_u32)
  moreover have "p + of_nat i = q + of_nat j"
    using ij by simp
  ultimately have "unat p + i = unat q + j"
    by metis
  then show False
    using lim ij by simp
qed

lemma disjoint_ranges_mono:
  "disjoint_ranges p n q k \<Longrightarrow> n' \<le> n \<Longrightarrow> k' \<le> k \<Longrightarrow> disjoint_ranges p n' q k'"
  unfolding disjoint_ranges_def in_range_def by (meson less_le_trans)


section \<open>Closed forms\<close>

lemma memset_loop_eq:
  "memset_loop m ptr end_ptr ch = (\<lambda>a. if in_range a ptr (unat (end_ptr - ptr)) then ch else m a)"
proof (induction m ptr end_ptr ch rule: memset_loop.induct)
  case (1 m ptr end_ptr ch)
  show ?case
  proof (cases "ptr = end_ptr")
    case True
    then show ?thesis
      by (simp add: memset_loop.simps)
  next
    case False
    then have ne: "end_ptr - ptr \<noteq> 0"
      by simp
    have shift: "end_ptr - (ptr + 1) = end_ptr - ptr - 1"
      by simp
    have "in_range ptr ptr (unat (end_ptr - ptr))"
      using False by (simp add: in_range_def unat_gt_0)
    moreover have step:
      "memset_loop m ptr end_ptr ch = memset_loop (m(ptr := ch)) (ptr + 1) end_ptr ch"
      by (subst memset_loop.simps) (simp only: False if_False)
    ultimately show ?thesis
      unfolding step "1.IH" [OF False] shift in_range_pred [OF ne] by auto
  qed
qed

theorem memset_eq: "memset m dest ch n = (\<lambda>a. if in_range a dest (unat n) then ch else m a)"
  by (simp add: memset_def memset_loop_eq)

text \<open>
  The forward copy is a copy as long as no byte is overwritten before it is read: the
  destination is the source itself or does not start inside it.
\<close>

definition copy_ok :: "u32 \<Rightarrow> u32 \<Rightarrow> nat \<Rightarrow> bool" where
  "copy_ok dest src n \<longleftrightarrow> dest = src \<or> n \<le> unat (dest - src)"

lemma copy_ok_disjoint: "disjoint_ranges dest n src n \<Longrightarrow> copy_ok dest src n"
proof -
  assume dis: "disjoint_ranges dest n src n"
  have "\<not> (in_range dest dest n \<and> in_range dest src n)"
    using dis unfolding disjoint_ranges_def by blast
  then show ?thesis
    by (auto simp: copy_ok_def in_range_def)
qed

lemma memcpy_loop_eq:
  "copy_ok d s (unat n) \<Longrightarrow>
   memcpy_loop m d s n = (\<lambda>a. if in_range a d (unat n) then m (s + (a - d)) else m a)"
proof (induction m d s n rule: memcpy_loop.induct)
  case (1 m d s n)
  show ?case
  proof (cases "n = 0")
    case True
    then show ?thesis
      by (simp add: memcpy_loop.simps)
  next
    case False
    then have n: "unat (n - 1) = unat n - 1" "0 < unat n"
      by (simp_all add: unat_minus_one unat_gt_0)
    have ok: "copy_ok (d + 1) (s + 1) (unat (n - 1))"
      using "1.prems" by (auto simp: copy_ok_def n)
    have "a - d = d - s" if "s + (a - d) = d" for a
      using that by (metis add_diff_cancel_left')
    then have "s + (a - d) \<noteq> d \<or> s = d" if "in_range a d (unat n)" for a
      using "1.prems" that by (force simp: copy_ok_def in_range_def)
    then have src: "(m(d := m s)) (s + (a - d)) = m (s + (a - d))" if "in_range a d (unat n)" for a
      using that by (metis fun_upd_apply)
    have step: "memcpy_loop m d s n = memcpy_loop (m(d := m s)) (d + 1) (s + 1) (n - 1)"
      by (subst memcpy_loop.simps) (simp only: False if_False)
    have shift: "s + 1 + (a - (d + 1)) = s + (a - d)" for a
      by simp
    have "in_range d d (unat n)"
      using n by (simp add: in_range_def)
    then show ?thesis
      unfolding step "1.IH" [OF False ok] in_range_pred [OF False] shift
      using src by auto
  qed
qed

theorem memcpy_eq:
  "copy_ok dest src (unat n) \<Longrightarrow>
   memcpy m dest src n = (\<lambda>a. if in_range a dest (unat n) then m (src + (a - dest)) else m a)"
  by (simp add: memcpy_def memcpy_loop_eq)

lemma bytes_at_memset: "bytes_at (memset m dest ch n) dest (unat n) = replicate (unat n) ch"
  by (rule nth_equalityI) (auto simp: memset_eq in_range_below)

lemma bytes_at_memcpy:
  "copy_ok dest src (unat n) \<Longrightarrow> bytes_at (memcpy m dest src n) dest (unat n) = bytes_at m src (unat n)"
  by (rule nth_equalityI) (auto simp: memcpy_eq in_range_below)

lemma bytes_at_memset_other:
  "disjoint_ranges dest (unat n) q k \<Longrightarrow> k \<le> 4294967296 \<Longrightarrow>
   bytes_at (memset m dest ch n) q k = bytes_at m q k"
  by (rule nth_equalityI) (auto simp: memset_eq dest: disjoint_rangesD)

lemma bytes_at_memcpy_other:
  "copy_ok dest src (unat n) \<Longrightarrow> disjoint_ranges dest (unat n) q k \<Longrightarrow> k \<le> 4294967296 \<Longrightarrow>
   bytes_at (memcpy m dest src n) q k = bytes_at m q k"
  by (rule nth_equalityI) (auto simp: memcpy_eq dest: disjoint_rangesD)


section \<open>Storing a sequence of bytes\<close>

primrec store_bytes :: "mem \<Rightarrow> u32 \<Rightarrow> u8 list \<Rightarrow> mem" where
  "store_bytes m p [] = m"
| "store_bytes m p (x # xs) = store_bytes (m(p := x)) (p + 1) xs"

lemma store_bytes_append:
  "store_bytes m p (xs @ ys) = store_bytes (store_bytes m p xs) (p + of_nat (length xs)) ys"
  by (induction xs arbitrary: m p) (simp_all add: algebra_simps)

lemma store_bytes_other: "\<not> in_range a p (length xs) \<Longrightarrow> store_bytes m p xs a = m a"
proof (induction xs arbitrary: m p)
  case (Cons x xs)
  have "a \<noteq> p"
    using Cons.prems by (auto simp: in_range_def)
  moreover have "\<not> in_range a (p + 1) (length xs)"
  proof
    assume "in_range a (p + 1) (length xs)"
    then obtain i where i: "i < length xs" "i < 4294967296" "a = p + 1 + of_nat i"
      by (auto simp: in_range_ex)
    have "a - p \<noteq> 0"
      using \<open>a \<noteq> p\<close> by simp
    then have "unat (a - p) = Suc (unat (a - p - 1))"
      by (metis Suc_pred' unat_gt_0 unat_minus_one)
    moreover have "a - p - 1 = of_nat i"
      using i(3) by simp
    ultimately show False
      using Cons.prems i by (simp add: in_range_def)
  qed
  ultimately show ?case
    using Cons.IH by simp
qed simp

lemma bytes_at_store_bytes:
  "length xs \<le> 4294967296 \<Longrightarrow> bytes_at (store_bytes m p xs) p (length xs) = xs"
proof (induction xs arbitrary: m p)
  case (Cons x xs)
  have "\<not> in_range p (p + 1) (length xs)"
  proof -
    have "unat (p - (p + 1)) = 4294967295"
      by (simp add: unsigned_minus_1_eq_mask mask_eq_exp_minus_1)
    then show ?thesis
      using Cons.prems by (simp add: in_range_def)
  qed
  then show ?case
    using Cons.prems by (simp add: bytes_at_Suc store_bytes_other Cons.IH)
qed simp


section \<open>32-bit loads and stores\<close>

text \<open>The processor is little endian.\<close>

definition load32 :: "mem \<Rightarrow> u32 \<Rightarrow> u32" where
  "load32 m a = word_rcat [m (a + 3), m (a + 2), m (a + 1), m a]"

lemma load32_agree: "(\<And>k. k < 4 \<Longrightarrow> m' (a + of_nat k) = m (a + of_nat k)) \<Longrightarrow> load32 m' a = load32 m a"
proof -
  assume eq: "\<And>k. k < 4 \<Longrightarrow> m' (a + of_nat k) = m (a + of_nat k)"
  show ?thesis
    using eq [of 0] eq [of 1] eq [of 2] eq [of 3] by (simp add: load32_def)
qed

definition store32 :: "mem \<Rightarrow> u32 \<Rightarrow> u32 \<Rightarrow> mem" where
  "store32 m a v =
     m(a := ucast v, a + 1 := ucast (drop_bit 8 v), a + 2 := ucast (drop_bit 16 v),
       a + 3 := ucast (drop_bit 24 v))"

definition word32 :: "u8 list \<Rightarrow> u32" where
  "word32 bs = word_rcat (rev (take 4 bs))"

lemma load32_bytes_at: "i + 4 \<le> n \<Longrightarrow> load32 m (p + of_nat i) = word32 (drop i (bytes_at m p n))"
proof -
  assume n: "i + 4 \<le> n"
  have "take 4 (drop i (bytes_at m p n)) = bytes_at m (p + of_nat i) 4"
    using n by (intro nth_equalityI) (auto simp: add.assoc simp flip: of_nat_add)
  moreover have "bytes_at m q 4 = [m q, m (q + 1), m (q + 2), m (q + 3)]" for q
    by (simp add: bytes_at_Suc eval_nat_numeral add.assoc)
  ultimately show ?thesis
    by (simp add: word32_def load32_def)
qed

lemma load32_store32: "load32 (store32 m a v) a = v"
proof -
  define x where "x = uint v"
  have x: "0 \<le> x" "x < 4294967296"
    using unsigned_less [of v, where ?'a = int] by (simp_all add: x_def)
  have u: "uint v mod 4294967296 = uint v"
    using x unfolding x_def by simp
  have b: "uint (ucast (drop_bit k v) :: u8) = x div 2 ^ k mod 256" for k
    by (simp only: x_def unsigned_ucast_eq unsigned_drop_bit_eq) (simp add: take_bit_eq_mod drop_bit_eq_div u)
  have b0: "uint (ucast v :: u8) = x mod 256"
    using b [of 0] by simp
  have d: "x div 65536 = x div 256 div 256" "x div 16777216 = x div 256 div 256 div 256"
    by (simp_all add: zdiv_zmult2_eq [symmetric])
  have "x div 256 div 256 div 256 < 256"
    using x by (simp add: d [symmetric])
  then have "x mod 256 + 256 * (x div 256 mod 256 + 256 * (x div 65536 mod 256 + 256 * (x div 16777216 mod 256))) = x"
    using x unfolding d by (simp add: div_mult_mod_eq)
  then have "(word_of_int (x mod 256 + 256 * (x div 256 mod 256 + 256 * (x div 65536 mod 256 + 256 * (x div 16777216 mod 256)))) :: u32) = v"
    by (simp only: x_def word_of_int_uint)
  moreover have "store32 m a v a = ucast v" "store32 m a v (a + 1) = ucast (drop_bit 8 v)"
    "store32 m a v (a + 2) = ucast (drop_bit 16 v)" "store32 m a v (a + 3) = ucast (drop_bit 24 v)"
    by (simp_all add: store32_def)
  moreover have "(word_rcat [ucast (drop_bit 24 v) :: u8, ucast (drop_bit 16 v), ucast (drop_bit 8 v), ucast v] :: u32) =
     word_of_int (x mod 256 + 256 * (x div 256 mod 256 + 256 * (x div 65536 mod 256 + 256 * (x div 16777216 mod 256))))"
    by (simp only: word_rcat_def comp_apply rev.simps append.simps horner_sum_simps b b0) (simp only: power_numeral mult_zero_right add_0_right len_of_numeral_defs, simp)
  ultimately show ?thesis
    by (simp only: load32_def)
qed

lemma store32_other: "\<not> in_range x a 4 \<Longrightarrow> store32 m a v x = m x"
proof -
  assume "\<not> in_range x a 4"
  moreover have "in_range a a 4" "in_range (a + 1) a 4" "in_range (a + 2) a 4" "in_range (a + 3) a 4"
    by (simp_all add: in_range_def)
  ultimately show ?thesis
    by (auto simp: store32_def)
qed

end
