(* ===== verification/Paging.thy ===== *)
theory Paging
  imports Prelude
begin

text \<open>
  \<^verbatim>\<open>kernel/src/arch/i386/paging.c\<close>: the split of a virtual address into directory index, table
  index and offset, page alignment, and the control registers the paging unit is driven by.
\<close>

section \<open>Control registers\<close>

record cpu =
  cr0 :: u32
  cr3 :: u32
  cr4 :: u32
  invlpg :: "u32 list"  \<comment> \<open>addresses whose TLB entry was invalidated, latest first\<close>

definition paging_enable :: "cpu \<Rightarrow> cpu" where
  "paging_enable c = c\<lparr>cr4 := cr4 c AND 0xFFFFFFEF, cr0 := cr0 c OR 0x80000000\<rparr>"

definition paging_invalidate_page :: "u32 \<Rightarrow> cpu \<Rightarrow> cpu" where
  "paging_invalidate_page virtual_address c = c\<lparr>invlpg := virtual_address # invlpg c\<rparr>"

definition paging_switch_page_directory :: "u32 \<Rightarrow> cpu \<Rightarrow> cpu" where
  "paging_switch_page_directory physical_address c = c\<lparr>cr3 := physical_address\<rparr>"

definition paging_get_directory :: "cpu \<Rightarrow> u32" where
  "paging_get_directory c = cr3 c"


section \<open>Address arithmetic\<close>

definition PAGE_SIZE :: u32 where
  "PAGE_SIZE = 4096"

definition paging_directory_index :: "u32 \<Rightarrow> u32" where
  "paging_directory_index virtual_address = drop_bit 22 virtual_address"

definition paging_table_index :: "u32 \<Rightarrow> u32" where
  "paging_table_index virtual_address = drop_bit 12 virtual_address AND 0x3FF"

definition paging_memory_offset :: "u32 \<Rightarrow> u32" where
  "paging_memory_offset virtual_address = virtual_address AND 0xFFF"

definition paging_frame_index :: "u32 \<Rightarrow> u32" where
  "paging_frame_index physical_address = drop_bit 12 physical_address"

definition paging_is_aligned_address :: "u32 \<Rightarrow> bool" where
  "paging_is_aligned_address address \<longleftrightarrow> address AND (PAGE_SIZE - 1) = 0"

definition paging_align_address_up :: "u32 \<Rightarrow> u32" where
  "paging_align_address_up address = (address + PAGE_SIZE - 1) AND NOT (PAGE_SIZE - 1)"

definition paging_align_address_down :: "u32 \<Rightarrow> u32" where
  "paging_align_address_down address = address AND NOT (PAGE_SIZE - 1)"

definition paging_align_address_offset :: "u32 \<Rightarrow> u32" where
  "paging_align_address_offset address = address AND (PAGE_SIZE - 1)"


section \<open>The same on natural numbers\<close>

lemma page_mask: "(0xFFF :: u32) = mask 12" "PAGE_SIZE - 1 = mask 12" "(0x3FF :: u32) = mask 10"
  by (simp_all add: mask_eq_exp_minus_1 PAGE_SIZE_def)

lemma unat_directory_index [unat_simps]: "unat (paging_directory_index a) = unat a div 4194304"
  by (simp add: paging_directory_index_def unat_drop_bit_u32)

lemma unat_table_index [unat_simps]: "unat (paging_table_index a) = unat a div 4096 mod 1024"
  by (simp add: paging_table_index_def page_mask unat_drop_bit_u32 unat_and_mask)

lemma unat_memory_offset [unat_simps]: "unat (paging_memory_offset a) = unat a mod 4096"
  by (simp add: paging_memory_offset_def page_mask unat_and_mask)

lemma unat_frame_index [unat_simps]: "unat (paging_frame_index a) = unat a div 4096"
  by (simp add: paging_frame_index_def unat_drop_bit_u32)

lemma is_aligned_iff: "paging_is_aligned_address a \<longleftrightarrow> unat a mod 4096 = 0"
proof -
  have "a AND mask 12 = 0 \<longleftrightarrow> unat (a AND mask 12) = 0"
    by (metis unat_eq_zero)
  then show ?thesis
    by (simp add: paging_is_aligned_address_def page_mask unat_and_mask)
qed

lemma unat_align_down [unat_simps]:
  "unat (paging_align_address_down a) = unat a - unat a mod 4096"
  by (simp add: paging_align_address_down_def page_mask unat_and_not_mask)

lemma unat_align_offset [unat_simps]: "unat (paging_align_address_offset a) = unat a mod 4096"
  by (simp add: paging_align_address_offset_def page_mask unat_and_mask)

lemma unat_align_up [unat_simps]:
  "unat (paging_align_address_up a) =
     (let n = (unat a + 4095) mod 4294967296 in n - n mod 4096)"
proof -
  have "paging_align_address_up a = (a + 4095) AND NOT (mask 12)"
    by (simp add: paging_align_address_up_def PAGE_SIZE_def mask_eq_exp_minus_1 add.commute)
  then show ?thesis
    by (simp add: unat_and_not_mask unat_add_u32 Let_def)
qed

text \<open>Rounding up reaches the first page boundary at or behind an address, unless it wraps around.\<close>

lemma align_up_spec:
  assumes "unat a + 4095 < 4294967296"
  shows "paging_is_aligned_address (paging_align_address_up a)"
    and "unat a \<le> unat (paging_align_address_up a)"
    and "unat (paging_align_address_up a) < unat a + 4096"
proof -
  have up: "unat (paging_align_address_up a) = unat a + 4095 - (unat a + 4095) mod 4096"
    using assms by (simp add: unat_align_up Let_def)
  show "paging_is_aligned_address (paging_align_address_up a)"
    unfolding is_aligned_iff up by (metis minus_mod_eq_mult_div mod_mult_self1_is_0)
  have "(unat a + 4095) mod 4096 < 4096"
    by simp
  then show "unat a \<le> unat (paging_align_address_up a)"
    unfolding up by linarith
  show "unat (paging_align_address_up a) < unat a + 4096"
    unfolding up by linarith
qed

end
