(* ===== verification/Heap.thy ===== *)
theory Heap
  imports Memory Paging
begin

text \<open>
  \<^verbatim>\<open>kernel/src/memory/heap.c\<close>: the bump allocator that serves the kernel while it boots and the
  best-fit block allocator that takes over from it.

  The block headers are objects of their own: \<open>heads\<close> maps the address of a header to its
  fields, and writing a header at an address where there was none creates it.  The payload
  bytes are in \<open>mem\<close>.  \<^verbatim>\<open>kheap_init\<close>, which needs the virtual memory manager, is in theory
  \<open>Vmm\<close>.
\<close>

section \<open>State\<close>

record kheap_block_head =
  kb_magic :: u32
  kb_size :: u32
  kb_free :: bool
  kb_prev :: u32
  kb_next :: u32

record kheap =
  placement_memory :: u32  \<comment> \<open>address of the array \<^verbatim>\<open>kheap_placement_memory\<close>\<close>
  placement_head :: u32
  placement_free_memory :: u32
  kheap_enabled :: bool
  kheap_base :: u32
  kheap_head :: u32
  kheap_tail :: u32
  heads :: "u32 \<rightharpoonup> kheap_block_head"
  mem :: mem

definition KHEAP_PLACEMENT_SIZE :: u32 where
  "KHEAP_PLACEMENT_SIZE = 0x00100000"

definition KHEAP_HEAP_SIZE :: u32 where
  "KHEAP_HEAP_SIZE = 0x02000000"

definition KHEAP_MAGIC :: u32 where
  "KHEAP_MAGIC = 0xD11EF00D"

definition MALLOC_FLAG_NULL :: u32 where
  "MALLOC_FLAG_NULL = 0"

definition MALLOC_FLAG_ALIGN :: u32 where
  "MALLOC_FLAG_ALIGN = 1"

definition MALLOC_FLAG_INIT :: u32 where
  "MALLOC_FLAG_INIT = 2"

text \<open>\<^verbatim>\<open>sizeof(kheap_block_head_t)\<close>: five 32-bit fields.\<close>

definition HEAD_SIZE :: u32 where
  "HEAD_SIZE = 20"


text \<open>Lines 34 to 42 of \<^verbatim>\<open>kheap_init\<close>: the mapped region becomes one free block.\<close>

definition kheap_init_head :: "kheap \<Rightarrow> u32 \<Rightarrow> kheap" where
  "kheap_init_head h base =
     h\<lparr>kheap_base := base, kheap_head := base,
       heads := (heads h)(base \<mapsto> \<lparr>kb_magic = KHEAP_MAGIC, kb_size = KHEAP_HEAP_SIZE - HEAD_SIZE,
         kb_free = True, kb_prev = 0, kb_next = 0\<rparr>),
       kheap_tail := base, kheap_enabled := True\<rparr>"


section \<open>Finding a block\<close>

text \<open>
  The test of one block.  \<^verbatim>\<open>current + sizeof(kheap_block_head_t)\<close> is arithmetic on a pointer to
  20-byte objects, so the address tested lies 400 bytes behind the header, not 20.
\<close>

definition kheap_fits :: "u32 \<Rightarrow> u32 \<Rightarrow> u32 \<Rightarrow> bool \<Rightarrow> bool" where
  "kheap_fits current current_size sz align \<longleftrightarrow>
     (let data_addr = current + HEAD_SIZE * HEAD_SIZE;
          end_addr = data_addr + current_size;
          data_addr' = (if align \<and> \<not> paging_is_aligned_address data_addr
                        then paging_align_address_up (data_addr + HEAD_SIZE) else data_addr)
      in data_addr' + sz \<le> end_addr)"

definition kheap_better ::
  "(u32 \<rightharpoonup> kheap_block_head) \<Rightarrow> u32 \<Rightarrow> bool \<Rightarrow> u32 \<Rightarrow> kheap_block_head \<Rightarrow> u32 \<Rightarrow> u32 kres" where
  "kheap_better H sz align current c best_fit =
     (if kb_free c \<and> kheap_fits current (kb_size c) sz align then
        if best_fit = 0 then kret current
        else kbind (deref H best_fit) (\<lambda>b.
          kret (if kb_size c < kb_size b then current else best_fit))
      else kret best_fit)"

partial_function (option) kheap_best_fit_loop ::
  "(u32 \<rightharpoonup> kheap_block_head) \<Rightarrow> u32 \<Rightarrow> bool \<Rightarrow> u32 \<Rightarrow> u32 \<Rightarrow> u32 kres" where
  "kheap_best_fit_loop H sz align current best_fit =
     (if current = 0 then kret best_fit
      else kbind (deref H current) (\<lambda>c.
        kbind (kheap_better H sz align current c best_fit) (\<lambda>best_fit'.
          kheap_best_fit_loop H sz align (kb_next c) best_fit')))"

declare kheap_best_fit_loop.simps [code]

definition kheap_find_best_fit :: "kheap \<Rightarrow> u32 \<Rightarrow> bool \<Rightarrow> u32 kres" where
  "kheap_find_best_fit h sz align = kheap_best_fit_loop (heads h) sz align (kheap_head h) 0"


section \<open>Allocation\<close>

text \<open>
  Lines 84 to 112 of \<^verbatim>\<open>kmalloc_heap_base\<close>: cut a padding block off the front so that the payload
  starts on a page.  The result is the block to allocate, \<open>0\<close> for the early \<^verbatim>\<open>return NULL\<close>.
\<close>

definition kmalloc_align_block :: "kheap \<Rightarrow> u32 \<Rightarrow> u32 \<Rightarrow> u32 \<Rightarrow> (u32 \<times> kheap) kres" where
  "kmalloc_align_block h sz flag best_fit =
     (let data_addr = best_fit + HEAD_SIZE in
      if flag AND MALLOC_FLAG_ALIGN \<noteq> 0 \<and> \<not> paging_is_aligned_address data_addr then
        let new_data_addr = paging_align_address_up (data_addr + HEAD_SIZE);
            padding = new_data_addr - data_addr
        in kbind (deref (heads h) best_fit) (\<lambda>b.
             if kb_size b < sz + padding then kret (0, h)
             else
               let new_best_fit = new_data_addr - HEAD_SIZE;
                   new_block = \<lparr>kb_magic = KHEAP_MAGIC, kb_size = kb_size b - padding,
                     kb_free = True, kb_prev = best_fit, kb_next = kb_next b\<rparr>
               in kbind (modify ((heads h)(new_best_fit \<mapsto> new_block)) best_fit
                          (\<lambda>p. p\<lparr>kb_free := True, kb_size := padding - HEAD_SIZE,
                                 kb_next := new_best_fit\<rparr>)) (\<lambda>H.
                    kret (new_best_fit, h\<lparr>heads := H\<rparr>)))
      else kret (best_fit, h))"

text \<open>Lines 114 to 135: mark the block used and split off what is left of it.\<close>

definition kmalloc_take_block :: "kheap \<Rightarrow> u32 \<Rightarrow> u32 \<Rightarrow> kheap kres" where
  "kmalloc_take_block h sz best_fit =
     kbind (deref (heads h) best_fit) (\<lambda>b.
       let remaining_size = kb_size b - sz;
           H = (heads h)(best_fit \<mapsto> b\<lparr>kb_free := False\<rparr>)
       in if HEAD_SIZE < remaining_size then
            let remaining_block = best_fit + HEAD_SIZE + sz;
                r = \<lparr>kb_magic = KHEAP_MAGIC, kb_size = remaining_size - HEAD_SIZE,
                     kb_free = True, kb_prev = best_fit, kb_next = kb_next b\<rparr>;
                H1 = H(remaining_block \<mapsto> r)
            in kbind (if kb_next b = 0 then kret (h\<lparr>heads := H1, kheap_tail := remaining_block\<rparr>)
                      else kbind (modify H1 (kb_next b) (\<lambda>n. n\<lparr>kb_prev := remaining_block\<rparr>)) (\<lambda>H2.
                        kret (h\<lparr>heads := H2\<rparr>))) (\<lambda>h2.
                 kbind (modify (heads h2) best_fit
                          (\<lambda>b. b\<lparr>kb_size := sz, kb_next := remaining_block\<rparr>)) (\<lambda>H3.
                   kret (h2\<lparr>heads := H3\<rparr>)))
          else kret (h\<lparr>heads := H\<rparr>))"

definition kmalloc_heap_base :: "kheap \<Rightarrow> u32 \<Rightarrow> u32 \<Rightarrow> (u32 \<times> kheap) kres" where
  "kmalloc_heap_base h sz flag =
     (if sz = 0 then kret (0, h)
      else kbind (kheap_find_best_fit h sz (flag AND MALLOC_FLAG_ALIGN \<noteq> 0)) (\<lambda>best_fit.
        if best_fit = 0 then kret (0, h)
        else kbind (kmalloc_align_block h sz flag best_fit) (\<lambda>(best_fit, h1).
          if best_fit = 0 then kret (0, h1)
          else kbind (kmalloc_take_block h1 sz best_fit) (\<lambda>h2.
            let data_addr = best_fit + HEAD_SIZE in
            if flag AND MALLOC_FLAG_INIT \<noteq> 0 then
              kbind (deref (heads h2) best_fit) (\<lambda>b.
                kret (data_addr, h2\<lparr>mem := memset (mem h2) data_addr 0 (kb_size b)\<rparr>))
            else kret (data_addr, h2)))))"

definition kmalloc_placement_base :: "kheap \<Rightarrow> u32 \<Rightarrow> u32 \<Rightarrow> u32 \<times> kheap" where
  "kmalloc_placement_base h sz flag =
     (let addr = placement_head h;
          aligned_addr = paging_align_address_up addr;
          padding = aligned_addr - addr;
          real_alloc_size = (if flag AND MALLOC_FLAG_ALIGN \<noteq> 0 then sz + padding else sz);
          addr' = (if flag AND MALLOC_FLAG_ALIGN \<noteq> 0 then aligned_addr else addr)
      in if placement_free_memory h < real_alloc_size then (0, h)
         else
           let h1 = h\<lparr>placement_head := placement_head h + real_alloc_size,
                      placement_free_memory := placement_free_memory h - real_alloc_size\<rparr>
           in (addr', if flag AND MALLOC_FLAG_INIT \<noteq> 0
                      then h1\<lparr>mem := memset (mem h1) addr' 0 sz\<rparr> else h1))"

definition kmalloc_base :: "bool \<Rightarrow> kheap \<Rightarrow> u32 \<Rightarrow> u32 \<Rightarrow> (u32 \<times> kheap) kres" where
  "kmalloc_base enable_heap h sz flag =
     (if enable_heap then kmalloc_heap_base h sz flag
      else kret (kmalloc_placement_base h sz flag))"

definition kmalloc_flag :: "kheap \<Rightarrow> u32 \<Rightarrow> u32 \<Rightarrow> (u32 \<times> kheap) kres" where
  "kmalloc_flag h sz flag = kmalloc_base (kheap_enabled h) h sz flag"

definition kmalloc :: "kheap \<Rightarrow> u32 \<Rightarrow> (u32 \<times> kheap) kres" where
  "kmalloc h sz = kmalloc_base (kheap_enabled h) h sz MALLOC_FLAG_NULL"


section \<open>Release and resize\<close>

definition kheap_is_placement_memory :: "kheap \<Rightarrow> u32 \<Rightarrow> bool" where
  "kheap_is_placement_memory h ptr \<longleftrightarrow>
     (let start = placement_memory h; end_addr = start + KHEAP_PLACEMENT_SIZE
      in start \<le> ptr \<and> ptr < end_addr)"

definition kheap_get_heap_block :: "kheap \<Rightarrow> u32 \<Rightarrow> u32 kres" where
  "kheap_get_heap_block h ptr =
     (let block = ptr - HEAD_SIZE in
      kbind (deref (heads h) block) (\<lambda>b. kret (if kb_magic b \<noteq> KHEAP_MAGIC then 0 else block)))"

definition kheap_out_of_range :: "kheap \<Rightarrow> u32 \<Rightarrow> bool" where
  "kheap_out_of_range h ptr \<longleftrightarrow> ptr < kheap_base h \<or> kheap_base h + KHEAP_HEAP_SIZE \<le> ptr"

text \<open>Lines 245 to 257: a free block in front absorbs the released one.\<close>

definition kfree_merge_prev :: "kheap \<Rightarrow> u32 \<Rightarrow> u32 \<Rightarrow> u32 \<Rightarrow> (u32 \<times> kheap) kres" where
  "kfree_merge_prev h free_block prev_block next_block =
     (if prev_block = 0 then kret (free_block, h)
      else kbind (deref (heads h) prev_block) (\<lambda>p.
        if \<not> kb_free p then kret (free_block, h)
        else kbind (deref (heads h) free_block) (\<lambda>f.
          let H1 = (heads h)(prev_block \<mapsto>
                     p\<lparr>kb_next := next_block, kb_size := kb_size p + (kb_size f + HEAD_SIZE)\<rparr>)
          in kbind (modify H1 free_block (\<lambda>f. f\<lparr>kb_magic := 0\<rparr>)) (\<lambda>H2.
               if next_block = 0 then kret (prev_block, h\<lparr>heads := H2, kheap_tail := prev_block\<rparr>)
               else kbind (modify H2 next_block (\<lambda>n. n\<lparr>kb_prev := prev_block\<rparr>)) (\<lambda>H3.
                 kret (prev_block, h\<lparr>heads := H3\<rparr>))))))"

text \<open>Lines 258 to 270: the block absorbs a free one behind it.\<close>

definition kfree_merge_next :: "kheap \<Rightarrow> u32 \<Rightarrow> u32 \<Rightarrow> kheap kres" where
  "kfree_merge_next h free_block next_block =
     (if next_block = 0 then kret h
      else kbind (deref (heads h) next_block) (\<lambda>n.
        if \<not> kb_free n then kret h
        else
          let next_2_block = kb_next n
          in kbind (modify (heads h) free_block
                     (\<lambda>f. f\<lparr>kb_next := next_2_block, kb_size := kb_size f + (kb_size n + HEAD_SIZE)\<rparr>)) (\<lambda>H1.
               kbind (modify H1 next_block (\<lambda>n. n\<lparr>kb_magic := 0\<rparr>)) (\<lambda>H2.
                 if next_2_block = 0 then kret (h\<lparr>heads := H2, kheap_tail := free_block\<rparr>)
                 else kbind (modify H2 next_2_block (\<lambda>n. n\<lparr>kb_prev := free_block\<rparr>)) (\<lambda>H3.
                   kret (h\<lparr>heads := H3\<rparr>))))))"

definition kfree :: "kheap \<Rightarrow> u32 \<Rightarrow> kheap kres" where
  "kfree h ptr =
     (if ptr = 0 then kpanic ''Pointer is NULL''
      else if kheap_is_placement_memory h ptr then kret h
      else if kheap_out_of_range h ptr then kpanic ''Pointer is outside heap range.''
      else kbind (kheap_get_heap_block h ptr) (\<lambda>free_block.
        if free_block = 0 then kpanic ''Invalid heap block magic: memory corrupted.''
        else kbind (deref (heads h) free_block) (\<lambda>f.
          if kb_free f then kpanic ''Double free detected.''
          else
            let h1 = h\<lparr>heads := (heads h)(free_block \<mapsto> f\<lparr>kb_free := True\<rparr>)\<rparr>;
                prev_block = kb_prev f;
                next_block = kb_next f
            in kbind (kfree_merge_prev h1 free_block prev_block next_block) (\<lambda>(free_block', h2).
                 kfree_merge_next h2 free_block' next_block))))"

definition krealloc_flag :: "kheap \<Rightarrow> u32 \<Rightarrow> u32 \<Rightarrow> u32 \<Rightarrow> (u32 \<times> kheap) kres" where
  "krealloc_flag h ptr sz flag =
     (if ptr = 0 then kmalloc_flag h sz flag
      else if kheap_is_placement_memory h ptr then kret (0, h)
      else if kheap_out_of_range h ptr then kpanic ''Pointer is outside heap range.''
      else kbind (kheap_get_heap_block h ptr) (\<lambda>block.
        if block = 0 then kpanic ''Invalid heap block magic: memory corrupted.''
        else kbind (deref (heads h) block) (\<lambda>b.
          if sz \<le> kb_size b then kret (ptr, h)
          else kbind (kmalloc_flag h sz flag) (\<lambda>(new_ptr, h1).
            if new_ptr = 0 then kret (0, h1)
            else kbind (deref (heads h1) block) (\<lambda>b.
              kbind (kfree (h1\<lparr>mem := memcpy (mem h1) new_ptr ptr (kb_size b)\<rparr>) ptr) (\<lambda>h2.
                kret (new_ptr, h2)))))))"

definition krealloc :: "kheap \<Rightarrow> u32 \<Rightarrow> u32 \<Rightarrow> (u32 \<times> kheap) kres" where
  "krealloc h ptr sz = krealloc_flag h ptr sz MALLOC_FLAG_NULL"

definition kheap_is_enabled :: "kheap \<Rightarrow> bool" where
  "kheap_is_enabled h = kheap_enabled h"

definition kheap_get_heap_head :: "kheap \<Rightarrow> u32" where
  "kheap_get_heap_head h = kheap_head h"

end
