(* ===== verification/Heap_Refine.thy ===== *)
theory Heap_Refine
  imports Heap
begin

text \<open>
  The block list as the code means it: the heap region is cut without gaps into blocks, each a
  header followed by its payload.  Abstractly that is a list of payload sizes and free marks.
  The lemmas here show that \<open>kmalloc_heap_base\<close> and \<open>kfree\<close> do on the linked headers what
  \<open>abs_take\<close> and \<open>abs_free\<close> do on that list.
\<close>

type_synonym blocks = "(nat \<times> bool) list"

section \<open>The abstract allocator\<close>

definition span :: "blocks \<Rightarrow> nat" where
  "span bs = (\<Sum>(s, f) \<leftarrow> bs. 20 + s)"

text \<open>The first of the smallest free blocks that pass a test, as position and size.\<close>

fun abs_best :: "(nat \<Rightarrow> nat \<Rightarrow> bool) \<Rightarrow> nat \<Rightarrow> blocks \<Rightarrow> (nat \<times> nat) option \<Rightarrow> (nat \<times> nat) option" where
  "abs_best P a [] best = best"
| "abs_best P a ((s, f) # bs) best =
     abs_best P (a + 20 + s) bs
       (if f \<and> P a s \<and> (case best of None \<Rightarrow> True | Some (t, s') \<Rightarrow> s < s') then Some (a, s) else best)"

definition carve :: "nat \<Rightarrow> nat \<Rightarrow> blocks" where
  "carve n s = (if 20 < s - n then [(n, False), (s - n - 20, True)] else [(s, False)])"

fun abs_take :: "nat \<Rightarrow> nat \<Rightarrow> nat \<Rightarrow> blocks \<Rightarrow> blocks" where
  "abs_take a t n [] = []"
| "abs_take a t n ((s, f) # bs) =
     (if a = t then carve n s @ bs else (s, f) # abs_take (a + 20 + s) t n bs)"

definition merge_back :: "nat \<Rightarrow> blocks \<Rightarrow> blocks" where
  "merge_back s bs =
     (case bs of (s', True) # bs' \<Rightarrow> (s + (s' + 20), True) # bs' | _ \<Rightarrow> (s, True) # bs)"

fun abs_free :: "nat \<Rightarrow> nat \<Rightarrow> blocks \<Rightarrow> blocks" where
  "abs_free a t [] = []"
| "abs_free a t ((s, f) # bs) =
     (if a = t then merge_back s bs
      else if f \<and> bs \<noteq> [] \<and> a + 20 + s = t then merge_back (s + (fst (hd bs) + 20)) (tl bs)
      else (s, f) # abs_free (a + 20 + s) t bs)"

text \<open>The payloads in use, as address and size.\<close>

fun live :: "nat \<Rightarrow> blocks \<Rightarrow> (nat \<times> nat) set" where
  "live a [] = {}"
| "live a ((s, f) # bs) = (if f then {} else {(a + 20, s)}) \<union> live (a + 20 + s) bs"

text \<open>No two neighbours are free: released blocks are merged at once.\<close>

definition no_free_pair :: "blocks \<Rightarrow> bool" where
  "no_free_pair bs \<longleftrightarrow> successively (\<lambda>b b'. \<not> (snd b \<and> snd b')) bs"


section \<open>Linked headers\<close>

definition mk_head :: "nat \<Rightarrow> bool \<Rightarrow> u32 \<Rightarrow> u32 \<Rightarrow> kheap_block_head" where
  "mk_head s f p nx =
     \<lparr>kb_magic = KHEAP_MAGIC, kb_size = of_nat s, kb_free = f, kb_prev = p, kb_next = nx\<rparr>"

fun kseg :: "(u32 \<rightharpoonup> kheap_block_head) \<Rightarrow> u32 \<Rightarrow> nat \<Rightarrow> u32 \<Rightarrow> blocks \<Rightarrow> bool" where
  "kseg H p a nx [] \<longleftrightarrow> True"
| "kseg H p a nx ((s, f) # bs) \<longleftrightarrow>
     H (adr a) = Some (mk_head s f p (if bs = [] then nx else adr (a + 20 + s))) \<and>
     kseg H (adr a) (a + 20 + s) nx bs"

fun seg_last :: "u32 \<Rightarrow> nat \<Rightarrow> blocks \<Rightarrow> u32" where
  "seg_last p a [] = p"
| "seg_last p a ((s, f) # bs) = seg_last (adr a) (a + 20 + s) bs"

lemma mk_head_sel [simp]:
  "kb_magic (mk_head s f p n) = KHEAP_MAGIC" "kb_size (mk_head s f p n) = of_nat s"
  "kb_free (mk_head s f p n) = f" "kb_prev (mk_head s f p n) = p" "kb_next (mk_head s f p n) = n"
  by (simp_all add: mk_head_def)

lemma mk_head_upd [simp]:
  "(mk_head s f p n)\<lparr>kb_free := f'\<rparr> = mk_head s f' p n"
  "(mk_head s f p n)\<lparr>kb_prev := p'\<rparr> = mk_head s f p' n"
  "(mk_head s f p n)\<lparr>kb_next := n'\<rparr> = mk_head s f p n'"
  "(mk_head s f p n)\<lparr>kb_size := of_nat s'\<rparr> = mk_head s' f p n"
  by (simp_all add: mk_head_def)

lemma span_simps [simp]:
  "span [] = 0" "span ((s, f) # bs) = 20 + s + span bs" "span (xs @ ys) = span xs + span ys"
  by (simp_all add: span_def)

lemma span_eq_0 [simp]: "span bs = 0 \<longleftrightarrow> bs = []"
  by (cases bs) auto

lemma kseg_append:
  "kseg H p a nx (xs @ ys) \<longleftrightarrow>
     kseg H p a (if ys = [] then nx else adr (a + span xs)) xs \<and>
     kseg H (seg_last p a xs) (a + span xs) nx ys"
  by (induction xs arbitrary: p a) (auto simp: add.assoc)

lemma seg_last_append: "seg_last p a (xs @ ys) = seg_last (seg_last p a xs) (a + span xs) ys"
  by (induction xs arbitrary: p a) (auto simp: add.assoc)

text \<open>A header written outside a segment leaves the segment alone.\<close>

lemma kseg_upd:
  assumes "y < a \<or> a + span bs \<le> y" and "y < 4294967296" and "a + span bs \<le> 4294967296"
  shows "kseg (H(adr y := v)) p a nx bs = kseg H p a nx bs"
  using assms
proof (induction bs arbitrary: p a)
  case (Cons b bs)
  obtain s f where b: "b = (s, f)"
    by force
  have "adr y \<noteq> adr a"
    using Cons.prems by (subst adr_eq_iff) (auto simp: b)
  then have "(H(adr y := v)) (adr a) = H (adr a)"
    by simp
  moreover have "kseg (H(adr y := v)) q (a + 20 + s) nx bs = kseg H q (a + 20 + s) nx bs" for q
    using Cons.prems by (intro Cons.IH) (auto simp: b)
  ultimately show ?case
    by (simp only: b kseg.simps)
qed simp


section \<open>The best-fit search\<close>

fun frees :: "nat \<Rightarrow> blocks \<Rightarrow> (nat \<times> nat) set" where
  "frees a [] = {}"
| "frees a ((s, f) # bs) = (if f then {(a, s)} else {}) \<union> frees (a + 20 + s) bs"

lemma frees_split:
  "(t, s) \<in> frees a bs \<Longrightarrow> \<exists>xs ys. bs = xs @ (s, True) # ys \<and> t = a + span xs"
proof (induction bs arbitrary: a)
  case (Cons b bs)
  obtain s' f where b: "b = (s', f)"
    by force
  show ?case
  proof (cases "f \<and> (t, s) = (a, s')")
    case True
    then show ?thesis
      by (intro exI [of _ "[]"] exI [of _ bs]) (simp add: b)
  next
    case False
    then have "(t, s) \<in> frees (a + 20 + s') bs"
      using Cons.prems by (auto simp: b split: if_splits)
    then obtain xs ys where "bs = xs @ (s, True) # ys" "t = a + 20 + s' + span xs"
      using Cons.IH by blast
    then show ?thesis
      by (intro exI [of _ "b # xs"] exI [of _ ys]) (simp add: b)
  qed
qed simp

text \<open>What the search finds: a free block that passes the test, and none smaller does.\<close>

definition candidates :: "(nat \<Rightarrow> nat \<Rightarrow> bool) \<Rightarrow> nat \<Rightarrow> blocks \<Rightarrow> (nat \<times> nat) set" where
  "candidates P a bs = {(t, s) \<in> frees a bs. P t s}"

lemma candidates_simps [simp]:
  "candidates P a [] = {}"
  "candidates P a ((s, f) # bs) = (if f \<and> P a s then {(a, s)} else {}) \<union> candidates P (a + 20 + s) bs"
  by (auto simp: candidates_def)

lemma abs_best_spec:
  "case abs_best P a bs best of
     None \<Rightarrow> best = None \<and> candidates P a bs = {}
   | Some (t, s) \<Rightarrow> (t, s) \<in> set_option best \<union> candidates P a bs \<and>
       (\<forall>(t', s') \<in> set_option best \<union> candidates P a bs. s \<le> s')"
proof (induction bs arbitrary: a best)
  case Nil
  then show ?case
    by (auto split: option.split)
next
  case (Cons b bs)
  obtain s f where b: "b = (s, f)"
    by force
  show ?case
    using Cons.IH [where a = "a + 20 + s" and best = "if f \<and> P a s \<and> (case best of None \<Rightarrow> True | Some (t, s') \<Rightarrow> s < s') then Some (a, s) else best"]
    unfolding b abs_best.simps candidates_simps
    by (cases "f \<and> P a s"; cases best) (auto simp: split: option.split_asm if_splits)
qed

lemma abs_best_None: "abs_best P a bs None = None \<longleftrightarrow> candidates P a bs = {}"
  using abs_best_spec [where P = P and a = a and bs = bs and best = None] by (auto split: option.splits)

lemma abs_best_Some:
  assumes "abs_best P a bs None = Some (t, s)"
  shows "(t, s) \<in> candidates P a bs" and "\<And>t' s'. (t', s') \<in> candidates P a bs \<Longrightarrow> s \<le> s'"
  using abs_best_spec [where P = P and a = a and bs = bs and best = None] assms by auto

definition best_ptr :: "(nat \<times> nat) option \<Rightarrow> u32" where
  "best_ptr best = (case best of None \<Rightarrow> 0 | Some (t, s) \<Rightarrow> adr t)"

definition best_ok :: "(u32 \<rightharpoonup> kheap_block_head) \<Rightarrow> (nat \<times> nat) option \<Rightarrow> bool" where
  "best_ok H best \<longleftrightarrow>
     (case best of None \<Rightarrow> True
      | Some (t, s) \<Rightarrow> 0 < t \<and> t < 4294967296 \<and> s < 4294967296 \<and>
          (\<exists>b. H (adr t) = Some b \<and> kb_size b = of_nat s))"

lemma kheap_better_eq:
  assumes "best_ok H best" and "s < 4294967296"
  shows "kheap_better H sz align (adr a) (mk_head s f p nx) (best_ptr best) =
    kret (best_ptr (if f \<and> kheap_fits (adr a) (of_nat s) sz align \<and>
      (case best of None \<Rightarrow> True | Some (t, s') \<Rightarrow> s < s') then Some (a, s) else best))"
  using assms
  by (auto simp: kheap_better_def best_ptr_def best_ok_def word_less_unat
      split: option.splits)

lemma kheap_best_fit_loop_eq:
  assumes "kseg H p a 0 bs" and "0 < a" and "a + span bs < 4294967296" and "best_ok H best"
  shows "kheap_best_fit_loop H sz align (if bs = [] then 0 else adr a) (best_ptr best) =
    kret (best_ptr (abs_best (\<lambda>t s. kheap_fits (adr t) (of_nat s) sz align) a bs best))"
  using assms
proof (induction bs arbitrary: p a best)
  case Nil
  then show ?case
    by (simp add: kheap_best_fit_loop.simps)
next
  case (Cons b bs)
  obtain s f where b: "b = (s, f)"
    by force
  define nx :: u32 where "nx = (if bs = [] then 0 else adr (a + 20 + s))"
  define best' where "best' = (if f \<and> kheap_fits (adr a) (of_nat s) sz align \<and>
      (case best of None \<Rightarrow> True | Some (t, s') \<Rightarrow> s < s') then Some (a, s) else best)"
  have H: "H (adr a) = Some (mk_head s f p nx)" and rest: "kseg H (adr a) (a + 20 + s) 0 bs"
    using Cons.prems(1) by (auto simp: b nx_def)
  have "best_ok H best'"
    using Cons.prems H by (auto simp: best_ok_def best'_def b split: option.splits)
  then have IH: "kheap_best_fit_loop H sz align nx (best_ptr best') =
      kret (best_ptr (abs_best (\<lambda>t s. kheap_fits (adr t) (of_nat s) sz align) (a + 20 + s) bs best'))"
    unfolding nx_def using Cons.prems rest by (intro Cons.IH) (auto simp: b)
  have "adr a \<noteq> 0" and "s < 4294967296"
    using Cons.prems by (simp_all add: b)
  then have "kheap_best_fit_loop H sz align (adr a) (best_ptr best) =
      kheap_best_fit_loop H sz align nx (best_ptr best')"
    using kheap_better_eq [OF Cons.prems(4), of s sz align a f p nx, folded best'_def]
    by (subst kheap_best_fit_loop.simps) (simp add: H)
  then show ?case
    by (simp add: b IH flip: best'_def)
qed

lemma kheap_fits_plain:
  assumes "a + 400 + s < 4294967296" and "a + 400 + n < 4294967296"
  shows "kheap_fits (adr a) (of_nat s) (of_nat n) False \<longleftrightarrow> n \<le> s"
proof -
  have "unat (adr a + 20 * 20 + of_nat k) = a + 400 + k" if "a + 400 + k < 4294967296" for k
    using that by (simp add: unat_add_u32)
  then show ?thesis
    using assms by (simp add: kheap_fits_def HEAD_SIZE_def word_le_unat Let_def)
qed


section \<open>Taking a block\<close>

text \<open>The linked headers from \<open>a\<close> on are the blocks \<open>bs\<close>, inside the address space.\<close>

definition linked :: "kheap \<Rightarrow> nat \<Rightarrow> blocks \<Rightarrow> bool" where
  "linked h a bs \<longleftrightarrow>
     0 < a \<and> a + span bs < 4294967296 \<and> kseg (heads h) 0 a 0 bs \<and> kheap_tail h = seg_last 0 a bs"

text \<open>
  The block at \<open>t\<close> is in place between its neighbours, except that the block behind it need not
  point back to it: that is the state in which the alignment step leaves the list.
\<close>

definition half_linked ::
  "kheap \<Rightarrow> nat \<Rightarrow> blocks \<Rightarrow> nat \<Rightarrow> bool \<Rightarrow> u32 \<Rightarrow> blocks \<Rightarrow> bool" where
  "half_linked h a xs s f q ys \<longleftrightarrow>
     (let t = a + span xs; nx = (if ys = [] then 0 else adr (t + 20 + s)) in
      0 < a \<and> t + 20 + s + span ys < 4294967296 \<and>
      kseg (heads h) 0 a (adr t) xs \<and> heads h (adr t) = Some (mk_head s f (seg_last 0 a xs) nx) \<and>
      kseg (heads h) q (t + 20 + s) 0 ys \<and> (ys \<noteq> [] \<longrightarrow> kheap_tail h = seg_last q (t + 20 + s) ys))"

lemma half_linked_iff:
  "linked h a (xs @ (s, f) # ys) \<longleftrightarrow>
     half_linked h a xs s f (adr (a + span xs)) ys \<and>
     (ys = [] \<longrightarrow> kheap_tail h = adr (a + span xs))"
  by (auto simp: linked_def half_linked_def kseg_append seg_last_append Let_def add.assoc)

lemma kmalloc_take_block_whole:
  assumes link: "linked h a (xs @ (s, f) # ys)" and t: "a + span xs = t"
    and n: "n \<le> s" "\<not> 20 < s - n"
  shows "\<exists>H. kmalloc_take_block h (of_nat n) (adr t) = kret (h\<lparr>heads := H\<rparr>) \<and>
    linked (h\<lparr>heads := H\<rparr>) a (xs @ (s, False) # ys)"
proof -
  let ?p = "seg_last 0 a xs"
  define nx where "nx = (if ys = [] then 0 else adr (t + 20 + s))"
  have top: "0 < a" "t + 20 + s + span ys < 4294967296"
    and xs: "kseg (heads h) 0 a (adr t) xs" and b: "heads h (adr t) = Some (mk_head s f ?p nx)"
    and ys: "kseg (heads h) (adr t) (t + 20 + s) 0 ys"
    and tail: "kheap_tail h = seg_last (adr t) (t + 20 + s) ys"
    using link t by (auto simp: linked_def kseg_append seg_last_append nx_def)
  have "\<not> HEAD_SIZE < of_nat s - of_nat n"
    using n top by (simp add: HEAD_SIZE_def word_less_unat flip: of_nat_diff)
  then have "kmalloc_take_block h (of_nat n) (adr t) =
      kret (h\<lparr>heads := (heads h)(adr t \<mapsto> mk_head s False ?p nx)\<rparr>)"
    by (simp add: kmalloc_take_block_def b Let_def)
  moreover have "linked (h\<lparr>heads := (heads h)(adr t \<mapsto> mk_head s False ?p nx)\<rparr>) a (xs @ (s, False) # ys)"
    using top xs ys t tail
    by (simp add: linked_def kseg_append kseg_upd seg_last_append nx_def)
  ultimately show ?thesis
    by blast
qed

lemma kmalloc_take_block_split:
  assumes link: "half_linked h a xs s f q ys" and t: "a + span xs = t"
    and n: "20 < s - n"
  shows "\<exists>H tp. kmalloc_take_block h (of_nat n) (adr t) = kret (h\<lparr>heads := H, kheap_tail := tp\<rparr>) \<and>
    linked (h\<lparr>heads := H, kheap_tail := tp\<rparr>) a (xs @ (n, False) # (s - n - 20, True) # ys)"
proof -
  let ?p = "seg_last 0 a xs"
  define nx where "nx = (if ys = [] then 0 else adr (t + 20 + s))"
  have top: "0 < a" "t + 20 + s + span ys < 4294967296"
    and xs: "kseg (heads h) 0 a (adr t) xs" and b: "heads h (adr t) = Some (mk_head s f ?p nx)"
    and ys: "kseg (heads h) q (t + 20 + s) 0 ys"
    and tail: "ys \<noteq> [] \<Longrightarrow> kheap_tail h = seg_last q (t + 20 + s) ys"
    using link t by (auto simp: half_linked_def nx_def Let_def)
  define r where "r = t + 20 + n"
  define H1 where "H1 = (heads h)(adr t \<mapsto> mk_head s False ?p nx,
    adr r \<mapsto> mk_head (s - n - 20) True (adr t) nx)"
  have rem: "(of_nat s - of_nat n :: u32) = of_nat (s - n)"
    "(of_nat (s - n) - 20 :: u32) = of_nat (s - n - 20)"
    using n by (simp_all add: of_nat_diff)
  have lt: "HEAD_SIZE < of_nat s - of_nat n"
    unfolding rem using n top by (simp add: HEAD_SIZE_def word_less_unat del: of_nat_diff)
  have r: "adr t + HEAD_SIZE + of_nat n = adr r" "t < r" "r < t + s"
    using n by (simp_all add: r_def adr_add HEAD_SIZE_def)
  have new: "\<lparr>kb_magic = KHEAP_MAGIC, kb_size = of_nat s - of_nat n - HEAD_SIZE, kb_free = True,
      kb_prev = adr t, kb_next = nx\<rparr> = mk_head (s - n - 20) True (adr t) nx"
    by (simp add: mk_head_def rem HEAD_SIZE_def)
  show ?thesis
  proof (cases ys)
    case Nil
    then have nx: "nx = 0"
      by (simp add: nx_def)
    have "kmalloc_take_block h (of_nat n) (adr t) =
        kret (h\<lparr>heads := H1(adr t \<mapsto> mk_head n False ?p (adr r)), kheap_tail := adr r\<rparr>)"
      using lt r top by (simp add: kmalloc_take_block_def b Let_def new [unfolded nx] H1_def nx)
    moreover have "linked (h\<lparr>heads := H1(adr t \<mapsto> mk_head n False ?p (adr r)), kheap_tail := adr r\<rparr>)
        a (xs @ (n, False) # (s - n - 20, True) # ys)"
      using n top xs t r
      by (simp add: linked_def kseg_append kseg_upd seg_last_append Nil H1_def nx_def r_def)
    ultimately show ?thesis
      by blast
  next
    case (Cons y ys')
    obtain s2 f2 where y: "y = (s2, f2)"
      by force
    have nx: "nx = adr (t + 20 + s)"
      by (simp add: nx_def Cons)
    define nx2 where "nx2 = (if ys' = [] then 0 else adr (t + 20 + s + 20 + s2))"
    have b2: "heads h (adr (t + 20 + s)) = Some (mk_head s2 f2 q nx2)"
      and ys': "kseg (heads h) (adr (t + 20 + s)) (t + 20 + s + 20 + s2) 0 ys'"
      using ys by (simp_all add: Cons y nx2_def)
    define H3 where "H3 = H1(adr (t + 20 + s) \<mapsto> mk_head s2 f2 (adr r) nx2,
      adr t \<mapsto> mk_head n False ?p (adr r))"
    have "kmalloc_take_block h (of_nat n) (adr t) = kret (h\<lparr>heads := H3\<rparr>)"
      using lt r top b2
      by (simp add: kmalloc_take_block_def b Let_def new [unfolded nx] H1_def H3_def nx y)
    moreover have "linked (h\<lparr>heads := H3\<rparr>) a (xs @ (n, False) # (s - n - 20, True) # ys)"
      using n top xs t r ys' tail
      by (simp add: linked_def kseg_append kseg_upd seg_last_append Cons y H1_def H3_def
          nx_def nx2_def r_def ac_simps)
    ultimately show ?thesis
      by (intro exI [of _ H3] exI [of _ "kheap_tail h"]) simp
  qed
qed

lemma kmalloc_take_block_linked:
  assumes link: "linked h a (xs @ (s, f) # ys)" and t: "a + span xs = t" and n: "n \<le> s"
  shows "\<exists>H tp. kmalloc_take_block h (of_nat n) (adr t) = kret (h\<lparr>heads := H, kheap_tail := tp\<rparr>) \<and>
    linked (h\<lparr>heads := H, kheap_tail := tp\<rparr>) a (xs @ carve n s @ ys)"
proof (cases "20 < s - n")
  case True
  moreover have "half_linked h a xs s f (adr (a + span xs)) ys"
    using link by (simp add: half_linked_iff)
  ultimately show ?thesis
    using kmalloc_take_block_split [OF _ t] by (simp add: carve_def)
next
  case False
  then obtain H where "kmalloc_take_block h (of_nat n) (adr t) = kret (h\<lparr>heads := H\<rparr>)"
    "linked (h\<lparr>heads := H\<rparr>) a (xs @ (s, False) # ys)"
    using kmalloc_take_block_whole [OF link t n] by blast
  then show ?thesis
    using False by (intro exI [of _ H] exI [of _ "kheap_tail h"]) (simp add: carve_def)
qed


section \<open>The heap invariant\<close>

text \<open>
  The enabled heap occupies 32 MB from \<^verbatim>\<open>kheap_base\<close>, clear of the end of the address space (the
  best-fit test computes addresses up to 400 bytes behind a block) and of the placement memory.
\<close>

definition heap_inv :: "kheap \<Rightarrow> blocks \<Rightarrow> bool" where
  "heap_inv h bs \<longleftrightarrow>
     kheap_enabled h \<and> linked h (unat (kheap_base h)) bs \<and> span bs = 0x2000000 \<and>
     kheap_head h = kheap_base h \<and> unat (kheap_base h) + 0x2000000 + 400 < 4294967296 \<and>
     no_free_pair bs \<and> (\<forall>b \<in> set bs. 0 < fst b) \<and> unat (placement_memory h) + 0x100000 < 4294967296 \<and>
     (unat (placement_memory h) + 0x100000 \<le> unat (kheap_base h) \<or>
      unat (kheap_base h) + 0x2000000 \<le> unat (placement_memory h))"

lemma span_carve [simp]: "n \<le> s \<Longrightarrow> span (carve n s) = 20 + s"
  by (simp add: carve_def)

lemma abs_take_split: "abs_take a (a + span xs) n (xs @ (s, f) # ys) = xs @ carve n s @ ys"
proof (induction xs arbitrary: a)
  case (Cons x xs)
  then show ?case
    using Cons.IH [of "a + 20 + fst x"] by (cases x) (simp add: ac_simps)
qed simp

lemma no_free_pair_simps:
  "no_free_pair (xs @ ys) \<longleftrightarrow> no_free_pair xs \<and> no_free_pair ys \<and>
     (xs = [] \<or> ys = [] \<or> \<not> (snd (last xs) \<and> snd (hd ys)))"
  "no_free_pair (b # bs) \<longleftrightarrow> no_free_pair bs \<and> (bs = [] \<or> \<not> (snd b \<and> snd (hd bs)))"
  "no_free_pair []"
  by (auto simp: no_free_pair_def successively_append_iff successively_Cons)

lemma no_free_pair_carve:
  "no_free_pair (xs @ (s, True) # ys) \<Longrightarrow> no_free_pair (xs @ carve n s @ ys)"
  by (auto simp: no_free_pair_simps carve_def)

lemma sizes_carve:
  "0 < n \<Longrightarrow> n \<le> s \<Longrightarrow> \<forall>b \<in> set (xs @ (s, f) # ys). 0 < fst b \<Longrightarrow>
   \<forall>b \<in> set (xs @ carve n s @ ys). 0 < fst b"
  by (auto simp: carve_def)

lemma heap_inv_heads:
  "heap_inv h bs \<Longrightarrow> linked (h\<lparr>heads := H, kheap_tail := tp, mem := m\<rparr>) (unat (kheap_base h)) bs' \<Longrightarrow>
   span bs' = span bs \<Longrightarrow> no_free_pair bs' \<Longrightarrow> \<forall>b \<in> set bs'. 0 < fst b \<Longrightarrow>
   heap_inv (h\<lparr>heads := H, kheap_tail := tp, mem := m\<rparr>) bs'"
  by (simp add: heap_inv_def)

lemma kheap_find_best_fit_eq:
  assumes "heap_inv h bs"
  shows "kheap_find_best_fit h sz align = kret (best_ptr (abs_best
    (\<lambda>t s. kheap_fits (adr t) (of_nat s) sz align) (unat (kheap_base h)) bs None))"
proof -
  have "kseg (heads h) 0 (unat (kheap_base h)) 0 bs" "0 < unat (kheap_base h)"
    "unat (kheap_base h) + span bs < 4294967296" "bs \<noteq> []"
    using assms by (auto simp: heap_inv_def linked_def)
  then show ?thesis
    using kheap_best_fit_loop_eq [of "heads h" 0 "unat (kheap_base h)" bs None sz align] assms
    by (simp add: kheap_find_best_fit_def heap_inv_def best_ptr_def best_ok_def)
qed

lemma abs_best_cong:
  assumes "\<And>t s. (t, s) \<in> frees a bs \<Longrightarrow> P t s = Q t s"
  shows "abs_best P a bs best = abs_best Q a bs best"
  using assms by (induction bs arbitrary: a best) (auto split: if_splits)

lemma frees_bounds: "(t, s) \<in> frees a bs \<Longrightarrow> a \<le> t \<and> t + 20 + s \<le> a + span bs"
  by (auto dest: frees_split)

lemma kheap_find_best_fit_plain:
  assumes "heap_inv h bs" and "unat (kheap_base h) + 0x2000000 + 400 + n < 4294967296"
  shows "kheap_find_best_fit h (of_nat n) False =
    kret (best_ptr (abs_best (\<lambda>t s. n \<le> s) (unat (kheap_base h)) bs None))"
proof -
  have "abs_best (\<lambda>t s. kheap_fits (adr t) (of_nat s) (of_nat n) False) (unat (kheap_base h)) bs None =
      abs_best (\<lambda>t s. n \<le> s) (unat (kheap_base h)) bs None"
    using assms by (intro abs_best_cong kheap_fits_plain) (auto simp: heap_inv_def dest!: frees_bounds)
  then show ?thesis
    by (simp add: kheap_find_best_fit_eq [OF assms(1)])
qed

lemma kmalloc_heap_base_plain:
  assumes inv: "heap_inv h bs" and fl: "flag AND MALLOC_FLAG_ALIGN = 0" and n: "0 < n"
    and lim: "unat (kheap_base h) + 0x2000000 + 400 + n < 4294967296"
  shows "case abs_best (\<lambda>t s. n \<le> s) (unat (kheap_base h)) bs None of
      None \<Rightarrow> kmalloc_heap_base h (of_nat n) flag = kret (0, h)
    | Some (t, s) \<Rightarrow> \<exists>h'. kmalloc_heap_base h (of_nat n) flag = kret (adr (t + 20), h') \<and>
        heap_inv h' (abs_take (unat (kheap_base h)) t n bs) \<and> kheap_base h' = kheap_base h \<and>
        mem h' = (if flag AND MALLOC_FLAG_INIT = 0 then mem h
          else memset (mem h) (adr (t + 20)) 0 (of_nat (fst (hd (carve n s)))))"
proof (cases "abs_best (\<lambda>t s. n \<le> s) (unat (kheap_base h)) bs None")
  case None
  then show ?thesis
    using kheap_find_best_fit_plain [OF inv lim] fl
    by (simp add: kmalloc_heap_base_def best_ptr_def)
next
  case (Some ts)
  obtain t s where ts: "ts = (t, s)"
    by force
  let ?a = "unat (kheap_base h)"
  have cand: "(t, s) \<in> candidates (\<lambda>t s. n \<le> s) ?a bs"
    using Some by (intro abs_best_Some) (simp add: ts)
  then have fits: "n \<le> s"
    by (simp add: candidates_def)
  obtain xs ys where bs: "bs = xs @ (s, True) # ys" and t: "?a + span xs = t"
    using cand frees_split [of t s ?a bs] by (auto simp: candidates_def)
  have link: "linked h ?a (xs @ (s, True) # ys)"
    using inv by (simp add: heap_inv_def bs)
  obtain H tp where take: "kmalloc_take_block h (of_nat n) (adr t) = kret (h\<lparr>heads := H, kheap_tail := tp\<rparr>)"
    and link': "linked (h\<lparr>heads := H, kheap_tail := tp\<rparr>) ?a (xs @ carve n s @ ys)"
    using kmalloc_take_block_linked [OF link t fits] by blast
  have size: "\<exists>b. H (adr t) = Some b \<and> kb_size b = of_nat (fst (hd (carve n s)))"
    using link' by (auto simp: linked_def kseg_append t carve_def split: if_splits)
  have nz: "adr t \<noteq> 0" "(of_nat n :: u32) \<noteq> 0"
    using link t n lim by (auto simp: linked_def of_nat_u32_eq_0)
  define m where "m = (if flag AND MALLOC_FLAG_INIT = 0 then mem h
          else memset (mem h) (adr (t + 20)) 0 (of_nat (fst (hd (carve n s)))))"
  have "kmalloc_heap_base h (of_nat n) flag = kret (adr (t + 20), h\<lparr>heads := H, kheap_tail := tp, mem := m\<rparr>)"
    using kheap_find_best_fit_plain [OF inv lim] fl nz take size
    by (auto simp: kmalloc_heap_base_def kmalloc_align_block_def best_ptr_def Some ts adr_add
        HEAD_SIZE_def m_def Let_def)
  moreover have "heap_inv (h\<lparr>heads := H, kheap_tail := tp, mem := m\<rparr>) (xs @ carve n s @ ys)"
  proof (rule heap_inv_heads [OF inv])
    show "linked (h\<lparr>heads := H, kheap_tail := tp, mem := m\<rparr>) ?a (xs @ carve n s @ ys)"
      using link' by (simp add: linked_def)
    show "no_free_pair (xs @ carve n s @ ys)"
      using inv by (intro no_free_pair_carve) (simp add: heap_inv_def bs)
    show "\<forall>b \<in> set (xs @ carve n s @ ys). 0 < fst b"
      using inv by (intro sizes_carve [OF n fits]) (simp add: heap_inv_def bs)
  qed (simp add: bs fits)
  moreover have "abs_take ?a t n bs = xs @ carve n s @ ys"
    unfolding bs t [symmetric] by (rule abs_take_split)
  ultimately show ?thesis
    by (simp add: Some ts m_def)
qed

end
