(* ===== verification/Heap_Free.thy ===== *)
theory Heap_Free
  imports Heap_Refine
begin

text \<open>
  Release and resize on the block list, the payloads in use, and the properties of the heap
  allocator that its callers rely on.
\<close>

section \<open>Merging neighbours\<close>

lemma mk_head_grow:
  "(mk_head s0 f p q)\<lparr>kb_size := of_nat s0 + (of_nat s1 + HEAD_SIZE)\<rparr> = mk_head (s0 + (s1 + 20)) f p q"
  by (simp add: mk_head_def HEAD_SIZE_def)

lemma linked_merge:
  assumes link: "linked h a (xs @ (s0, f0) # (s1, f1) # ys)" and t: "a + span xs = t"
    and H: "H = (heads h)(adr t \<mapsto> mk_head (s0 + (s1 + 20)) f0 (seg_last 0 a xs)
      (if ys = [] then 0 else adr (t + 40 + s0 + s1)), adr (t + 20 + s0) \<mapsto> X)"
  shows "ys = [] \<Longrightarrow> linked (h\<lparr>heads := H, kheap_tail := adr t\<rparr>) a (xs @ [(s0 + (s1 + 20), f0)])"
    and "ys = (s2, f2) # zs \<Longrightarrow>
      linked (h\<lparr>heads := H(adr (t + 40 + s0 + s1) \<mapsto>
        mk_head s2 f2 (adr t) (if zs = [] then 0 else adr (t + 60 + s0 + s1 + s2)))\<rparr>)
        a (xs @ (s0 + (s1 + 20), f0) # (s2, f2) # zs)"
proof -
  have top: "0 < a" "t + 40 + s0 + s1 + span ys < 4294967296"
    and xs: "kseg (heads h) 0 a (adr t) xs"
    and ys: "kseg (heads h) (adr (t + 20 + s0)) (t + 40 + s0 + s1) 0 ys"
    and tail: "kheap_tail h = seg_last (adr (t + 20 + s0)) (t + 40 + s0 + s1) ys"
    using link t by (auto simp: linked_def kseg_append seg_last_append ac_simps)
  show "linked (h\<lparr>heads := H, kheap_tail := adr t\<rparr>) a (xs @ [(s0 + (s1 + 20), f0)])" if "ys = []"
    using top xs t that by (simp add: H linked_def kseg_append kseg_upd seg_last_append)
  show "linked (h\<lparr>heads := H(adr (t + 40 + s0 + s1) \<mapsto>
        mk_head s2 f2 (adr t) (if zs = [] then 0 else adr (t + 60 + s0 + s1 + s2)))\<rparr>)
        a (xs @ (s0 + (s1 + 20), f0) # (s2, f2) # zs)" if "ys = (s2, f2) # zs"
    using top xs t ys tail that
    by (simp add: H linked_def kseg_append kseg_upd seg_last_append ac_simps)
qed

lemma kfree_merge_next_linked:
  assumes link: "linked h a (xs @ (s0, f0) # (s1, True) # ys)" and t: "a + span xs = t"
  shows "\<exists>H tp. kfree_merge_next h (adr t) (adr (t + 20 + s0)) = kret (h\<lparr>heads := H, kheap_tail := tp\<rparr>) \<and>
    linked (h\<lparr>heads := H, kheap_tail := tp\<rparr>) a (xs @ (s0 + (s1 + 20), f0) # ys) \<and>
    (\<forall>x. t < x \<and> x < t + 20 + s0 \<longrightarrow> H (adr x) = heads h (adr x))"
proof -
  define nx where "nx = (if ys = [] then 0 else adr (t + 40 + s0 + s1))"
  have top: "0 < a" "t + 40 + s0 + s1 + span ys < 4294967296"
    and b: "heads h (adr t) = Some (mk_head s0 f0 (seg_last 0 a xs) (adr (t + 20 + s0)))"
      "heads h (adr (t + 20 + s0)) = Some (mk_head s1 True (adr t) nx)"
    and ys: "kseg (heads h) (adr (t + 20 + s0)) (t + 40 + s0 + s1) 0 ys"
    using link t by (auto simp: linked_def kseg_append nx_def ac_simps)
  define H where "H = (heads h)(adr t \<mapsto> mk_head (s0 + (s1 + 20)) f0 (seg_last 0 a xs) nx,
    adr (t + 20 + s0) \<mapsto> (mk_head s1 True (adr t) nx)\<lparr>kb_magic := 0\<rparr>)"
  note merged = linked_merge [OF link t, of H, OF H_def [unfolded nx_def]]
  show ?thesis
  proof (cases ys)
    case Nil
    have "kfree_merge_next h (adr t) (adr (t + 20 + s0)) = kret (h\<lparr>heads := H, kheap_tail := adr t\<rparr>)"
      using top b by (simp add: kfree_merge_next_def Let_def H_def mk_head_grow nx_def Nil)
    moreover have "H (adr x) = heads h (adr x)" if "t < x" "x < t + 20 + s0" for x
      using that top by (simp add: H_def)
    ultimately show ?thesis
      using merged(1) Nil by blast
  next
    case (Cons y zs)
    obtain s2 f2 where y: "y = (s2, f2)"
      by force
    define H3 where "H3 = H(adr (t + 40 + s0 + s1) \<mapsto>
        mk_head s2 f2 (adr t) (if zs = [] then 0 else adr (t + 60 + s0 + s1 + s2)))"
    have b2: "heads h (adr (t + 40 + s0 + s1)) = Some (mk_head s2 f2 (adr (t + 20 + s0))
        (if zs = [] then 0 else adr (t + 60 + s0 + s1 + s2)))"
      using ys by (simp add: Cons y ac_simps)
    have nx: "nx = adr (t + 40 + s0 + s1)"
      by (simp add: nx_def Cons)
    have "kfree_merge_next h (adr t) (adr (t + 20 + s0)) = kret (h\<lparr>heads := H3\<rparr>)"
      using top b b2
      by (simp add: kfree_merge_next_def Let_def H_def H3_def mk_head_grow nx)
    moreover have "H3 (adr x) = heads h (adr x)" if "t < x" "x < t + 20 + s0" for x
      using that top by (simp add: H_def H3_def)
    ultimately show ?thesis
      using merged(2) [of s2 f2 zs] by (intro exI [of _ H3] exI [of _ "kheap_tail h"]) (simp add: Cons y H3_def)
  qed
qed

lemma kfree_merge_prev_linked:
  assumes link: "linked h a (xs @ (s0, True) # (s1, f1) # ys)" and t: "a + span xs = t"
    and nx: "nx = (if ys = [] then 0 else adr (t + 40 + s0 + s1))"
  shows "\<exists>H tp. kfree_merge_prev h (adr (t + 20 + s0)) (adr t) nx =
      kret (adr t, h\<lparr>heads := H, kheap_tail := tp\<rparr>) \<and>
    linked (h\<lparr>heads := H, kheap_tail := tp\<rparr>) a (xs @ (s0 + (s1 + 20), True) # ys) \<and>
    (\<exists>b. H (adr (t + 20 + s0)) = Some b \<and> kb_magic b = 0)"
proof -
  have top: "0 < a" "t + 40 + s0 + s1 + span ys < 4294967296"
    and b: "heads h (adr t) = Some (mk_head s0 True (seg_last 0 a xs) (adr (t + 20 + s0)))"
      "heads h (adr (t + 20 + s0)) = Some (mk_head s1 f1 (adr t) nx)"
    and ys: "kseg (heads h) (adr (t + 20 + s0)) (t + 40 + s0 + s1) 0 ys"
    using link t by (auto simp: linked_def kseg_append nx ac_simps)
  define H where "H = (heads h)(adr t \<mapsto> mk_head (s0 + (s1 + 20)) True (seg_last 0 a xs) nx,
    adr (t + 20 + s0) \<mapsto> (mk_head s1 f1 (adr t) nx)\<lparr>kb_magic := 0\<rparr>)"
  note merged = linked_merge [OF link t, of H, OF H_def [unfolded nx]]
  show ?thesis
  proof (cases ys)
    case Nil
    have "kfree_merge_prev h (adr (t + 20 + s0)) (adr t) nx =
        kret (adr t, h\<lparr>heads := H, kheap_tail := adr t\<rparr>)"
      using top b t by (simp add: kfree_merge_prev_def Let_def H_def mk_head_grow nx Nil)
    moreover have "\<exists>b. H (adr (t + 20 + s0)) = Some b \<and> kb_magic b = 0"
      by (simp add: H_def)
    ultimately show ?thesis
      using merged(1) Nil by blast
  next
    case (Cons y zs)
    obtain s2 f2 where y: "y = (s2, f2)"
      by force
    define H3 where "H3 = H(adr (t + 40 + s0 + s1) \<mapsto>
        mk_head s2 f2 (adr t) (if zs = [] then 0 else adr (t + 60 + s0 + s1 + s2)))"
    have b2: "heads h (adr (t + 40 + s0 + s1)) = Some (mk_head s2 f2 (adr (t + 20 + s0))
        (if zs = [] then 0 else adr (t + 60 + s0 + s1 + s2)))"
      using ys by (simp add: Cons y ac_simps)
    have nx': "nx = adr (t + 40 + s0 + s1)"
      by (simp add: nx Cons)
    have "kfree_merge_prev h (adr (t + 20 + s0)) (adr t) nx = kret (adr t, h\<lparr>heads := H3\<rparr>)"
      using top b b2 t
      by (simp add: kfree_merge_prev_def Let_def H_def H3_def mk_head_grow nx')
    moreover have "\<exists>b. H3 (adr (t + 20 + s0)) = Some b \<and> kb_magic b = 0"
      using top by (simp add: H_def H3_def)
    ultimately show ?thesis
      using merged(2) [of s2 f2 zs] by (intro exI [of _ H3] exI [of _ "kheap_tail h"]) (simp add: Cons y H3_def)
  qed
qed

section \<open>Release\<close>

text \<open>The blocks in front and the size after a free block in front has absorbed the released one.\<close>

definition absorb :: "blocks \<Rightarrow> nat \<Rightarrow> blocks \<times> nat" where
  "absorb xs s = (if xs \<noteq> [] \<and> snd (last xs) then (butlast xs, fst (last xs) + (s + 20)) else (xs, s))"

lemma absorb_cases:
  obtains "absorb xs s = (xs, s)" "xs = [] \<or> \<not> snd (last xs)"
  | zs s0 where "xs = zs @ [(s0, True)]" "absorb xs s = (zs, s0 + (s + 20))"
proof (cases "xs \<noteq> [] \<and> snd (last xs)")
  case True
  then have "xs = butlast xs @ [(fst (last xs), True)]"
    by (metis append_butlast_last_id prod.collapse)
  then show ?thesis
    using that(2) True by (simp add: absorb_def)
next
  case False
  then show ?thesis
    using that(1) by (auto simp: absorb_def)
qed

lemma abs_free_split:
  "absorb xs s = (zs, s') \<Longrightarrow>
   abs_free a (a + span xs) (xs @ (s, False) # ys) = zs @ merge_back s' ys"
proof (induction xs arbitrary: a zs)
  case Nil
  then show ?case
    by (simp add: absorb_def)
next
  case (Cons x xs)
  obtain s1 f1 where x: "x = (s1, f1)"
    by force
  show ?case
  proof (cases "xs = []")
    case True
    then show ?thesis
      using Cons.prems by (auto simp: x absorb_def split: if_splits)
  next
    case False
    then have "absorb xs s = (tl zs, s')" "zs = x # tl zs"
      using Cons.prems by (auto simp: absorb_def split: if_splits)
    then show ?thesis
      using Cons.IH [of "tl zs" "a + 20 + s1"] False by (simp add: x ac_simps)
  qed
qed

lemma linked_mark:
  assumes link: "linked h a (xs @ (s, f) # ys)" and t: "a + span xs = t"
    and nx: "nx = (if ys = [] then 0 else adr (t + 20 + s))"
  shows "linked (h\<lparr>heads := (heads h)(adr t \<mapsto> mk_head s f' (seg_last 0 a xs) nx)\<rparr>) a (xs @ (s, f') # ys)"
  using link t by (simp add: nx linked_def kseg_append kseg_upd seg_last_append)

lemma linked_head:
  assumes "linked h a (xs @ (s, f) # ys)"
  shows "heads h (adr (a + span xs)) =
    Some (mk_head s f (seg_last 0 a xs) (if ys = [] then 0 else adr (a + span xs + 20 + s)))"
  using assms by (simp add: linked_def kseg_append)

lemma kfree_merge_next_back:
  assumes link: "linked h a (xs @ (s, True) # ys)" and t: "a + span xs = t"
    and nx: "nx = (if ys = [] then 0 else adr (t + 20 + s))"
  shows "\<exists>H tp. kfree_merge_next h (adr t) nx = kret (h\<lparr>heads := H, kheap_tail := tp\<rparr>) \<and>
    linked (h\<lparr>heads := H, kheap_tail := tp\<rparr>) a (xs @ merge_back s ys) \<and>
    (\<forall>x. t < x \<and> x < t + 20 + s \<longrightarrow> H (adr x) = heads h (adr x))"
proof -
  have same: ?thesis if "kfree_merge_next h (adr t) nx = kret h" "merge_back s ys = (s, True) # ys"
    using that link by (intro exI [of _ "heads h"] exI [of _ "kheap_tail h"]) simp
  show ?thesis
  proof (cases ys)
    case Nil
    then show ?thesis
      by (intro same) (simp_all add: nx kfree_merge_next_def merge_back_def)
  next
    case (Cons y zs)
    obtain s1 f1 where y: "y = (s1, f1)"
      by force
    show ?thesis
    proof (cases f1)
      case True
      then show ?thesis
        using kfree_merge_next_linked [of h a xs s True s1 zs t] link t
        by (simp add: nx Cons y merge_back_def)
    next
      case False
      have "heads h (adr (t + 20 + s)) = Some (mk_head s1 False (adr t)
          (if zs = [] then 0 else adr (t + 20 + s + 20 + s1)))"
        using link t False by (simp add: linked_def kseg_append Cons y)
      then show ?thesis
        using False by (intro same) (simp_all add: nx kfree_merge_next_def Cons y merge_back_def)
    qed
  qed
qed

lemma seg_last_snoc: "seg_last p a (xs @ [(s, f)]) = adr (a + span xs)"
  by (simp add: seg_last_append)

lemma seg_last_head:
  assumes "linked h a (xs @ ys)" and "xs \<noteq> []"
  shows "seg_last 0 a xs \<noteq> 0 \<and>
    (\<exists>b. heads h (seg_last 0 a xs) = Some b \<and> kb_free b = snd (last xs))"
proof -
  obtain zs s f where xs: "xs = zs @ [(s, f)]"
    using assms(2) by (metis rev_exhaust surj_pair)
  have "0 < a" "a + span zs < 4294967296"
    using assms(1) by (auto simp: linked_def xs)
  then show ?thesis
    using linked_head [of h a zs s f ys] assms(1) by (simp add: xs seg_last_snoc)
qed

lemma kfree_merge_prev_absorb:
  assumes link: "linked h a (xs @ (s, True) # ys)" and t: "a + span xs = t"
    and nx: "nx = (if ys = [] then 0 else adr (t + 20 + s))" and ab: "absorb xs s = (zs, s')"
  shows "\<exists>H tp. kfree_merge_prev h (adr t) (seg_last 0 a xs) nx =
      kret (adr (a + span zs), h\<lparr>heads := H, kheap_tail := tp\<rparr>) \<and>
    linked (h\<lparr>heads := H, kheap_tail := tp\<rparr>) a (zs @ (s', True) # ys) \<and>
    (t = a + span zs \<or> a + span zs < t \<and> t < a + span zs + 20 + s' \<and>
       (\<exists>b. H (adr t) = Some b \<and> kb_magic b = 0)) \<and>
    nx = (if ys = [] then 0 else adr (a + span zs + 20 + s'))"
proof (cases rule: absorb_cases [of xs s])
  case 1
  have "kfree_merge_prev h (adr t) (seg_last 0 a xs) nx = kret (adr t, h)"
    using seg_last_head [OF link] 1(2) by (cases "xs = []") (auto simp: kfree_merge_prev_def)
  then show ?thesis
    using 1(1) ab link nx t by (intro exI [of _ "heads h"] exI [of _ "kheap_tail h"]) simp
next
  case (2 ws s0)
  then have t': "t = a + span zs + 20 + s0" "zs = ws" "s' = s0 + (s + 20)"
    using t ab by simp_all
  have nx': "nx = (if ys = [] then 0 else adr (a + span zs + 40 + s0 + s))"
    by (simp add: nx t' ac_simps)
  have "linked h a (zs @ (s0, True) # (s, True) # ys)"
    using link by (simp add: 2 t')
  from kfree_merge_prev_linked [OF this refl nx'] obtain H tp where
    "kfree_merge_prev h (adr t) (adr (a + span zs)) nx = kret (adr (a + span zs), h\<lparr>heads := H, kheap_tail := tp\<rparr>)"
    "linked (h\<lparr>heads := H, kheap_tail := tp\<rparr>) a (zs @ (s', True) # ys)"
    "\<exists>b. H (adr t) = Some b \<and> kb_magic b = 0"
    unfolding t' by blast
  then show ?thesis
    by (intro exI [of _ H] exI [of _ tp]) (simp add: 2 t' seg_last_snoc nx' ac_simps)
qed

lemma no_free_pair_free:
  assumes "no_free_pair (xs @ (s, False) # ys)" and "absorb xs s = (zs, s')"
  shows "no_free_pair (zs @ merge_back s' ys)"
proof -
  have "no_free_pair (merge_back s' ys)"
    using assms(1) by (auto simp: merge_back_def no_free_pair_simps split: list.split bool.split)
  moreover have "snd (hd (merge_back s' ys))" "merge_back s' ys \<noteq> []"
    by (auto simp: merge_back_def split: list.split bool.split)
  ultimately show ?thesis
    using assms by (cases rule: absorb_cases [of xs s]) (auto simp: no_free_pair_simps)
qed

lemma sizes_free:
  "\<forall>b \<in> set (xs @ (s, False) # ys). 0 < fst b \<Longrightarrow> absorb xs s = (zs, s') \<Longrightarrow>
   \<forall>b \<in> set (zs @ merge_back s' ys). 0 < fst b"
  by (cases rule: absorb_cases [of xs s]) (auto simp: merge_back_def split: list.splits bool.splits)

lemma span_merge_back [simp]: "span (merge_back s ys) = 20 + s + span ys"
  by (auto simp: merge_back_def split: list.split bool.split)

lemma span_absorb: "absorb xs s = (zs, s') \<Longrightarrow> span zs + s' = span xs + s"
  by (cases rule: absorb_cases [of xs s]) auto

lemma heap_inv_range:
  assumes inv: "heap_inv h bs" and p: "unat (kheap_base h) \<le> p" "p < unat (kheap_base h) + 0x2000000"
  shows "\<not> kheap_is_placement_memory h (adr p)" and "\<not> kheap_out_of_range h (adr p)"
proof -
  have u: "unat (adr p) = p" "unat (kheap_base h + 0x2000000) = unat (kheap_base h) + 0x2000000"
    "unat (placement_memory h + 0x100000) = unat (placement_memory h) + 0x100000"
    using inv p by (simp_all add: heap_inv_def unat_add_u32)
  show "\<not> kheap_is_placement_memory h (adr p)"
    unfolding kheap_is_placement_memory_def Let_def KHEAP_PLACEMENT_SIZE_def word_le_unat word_less_unat u
    using inv p unfolding heap_inv_def by linarith
  show "\<not> kheap_out_of_range h (adr p)"
    unfolding kheap_out_of_range_def KHEAP_HEAP_SIZE_def word_le_unat word_less_unat u
    using p by linarith
qed

text \<open>Releasing a block in use succeeds, and the headers then are those of \<open>abs_free\<close>.\<close>

lemma kfree_block:
  assumes inv: "heap_inv h bs" and bs: "bs = xs @ (s, False) # ys"
    and t: "unat (kheap_base h) + span xs = t"
  shows "\<exists>H tp. kfree h (adr (t + 20)) = kret (h\<lparr>heads := H, kheap_tail := tp\<rparr>) \<and>
    (\<exists>b. H (adr t) = Some b \<and> (kb_magic b = 0 \<or> kb_free b)) \<and>
    heap_inv (h\<lparr>heads := H, kheap_tail := tp\<rparr>) (abs_free (unat (kheap_base h)) t bs)"
proof -
  let ?a = "unat (kheap_base h)"
  obtain zs s' where ab: "absorb xs s = (zs, s')"
    by force
  define nx where "nx = (if ys = [] then 0 else adr (t + 20 + s))"
  have link: "linked h ?a (xs @ (s, False) # ys)" and s: "0 < s" and base: "?a + 0x2000000 + 400 < 4294967296"
    and sp: "span xs + 20 + s + span ys = 0x2000000" and "0 < ?a"
    using inv by (auto simp: heap_inv_def bs linked_def)
  have b: "heads h (adr t) = Some (mk_head s False (seg_last 0 ?a xs) nx)"
    using linked_head [OF link] by (simp add: t nx_def)
  define h1 where "h1 = h\<lparr>heads := (heads h)(adr t \<mapsto> mk_head s True (seg_last 0 ?a xs) nx)\<rparr>"
  have "linked h1 ?a (xs @ (s, True) # ys)"
    unfolding h1_def using link t nx_def by (rule linked_mark)
  from kfree_merge_prev_absorb [OF this t nx_def ab] obtain H2 tp2 where
    prev: "kfree_merge_prev h1 (adr t) (seg_last 0 ?a xs) nx =
      kret (adr (?a + span zs), h1\<lparr>heads := H2, kheap_tail := tp2\<rparr>)"
    and link2: "linked (h1\<lparr>heads := H2, kheap_tail := tp2\<rparr>) ?a (zs @ (s', True) # ys)"
    and nx2: "nx = (if ys = [] then 0 else adr (?a + span zs + 20 + s'))"
    and dead: "t = ?a + span zs \<or> ?a + span zs < t \<and> t < ?a + span zs + 20 + s' \<and>
       (\<exists>b. H2 (adr t) = Some b \<and> kb_magic b = 0)"
    by (auto simp: h1_def)
  from kfree_merge_next_back [OF link2 refl nx2] obtain H3 tp3 where
    nxt: "kfree_merge_next (h1\<lparr>heads := H2, kheap_tail := tp2\<rparr>) (adr (?a + span zs)) nx =
      kret (h\<lparr>heads := H3, kheap_tail := tp3\<rparr>)"
    and link3: "linked (h\<lparr>heads := H3, kheap_tail := tp3\<rparr>) ?a (zs @ merge_back s' ys)"
    and frame: "\<forall>x. ?a + span zs < x \<and> x < ?a + span zs + 20 + s' \<longrightarrow> H3 (adr x) = H2 (adr x)"
    by (auto simp: h1_def)
  have dead3: "\<exists>b. H3 (adr t) = Some b \<and> (kb_magic b = 0 \<or> kb_free b)"
  proof (cases "t = ?a + span zs")
    case True
    then show ?thesis
      using link3 by (auto simp: linked_def kseg_append merge_back_def split: list.splits bool.splits)
  next
    case False
    then show ?thesis
      using dead frame by auto
  qed
  have range: "\<not> kheap_is_placement_memory h (adr (t + 20))" "\<not> kheap_out_of_range h (adr (t + 20))"
    using heap_inv_range [OF inv, of "t + 20"] sp t s by simp_all
  have nz: "adr (t + 20) \<noteq> 0" "adr t \<noteq> 0" "adr (t + 20) - HEAD_SIZE = adr t"
    using sp t base \<open>0 < ?a\<close> by (simp, simp, simp add: adr_add HEAD_SIZE_def)
  have "kfree h (adr (t + 20)) = kret (h\<lparr>heads := H3, kheap_tail := tp3\<rparr>)"
    using nz range b prev nxt by (simp add: kfree_def kheap_get_heap_block_def Let_def h1_def)
  moreover have "heap_inv (h\<lparr>heads := H3, kheap_tail := tp3, mem := mem h\<rparr>) (zs @ merge_back s' ys)"
  proof (rule heap_inv_heads [OF inv])
    show "linked (h\<lparr>heads := H3, kheap_tail := tp3, mem := mem h\<rparr>) ?a (zs @ merge_back s' ys)"
      using link3 by (simp add: linked_def)
    show "no_free_pair (zs @ merge_back s' ys)"
      using inv by (intro no_free_pair_free [OF _ ab]) (simp add: heap_inv_def bs)
    show "\<forall>b \<in> set (zs @ merge_back s' ys). 0 < fst b"
      using inv by (intro sizes_free [OF _ ab]) (simp add: heap_inv_def bs)
    show "span (zs @ merge_back s' ys) = span bs"
      using span_absorb [OF ab] by (simp add: bs)
  qed
  moreover have "abs_free ?a t bs = zs @ merge_back s' ys"
    unfolding bs t [symmetric] by (rule abs_free_split [OF ab])
  ultimately show ?thesis
    using dead3 by (intro exI [of _ H3] exI [of _ tp3]) simp
qed

end
