(* ===== verification/Heap_Live.thy ===== *)
theory Heap_Live
  imports Heap_Free
begin

text \<open>
  The payloads in use and the contract of an allocator: what a caller of \<open>kmalloc\<close> and \<open>kfree\<close> may
  rely on without knowing the block list.
\<close>

section \<open>The payloads in use\<close>

lemma live_append: "live a (xs @ ys) = live a xs \<union> live (a + span xs) ys"
  by (induction xs arbitrary: a) (auto simp: add.assoc)

lemma live_bounds: "(p, s) \<in> live a bs \<Longrightarrow> a + 20 \<le> p \<and> p + s \<le> a + span bs"
  by (induction bs arbitrary: a) (fastforce split: if_splits)+

lemma live_disjoint:
  "(p, s) \<in> live a bs \<Longrightarrow> (q, k) \<in> live a bs \<Longrightarrow> (p, s) = (q, k) \<or> p + s \<le> q \<or> q + k \<le> p"
proof (induction bs arbitrary: a)
  case (Cons b bs)
  then show ?case
    by (cases b) (auto split: if_splits dest: live_bounds)
qed simp

lemma live_split:
  "(p, s) \<in> live a bs \<Longrightarrow> \<exists>xs ys. bs = xs @ (s, False) # ys \<and> p = a + span xs + 20"
proof (induction bs arbitrary: a)
  case (Cons b bs)
  obtain s' f where b: "b = (s', f)"
    by force
  show ?case
  proof (cases "\<not> f \<and> (p, s) = (a + 20, s')")
    case True
    then show ?thesis
      by (intro exI [of _ "[]"] exI [of _ bs]) (simp add: b)
  next
    case False
    then have "(p, s) \<in> live (a + 20 + s') bs"
      using Cons.prems by (auto simp: b split: if_splits)
    then obtain xs ys where "bs = xs @ (s, False) # ys" "p = a + 20 + s' + span xs + 20"
      using Cons.IH by blast
    then show ?thesis
      by (intro exI [of _ "b # xs"] exI [of _ ys]) (simp add: b)
  qed
qed simp

lemma live_take:
  assumes "n \<le> s"
  shows "live a (xs @ carve n s @ ys) =
    insert (a + span xs + 20, fst (hd (carve n s))) (live a (xs @ (s, True) # ys))"
  using assms by (auto simp: live_append carve_def add.assoc)

lemma live_take_new: "(a + span xs + 20, k) \<notin> live a (xs @ (s, True) # ys)"
  by (auto simp: live_append dest: live_bounds)

lemma live_free:
  assumes ab: "absorb xs s = (zs, s')"
  shows "live a (zs @ merge_back s' ys) = live a (xs @ (s, False) # ys) - {(a + span xs + 20, s)}"
proof -
  have "live b (merge_back k ys) = live (b + 20 + k) ys" for b k
    by (auto simp: merge_back_def add.assoc split: list.split bool.split)
  moreover have "live a zs = live a xs"
    using ab by (cases rule: absorb_cases [of xs s]) (auto simp: live_append)
  moreover have "a + span zs + 20 + s' = a + span xs + 20 + s"
    using span_absorb [OF ab] by simp
  moreover have "(a + span xs + 20, s) \<notin> live a xs \<union> live (a + span xs + 20 + s) ys"
    by (auto dest: live_bounds)
  ultimately show ?thesis
    by (simp only: live_append live.simps) auto
qed

lemma fst_carve: "n \<le> s \<Longrightarrow> n \<le> fst (hd (carve n s)) \<and> fst (hd (carve n s)) \<le> n + 20"
  by (auto simp: carve_def)


section \<open>Allocation and release over the payloads in use\<close>

definition heap_owns :: "kheap \<Rightarrow> (nat \<times> nat) set \<Rightarrow> bool" where
  "heap_owns h L \<longleftrightarrow> (\<exists>bs. heap_inv h bs \<and> L = live (unat (kheap_base h)) bs)"

text \<open>A request that does not make the address arithmetic of the best-fit search wrap around.\<close>

definition request_ok :: "kheap \<Rightarrow> nat \<Rightarrow> bool" where
  "request_ok h n \<longleftrightarrow> 0 < n \<and> unat (kheap_base h) + 0x2000000 + 400 + n < 4294967296"

lemma kmalloc_live:
  assumes inv: "heap_inv h bs" and n: "request_ok h n"
  shows "(\<forall>(t, s) \<in> frees (unat (kheap_base h)) bs. s < n) \<and> kmalloc h (of_nat n) = kret (0, h) \<or>
    (\<exists>t s h' bs'. kmalloc h (of_nat n) = kret (adr (t + 20), h') \<and>
       (t, s) \<in> frees (unat (kheap_base h)) bs \<and> n \<le> s \<and>
       (\<forall>(t', s') \<in> frees (unat (kheap_base h)) bs. n \<le> s' \<longrightarrow> s \<le> s') \<and>
       heap_inv h' bs' \<and> kheap_base h' = kheap_base h \<and> mem h' = mem h \<and>
       live (unat (kheap_base h)) bs' =
         insert (t + 20, fst (hd (carve n s))) (live (unat (kheap_base h)) bs) \<and>
       (t + 20, fst (hd (carve n s))) \<notin> live (unat (kheap_base h)) bs)"
proof -
  let ?a = "unat (kheap_base h)"
  have lim: "0 < n" "?a + 0x2000000 + 400 + n < 4294967296"
    using n by (simp_all add: request_ok_def)
  have "kheap_enabled h"
    using inv by (simp add: heap_inv_def)
  then have eq: "kmalloc h (of_nat n) = kmalloc_heap_base h (of_nat n) MALLOC_FLAG_NULL"
    by (simp add: kmalloc_def kmalloc_base_def)
  have fl: "MALLOC_FLAG_NULL AND x = 0" for x
    by (simp add: MALLOC_FLAG_NULL_def)
  note plain = kmalloc_heap_base_plain [OF inv fl lim]
  show ?thesis
  proof (cases "abs_best (\<lambda>t s. n \<le> s) ?a bs None")
    case None
    then have "\<forall>(t, s) \<in> frees ?a bs. s < n"
      unfolding abs_best_None by (auto simp: candidates_def not_le)
    then show ?thesis
      using plain None by (simp add: eq)
  next
    case (Some ts)
    obtain t s where ts: "ts = (t, s)"
      by force
    note best = abs_best_Some [OF Some [unfolded ts]]
    have cand: "(t, s) \<in> frees ?a bs" "n \<le> s"
      using best(1) by (auto simp: candidates_def)
    have min: "\<forall>(t', s') \<in> frees ?a bs. n \<le> s' \<longrightarrow> s \<le> s'"
      using best(2) by (auto simp: candidates_def)
    obtain xs ys where bs: "bs = xs @ (s, True) # ys" and t: "t = ?a + span xs"
      using cand frees_split by blast
    obtain h' where h': "kmalloc h (of_nat n) = kret (adr (t + 20), h')"
      "heap_inv h' (abs_take ?a t n bs)" "kheap_base h' = kheap_base h" "mem h' = mem h"
      using plain by (auto simp: Some ts eq fl)
    have "live ?a (abs_take ?a t n bs) = insert (t + 20, fst (hd (carve n s))) (live ?a bs)"
      unfolding bs t abs_take_split by (rule live_take [OF cand(2)])
    moreover have "(t + 20, fst (hd (carve n s))) \<notin> live ?a bs"
      unfolding bs t by (rule live_take_new)
    ultimately show ?thesis
      using h' cand min by blast
  qed
qed

lemma kfree_live:
  assumes inv: "heap_inv h bs" and L: "(p, s) \<in> live (unat (kheap_base h)) bs"
  shows "\<exists>h' bs'. kfree h (adr p) = kret h' \<and> heap_inv h' bs' \<and> kheap_base h' = kheap_base h \<and>
    mem h' = mem h \<and>
    live (unat (kheap_base h)) bs' = live (unat (kheap_base h)) bs - {(p, s)}"
proof -
  let ?a = "unat (kheap_base h)"
  obtain xs ys where bs: "bs = xs @ (s, False) # ys" and p: "p = ?a + span xs + 20"
    using live_split [OF L] by blast
  obtain zs s' where ab: "absorb xs s = (zs, s')"
    by force
  obtain H tp where "kfree h (adr p) = kret (h\<lparr>heads := H, kheap_tail := tp\<rparr>)"
    "heap_inv (h\<lparr>heads := H, kheap_tail := tp\<rparr>) (abs_free ?a (?a + span xs) bs)"
    using kfree_block [OF inv bs refl] by (auto simp: p)
  moreover have "live ?a (abs_free ?a (?a + span xs) bs) = live ?a bs - {(p, s)}"
    unfolding bs p abs_free_split [OF ab] by (rule live_free [OF ab])
  ultimately show ?thesis
    by (intro exI [of _ "h\<lparr>heads := H, kheap_tail := tp\<rparr>"] exI [of _ "abs_free ?a (?a + span xs) bs"]) simp
qed

lemma heap_inv_init:
  assumes "0 < unat base" and "unat base + 0x2000000 + 400 < 4294967296"
    and "unat (placement_memory h) + 0x100000 < 4294967296"
    and "unat (placement_memory h) + 0x100000 \<le> unat base \<or> unat base + 0x2000000 \<le> unat (placement_memory h)"
  shows "heap_inv (kheap_init_head h base) [(0x2000000 - 20, True)]"
  using assms
  by (simp add: heap_inv_def linked_def kheap_init_head_def mk_head_def no_free_pair_simps
      KHEAP_HEAP_SIZE_def HEAD_SIZE_def)


section \<open>The contract of an allocator\<close>

text \<open>
  \<open>owns h L\<close>: the payloads in use are \<open>L\<close>, as address and size.  An allocation that succeeds
  hands out a payload that is not in use, and nothing in use changes hands or contents.
\<close>

locale allocator =
  fixes owns :: "kheap \<Rightarrow> (nat \<times> nat) set \<Rightarrow> bool"
    and ok :: "kheap \<Rightarrow> nat \<Rightarrow> bool"
    and alloc :: "kheap \<Rightarrow> u32 \<Rightarrow> (u32 \<times> kheap) kres"
  assumes owned_bounds: "owns h L \<Longrightarrow> (p, s) \<in> L \<Longrightarrow> 0 < p \<and> 0 < s \<and> p + s < 4294967296"
    and owned_disjoint:
      "owns h L \<Longrightarrow> (p, s) \<in> L \<Longrightarrow> (q, k) \<in> L \<Longrightarrow> (p, s) = (q, k) \<or> p + s \<le> q \<or> q + k \<le> p"
    and alloc_law: "owns h L \<Longrightarrow> ok h n \<Longrightarrow>
      alloc h (of_nat n) = kret (0, h) \<or>
      (\<exists>p s h'. alloc h (of_nat n) = kret (adr p, h') \<and> n \<le> s \<and> (p, s) \<notin> L \<and>
        owns h' (insert (p, s) L) \<and> mem h' = mem h)"
begin

lemma owned_nonzero: "owns h L \<Longrightarrow> (p, s) \<in> L \<Longrightarrow> adr p \<noteq> 0"
  by (drule (1) owned_bounds) simp

lemma owned_ranges_disjoint:
  assumes "owns h L" and "(p, s) \<in> L" and "(q, k) \<in> L" and "(p, s) \<noteq> (q, k)"
  shows "disjoint_ranges (adr p) s (adr q) k"
proof -
  have b: "p + s < 4294967296" "q + k < 4294967296" "p + s \<le> q \<or> q + k \<le> p"
    using owned_bounds [OF assms(1)] owned_disjoint [OF assms(1)] assms(2-) by blast+
  have False if i: "i < s" "j < k" "adr p + of_nat i = adr q + of_nat j" for i j
  proof -
    have "adr (p + i) = adr (q + j)"
      using i(3) by (simp add: adr_add)
    then show False
      using b i by simp
  qed
  then show ?thesis
    unfolding disjoint_ranges_def in_range_ex by blast
qed

text \<open>A caller that writes only to its own payload leaves every other payload as it is.\<close>

lemma write_frame:
  assumes "owns h L" and "(p, s) \<in> L" and "(q, k) \<in> L" and "(p, s) \<noteq> (q, k)"
    and "n \<le> s"
  shows "bytes_at (memset m (adr p) c (of_nat n)) (adr q) k = bytes_at m (adr q) k"
proof -
  have "n < 4294967296" "k \<le> 4294967296"
    using owned_bounds [OF assms(1)] assms(2,3,5) by fastforce+
  then show ?thesis
    using disjoint_ranges_mono [OF owned_ranges_disjoint [OF assms(1-4)] assms(5) order_refl]
    by (simp add: bytes_at_memset_other)
qed

text \<open>A payload just handed out overlaps none that was in use before.\<close>

lemma alloc_fresh:
  assumes "owns h L" and "ok h n" and "alloc h (of_nat n) = kret (r, h')" and "r \<noteq> 0"
  shows "\<exists>s \<ge> n. owns h' (insert (unat r, s) L) \<and> mem h' = mem h \<and>
    (\<forall>(q, k) \<in> L. disjoint_ranges r n (adr q) k)"
proof -
  obtain p s where ps: "r = adr p" "n \<le> s" "(p, s) \<notin> L" "owns h' (insert (p, s) L)" "mem h' = mem h"
    using alloc_law [OF assms(1,2)] assms(3,4) by auto
  have "unat r = p"
    using owned_bounds [OF ps(4), of p s] by (simp add: ps(1))
  moreover have "disjoint_ranges r n (adr q) k" if "(q, k) \<in> L" for q k
    using owned_ranges_disjoint [OF ps(4), of p s q k] that ps(2,3)
    by (auto simp: ps(1) intro: disjoint_ranges_mono)
  ultimately show ?thesis
    using ps by auto
qed

end

locale releasing_allocator = allocator +
  fixes release :: "kheap \<Rightarrow> u32 \<Rightarrow> kheap kres"
  assumes release_law: "owns h L \<Longrightarrow> (p, s) \<in> L \<Longrightarrow>
    \<exists>h'. release h (adr p) = kret h' \<and> owns h' (L - {(p, s)}) \<and> mem h' = mem h"
begin

text \<open>What an allocation takes, releasing it gives back.\<close>

lemma alloc_release:
  assumes "owns h L" and "ok h n" and "alloc h (of_nat n) = kret (r, h')" and "r \<noteq> 0"
  shows "\<exists>h''. release h' r = kret h'' \<and> owns h'' L \<and> mem h'' = mem h"
proof -
  obtain p s where ps: "r = adr p" "(p, s) \<notin> L" "owns h' (insert (p, s) L)" "mem h' = mem h"
    using alloc_law [OF assms(1,2)] assms(3,4) by auto
  then show ?thesis
    using release_law [OF ps(3), of p s] by auto
qed

end

lemma heap_owned_bounds:
  assumes "heap_inv h bs" and "(p, s) \<in> live (unat (kheap_base h)) bs"
  shows "0 < p \<and> 0 < s \<and> p + s < 4294967296"
proof -
  obtain xs ys where "bs = xs @ (s, False) # ys"
    using live_split [OF assms(2)] by blast
  then have "0 < s"
    using assms(1) by (simp add: heap_inv_def)
  then show ?thesis
    using live_bounds [OF assms(2)] assms(1) by (auto simp: heap_inv_def)
qed

interpretation heap_alloc: releasing_allocator heap_owns request_ok kmalloc kfree
proof
  show "0 < p \<and> 0 < s \<and> p + s < 4294967296" if "heap_owns h L" "(p, s) \<in> L" for h L p s
    using that heap_owned_bounds unfolding heap_owns_def by blast
  show "(p, s) = (q, k) \<or> p + s \<le> q \<or> q + k \<le> p"
    if "heap_owns h L" "(p, s) \<in> L" "(q, k) \<in> L" for h L p s q k
    using that live_disjoint unfolding heap_owns_def by blast
  show "kmalloc h (of_nat n) = kret (0, h) \<or>
      (\<exists>p s h'. kmalloc h (of_nat n) = kret (adr p, h') \<and> n \<le> s \<and> (p, s) \<notin> L \<and>
        heap_owns h' (insert (p, s) L) \<and> mem h' = mem h)"
    if "heap_owns h L" "request_ok h n" for h L n
  proof -
    obtain bs where bs: "heap_inv h bs" "L = live (unat (kheap_base h)) bs"
      using \<open>heap_owns h L\<close> unfolding heap_owns_def by blast
    show ?thesis
      using kmalloc_live [OF bs(1) \<open>request_ok h n\<close>]
    proof (elim disjE exE conjE)
      fix t s h' bs'
      assume new: "kmalloc h (of_nat n) = kret (adr (t + 20), h')" "n \<le> s" "heap_inv h' bs'"
        "kheap_base h' = kheap_base h" "mem h' = mem h"
        "live (unat (kheap_base h)) bs' =
          insert (t + 20, fst (hd (carve n s))) (live (unat (kheap_base h)) bs)"
        "(t + 20, fst (hd (carve n s))) \<notin> live (unat (kheap_base h)) bs"
      then have "heap_owns h' (insert (t + 20, fst (hd (carve n s))) L)"
        unfolding heap_owns_def bs(2) by (intro exI [of _ bs']) simp
      then show ?thesis
        using new fst_carve [OF \<open>n \<le> s\<close>] unfolding bs(2) by blast
    qed simp
  qed
  show "\<exists>h'. kfree h (adr p) = kret h' \<and> heap_owns h' (L - {(p, s)}) \<and> mem h' = mem h"
    if "heap_owns h L" "(p, s) \<in> L" for h L p s
    using that kfree_live unfolding heap_owns_def by metis
qed


section \<open>A released pointer\<close>

lemma kfree_again:
  assumes inv: "heap_inv h bs" and L: "(p, s) \<in> live (unat (kheap_base h)) bs"
    and free: "kfree h (adr p) = kret h'"
  shows "kfree h' (adr p) \<in> {kpanic ''Invalid heap block magic: memory corrupted.'', kpanic ''Double free detected.''}"
proof -
  let ?a = "unat (kheap_base h)"
  obtain xs ys where bs: "bs = xs @ (s, False) # ys" and p: "p = ?a + span xs + 20"
    using live_split [OF L] by blast
  obtain H tp b where h': "h' = h\<lparr>heads := H, kheap_tail := tp\<rparr>"
    and b: "H (adr (?a + span xs)) = Some b" "kb_magic b = 0 \<or> kb_free b"
    and inv': "heap_inv h' (abs_free ?a (?a + span xs) bs)"
    using kfree_block [OF inv bs refl] free by (auto simp: p)
  have sz: "?a \<le> p" "p < ?a + 0x2000000" "0 < ?a" "?a + 0x2000000 < 4294967296"
    using live_bounds [OF L] heap_owned_bounds [OF inv L] inv by (auto simp: heap_inv_def linked_def)
  have nz: "adr p \<noteq> 0" "adr (?a + span xs) \<noteq> 0" "adr p - HEAD_SIZE = adr (?a + span xs)"
    using sz by (simp, simp add: p, simp add: p adr_add HEAD_SIZE_def)
  show ?thesis
    using nz b sz heap_inv_range [OF inv', of p]
    by (auto simp: kfree_def kheap_get_heap_block_def h' Let_def KHEAP_MAGIC_def)
qed


section \<open>Resizing\<close>

lemma owned_block:
  assumes inv: "heap_inv h bs" and L: "(p, s) \<in> live (unat (kheap_base h)) bs"
  shows "adr p \<noteq> 0" and "\<not> kheap_is_placement_memory h (adr p)" and "\<not> kheap_out_of_range h (adr p)"
    and "\<exists>q nx. kheap_get_heap_block h (adr p) = kret (adr (p - 20)) \<and> adr (p - 20) \<noteq> 0 \<and>
      heads h (adr (p - 20)) = Some (mk_head s False q nx)"
proof -
  let ?a = "unat (kheap_base h)"
  obtain xs ys where bs: "bs = xs @ (s, False) # ys" and p: "p = ?a + span xs + 20"
    using live_split [OF L] by blast
  have sz: "?a \<le> p" "p < ?a + 0x2000000" "0 < ?a" "?a + 0x2000000 < 4294967296" "linked h ?a bs"
    using live_bounds [OF L] heap_owned_bounds [OF inv L] inv by (auto simp: heap_inv_def linked_def)
  then show "\<not> kheap_is_placement_memory h (adr p)" "\<not> kheap_out_of_range h (adr p)" "adr p \<noteq> 0"
    using heap_inv_range [OF inv, of p] by simp_all
  have "adr p - HEAD_SIZE = adr (p - 20)"
    by (simp add: p adr_add HEAD_SIZE_def)
  then show "\<exists>q nx. kheap_get_heap_block h (adr p) = kret (adr (p - 20)) \<and> adr (p - 20) \<noteq> 0 \<and>
      heads h (adr (p - 20)) = Some (mk_head s False q nx)"
    using linked_head [of h ?a xs s False ys] sz by (auto simp: kheap_get_heap_block_def p bs Let_def)
qed

text \<open>A smaller or equal request keeps the block; a larger one moves the contents.\<close>

lemma krealloc_shrink:
  assumes inv: "heap_inv h bs" and L: "(p, s) \<in> live (unat (kheap_base h)) bs" and n: "n \<le> s"
  shows "krealloc h (adr p) (of_nat n) = kret (adr p, h)"
proof -
  have "s < 4294967296"
    using heap_owned_bounds [OF inv L] by simp
  then have "(of_nat n :: u32) \<le> of_nat s"
    using n by (simp add: word_le_unat)
  then show ?thesis
    using owned_block [OF inv L] by (auto simp: krealloc_def krealloc_flag_def)
qed

lemma krealloc_grow:
  assumes inv: "heap_inv h bs" and L: "(p, s) \<in> live (unat (kheap_base h)) bs"
    and n: "s < n" "request_ok h n"
  shows "(\<forall>(t, z) \<in> frees (unat (kheap_base h)) bs. z < n) \<and> krealloc h (adr p) (of_nat n) = kret (0, h) \<or>
    (\<exists>(t, z) \<in> frees (unat (kheap_base h)) bs. n \<le> z) \<and>
    (\<exists>q k h'. krealloc h (adr p) (of_nat n) = kret (adr q, h') \<and> n \<le> k \<and>
       heap_owns h' (insert (q, k) (live (unat (kheap_base h)) bs) - {(p, s)}) \<and>
       (q, k) \<notin> live (unat (kheap_base h)) bs \<and>
       bytes_at (mem h') (adr q) s = bytes_at (mem h) (adr p) s \<and>
       (\<forall>(r, j) \<in> live (unat (kheap_base h)) bs. bytes_at (mem h') (adr r) j = bytes_at (mem h) (adr r) j))"
proof -
  let ?L = "live (unat (kheap_base h)) bs"
  have owns: "heap_owns h ?L"
    using inv unfolding heap_owns_def by blast
  have s: "s < 4294967296" and n32: "n < 4294967296"
    using heap_owned_bounds [OF inv L] n by (simp_all add: request_ok_def)
  have big: "\<not> (of_nat n :: u32) \<le> of_nat s"
    using n s n32 by (simp add: word_le_unat)
  have flag: "kmalloc_flag h' sz MALLOC_FLAG_NULL = kmalloc h' sz" for h' sz
    by (simp add: kmalloc_flag_def kmalloc_def)
  note step = owned_block [OF inv L]
  from kmalloc_live [OF inv n(2)] show ?thesis
  proof (elim disjE exE conjE)
    assume "\<forall>(t, z) \<in> frees (unat (kheap_base h)) bs. z < n" "kmalloc h (of_nat n) = kret (0, h)"
    then show ?thesis
      using step big by (auto simp: krealloc_def krealloc_flag_def flag)
  next
    fix t z :: nat and h1 bs1
    define q k where "q = t + 20" and "k = fst (hd (carve n z))"
    assume *: "kmalloc h (of_nat n) = kret (adr (t + 20), h1)" "(t, z) \<in> frees (unat (kheap_base h)) bs" "n \<le> z"
      "heap_inv h1 bs1" "kheap_base h1 = kheap_base h" "mem h1 = mem h"
      "live (unat (kheap_base h)) bs1 = insert (t + 20, fst (hd (carve n z))) ?L" "(t + 20, fst (hd (carve n z))) \<notin> ?L"
    have inv1: "heap_inv h1 bs1" "insert (q, k) ?L = live (unat (kheap_base h1)) bs1"
      using *(4,5,7) by (simp_all add: q_def k_def)
    have new: "kmalloc h (of_nat n) = kret (adr q, h1)" "n \<le> k" "(q, k) \<notin> ?L" "heap_owns h1 (insert (q, k) ?L)" "mem h1 = mem h"
      using *(1,6,8) inv1 fst_carve [OF *(3)] by (auto simp: q_def k_def heap_owns_def)
    have fits: "\<exists>(t, z) \<in> frees (unat (kheap_base h)) bs. n \<le> z"
      using *(2,3) by blast
    define h2 where "h2 = h1\<lparr>mem := memcpy (mem h1) (adr q) (adr p) (of_nat s)\<rparr>"
    have "heap_inv h2 bs1"
      using inv1(1)
      by (simp add: h2_def heap_inv_def linked_def)
    then have "heap_owns h2 (insert (q, k) ?L)"
      unfolding heap_owns_def inv1(2) by (intro exI [of _ bs1]) (simp add: h2_def)
    from heap_alloc.release_law [OF this, of p s] obtain h3 where h3: "kfree h2 (adr p) = kret h3"
      "heap_owns h3 (insert (q, k) ?L - {(p, s)})" "mem h3 = mem h2"
      using L by blast
    have blk: "kb_size b = of_nat s" if "heads h1 (adr (p - 20)) = Some b" for b
      using owned_block(4) [OF inv1(1), of p s] that L unfolding inv1(2) [symmetric] by auto
    have ex: "\<exists>b. heads h1 (adr (p - 20)) = Some b"
      using owned_block(4) [OF inv1(1), of p s] L unfolding inv1(2) [symmetric] by auto
    have "adr q \<noteq> 0"
      using heap_alloc.owned_nonzero [OF new(4), of q k] by simp
    then have res: "krealloc h (adr p) (of_nat n) = kret (adr q, h3)"
      using step big new(1) h3(1) ex blk by (auto simp: krealloc_def krealloc_flag_def flag h2_def)
    have dis: "disjoint_ranges (adr q) s (adr r) j" if "(r, j) \<in> ?L" for r j
    proof (rule disjoint_ranges_mono)
      show "disjoint_ranges (adr q) k (adr r) j"
        using that new(3) by (intro heap_alloc.owned_ranges_disjoint [OF new(4)]) auto
    qed (use new(2) n(1) in simp_all)
    have cp: "copy_ok (adr q) (adr p) (unat (of_nat s :: u32))"
      using dis [OF L] s by (auto intro: copy_ok_disjoint)
    have "bytes_at (mem h3) (adr q) s = bytes_at (mem h) (adr p) s"
      using bytes_at_memcpy [OF cp, of "mem h"] s by (simp add: h3(3) h2_def new(5))
    moreover have "bytes_at (mem h3) (adr r) j = bytes_at (mem h) (adr r) j" if "(r, j) \<in> ?L" for r j
      using bytes_at_memcpy_other [OF cp, of "adr r" j "mem h"] dis [OF that] s
        heap_owned_bounds [OF inv that] by (simp add: h3(3) h2_def new(5))
    ultimately show ?thesis
      using fits res new(2,3) h3(2) by blast
  qed
qed


section \<open>The placement allocator\<close>

text \<open>
  Before \<^verbatim>\<open>kheap_init\<close> the same calls are served from \<^verbatim>\<open>kheap_placement_memory\<close>: the head moves up
  and what is left shrinks by the same amount.
\<close>

definition placement_inv :: "kheap \<Rightarrow> bool" where
  "placement_inv h \<longleftrightarrow>
     0 < unat (placement_memory h) \<and> unat (placement_memory h) + 0x100000 < 4294967296 \<and>
     unat (placement_memory h) \<le> unat (placement_head h) \<and>
     unat (placement_head h) + unat (placement_free_memory h) = unat (placement_memory h) + 0x100000"

definition placement_owns :: "kheap \<Rightarrow> (nat \<times> nat) set \<Rightarrow> bool" where
  "placement_owns h L \<longleftrightarrow>
     placement_inv h \<and> \<not> kheap_enabled h \<and>
     (\<forall>(p, s) \<in> L. unat (placement_memory h) \<le> p \<and> 0 < s \<and> p + s \<le> unat (placement_head h)) \<and>
     (\<forall>(p, s) \<in> L. \<forall>(q, k) \<in> L. (p, s) = (q, k) \<or> p + s \<le> q \<or> q + k \<le> p)"

definition placement_ok :: "kheap \<Rightarrow> nat \<Rightarrow> bool" where
  "placement_ok h n \<longleftrightarrow> 0 < n \<and> n < 4294967296"

lemma kmalloc_placement_plain:
  assumes inv: "placement_inv h" and n: "n < 4294967296" and fl: "flag AND MALLOC_FLAG_ALIGN = 0"
  shows "kmalloc_placement_base h (of_nat n) flag =
    (if unat (placement_free_memory h) < n then (0, h)
     else (placement_head h, h\<lparr>placement_head := placement_head h + of_nat n,
       placement_free_memory := placement_free_memory h - of_nat n,
       mem := if flag AND MALLOC_FLAG_INIT = 0 then mem h
         else memset (mem h) (placement_head h) 0 (of_nat n)\<rparr>))"
  using n fl by (auto simp: kmalloc_placement_base_def Let_def word_less_unat)

lemma placement_inv_step:
  assumes inv: "placement_inv h" and n: "n \<le> unat (placement_free_memory h)"
  shows "placement_inv (h\<lparr>placement_head := placement_head h + of_nat n,
      placement_free_memory := placement_free_memory h - of_nat n, mem := m\<rparr>)"
    and "unat (placement_head h + of_nat n) = unat (placement_head h) + n"
proof -
  have n32: "n < 4294967296" and "unat (placement_head h) + n < 4294967296"
    using inv n unat_lt_u32 [of "placement_free_memory h"] by (auto simp: placement_inv_def)
  then show u: "unat (placement_head h + of_nat n) = unat (placement_head h) + n"
    by (simp add: unat_add_u32)
  have "unat (placement_free_memory h - of_nat n) = unat (placement_free_memory h) - n"
    using n n32 by (simp add: unat_sub_u32 word_le_unat)
  then show "placement_inv (h\<lparr>placement_head := placement_head h + of_nat n,
      placement_free_memory := placement_free_memory h - of_nat n, mem := m\<rparr>)"
    using inv n u by (simp add: placement_inv_def)
qed

lemma placement_alloc_law:
  assumes owns: "placement_owns h L" and ok: "placement_ok h n"
  shows "kmalloc h (of_nat n) = kret (0, h) \<or>
    (\<exists>p s h'. kmalloc h (of_nat n) = kret (adr p, h') \<and> n \<le> s \<and> (p, s) \<notin> L \<and>
      placement_owns h' (insert (p, s) L) \<and> mem h' = mem h)"
proof (cases "unat (placement_free_memory h) < n")
  case True
  then show ?thesis
    using owns ok kmalloc_placement_plain [of h n MALLOC_FLAG_NULL]
    by (simp add: kmalloc_def kmalloc_base_def placement_owns_def placement_ok_def MALLOC_FLAG_NULL_def)
next
  case False
  define h' where "h' = h\<lparr>placement_head := placement_head h + of_nat n,
    placement_free_memory := placement_free_memory h - of_nat n, mem := mem h\<rparr>"
  have inv: "placement_inv h"
    using owns by (simp add: placement_owns_def)
  note step = placement_inv_step [OF inv, of n]
  have "kmalloc h (of_nat n) = kret (placement_head h, h')"
    using owns ok False kmalloc_placement_plain [of h n MALLOC_FLAG_NULL]
    by (simp add: kmalloc_def kmalloc_base_def placement_owns_def placement_ok_def MALLOC_FLAG_NULL_def h'_def)
  moreover have "placement_owns h' (insert (unat (placement_head h), n) L)"
    using owns ok step False inv unfolding placement_owns_def placement_ok_def placement_inv_def h'_def
    by fastforce
  moreover have "(unat (placement_head h), n) \<notin> L"
    using owns ok by (auto simp: placement_owns_def placement_ok_def)
  ultimately show ?thesis
    by (intro disjI2 exI [of _ "unat (placement_head h)"] exI [of _ n] exI [of _ h']) (simp add: h'_def)
qed

interpretation placement_alloc: allocator placement_owns placement_ok kmalloc
proof
  show "0 < p \<and> 0 < s \<and> p + s < 4294967296" if "placement_owns h L" "(p, s) \<in> L" for h L p s
    using that unfolding placement_owns_def placement_inv_def by fastforce
  show "(p, s) = (q, k) \<or> p + s \<le> q \<or> q + k \<le> p"
    if "placement_owns h L" "(p, s) \<in> L" "(q, k) \<in> L" for h L p s q k
    using that unfolding placement_owns_def by blast
qed (rule placement_alloc_law)

text \<open>With \<^verbatim>\<open>MALLOC_FLAG_ALIGN\<close> the head first moves to the next page boundary.\<close>

lemma kmalloc_placement_aligned:
  assumes inv: "placement_inv h" and fl: "flag AND MALLOC_FLAG_ALIGN \<noteq> 0"
    and n: "n + 4096 \<le> unat (placement_free_memory h)"
  shows "\<exists>r h'. kmalloc_placement_base h (of_nat n) flag = (r, h') \<and> placement_inv h' \<and>
    paging_is_aligned_address r \<and> unat (placement_head h) \<le> unat r \<and>
    unat r < unat (placement_head h) + 4096 \<and> unat (placement_head h') = unat r + n \<and>
    placement_memory h' = placement_memory h \<and> kheap_enabled h' = kheap_enabled h \<and>
    mem h' = (if flag AND MALLOC_FLAG_INIT = 0 then mem h else memset (mem h) r 0 (of_nat n))"
proof -
  let ?r = "paging_align_address_up (placement_head h)"
  have lim: "unat (placement_head h) + 4095 < 4294967296" "n < 4294967296"
    using inv n by (auto simp: placement_inv_def)
  note up = align_up_spec [OF lim(1)]
  define k where "k = unat ?r - unat (placement_head h) + n"
  have k: "k \<le> unat (placement_free_memory h)" "unat (placement_head h) + k = unat ?r + n"
    using up(2,3) n by (simp_all add: k_def)
  have sz: "of_nat n + (?r - placement_head h) = (of_nat k :: u32)"
    unfolding k_def of_nat_add of_nat_diff [OF up(2)] by simp
  note step = placement_inv_step [OF inv k(1)]
  have "k < 4294967296"
    using k(1) unat_lt_u32 [of "placement_free_memory h"] by linarith
  then have ok: "\<not> placement_free_memory h < of_nat k"
    using k(1) by (simp add: word_less_unat)
  define h' where "h' = h\<lparr>placement_head := placement_head h + of_nat k,
    placement_free_memory := placement_free_memory h - of_nat k,
    mem := if flag AND MALLOC_FLAG_INIT = 0 then mem h else memset (mem h) ?r 0 (of_nat n)\<rparr>"
  have "kmalloc_placement_base h (of_nat n) flag = (?r, h')"
    using fl ok by (simp add: kmalloc_placement_base_def Let_def sz h'_def)
  moreover have "placement_inv h'" "unat (placement_head h') = unat ?r + n" "placement_memory h' = placement_memory h"
    "kheap_enabled h' = kheap_enabled h" "mem h' = (if flag AND MALLOC_FLAG_INIT = 0 then mem h else memset (mem h) ?r 0 (of_nat n))"
    using step k(2) by (simp_all add: h'_def)
  ultimately show ?thesis
    using up by blast
qed

end
