(* ===== verification/Heap_Correct.thy ===== *)
theory Heap_Correct
  imports Heap_Live
begin

text \<open>
  The theorems about \<^verbatim>\<open>kernel/src/memory/heap.c\<close>: what allocation, release and resizing do to the
  block list, what the payloads in use can rely on, the states any sequence of calls can reach,
  and the case in which an aligned allocation damages the list.
\<close>

section \<open>Allocate, then release\<close>

lemma carve_hd: "carve n s @ ys = (fst (hd (carve n s)), False) # tl (carve n s) @ ys"
  by (simp add: carve_def)

lemma abs_free_take:
  assumes "no_free_pair (xs @ (s, True) # ys)" and "n \<le> s"
  shows "abs_free a (a + span xs) (xs @ carve n s @ ys) = xs @ (s, True) # ys"
proof -
  have "xs = [] \<or> \<not> snd (last xs)" and ys: "ys = [] \<or> \<not> snd (hd ys)"
    using assms(1) by (auto simp: no_free_pair_simps)
  then have ab: "absorb xs k = (xs, k)" for k
    by (auto simp: absorb_def)
  have "merge_back (fst (hd (carve n s))) (tl (carve n s) @ ys) = (s, True) # ys"
    using assms(2) ys by (auto simp: carve_def merge_back_def split: list.splits bool.splits)
  then show ?thesis
    unfolding carve_hd [of n s ys] abs_free_split [OF ab] by simp
qed

lemma kmalloc_kfree_restores:
  assumes inv: "heap_inv h bs" and n: "request_ok h n"
    and call: "kmalloc h (of_nat n) = kret (r, h')" and r: "r \<noteq> 0"
  shows "\<exists>h''. kfree h' r = kret h'' \<and> heap_inv h'' bs \<and> mem h'' = mem h"
proof -
  let ?a = "unat (kheap_base h)"
  have fl: "MALLOC_FLAG_NULL AND x = 0" for x
    by (simp add: MALLOC_FLAG_NULL_def)
  have lim: "0 < n" "?a + 0x2000000 + 400 + n < 4294967296"
    using n by (simp_all add: request_ok_def)
  have "kmalloc_heap_base h (of_nat n) MALLOC_FLAG_NULL = kret (r, h')"
    using call inv by (simp add: kmalloc_def kmalloc_base_def heap_inv_def)
  then obtain t s where best: "abs_best (\<lambda>t s. n \<le> s) ?a bs None = Some (t, s)" and ht: "r = adr (t + 20)"
    and inv': "heap_inv h' (abs_take ?a t n bs)" and base: "kheap_base h' = kheap_base h"
    and m: "mem h' = mem h"
    using kmalloc_heap_base_plain [OF inv fl lim] r by (auto simp: fl split: option.splits)
  have cand: "(t, s) \<in> frees ?a bs" "n \<le> s"
    using abs_best_Some [OF best] by (auto simp: candidates_def)
  obtain xs ys where bs: "bs = xs @ (s, True) # ys" and t: "t = ?a + span xs"
    using frees_split [OF cand(1)] by blast
  have inv': "heap_inv h' (xs @ carve n s @ ys)"
    using inv' unfolding bs t abs_take_split .
  have take: "xs @ carve n s @ ys = xs @ (fst (hd (carve n s)), False) # tl (carve n s) @ ys"
    by (simp only: carve_hd [of n s ys])
  obtain H tp where "kfree h' r = kret (h'\<lparr>heads := H, kheap_tail := tp\<rparr>)"
    "heap_inv (h'\<lparr>heads := H, kheap_tail := tp\<rparr>) (abs_free ?a t (xs @ carve n s @ ys))"
    using kfree_block [OF inv' take, of t] by (auto simp: base t ht)
  moreover have "abs_free ?a t (xs @ carve n s @ ys) = bs"
    unfolding bs t using inv cand(2) by (intro abs_free_take) (simp_all add: heap_inv_def bs)
  ultimately show ?thesis
    using m by (intro exI [of _ "h'\<lparr>heads := H, kheap_tail := tp\<rparr>"]) simp
qed


section \<open>Alignment\<close>

lemma align_up_aligned: "paging_is_aligned_address (paging_align_address_up a)"
  by (simp add: paging_align_address_up_def paging_is_aligned_address_def page_mask ac_simps)

lemma kmalloc_align_block_aligned:
  assumes "kmalloc_align_block h sz flag b = kret (b', h')" and "flag AND MALLOC_FLAG_ALIGN \<noteq> 0" and "b' \<noteq> 0"
  shows "paging_is_aligned_address (b' + HEAD_SIZE)"
  using assms align_up_aligned
  by (auto simp: kmalloc_align_block_def Let_def kbind_kret_eq split: if_splits)

lemma kmalloc_heap_base_aligned:
  assumes "kmalloc_heap_base h sz flag = kret (r, h')" and "flag AND MALLOC_FLAG_ALIGN \<noteq> 0"
  shows "paging_is_aligned_address r"
proof -
  consider "r = 0"
    | b b' h1 where "kmalloc_align_block h sz flag b = kret (b', h1)" "b' \<noteq> 0" "r = b' + HEAD_SIZE"
    using assms(1) unfolding kmalloc_heap_base_def Let_def
    by (auto simp: kbind_kret_eq split: if_split_asm)
  then show ?thesis
    using kmalloc_align_block_aligned [OF _ assms(2)] by cases (auto simp: paging_is_aligned_address_def)
qed


section \<open>The states a heap can reach\<close>

text \<open>
  A run of the heap from \<^verbatim>\<open>kheap_init\<close> on: allocations with \<^verbatim>\<open>kmalloc\<close>, releases and resizings of payloads in use, and
  writes by the owners to their payloads.  Aligned allocations are not among the steps: they can damage the block list,
  as \<open>aligned_alloc_breaks_list\<close> below shows.
\<close>

inductive heap_reach :: "kheap \<Rightarrow> (nat \<times> nat) set \<Rightarrow> bool" where
  init: "0 < unat base \<Longrightarrow> unat base + 0x2000000 + 400 < 4294967296 \<Longrightarrow>
    unat (placement_memory h) + 0x100000 < 4294967296 \<Longrightarrow>
    unat (placement_memory h) + 0x100000 \<le> unat base \<or> unat base + 0x2000000 \<le> unat (placement_memory h) \<Longrightarrow>
    heap_reach (kheap_init_head h base) {}"
| malloc: "heap_reach h L \<Longrightarrow> request_ok h n \<Longrightarrow> kmalloc h (of_nat n) = kret (r, h') \<Longrightarrow> r \<noteq> 0 \<Longrightarrow>
    heads h' (r - HEAD_SIZE) = Some b \<Longrightarrow> heap_reach h' (insert (unat r, unat (kb_size b)) L)"
| malloc_null: "heap_reach h L \<Longrightarrow> request_ok h n \<Longrightarrow> kmalloc h (of_nat n) = kret (0, h') \<Longrightarrow> heap_reach h' L"
| realloc: "heap_reach h L \<Longrightarrow> (p, s) \<in> L \<Longrightarrow> request_ok h n \<Longrightarrow> krealloc h (adr p) (of_nat n) = kret (r, h') \<Longrightarrow> r \<noteq> 0 \<Longrightarrow>
    heads h' (r - HEAD_SIZE) = Some b \<Longrightarrow> heap_reach h' (insert (unat r, unat (kb_size b)) (L - {(p, s)}))"
| realloc_null: "heap_reach h L \<Longrightarrow> (p, s) \<in> L \<Longrightarrow> request_ok h n \<Longrightarrow> krealloc h (adr p) (of_nat n) = kret (0, h') \<Longrightarrow>
    heap_reach h' L"
| free: "heap_reach h L \<Longrightarrow> (p, s) \<in> L \<Longrightarrow> kfree h (adr p) = kret h' \<Longrightarrow> heap_reach h' (L - {(p, s)})"
| store: "heap_reach h L \<Longrightarrow> (p, s) \<in> L \<Longrightarrow> in_range x (adr p) s \<Longrightarrow> heap_reach (h\<lparr>mem := (mem h)(x := c)\<rparr>) L"

lemma heap_owns_mem: "heap_owns h L \<Longrightarrow> heap_owns (h\<lparr>mem := m\<rparr>) L"
  unfolding heap_owns_def by (auto simp: heap_inv_def linked_def)

lemma heap_owns_head:
  assumes "heap_owns h L" and "(p, s) \<in> L"
  shows "\<exists>b. heads h (adr p - HEAD_SIZE) = Some b \<and> unat (kb_size b) = s"
proof -
  obtain bs where bs: "heap_inv h bs" "(p, s) \<in> live (unat (kheap_base h)) bs"
    using assms unfolding heap_owns_def by blast
  have "20 \<le> p" "s < 4294967296"
    using live_bounds [OF bs(2)] heap_owned_bounds [OF bs] by auto
  then have "adr p - HEAD_SIZE = adr (p - 20)"
    by (simp add: adr_diff HEAD_SIZE_def)
  then show ?thesis
    using owned_block(4) [OF bs] \<open>s < 4294967296\<close> by auto
qed

lemma krealloc_owns:
  assumes owns: "heap_owns h L" and L: "(p, s) \<in> L" and n: "request_ok h n" and run: "krealloc h (adr p) (of_nat n) = kret (r, h')"
  shows "r = 0 \<and> h' = h \<or> (\<exists>q k. r = adr q \<and> r \<noteq> 0 \<and> heap_owns h' (insert (q, k) (L - {(p, s)})))"
proof -
  obtain bs where bs: "heap_inv h bs" "L = live (unat (kheap_base h)) bs"
    using owns by (auto simp: heap_owns_def)
  have L': "(p, s) \<in> live (unat (kheap_base h)) bs"
    using L bs(2) by simp
  show ?thesis
  proof (cases "n \<le> s")
    case True
    then have "r = adr p" "h' = h"
      using krealloc_shrink [OF bs(1) L'] run by simp_all
    moreover have "adr p \<noteq> 0"
      by (rule heap_alloc.owned_nonzero [OF owns L])
    ultimately show ?thesis
      using owns L by (intro disjI2 exI [of _ p] exI [of _ s]) (simp add: insert_absorb)
  next
    case False
    with krealloc_grow [OF bs(1) L' _ n] run consider "r = 0" "h' = h"
      | q k where "r = adr q" "heap_owns h' (insert (q, k) L - {(p, s)})" "(q, k) \<notin> L"
      unfolding bs(2) [symmetric] by auto
    then show ?thesis
    proof cases
      case 2
      then have *: "insert (q, k) L - {(p, s)} = insert (q, k) (L - {(p, s)})"
        using L by auto
      then have "adr q \<noteq> 0"
        using heap_alloc.owned_nonzero [OF 2(2), of q k] by simp
      then show ?thesis
        using 2(1,2) unfolding * by blast
    qed simp
  qed
qed

lemma heap_reach_owns: "heap_reach h L \<Longrightarrow> heap_owns h L"
proof (induction rule: heap_reach.induct)
  case (init base h)
  then have "heap_inv (kheap_init_head h base) [(0x2000000 - 20, True)]"
    by (intro heap_inv_init)
  then show ?case
    unfolding heap_owns_def by (intro exI [of _ "[(0x2000000 - 20, True)]"]) simp
next
  case (malloc h L n r h' b)
  obtain p s where ps: "r = adr p" "heap_owns h' (insert (p, s) L)"
    using heap_alloc.alloc_law [OF malloc.IH malloc.hyps(2)] malloc.hyps(3,4) by auto
  have "unat r = p"
    using heap_alloc.owned_bounds [OF ps(2), of p s] by (simp add: ps(1))
  moreover have "unat (kb_size b) = s"
    using heap_owns_head [OF ps(2), of p s] malloc.hyps(5) ps(1) by simp
  ultimately show ?case
    using ps(2) by simp
next
  case (malloc_null h L n h')
  then show ?case
    using heap_alloc.alloc_law [OF malloc_null.IH malloc_null.hyps(2)]
      heap_alloc.owned_nonzero by fastforce
next
  case (realloc h L p s n r h' b)
  obtain q k where q: "r = adr q" "heap_owns h' (insert (q, k) (L - {(p, s)}))"
    using krealloc_owns [OF realloc.IH realloc.hyps(2-4)] realloc.hyps(5) by auto
  have "unat r = q"
    using heap_alloc.owned_bounds [OF q(2), of q k] by (simp add: q(1))
  moreover have "unat (kb_size b) = k"
    using heap_owns_head [OF q(2), of q k] realloc.hyps(6) q(1) by simp
  ultimately show ?case
    using q(2) by simp
next
  case (realloc_null h L p s n h')
  then show ?case
    using krealloc_owns [OF realloc_null.IH realloc_null.hyps(2-4)] by auto
next
  case (free h L p s h')
  then show ?case
    using heap_alloc.release_law by fastforce
qed (rule heap_owns_mem)


section \<open>Example states\<close>

text \<open>A heap right after \<^verbatim>\<open>kheap_init\<close>, and one with a payload of 100 bytes in use.\<close>

definition fresh_kheap :: kheap where
  "fresh_kheap = \<lparr>placement_memory = 0xC0200000, placement_head = 0xC0200000,
     placement_free_memory = 0x100000, kheap_enabled = False, kheap_base = 0, kheap_head = 0,
     kheap_tail = 0, heads = Map.empty, mem = (\<lambda>_. 0)\<rparr>"

definition boot_kheap :: kheap where
  "boot_kheap = kheap_init_head fresh_kheap 0xC0800000"

definition used_kheap :: kheap where
  "used_kheap = boot_kheap\<lparr>heads := [0xC0800000 \<mapsto> mk_head 100 False 0 0xC0800078,
     0xC0800078 \<mapsto> mk_head 0x1FFFF74 True 0xC0800000 0], kheap_tail := 0xC0800078\<rparr>"

lemma boot_kheap_inv: "heap_inv boot_kheap [(0x2000000 - 20, True)]"
  unfolding boot_kheap_def by (rule heap_inv_init) (simp_all add: fresh_kheap_def)

lemma boot_kheap_base [simp]: "kheap_base boot_kheap = 0xC0800000" "kheap_base used_kheap = 0xC0800000"
  by (simp_all add: boot_kheap_def used_kheap_def kheap_init_head_def)

lemma used_kheap_inv: "heap_inv used_kheap [(100, False), (0x1FFFF74, True)]"
  by (simp add: heap_inv_def linked_def used_kheap_def boot_kheap_def kheap_init_head_def
      fresh_kheap_def no_free_pair_simps adr_def)

lemma used_kheap_live: "live (unat (kheap_base used_kheap)) [(100, False), (0x1FFFF74, True)] = {(0xC0800014, 100)}"
  by simp

lemma heap_reach_boot: "heap_reach boot_kheap {}"
  unfolding boot_kheap_def by (rule heap_reach.init) (simp_all add: fresh_kheap_def)


section \<open>The aligned split\<close>

text \<open>
  Lines 95 to 111 put a block between \<^verbatim>\<open>best_fit\<close> and its successor without telling the successor.
  When the rest is too small to be split off nothing repairs that: the successor still points
  back to the padding block, its release merges it into the padding block, and the payload in
  between is handed out a second time.
\<close>

definition aligned_overlap_run :: "(u32 \<times> u32) kres" where
  "aligned_overlap_run =
     kbind (kmalloc boot_kheap 8172) (\<lambda>(a, h1).
     kbind (kmalloc h1 10) (\<lambda>(c, h2).
     kbind (kfree h2 a) (\<lambda>h3.
     kbind (kmalloc_flag h3 4096 MALLOC_FLAG_ALIGN) (\<lambda>(p, h4).
     kbind (kfree h4 c) (\<lambda>h5.
     kbind (kmalloc h5 4080) (\<lambda>(q, h6). kret (p, q)))))))"


text \<open>The addresses of the headers of a list: each points to the next one, which points back.\<close>

fun starts :: "nat \<Rightarrow> blocks \<Rightarrow> u32 set" where
  "starts a [] = {}"
| "starts a ((s, f) # bs) = insert (adr a) (starts (a + 20 + s) bs)"

lemma starts_next:
  assumes "kseg H p a 0 bs" and "x \<in> starts a bs" and "H x = Some b"
  shows "kb_next b = 0 \<and> x = seg_last p a bs \<or>
    kb_next b \<in> starts a bs \<and> (\<exists>c. H (kb_next b) = Some c \<and> kb_prev c = x)"
  using assms(1,2)
proof (induction bs arbitrary: p a)
  case (Cons sf bs)
  obtain s f where sf: "sf = (s, f)"
    by force
  have k: "H (adr a) = Some (mk_head s f p (if bs = [] then 0 else adr (a + 20 + s)))" "kseg H (adr a) (a + 20 + s) 0 bs"
    using Cons.prems(1) by (simp_all add: sf)
  show ?case
  proof (cases "x \<in> starts (a + 20 + s) bs")
    case True
    then show ?thesis
      using Cons.IH [OF k(2)] by (auto simp: sf)
  next
    case False
    then have b: "x = adr a" "b = mk_head s f p (if bs = [] then 0 else adr (a + 20 + s))"
      using Cons.prems(2) k(1) assms(3) by (auto simp: sf)
    show ?thesis
    proof (cases bs)
      case Nil
      then show ?thesis
        using b by (simp add: sf mk_head_def)
    next
      case (Cons sf' bs')
      then show ?thesis
        using b k(2) by (cases sf') (auto simp: sf mk_head_def)
    qed
  qed
qed simp

lemma starts_nonzero: "0 < a \<Longrightarrow> a + span bs < 4294967296 \<Longrightarrow> 0 \<notin> starts a bs"
proof (induction bs arbitrary: a)
  case (Cons b bs)
  have "adr a \<noteq> 0"
    using Cons.prems by simp
  then show ?case
    using Cons by (cases b) auto
qed simp

lemma starts_walk:
  assumes "kseg H p a nx (xs @ (s, f) # ys)" and "adr a \<in> A" and "a + span (xs @ (s, f) # ys) < 4294967296"
    and "\<And>x b. x \<in> A \<Longrightarrow> H' x = Some b \<Longrightarrow> kb_next b \<noteq> 0 \<Longrightarrow> kb_next b \<in> A"
    and "\<And>x. a \<le> x \<Longrightarrow> x < a + span xs \<Longrightarrow> H' (adr x) = H (adr x)"
  shows "adr (a + span xs) \<in> A"
  using assms(1-3,5)
proof (induction xs arbitrary: p a)
  case (Cons zg xs)
  obtain z g where zg: "zg = (z, g)"
    by force
  have k: "H (adr a) = Some (mk_head z g p (adr (a + 20 + z)))" "kseg H (adr a) (a + 20 + z) nx (xs @ (s, f) # ys)"
    using Cons.prems(1) by (simp_all add: zg)
  have "H' (adr a) = H (adr a)"
    using Cons.prems(4) [of a] by (simp add: zg)
  moreover have "adr (a + 20 + z) \<noteq> 0"
    using Cons.prems(3) by (simp add: zg)
  ultimately have "adr (a + 20 + z) \<in> A"
    using assms(4) [OF Cons.prems(2)] k(1) by (fastforce simp: mk_head_def)
  then have "adr (a + 20 + z + span xs) \<in> A"
    using Cons.prems(3,4) by (intro Cons.IH [OF k(2)]) (simp_all add: zg)
  then show ?case
    by (simp add: zg add.assoc)
qed simp


section \<open>Properties of the heap\<close>

text \<open>
  C1: on a well-formed heap a request either finds no free block of that size and
  returns NULL with the heap unchanged, or it returns the payload of the first smallest free block
  that is large enough; the headers are then those of the block list with that block taken, split
  when more than a header is left over.
\<close>
theorem kmalloc_refines:
  assumes "heap_inv h bs" and "request_ok h n"
  shows "case abs_best (\<lambda>t s. n \<le> s) (unat (kheap_base h)) bs None of
      None \<Rightarrow> kmalloc h (of_nat n) = kret (0, h)
    | Some (t, s) \<Rightarrow> \<exists>h'. kmalloc h (of_nat n) = kret (adr (t + 20), h') \<and>
        heap_inv h' (abs_take (unat (kheap_base h)) t n bs) \<and> mem h' = mem h"
  using assms kmalloc_heap_base_plain [of h bs MALLOC_FLAG_NULL n]
  by (auto simp: kmalloc_def kmalloc_base_def request_ok_def heap_inv_def MALLOC_FLAG_NULL_def
      split: option.splits)

theorem kmalloc_refines_witness:
  "\<exists>h'. kmalloc boot_kheap 100 = kret (adr 0xC0800014, h') \<and>
     heap_inv h' [(100, False), (33554292, True)] \<and> mem h' = mem boot_kheap"
  using kmalloc_refines [OF boot_kheap_inv, of 100] by (simp add: request_ok_def carve_def)

text \<open>
  A request is refused exactly when no free block is large enough.
\<close>
theorem kmalloc_null_iff:
  assumes "heap_inv h bs" and "request_ok h n"
  shows "kmalloc h (of_nat n) = kret (0, h) \<longleftrightarrow> (\<forall>(t, s) \<in> frees (unat (kheap_base h)) bs. s < n)"
proof -
  have "adr (t + 20) \<noteq> 0" if "(t, s) \<in> frees (unat (kheap_base h)) bs" for t s
    using frees_bounds [OF that] assms(1) by (auto simp: heap_inv_def)
  then show ?thesis
    using kmalloc_live [OF assms] by auto
qed

theorem kmalloc_null_iff_witness:
  "kmalloc boot_kheap 0x2000000 = kret (0, boot_kheap)"
  using kmalloc_null_iff [OF boot_kheap_inv, where n = "0x2000000"] by (simp add: request_ok_def)

text \<open>
  C3: whatever sequence of calls of \<open>kmalloc\<close>, \<open>krealloc\<close> and \<open>kfree\<close> and of writes to payloads led to the
  heap, a payload that \<open>kmalloc\<close> returns shares no byte with one in use and no byte of memory changes.  Aligned
  allocations are excluded.
\<close>
theorem kmalloc_fresh:
  assumes "heap_reach h L" and "request_ok h n" and "kmalloc h (of_nat n) = kret (r, h')" and "r \<noteq> 0"
  shows "\<exists>s \<ge> n. heap_owns h' (insert (unat r, s) L) \<and> mem h' = mem h \<and>
    (\<forall>(q, k) \<in> L. disjoint_ranges r n (adr q) k)"
  using heap_reach_owns [OF assms(1)] assms(2-) by (rule heap_alloc.alloc_fresh)

theorem kmalloc_fresh_witness:
  "\<exists>h' s. kmalloc boot_kheap 100 = kret (adr 0xC0800014, h') \<and> 100 \<le> s \<and>
     heap_owns h' {(0xC0800014, s)} \<and> mem h' = mem boot_kheap"
proof -
  have ok: "request_ok boot_kheap 100"
    by (simp add: request_ok_def)
  obtain h' where h': "kmalloc boot_kheap (of_nat 100) = kret (adr 0xC0800014, h')"
    using kmalloc_live [OF boot_kheap_inv ok] by auto
  show ?thesis
    using kmalloc_fresh [OF heap_reach_boot ok h'] h' by auto
qed

text \<open>
  C2: releasing a payload in use never panics; its block becomes free and is merged with
  a free block in front of it and one behind it, and no byte of memory changes.
\<close>
theorem kfree_refines:
  assumes "heap_inv h bs" and "(p, s) \<in> live (unat (kheap_base h)) bs"
  shows "\<exists>h'. kfree h (adr p) = kret h' \<and> heap_inv h' (abs_free (unat (kheap_base h)) (p - 20) bs) \<and>
    live (unat (kheap_base h)) (abs_free (unat (kheap_base h)) (p - 20) bs) =
      live (unat (kheap_base h)) bs - {(p, s)} \<and> mem h' = mem h"
proof -
  let ?a = "unat (kheap_base h)"
  obtain xs ys where bs: "bs = xs @ (s, False) # ys" and p: "p = ?a + span xs + 20"
    using live_split [OF assms(2)] by blast
  obtain zs s' where ab: "absorb xs s = (zs, s')"
    by force
  have "live ?a (abs_free ?a (p - 20) bs) = live ?a bs - {(p, s)}"
    using live_free [OF ab, of ?a ys] abs_free_split [OF ab, of ?a ys] by (simp add: bs p)
  then show ?thesis
    using kfree_block [OF assms(1) bs refl] by (auto simp: p)
qed

theorem kfree_refines_witness:
  "\<exists>h'. kfree used_kheap (adr 0xC0800014) = kret h' \<and> heap_inv h' [(33554412, True)] \<and>
     mem h' = mem used_kheap"
  using kfree_refines [OF used_kheap_inv, where p = "0xC0800014" and s = 100] by (simp add: merge_back_def)

text \<open>
  Releasing what was just allocated brings back exactly the block list there was
  before.
\<close>
theorem kmalloc_kfree:
  assumes "heap_inv h bs" and "request_ok h n" and "kmalloc h (of_nat n) = kret (r, h')" and "r \<noteq> 0"
  shows "\<exists>h''. kfree h' r = kret h'' \<and> heap_inv h'' bs \<and> mem h'' = mem h"
  using assms by (rule kmalloc_kfree_restores)

theorem kmalloc_kfree_witness:
  "\<exists>h' h''. kmalloc boot_kheap 100 = kret (adr 0xC0800014, h') \<and> kfree h' (adr 0xC0800014) = kret h'' \<and>
     heap_inv h'' [(0x2000000 - 20, True)]"
proof -
  have ok: "request_ok boot_kheap 100"
    by (simp add: request_ok_def)
  obtain h' where h': "kmalloc boot_kheap (of_nat 100) = kret (adr 0xC0800014, h')"
    using kmalloc_live [OF boot_kheap_inv ok] by auto
  show ?thesis
    using kmalloc_kfree [OF boot_kheap_inv ok h'] h' by auto
qed

text \<open>
  C30: a second release of the same pointer is caught, whether or not the first one merged
  the block away.
\<close>
theorem kfree_twice:
  assumes "heap_inv h bs" and "(p, s) \<in> live (unat (kheap_base h)) bs" and "kfree h (adr p) = kret h'"
  shows "kfree h' (adr p) \<in> {kpanic ''Invalid heap block magic: memory corrupted.'', kpanic ''Double free detected.''}"
  using assms by (rule kfree_again)

theorem kfree_twice_witness:
  "\<exists>h'. kfree used_kheap (adr 0xC0800014) = kret h' \<and>
     kfree h' (adr 0xC0800014) \<in> {kpanic ''Invalid heap block magic: memory corrupted.'', kpanic ''Double free detected.''}"
proof -
  have "(0xC0800014, 100) \<in> live (unat (kheap_base used_kheap)) [(100, False), (0x1FFFF74, True)]"
    by simp
  then show ?thesis
    using kfree_twice [OF used_kheap_inv] kfree_live [OF used_kheap_inv] by blast
qed

text \<open>
  C15: a payload that is large enough stays as it is.  Otherwise \<open>krealloc\<close> returns NULL and changes
  nothing exactly when no free block is large enough for the new size; in all other cases it moves the payload: the new
  one starts with the old contents, the old one is released, and every other payload keeps its place and its contents.
\<close>
theorem krealloc_keeps_contents:
  assumes "heap_inv h bs" and "(p, s) \<in> live (unat (kheap_base h)) bs" and "request_ok h n"
  shows "if n \<le> s then krealloc h (adr p) (of_nat n) = kret (adr p, h)
    else if \<forall>(t, z) \<in> frees (unat (kheap_base h)) bs. z < n then krealloc h (adr p) (of_nat n) = kret (0, h)
    else \<exists>q k h'. krealloc h (adr p) (of_nat n) = kret (adr q, h') \<and> adr q \<noteq> 0 \<and> n \<le> k \<and>
       heap_owns h' (insert (q, k) (live (unat (kheap_base h)) bs) - {(p, s)}) \<and>
       (q, k) \<notin> live (unat (kheap_base h)) bs \<and>
       bytes_at (mem h') (adr q) s = bytes_at (mem h) (adr p) s \<and>
       (\<forall>(r, j) \<in> live (unat (kheap_base h)) bs. bytes_at (mem h') (adr r) j = bytes_at (mem h) (adr r) j)"
proof (cases "n \<le> s")
  case True
  then show ?thesis
    using krealloc_shrink [OF assms(1,2)] by simp
next
  case False
  have "adr q \<noteq> 0" if "heap_owns h' (insert (q, k) (live (unat (kheap_base h)) bs) - {(p, s)})"
    "(q, k) \<notin> live (unat (kheap_base h)) bs" for q k h'
    using heap_alloc.owned_nonzero [OF that(1), of q k] that(2) assms(2) by auto
  then show ?thesis
    using krealloc_grow [OF assms(1,2) _ assms(3)] False by (auto simp: not_le) fastforce+
qed

theorem krealloc_keeps_contents_witness:
  "(\<exists>q k h'. krealloc used_kheap (adr 0xC0800014) 200 = kret (adr q, h') \<and> adr q \<noteq> 0 \<and> (200 :: nat) \<le> k \<and>
      bytes_at (mem h') (adr q) 100 = bytes_at (mem used_kheap) (adr 0xC0800014) 100) \<and>
   krealloc used_kheap (adr 0xC0800014) 60 = kret (adr 0xC0800014, used_kheap) \<and>
   krealloc used_kheap (adr 0xC0800014) 0x2000000 = kret (0, used_kheap)"
  using krealloc_keeps_contents [OF used_kheap_inv, where p = "0xC0800014" and s = 100 and n = 200]
    krealloc_keeps_contents [OF used_kheap_inv, where p = "0xC0800014" and s = 100 and n = 60]
    krealloc_keeps_contents [OF used_kheap_inv, where p = "0xC0800014" and s = 100 and n = "0x2000000"]
  by (auto simp: request_ok_def)

text \<open>
  With \<^verbatim>\<open>MALLOC_FLAG_ALIGN\<close> every pointer the heap or the placement
  allocator returns is page aligned.
\<close>
theorem kmalloc_flag_aligned:
  assumes "kmalloc_flag h sz flag = kret (r, h')" and "flag AND MALLOC_FLAG_ALIGN \<noteq> 0"
  shows "paging_is_aligned_address r"
proof (cases "kheap_enabled h")
  case True
  then show ?thesis
    using assms kmalloc_heap_base_aligned by (simp add: kmalloc_flag_def kmalloc_base_def)
next
  case False
  then have "r = 0 \<or> r = paging_align_address_up (placement_head h)"
    using assms by (auto simp: kmalloc_flag_def kmalloc_base_def kmalloc_placement_base_def Let_def split: if_splits)
  then show ?thesis
    using align_up_aligned by (auto simp: paging_is_aligned_address_def)
qed

theorem kmalloc_flag_aligned_witness:
  "\<exists>h'. kmalloc_flag fresh_kheap 100 MALLOC_FLAG_ALIGN = kret (0xC0200000, h') \<and>
     paging_is_aligned_address 0xC0200000"
proof -
  have "\<exists>h'. kmalloc_flag fresh_kheap 100 MALLOC_FLAG_ALIGN = kret (0xC0200000, h')"
    by (simp add: kmalloc_flag_def kmalloc_base_def kmalloc_placement_base_def fresh_kheap_def Let_def
        MALLOC_FLAG_ALIGN_def MALLOC_FLAG_INIT_def paging_align_address_up_def PAGE_SIZE_def)
  then show ?thesis
    using kmalloc_flag_aligned [of fresh_kheap 100 MALLOC_FLAG_ALIGN] by (auto simp: MALLOC_FLAG_ALIGN_def)
qed

text \<open>
  While the kernel boots, a payload from the placement memory is disjoint from
  every earlier one.
\<close>
theorem placement_fresh:
  assumes "placement_owns h L" and "placement_ok h n" and "kmalloc h (of_nat n) = kret (r, h')" and "r \<noteq> 0"
  shows "\<exists>s \<ge> n. placement_owns h' (insert (unat r, s) L) \<and> mem h' = mem h \<and>
    (\<forall>(q, k) \<in> L. disjoint_ranges r n (adr q) k)"
  using assms by (rule placement_alloc.alloc_fresh)

theorem placement_fresh_witness:
  "\<exists>h' s. kmalloc fresh_kheap 100 = kret (0xC0200000, h') \<and> 100 \<le> s \<and> placement_owns h' {(0xC0200000, s)}"
proof -
  have owns: "placement_owns fresh_kheap {}" and ok: "placement_ok fresh_kheap 100"
    by (simp_all add: placement_owns_def placement_inv_def placement_ok_def fresh_kheap_def)
  have "\<exists>h'. kmalloc fresh_kheap (of_nat 100) = kret (0xC0200000, h')"
    by (simp add: kmalloc_def kmalloc_base_def kmalloc_placement_base_def fresh_kheap_def Let_def
        MALLOC_FLAG_NULL_def)
  then show ?thesis
    using placement_fresh [OF owns ok] by auto
qed

text \<open>
  C31: an aligned allocation that cuts a padding block off the block it takes, and then leaves no
  more than a header of it, succeeds and leaves the heap without a well formed list of blocks: the block behind the new one,
  or the record of the last block, still points to the padding block.
\<close>
theorem aligned_alloc_breaks_list:
  assumes inv: "heap_inv h (xs @ (s, True) # ys)" and t: "t = unat (kheap_base h) + span xs" "(t + 20) mod 4096 \<noteq> 0"
    and q: "q = (t + 4135) div 4096 * 4096" and best: "kheap_find_best_fit h (of_nat n) True = kret (adr t)"
    and n: "0 < n" "n + (q - (t + 20)) \<le> s" "s \<le> n + (q - (t + 20)) + 20"
  shows "\<exists>h'. kmalloc_flag h (of_nat n) MALLOC_FLAG_ALIGN = kret (adr q, h') \<and> (\<forall>bs. \<not> heap_inv h' bs)"
proof -
  let ?H = "heads h" and ?a = "unat (kheap_base h)"
  define nx where "nx = (if ys = [] then 0 else adr (t + 20 + s))"
  define new where "new = \<lparr>kb_magic = KHEAP_MAGIC, kb_size = of_nat (s - (q - (t + 20))), kb_free = False, kb_prev = adr t, kb_next = nx\<rparr>"
  have i: "kheap_enabled h" "kseg ?H 0 ?a 0 (xs @ (s, True) # ys)" "span (xs @ (s, True) # ys) = 0x2000000" "0 < ?a"
    "kheap_tail h = seg_last 0 ?a (xs @ (s, True) # ys)" "?a + 0x2000000 + 400 < 4294967296"
    using inv by (simp_all add: heap_inv_def linked_def)
  have lim: "0 < t" "t + 20 + s \<le> ?a + 0x2000000" "t + 20 + s < 4294967296"
    using i(3,4,6) t(1) by simp_all
  have qd: "q + (t + 4135) mod 4096 = t + 4135" "(t + 4135) mod 4096 < 4096"
    unfolding q by (rule div_mult_mod_eq, simp)
  have qm: "q mod 4096 = 0" "t + 40 \<le> q" "q < t + 40 + 4096"
    using q qd by (simp, linarith+)
  have ql: "q \<le> t + 20 + s - n" "q < t + 20 + s" "s < 4294967296" "n < 4294967296"
    using n qm(2) lim by linarith+
  obtain d where d: "q = d * 4096"
    using q by blast
  have "d < 1048576"
    using ql(2) lim(3) unfolding d by linarith
  then have wrap: "t + 4135 < 4294967296"
    using qd unfolding d by linarith
  have up: "paging_align_address_up (adr (t + 40)) = adr q"
  proof (rule u32_eqI)
    have "unat (adr (t + 40)) = t + 40"
      using wrap by simp
    then show "unat (paging_align_address_up (adr (t + 40))) = unat (adr q)"
      using wrap q ql(2) lim(3) by (simp add: unat_align_up Let_def minus_mod_eq_div_mult)
  qed
  have off: "adr t + HEAD_SIZE = adr (t + 20)" "adr (t + 20) + HEAD_SIZE = adr (t + 40)" "adr q - HEAD_SIZE = adr (q - 20)"
      "adr q - adr (t + 20) = of_nat (q - (t + 20))" "adr (q - 20) + HEAD_SIZE = adr q"
    using qm(2) by (simp_all add: HEAD_SIZE_def adr_add adr_diff) (simp_all add: adr_def of_nat_diff)
  have unal: "\<not> paging_is_aligned_address (adr (t + 20))"
    using t(2) wrap by (simp add: is_aligned_iff)
  have seg: "?H (adr t) = Some (mk_head s True (seg_last 0 ?a xs) nx)" "kseg ?H (adr t) (t + 20 + s) 0 ys"
    using i(2) by (simp_all add: kseg_append t(1) nx_def)
  define pad where "pad = (mk_head s True (seg_last 0 ?a xs) nx)\<lparr>kb_free := True,
    kb_size := of_nat (q - (t + 20)) - HEAD_SIZE, kb_next := adr (q - 20)\<rparr>"
  have ne: "adr (q - 20) \<noteq> adr t"
    using qm(2) ql lim by simp
  define H' where "H' = ?H(adr t \<mapsto> pad, adr (q - 20) \<mapsto> new)"
  have sz: "(of_nat s :: u32) - of_nat (q - (t + 20)) = of_nat (s - (q - (t + 20)))"
    using n(2) by (simp add: of_nat_diff)
  have "\<not> (of_nat s :: u32) < of_nat n + of_nat (q - (t + 20))"
    using n(2) ql(3) by (simp add: word_less_unat not_less flip: of_nat_add)
  then have cut: "kmalloc_align_block h (of_nat n) MALLOC_FLAG_ALIGN (adr t) =
      kret (adr (q - 20), h\<lparr>heads := ?H(adr (q - 20) \<mapsto> new\<lparr>kb_free := True\<rparr>, adr t \<mapsto> pad)\<rparr>)"
    using unal seg(1) ne
    by (simp add: kmalloc_align_block_def Let_def off up MALLOC_FLAG_ALIGN_def new_def pad_def mk_head_def sz)
  have "\<not> HEAD_SIZE < (of_nat (s - (q - (t + 20))) :: u32) - of_nat n"
  proof -
    have "(of_nat (s - (q - (t + 20))) :: u32) - of_nat n = of_nat (s - (q - (t + 20)) - n)"
      using n(2) by (simp add: of_nat_diff)
    moreover have "unat (of_nat (s - (q - (t + 20)) - n) :: u32) \<le> 20"
      using n(3) by (subst unat_of_nat_u32_small) auto
    ultimately show ?thesis
      by (simp add: word_less_unat HEAD_SIZE_def)
  qed
  then have take: "kmalloc_take_block (h\<lparr>heads := ?H(adr (q - 20) \<mapsto> new\<lparr>kb_free := True\<rparr>, adr t \<mapsto> pad)\<rparr>) (of_nat n) (adr (q - 20)) =
      kret (h\<lparr>heads := H'\<rparr>)"
    using ne by (simp add: kmalloc_take_block_def Let_def new_def H'_def fun_upd_twist)
  have nz: "adr t \<noteq> 0" "adr (q - 20) \<noteq> 0" "(of_nat n :: u32) \<noteq> 0"
    using lim qm(2) ql n(1) by (simp_all add: of_nat_u32_eq_0)
  have run: "kmalloc_flag h (of_nat n) MALLOC_FLAG_ALIGN = kret (adr q, h\<lparr>heads := H'\<rparr>)"
    using best i(1) nz cut take
    by (simp add: kmalloc_flag_def kmalloc_base_def kmalloc_heap_base_def off MALLOC_FLAG_ALIGN_def MALLOC_FLAG_INIT_def)
  have "\<not> heap_inv (h\<lparr>heads := H'\<rparr>) bs" for bs
  proof
    assume "heap_inv (h\<lparr>heads := H'\<rparr>) bs"
    then have j: "kseg H' 0 ?a 0 bs" "span bs = 0x2000000" "kheap_tail h = seg_last 0 ?a bs"
      by (simp_all add: heap_inv_def linked_def)
    let ?A = "starts ?a bs"
    have closed: "kb_next b \<in> ?A" if "x \<in> ?A" "H' x = Some b" "kb_next b \<noteq> 0" for x b
      using starts_next [OF j(1) that(1,2)] that(3) by blast
    have "adr ?a \<in> ?A"
      using j(2) by (cases bs) auto
    moreover have "H' (adr x) = ?H (adr x)" if "?a \<le> x" "x < ?a + span xs" for x
    proof -
      have "x < t" "t + 20 \<le> q - 20" "q - 20 < 4294967296"
        using that t(1) qm(2) ql lim by linarith+
      then show ?thesis
        using lim by (simp add: H'_def)
    qed
    ultimately have "adr (?a + span xs) \<in> ?A"
      using i(3,6) starts_walk [where H' = H' and A = ?A, OF i(2) _ _ closed] by simp
    then have "adr (q - 20) \<in> ?A"
      using closed [of "adr t" pad] ne nz(2) by (simp add: t(1) H'_def pad_def)
    moreover have "0 \<notin> ?A"
      using i(4,6) j(2) by (intro starts_nonzero) simp_all
    ultimately have last: "kb_next new = 0 \<and> adr (q - 20) = kheap_tail h \<or>
        kb_next new \<noteq> 0 \<and> (\<exists>c. H' (kb_next new) = Some c \<and> kb_prev c = adr (q - 20))"
      using starts_next [OF j(1), of "adr (q - 20)" new] by (auto simp: H'_def j(3))
    show False
    proof (cases ys)
      case Nil
      then have "kheap_tail h = adr t"
        using i(5) by (simp add: seg_last_append t(1))
      then show False
        using last ne Nil by (simp add: new_def nx_def)
    next
      case (Cons zg ys')
      then obtain z g where ys: "ys = (z, g) # ys'"
        by (cases zg) auto
      have "?H (adr (t + 20 + s)) = Some (mk_head z g (adr t) (if ys' = [] then 0 else adr (t + 20 + s + 20 + z)))"
        using seg(2) by (simp add: ys)
      moreover have "adr (t + 20 + s) \<noteq> adr t" "adr (t + 20 + s) \<noteq> adr (q - 20)" "adr (t + 20 + s) \<noteq> 0"
        using lim ql qm(2) by simp_all
      ultimately show False
        using last ne ys by (auto simp: new_def nx_def H'_def mk_head_def)
    qed
  qed
  then show ?thesis
    using run by blast
qed

text \<open>A heap whose first block is two pages less one header: an aligned page leaves nothing of it.\<close>

definition tight_kheap :: kheap where
  "tight_kheap = boot_kheap\<lparr>heads := [0xC0800000 \<mapsto> mk_head 8172 True 0 0xC0802000,
     0xC0802000 \<mapsto> mk_head 10 False 0xC0800000 0xC080201E, 0xC080201E \<mapsto> mk_head 33546190 True 0xC0802000 0],
     kheap_tail := 0xC080201E\<rparr>"

lemma tight_kheap_inv: "heap_inv tight_kheap ([] @ (8172, True) # [(10, False), (33546190, True)])"
  by (simp add: heap_inv_def linked_def tight_kheap_def boot_kheap_def kheap_init_head_def
      fresh_kheap_def no_free_pair_simps adr_def)

lemma tight_kheap_best: "kheap_find_best_fit tight_kheap 4096 True = kret 0xC0800000"
proof -
  have "heads tight_kheap 0xC0800000 = Some (mk_head 8172 True 0 0xC0802000)"
    "heads tight_kheap 0xC0802000 = Some (mk_head 10 False 0xC0800000 0xC080201E)"
    "heads tight_kheap 0xC080201E = Some (mk_head 33546190 True 0xC0802000 0)" "kheap_head tight_kheap = 0xC0800000"
    by (simp_all add: tight_kheap_def boot_kheap_def kheap_init_head_def)
  then show ?thesis
    unfolding kheap_find_best_fit_def
    by (simp add: kheap_best_fit_loop.simps kheap_better_def kheap_fits_def mk_head_def Let_def HEAD_SIZE_def
        paging_is_aligned_address_def paging_align_address_up_def PAGE_SIZE_def)
qed

theorem aligned_alloc_breaks_list_witness:
  "\<exists>h'. kmalloc_flag tight_kheap 4096 MALLOC_FLAG_ALIGN = kret (0xC0801000, h') \<and> (\<forall>bs. \<not> heap_inv h' bs)"
  using aligned_alloc_breaks_list [OF tight_kheap_inv refl _ refl, where n = 4096] tight_kheap_best
  by (simp add: tight_kheap_def adr_def)

text \<open>
  What can happen then.  After allocating 8172 and 10 bytes, releasing the first, allocating 4096 aligned bytes and
  releasing the second, the next allocation of 4080 bytes returns a payload that covers the first four bytes of the
  aligned one, which is still in use.
\<close>
theorem aligned_alloc_overlaps:
  "aligned_overlap_run = kret (0xC0801000, 0xC0800014) \<and> in_range 0xC0801000 0xC0800014 4080"
proof
  show "aligned_overlap_run = kret (0xC0801000, 0xC0800014)"
    by code_simp
  show "in_range 0xC0801000 0xC0800014 4080"
    by (simp add: in_range_def)
qed

end
