(* ===== verification/Array.thy ===== *)
theory Array
  imports Memory "HOL-Library.Multiset"
begin

text \<open>
  \<^verbatim>\<open>kernel/src/utils/array.c\<close>: bubble sort on an untyped array, with the swap of two elements byte
  by byte.  The \<^verbatim>\<open>int\<close> counters are compared with unsigned sizes, so they are unsigned here.
  The sort on memory refines the sort of a list of elements, which is proved correct for every
  comparison that orders the elements by a key.
\<close>

section \<open>The code\<close>

function array_swap_loop :: "mem \<Rightarrow> u32 \<Rightarrow> u32 \<Rightarrow> u32 \<Rightarrow> u32 \<Rightarrow> mem" where
  "array_swap_loop m aptr bptr sz i =
     (if i < sz then
        let tmp = m (aptr + i);
            m1 = m(aptr + i := m (bptr + i))
        in array_swap_loop (m1(bptr + i := tmp)) aptr bptr sz (i + 1)
      else m)"
  by pat_completeness auto
termination
  by (relation "measure (\<lambda>(m, aptr, bptr, sz, i). unat sz - unat i)")
    (auto simp: unat_Suc_less word_less_unat)

definition array_swap :: "mem \<Rightarrow> u32 \<Rightarrow> u32 \<Rightarrow> u32 \<Rightarrow> mem" where
  "array_swap m a b sz = array_swap_loop m a b sz 0"

text \<open>One pass, lines 24 to 32: the memory after it and whether anything was swapped.\<close>

function array_bubble_pass ::
  "(mem \<Rightarrow> u32 \<Rightarrow> u32 \<Rightarrow> int) \<Rightarrow> u32 \<Rightarrow> u32 \<Rightarrow> u32 \<Rightarrow> u32 \<Rightarrow> mem \<Rightarrow> bool \<Rightarrow> mem \<times> bool" where
  "array_bubble_pass cmp bptr esize limit j m swapped =
     (if j < limit then
        let a = bptr + j * esize;
            b = bptr + (j + 1) * esize
        in if 0 < cmp m a b
           then array_bubble_pass cmp bptr esize limit (j + 1) (array_swap m a b esize) True
           else array_bubble_pass cmp bptr esize limit (j + 1) m swapped
      else (m, swapped))"
  by pat_completeness auto
termination
  by (relation "measure (\<lambda>(cmp, bptr, esize, limit, j, m, swapped). unat limit - unat j)")
    (auto simp: unat_Suc_less word_less_unat)

function array_bubble_rounds ::
  "(mem \<Rightarrow> u32 \<Rightarrow> u32 \<Rightarrow> int) \<Rightarrow> u32 \<Rightarrow> u32 \<Rightarrow> u32 \<Rightarrow> u32 \<Rightarrow> mem \<Rightarrow> mem" where
  "array_bubble_rounds cmp bptr nitems esize i m =
     (if i < nitems - 1 then
        let (m', swapped) = array_bubble_pass cmp bptr esize (nitems - 1 - i) 0 m False
        in if \<not> swapped then m' else array_bubble_rounds cmp bptr nitems esize (i + 1) m'
      else m)"
  by pat_completeness auto
termination
  by (relation "measure (\<lambda>(cmp, bptr, nitems, esize, i, m). unat (nitems - 1) - unat i)")
    (auto simp: unat_Suc_less word_less_unat)

definition array_bubble_sort ::
  "mem \<Rightarrow> u32 \<Rightarrow> u32 \<Rightarrow> u32 \<Rightarrow> (mem \<Rightarrow> u32 \<Rightarrow> u32 \<Rightarrow> int) \<Rightarrow> mem" where
  "array_bubble_sort m base nitems esize cmp = array_bubble_rounds cmp base nitems esize 0 m"

declare array_swap_loop.simps [simp del] array_bubble_pass.simps [simp del]
  array_bubble_rounds.simps [simp del]


section \<open>Swapping two elements\<close>

lemma array_swap_loop_eq:
  assumes "\<And>x. \<not> (x - aptr < sz \<and> x - bptr < sz)"
  shows "array_swap_loop m aptr bptr sz i =
    (\<lambda>x. if i \<le> x - aptr \<and> x - aptr < sz then m (bptr + (x - aptr))
         else if i \<le> x - bptr \<and> x - bptr < sz then m (aptr + (x - bptr)) else m x)"
  using assms
proof (induction m aptr bptr sz i rule: array_swap_loop.induct)
  case (1 m aptr bptr sz i)
  show ?case
  proof (cases "i < sz")
    case False
    then have "\<not> (i \<le> y \<and> y < sz)" for y
      by (meson le_less_trans)
    then show ?thesis
      using False by (subst array_swap_loop.simps) (auto simp: fun_eq_iff)
  next
    case True
    let ?m = "m(aptr + i := m (bptr + i), bptr + i := m (aptr + i))"
    have step: "array_swap_loop m aptr bptr sz i = array_swap_loop ?m aptr bptr sz (i + 1)"
      using True by (subst array_swap_loop.simps) (simp only: if_True Let_def)
    have le: "i + 1 \<le> y \<longleftrightarrow> i \<le> y \<and> y \<noteq> i" for y
      using True unat_Suc_less [OF True] by (auto simp: word_le_unat word_unat_eq_iff)
    have ne: "x - aptr < sz \<Longrightarrow> \<not> x - bptr < sz" for x
      using "1.prems" by blast
    have off: "x = aptr + i \<longleftrightarrow> x - aptr = i" "x = bptr + i \<longleftrightarrow> x - bptr = i" for x
      by (auto simp: algebra_simps)
    have IH: "array_swap_loop ?m aptr bptr sz (i + 1) =
      (\<lambda>x. if i + 1 \<le> x - aptr \<and> x - aptr < sz then ?m (bptr + (x - aptr))
         else if i + 1 \<le> x - bptr \<and> x - bptr < sz then ?m (aptr + (x - bptr)) else ?m x)"
      by (rule "1.IH" [OF True refl refl "1.prems"])
    have "array_swap_loop m aptr bptr sz i x =
      (if i \<le> x - aptr \<and> x - aptr < sz then m (bptr + (x - aptr))
         else if i \<le> x - bptr \<and> x - bptr < sz then m (aptr + (x - bptr)) else m x)" for x
    proof -
      have A: "?m (bptr + (x - aptr)) = m (bptr + (x - aptr))" if "x - aptr < sz" "x - aptr \<noteq> i"
      proof -
        have "bptr + (x - aptr) - bptr < sz"
          using that by simp
        then have "\<not> bptr + (x - aptr) - aptr < sz"
          using ne by blast
        then show ?thesis
          using that True by (auto simp: off)
      qed
      have B: "?m (aptr + (x - bptr)) = m (aptr + (x - bptr))" if "x - bptr < sz" "x - bptr \<noteq> i"
      proof -
        have "aptr + (x - bptr) - aptr < sz"
          using that by simp
        then have "\<not> aptr + (x - bptr) - bptr < sz"
          using ne by blast
        then show ?thesis
          using that True by (auto simp: off)
      qed
      show ?thesis
        unfolding step IH le using A B ne [of x] True by (auto simp: off)
    qed
    then show ?thesis
      by blast
  qed
qed

lemma bytes_at_swap:
  assumes dis: "disjoint_ranges a (unat sz) b (unat sz)"
  shows "bytes_at (array_swap m a b sz) a (unat sz) = bytes_at m b (unat sz)"
    and "bytes_at (array_swap m a b sz) b (unat sz) = bytes_at m a (unat sz)"
    and "disjoint_ranges a (unat sz) p n \<Longrightarrow> disjoint_ranges b (unat sz) p n \<Longrightarrow> n \<le> 4294967296 \<Longrightarrow>
      bytes_at (array_swap m a b sz) p n = bytes_at m p n"
proof -
  have ne: "\<not> (x - a < sz \<and> x - b < sz)" for x
    using dis by (auto simp: disjoint_ranges_def in_range_def word_less_unat)
  have eq: "array_swap m a b sz = (\<lambda>x. if x - a < sz then m (b + (x - a))
      else if x - b < sz then m (a + (x - b)) else m x)"
    unfolding array_swap_def using array_swap_loop_eq [of a sz b m 0] ne
    by (simp add: fun_eq_iff)
  have lt: "of_nat i < sz" if "i < unat sz" for i
    using that unat_lt_u32 [of sz] by (simp add: word_less_unat unat_of_nat_u32)
  show "bytes_at (array_swap m a b sz) a (unat sz) = bytes_at m b (unat sz)"
    by (rule nth_equalityI) (simp_all add: eq lt)
  show "bytes_at (array_swap m a b sz) b (unat sz) = bytes_at m a (unat sz)"
  proof (rule nth_equalityI)
    fix i assume "i < length (bytes_at (array_swap m a b sz) b (unat sz))"
    then show "bytes_at (array_swap m a b sz) b (unat sz) ! i = bytes_at m a (unat sz) ! i"
      using ne [of "b + of_nat i"] lt [of i] by (simp add: eq)
  qed simp
  show "bytes_at (array_swap m a b sz) p n = bytes_at m p n"
    if "disjoint_ranges a (unat sz) p n" "disjoint_ranges b (unat sz) p n" "n \<le> 4294967296"
    using that disjoint_rangesD by (intro nth_equalityI) (auto simp: eq in_range_def word_less_unat)
qed


section \<open>Bubble sort on a list\<close>

text \<open>The same passes on the list of elements; \<open>gt x y\<close> stands for a positive comparison.\<close>

definition swap_next :: "nat \<Rightarrow> 'a list \<Rightarrow> 'a list" where
  "swap_next j xs = xs[j := xs ! Suc j, Suc j := xs ! j]"

fun list_pass :: "('a \<Rightarrow> 'a \<Rightarrow> bool) \<Rightarrow> nat \<Rightarrow> nat \<Rightarrow> 'a list \<Rightarrow> bool \<Rightarrow> 'a list \<times> bool" where
  "list_pass gt 0 j xs sw = (xs, sw)"
| "list_pass gt (Suc r) j xs sw =
     (if gt (xs ! j) (xs ! Suc j) then list_pass gt r (Suc j) (swap_next j xs) True
      else list_pass gt r (Suc j) xs sw)"

fun list_rounds :: "('a \<Rightarrow> 'a \<Rightarrow> bool) \<Rightarrow> nat \<Rightarrow> 'a list \<Rightarrow> 'a list" where
  "list_rounds gt 0 xs = xs"
| "list_rounds gt (Suc r) xs =
     (case list_pass gt (Suc r) 0 xs False of (ys, sw) \<Rightarrow> if sw then list_rounds gt r ys else ys)"

lemma swap_next_length [simp]: "length (swap_next j xs) = length xs"
  by (simp add: swap_next_def)

lemma swap_next_nth:
  "Suc j < length xs \<Longrightarrow> i < length xs \<Longrightarrow>
   swap_next j xs ! i = (if i = j then xs ! Suc j else if i = Suc j then xs ! j else xs ! i)"
  by (simp add: swap_next_def nth_list_update)

lemma swap_next_mset: "Suc j < length xs \<Longrightarrow> mset (swap_next j xs) = mset xs"
  unfolding swap_next_def by (rule mset_swap) auto

lemma list_pass_mset:
  "j + r < length xs \<Longrightarrow> mset (fst (list_pass gt r j xs sw)) = mset xs"
  by (induction gt r j xs sw rule: list_pass.induct) (auto simp: swap_next_mset)

lemma list_pass_length [simp]: "length (fst (list_pass gt r j xs sw)) = length xs"
  by (induction gt r j xs sw rule: list_pass.induct) auto

text \<open>Positions outside those the pass works on keep their elements.\<close>

lemma list_pass_other:
  "j + r < length xs \<Longrightarrow> i < j \<or> j + r < i \<Longrightarrow> i < length xs \<Longrightarrow>
   fst (list_pass gt r j xs sw) ! i = xs ! i"
  by (induction gt r j xs sw rule: list_pass.induct) (auto simp: swap_next_nth)

locale key_order =
  fixes gt :: "'a \<Rightarrow> 'a \<Rightarrow> bool" and key :: "'a \<Rightarrow> 'k :: linorder"
  assumes gt_key: "gt x y \<longleftrightarrow> key y < key x"
begin

text \<open>A pass moves a largest element of its range to the end of the range.\<close>

lemma list_pass_max:
  "j + r < length xs \<Longrightarrow> (\<And>i. i < j \<Longrightarrow> key (xs ! i) \<le> key (xs ! j)) \<Longrightarrow> i \<le> j + r \<Longrightarrow>
   key (fst (list_pass gt r j xs sw) ! i) \<le> key (fst (list_pass gt r j xs sw) ! (j + r))"
proof (induction r arbitrary: j xs sw)
  case 0
  then show ?case
    by (cases "i = j") auto
next
  case (Suc r)
  show ?case
  proof (cases "gt (xs ! j) (xs ! Suc j)")
    case True
    have "key (swap_next j xs ! i) \<le> key (swap_next j xs ! Suc j)" if "i < Suc j" for i
      using that Suc.prems True by (auto simp: swap_next_nth gt_key less_Suc_eq)
    then show ?thesis
      using Suc.IH [of "Suc j" "swap_next j xs" True] Suc.prems True by simp
  next
    case False
    have "key (xs ! i) \<le> key (xs ! Suc j)" if "i < Suc j" for i
      using that Suc.prems(2) [of i] False by (auto simp: gt_key less_Suc_eq not_less intro: order_trans)
    then show ?thesis
      using Suc.IH [of "Suc j" xs sw] Suc.prems False by simp
  qed
qed

lemma list_pass_swapped: "snd (list_pass gt r j xs True)"
  by (induction r arbitrary: j xs) auto

text \<open>A pass without a swap has found its range in order.\<close>

lemma list_pass_quiet:
  "\<not> snd (list_pass gt r j xs False) \<Longrightarrow>
   fst (list_pass gt r j xs False) = xs \<and> (\<forall>i. j \<le> i \<and> i < j + r \<longrightarrow> key (xs ! i) \<le> key (xs ! Suc i))"
proof (induction r arbitrary: j)
  case (Suc r)
  have le: "\<not> gt (xs ! j) (xs ! Suc j)"
    using Suc.prems list_pass_swapped [of r "Suc j"] by (auto split: if_splits)
  then have IH: "fst (list_pass gt r (Suc j) xs False) = xs"
    "\<forall>i. Suc j \<le> i \<and> i < Suc j + r \<longrightarrow> key (xs ! i) \<le> key (xs ! Suc i)"
    using Suc.IH [of "Suc j"] Suc.prems by simp_all
  have "key (xs ! i) \<le> key (xs ! Suc i)" if "j \<le> i" "i < j + Suc r" for i
    using IH(2) le that by (cases "i = j") (auto simp: gt_key not_less)
  then show ?case
    using IH(1) le by simp
qed auto

text \<open>Behind position \<open>r\<close> everything is in order and no smaller than what comes before.\<close>

definition settled :: "nat \<Rightarrow> 'a list \<Rightarrow> bool" where
  "settled r xs \<longleftrightarrow>
     (\<forall>i j. i < j \<and> j < length xs \<and> r < j \<longrightarrow> key (xs ! i) \<le> key (xs ! j))"

lemma list_pass_settled:
  assumes "Suc r < length xs" and "settled (Suc r) xs"
  shows "settled r (fst (list_pass gt (Suc r) 0 xs sw))"
  unfolding settled_def
proof (intro allI impI)
  let ?ys = "fst (list_pass gt (Suc r) 0 xs sw)"
  fix i j
  assume ij: "i < j \<and> j < length ?ys \<and> r < j"
  have other: "?ys ! k = xs ! k" if "Suc r < k" "k < length xs" for k
    using list_pass_other [of 0 "Suc r" xs k] assms(1) that by simp
  show "key (?ys ! i) \<le> key (?ys ! j)"
  proof (cases "j = Suc r")
    case True
    then show ?thesis
      using list_pass_max [of 0 "Suc r" xs i sw] assms(1) ij by simp
  next
    case False
    then have j: "Suc r < j" "j < length xs"
      using ij unfolding list_pass_length by simp_all
    have "mset ?ys = mset xs"
      using assms(1) by (intro list_pass_mset) simp
    show ?thesis
    proof (cases "i \<le> Suc r")
      case False
      then show ?thesis
        using other assms(2) ij j by (auto simp: settled_def)
    next
      case i: True
      have "mset (take (Suc (Suc r)) ?ys @ drop (Suc (Suc r)) ?ys) =
          mset (take (Suc (Suc r)) xs @ drop (Suc (Suc r)) xs)"
        using \<open>mset ?ys = mset xs\<close> by (simp only: append_take_drop_id)
      moreover have "drop (Suc (Suc r)) ?ys = drop (Suc (Suc r)) xs"
        by (rule nth_equalityI) (auto simp: other simp del: list_pass.simps)
      ultimately have "set (take (Suc (Suc r)) ?ys) = set (take (Suc (Suc r)) xs)"
        by (metis add_right_cancel mset_append mset_eq_setD)
      moreover have "?ys ! i \<in> set (take (Suc (Suc r)) ?ys)"
        using i assms(1) by (auto simp: in_set_conv_nth intro!: exI [of _ i])
      ultimately obtain k where "k < Suc (Suc r)" "?ys ! i = xs ! k"
        by (auto simp: in_set_conv_nth)
      then show ?thesis
        using assms(2) j other [of j] by (simp add: settled_def)
    qed
  qed
qed

lemma settled_0: "settled 0 xs \<Longrightarrow> sorted (map key xs)"
  by (auto simp: settled_def sorted_iff_nth_mono_less)

lemma list_rounds_sorts:
  "r < length xs \<Longrightarrow> settled r xs \<Longrightarrow>
   sorted (map key (list_rounds gt r xs)) \<and> mset (list_rounds gt r xs) = mset xs"
proof (induction r arbitrary: xs)
  case 0
  then show ?case
    by (simp add: settled_0)
next
  case (Suc r)
  obtain ys sw where p: "list_pass gt (Suc r) 0 xs False = (ys, sw)"
    by force
  have ys: "mset ys = mset xs" "length ys = length xs" "settled r ys"
    using list_pass_mset [of 0 "Suc r" xs gt False] list_pass_length [of gt "Suc r" 0 xs False]
      list_pass_settled [of r xs False] Suc.prems by (simp_all only: p fst_conv add_0)
  show ?case
  proof (cases sw)
    case True
    then show ?thesis
      using Suc.IH [of ys] Suc.prems ys p by simp
  next
    case False
    have quiet: "ys = xs" "\<forall>i. i < Suc r \<longrightarrow> key (xs ! i) \<le> key (xs ! Suc i)"
      using list_pass_quiet [of "Suc r" 0 xs] p False by auto
    have "key (xs ! i) \<le> key (xs ! Suc i)" if "Suc i < length xs" for i
      using quiet(2) Suc.prems(2) that by (cases "i < Suc r") (auto simp: settled_def)
    then have "sorted (map key xs)"
      by (simp add: sorted_iff_nth_Suc)
    then show ?thesis
      using p False quiet(1) by simp
  qed
qed

end


section \<open>The sort on memory refines the sort of the list\<close>

definition elem_at :: "u32 \<Rightarrow> u32 \<Rightarrow> nat \<Rightarrow> u32" where
  "elem_at base esize j = base + of_nat j * esize"

definition elems :: "mem \<Rightarrow> u32 \<Rightarrow> nat \<Rightarrow> u32 \<Rightarrow> u8 list list" where
  "elems m base n esize = map (\<lambda>j. bytes_at m (elem_at base esize j) (unat esize)) [0..<n]"

definition array_fits :: "u32 \<Rightarrow> nat \<Rightarrow> u32 \<Rightarrow> bool" where
  "array_fits base n esize \<longleftrightarrow> unat base + n * unat esize < 4294967296 \<and> n < 4294967296"

lemma elems_length [simp]: "length (elems m base n esize) = n"
  by (simp add: elems_def)

lemma elems_nth [simp]:
  "j < n \<Longrightarrow> elems m base n esize ! j = bytes_at m (elem_at base esize j) (unat esize)"
  by (simp add: elems_def)

lemma elem_end: "j < n \<Longrightarrow> j * e + e \<le> n * (e :: nat)"
  by (metis Suc_leI add.commute mult_Suc mult_le_mono1)

lemma unat_elem_at:
  assumes "array_fits base n esize" and "j < n"
  shows "unat (elem_at base esize j) = unat base + j * unat esize"
proof -
  have "unat base + j * unat esize < 4294967296" "j < 4294967296"
    using assms elem_end [of j n "unat esize"] by (auto simp: array_fits_def)
  then show ?thesis
    by (simp add: elem_at_def unat_add_u32 unat_mult_u32 unat_of_nat_u32)
qed

lemma in_range_elem:
  assumes "array_fits base n esize" and "j < n" and "in_range x (elem_at base esize j) (unat esize)"
  shows "unat base + j * unat esize \<le> unat x \<and> unat x < unat base + j * unat esize + unat esize"
proof -
  obtain i where i: "i < unat esize" "x = elem_at base esize j + of_nat i"
    using assms(3) by (auto simp: in_range_ex)
  have lt: "unat base + j * unat esize + i < 4294967296"
    using assms(1,2) i(1) elem_end [of j n "unat esize"] by (auto simp: array_fits_def)
  then have "unat x = unat base + j * unat esize + i"
    by (simp add: i(2) unat_add_u32 unat_of_nat_u32 unat_elem_at [OF assms(1,2)])
  then show ?thesis
    using i(1) by simp
qed

lemma elem_disjoint:
  assumes "array_fits base n esize" and "j < n" and "k < n" and "j \<noteq> k"
  shows "disjoint_ranges (elem_at base esize j) (unat esize) (elem_at base esize k) (unat esize)"
proof -
  have "False" if "in_range x (elem_at base esize j) (unat esize)" "in_range x (elem_at base esize k) (unat esize)" for x
    using in_range_elem [OF assms(1,2) that(1)] in_range_elem [OF assms(1,3) that(2)]
      elem_end [of j k "unat esize"] elem_end [of k j "unat esize"] assms(4) by linarith
  then show ?thesis
    by (auto simp: disjoint_ranges_def)
qed

text \<open>What lies outside the array is not touched.\<close>

definition array_frame :: "u32 \<Rightarrow> nat \<Rightarrow> u32 \<Rightarrow> mem \<Rightarrow> mem \<Rightarrow> bool" where
  "array_frame base n esize m m' \<longleftrightarrow>
     (\<forall>x. unat x < unat base \<or> unat base + n * unat esize \<le> unat x \<longrightarrow> m' x = m x)"

lemma array_swap_elems:
  assumes fits: "array_fits base n esize" and j: "Suc j < n"
    and m': "m' = array_swap m (elem_at base esize j) (elem_at base esize (Suc j)) esize"
  shows "elems m' base n esize = swap_next j (elems m base n esize)" and "array_frame base n esize m m'"
proof -
  have d: "disjoint_ranges (elem_at base esize j) (unat esize) (elem_at base esize (Suc j)) (unat esize)"
    using elem_disjoint [OF fits, of j "Suc j"] j by simp
  note sw = bytes_at_swap [OF d, where m = m, folded m']
  show "elems m' base n esize = swap_next j (elems m base n esize)"
  proof (rule nth_equalityI)
    fix i
    assume "i < length (elems m' base n esize)"
    then have i: "i < n"
      by simp
    consider "i = j" | "i = Suc j" | "i \<noteq> j" "i \<noteq> Suc j"
      by blast
    then show "elems m' base n esize ! i = swap_next j (elems m base n esize) ! i"
    proof cases
      case 3
      have "bytes_at m' (elem_at base esize i) (unat esize) = bytes_at m (elem_at base esize i) (unat esize)"
        using sw(3) elem_disjoint [OF fits] i j 3 unat_lt_u32 [of esize] by (simp add: less_imp_le)
      then show ?thesis
        using i j 3 by (simp add: swap_next_nth)
    qed (use sw(1,2) i j in \<open>simp_all add: swap_next_nth\<close>)
  qed simp
  show "array_frame base n esize m m'"
    unfolding array_frame_def
  proof (intro allI impI)
    fix x :: u32
    assume x: "unat x < unat base \<or> unat base + n * unat esize \<le> unat x"
    have "\<not> in_range x (elem_at base esize k) (unat esize)" if "k < n" for k
      using in_range_elem [OF fits that, of x] elem_end [OF that, of "unat esize"] x by linarith
    then have "disjoint_ranges (elem_at base esize k) (unat esize) x 1" if "k < n" for k
      using that by (auto simp: disjoint_ranges_def in_range_ex [of _ x])
    then have "bytes_at m' x 1 = bytes_at m x 1"
      using sw(3) [of x 1] j by simp
    then show "m' x = m x"
      by (simp add: bytes_at_def)
  qed
qed

lemma array_frame_refl: "array_frame base n esize m m"
  by (simp add: array_frame_def)

lemma array_frame_trans:
  "array_frame base n esize m m' \<Longrightarrow> array_frame base n esize m' m'' \<Longrightarrow> array_frame base n esize m m''"
  by (simp add: array_frame_def)

text \<open>A comparison that looks at the bytes of the two elements only.\<close>

locale byte_compare =
  fixes cmp :: "mem \<Rightarrow> u32 \<Rightarrow> u32 \<Rightarrow> int" and esize :: u32 and gt :: "u8 list \<Rightarrow> u8 list \<Rightarrow> bool"
  assumes cmp_gt: "0 < cmp m a b \<longleftrightarrow> gt (bytes_at m a (unat esize)) (bytes_at m b (unat esize))"
begin

lemma array_bubble_pass_refines:
  assumes fits: "array_fits base n esize" and lim: "unat limit < n"
  shows "unat limit - unat j = r \<Longrightarrow> \<exists>m' sw'. array_bubble_pass cmp base esize limit j m sw = (m', sw') \<and>
    list_pass gt r (unat j) (elems m base n esize) sw = (elems m' base n esize, sw') \<and>
    array_frame base n esize m m'"
proof (induction r arbitrary: j m sw)
  case 0
  then have "\<not> j < limit"
    by (simp add: word_less_unat)
  then show ?case
    by (simp add: array_bubble_pass.simps array_frame_refl)
next
  case (Suc r)
  then have lt: "j < limit" and j: "unat (j + 1) = Suc (unat j)" "Suc (unat j) < n"
    using lim unat_Suc_less [of j limit] by (simp_all add: word_less_unat)
  have r: "unat limit - unat (j + 1) = r"
    using Suc.prems j by simp
  have ab: "base + j * esize = elem_at base esize (unat j)"
    "base + (j + 1) * esize = elem_at base esize (Suc (unat j))"
    unfolding elem_at_def j(1) [symmetric] by simp_all
  show ?case
  proof (cases "0 < cmp m (elem_at base esize (unat j)) (elem_at base esize (Suc (unat j)))")
    case True
    define m1 where "m1 = array_swap m (elem_at base esize (unat j)) (elem_at base esize (Suc (unat j))) esize"
    note m1 = array_swap_elems [OF fits j(2) m1_def]
    have "array_bubble_pass cmp base esize limit j m sw = array_bubble_pass cmp base esize limit (j + 1) m1 True"
      using lt True by (subst array_bubble_pass.simps) (simp add: ab m1_def Let_def)
    then show ?thesis
      using Suc.IH [OF r, of m1 True] True m1 j cmp_gt by (auto intro: array_frame_trans)
  next
    case False
    have "array_bubble_pass cmp base esize limit j m sw = array_bubble_pass cmp base esize limit (j + 1) m sw"
      using lt False by (subst array_bubble_pass.simps) (simp add: ab Let_def)
    then show ?thesis
      using Suc.IH [OF r, of m sw] False j cmp_gt by auto
  qed
qed

lemma array_bubble_rounds_refines:
  assumes fits: "array_fits base n esize" and n: "unat nitems = n" "0 < n"
  shows "unat (nitems - 1) - unat i = r \<Longrightarrow> \<exists>m'. array_bubble_rounds cmp base nitems esize i m = m' \<and>
    list_rounds gt r (elems m base n esize) = elems m' base n esize \<and> array_frame base n esize m m'"
proof (induction r arbitrary: i m)
  case 0
  then have "\<not> i < nitems - 1"
    by (simp add: word_less_unat)
  then show ?case
    by (simp add: array_bubble_rounds.simps array_frame_refl)
next
  case (Suc r)
  then have lt: "i < nitems - 1" and i: "unat (i + 1) = Suc (unat i)"
    using unat_Suc_less [of i "nitems - 1"] by (simp_all add: word_less_unat)
  have r: "unat (nitems - 1) - unat (i + 1) = r"
    using Suc.prems i by simp
  have "nitems \<noteq> 0"
    using n by auto
  then have n1: "unat (nitems - 1) = n - 1"
    using n by (simp add: unat_minus_one)
  have lim: "unat (nitems - 1 - i) = Suc r"
    using Suc.prems lt by (simp add: unat_sub_u32 word_less_unat)
  then have "unat (nitems - 1 - i) < n"
    using Suc.prems n1 n by linarith
  from array_bubble_pass_refines [OF fits this, of 0 "Suc r" m False]
  obtain m1 sw where m1: "array_bubble_pass cmp base esize (nitems - 1 - i) 0 m False = (m1, sw)"
    "list_pass gt (Suc r) 0 (elems m base n esize) False = (elems m1 base n esize, sw)"
    "array_frame base n esize m m1"
    using lim by auto
  show ?case
  proof (cases sw)
    case True
    then have "array_bubble_rounds cmp base nitems esize i m = array_bubble_rounds cmp base nitems esize (i + 1) m1"
      using lt m1(1) by (subst array_bubble_rounds.simps) simp
    then show ?thesis
      using Suc.IH [OF r, of m1] m1(2,3) True by (auto intro: array_frame_trans)
  next
    case False
    then have "array_bubble_rounds cmp base nitems esize i m = m1"
      using lt m1(1) by (subst array_bubble_rounds.simps) simp
    then show ?thesis
      using m1(2,3) False by simp
  qed
qed

end

text \<open>A comparison by a key: the sort leaves the elements in the order of their keys.\<close>

locale byte_sort = byte_compare + key_order gt key for key :: "u8 list \<Rightarrow> 'k :: linorder"
begin

lemma array_bubble_sort_sorts:
  assumes fits: "array_fits base n esize" and n: "unat nitems = n" "0 < n"
  shows "sorted (map key (elems (array_bubble_sort m base nitems esize cmp) base n esize))"
    and "mset (elems (array_bubble_sort m base nitems esize cmp) base n esize) = mset (elems m base n esize)"
    and "array_frame base n esize m (array_bubble_sort m base nitems esize cmp)"
proof -
  have "nitems \<noteq> 0"
    using n by auto
  then have r: "unat (nitems - 1) - unat (0 :: u32) = n - 1"
    using n by (simp add: unat_minus_one)
  have "settled (n - 1) (elems m base n esize)"
    by (auto simp: settled_def)
  then have "sorted (map key (list_rounds gt (n - 1) (elems m base n esize)))"
    "mset (list_rounds gt (n - 1) (elems m base n esize)) = mset (elems m base n esize)"
    using list_rounds_sorts [of "n - 1" "elems m base n esize"] n by simp_all
  then show "sorted (map key (elems (array_bubble_sort m base nitems esize cmp) base n esize))"
    "mset (elems (array_bubble_sort m base nitems esize cmp) base n esize) = mset (elems m base n esize)"
    "array_frame base n esize m (array_bubble_sort m base nitems esize cmp)"
    using array_bubble_rounds_refines [OF fits n r, of m] unfolding array_bubble_sort_def by auto
qed

end

end
