(* ===== verification/Numeric.thy ===== *)
theory Numeric
  imports Memory "HOL-Library.Signed_Division"
begin

text \<open>
  \<^verbatim>\<open>kernel/src/utils/numeric.c\<close>, \<^verbatim>\<open>kernel/src/utils/rand.c\<close> and \<^verbatim>\<open>kernel/src/device/uuid.c\<close>: division
  rounding up, the pseudo random numbers and the version 4 identifiers made from them.  An \<^verbatim>\<open>int\<close>
  is a 32-bit word read as a two's complement number.
\<close>

section \<open>Division rounding up\<close>

text \<open>C division truncates; dividing by zero raises the processor's divide error.\<close>

definition div_up :: "u32 \<Rightarrow> u32 \<Rightarrow> u32 kres" where
  "div_up a b =
     (if b = 0 then Some (Inl DivideError)
      else kret (word_of_int (sint (a + b - 1) sdiv sint b)))"

lemma sint_unat: "unat (w :: u32) < 2147483648 \<Longrightarrow> sint w = int (unat w)"
proof -
  assume "unat w < 2147483648"
  then have "int (unat w) < int 2147483648"
    by (simp only: of_nat_less_iff)
  moreover have "- 2147483648 \<le> uint w"
    by (rule order_trans [of _ 0]) simp_all
  ultimately show ?thesis
    by (simp add: sint_uint signed_take_bit_int_eq_self)
qed

lemma sdiv_nat: "int m sdiv int n = int (m div n)"
  by (simp add: signed_divide_int_def zdiv_int sgn_if)

lemma div_up_eq:
  assumes "0 < unat b" and "unat b < 2147483648" and "unat a + unat b \<le> 2147483648"
  shows "div_up a b = kret (of_nat ((unat a + unat b - 1) div unat b))"
proof -
  have n: "unat (a + b - 1) = unat a + unat b - 1"
    using assms by (simp add: unat_add_u32 unat_sub_u32)
  have "b \<noteq> 0"
    using assms(1) by auto
  moreover have "sint (a + b - 1) sdiv sint b = int ((unat a + unat b - 1) div unat b)"
    using assms n by (simp only: sint_unat [of "a + b - 1"] sint_unat [of b] sdiv_nat)
  ultimately show ?thesis
    by (simp add: div_up_def)
qed


section \<open>Pseudo random numbers\<close>

text \<open>The state is the static \<^verbatim>\<open>next\<close>, 32 bits wide on this target.\<close>

definition rand_set_seed :: "u32 \<Rightarrow> u32" where
  "rand_set_seed seed = seed"

definition rand_next :: "u32 \<Rightarrow> u32 \<times> u32" where
  "rand_next nxt = (let nxt' = nxt * 1103515245 + 12345 in ((nxt' div 65536) mod 32768, nxt'))"

lemma rand_next_bound: "unat (fst (rand_next nxt)) < 32768"
  by (simp add: rand_next_def Let_def unat_mod)


section \<open>Identifiers\<close>

record uuid =
  bytes :: "u8 list"

primrec uuid_fill :: "nat \<Rightarrow> u32 \<Rightarrow> u8 list \<times> u32" where
  "uuid_fill 0 nxt = ([], nxt)"
| "uuid_fill (Suc n) nxt =
     (let (r, nxt1) = rand_next nxt; (bs, nxt2) = uuid_fill n nxt1 in (ucast (r AND 0xFF) # bs, nxt2))"

definition generate_uuid_v4 :: "u32 \<Rightarrow> uuid \<times> u32" where
  "generate_uuid_v4 nxt =
     (let (bs, nxt1) = uuid_fill 16 nxt;
          bs1 = bs[6 := (bs ! 6 AND 0x0F) OR 0x40];
          bs2 = bs1[8 := (bs1 ! 8 AND 0x3F) OR 0x80]
      in (\<lparr>bytes = bs2\<rparr>, nxt1))"

definition hex_digits :: "u8 list" where
  "hex_digits = map (of_char :: char \<Rightarrow> u8) ''0123456789abcdef''"

text \<open>The loop of \<^verbatim>\<open>uuid_v4_to_string\<close> from index \<open>i\<close> on; \<open>bs\<close> are the bytes from there.\<close>

fun uuid_string_loop :: "mem \<Rightarrow> u32 \<Rightarrow> nat \<Rightarrow> u32 \<Rightarrow> u8 list \<Rightarrow> mem" where
  "uuid_string_loop m buffer i pos [] = m(buffer + pos := 0)"
| "uuid_string_loop m buffer i pos (b # bs) =
     (let (m1, pos1) = (if i = 4 \<or> i = 6 \<or> i = 8 \<or> i = 10
                        then (m(buffer + pos := of_char CHR ''-''), pos + 1) else (m, pos));
          m2 = m1(buffer + pos1 := hex_digits ! unat (drop_bit 4 b AND 0x0F));
          m3 = m2(buffer + (pos1 + 1) := hex_digits ! unat (b AND 0x0F))
      in uuid_string_loop m3 buffer (i + 1) (pos1 + 2) bs)"

definition uuid_v4_to_string :: "mem \<Rightarrow> uuid \<Rightarrow> u32 \<Rightarrow> mem" where
  "uuid_v4_to_string m uuid buffer = uuid_string_loop m buffer 0 0 (take 16 (bytes uuid))"

fun uuid_compare_loop :: "u8 list \<Rightarrow> u8 list \<Rightarrow> int" where
  "uuid_compare_loop (a # as) (b # bs) =
     (if a < b then -1 else if b < a then 1 else uuid_compare_loop as bs)"
| "uuid_compare_loop _ _ = 0"

definition uuid_v4_compare :: "uuid \<Rightarrow> uuid \<Rightarrow> int" where
  "uuid_v4_compare uuid1 uuid2 = uuid_compare_loop (take 16 (bytes uuid1)) (take 16 (bytes uuid2))"

lemma uuid_fill_length: "length (fst (uuid_fill n nxt)) = n"
  by (induction n arbitrary: nxt) (simp_all add: Let_def case_prod_beta)

text \<open>The text of an identifier: hexadecimal bytes, a dash in front of some of them.\<close>

definition hex_byte :: "u8 \<Rightarrow> u8 list" where
  "hex_byte b = [hex_digits ! (unat b div 16), hex_digits ! (unat b mod 16)]"

primrec uuid_text :: "nat \<Rightarrow> u8 list \<Rightarrow> u8 list" where
  "uuid_text i [] = []"
| "uuid_text i (b # bs) =
     (if i \<in> {4, 6, 8, 10} then [of_char CHR ''-''] else []) @ hex_byte b @ uuid_text (i + 1) bs"

lemma nibble_bound: "unat (b :: u8) div 16 < 16"
  by (rule less_mult_imp_div_less) simp

lemma hex_byte_nibbles:
  "hex_byte b = [hex_digits ! unat (drop_bit 4 b AND 0x0F), hex_digits ! unat (b AND 0x0F)]"
proof -
  have m: "(0x0F :: u8) = mask 4"
    by (simp add: mask_eq_exp_minus_1)
  have "unat (drop_bit 4 b) = unat b div 16"
    by (simp only: unat_drop_bit_eq) (simp add: drop_bit_eq_div)
  moreover have "unat b div 16 < 16"
    by (rule nibble_bound)
  ultimately show ?thesis
    by (simp add: hex_byte_def m unat_and_mask)
qed

lemma uuid_string_loop_eq:
  "uuid_string_loop m buffer i pos bs = store_bytes m (buffer + pos) (uuid_text i bs @ [0])"
proof (induction bs arbitrary: m i pos)
  case (Cons b bs)
  show ?case
    by (simp add: Cons.IH hex_byte_nibbles Let_def algebra_simps)
qed simp

lemma hex_digits_inj: "i < 16 \<Longrightarrow> j < 16 \<Longrightarrow> hex_digits ! i = hex_digits ! j \<Longrightarrow> i = j"
proof -
  have "distinct hex_digits" "length hex_digits = 16"
    by (simp_all add: hex_digits_def)
  then show "i < 16 \<Longrightarrow> j < 16 \<Longrightarrow> hex_digits ! i = hex_digits ! j \<Longrightarrow> i = j"
    by (simp add: nth_eq_iff_index_eq)
qed

lemma hex_byte_inj: "hex_byte a = hex_byte b \<Longrightarrow> a = b"
proof -
  assume "hex_byte a = hex_byte b"
  moreover have "unat a div 16 < 16" "unat b div 16 < 16"
    by (rule nibble_bound)+
  ultimately have "unat a div 16 = unat b div 16" "unat a mod 16 = unat b mod 16"
    using hex_digits_inj [of "unat a div 16" "unat b div 16"]
      hex_digits_inj [of "unat a mod 16" "unat b mod 16"] by (simp_all add: hex_byte_def)
  then have "unat a = unat b"
    by (metis div_mult_mod_eq)
  then show ?thesis
    by (simp add: word_unat_eq_iff)
qed

lemma uuid_text_inj: "length as = length bs \<Longrightarrow> uuid_text i as = uuid_text i bs \<Longrightarrow> as = bs"
proof (induction as bs arbitrary: i rule: list_induct2)
  case (Cons a as b bs)
  have "length (hex_byte a) = length (hex_byte b)"
    by (simp add: hex_byte_def)
  then have "hex_byte a = hex_byte b" "uuid_text (i + 1) as = uuid_text (i + 1) bs"
    using Cons.prems by auto
  then show ?case
    using Cons.IH hex_byte_inj by blast
qed simp

lemma uuid_text_length:
  "length (uuid_text i bs) = 2 * length bs + length (filter (\<lambda>k. k \<in> {4, 6, 8, 10}) [i..<i + length bs])"
proof (induction bs arbitrary: i)
  case (Cons b bs)
  then show ?case
    using upt_conv_Cons [of i "i + length (b # bs)"] by (simp add: hex_byte_def)
qed simp

lemma uuid_text_36: "length bs = 16 \<Longrightarrow> length (uuid_text 0 bs) = 36"
  by (simp add: uuid_text_length upt_rec)

lemma uuid_compare_loop_lex:
  "length as = length bs \<Longrightarrow>
   (uuid_compare_loop as bs < 0 \<longleftrightarrow> (as, bs) \<in> lexord {(x, y). x < y}) \<and>
   (uuid_compare_loop as bs = 0 \<longleftrightarrow> as = bs) \<and> uuid_compare_loop bs as = - uuid_compare_loop as bs"
  by (induction as bs rule: list_induct2) auto

lemma uuid_string_bytes:
  assumes "length (bytes u) = 16"
  shows "bytes_at (uuid_v4_to_string m u buffer) buffer 37 = uuid_text 0 (bytes u) @ [0]"
  using bytes_at_store_bytes [of "uuid_text 0 (bytes u) @ [0]" m buffer] assms
  by (simp add: uuid_v4_to_string_def uuid_string_loop_eq uuid_text_36)


section \<open>Properties\<close>

text \<open>
  As long as the operands and their sum stay in the range of a non-negative
  \<^verbatim>\<open>int\<close>, \<open>div_up\<close> is the smallest quotient that covers the dividend.
\<close>
theorem div_up_rounds_up:
  assumes "0 < unat b" and "unat b < 2147483648" and "unat a + unat b \<le> 2147483648"
  shows "\<exists>q. div_up a b = kret q \<and> unat a \<le> unat q * unat b \<and> unat q * unat b < unat a + unat b"
proof -
  define q where "q = (unat a + unat b - 1) div unat b"
  have "q \<le> unat a + unat b - 1"
    by (simp add: q_def)
  then have q: "unat (of_nat q :: u32) = q"
    using assms by (intro unat_of_nat_u32_small) linarith
  have "q * unat b \<le> unat a + unat b - 1" "unat a + unat b - 1 < q * unat b + unat b"
    using assms(1) dividend_less_div_times [of "unat b" "unat a + unat b - 1"]
    by (simp_all add: q_def ac_simps)
  then have "unat a \<le> q * unat b" "q * unat b < unat a + unat b"
    using assms(1) by linarith+
  then show ?thesis
    using div_up_eq [OF assms, folded q_def] q by auto
qed

theorem div_up_rounds_up_witness:
  "\<exists>q. div_up 10000 4096 = kret q \<and> unat (10000 :: u32) \<le> unat q * 4096 \<and> unat q * 4096 < 14096"
  using div_up_rounds_up [of 4096 10000] by simp

text \<open>
  C40: every generated identifier has sixteen bytes, version 4 in the high half
  of byte 6 and the RFC 4122 variant in the top bits of byte 8, whatever the state of the random
  numbers.
\<close>
theorem generate_uuid_v4_bits:
  "length (bytes (fst (generate_uuid_v4 nxt))) = 16 \<and>
   bytes (fst (generate_uuid_v4 nxt)) ! 6 AND 0xF0 = 0x40 \<and>
   bytes (fst (generate_uuid_v4 nxt)) ! 8 AND 0xC0 = 0x80"
proof -
  obtain bs nxt1 where f: "uuid_fill 16 nxt = (bs, nxt1)"
    by force
  have "length bs = 16"
    using uuid_fill_length [of 16 nxt] by (simp only: f fst_conv)
  then show ?thesis
    by (simp add: generate_uuid_v4_def f bit.conj_disj_distrib2 and.assoc)
qed

text \<open>
  The text of an identifier determines it: two identifiers printed to the
  same 37 bytes, the terminating zero included, are equal.
\<close>
theorem uuid_string_injective:
  assumes "length (bytes u) = 16" and "length (bytes v) = 16"
    and "bytes_at (uuid_v4_to_string m u p) p 37 = bytes_at (uuid_v4_to_string m' v q) q 37"
  shows "bytes u = bytes v"
proof -
  have "uuid_text 0 (bytes u) = uuid_text 0 (bytes v)"
    using assms(3) by (simp add: uuid_string_bytes [OF assms(1)] uuid_string_bytes [OF assms(2)])
  then show ?thesis
    by (rule uuid_text_inj [rotated]) (simp add: assms)
qed

theorem uuid_string_injective_witness:
  "bytes_at (uuid_v4_to_string (\<lambda>_. 0) \<lparr>bytes = replicate 16 1\<rparr> 100) 100 37 \<noteq>
   bytes_at (uuid_v4_to_string (\<lambda>_. 0) \<lparr>bytes = replicate 16 2\<rparr> 100) 100 37"
proof
  let ?u = "\<lparr>bytes = replicate 16 1\<rparr>" and ?v = "\<lparr>bytes = replicate 16 2\<rparr>"
  assume eq: "bytes_at (uuid_v4_to_string (\<lambda>_. 0) ?u 100) 100 37 = bytes_at (uuid_v4_to_string (\<lambda>_. 0) ?v 100) 100 37"
  have "length (bytes ?u) = 16" "length (bytes ?v) = 16"
    by simp_all
  then have "bytes ?u = bytes ?v"
    using eq by (rule uuid_string_injective)
  then show False
    by (simp add: replicate_eq_replicate)
qed

text \<open>
  The comparison is the lexicographic order of the bytes: negative exactly when
  the first identifier comes before the second, zero exactly when they are equal, and it changes
  sign when the arguments are exchanged.
\<close>
theorem uuid_compare_order:
  assumes "length (bytes u) = 16" and "length (bytes v) = 16"
  shows "(uuid_v4_compare u v < 0 \<longleftrightarrow> (bytes u, bytes v) \<in> lexord {(x, y). x < y}) \<and>
    (uuid_v4_compare u v = 0 \<longleftrightarrow> bytes u = bytes v) \<and> uuid_v4_compare v u = - uuid_v4_compare u v"
  using uuid_compare_loop_lex [of "bytes u" "bytes v"] assms by (simp add: uuid_v4_compare_def)

theorem uuid_compare_order_witness:
  "uuid_v4_compare \<lparr>bytes = replicate 16 2\<rparr> \<lparr>bytes = replicate 16 1\<rparr> =
   - uuid_v4_compare \<lparr>bytes = replicate 16 1\<rparr> \<lparr>bytes = replicate 16 2\<rparr>"
  using uuid_compare_order [of "\<lparr>bytes = replicate 16 1\<rparr>" "\<lparr>bytes = replicate 16 2\<rparr>"] by simp

end
