(* ===== verification/Pmm.thy ===== *)
theory Pmm
  imports Heap Array Numeric "HOL-Library.Product_Lexorder"
begin

text \<open>
  \<^verbatim>\<open>kernel/src/memory/pmm.c\<close>: the physical memory manager.  One bit per 4 KB frame says whether the
  frame is used; the bitmap and the table of memory regions lie in the flat memory.
\<close>

section \<open>State\<close>

record pmm_memory_region =
  rg_base :: u32
  rg_length :: u32
  rg_type :: u32

record pmm_memory =
  regions :: u32
  num_regions :: u32
  region_size :: u32
  memory_size :: u32
  num_memory_frames :: u32
  num_memory_frames_used :: u32
  bitmap :: u32
  bitmap_size :: u32

record multiboot_info =
  mmap_length :: u32
  mmap_addr :: u32

definition PMM_FRAME_SIZE :: u32 where
  "PMM_FRAME_SIZE = PAGE_SIZE"

definition PMM_FRAMES_PER_BITMAP_BYTE :: u32 where
  "PMM_FRAMES_PER_BITMAP_BYTE = 8"

definition PMM_PAS_SIZE :: u32 where
  "PMM_PAS_SIZE = 0xFFFFFFFF"

definition PMM_PAS_BASE :: u32 where
  "PMM_PAS_BASE = 0x00000000"

definition MULTIBOOT_MEMORY_AVAILABLE :: u32 where
  "MULTIBOOT_MEMORY_AVAILABLE = 1"


section \<open>Frames\<close>

definition pmm_address_to_index :: "u32 \<Rightarrow> u32" where
  "pmm_address_to_index address = paging_frame_index address"

definition pmm_test_frame :: "pmm_memory \<Rightarrow> mem \<Rightarrow> u32 \<Rightarrow> bool" where
  "pmm_test_frame p m frame_idx \<longleftrightarrow>
     (let block_idx = frame_idx div PMM_FRAMES_PER_BITMAP_BYTE;
          bit_idx = frame_idx mod PMM_FRAMES_PER_BITMAP_BYTE
      in m (bitmap p + block_idx) AND push_bit (unat bit_idx) 1 \<noteq> 0)"

definition pmm_set_frame :: "pmm_memory \<Rightarrow> mem \<Rightarrow> u32 \<Rightarrow> pmm_memory \<times> mem" where
  "pmm_set_frame p m frame_idx =
     (if pmm_test_frame p m frame_idx then (p, m)
      else
        let block_idx = frame_idx div PMM_FRAMES_PER_BITMAP_BYTE;
            bit_idx = frame_idx mod PMM_FRAMES_PER_BITMAP_BYTE
        in (p\<lparr>num_memory_frames_used := num_memory_frames_used p + 1\<rparr>,
            m(bitmap p + block_idx := m (bitmap p + block_idx) OR push_bit (unat bit_idx) 1)))"

definition pmm_unset_frame :: "pmm_memory \<Rightarrow> mem \<Rightarrow> u32 \<Rightarrow> pmm_memory \<times> mem" where
  "pmm_unset_frame p m frame_idx =
     (if \<not> pmm_test_frame p m frame_idx then (p, m)
      else
        let block_idx = frame_idx div PMM_FRAMES_PER_BITMAP_BYTE;
            bit_idx = frame_idx mod PMM_FRAMES_PER_BITMAP_BYTE
        in (p\<lparr>num_memory_frames_used := num_memory_frames_used p - 1\<rparr>,
            m(bitmap p + block_idx := m (bitmap p + block_idx) AND NOT (push_bit (unat bit_idx) 1))))"

definition pmm_mark_frame_reserved :: "pmm_memory \<Rightarrow> mem \<Rightarrow> u32 \<Rightarrow> pmm_memory \<times> mem" where
  "pmm_mark_frame_reserved p m frame_addr = pmm_set_frame p m (pmm_address_to_index frame_addr)"

definition pmm_mark_frame_available :: "pmm_memory \<Rightarrow> mem \<Rightarrow> u32 \<Rightarrow> pmm_memory \<times> mem" where
  "pmm_mark_frame_available p m frame_addr = pmm_unset_frame p m (pmm_address_to_index frame_addr)"

function pmm_find_loop :: "pmm_memory \<Rightarrow> mem \<Rightarrow> u32 \<Rightarrow> u32" where
  "pmm_find_loop p m i =
     (if i < num_memory_frames p then
        if \<not> pmm_test_frame p m i then i * PMM_FRAME_SIZE else pmm_find_loop p m (i + 1)
      else 0)"
  by pat_completeness auto
termination
  by (relation "measure (\<lambda>(p, m, i). unat (num_memory_frames p) - unat i)")
    (auto simp: unat_Suc_less word_less_unat)

declare pmm_find_loop.simps [simp del]

definition pmm_find_free_frame_from :: "pmm_memory \<Rightarrow> mem \<Rightarrow> u32 \<Rightarrow> u32" where
  "pmm_find_free_frame_from p m address = pmm_find_loop p m (pmm_address_to_index address)"

definition pmm_find_free_frame :: "pmm_memory \<Rightarrow> mem \<Rightarrow> u32" where
  "pmm_find_free_frame p m = pmm_find_free_frame_from p m PMM_PAS_BASE"


section \<open>Memory regions\<close>

definition REGION_SIZE :: u32 where
  "REGION_SIZE = 12"

definition MMAP_ENTRY_SIZE :: u32 where
  "MMAP_ENTRY_SIZE = 24"

definition pmm_region_at :: "mem \<Rightarrow> u32 \<Rightarrow> pmm_memory_region" where
  "pmm_region_at m a = \<lparr>rg_base = load32 m a, rg_length = load32 m (a + 4), rg_type = load32 m (a + 8)\<rparr>"

definition pmm_memory_region_compare :: "mem \<Rightarrow> u32 \<Rightarrow> u32 \<Rightarrow> int" where
  "pmm_memory_region_compare m a b =
     (let region_a = pmm_region_at m a; region_b = pmm_region_at m b
      in if rg_base region_a < rg_base region_b then -1
         else if rg_base region_b < rg_base region_a then 1
         else if rg_length region_a < rg_length region_b then -1
         else if rg_length region_b < rg_length region_a then 1
         else 0)"

text \<open>
  Lines 70 to 78.  An entry of the boot loader's map is its size, a 64-bit address, a 64-bit
  length and a type; the assignments to 32-bit fields keep the low halves.
\<close>

function pmm_fetch_loop :: "u32 \<Rightarrow> pmm_memory \<Rightarrow> mem \<Rightarrow> u32 \<Rightarrow> pmm_memory \<times> mem" where
  "pmm_fetch_loop mmap p m i =
     (if i < num_regions p then
        let region = regions p + i * REGION_SIZE;
            entry = mmap + i * MMAP_ENTRY_SIZE;
            m1 = store32 m region (load32 m (entry + 4));
            m2 = store32 m1 (region + 4) (load32 m1 (entry + 12));
            m3 = store32 m2 (region + 8) (load32 m2 (entry + 20));
            p' = p\<lparr>memory_size := memory_size p + load32 m3 (region + 4)\<rparr>
        in pmm_fetch_loop mmap p' m3 (i + 1)
      else (p, m))"
  by pat_completeness auto
termination
  by (relation "measure (\<lambda>(mmap, p, m, i). unat (num_regions p) - unat i)")
    (auto simp: unat_Suc_less word_less_unat)

declare pmm_fetch_loop.simps [simp del]

definition pmm_fetch_memory_regions ::
  "multiboot_info \<Rightarrow> pmm_memory \<Rightarrow> kheap \<Rightarrow> (pmm_memory \<times> kheap) kres" where
  "pmm_fetch_memory_regions info p h =
     (let p1 = p\<lparr>region_size := REGION_SIZE, num_regions := mmap_length info div MMAP_ENTRY_SIZE\<rparr>
      in kbind (kmalloc h (region_size p1 * region_size p1)) (\<lambda>(r, h1).
           if r = 0 then kpanic ''Memory allocation failed.''
           else
             let (p2, m2) = pmm_fetch_loop (mmap_addr info) (p1\<lparr>regions := r\<rparr>) (mem h1) 0;
                 m3 = array_bubble_sort m2 (regions p2) (num_regions p2) (region_size p2)
                        pmm_memory_region_compare
             in kret (p2, h1\<lparr>mem := m3\<rparr>)))"

text \<open>Lines 42 to 44: the frames of one region become available.\<close>

partial_function (option) pmm_release_frames ::
  "pmm_memory \<Rightarrow> mem \<Rightarrow> u32 \<Rightarrow> u32 \<Rightarrow> (pmm_memory \<times> mem) option" where
  "pmm_release_frames p m frame region_end_frame =
     (if frame \<le> region_end_frame then
        let (p', m') = pmm_unset_frame p m frame
        in pmm_release_frames p' m' (frame + 1) region_end_frame
      else Some (p, m))"

text \<open>Lines 31 to 46.\<close>

primrec pmm_release_regions :: "nat \<Rightarrow> u32 \<Rightarrow> pmm_memory \<Rightarrow> mem \<Rightarrow> (pmm_memory \<times> mem) option" where
  "pmm_release_regions 0 i p m = Some (p, m)"
| "pmm_release_regions (Suc n) i p m =
     (let region = pmm_region_at m (regions p + i * REGION_SIZE)
      in case (if rg_type region = MULTIBOOT_MEMORY_AVAILABLE
               then pmm_release_frames p m (pmm_address_to_index (rg_base region))
                      (pmm_address_to_index (rg_base region + rg_length region - 1))
               else Some (p, m)) of
           None \<Rightarrow> None
         | Some (p', m') \<Rightarrow> pmm_release_regions n (i + 1) p' m')"

text \<open>Lines 14 to 46; the message that ends \<^verbatim>\<open>pmm_init\<close> does not touch this state.\<close>

definition pmm_init :: "multiboot_info \<Rightarrow> pmm_memory \<Rightarrow> kheap \<Rightarrow> (pmm_memory \<times> kheap) kres" where
  "pmm_init info p h =
     kbind (pmm_fetch_memory_regions info (p\<lparr>memory_size := 0\<rparr>) h) (\<lambda>(p1, h1).
       let p2 = p1\<lparr>num_memory_frames := PMM_PAS_SIZE div PMM_FRAME_SIZE\<rparr>;
           p3 = p2\<lparr>num_memory_frames_used := num_memory_frames p2\<rparr>
       in kbind (div_up (num_memory_frames p3) PMM_FRAMES_PER_BITMAP_BYTE) (\<lambda>sz.
            kbind (kmalloc h1 sz) (\<lambda>(b, h2).
              if b = 0 then kpanic ''Memory allocation failed.''
              else
                let p4 = p3\<lparr>bitmap_size := sz, bitmap := b\<rparr>;
                    m = memset (mem h2) b 0xFF sz
                in case pmm_release_regions (unat (num_regions p4)) 0 p4 m of
                     None \<Rightarrow> None
                   | Some (p5, m') \<Rightarrow> kret (p5, h2\<lparr>mem := m'\<rparr>))))"

end
