(* ===== verification/Pmm_Correct.thy ===== *)
theory Pmm_Correct
  imports Pmm
begin

text \<open>
  The bitmap as a set of used frames, the contract of a pool of frames that the virtual memory
  manager builds on, and the order in which the memory regions are kept.
\<close>

section \<open>The set of used frames\<close>

definition used_frames :: "pmm_memory \<Rightarrow> mem \<Rightarrow> nat set" where
  "used_frames p m = {i. i < 1048576 \<and> pmm_test_frame p m (of_nat i)}"

lemma test_frame_bit:
  "pmm_test_frame p m i \<longleftrightarrow> bit (m (bitmap p + i div 8)) (unat i mod 8)"
  by (simp add: pmm_test_frame_def Let_def PMM_FRAMES_PER_BITMAP_BYTE_def unat_mod
      bit_iff_and_push_bit_not_eq_0)

lemma frame_eq: "(i :: u32) div 8 = j div 8 \<Longrightarrow> unat i mod 8 = unat j mod 8 \<Longrightarrow> i = j"
proof (rule u32_eqI)
  assume a: "i div 8 = j div 8" "unat i mod 8 = unat j mod 8"
  have "unat i div 8 = unat j div 8"
    using arg_cong [OF a(1), of unat] by (simp add: unat_div)
  then show "unat i = unat j"
    using a(2) by (metis div_mult_mod_eq)
qed

lemma bit_single: "n < 8 \<Longrightarrow> bit (2 ^ n :: u8) k \<longleftrightarrow> k = n"
  by (auto simp: bit_exp_iff)

lemma test_byte:
  "pmm_test_frame p (m(bitmap p + i div 8 := v)) j \<longleftrightarrow>
   (if j div 8 = i div 8 then bit v (unat j mod 8) else pmm_test_frame p m j)"
  by (simp add: test_frame_bit)

lemma test_set_frame:
  assumes "pmm_set_frame p m i = (p', m')"
  shows "pmm_test_frame p' m' j \<longleftrightarrow> j = i \<or> pmm_test_frame p m j"
proof (cases "pmm_test_frame p m i")
  case True
  then show ?thesis
    using assms by (auto simp: pmm_set_frame_def)
next
  case False
  let ?b = "bitmap p + i div 8"
  have m': "m' = m(?b := m ?b OR push_bit (unat i mod 8) 1)" and "bitmap p' = bitmap p"
    using assms False by (auto simp: pmm_set_frame_def Let_def PMM_FRAMES_PER_BITMAP_BYTE_def unat_mod)
  then have "pmm_test_frame p' m' j \<longleftrightarrow> pmm_test_frame p m' j"
    by (simp add: test_frame_bit)
  also have "\<dots> \<longleftrightarrow> (if j div 8 = i div 8 then bit (m ?b) (unat j mod 8) \<or> unat j mod 8 = unat i mod 8
      else pmm_test_frame p m j)"
    unfolding m' test_byte by (simp add: bit_or_iff bit_single)
  also have "\<dots> \<longleftrightarrow> j = i \<or> pmm_test_frame p m j"
    using frame_eq [of j i] by (auto simp: test_frame_bit)
  finally show ?thesis .
qed

lemma test_unset_frame:
  assumes "pmm_unset_frame p m i = (p', m')"
  shows "pmm_test_frame p' m' j \<longleftrightarrow> j \<noteq> i \<and> pmm_test_frame p m j"
proof (cases "pmm_test_frame p m i")
  case False
  then show ?thesis
    using assms by (auto simp: pmm_unset_frame_def)
next
  case True
  let ?b = "bitmap p + i div 8"
  have m': "m' = m(?b := m ?b AND NOT (push_bit (unat i mod 8) 1))" and "bitmap p' = bitmap p"
    using assms True by (auto simp: pmm_unset_frame_def Let_def PMM_FRAMES_PER_BITMAP_BYTE_def unat_mod)
  then have "pmm_test_frame p' m' j \<longleftrightarrow> pmm_test_frame p m' j"
    by (simp add: test_frame_bit)
  also have "\<dots> \<longleftrightarrow> (if j div 8 = i div 8 then bit (m ?b) (unat j mod 8) \<and> unat j mod 8 \<noteq> unat i mod 8
      else pmm_test_frame p m j)"
    unfolding m' test_byte by (simp add: bit_and_iff bit_not_iff bit_single)
  also have "\<dots> \<longleftrightarrow> j \<noteq> i \<and> pmm_test_frame p m j"
    using frame_eq [of j i] by (auto simp: test_frame_bit)
  finally show ?thesis .
qed

lemma frame_number: "unat (i :: u32) < 1048576 \<Longrightarrow> k < 1048576 \<Longrightarrow> of_nat k = i \<longleftrightarrow> k = unat i"
  by auto

lemma used_set_frame:
  assumes "pmm_set_frame p m i = (p', m')" and "unat i < 1048576"
  shows "used_frames p' m' = insert (unat i) (used_frames p m)"
  using assms frame_number [OF assms(2)] by (auto simp: used_frames_def test_set_frame)

lemma used_unset_frame:
  assumes "pmm_unset_frame p m i = (p', m')" and "unat i < 1048576"
  shows "used_frames p' m' = used_frames p m - {unat i}"
  using assms frame_number [OF assms(2)] by (auto simp: used_frames_def test_unset_frame)

lemma used_frames_finite [simp]: "finite (used_frames p m)"
  by (simp add: used_frames_def)

lemma used_frames_iff: "unat i < 1048576 \<Longrightarrow> unat i \<in> used_frames p m \<longleftrightarrow> pmm_test_frame p m i"
  by (simp add: used_frames_def)

text \<open>
  The counter is one short of the number of set bits: the bitmap has a bit for the last frame of
  the address space, \<open>num_memory_frames\<close> does not count it.
\<close>

definition pmm_inv :: "pmm_memory \<Rightarrow> mem \<Rightarrow> bool" where
  "pmm_inv p m \<longleftrightarrow>
     num_memory_frames p = 1048575 \<and> unat (bitmap p) + 131072 < 4294967296 \<and>
     num_memory_frames_used p + 1 = of_nat (card (used_frames p m))"

lemma pmm_set_frame_fields:
  "pmm_set_frame p m i = (p', m') \<Longrightarrow>
   bitmap p' = bitmap p \<and> num_memory_frames p' = num_memory_frames p \<and> regions p' = regions p \<and>
   num_regions p' = num_regions p \<and>
   num_memory_frames_used p' = num_memory_frames_used p + (if pmm_test_frame p m i then 0 else 1)"
  by (auto simp: pmm_set_frame_def Let_def split: if_splits)

lemma pmm_unset_frame_fields:
  "pmm_unset_frame p m i = (p', m') \<Longrightarrow>
   bitmap p' = bitmap p \<and> num_memory_frames p' = num_memory_frames p \<and> regions p' = regions p \<and>
   num_regions p' = num_regions p \<and> memory_size p' = memory_size p \<and>
   num_memory_frames_used p' = num_memory_frames_used p - (if pmm_test_frame p m i then 1 else 0)"
  by (auto simp: pmm_unset_frame_def Let_def split: if_splits)

lemma pmm_set_frame_inv:
  assumes "pmm_inv p m" and "pmm_set_frame p m i = (p', m')" and "unat i < 1048576"
  shows "pmm_inv p' m'"
  using assms pmm_set_frame_fields [OF assms(2)] used_frames_iff [OF assms(3), of p m]
  by (auto simp: pmm_inv_def used_set_frame [OF assms(2,3)] insert_absorb)

lemma pmm_unset_frame_inv:
  assumes "pmm_inv p m" and "pmm_unset_frame p m i = (p', m')" and "unat i < 1048576"
  shows "pmm_inv p' m'"
proof (cases "pmm_test_frame p m i")
  case True
  then have "unat i \<in> used_frames p m"
    by (simp add: used_frames_iff [OF assms(3)])
  then have "card (used_frames p m) = Suc (card (used_frames p' m'))"
    unfolding used_unset_frame [OF assms(2,3)] by (intro card.remove) simp_all
  then show ?thesis
    using assms(1) pmm_unset_frame_fields [OF assms(2)] True by (simp add: pmm_inv_def algebra_simps)
next
  case False
  then show ?thesis
    using assms(1,2) by (simp add: pmm_unset_frame_def)
qed

text \<open>Only bytes of the bitmap change.\<close>

lemma block_in_bitmap:
  assumes "unat (i :: u32) < 1048576"
  shows "in_range (b + i div 8) b 131072"
  using assms by (simp add: in_range_def unat_div less_mult_imp_div_less)

lemma pmm_set_frame_other:
  assumes "pmm_set_frame p m i = (p', m')" and "unat i < 1048576" and "\<not> in_range x (bitmap p) 131072"
  shows "m' x = m x"
  using assms block_in_bitmap [OF assms(2), of "bitmap p"]
  by (auto simp: pmm_set_frame_def Let_def PMM_FRAMES_PER_BITMAP_BYTE_def split: if_splits)

lemma pmm_unset_frame_other:
  assumes "pmm_unset_frame p m i = (p', m')" and "unat i < 1048576" and "\<not> in_range x (bitmap p) 131072"
  shows "m' x = m x"
  using assms block_in_bitmap [OF assms(2), of "bitmap p"]
  by (auto simp: pmm_unset_frame_def Let_def PMM_FRAMES_PER_BITMAP_BYTE_def split: if_splits)


section \<open>Searching a free frame\<close>

lemma pmm_find_loop_spec:
  "(\<exists>k. i \<le> k \<and> k < num_memory_frames p \<and> \<not> pmm_test_frame p m k \<and> pmm_find_loop p m i = k * 4096 \<and>
      (\<forall>j. i \<le> j \<and> j < k \<longrightarrow> pmm_test_frame p m j)) \<or>
   pmm_find_loop p m i = 0 \<and> (\<forall>j. i \<le> j \<and> j < num_memory_frames p \<longrightarrow> pmm_test_frame p m j)"
proof (induction p m i rule: pmm_find_loop.induct)
  case (1 p m i)
  consider "\<not> i < num_memory_frames p" | "i < num_memory_frames p" "\<not> pmm_test_frame p m i"
    | "i < num_memory_frames p" "pmm_test_frame p m i"
    by blast
  then show ?case
  proof cases
    case 1
    then show ?thesis
      by (simp add: pmm_find_loop.simps) (meson le_less_trans)
  next
    case 2
    then show ?thesis
      by (intro disjI1 exI [of _ i]) (auto simp: pmm_find_loop.simps PMM_FRAME_SIZE_def PAGE_SIZE_def)
  next
    case 3
    have le: "i \<le> j \<longleftrightarrow> j = i \<or> i + 1 \<le> j" for j
      using unat_Suc_less [OF 3(1)] by (auto simp: word_le_unat word_unat_eq_iff)
    have eq: "pmm_find_loop p m i = pmm_find_loop p m (i + 1)"
      using 3 by (subst pmm_find_loop.simps) simp
    show ?thesis
      using "1.IH" [OF 3(1)] 3(2) unfolding eq le by blast
  qed
qed

lemma frame_address:
  assumes "unat (k :: u32) < 1048576"
  shows "unat (k * 4096) = unat k * 4096" and "pmm_address_to_index (k * 4096) = k"
    and "k * 4096 = 0 \<longleftrightarrow> k = 0"
proof -
  show u: "unat (k * 4096) = unat k * 4096"
    using assms by (simp add: unat_mult_u32)
  then show "pmm_address_to_index (k * 4096) = k"
    by (intro u32_eqI) (simp add: pmm_address_to_index_def unat_frame_index)
  show "k * 4096 = 0 \<longleftrightarrow> k = 0"
    using u by (metis mult_eq_0_iff unat_eq_zero zero_neq_numeral)
qed

lemma address_index_bound: "unat (pmm_address_to_index a) < 1048576"
  by (simp add: pmm_address_to_index_def unat_frame_index less_mult_imp_div_less)

lemma pmm_find_free_frame_from_spec:
  assumes inv: "pmm_inv p m" and r: "pmm_find_free_frame_from p m a = r"
  shows "r \<noteq> 0 \<Longrightarrow> unat (pmm_address_to_index r) \<notin> used_frames p m \<and> unat r mod 4096 = 0 \<and>
      pmm_address_to_index a \<le> pmm_address_to_index r \<and> unat (pmm_address_to_index r) < 1048575 \<and>
      (\<forall>j. unat (pmm_address_to_index a) \<le> j \<and> j < unat (pmm_address_to_index r) \<longrightarrow> j \<in> used_frames p m)"
    and "r = 0 \<Longrightarrow> 0 < unat (pmm_address_to_index a) \<Longrightarrow>
      (\<forall>j. unat (pmm_address_to_index a) \<le> j \<and> j < 1048575 \<longrightarrow> j \<in> used_frames p m)"
proof -
  let ?s = "pmm_address_to_index a"
  have num: "k < num_memory_frames p \<longleftrightarrow> unat k < 1048575" for k
    using inv by (simp add: pmm_inv_def word_less_unat)
  have used: "j \<in> used_frames p m" if "\<And>k. ?s \<le> k \<Longrightarrow> unat k = j \<Longrightarrow> pmm_test_frame p m k"
    "unat ?s \<le> j" "j < 1048576" for j
    using that(1) [of "of_nat j"] that(2,3) by (simp add: used_frames_def word_le_unat)
  consider (found) k where "?s \<le> k" "unat k < 1048575" "\<not> pmm_test_frame p m k" "r = k * 4096"
      "\<forall>j. ?s \<le> j \<and> j < k \<longrightarrow> pmm_test_frame p m j"
    | (none) "r = 0" "\<forall>j. ?s \<le> j \<and> unat j < 1048575 \<longrightarrow> pmm_test_frame p m j"
    using pmm_find_loop_spec [of ?s p m] r unfolding pmm_find_free_frame_from_def num by blast
  note cases = this
  show "unat (pmm_address_to_index r) \<notin> used_frames p m \<and> unat r mod 4096 = 0 \<and>
      ?s \<le> pmm_address_to_index r \<and> unat (pmm_address_to_index r) < 1048575 \<and>
      (\<forall>j. unat ?s \<le> j \<and> j < unat (pmm_address_to_index r) \<longrightarrow> j \<in> used_frames p m)" if "r \<noteq> 0"
    using cases
  proof cases
    case (found k)
    then have k: "unat k < 1048576" "pmm_address_to_index r = k"
      using frame_address(2) [of k] by auto
    have "j \<in> used_frames p m" if "unat ?s \<le> j" "j < unat k" for j
      using found(2,5) that by (intro used) (auto simp: word_less_unat)
    then show ?thesis
      using found k frame_address(1) [OF k(1)] by (simp add: used_frames_iff)
  next
    case none
    then show ?thesis
      using \<open>r \<noteq> 0\<close> by simp
  qed
  show "\<forall>j. unat ?s \<le> j \<and> j < 1048575 \<longrightarrow> j \<in> used_frames p m" if "r = 0" "0 < unat ?s"
    using cases
  proof cases
    case (found k)
    then have "k = 0"
      using frame_address(3) [of k] that by simp
    then show ?thesis
      using found(1) that(2) by (simp add: word_le_unat)
  next
    case none
    then show ?thesis
      by (auto intro!: used)
  qed
qed


section \<open>A pool of frames\<close>

definition frame :: "u32 \<Rightarrow> nat" where
  "frame a = unat (pmm_address_to_index a)"

locale frame_pool =
  fixes ok :: "'s \<Rightarrow> bool" and used :: "'s \<Rightarrow> nat set"
    and find :: "'s \<Rightarrow> u32 \<Rightarrow> u32" and reserve :: "'s \<Rightarrow> u32 \<Rightarrow> 's" and release :: "'s \<Rightarrow> u32 \<Rightarrow> 's"
  assumes find_free: "ok s \<Longrightarrow> find s a \<noteq> 0 \<Longrightarrow> frame (find s a) \<notin> used s \<and> unat (find s a) mod 4096 = 0"
    and reserve_law: "ok s \<Longrightarrow> ok (reserve s a) \<and> used (reserve s a) = insert (frame a) (used s)"
    and release_law: "ok s \<Longrightarrow> ok (release s a) \<and> used (release s a) = used s - {frame a}"
begin

text \<open>A frame that has been reserved is not found again, by any number of further searches.\<close>

primrec grab :: "nat \<Rightarrow> u32 \<Rightarrow> 's \<Rightarrow> u32 list \<times> 's" where
  "grab 0 a s = ([], s)"
| "grab (Suc n) a s =
     (let r = find s a in
      if r = 0 then ([], s) else let (rs, s') = grab n a (reserve s r) in (r # rs, s'))"

lemma grab_distinct:
  "ok s \<Longrightarrow> grab n a s = (rs, s') \<Longrightarrow>
   ok s' \<and> distinct (map frame rs) \<and> frame ` set rs \<inter> used s = {} \<and> used s' = used s \<union> frame ` set rs"
proof (induction n arbitrary: s rs)
  case (Suc n)
  show ?case
  proof (cases "find s a = 0")
    case True
    then show ?thesis
      using Suc.prems by simp
  next
    case False
    obtain rs1 where rs: "rs = find s a # rs1" "grab n a (reserve s (find s a)) = (rs1, s')"
      using Suc.prems(2) False by (auto simp: Let_def split: prod.splits)
    show ?thesis
      using Suc.IH [OF conjunct1 [OF reserve_law [OF Suc.prems(1)]] rs(2)] find_free [OF Suc.prems(1) False]
        reserve_law [OF Suc.prems(1)] by (auto simp: rs(1))
  qed
qed simp

lemma reserve_release: "ok s \<Longrightarrow> frame a \<notin> used s \<Longrightarrow> used (release (reserve s a) a) = used s"
  by (simp add: reserve_law release_law)

end

definition pool_ok :: "pmm_memory \<times> mem \<Rightarrow> bool" where
  "pool_ok s = pmm_inv (fst s) (snd s)"

definition pool_used :: "pmm_memory \<times> mem \<Rightarrow> nat set" where
  "pool_used s = used_frames (fst s) (snd s)"

definition pool_find :: "pmm_memory \<times> mem \<Rightarrow> u32 \<Rightarrow> u32" where
  "pool_find s a = pmm_find_free_frame_from (fst s) (snd s) a"

definition pool_reserve :: "pmm_memory \<times> mem \<Rightarrow> u32 \<Rightarrow> pmm_memory \<times> mem" where
  "pool_reserve s a = pmm_mark_frame_reserved (fst s) (snd s) a"

definition pool_release :: "pmm_memory \<times> mem \<Rightarrow> u32 \<Rightarrow> pmm_memory \<times> mem" where
  "pool_release s a = pmm_mark_frame_available (fst s) (snd s) a"

lemma mark_frame_reserved_law:
  assumes "pmm_inv p m" and "pmm_mark_frame_reserved p m a = (p', m')"
  shows "pmm_inv p' m' \<and> used_frames p' m' = insert (frame a) (used_frames p m)"
  using assms address_index_bound [of a] pmm_set_frame_inv used_set_frame
  unfolding pmm_mark_frame_reserved_def frame_def by blast

lemma mark_frame_available_law:
  assumes "pmm_inv p m" and "pmm_mark_frame_available p m a = (p', m')"
  shows "pmm_inv p' m' \<and> used_frames p' m' = used_frames p m - {frame a}"
  using assms address_index_bound [of a] pmm_unset_frame_inv used_unset_frame
  unfolding pmm_mark_frame_available_def frame_def by blast

interpretation pmm_pool: frame_pool pool_ok pool_used pool_find pool_reserve pool_release
proof
  show "frame (pool_find s a) \<notin> pool_used s \<and> unat (pool_find s a) mod 4096 = 0"
    if "pool_ok s" "pool_find s a \<noteq> 0" for s a
    using that pmm_find_free_frame_from_spec(1) [of "fst s" "snd s" a]
    by (simp add: pool_ok_def pool_find_def pool_used_def frame_def)
  show "pool_ok (pool_reserve s a) \<and> pool_used (pool_reserve s a) = insert (frame a) (pool_used s)"
    if "pool_ok s" for s a
    using that mark_frame_reserved_law [of "fst s" "snd s" a]
    unfolding pool_ok_def pool_used_def pool_reserve_def by (metis prod.collapse)
  show "pool_ok (pool_release s a) \<and> pool_used (pool_release s a) = pool_used s - {frame a}"
    if "pool_ok s" for s a
    using that mark_frame_available_law [of "fst s" "snd s" a]
    unfolding pool_ok_def pool_used_def pool_release_def by (metis prod.collapse)
qed


section \<open>Sorting the regions\<close>

definition region_key :: "u8 list \<Rightarrow> u32 \<times> u32" where
  "region_key bs = (word32 bs, word32 (drop 4 bs))"

interpretation pmm_regions: byte_sort pmm_memory_region_compare REGION_SIZE
  "\<lambda>x y. region_key y < region_key x" region_key
proof
  fix m a b
  have "load32 m q = word32 (bytes_at m q 12)" "load32 m (q + 4) = word32 (drop 4 (bytes_at m q 12))" for q
    using load32_bytes_at [of 0 12 m q] load32_bytes_at [of 4 12 m q] by simp_all
  then show "0 < pmm_memory_region_compare m a b \<longleftrightarrow>
      region_key (bytes_at m b (unat REGION_SIZE)) < region_key (bytes_at m a (unat REGION_SIZE))"
    by (auto simp: pmm_memory_region_compare_def pmm_region_at_def region_key_def REGION_SIZE_def Let_def
        less_prod_simp)
qed simp


section \<open>Releasing the available regions\<close>

lemma pmm_release_frames_eq:
  assumes "pmm_inv p m" and "unat e < 1048576" and "unat f \<le> 1048576"
  shows "\<exists>p' m'. pmm_release_frames p m f e = Some (p', m') \<and> pmm_inv p' m' \<and>
    used_frames p' m' = used_frames p m - {unat f..unat e} \<and>
    bitmap p' = bitmap p \<and> regions p' = regions p \<and> num_regions p' = num_regions p \<and>
    memory_size p' = memory_size p \<and>
    (\<forall>x. \<not> in_range x (bitmap p) 131072 \<longrightarrow> m' x = m x)"
  using assms
proof (induction "unat e + 1 - unat f" arbitrary: p m f)
  case 0
  then have "\<not> f \<le> e"
    by (simp add: word_le_unat)
  then show ?case
    using 0 by (simp add: pmm_release_frames.simps)
next
  case (Suc n)
  then have fe: "f \<le> e" and f: "unat f < 1048576" "unat (f + 1) = Suc (unat f)"
    by (simp_all add: word_le_unat unat_add_u32)
  obtain p1 m1 where u: "pmm_unset_frame p m f = (p1, m1)"
    by force
  have inv1: "pmm_inv p1 m1"
    using pmm_unset_frame_inv [OF Suc.prems(1) u f(1)] .
  have "n = unat e + 1 - unat (f + 1)" "unat (f + 1) \<le> 1048576"
    using Suc.hyps(2) f by simp_all
  from Suc.hyps(1) [OF this(1) inv1 Suc.prems(2) this(2)] obtain p' m' where
    r: "pmm_release_frames p1 m1 (f + 1) e = Some (p', m')" "pmm_inv p' m'"
      "used_frames p' m' = used_frames p1 m1 - {unat (f + 1)..unat e}"
      "bitmap p' = bitmap p1 \<and> regions p' = regions p1 \<and> num_regions p' = num_regions p1 \<and>
        memory_size p' = memory_size p1"
      "\<forall>x. \<not> in_range x (bitmap p1) 131072 \<longrightarrow> m' x = m1 x"
    by blast
  have "pmm_release_frames p m f e = Some (p', m')"
    using r(1) fe u by (subst pmm_release_frames.simps) simp
  moreover have "{unat f..unat e} = insert (unat f) {unat (f + 1)..unat e}"
    using fe f(2) by (auto simp: word_le_unat)
  then have "used_frames p' m' = used_frames p m - {unat f..unat e}"
    using r(3) used_unset_frame [OF u f(1)] by auto
  ultimately show ?case
    using r(2,4,5) pmm_unset_frame_fields [OF u] pmm_unset_frame_other [OF u f(1)] by auto
qed

definition region_frames :: "mem \<Rightarrow> u32 \<Rightarrow> nat set" where
  "region_frames m a =
     (let r = pmm_region_at m a in
      if rg_type r = MULTIBOOT_MEMORY_AVAILABLE
      then {frame (rg_base r)..frame (rg_base r + rg_length r - 1)} else {})"

lemma pmm_region_at_other:
  assumes "\<And>k. k < 12 \<Longrightarrow> m' (a + of_nat k) = m (a + of_nat k)"
  shows "pmm_region_at m' a = pmm_region_at m a"
  using assms [of 0] assms [of 1] assms [of 2] assms [of 3] assms [of 4] assms [of 5]
    assms [of 6] assms [of 7] assms [of 8] assms [of 9] assms [of 10] assms [of 11]
  by (simp add: pmm_region_at_def load32_def add.assoc)

lemma pmm_release_regions_eq:
  assumes "pmm_inv p m"
    and "\<And>j k. j < n \<Longrightarrow> k < 12 \<Longrightarrow> \<not> in_range (regions p + (i + of_nat j) * REGION_SIZE + of_nat k) (bitmap p) 131072"
  shows "\<exists>p' m'. pmm_release_regions n i p m = Some (p', m') \<and> pmm_inv p' m' \<and>
    used_frames p' m' = used_frames p m - (\<Union>j<n. region_frames m (regions p + (i + of_nat j) * REGION_SIZE)) \<and>
    bitmap p' = bitmap p \<and> regions p' = regions p \<and> num_regions p' = num_regions p \<and>
    memory_size p' = memory_size p \<and>
    (\<forall>x. \<not> in_range x (bitmap p) 131072 \<longrightarrow> m' x = m x)"
  using assms
proof (induction n arbitrary: i p m)
  case 0
  then show ?case
    by simp
next
  case (Suc n)
  let ?a = "regions p + i * REGION_SIZE"
  define st where "st = (if rg_type (pmm_region_at m ?a) = MULTIBOOT_MEMORY_AVAILABLE
    then pmm_release_frames p m (pmm_address_to_index (rg_base (pmm_region_at m ?a)))
           (pmm_address_to_index (rg_base (pmm_region_at m ?a) + rg_length (pmm_region_at m ?a) - 1))
    else Some (p, m))"
  have "\<exists>p1 m1. st = Some (p1, m1) \<and> pmm_inv p1 m1 \<and>
      used_frames p1 m1 = used_frames p m - region_frames m ?a \<and>
      bitmap p1 = bitmap p \<and> regions p1 = regions p \<and> num_regions p1 = num_regions p \<and>
      memory_size p1 = memory_size p \<and>
      (\<forall>x. \<not> in_range x (bitmap p) 131072 \<longrightarrow> m1 x = m x)"
    using pmm_release_frames_eq [OF Suc.prems(1) address_index_bound less_imp_le [OF address_index_bound]]
      Suc.prems(1) by (simp add: st_def region_frames_def frame_def Let_def)
  then obtain p1 m1 where one: "st = Some (p1, m1)" "pmm_inv p1 m1"
      "used_frames p1 m1 = used_frames p m - region_frames m ?a"
      "bitmap p1 = bitmap p" "regions p1 = regions p" "num_regions p1 = num_regions p"
      "memory_size p1 = memory_size p"
      "\<forall>x. \<not> in_range x (bitmap p) 131072 \<longrightarrow> m1 x = m x"
    by blast
  have out: "\<not> in_range (regions p + (i + 1 + of_nat j) * REGION_SIZE + of_nat k) (bitmap p) 131072"
    if "j < n" "k < 12" for j k
    using Suc.prems(2) [of "Suc j" k] that by (simp add: add.assoc)
  from Suc.IH [OF one(2), of "i + 1"] obtain p' m' where r: "pmm_release_regions n (i + 1) p1 m1 = Some (p', m')"
      "pmm_inv p' m'"
      "used_frames p' m' = used_frames p1 m1 - (\<Union>j<n. region_frames m1 (regions p + (i + 1 + of_nat j) * REGION_SIZE))"
      "bitmap p' = bitmap p" "regions p' = regions p" "num_regions p' = num_regions p"
      "memory_size p' = memory_size p"
      "\<forall>x. \<not> in_range x (bitmap p) 131072 \<longrightarrow> m' x = m1 x"
    using out one by auto
  have same: "region_frames m1 (regions p + (i + 1 + of_nat j) * REGION_SIZE) =
      region_frames m (regions p + (i + of_nat (Suc j)) * REGION_SIZE)" if "j < n" for j
  proof -
    have "pmm_region_at m1 (regions p + (i + 1 + of_nat j) * REGION_SIZE) =
        pmm_region_at m (regions p + (i + 1 + of_nat j) * REGION_SIZE)"
      using out [OF that] one(8) by (intro pmm_region_at_other) blast
    then show ?thesis
      by (simp add: region_frames_def add.assoc)
  qed
  have "used_frames p' m' =
      used_frames p m - (\<Union>j<Suc n. region_frames m (regions p + (i + of_nat j) * REGION_SIZE))"
    unfolding r(3) one(3) lessThan_Suc_eq_insert_0 using same by auto
  moreover have "pmm_release_regions (Suc n) i p m = Some (p', m')"
    using one(1) r(1) by (simp add: st_def Let_def)
  ultimately show ?case
    using r one(8) by (intro exI [of _ p'] exI [of _ m']) auto
qed

end
