(* ===== verification/Pmm_Init.thy ===== *)
theory Pmm_Init
  imports Pmm_Correct Heap_Live
begin

text \<open>
  \<^verbatim>\<open>pmm_init\<close> on the placement allocator, and the properties of the physical memory manager.
\<close>

section \<open>Initialisation\<close>

text \<open>
  Entry \<open>j\<close> of the boot loader's map, as the multiboot specification lays it out: the size of the
  entry, the 64-bit base, the 64-bit length and the type.  A region keeps the low halves.
\<close>

definition boot_region :: "mem \<Rightarrow> u32 \<Rightarrow> nat \<Rightarrow> pmm_memory_region" where
  "boot_region m mmap j =
     \<lparr>rg_base = load32 m (mmap + of_nat (24 * j + 4)), rg_length = load32 m (mmap + of_nat (24 * j + 12)),
      rg_type = load32 m (mmap + of_nat (24 * j + 20))\<rparr>"

definition boot_table :: "mem \<Rightarrow> u32 \<Rightarrow> nat \<Rightarrow> pmm_memory_region list" where
  "boot_table m mmap n = map (boot_region m mmap) [0..<n]"

definition region_table :: "mem \<Rightarrow> u32 \<Rightarrow> nat \<Rightarrow> pmm_memory_region list" where
  "region_table m r n = map (\<lambda>j. pmm_region_at m (r + of_nat j * REGION_SIZE)) [0..<n]"

definition available_frames :: "pmm_memory_region \<Rightarrow> nat set" where
  "available_frames r =
     (if rg_type r = 1 then {frame (rg_base r)..frame (rg_base r + rg_length r - 1)} else {})"

lemma region_frames_eq: "region_frames m a = available_frames (pmm_region_at m a)"
  by (simp add: region_frames_def available_frames_def MULTIBOOT_MEMORY_AVAILABLE_def Let_def)

lemma region_table_frames:
  "(\<Union>j<n. region_frames m (r + of_nat j * REGION_SIZE)) = \<Union> (available_frames ` set (region_table m r n))"
  by (auto simp: region_frames_eq region_table_def)

text \<open>The three stores of one round of the loop.\<close>

lemma store_region:
  shows "pmm_region_at (store32 (store32 (store32 m a x) (a + 4) y) (a + 8) z) a =
      \<lparr>rg_base = x, rg_length = y, rg_type = z\<rparr>"
    and "\<not> in_range q a 12 \<Longrightarrow> store32 (store32 (store32 m a x) (a + 4) y) (a + 8) z q = m q"
proof -
  have win: "\<not> in_range (a + of_nat i) (a + of_nat j) 4" if "i < 12" "j < 12" "i < j \<or> j + 4 \<le> i" for i j
    using that by (subst in_range_window) auto
  have low: "load32 (store32 m' (a + of_nat j) v) (a + of_nat i) = load32 m' (a + of_nat i)"
    if "i + 4 \<le> j" "j < 12" for m' i j v
    using that win [of "i + k" j for k] by (intro load32_agree store32_other) (simp add: add.assoc)
  show "pmm_region_at (store32 (store32 (store32 m a x) (a + 4) y) (a + 8) z) a =
      \<lparr>rg_base = x, rg_length = y, rg_type = z\<rparr>"
    using low [of 0 4] low [of 0 8] low [of 4 8] by (simp add: pmm_region_at_def load32_store32)
  assume q: "\<not> in_range q a 12"
  have "\<not> in_range q (a + of_nat j) 4" if "j + 4 \<le> 12" for j
  proof
    assume "in_range q (a + of_nat j) 4"
    then obtain k where "k < 4" "q = a + of_nat (j + k)"
      by (auto simp: in_range_ex add.assoc)
    then show False
      using q in_range_offset [of "j + k" a 12] that by simp
  qed
  from this [of 0] this [of 4] this [of 8] show "store32 (store32 (store32 m a x) (a + 4) y) (a + 8) z q = m q"
    by (simp add: store32_other)
qed

lemma table_in_range:
  assumes "j < n" and "n \<le> 12" and "k < 12"
  shows "in_range (r + of_nat j * REGION_SIZE + of_nat k) r 144"
proof -
  have "of_nat j * REGION_SIZE + of_nat k = (of_nat (j * 12 + k) :: u32)"
    by (simp add: REGION_SIZE_def)
  moreover have "j * 12 + k < 144"
    using assms by linarith
  ultimately show ?thesis
    using in_range_offset [of "j * 12 + k" r 144] by (simp add: add.assoc)
qed

lemma boot_region_agree:
  assumes "\<And>x. in_range x mmap (24 * n) \<Longrightarrow> m' x = m x" and "j < n" "n \<le> 12"
  shows "boot_region m' mmap j = boot_region m mmap j"
proof -
  have "load32 m' (mmap + of_nat (24 * j + k)) = load32 m (mmap + of_nat (24 * j + k))" if "k + 4 \<le> 24" for k
  proof (rule load32_agree)
    fix i :: nat
    assume "i < 4"
    then have "24 * j + k + i < 24 * n"
      using that assms(2) by linarith
    then show "m' (mmap + of_nat (24 * j + k) + of_nat i) = m (mmap + of_nat (24 * j + k) + of_nat i)"
      using assms(1) in_range_offset [of "24 * j + k + i" mmap "24 * n"] assms(3) by (simp add: add.assoc)
  qed
  from this [of 4] this [of 12] this [of 20] show ?thesis
    by (simp add: boot_region_def)
qed

lemma pmm_fetch_loop_copies:
  assumes n: "n \<le> 12" and dis: "disjoint_ranges mmap (24 * n) r 144"
  shows "k \<le> n \<Longrightarrow> \<forall>x. \<not> in_range x r 144 \<longrightarrow> m x = m0 x \<Longrightarrow> unat (num_regions p) = n \<Longrightarrow> regions p = r \<Longrightarrow>
    \<forall>j<k. pmm_region_at m (r + of_nat j * REGION_SIZE) = boot_region m0 mmap j \<Longrightarrow>
    \<exists>m'. pmm_fetch_loop mmap p m (of_nat k) =
        (p\<lparr>memory_size := memory_size p + (\<Sum>j = k..<n. rg_length (boot_region m0 mmap j))\<rparr>, m') \<and>
      (\<forall>x. \<not> in_range x r 144 \<longrightarrow> m' x = m0 x) \<and>
      (\<forall>j<n. pmm_region_at m' (r + of_nat j * REGION_SIZE) = boot_region m0 mmap j)"
proof (induction "n - k" arbitrary: k p m)
  case 0
  then have "k = n" "\<not> (of_nat k :: u32) < num_regions p"
    using n by (simp_all add: word_less_unat)
  then show ?case
    using 0 by (intro exI [of _ m]) (simp add: pmm_fetch_loop.simps)
next
  case (Suc d)
  then have k: "k < n" "(of_nat k :: u32) < num_regions p" "d = n - Suc k"
    using n by (simp_all add: word_less_unat)
  let ?a = "r + of_nat k * REGION_SIZE" and ?e = "mmap + of_nat k * MMAP_ENTRY_SIZE"
  define m1 where "m1 = store32 m ?a (load32 m (?e + 4))"
  define m2 where "m2 = store32 m1 (?a + 4) (load32 m1 (?e + 12))"
  define m3 where "m3 = store32 m2 (?a + 8) (load32 m2 (?e + 20))"
  have tab: "in_range (?a + of_nat i) r 144" if "i < 12" for i
    using table_in_range [OF k(1) n that] .
  have sub: "in_range x r 144" if x: "in_range x (?a + of_nat j) 4" and "j + 4 \<le> 12" for x j
  proof -
    obtain i where "i < 4" "x = ?a + of_nat (j + i)"
      using x by (auto simp: in_range_ex add.assoc)
    then show ?thesis
      using tab [of "j + i"] that(2) by simp
  qed
  have out1: "\<not> in_range x r 144 \<Longrightarrow> m1 x = m0 x" for x
    unfolding m1_def using Suc.prems(2) sub [of x 0] by (subst store32_other) auto
  then have out2: "\<not> in_range x r 144 \<Longrightarrow> m2 x = m0 x" for x
    unfolding m2_def using sub [of x 4] by (subst store32_other) auto
  then have out3: "\<not> in_range x r 144 \<Longrightarrow> m3 x = m0 x" for x
    unfolding m3_def using sub [of x 8] by (subst store32_other) auto
  have boot: "boot_region m' mmap k = boot_region m0 mmap k" if "\<And>x. \<not> in_range x r 144 \<Longrightarrow> m' x = m0 x" for m'
    using dis k(1) n that by (intro boot_region_agree [of mmap n]) (auto simp: disjoint_ranges_def)
  have e: "?e + 4 = mmap + of_nat (24 * k + 4)" "?e + 12 = mmap + of_nat (24 * k + 12)"
    "?e + 20 = mmap + of_nat (24 * k + 20)"
    by (simp_all add: MMAP_ENTRY_SIZE_def)
  have reg: "pmm_region_at m3 ?a = boot_region m0 mmap k"
    using boot [of m] Suc.prems(2) boot [of m1] out1 boot [of m2] out2
    unfolding m3_def m2_def m1_def store_region(1) e by (simp add: boot_region_def)
  have keep: "m3 x = m x" if "\<not> in_range x ?a 12" for x
    using store_region(2) [OF that] by (simp add: m3_def m2_def m1_def)
  have old: "pmm_region_at m3 (r + of_nat j * REGION_SIZE) = pmm_region_at m (r + of_nat j * REGION_SIZE)" if "j < k" for j
  proof (intro pmm_region_at_other keep)
    fix i :: nat
    assume i: "i < 12"
    have "r + of_nat j * REGION_SIZE + of_nat i = r + of_nat (12 * j + i)" "?a = r + of_nat (12 * k)"
      by (simp_all add: REGION_SIZE_def)
    then show "\<not> in_range (r + of_nat j * REGION_SIZE + of_nat i) ?a 12"
      using that i k(1) n in_range_window [of "12 * j + i" "12 * k" 12 r] by (simp add: add.assoc)
  qed
  let ?p = "p\<lparr>memory_size := memory_size p + load32 m3 (?a + 4)\<rparr>"
  have len: "load32 m3 (?a + 4) = rg_length (boot_region m0 mmap k)"
    using arg_cong [OF reg, of rg_length] by (simp add: pmm_region_at_def)
  have step: "pmm_fetch_loop mmap p m (of_nat k) = pmm_fetch_loop mmap ?p m3 (of_nat (Suc k))"
    using k(2) Suc.prems(4) by (subst pmm_fetch_loop.simps) (simp add: m1_def m2_def m3_def Let_def add.commute)
  have sum: "(\<Sum>j = k..<n. f j) = f k + (\<Sum>j = Suc k..<n. f j)" for f :: "nat \<Rightarrow> u32"
    using k(1) by (simp add: sum.atLeast_Suc_lessThan)
  have "\<forall>j<Suc k. pmm_region_at m3 (r + of_nat j * REGION_SIZE) = boot_region m0 mmap j"
    using old reg Suc.prems(5) by (auto simp: less_Suc_eq)
  from Suc.hyps(1) [OF k(3), of m3 ?p, OF _ _ _ _ this] show ?case
    using k(1) out3 Suc.prems(3,4) by (simp only: step sum len) (simp add: add.assoc)
qed

lemma used_frames_full:
  assumes "unat (bitmap p) + 131072 < 4294967296"
  shows "used_frames p (memset m (bitmap p) 0xFF 131072) = {..<1048576}"
proof -
  have "pmm_test_frame p (memset m (bitmap p) 0xFF 131072) (of_nat i)" if "i < 1048576" for i
  proof -
    have "in_range (bitmap p + of_nat i div 8) (bitmap p) 131072"
      using that by (intro block_in_bitmap) simp
    moreover have "bit (mask 8 :: u8) (unat (of_nat i :: u32) mod 8)"
      by (simp add: bit_mask_iff)
    then have "bit (0xFF :: u8) (unat (of_nat i :: u32) mod 8)"
      by (simp add: mask_eq_exp_minus_1)
    ultimately show ?thesis
      by (simp add: test_frame_bit memset_eq)
  qed
  then show ?thesis
    by (auto simp: used_frames_def)
qed

lemma placement_owns_mem: "placement_owns h L \<Longrightarrow> placement_owns (h\<lparr>mem := m\<rparr>) L"
  by (simp add: placement_owns_def placement_inv_def)

text \<open>A table whose bytes do not change keeps its regions.\<close>

lemma region_table_other:
  assumes "\<And>x. in_range x r 144 \<Longrightarrow> m' x = m x" and "n \<le> 12"
  shows "region_table m' r n = region_table m r n"
  using assms table_in_range unfolding region_table_def by (auto intro!: pmm_region_at_other)

text \<open>The regions of a table are what its elements say, so a sorted table holds the same regions.\<close>

definition region_of :: "u8 list \<Rightarrow> pmm_memory_region" where
  "region_of bs = \<lparr>rg_base = word32 bs, rg_length = word32 (drop 4 bs), rg_type = word32 (drop 8 bs)\<rparr>"

lemma region_of_bytes: "region_of (bytes_at m a 12) = pmm_region_at m a"
  using load32_bytes_at [of 0 12 m a] load32_bytes_at [of 4 12 m a] load32_bytes_at [of 8 12 m a]
  by (simp add: region_of_def pmm_region_at_def)

lemma region_table_elems: "region_table m r n = map region_of (elems m r n REGION_SIZE)"
  by (simp add: region_table_def elems_def elem_at_def REGION_SIZE_def region_of_bytes)

definition region_order :: "pmm_memory_region \<Rightarrow> u32 \<times> u32" where
  "region_order r = (rg_base r, rg_length r)"

lemma region_order_key: "map region_order (region_table m r n) = map region_key (elems m r n REGION_SIZE)"
  by (simp add: region_table_elems region_order_def region_of_def region_key_def)

lemma region_table_sorted:
  assumes "array_fits r n REGION_SIZE" and "unat nitems = n" "0 < n"
  shows "sorted (map region_order (region_table (array_bubble_sort m r nitems REGION_SIZE pmm_memory_region_compare) r n))"
    and "mset (region_table (array_bubble_sort m r nitems REGION_SIZE pmm_memory_region_compare) r n) =
      mset (region_table m r n)"
  using pmm_regions.array_bubble_sort_sorts [OF assms, of m]
  by (simp_all add: region_order_key) (simp add: region_table_elems)

text \<open>What the placement allocator does with a request.\<close>

lemma kmalloc_placement:
  assumes owns: "placement_owns h L" and n: "0 < n" "n < 4294967296"
  shows "unat (placement_free_memory h) < n \<Longrightarrow> kmalloc h (of_nat n) = kret (0, h)"
    and "n \<le> unat (placement_free_memory h) \<Longrightarrow> \<exists>h'. kmalloc h (of_nat n) = kret (placement_head h, h') \<and>
      placement_owns h' {} \<and> mem h' = mem h \<and> placement_head h \<noteq> 0 \<and>
      unat (placement_head h) + n < 4294967296 \<and> unat (placement_head h') = unat (placement_head h) + n \<and>
      unat (placement_free_memory h') = unat (placement_free_memory h) - n \<and>
      placement_memory h' = placement_memory h"
proof -
  have inv: "placement_inv h" and off: "\<not> kheap_enabled h"
    using owns by (simp_all add: placement_owns_def)
  note eq = kmalloc_placement_plain [OF inv n(2), of MALLOC_FLAG_NULL]
  show "kmalloc h (of_nat n) = kret (0, h)" if "unat (placement_free_memory h) < n"
    using eq off that by (simp add: kmalloc_def kmalloc_base_def MALLOC_FLAG_NULL_def)
  assume le: "n \<le> unat (placement_free_memory h)"
  define h' where "h' = h\<lparr>placement_head := placement_head h + of_nat n,
    placement_free_memory := placement_free_memory h - of_nat n, mem := mem h\<rparr>"
  note step = placement_inv_step(1) [OF inv le, of "mem h"] placement_inv_step(2) [OF inv le]
  have "kmalloc h (of_nat n) = kret (placement_head h, h')"
    using eq off le by (simp add: kmalloc_def kmalloc_base_def MALLOC_FLAG_NULL_def h'_def)
  moreover have "placement_head h \<noteq> 0" "unat (placement_head h) + n < 4294967296"
    using inv le by (auto simp: placement_inv_def)
  moreover have "unat (placement_free_memory h - of_nat n) = unat (placement_free_memory h) - n"
    using le n by (simp add: unat_sub_u32)
  ultimately show "\<exists>h'. kmalloc h (of_nat n) = kret (placement_head h, h') \<and>
      placement_owns h' {} \<and> mem h' = mem h \<and> placement_head h \<noteq> 0 \<and>
      unat (placement_head h) + n < 4294967296 \<and> unat (placement_head h') = unat (placement_head h) + n \<and>
      unat (placement_free_memory h') = unat (placement_free_memory h) - n \<and>
      placement_memory h' = placement_memory h"
    using step off by (intro exI [of _ h']) (simp add: h'_def placement_owns_def)
qed

lemma pmm_fetch_memory_regions_ok:
  assumes owns: "placement_owns h L" and n: "unat (mmap_length info) div 24 = n" "0 < n" "n \<le> 12"
    and apart: "disjoint_ranges (mmap_addr info) (24 * n) (placement_memory h) 0x100000"
  shows "unat (placement_free_memory h) < 144 \<Longrightarrow>
      pmm_fetch_memory_regions info p h = kpanic ''Memory allocation failed.''"
    and "144 \<le> unat (placement_free_memory h) \<Longrightarrow>
      \<exists>p1 h1. pmm_fetch_memory_regions info p h = kret (p1, h1) \<and> regions p1 = placement_head h \<and>
        unat (num_regions p1) = n \<and> placement_owns h1 {} \<and>
        memory_size p1 = memory_size p + sum_list (map rg_length (boot_table (mem h) (mmap_addr info) n)) \<and>
        unat (placement_head h1) = unat (placement_head h) + 144 \<and>
        unat (placement_free_memory h1) = unat (placement_free_memory h) - 144 \<and>
        sorted (map region_order (region_table (mem h1) (regions p1) n)) \<and>
        mset (region_table (mem h1) (regions p1) n) = mset (boot_table (mem h) (mmap_addr info) n)"
proof -
  define p0 where "p0 = p\<lparr>region_size := REGION_SIZE, num_regions := mmap_length info div MMAP_ENTRY_SIZE\<rparr>"
  have sz: "REGION_SIZE * REGION_SIZE = of_nat 144" "region_size p0 = REGION_SIZE"
    by (simp_all add: p0_def REGION_SIZE_def)
  note alloc = kmalloc_placement [OF owns, of 144]
  show "pmm_fetch_memory_regions info p h = kpanic ''Memory allocation failed.''"
    if "unat (placement_free_memory h) < 144"
    using alloc(1) that sz by (simp add: pmm_fetch_memory_regions_def Let_def flip: p0_def)
  assume "144 \<le> unat (placement_free_memory h)"
  from alloc(2) [OF _ _ this] obtain h1 where h1: "kmalloc h (of_nat 144) = kret (placement_head h, h1)"
    "placement_owns h1 {}" "mem h1 = mem h" "placement_head h \<noteq> 0"
    "unat (placement_head h) + 144 < 4294967296" "unat (placement_head h1) = unat (placement_head h) + 144"
    "unat (placement_free_memory h1) = unat (placement_free_memory h) - 144"
    by auto
  let ?r = "placement_head h" and ?b = "boot_region (mem h) (mmap_addr info)"
  let ?p = "p0\<lparr>regions := ?r\<rparr>"
  have inside: "in_range x (placement_memory h) 0x100000" if "in_range x ?r 144" for x
    using that owns h1(5,7) \<open>144 \<le> _\<close> unfolding placement_owns_def placement_inv_def in_range_def
    by (auto simp: unat_sub_u32 split: if_splits)
  have dis: "disjoint_ranges (mmap_addr info) (24 * n) ?r 144"
    using apart inside by (auto simp: disjoint_ranges_def)
  have nr: "unat (num_regions ?p) = n"
    using n(1) by (simp add: p0_def MMAP_ENTRY_SIZE_def unat_div)
  from pmm_fetch_loop_copies [OF n(3) dis, of 0 "mem h1" "mem h" ?p] obtain m2 where
    f: "pmm_fetch_loop (mmap_addr info) ?p (mem h1) 0 =
        (?p\<lparr>memory_size := memory_size p + (\<Sum>j = 0..<n. rg_length (?b j))\<rparr>, m2)"
      "\<forall>j<n. pmm_region_at m2 (?r + of_nat j * REGION_SIZE) = ?b j"
    using nr h1(3) by (auto simp: p0_def)
  define p2 where "p2 = ?p\<lparr>memory_size := memory_size p + (\<Sum>j = 0..<n. rg_length (?b j))\<rparr>"
  define m3 where "m3 = array_bubble_sort m2 ?r (num_regions p2) REGION_SIZE pmm_memory_region_compare"
  have "pmm_fetch_memory_regions info p h = kret (p2, h1\<lparr>mem := m3\<rparr>)"
    using h1(1,4) f(1) sz by (simp add: pmm_fetch_memory_regions_def m3_def Let_def p2_def flip: p0_def)
  moreover have "region_table m2 ?r n = boot_table (mem h) (mmap_addr info) n"
    using f(2) by (simp add: region_table_def boot_table_def)
  moreover have "array_fits ?r n REGION_SIZE"
    using h1(5) n(3) by (simp add: array_fits_def REGION_SIZE_def)
  note region_table_sorted [OF this, of "num_regions p2" m2]
  moreover have "(\<Sum>j = 0..<n. rg_length (?b j)) = sum_list (map rg_length (boot_table (mem h) (mmap_addr info) n))"
    by (simp add: boot_table_def comp_def sum_list_distinct_conv_sum_set)
  ultimately show "\<exists>p1 h1. pmm_fetch_memory_regions info p h = kret (p1, h1) \<and> regions p1 = ?r \<and>
      unat (num_regions p1) = n \<and> placement_owns h1 {} \<and>
      memory_size p1 = memory_size p + sum_list (map rg_length (boot_table (mem h) (mmap_addr info) n)) \<and>
      unat (placement_head h1) = unat ?r + 144 \<and>
      unat (placement_free_memory h1) = unat (placement_free_memory h) - 144 \<and>
      sorted (map region_order (region_table (mem h1) (regions p1) n)) \<and>
      mset (region_table (mem h1) (regions p1) n) = mset (boot_table (mem h) (mmap_addr info) n)"
    using h1(2,6,7) n(2) nr
    by (intro exI [of _ p2] exI [of _ "h1\<lparr>mem := m3\<rparr>"]) (simp add: placement_owns_mem p2_def m3_def)
qed

lemma pmm_bitmap_size: "div_up 1048575 8 = kret (of_nat 131072)"
  using div_up_eq [of 8 1048575] by simp

lemma pmm_init_no_memory:
  assumes owns: "placement_owns h L" and n: "unat (mmap_length info) div 24 = n" "0 < n" "n \<le> 12"
    and apart: "disjoint_ranges (mmap_addr info) (24 * n) (placement_memory h) 0x100000"
    and full: "unat (placement_free_memory h) < 131216"
  shows "pmm_init info p h = kpanic ''Memory allocation failed.''"
proof (cases "unat (placement_free_memory h) < 144")
  case True
  then show ?thesis
    using pmm_fetch_memory_regions_ok(1) [OF owns n apart] by (simp add: pmm_init_def)
next
  case False
  then obtain p1 h1 where f: "pmm_fetch_memory_regions info (p\<lparr>memory_size := 0\<rparr>) h = kret (p1, h1)"
    "placement_owns h1 {}" "unat (placement_free_memory h1) = unat (placement_free_memory h) - 144"
    using pmm_fetch_memory_regions_ok(2) [OF owns n apart, of "p\<lparr>memory_size := 0\<rparr>"] by auto
  then have "kmalloc h1 (of_nat 131072) = kret (0, h1)"
    using kmalloc_placement(1) [OF f(2), of 131072] full False by simp
  then show ?thesis
    using f(1) pmm_bitmap_size
    by (simp add: pmm_init_def Let_def PMM_PAS_SIZE_def PMM_FRAME_SIZE_def PAGE_SIZE_def
        PMM_FRAMES_PER_BITMAP_BYTE_def)
qed

lemma pmm_init_ok:
  assumes owns: "placement_owns h L" and n: "unat (mmap_length info) div 24 = n" "0 < n" "n \<le> 12"
    and apart: "disjoint_ranges (mmap_addr info) (24 * n) (placement_memory h) 0x100000"
    and room: "131216 \<le> unat (placement_free_memory h)"
  defines "B \<equiv> boot_table (mem h) (mmap_addr info) n"
  shows "\<exists>p' h'. pmm_init info p h = kret (p', h') \<and> pmm_inv p' (mem h') \<and> unat (num_regions p') = n \<and>
    memory_size p' = sum_list (map rg_length B) \<and>
    sorted (map region_order (region_table (mem h') (regions p') n)) \<and>
    mset (region_table (mem h') (regions p') n) = mset B \<and>
    used_frames p' (mem h') = {..<1048576} - \<Union> (available_frames ` set B)"
proof -
  have "144 \<le> unat (placement_free_memory h)"
    using room by simp
  from pmm_fetch_memory_regions_ok(2) [OF owns n apart this, of "p\<lparr>memory_size := 0\<rparr>"] obtain p1 h1 where
    f: "pmm_fetch_memory_regions info (p\<lparr>memory_size := 0\<rparr>) h = kret (p1, h1)"
      "regions p1 = placement_head h" "unat (num_regions p1) = n" "placement_owns h1 {}"
      "memory_size p1 = sum_list (map rg_length B)"
      "unat (placement_head h1) = unat (placement_head h) + 144"
      "unat (placement_free_memory h1) = unat (placement_free_memory h) - 144"
      "sorted (map region_order (region_table (mem h1) (regions p1) n))"
      "mset (region_table (mem h1) (regions p1) n) = mset B"
    unfolding B_def by auto
  have "131072 \<le> unat (placement_free_memory h1)"
    using room f(7) by simp
  from kmalloc_placement(2) [OF f(4) _ _ this] obtain h2 where
    h2: "kmalloc h1 (of_nat 131072) = kret (placement_head h1, h2)" "mem h2 = mem h1"
      "placement_head h1 \<noteq> 0" "unat (placement_head h1) + 131072 < 4294967296"
    by auto
  let ?b = "placement_head h1"
  have "disjoint_ranges (regions p1) 144 ?b 131072"
    using f(2,6) h2(4) by (intro far_disjoint) simp_all
  then have out: "\<not> in_range x ?b 131072" if "in_range x (regions p1) 144" for x
    using that by (auto simp: disjoint_ranges_def)
  define p4 where "p4 = p1\<lparr>num_memory_frames := 1048575, num_memory_frames_used := 1048575,
    bitmap_size := 131072, bitmap := ?b\<rparr>"
  define m where "m = memset (mem h1) ?b 0xFF 131072"
  have used: "used_frames p4 m = {..<1048576}"
    using used_frames_full [of p4 "mem h1"] h2(4) by (simp add: p4_def m_def)
  then have inv: "pmm_inv p4 m"
    using h2(4) by (simp add: pmm_inv_def p4_def)
  have "\<not> in_range (regions p4 + (0 + of_nat j) * REGION_SIZE + of_nat k) (bitmap p4) 131072"
    if "j < n" "k < 12" for j k
    using table_in_range [OF that(1) n(3) that(2)] out by (simp add: p4_def)
  from pmm_release_regions_eq [of p4 m n 0, OF inv this] obtain p5 m5 where
    r: "pmm_release_regions n 0 p4 m = Some (p5, m5)" "pmm_inv p5 m5"
      "used_frames p5 m5 = used_frames p4 m - (\<Union>j<n. region_frames m (regions p4 + of_nat j * REGION_SIZE))"
      "regions p5 = regions p4" "num_regions p5 = num_regions p4" "memory_size p5 = memory_size p4"
      "\<forall>x. \<not> in_range x (bitmap p4) 131072 \<longrightarrow> m5 x = m x"
    by auto
  have init: "pmm_init info p h = kret (p5, h2\<lparr>mem := m5\<rparr>)"
    using f(1,3) pmm_bitmap_size h2(1,2,3) r(1)
    by (simp add: pmm_init_def Let_def PMM_PAS_SIZE_def PMM_FRAME_SIZE_def PAGE_SIZE_def
        PMM_FRAMES_PER_BITMAP_BYTE_def p4_def m_def)
  have "region_table m5 (regions p1) n = region_table (mem h1) (regions p1) n"
    "region_table m (regions p1) n = region_table (mem h1) (regions p1) n"
    using out r(7) by (auto intro!: region_table_other [OF _ n(3)] simp: p4_def m_def memset_eq)
  moreover have "set (region_table (mem h1) (regions p1) n) = set B"
    using f(9) by (metis set_mset_mset)
  ultimately show ?thesis
    using init r(2-6) f(3,5,8,9) used by (simp add: p4_def region_table_frames)
qed


section \<open>Properties of the physical memory manager\<close>

text \<open>Every frame but frame 256 in use, and a map with one region of one megabyte at 1 MB.\<close>

definition sample_pmm :: pmm_memory where
  "sample_pmm = \<lparr>regions = 0, num_regions = 0, region_size = 12, memory_size = 0,
     num_memory_frames = 1048575, num_memory_frames_used = 1048575, bitmap = 0x10000, bitmap_size = 131072\<rparr>"

definition sample_bitmap :: mem where
  "sample_bitmap = memset (\<lambda>_. 0) 0x10000 0xFF 131072"

lemma sample_pmm_inv: "pmm_inv sample_pmm sample_bitmap" "used_frames sample_pmm sample_bitmap = {..<1048576}"
proof -
  show u: "used_frames sample_pmm sample_bitmap = {..<1048576}"
    using used_frames_full [of sample_pmm "\<lambda>_. 0"] by (simp add: sample_pmm_def sample_bitmap_def)
  show "pmm_inv sample_pmm sample_bitmap"
    unfolding pmm_inv_def u by (simp add: sample_pmm_def)
qed

text \<open>
  C14: on the set of used frames, reserving a frame inserts it and releasing a frame
  removes it, the counter of used frames keeps in step, and no byte outside the bitmap changes.
\<close>
theorem pmm_frames_abstract:
  assumes "pmm_inv p m"
  shows "(case pmm_mark_frame_reserved p m a of (p', m') \<Rightarrow>
      pmm_inv p' m' \<and> used_frames p' m' = insert (frame a) (used_frames p m) \<and>
      (\<forall>x. in_range x (bitmap p) 131072 \<or> m' x = m x)) \<and>
    (case pmm_mark_frame_available p m a of (p', m') \<Rightarrow>
      pmm_inv p' m' \<and> used_frames p' m' = used_frames p m - {frame a} \<and>
      (\<forall>x. in_range x (bitmap p) 131072 \<or> m' x = m x))"
proof -
  obtain p1 m1 p2 m2 where r: "pmm_mark_frame_reserved p m a = (p1, m1)" "pmm_mark_frame_available p m a = (p2, m2)"
    by (metis prod.exhaust)
  then have set: "pmm_set_frame p m (pmm_address_to_index a) = (p1, m1)"
    "pmm_unset_frame p m (pmm_address_to_index a) = (p2, m2)"
    by (simp_all add: pmm_mark_frame_reserved_def pmm_mark_frame_available_def)
  show ?thesis
    using mark_frame_reserved_law [OF assms r(1)] mark_frame_available_law [OF assms r(2)]
      pmm_set_frame_other [OF set(1) address_index_bound] pmm_unset_frame_other [OF set(2) address_index_bound]
    by (auto simp: r)
qed

theorem pmm_frames_abstract_witness:
  "case pmm_mark_frame_available sample_pmm sample_bitmap 0x100000 of (p', m') \<Rightarrow>
     pmm_inv p' m' \<and> used_frames p' m' = {..<1048576} - {256}"
proof -
  have "frame 0x100000 = 256"
    by (simp add: frame_def pmm_address_to_index_def unat_frame_index)
  then show ?thesis
    using pmm_frames_abstract [OF sample_pmm_inv(1), of "0x100000"] by (auto simp: sample_pmm_inv(2))
qed

text \<open>
  A search returns the address of the first free frame at or behind the given
  address; when it returns NULL for an address behind the first page, every frame from there on is
  in use.
\<close>
theorem pmm_find_first:
  assumes "pmm_inv p m"
  shows "if pmm_find_free_frame_from p m a = 0
    then frame a = 0 \<or> (\<forall>j. frame a \<le> j \<and> j < 1048575 \<longrightarrow> j \<in> used_frames p m)
    else frame (pmm_find_free_frame_from p m a) \<notin> used_frames p m \<and>
      unat (pmm_find_free_frame_from p m a) mod 4096 = 0 \<and> frame a \<le> frame (pmm_find_free_frame_from p m a) \<and>
      (\<forall>j. frame a \<le> j \<and> j < frame (pmm_find_free_frame_from p m a) \<longrightarrow> j \<in> used_frames p m)"
  using pmm_find_free_frame_from_spec [OF assms refl, of a] unfolding frame_def word_le_unat by auto

theorem pmm_find_first_witness:
  "\<exists>p m. pmm_inv p m \<and> frame (pmm_find_free_frame_from p m 0x1000) = 256"
proof -
  obtain p m where pm: "pmm_mark_frame_available sample_pmm sample_bitmap 0x100000 = (p, m)"
    by force
  have f: "frame 0x100000 = 256" "frame 0x1000 = 1" "frame 0 = 0"
    by (simp_all add: frame_def pmm_address_to_index_def unat_frame_index)
  have inv: "pmm_inv p m" and u: "used_frames p m = {..<1048576} - {256}"
    using mark_frame_available_law [OF sample_pmm_inv(1) pm] by (simp_all add: f sample_pmm_inv(2))
  have "frame r < 1048576" for r
    by (simp add: frame_def address_index_bound)
  then have "frame (pmm_find_free_frame_from p m 0x1000) = 256"
    using pmm_find_first [OF inv, of "0x1000"] unfolding u f
    by (auto split: if_splits dest!: spec [of _ 256])
  then show ?thesis
    using inv by blast
qed

text \<open>
  Frames found and reserved one after the other are pairwise different and none of
  them was in use before.
\<close>
theorem pmm_grab_distinct:
  assumes "pmm_inv p m" and "pmm_pool.grab n a (p, m) = (rs, (p', m'))"
  shows "distinct (map frame rs) \<and> frame ` set rs \<inter> used_frames p m = {} \<and>
    used_frames p' m' = used_frames p m \<union> frame ` set rs"
  using pmm_pool.grab_distinct [of "(p, m)" n a rs "(p', m')"] assms
  by (simp add: pool_ok_def pool_used_def)

theorem pmm_grab_distinct_witness:
  "\<exists>rs s'. pmm_pool.grab 2 0x1000 (sample_pmm, sample_bitmap) = (rs, s') \<and> distinct (map frame rs)"
proof -
  obtain rs p' m' where "pmm_pool.grab 2 0x1000 (sample_pmm, sample_bitmap) = (rs, (p', m'))"
    by (metis prod.exhaust)
  then show ?thesis
    using pmm_grab_distinct [OF sample_pmm_inv(1)] by blast
qed

text \<open>
  C13: for a boot loader map of one to twelve entries that lies outside the placement
  memory, initialisation panics exactly when the placement memory has no room for the table of regions
  and the bitmap.  Otherwise it leaves a table with the boot loader's regions, all of them and no others,
  sorted by base and length; the memory size is the sum of their lengths, and exactly the frames of
  the available regions are free.
\<close>
theorem pmm_init_releases:
  assumes "placement_owns h L" and "unat (mmap_length info) div 24 = n" and "0 < n" and "n \<le> 12"
    and "disjoint_ranges (mmap_addr info) (24 * n) (placement_memory h) 0x100000"
  shows "if unat (placement_free_memory h) < 144 + 131072
    then pmm_init info p h = kpanic ''Memory allocation failed.''
    else \<exists>p' h'. pmm_init info p h = kret (p', h') \<and> pmm_inv p' (mem h') \<and> unat (num_regions p') = n \<and>
      memory_size p' = sum_list (map rg_length (boot_table (mem h) (mmap_addr info) n)) \<and>
      sorted (map region_order (region_table (mem h') (regions p') n)) \<and>
      mset (region_table (mem h') (regions p') n) = mset (boot_table (mem h) (mmap_addr info) n) \<and>
      used_frames p' (mem h') =
        {..<1048576} - \<Union> (available_frames ` set (boot_table (mem h) (mmap_addr info) n))"
  using pmm_init_no_memory [OF assms] pmm_init_ok [OF assms] by auto

text \<open>A map with 8 MB of reserved memory listed before the 1 MB that is available.\<close>

definition sample_boot :: kheap where
  "sample_boot = \<lparr>placement_memory = 0xC0200000, placement_head = 0xC0200000,
     placement_free_memory = 0x100000, kheap_enabled = False, kheap_base = 0, kheap_head = 0,
     kheap_tail = 0, heads = Map.empty,
     mem = store32 (store32 (store32 (store32 (store32 (store32 (\<lambda>_. 0)
       0x504 0x200000) 0x50C 0x800000) 0x514 2) 0x51C 0x100000) 0x524 0x100000) 0x52C 1\<rparr>"

lemma sample_boot_table:
  "boot_table (mem sample_boot) 0x500 2 =
     [\<lparr>rg_base = 0x200000, rg_length = 0x800000, rg_type = 2\<rparr>,
      \<lparr>rg_base = 0x100000, rg_length = 0x100000, rg_type = 1\<rparr>]"
  by code_simp

lemma sample_boot_owns:
  "placement_owns sample_boot {}" "disjoint_ranges 0x500 48 (placement_memory sample_boot) 0x100000"
  "placement_free_memory sample_boot = 0x100000"
proof -
  show "disjoint_ranges 0x500 48 (placement_memory sample_boot) 0x100000"
    by (rule far_disjoint) (simp_all add: sample_boot_def)
qed (simp_all add: placement_owns_def placement_inv_def sample_boot_def)

theorem pmm_init_releases_witness:
  "\<exists>p' h'. pmm_init \<lparr>mmap_length = 48, mmap_addr = 0x500\<rparr> sample_pmm sample_boot = kret (p', h') \<and>
     memory_size p' = 0x900000 \<and> used_frames p' (mem h') = {..<1048576} - {256..511} \<and>
     mset (region_table (mem h') (regions p') 2) =
       {#\<lparr>rg_base = 0x100000, rg_length = 0x100000, rg_type = 1\<rparr>,
         \<lparr>rg_base = 0x200000, rg_length = 0x800000, rg_type = 2\<rparr>#}"
proof -
  have "frame 0x100000 = 256" "frame 0x1FFFFF = 511"
    by (simp_all add: frame_def pmm_address_to_index_def unat_frame_index)
  then show ?thesis
    using pmm_init_releases [of sample_boot "{}" "\<lparr>mmap_length = 48, mmap_addr = 0x500\<rparr>" 2 sample_pmm]
      sample_boot_owns by (auto simp: sample_boot_table available_frames_def)
qed

end
