(* ===== verification/CString.thy ===== *)
theory CString
  imports Numeric
begin

text \<open>
  \<^verbatim>\<open>kernel/src/utils/string.c\<close>: strings in the flat memory, ended by a zero byte.  Loops that run
  until they meet a byte are partial functions: \<open>None\<close> means that the loop does not end.
  An \<^verbatim>\<open>int\<close> result is a 32-bit word.  \<^verbatim>\<open>ftoa\<close> computes with floating point numbers, which are not
  modelled; \<open>vsprintf\<close> gets it as an argument.
\<close>

abbreviation ch :: "char \<Rightarrow> u8" where
  "ch c \<equiv> of_char c"

text \<open>A literal with a line feed at its end.\<close>

abbreviation line :: "string \<Rightarrow> string" where
  "line cs \<equiv> cs @ [CHR 0x0A]"

section \<open>Length, copy and comparison\<close>

text \<open>The pointer is tested against NULL in every round, so the loop ends at the latest there.\<close>

function strlen_loop :: "mem \<Rightarrow> u32 \<Rightarrow> u32 \<Rightarrow> u32" where
  "strlen_loop m str len = (if str \<noteq> 0 \<and> m str \<noteq> 0 then strlen_loop m (str + 1) (len + 1) else len)"
  by pat_completeness auto
termination
proof (relation "measure (\<lambda>(m, str, len). unat (- str))")
  fix m :: mem and str len :: u32
  assume "str \<noteq> 0 \<and> m str \<noteq> 0"
  then have "unat (- str - 1) < unat (- str)"
    by (intro measure_unat) simp
  then show "((m, str + 1, len + 1), m, str, len) \<in> measure (\<lambda>(m, str, len). unat (- str))"
    by simp
qed simp

declare strlen_loop.simps [simp del]

definition strlen :: "mem \<Rightarrow> u32 \<Rightarrow> u32" where
  "strlen m str = strlen_loop m str 0"

function strcat_loop :: "mem \<Rightarrow> u32 \<Rightarrow> u32 \<Rightarrow> u32 \<Rightarrow> u32 \<Rightarrow> u32 \<Rightarrow> mem" where
  "strcat_loop m dest src dest_len src_len i =
     (if i < src_len
      then strcat_loop (m(dest + (dest_len + i) := m (src + i))) dest src dest_len src_len (i + 1)
      else m)"
  by pat_completeness auto
termination
  by (relation "measure (\<lambda>(m, dest, src, dest_len, src_len, i). unat src_len - unat i)")
    (auto simp: unat_Suc_less word_less_unat)

declare strcat_loop.simps [simp del]

definition strcat :: "mem \<Rightarrow> u32 \<Rightarrow> u32 \<Rightarrow> mem" where
  "strcat m dest src =
     (let dest_len = strlen m dest;
          src_len = strlen m src;
          m' = strcat_loop m dest src dest_len src_len 0
      in m'(dest + (dest_len + src_len) := 0))"

partial_function (option) strcmp :: "mem \<Rightarrow> u32 \<Rightarrow> u32 \<Rightarrow> int option" where
  "strcmp m str1 str2 =
     (if m str1 \<noteq> 0 \<and> m str1 = m str2 then strcmp m (str1 + 1) (str2 + 1)
      else Some (uint (m str1) - uint (m str2)))"

partial_function (option) strcpy :: "mem \<Rightarrow> u32 \<Rightarrow> u32 \<Rightarrow> mem option" where
  "strcpy m d s =
     (let c = m s; m' = m(d := c) in if c \<noteq> 0 then strcpy m' (d + 1) (s + 1) else Some m')"

partial_function (option) strchr :: "mem \<Rightarrow> u32 \<Rightarrow> u8 \<Rightarrow> u32 option" where
  "strchr m s c = (if m s \<noteq> 0 then if m s = c then Some s else strchr m (s + 1) c else Some 0)"


section \<open>Tokens\<close>

text \<open>The two scans of \<^verbatim>\<open>strtok\<close>: over delimiters, and over the characters of a token.\<close>

partial_function (option) strtok_skip :: "mem \<Rightarrow> u32 \<Rightarrow> u32 \<Rightarrow> u32 option" where
  "strtok_skip m delim p =
     (if m p \<noteq> 0
      then Option.bind (strchr m delim (m p)) (\<lambda>d. if d \<noteq> 0 then strtok_skip m delim (p + 1) else Some p)
      else Some p)"

partial_function (option) strtok_scan :: "mem \<Rightarrow> u32 \<Rightarrow> u32 \<Rightarrow> u32 option" where
  "strtok_scan m delim p =
     (if m p \<noteq> 0
      then Option.bind (strchr m delim (m p)) (\<lambda>d. if d = 0 then strtok_scan m delim (p + 1) else Some p)
      else Some p)"

text \<open>The static pointer is an argument and part of the result, with the token and the memory.\<close>

definition strtok :: "mem \<Rightarrow> u32 \<Rightarrow> u32 \<Rightarrow> u32 \<Rightarrow> (u32 \<times> u32 \<times> mem) option" where
  "strtok m s str delim =
     (let s1 = (if str \<noteq> 0 then str else s) in
      if s1 = 0 then Some (0, s1, m)
      else Option.bind (strtok_skip m delim s1) (\<lambda>p.
        if m p = 0 then Some (0, 0, m)
        else Option.bind (strtok_scan m delim p) (\<lambda>q.
          if m q = 0 then Some (p, 0, m) else Some (p, q + 1, m(q := 0)))))"


section \<open>Characters\<close>

definition tolower :: "u8 \<Rightarrow> u8" where
  "tolower c = (if ch CHR ''A'' \<le> c \<and> c \<le> ch CHR ''Z'' then (c - ch CHR ''A'') + ch CHR ''a'' else c)"

definition toupper :: "u8 \<Rightarrow> u8" where
  "toupper c = (if ch CHR ''a'' \<le> c \<and> c \<le> ch CHR ''z'' then (c - ch CHR ''a'') + ch CHR ''A'' else c)"

definition isalpha :: "u8 \<Rightarrow> bool" where
  "isalpha c \<longleftrightarrow> (let c' = tolower c in ch CHR ''a'' \<le> c' \<and> c' \<le> ch CHR ''z'')"

definition isdigit :: "u8 \<Rightarrow> bool" where
  "isdigit c \<longleftrightarrow> ch CHR ''0'' \<le> c \<and> c \<le> ch CHR ''9''"

definition isalnum :: "u8 \<Rightarrow> bool" where
  "isalnum c \<longleftrightarrow> isalpha c \<or> isdigit c"


section \<open>Numbers\<close>

partial_function (option) atoi_skip :: "mem \<Rightarrow> u32 \<Rightarrow> u32 option" where
  "atoi_skip m p = (if m p \<in> {32, 9, 10, 13, 11, 12} then atoi_skip m (p + 1) else Some p)"

partial_function (option) atoi_digits :: "mem \<Rightarrow> u32 \<Rightarrow> u32 \<Rightarrow> u32 option" where
  "atoi_digits m p res =
     (if isdigit (m p) then atoi_digits m (p + 1) (res * 10 + (ucast (m p) - ucast (ch CHR ''0'')))
      else Some res)"

definition atoi :: "mem \<Rightarrow> u32 \<Rightarrow> u32 option" where
  "atoi m str =
     Option.bind (atoi_skip m str) (\<lambda>p.
       if m p = ch CHR ''+'' then atoi_digits m (p + 1) 0
       else if m p = ch CHR ''-'' then map_option (\<lambda>r. - r) (atoi_digits m (p + 1) 0)
       else atoi_digits m p 0)"

function itoa_digits :: "mem \<Rightarrow> u32 \<Rightarrow> int \<Rightarrow> int \<Rightarrow> mem \<times> int" where
  "itoa_digits m str i n =
     (let m' = m(str + word_of_int i := word_of_int (n smod 10 + 48));
          n' = n sdiv 10
      in if 0 < n' then itoa_digits m' str (i + 1) n' else (m', i + 1))"
  by pat_completeness auto
termination
proof (relation "measure (\<lambda>(m, str, i, n). nat n)")
  fix m :: mem and str :: u32 and i n x y
  assume "x = m(str + word_of_int i := word_of_int (n smod 10 + 48))" and y: "y = n sdiv 10" "0 < y"
  then have "0 < n"
    by (auto simp: signed_divide_int_def zero_less_mult_iff split: if_splits)
  then have "y < n"
    using y by (auto simp: signed_divide_int_def)
  then show "((x, str, i + 1, y), m, str, i, n) \<in> measure (\<lambda>(m, str, i, n). nat n)"
    using y by simp
qed simp

declare itoa_digits.simps [simp del]

function itoa_reverse :: "mem \<Rightarrow> u32 \<Rightarrow> int \<Rightarrow> int \<Rightarrow> mem" where
  "itoa_reverse m str i j =
     (if i < j then
        let tmp = m (str + word_of_int i);
            m1 = m(str + word_of_int i := m (str + word_of_int j))
        in itoa_reverse (m1(str + word_of_int j := tmp)) str (i + 1) (j - 1)
      else m)"
  by pat_completeness auto
termination
  by (relation "measure (\<lambda>(m, str, i, j). nat (j - i))") auto

declare itoa_reverse.simps [simp del]

text \<open>The result is the memory and the address of the terminating zero.\<close>

definition itoa :: "mem \<Rightarrow> u32 \<Rightarrow> u32 \<Rightarrow> mem \<times> u32" where
  "itoa m n str =
     (let sign = sint n;
          n' = (if sign < 0 then - n else n);
          (m1, i) = itoa_digits m str 0 (sint n');
          (m2, end) = (if sign < 0 then (m1(str + word_of_int i := ch CHR ''-''), i + 1) else (m1, i));
          m3 = m2(str + word_of_int end := 0)
      in (itoa_reverse m3 str 0 (end - 1), str + word_of_int end))"

definition place_at :: "mem \<Rightarrow> u32 \<Rightarrow> u8 \<Rightarrow> u32 \<Rightarrow> mem \<times> u32" where
  "place_at m str c i = (m(str + i := c, str + (i + 1) := 0), i + 1)"

text \<open>The digit of one nibble, lines 208 to 212 and 216 to 220.\<close>

definition htoa_digit :: "u32 \<Rightarrow> u8" where
  "htoa_digit tmp = (if 0xA \<le> tmp then ucast (tmp - 0xA + ucast (ch CHR ''a'')) else ucast (tmp + ucast (ch CHR ''0'')))"

text \<open>The loop over the shifts 28, 24, \dots, 4.\<close>

primrec htoa_loop :: "mem \<Rightarrow> u32 \<Rightarrow> u32 \<Rightarrow> u32 \<Rightarrow> bool \<Rightarrow> nat list \<Rightarrow> mem \<times> u32" where
  "htoa_loop m str n len zeros [] = (m, len)"
| "htoa_loop m str n len zeros (i # is) =
     (let tmp = drop_bit i n AND 0xF in
      if tmp = 0 \<and> \<not> zeros then htoa_loop m str n len zeros is
      else let (m', len') = place_at m str (htoa_digit tmp) len in htoa_loop m' str n len' True is)"

definition htoa :: "mem \<Rightarrow> u32 \<Rightarrow> u32 \<Rightarrow> mem \<times> u32" where
  "htoa m n str =
     (let (m1, len1) = place_at m str (ch CHR ''0'') 0;
          (m2, len2) = place_at m1 str (ch CHR ''x'') len1;
          (m3, len3) = htoa_loop m2 str n len2 False [28, 24, 20, 16, 12, 8, 4];
          (m4, len4) = place_at m3 str (htoa_digit (n AND 0xF)) len3
      in (m4, str + len4))"


section \<open>Formatting\<close>

text \<open>
  On this target \<^verbatim>\<open>va_list\<close> is a pointer to the arguments on the stack, one word each and two for a
  \<^verbatim>\<open>double\<close>.  \<open>ftoa\<close> stands for the conversion of a \<^verbatim>\<open>double\<close> given by its two words.
\<close>

definition vsprintf_conv ::
  "(mem \<Rightarrow> u32 \<Rightarrow> u32 \<Rightarrow> u32 \<Rightarrow> mem \<times> u32) \<Rightarrow> mem \<Rightarrow> u32 \<Rightarrow> u8 \<Rightarrow> u32 \<Rightarrow> (mem \<times> u32 \<times> u32) option" where
  "vsprintf_conv ftoa m p c args =
     (if c = ch CHR ''d'' then
        let (m', p') = itoa m (load32 m args) p in Some (m', p', args + 4)
      else if c = ch CHR ''x'' \<or> c = ch CHR ''p'' then
        let (m', p') = htoa m (load32 m args) p in Some (m', p', args + 4)
      else if c = ch CHR ''f'' then
        let (m', p') = ftoa m (load32 m args) (load32 m (args + 4)) p in Some (m', p', args + 8)
      else if c = ch CHR ''s'' then
        let src = load32 m args in
        map_option (\<lambda>m'. (m', p + strlen m' src, args + 4)) (strcpy m p src)
      else if c = ch CHR ''c'' then Some (m(p := ucast (load32 m args)), p + 1, args + 4)
      else Some (m(p := c), p + 1, args))"

partial_function (option) vsprintf_loop ::
  "(mem \<Rightarrow> u32 \<Rightarrow> u32 \<Rightarrow> u32 \<Rightarrow> mem \<times> u32) \<Rightarrow> mem \<Rightarrow> u32 \<Rightarrow> u32 \<Rightarrow> u32 \<Rightarrow> (mem \<times> u32) option" where
  "vsprintf_loop ftoa m p fmt args =
     (if m fmt = 0 then Some (m(p := 0), p)
      else if m fmt = ch CHR ''%'' then
        Option.bind (vsprintf_conv ftoa m p (m (fmt + 1)) args) (\<lambda>r.
          vsprintf_loop ftoa (fst r) (fst (snd r)) (fmt + 2) (snd (snd r)))
      else vsprintf_loop ftoa (m(p := m fmt)) (p + 1) (fmt + 1) args)"

definition vsprintf ::
  "(mem \<Rightarrow> u32 \<Rightarrow> u32 \<Rightarrow> u32 \<Rightarrow> mem \<times> u32) \<Rightarrow> mem \<Rightarrow> u32 \<Rightarrow> u32 \<Rightarrow> u32 \<Rightarrow> (u32 \<times> mem) option" where
  "vsprintf ftoa m str fmt args = map_option (\<lambda>(m', p). (p - str, m')) (vsprintf_loop ftoa m str fmt args)"

definition sprintf ::
  "(mem \<Rightarrow> u32 \<Rightarrow> u32 \<Rightarrow> u32 \<Rightarrow> mem \<times> u32) \<Rightarrow> mem \<Rightarrow> u32 \<Rightarrow> u32 \<Rightarrow> u32 \<Rightarrow> (u32 \<times> mem) option" where
  "sprintf ftoa m str format args = vsprintf ftoa m str format args"


text \<open>The arguments of a call with a variable number of them, on the stack.\<close>

primrec push_args :: "mem \<Rightarrow> u32 \<Rightarrow> u32 list \<Rightarrow> mem" where
  "push_args m a [] = m"
| "push_args m a (v # vs) = push_args (store32 m a v) (a + 4) vs"

declare strcmp.simps [code] strcpy.simps [code] strchr.simps [code] strtok_skip.simps [code]
  strtok_scan.simps [code] atoi_skip.simps [code] atoi_digits.simps [code] vsprintf_loop.simps [code]


section \<open>Strings as lists\<close>

primrec cstr :: "mem \<Rightarrow> u32 \<Rightarrow> u8 list \<Rightarrow> bool" where
  "cstr m p [] \<longleftrightarrow> m p = 0"
| "cstr m p (c # cs) \<longleftrightarrow> m p = c \<and> c \<noteq> 0 \<and> cstr m (p + 1) cs"

lemma cstr_bytes_at: "cstr m p cs \<longleftrightarrow> bytes_at m p (length cs + 1) = cs @ [0] \<and> 0 \<notin> set cs"
  by (induction cs arbitrary: p) (auto simp: bytes_at_Suc)

lemma cstr_iff:
  "cstr m p cs \<longleftrightarrow> bytes_at m p (length cs) = cs \<and> m (p + of_nat (length cs)) = 0 \<and> 0 \<notin> set cs"
  by (induction cs arbitrary: p) (auto simp: bytes_at_Suc add.assoc [symmetric])

lemma cstr_unique: "cstr m p cs \<Longrightarrow> cstr m p ds \<Longrightarrow> cs = ds"
proof (induction cs arbitrary: p ds)
  case Nil
  then show ?case
    by (cases ds) auto
next
  case (Cons c cs)
  then show ?case
    by (cases ds) auto
qed

text \<open>The string lies below the end of the address space.\<close>

definition str_fits :: "u32 \<Rightarrow> u8 list \<Rightarrow> bool" where
  "str_fits p cs \<longleftrightarrow> 0 < unat p \<and> unat p + length cs < 4294967296"

lemma str_fits_Cons: "str_fits p (c # cs) \<Longrightarrow> p \<noteq> 0 \<and> str_fits (p + 1) cs"
  by (auto simp: str_fits_def unat_add_u32)

lemma strlen_loop_eq:
  "cstr m p cs \<Longrightarrow> str_fits p cs \<Longrightarrow> strlen_loop m p n = n + of_nat (length cs)"
proof (induction cs arbitrary: p n)
  case Nil
  then show ?case
    by (simp add: strlen_loop.simps)
next
  case (Cons c cs)
  have "strlen_loop m p n = strlen_loop m (p + 1) (n + 1)"
    using Cons.prems str_fits_Cons by (subst strlen_loop.simps) auto
  then show ?case
    using Cons.IH [of "p + 1" "n + 1"] Cons.prems(1) str_fits_Cons [OF Cons.prems(2)] by (simp add: algebra_simps)
qed

lemma strlen_eq: "cstr m p cs \<Longrightarrow> str_fits p cs \<Longrightarrow> strlen m p = of_nat (length cs)"
  by (simp add: strlen_def strlen_loop_eq)

text \<open>A write outside a string leaves it alone.\<close>

lemma cstr_other: "(\<And>x. in_range x p (length cs + 1) \<Longrightarrow> m' x = m x) \<Longrightarrow> length cs < 4294967295 \<Longrightarrow>
    cstr m' p cs \<longleftrightarrow> cstr m p cs"
  unfolding cstr_bytes_at
proof -
  assume same: "\<And>x. in_range x p (length cs + 1) \<Longrightarrow> m' x = m x" and "length cs < 4294967295"
  then have "bytes_at m' p (length cs + 1) = bytes_at m p (length cs + 1)"
    by (intro bytes_at_eqI) simp
  then show "(bytes_at m' p (length cs + 1) = cs @ [0] \<and> 0 \<notin> set cs) =
    (bytes_at m p (length cs + 1) = cs @ [0] \<and> 0 \<notin> set cs)"
    by simp
qed

lemma in_range_next: "in_range x (p + 1) n \<Longrightarrow> n < 4294967296 \<Longrightarrow> in_range x p (Suc n)"
proof -
  assume "in_range x (p + 1) n" and n: "n < 4294967296"
  then obtain i where "i < n" "x = p + 1 + of_nat i"
    by (auto simp: in_range_ex)
  then show ?thesis
    using n unfolding in_range_ex by (intro exI [of _ "Suc i"]) auto
qed

lemma disjoint_next:
  "disjoint_ranges p (Suc n) q (Suc n) \<Longrightarrow> n < 4294967296 \<Longrightarrow> disjoint_ranges (p + 1) n (q + 1) n"
  unfolding disjoint_ranges_def using in_range_next by blast


section \<open>Copy\<close>

lemma strcpy_eq:
  assumes "cstr m s cs" and "disjoint_ranges d (Suc (length cs)) s (Suc (length cs))" and "length cs < 4294967295"
  shows "strcpy m d s = Some (store_bytes m d (cs @ [0]))"
  using assms
proof (induction cs arbitrary: m d s)
  case Nil
  then show ?case
    by (subst strcpy.simps) (simp add: Let_def)
next
  case (Cons c cs)
  have "x \<noteq> d" if "in_range x (s + 1) (length cs + 1)" for x
  proof
    assume "x = d"
    moreover have "in_range x s (Suc (length (c # cs)))"
      using in_range_next [OF that] Cons.prems(3) by simp
    ultimately show False
      using Cons.prems(2) by (auto simp: disjoint_ranges_def in_range_def)
  qed
  then have "cstr (m(d := c)) (s + 1) cs"
    using Cons.prems by (subst cstr_other [of _ _ _ m]) auto
  then have "strcpy (m(d := c)) (d + 1) (s + 1) = Some (store_bytes (m(d := c)) (d + 1) (cs @ [0]))"
  proof (rule Cons.IH)
    show "disjoint_ranges (d + 1) (Suc (length cs)) (s + 1) (Suc (length cs))" "length cs < 4294967295"
      using Cons.prems(2,3) disjoint_next [of d "Suc (length cs)" s] by simp_all
  qed
  then show ?case
    using Cons.prems(1) by (subst strcpy.simps) (simp add: Let_def)
qed

lemma cstr_store: "0 \<notin> set cs \<Longrightarrow> length cs < 4294967295 \<Longrightarrow> cstr (store_bytes m d (cs @ [0])) d cs"
  using bytes_at_store_bytes [of "cs @ [0]" m d] by (simp add: cstr_bytes_at)

lemma cstr_nonzero: "cstr m p cs \<Longrightarrow> 0 \<notin> set cs"
  by (simp add: cstr_bytes_at)

lemma cstr_bytes: "cstr m p cs \<Longrightarrow> i < length cs \<Longrightarrow> m (p + of_nat i) = cs ! i"
  by (induction cs arbitrary: p i) (auto simp: nth_Cons add.assoc [symmetric] split: nat.splits)

lemma strcat_loop_eq:
  assumes "length cs = unat src_len" and "\<And>j. unat i \<le> j \<Longrightarrow> j < unat src_len \<Longrightarrow> m (src + of_nat j) = cs ! j"
    and "\<And>j k. j < unat src_len \<Longrightarrow> k < unat src_len \<Longrightarrow> src + of_nat j \<noteq> dest + (dest_len + of_nat k)"
  shows "strcat_loop m dest src dest_len src_len i =
    store_bytes m (dest + (dest_len + i)) (drop (unat i) cs)"
  using assms
proof (induction "unat src_len - unat i" arbitrary: m i)
  case 0
  then show ?case
    by (simp add: strcat_loop.simps word_less_unat)
next
  case (Suc n)
  then have lt: "i < src_len" and i: "unat (i + 1) = Suc (unat i)"
    using unat_Suc_less [of i src_len] by (simp_all add: word_less_unat)
  let ?m = "m(dest + (dest_len + i) := m (src + i))"
  have keep: "?m (src + of_nat j) = cs ! j" if "unat (i + 1) \<le> j" "j < unat src_len" for j
  proof -
    have "src + of_nat j \<noteq> dest + (dest_len + of_nat (unat i))"
      using Suc.prems(3) [OF that(2), of "unat i"] lt by (simp add: word_less_unat)
    then show ?thesis
      using Suc.prems(2) [of j] that i by simp
  qed
  have "strcat_loop m dest src dest_len src_len i = strcat_loop ?m dest src dest_len src_len (i + 1)"
    using lt by (subst strcat_loop.simps) simp
  also have "\<dots> = store_bytes ?m (dest + (dest_len + (i + 1))) (drop (unat (i + 1)) cs)"
    using Suc.hyps(2) i by (intro Suc.hyps(1) Suc.prems(1,3) keep) simp_all
  also have "\<dots> = store_bytes m (dest + (dest_len + i)) (cs ! unat i # drop (Suc (unat i)) cs)"
    unfolding i using Suc.prems(2) [of "unat i"] lt by (simp add: word_less_unat add.assoc)
  also have "cs ! unat i # drop (Suc (unat i)) cs = drop (unat i) cs"
    using lt Suc.prems(1) by (intro Cons_nth_drop_Suc) (simp add: word_less_unat)
  finally show ?case .
qed


section \<open>Comparison and search\<close>

lemma u8_pos: "(x :: u8) \<noteq> 0 \<Longrightarrow> 0 < uint x"
  by (simp add: order_less_le word_uint_eq_iff)

lemma strcmp_eq:
  "cstr m p cs \<Longrightarrow> cstr m q ds \<Longrightarrow> \<exists>r. strcmp m p q = Some r \<and>
   (r < 0 \<longleftrightarrow> (cs, ds) \<in> lexord {(x, y). x < y}) \<and> (r = 0 \<longleftrightarrow> cs = ds)"
proof (induction cs arbitrary: p q ds)
  case Nil
  then show ?case
    using u8_pos [of "m q"] by (cases ds) (auto simp: strcmp.simps)
next
  case (Cons c cs)
  show ?case
  proof (cases "m q = c")
    case True
    then obtain es where "ds = c # es" "cstr m (q + 1) es"
      using Cons.prems by (cases ds) auto
    then show ?thesis
      using Cons.IH [of "p + 1" "q + 1" es] Cons.prems True by (subst strcmp.simps) simp
  next
    case False
    then show ?thesis
      using Cons.prems by (cases ds) (auto simp: strcmp.simps word_less_def word_uint_eq_iff)
  qed
qed

lemma strchr_eq:
  "cstr m p cs \<Longrightarrow> strchr m p c = Some (if c \<in> set cs then p + of_nat (length (takeWhile (\<lambda>x. x \<noteq> c) cs)) else 0)"
proof (induction cs arbitrary: p)
  case Nil
  then show ?case
    by (simp add: strchr.simps)
next
  case (Cons d cs)
  then show ?case
    by (subst strchr.simps) (auto simp: algebra_simps)
qed

lemma strchr_found:
  assumes "cstr m p cs" and "str_fits p cs"
  shows "\<exists>r. strchr m p c = Some r \<and> (r \<noteq> 0 \<longleftrightarrow> c \<in> set cs)"
proof -
  have "p + of_nat (length (takeWhile (\<lambda>x. x \<noteq> c) cs)) \<noteq> 0"
  proof -
    have "unat p + length (takeWhile (\<lambda>x. x \<noteq> c) cs) < 4294967296" "0 < unat p"
      using assms(2) length_takeWhile_le [of "\<lambda>x. x \<noteq> c" cs] by (simp_all add: str_fits_def)
    then have "unat (p + of_nat (length (takeWhile (\<lambda>x. x \<noteq> c) cs))) \<noteq> 0"
      by (simp add: unat_add_u32)
    then show ?thesis
      by (metis unat_0)
  qed
  then show ?thesis
    using strchr_eq [OF assms(1)] by simp
qed

end
