(* ===== verification/CString_Correct.thy ===== *)
theory CString_Correct
  imports CString
begin

text \<open>
  The string routines on the lists of characters the strings hold: concatenation, tokens, and
  the round trip from a number to its decimal text and back.
\<close>

section \<open>Concatenation\<close>

lemma store_bytes_below:
  assumes "k + length ys \<le> 4294967296"
  shows "bytes_at (store_bytes m (p + of_nat k) ys) p k = bytes_at m p k"
proof (rule nth_equalityI)
  fix i
  assume "i < length (bytes_at (store_bytes m (p + of_nat k) ys) p k)"
  then have i: "i < k"
    by simp
  have "\<not> in_range (p + of_nat i) (p + of_nat k) (length ys)"
  proof
    assume "in_range (p + of_nat i) (p + of_nat k) (length ys)"
    then obtain j where j: "j < length ys" "p + of_nat i = p + of_nat k + of_nat j"
      by (auto simp: in_range_ex)
    then have "(of_nat i :: u32) = of_nat (k + j)"
      by (simp add: add.assoc)
    then show False
      using of_nat_u32_inj [of i "k + j"] i j(1) assms by simp
  qed
  then show "bytes_at (store_bytes m (p + of_nat k) ys) p k ! i = bytes_at m p k ! i"
    using i by (simp add: store_bytes_other)
qed simp

lemma cstr_append:
  assumes "cstr m d xs" and "0 \<notin> set ys" and "length xs + length ys < 4294967295"
  shows "cstr (store_bytes m (d + of_nat (length xs)) (ys @ [0])) d (xs @ ys)"
proof -
  let ?m = "store_bytes m (d + of_nat (length xs)) (ys @ [0])"
  have ys: "cstr ?m (d + of_nat (length xs)) ys"
    using assms(2,3) by (intro cstr_store) simp_all
  have "bytes_at ?m d (length xs) = xs"
    using assms(1,3) store_bytes_below [of "length xs" "ys @ [0]" m d] by (simp add: cstr_iff)
  then show ?thesis
    using ys cstr_nonzero [OF assms(1)] by (simp add: cstr_iff bytes_at_add add.assoc)
qed

lemma strcat_eq:
  assumes "cstr m d xs" and "cstr m s ys" and "str_fits d (xs @ ys)" and "str_fits s ys"
    and dis: "disjoint_ranges d (length xs + length ys + 1) s (length ys + 1)"
  shows "strcat m d s = store_bytes m (d + of_nat (length xs)) (ys @ [0])"
proof -
  have len: "length xs + length ys < 4294967296" "length ys < 4294967296"
    using assms(3) by (simp_all add: str_fits_def)
  have "str_fits d xs"
    using assms(3) by (simp add: str_fits_def)
  then have sl: "strlen m d = of_nat (length xs)" "strlen m s = of_nat (length ys)"
    using strlen_eq assms by blast+
  have ne: "s + of_nat j \<noteq> d + (of_nat (length xs) + of_nat k)" if "j < length ys" "k < length ys" for j k
  proof
    assume eq: "s + of_nat j = d + (of_nat (length xs) + of_nat k)"
    have "in_range (s + of_nat j) s (length ys + 1)"
      using that(1) len by simp
    moreover have "in_range (d + of_nat (length xs + k)) d (length xs + length ys + 1)"
      using that(2) len by (subst in_range_offset) simp_all
    ultimately show False
      using dis eq by (auto simp: disjoint_ranges_def)
  qed
  have "strcat_loop m d s (of_nat (length xs)) (of_nat (length ys)) 0 =
      store_bytes m (d + (of_nat (length xs) + 0)) (drop (unat (0 :: u32)) ys)"
    using ne len assms(2) by (intro strcat_loop_eq) (simp_all add: cstr_bytes)
  then show ?thesis
    by (simp add: strcat_def sl store_bytes_append add.assoc Let_def)
qed


section \<open>Tokens\<close>

text \<open>\<open>ds\<close> are the delimiters; the scans stop where the list operations do.\<close>

lemma strtok_skip_eq:
  assumes "cstr m delim ds" and "str_fits delim ds"
  shows "cstr m p cs \<Longrightarrow> strtok_skip m delim p = Some (p + of_nat (length (takeWhile (\<lambda>c. c \<in> set ds) cs)))"
proof (induction cs arbitrary: p)
  case Nil
  then show ?case
    by (simp add: strtok_skip.simps)
next
  case (Cons c cs)
  obtain r where "strchr m delim c = Some r" "r \<noteq> 0 \<longleftrightarrow> c \<in> set ds"
    using strchr_found [OF assms] by blast
  then show ?case
    using Cons by (subst strtok_skip.simps) (auto simp: algebra_simps)
qed

lemma strtok_scan_eq:
  assumes "cstr m delim ds" and "str_fits delim ds"
  shows "cstr m p cs \<Longrightarrow> strtok_scan m delim p = Some (p + of_nat (length (takeWhile (\<lambda>c. c \<notin> set ds) cs)))"
proof (induction cs arbitrary: p)
  case Nil
  then show ?case
    by (simp add: strtok_scan.simps)
next
  case (Cons c cs)
  obtain r where "strchr m delim c = Some r" "r \<noteq> 0 \<longleftrightarrow> c \<in> set ds"
    using strchr_found [OF assms] by blast
  then show ?case
    using Cons by (subst strtok_scan.simps) (auto simp: algebra_simps)
qed

lemma cstr_drop: "cstr m p (xs @ ys) \<Longrightarrow> cstr m (p + of_nat (length xs)) ys"
  by (induction xs arbitrary: p) (auto simp: add.assoc [symmetric])

lemma cstr_cut:
  assumes "cstr m p (xs @ c # ys)" and "length xs + length ys < 4294967294"
  shows "cstr (m(p + of_nat (length xs) := 0)) p xs"
    and "cstr (m(p + of_nat (length xs) := 0)) (p + of_nat (length xs) + 1) ys"
proof -
  let ?q = "p + of_nat (length xs)"
  have off: "p + of_nat i \<noteq> ?q" if "i \<noteq> length xs" "i < 4294967296" for i
    using that assms(2) of_nat_u32_inj [of i "length xs"] by simp
  have "bytes_at (m(?q := 0)) p (length xs) = xs"
    using assms off by (intro nth_equalityI) (auto simp: cstr_bytes nth_append)
  moreover have "0 \<notin> set xs"
    using cstr_nonzero [OF assms(1)] by simp
  ultimately show "cstr (m(?q := 0)) p xs"
    by (simp add: cstr_iff)
  have ys: "cstr m (?q + 1) ys"
    using cstr_drop [OF assms(1)] by simp
  have "(m(?q := 0)) x = m x" if "in_range x (?q + 1) (length ys + 1)" for x
  proof -
    obtain i where i: "i < length ys + 1" "x = ?q + 1 + of_nat i"
      using \<open>in_range x (?q + 1) (length ys + 1)\<close> by (auto simp: in_range_ex)
    then have "x = p + of_nat (length xs + 1 + i)"
      by (simp add: add.assoc)
    then show ?thesis
      using off [of "length xs + 1 + i"] i(1) assms(2) by simp
  qed
  then show "cstr (m(?q := 0)) (?q + 1) ys"
    using ys assms(2) by (subst cstr_other [of _ _ _ m]) auto
qed


section \<open>Decimal numbers\<close>

fun dec :: "nat \<Rightarrow> u8 list" where
  "dec n = (if n < 10 then [of_nat (48 + n)] else dec (n div 10) @ [of_nat (48 + n mod 10)])"

declare dec.simps [simp del]

lemma dec_length_pos: "0 < length (dec n)"
  by (subst dec.simps) simp

lemma dec_length_le: "n < 10 ^ k \<Longrightarrow> 0 < k \<Longrightarrow> length (dec n) \<le> k"
proof (induction n arbitrary: k rule: dec.induct)
  case (1 n)
  show ?case
  proof (cases "n < 10")
    case True
    then show ?thesis
      using "1.prems" by (subst dec.simps) simp
  next
    case False
    define j where "j = k - 1"
    have "k \<noteq> 1"
      using "1.prems" False by auto
    then have j: "k = Suc j" "0 < j"
      using "1.prems" by (simp_all add: j_def)
    then have "n div 10 < 10 ^ j"
      using "1.prems" by (simp add: less_mult_imp_div_less mult.commute)
    then show ?thesis
      using "1.IH" [OF False] j False by (subst dec.simps) simp
  qed
qed

lemma smod_nat: "int m smod int n = int (m mod n)"
  by (simp add: signed_modulo_int_def zmod_int sgn_if abs_mult)

lemma itoa_digits_eq:
  "itoa_digits m str (int i) (int n) =
     (store_bytes m (str + of_nat i) (rev (dec n)), int i + int (length (dec n)))"
proof (induction n arbitrary: m i rule: dec.induct)
  case (1 n)
  have d: "int n sdiv 10 = int (n div 10)" "int n smod 10 = int (n mod 10)"
    using sdiv_nat [of n 10] smod_nat [of n 10] by simp_all
  have w: "(word_of_int (int (n mod 10) + 48) :: u8) = of_nat (48 + n mod 10)"
    by (metis add.commute of_nat_add of_nat_numeral of_int_of_nat_eq)
  let ?m = "m(str + of_nat i := of_nat (48 + n mod 10))"
  show ?case
  proof (cases "n < 10")
    case True
    then have "dec n = [of_nat (48 + n)]"
      by (subst dec.simps) simp
    then show ?thesis
      using w True by (subst itoa_digits.simps) (simp add: d Let_def add.commute)
  next
    case False
    then have "0 < int n sdiv 10"
      by (simp add: d div_greater_zero_iff)
    then have "itoa_digits m str (int i) (int n) = itoa_digits ?m str (int (Suc i)) (int (n div 10))"
      using w by (subst itoa_digits.simps) (simp add: d Let_def add.commute)
    also have "\<dots> = (store_bytes ?m (str + of_nat (Suc i)) (rev (dec (n div 10))), int (Suc i) + int (length (dec (n div 10))))"
      by (rule "1.IH" [OF False])
    also have "\<dots> = (store_bytes m (str + of_nat i) (rev (dec n)), int i + int (length (dec n)))"
      using False by (subst (3 4) dec.simps) (simp add: algebra_simps)
    finally show ?thesis .
  qed
qed

lemma itoa_reverse_eq:
  assumes "j < 4294967296"
  shows "itoa_reverse m str (int i) (int j) =
    (\<lambda>x. if i \<le> unat (x - str) \<and> unat (x - str) \<le> j then m (str + of_nat (i + j - unat (x - str))) else m x)"
  using assms
proof (induction "j - i" arbitrary: m i j rule: less_induct)
  case less
  show ?case
  proof (cases "i < j")
    case False
    have "i + j - unat (x - str) = unat (x - str)" if "i \<le> unat (x - str)" "unat (x - str) \<le> j" for x
      using that False by simp
    then show ?thesis
      using False by (subst itoa_reverse.simps) (auto simp: fun_eq_iff)
  next
    case True
    let ?m = "m(str + of_nat i := m (str + of_nat j), str + of_nat j := m (str + of_nat i))"
    have "itoa_reverse m str (int i) (int j) = itoa_reverse ?m str (int (Suc i)) (int (j - 1))"
      using True by (subst itoa_reverse.simps) (simp add: Let_def of_nat_diff add.commute)
    also have "\<dots> = (\<lambda>x. if Suc i \<le> unat (x - str) \<and> unat (x - str) \<le> j - 1
        then ?m (str + of_nat (Suc i + (j - 1) - unat (x - str))) else ?m x)"
      using True less.prems by (intro less.hyps) simp_all
    also have "\<dots> = (\<lambda>x. if i \<le> unat (x - str) \<and> unat (x - str) \<le> j
        then m (str + of_nat (i + j - unat (x - str))) else m x)"
    proof
      fix x
      define k where "k = unat (x - str)"
      have x: "x = str + of_nat k" and k: "k < 4294967296"
        by (simp_all add: k_def)
      have at: "str + of_nat a = str + of_nat b \<longleftrightarrow> a = b" if "a < 4294967296" "b < 4294967296" for a b
        using that of_nat_u32_inj by simp
      consider "k = i" | "k = j" | "i < k" "k < j" | "k < i \<or> j < k"
        by linarith
      then show "(if Suc i \<le> unat (x - str) \<and> unat (x - str) \<le> j - 1
          then ?m (str + of_nat (Suc i + (j - 1) - unat (x - str))) else ?m x) =
        (if i \<le> unat (x - str) \<and> unat (x - str) \<le> j then m (str + of_nat (i + j - unat (x - str))) else m x)"
      proof cases
        case 1
        have "?m x = m (str + of_nat j)"
          using at [of i j] True less.prems unfolding x 1 by simp
        then show ?thesis
          using True unfolding k_def [symmetric] 1 by simp
      next
        case 2
        have "?m x = m (str + of_nat i)"
          unfolding x 2 by simp
        moreover have "\<not> j \<le> j - 1" "i \<le> j" "i + j - j = i"
          using True by linarith+
        ultimately show ?thesis
          unfolding k_def [symmetric] 2 by simp
      next
        case 3
        have s: "Suc i + (j - 1) - k = i + j - k"
          using True by simp
        have "i + j - k \<noteq> i" "i + j - k \<noteq> j" "i + j - k < 4294967296"
          using 3 less.prems by linarith+
        then have "?m (str + of_nat (i + j - k)) = m (str + of_nat (i + j - k))"
          using at [of "i + j - k" i] at [of "i + j - k" j] True less.prems by simp
        moreover have "Suc i \<le> k" "k \<le> j - 1" "i \<le> k" "k \<le> j"
          using 3 by linarith+
        ultimately show ?thesis
          unfolding k_def [symmetric] s by (simp del: of_nat_diff)
      next
        case 4
        then have "?m x = m x"
          using at [of k i] at [of k j] k True less.prems unfolding x by auto
        then show ?thesis
          using 4 True unfolding k_def [symmetric] by auto
      qed
    qed
    finally show ?thesis .
  qed
qed

lemma bytes_at_reverse:
  assumes "0 < n" and "n < 4294967296"
  shows "bytes_at (itoa_reverse m str 0 (int n - 1)) str n = rev (bytes_at m str n)"
    and "itoa_reverse m str 0 (int n - 1) (str + of_nat n) = m (str + of_nat n)"
proof -
  have eq: "itoa_reverse m str 0 (int n - 1) =
    (\<lambda>x. if unat (x - str) \<le> n - 1 then m (str + of_nat (n - 1 - unat (x - str))) else m x)"
    using itoa_reverse_eq [of "n - 1" m str 0] assms by (simp add: of_nat_diff fun_eq_iff)
  show "bytes_at (itoa_reverse m str 0 (int n - 1)) str n = rev (bytes_at m str n)"
    using assms by (intro nth_equalityI) (auto simp: eq rev_nth)
  have "\<not> n \<le> n - 1"
    using assms(1) by linarith
  then show "itoa_reverse m str 0 (int n - 1) (str + of_nat n) = m (str + of_nat n)"
    using assms(2) by (simp add: eq)
qed

lemma isdigit_iff: "isdigit c \<longleftrightarrow> 48 \<le> unat c \<and> unat c \<le> 57"
  by (simp add: isdigit_def word_le_unat)

lemma dec_digits: "c \<in> set (dec n) \<Longrightarrow> isdigit c"
proof (induction n rule: dec.induct)
  case (1 n)
  have one: "isdigit (of_nat (48 + k))" if "k < 10" for k
    using that by (simp add: isdigit_iff unat_of_nat del: of_nat_add)
  show ?case
  proof (cases "n < 10")
    case True
    then have "dec n = [of_nat (48 + n)]"
      by (subst dec.simps) simp
    then show ?thesis
      using "1.prems" one [OF True] by simp
  next
    case False
    then have "dec n = dec (n div 10) @ [of_nat (48 + n mod 10)]"
      by (subst dec.simps) simp
    then show ?thesis
      using "1.prems" "1.IH" [OF False] one [of "n mod 10"] by auto
  qed
qed

text \<open>The text of an \<^verbatim>\<open>int\<close>.\<close>

definition int_text :: "int \<Rightarrow> u8 list" where
  "int_text k = (if k < 0 then [ch CHR ''-''] else []) @ dec (nat \<bar>k\<bar>)"

lemma sint_bounds: "- 2147483648 \<le> sint (n :: u32)" "sint (n :: u32) < 2147483648"
  using sint_greater_eq [of n] sint_less [of n] by simp_all

lemma sint_minus: "sint (n :: u32) \<noteq> - 2147483648 \<Longrightarrow> sint (- n) = - sint n"
proof -
  assume ne: "sint n \<noteq> - 2147483648"
  have "- n = word_of_int (- sint n)"
    by (simp add: wi_hom_neg)
  then have "sint (- n) = signed_take_bit 31 (- sint n)"
    by (simp only: sint_sbintrunc') simp
  also have "\<dots> = - sint n"
    using ne sint_bounds [of n] by (intro signed_take_bit_int_eq_self) simp_all
  finally show ?thesis .
qed

lemma store_snoc:
  assumes "length xs < 4294967295"
  shows "bytes_at (store_bytes m p (xs @ [c])) p (length xs) = xs"
    and "store_bytes m p (xs @ [c]) (p + of_nat (length xs)) = c"
  using bytes_at_store_bytes [of "xs @ [c]" m p] bytes_at_add [of "store_bytes m p (xs @ [c])" p "length xs" 1] assms
  by (simp_all add: bytes_at_Suc)

lemma itoa_text:
  assumes "sint n \<noteq> - 2147483648"
  shows "cstr (fst (itoa m n str)) str (int_text (sint n))" and "snd (itoa m n str) = str + of_nat (length (int_text (sint n)))"
proof -
  define k where "k = nat \<bar>sint n\<bar>"
  define neg where "neg = (sint n < 0)"
  define ds where "ds = rev (dec k) @ (if neg then [ch CHR ''-''] else [])"
  have n': "sint (if sint n < 0 then - n else n) = int k"
    using sint_minus [OF assms] by (simp add: k_def)
  have "k < 10 ^ 10"
    using sint_bounds [of n] by (simp add: k_def)
  then have len: "length ds \<le> 11" "0 < length ds"
    using dec_length_le [of k 10] dec_length_pos [of k] by (simp_all add: ds_def)
  have tx: "int_text (sint n) = rev ds"
    by (simp add: int_text_def k_def neg_def ds_def)
  define m3 where "m3 = store_bytes m str (ds @ [0])"
  have eq: "itoa m n str = (itoa_reverse m3 str 0 (int (length ds) - 1), str + of_nat (length ds))"
    using itoa_digits_eq [of m str 0 k] n'
    by (simp add: itoa_def Let_def neg_def m3_def ds_def store_bytes_append add.assoc)
  then show "snd (itoa m n str) = str + of_nat (length (int_text (sint n)))"
    by (simp add: tx)
  have nz: "0 \<notin> set (int_text (sint n))"
    using dec_digits [of _ k] isdigit_iff [of 0] by (auto simp: int_text_def k_def)
  have "bytes_at m3 str (length ds) = ds" "m3 (str + of_nat (length ds)) = 0"
    using store_snoc [of ds m str 0] len by (simp_all add: m3_def)
  then show "cstr (fst (itoa m n str)) str (int_text (sint n))"
    using bytes_at_reverse [of "length ds" m3 str] len nz unfolding eq cstr_iff tx by simp
qed

definition digit_step :: "u32 \<Rightarrow> u8 \<Rightarrow> u32" where
  "digit_step r c = r * 10 + (ucast c - ucast (ch CHR ''0''))"

lemma atoi_digits_eq:
  "cstr m p ds \<Longrightarrow> \<forall>c \<in> set ds. isdigit c \<Longrightarrow> atoi_digits m p r = Some (foldl digit_step r ds)"
proof (induction ds arbitrary: p r)
  case Nil
  then show ?case
    by (simp add: atoi_digits.simps isdigit_iff)
next
  case (Cons d ds)
  have "atoi_digits m p r = atoi_digits m (p + 1) (digit_step r d)"
    using Cons.prems by (subst atoi_digits.simps) (simp add: digit_step_def)
  then show ?case
    using Cons by simp
qed

lemma atoi_skip_stop: "m p \<notin> {32, 9, 10, 13, 11, 12} \<Longrightarrow> atoi_skip m p = Some p"
  by (subst atoi_skip.simps) simp

lemma digit_value: "k < 10 \<Longrightarrow> digit_step r (of_nat (48 + k)) = r * 10 + of_nat k"
proof -
  assume "k < 10"
  then have "(ucast (of_nat (48 + k) :: u8) :: u32) = of_nat (48 + k)"
    by (intro u32_eqI) (simp add: unsigned_ucast_eq unat_of_nat take_bit_eq_mod del: of_nat_add)
  then show ?thesis
    by (simp add: digit_step_def)
qed

lemma dec_value: "foldl digit_step 0 (dec n) = of_nat n"
proof (induction n rule: dec.induct)
  case (1 n)
  show ?case
  proof (cases "n < 10")
    case True
    then have "dec n = [of_nat (48 + n)]"
      by (subst dec.simps) simp
    then show ?thesis
      using digit_value [OF True, of 0] by (simp del: of_nat_add)
  next
    case False
    then have "dec n = dec (n div 10) @ [of_nat (48 + n mod 10)]"
      by (subst dec.simps) simp
    then have "foldl digit_step 0 (dec n) = of_nat (n div 10) * 10 + of_nat (n mod 10)"
      using "1.IH" [OF False] digit_value [of "n mod 10"] by (simp del: of_nat_add)
    also have "\<dots> = of_nat n"
      by (metis div_mult_mod_eq of_nat_add of_nat_mult of_nat_numeral)
    finally show ?thesis .
  qed
qed

lemma atoi_text:
  assumes "cstr m p (int_text k)"
  shows "atoi m p = Some (word_of_int k)"
proof -
  have val: "atoi_digits m q 0 = Some (of_nat n)" if "cstr m q (dec n)" for q n
    using atoi_digits_eq [OF that, of 0] dec_digits dec_value by auto
  have ws: "c \<notin> {32, 9, 10, 13, 11, 12} \<and> c \<noteq> 43 \<and> c \<noteq> 45" if "isdigit c" for c
    using that by (auto simp: isdigit_iff)
  show ?thesis
  proof (cases "k < 0")
    case True
    then have s: "m p = 45" "cstr m (p + 1) (dec (nat \<bar>k\<bar>))"
      using assms by (simp_all add: int_text_def)
    then have "atoi m p = Some (- of_nat (nat \<bar>k\<bar>))"
      using val [OF s(2)] atoi_skip_stop [of m p] by (simp add: atoi_def)
    moreover have "(of_nat (nat (- k)) :: u32) = - word_of_int k"
      using True by (subst of_nat_nat) simp_all
    ultimately show ?thesis
      using True by simp
  next
    case False
    then have s: "cstr m p (dec (nat k))"
      using assms by (simp add: int_text_def)
    obtain c cs where c: "dec (nat k) = c # cs"
      using dec_length_pos [of "nat k"] by (cases "dec (nat k)") auto
    then have "isdigit (m p)"
      using s dec_digits [of c "nat k"] by simp
    then have "atoi m p = atoi_digits m p 0"
      using ws [of "m p"] by (simp add: atoi_def atoi_skip_stop)
    also have "\<dots> = Some (of_nat (nat k))"
      by (rule val [OF s])
    finally show ?thesis
      using False by (simp add: of_nat_nat)
  qed
qed


section \<open>Properties\<close>

text \<open>A memory with the strings ``ab'', ``,'' and ``x,y'' at three places.\<close>

definition sample_strings :: mem where
  "sample_strings = store_bytes (store_bytes (store_bytes (\<lambda>_. 0) 0x100 [97, 98]) 0x200 [44]) 0x300 [120, 44, 121]"

lemma sample_strings_cstr:
  "cstr sample_strings 0x100 [97, 98]" "cstr sample_strings 0x200 [44]" "cstr sample_strings 0x300 [120, 44, 121]"
  by (simp_all add: sample_strings_def)

text \<open>
  C35: printing any \<^verbatim>\<open>int\<close> but the smallest one and reading it back gives the number again; the
  printed string is the usual decimal text, ended by a zero, and the returned pointer is its end.
\<close>
theorem atoi_itoa:
  assumes "sint n \<noteq> - 2147483648"
  shows "atoi (fst (itoa m n str)) str = Some n \<and> cstr (fst (itoa m n str)) str (int_text (sint n)) \<and>
    snd (itoa m n str) = str + of_nat (length (int_text (sint n)))"
  using itoa_text [OF assms, of m str] atoi_text [OF itoa_text(1) [OF assms, of m str]] by simp

theorem atoi_itoa_witness: "atoi (fst (itoa (\<lambda>_. 0) (- 120) 0x100)) 0x100 = Some (- 120)"
  using atoi_itoa [of "- 120" "\<lambda>_. 0" "0x100"] by simp

text \<open>
  The smallest \<^verbatim>\<open>int\<close> has no positive counterpart; \<open>itoa\<close> prints a minus sign and an
  opening parenthesis for it, which \<open>atoi\<close> reads as zero.
\<close>
theorem itoa_int_min:
  "bytes_at (fst (itoa (\<lambda>_. 0) 0x80000000 0x100)) 0x100 3 = [ch CHR ''-'', ch CHR ''('', 0] \<and>
   atoi (fst (itoa (\<lambda>_. 0) 0x80000000 0x100)) 0x100 = Some 0"
  by code_simp

text \<open>
  Copying a string to a place that does not overlap it ends, the destination then holds
  the string, the source still does, and no other byte changes.
\<close>
theorem strcpy_copies:
  assumes "cstr m s cs" and "disjoint_ranges d (length cs + 1) s (length cs + 1)" and "length cs < 4294967295"
  shows "\<exists>m'. strcpy m d s = Some m' \<and> cstr m' d cs \<and> cstr m' s cs \<and>
    (\<forall>x. in_range x d (length cs + 1) \<or> m' x = m x)"
proof -
  let ?m = "store_bytes m d (cs @ [0])"
  have out: "in_range x d (length cs + 1) \<or> ?m x = m x" for x
    using store_bytes_other [of x d "cs @ [0]" m] by auto
  then have "?m x = m x" if "in_range x s (length cs + 1)" for x
    using assms(2) that by (auto simp: disjoint_ranges_def)
  then have "cstr ?m s cs"
    using assms(1,3) by (subst cstr_other [of _ _ _ m]) auto
  then show ?thesis
    using strcpy_eq [of m s cs d] assms cstr_store [of cs m d] cstr_nonzero [OF assms(1)] out by auto
qed

theorem strcpy_copies_witness:
  "\<exists>m'. strcpy sample_strings 0x400 0x100 = Some m' \<and> cstr m' 0x400 [97, 98]"
proof -
  have "disjoint_ranges 0x400 (length [97 :: u8, 98] + 1) 0x100 (length [97 :: u8, 98] + 1)"
    by (rule disjoint_ranges_sym, rule far_disjoint) simp_all
  then show ?thesis
    using strcpy_copies [OF sample_strings_cstr(1), of "0x400"] by auto
qed

text \<open>
  With room behind the destination string, \<open>strcat\<close> leaves there the concatenation.
\<close>
theorem strcat_appends:
  assumes "cstr m d xs" and "cstr m s ys" and "str_fits d (xs @ ys)" and "str_fits s ys"
    and "disjoint_ranges d (length xs + length ys + 1) s (length ys + 1)"
  shows "cstr (strcat m d s) d (xs @ ys)"
  using strcat_eq [OF assms] cstr_append [OF assms(1) cstr_nonzero [OF assms(2)]] assms(3)
  by (simp add: str_fits_def)

theorem strcat_appends_witness: "cstr (strcat sample_strings 0x100 0x200) 0x100 [97, 98, 44]"
proof -
  have "disjoint_ranges 0x100 (length [97 :: u8, 98] + length [44 :: u8] + 1) 0x200 (length [44 :: u8] + 1)"
    by (rule far_disjoint) simp_all
  then show ?thesis
    using strcat_appends [OF sample_strings_cstr(1,2)] by (simp add: str_fits_def)
qed

text \<open>
  Comparing two strings ends with a negative, zero or positive number exactly
  when the first is lexicographically smaller than, equal to or greater than the second.
\<close>
theorem strcmp_lexicographic:
  assumes "cstr m p cs" and "cstr m q ds"
  shows "\<exists>r. strcmp m p q = Some r \<and> (r < 0 \<longleftrightarrow> (cs, ds) \<in> lexord {(x, y). x < y}) \<and> (r = 0 \<longleftrightarrow> cs = ds)"
  using assms by (rule strcmp_eq)

theorem strcmp_lexicographic_witness: "\<exists>r. strcmp sample_strings 0x100 0x300 = Some r \<and> r < 0"
  using strcmp_lexicographic [OF sample_strings_cstr(1,3)] by auto

text \<open>
  \<open>strtok\<close> skips delimiters and returns NULL when nothing else is left; otherwise it
  returns the longest prefix without delimiters as a string of its own and remembers where the
  rest begins, or NULL when the token was the last one.
\<close>
theorem strtok_splits:
  assumes "cstr m delim ds" and "str_fits delim ds" and "cstr m p cs" and "p \<noteq> 0" and "length cs < 4294967294"
  shows "let rest = dropWhile (\<lambda>c. c \<in> set ds) cs; tok = takeWhile (\<lambda>c. c \<notin> set ds) rest;
      q = p + of_nat (length cs - length rest) in
    if rest = [] then strtok m s p delim = Some (0, 0, m)
    else if tok = rest then strtok m s p delim = Some (q, 0, m) \<and> cstr m q tok
    else \<exists>m'. strtok m s p delim = Some (q, q + of_nat (length tok) + 1, m') \<and> cstr m' q tok \<and>
      cstr m' (q + of_nat (length tok) + 1) (drop (length tok + 1) rest)"
proof -
  define pre where "pre = takeWhile (\<lambda>c. c \<in> set ds) cs"
  define rest where "rest = dropWhile (\<lambda>c. c \<in> set ds) cs"
  define tok where "tok = takeWhile (\<lambda>c. c \<notin> set ds) rest"
  define q where "q = p + of_nat (length pre)"
  have cs: "cs = pre @ rest"
    by (simp add: pre_def rest_def)
  have rest: "cstr m q rest"
    using cstr_drop [of m p pre rest] assms(3) by (simp add: cs q_def)
  have skip: "strtok_skip m delim p = Some q"
    using strtok_skip_eq [OF assms(1,2,3)] by (simp add: pre_def q_def)
  have scan: "strtok_scan m delim q = Some (q + of_nat (length tok))"
    using strtok_scan_eq [OF assms(1,2) rest] by (simp add: tok_def)
  have "if rest = [] then strtok m s p delim = Some (0, 0, m)
    else if tok = rest then strtok m s p delim = Some (q, 0, m) \<and> cstr m q tok
    else \<exists>m'. strtok m s p delim = Some (q, q + of_nat (length tok) + 1, m') \<and> cstr m' q tok \<and>
      cstr m' (q + of_nat (length tok) + 1) (drop (length tok + 1) rest)"
  proof (cases "rest = [] \<or> tok = rest")
    case True
    then show ?thesis
      using rest skip scan assms(4) cstr_drop [of m q rest "[]"]
      by (cases rest) (auto simp: strtok_def)
  next
    case False
    have "rest = tok @ dropWhile (\<lambda>c. c \<notin> set ds) rest"
      by (simp add: tok_def)
    moreover from this obtain c ys where "dropWhile (\<lambda>c. c \<notin> set ds) rest = c # ys"
      using False by (metis append_Nil2 neq_Nil_conv)
    ultimately have ys: "rest = tok @ c # ys"
      by simp
    have len: "length tok + length ys < 4294967294"
      using assms(5) by (simp add: cs ys)
    have "m q \<noteq> 0" "m (q + of_nat (length tok)) \<noteq> 0"
      using False rest cstr_drop [of m q tok "c # ys"] by (cases rest; auto simp: ys)+
    then have "strtok m s p delim = Some (q, q + of_nat (length tok) + 1, m(q + of_nat (length tok) := 0))"
      using skip scan assms(4) by (simp add: strtok_def)
    then show ?thesis
      using False cstr_cut [of m q tok c ys] rest len by (simp add: ys)
  qed
  moreover have "p + of_nat (length cs - length rest) = q"
    by (simp add: cs q_def)
  ultimately show ?thesis
    unfolding Let_def rest_def [symmetric] tok_def [symmetric] by (simp only:)
qed

theorem strtok_splits_witness:
  "\<exists>m'. strtok sample_strings 0 0x300 0x200 = Some (0x300, 0x302, m') \<and> cstr m' 0x300 [120] \<and> cstr m' 0x302 [121]"
  using strtok_splits [OF sample_strings_cstr(2) _ sample_strings_cstr(3), of 0] by (simp add: str_fits_def)

end
