(* ===== verification/Circular_Buffer.thy ===== *)
theory Circular_Buffer
  imports Heap Array
begin

text \<open>
  \<^verbatim>\<open>kernel/src/utils/circular_buffer.c\<close>: a ring of equally sized elements.  The struct is a record,
  the ring itself lies in the flat memory.  The ring refines a bounded queue; the contract of
  such a queue is a locale, with the client that overwrites the oldest element when it is full.
\<close>

section \<open>The code\<close>

record circular_buffer =
  cb_buffer :: u32
  cb_head :: u32
  cb_tail :: u32
  cb_capacity :: u32
  cb_element_size :: u32
  cb_size :: u32

definition CB_STRUCT_SIZE :: u32 where
  "CB_STRUCT_SIZE = 24"

definition circular_buffer_full :: "circular_buffer \<Rightarrow> bool" where
  "circular_buffer_full cb \<longleftrightarrow> cb_size cb = cb_capacity cb"

definition circular_buffer_empty :: "circular_buffer \<Rightarrow> bool" where
  "circular_buffer_empty cb \<longleftrightarrow> cb_size cb = 0"

text \<open>C's remainder: the processor raises the divide error for a zero divisor.\<close>

definition umod :: "u32 \<Rightarrow> u32 \<Rightarrow> u32 kres" where
  "umod a b = (if b = 0 then Some (Inl DivideError) else kret (a mod b))"

definition circular_buffer_enqueue :: "circular_buffer \<Rightarrow> mem \<Rightarrow> u32 \<Rightarrow> (circular_buffer \<times> mem) kres" where
  "circular_buffer_enqueue cb m element =
     (if circular_buffer_full cb then kret (cb, m)
      else
        let offset = cb_tail cb * cb_element_size cb;
            bufstart = cb_buffer cb + offset;
            m' = (if element \<noteq> 0 then memcpy m bufstart element (cb_element_size cb) else m)
        in kbind (umod (1 + cb_tail cb) (cb_capacity cb)) (\<lambda>t.
             kret (cb\<lparr>cb_size := cb_size cb + 1, cb_tail := t\<rparr>, m')))"

definition circular_buffer_dequeue :: "circular_buffer \<Rightarrow> mem \<Rightarrow> u32 \<Rightarrow> (circular_buffer \<times> mem) kres" where
  "circular_buffer_dequeue cb m element =
     (if circular_buffer_empty cb then kret (cb, m)
      else
        let offset = cb_head cb * cb_element_size cb;
            bufstart = cb_buffer cb + offset;
            m' = (if element \<noteq> 0 then memcpy m element bufstart (cb_element_size cb) else m)
        in kbind (umod (cb_head cb + 1) (cb_capacity cb)) (\<lambda>t.
             kret (cb\<lparr>cb_size := cb_size cb - 1, cb_head := t\<rparr>, m')))"

definition circular_buffer_get :: "circular_buffer \<Rightarrow> u32 \<Rightarrow> u32 kres" where
  "circular_buffer_get cb index =
     kbind (umod (index + cb_head cb) (cb_capacity cb)) (\<lambda>offset_idx.
       kret (cb_buffer cb + offset_idx * cb_element_size cb))"

text \<open>
  Creation and destruction get the allocator and the deallocator as arguments, as in the code.
  The result of \<^verbatim>\<open>circular_buffer_init\<close> is the struct, if it could be set up.  A NULL struct is
  written to without a check.
\<close>

definition circular_buffer_init ::
  "kheap \<Rightarrow> u32 \<Rightarrow> u32 \<Rightarrow> u32 \<Rightarrow> (kheap \<Rightarrow> u32 \<Rightarrow> (u32 \<times> kheap) kres) \<Rightarrow>
   (circular_buffer option \<times> kheap) kres" where
  "circular_buffer_init h cb capacity element_size allocator =
     kbind (allocator h (capacity * element_size)) (\<lambda>(b, h1).
       if cb = 0 then kfault
       else if b = 0 then kret (None, h1)
       else kret (Some \<lparr>cb_buffer = b, cb_head = 0, cb_tail = 0, cb_capacity = capacity,
                        cb_element_size = element_size, cb_size = 0\<rparr>,
                  h1\<lparr>mem := memset (mem h1) b 0 (capacity * element_size)\<rparr>))"

definition circular_buffer_create ::
  "kheap \<Rightarrow> u32 \<Rightarrow> u32 \<Rightarrow> (kheap \<Rightarrow> u32 \<Rightarrow> (u32 \<times> kheap) kres) \<Rightarrow>
   (u32 \<times> circular_buffer option \<times> kheap) kres" where
  "circular_buffer_create h capacity element_size allocator =
     kbind (allocator h CB_STRUCT_SIZE) (\<lambda>(cb, h1).
       kbind (circular_buffer_init h1 cb capacity element_size allocator) (\<lambda>(c, h2).
         kret (if c = None then 0 else cb, c, h2)))"

definition circular_buffer_destroy ::
  "kheap \<Rightarrow> u32 \<Rightarrow> circular_buffer \<Rightarrow> (kheap \<Rightarrow> u32 \<Rightarrow> kheap kres) \<Rightarrow> kheap kres" where
  "circular_buffer_destroy h cb c deallocator =
     kbind (deallocator h (cb_buffer c)) (\<lambda>h1. deallocator h1 cb)"


section \<open>The ring as a list\<close>

definition slot :: "circular_buffer \<Rightarrow> nat \<Rightarrow> nat" where
  "slot cb i = (unat (cb_head cb) + i) mod unat (cb_capacity cb)"

definition slot_addr :: "circular_buffer \<Rightarrow> nat \<Rightarrow> u32" where
  "slot_addr cb k = elem_at (cb_buffer cb) (cb_element_size cb) k"

definition cb_inv :: "circular_buffer \<Rightarrow> bool" where
  "cb_inv cb \<longleftrightarrow>
     0 < unat (cb_capacity cb) \<and> unat (cb_capacity cb) < 2147483648 \<and>
     unat (cb_head cb) < unat (cb_capacity cb) \<and> unat (cb_size cb) \<le> unat (cb_capacity cb) \<and>
     unat (cb_tail cb) = slot cb (unat (cb_size cb)) \<and>
     array_fits (cb_buffer cb) (unat (cb_capacity cb)) (cb_element_size cb)"

definition cb_items :: "circular_buffer \<Rightarrow> mem \<Rightarrow> u8 list list" where
  "cb_items cb m =
     map (\<lambda>i. bytes_at m (slot_addr cb (slot cb i)) (unat (cb_element_size cb))) [0..<unat (cb_size cb)]"

lemma cb_items_length [simp]: "length (cb_items cb m) = unat (cb_size cb)"
  by (simp add: cb_items_def)

lemma cb_items_nth:
  "i < unat (cb_size cb) \<Longrightarrow> cb_items cb m ! i = bytes_at m (slot_addr cb (slot cb i)) (unat (cb_element_size cb))"
  by (simp add: cb_items_def)

lemma slot_less: "cb_inv cb \<Longrightarrow> slot cb i < unat (cb_capacity cb)"
  by (simp add: slot_def cb_inv_def)

lemma mod_inj_less: "i < c \<Longrightarrow> j < c \<Longrightarrow> (h + i) mod c = (h + j) mod c \<Longrightarrow> i = (j :: nat)"
proof (induction i j rule: linorder_wlog)
  case (le i j)
  then have "c dvd (h + j) - (h + i)"
    by (metis add_le_cancel_left mod_eq_dvd_iff_nat)
  then show ?case
    using le by (auto dest!: dvd_imp_le)
qed simp

lemma slot_inj: "cb_inv cb \<Longrightarrow> i < unat (cb_capacity cb) \<Longrightarrow> j < unat (cb_capacity cb) \<Longrightarrow>
    slot cb i = slot cb j \<longleftrightarrow> i = j"
  using mod_inj_less by (auto simp: slot_def)

lemma umod_ok: "0 < unat b \<Longrightarrow> umod a b = kret (of_nat (unat a mod unat b))"
  by (auto simp: umod_def word_unat_eq_iff unat_mod le_less_trans [OF mod_less_eq_dividend unat_lt_u32])

lemma slots_disjoint:
  assumes "cb_inv cb" and "j < unat (cb_capacity cb)" and "k < unat (cb_capacity cb)" and "j \<noteq> k"
  shows "disjoint_ranges (slot_addr cb j) (unat (cb_element_size cb)) (slot_addr cb k) (unat (cb_element_size cb))"
  using assms unfolding slot_addr_def cb_inv_def by (intro elem_disjoint) auto

lemma offset_slot: "a * cb_element_size cb + cb_buffer cb = slot_addr cb (unat a)"
  "cb_buffer cb + a * cb_element_size cb = slot_addr cb (unat a)"
  by (simp_all add: slot_addr_def elem_at_def)


section \<open>Operations on the list\<close>

text \<open>Writing to one slot changes that element only.\<close>

lemma cb_items_write:
  assumes inv: "cb_inv cb" and lt: "unat (cb_size cb) < unat (cb_capacity cb)"
    and frame: "\<And>k. k < unat (cb_capacity cb) \<Longrightarrow> k \<noteq> slot cb (unat (cb_size cb)) \<Longrightarrow>
      bytes_at m' (slot_addr cb k) (unat (cb_element_size cb)) = bytes_at m (slot_addr cb k) (unat (cb_element_size cb))"
  shows "cb_items cb m' = cb_items cb m"
proof (rule nth_equalityI)
  fix i
  assume "i < length (cb_items cb m')"
  then have "slot cb i < unat (cb_capacity cb)" "slot cb i \<noteq> slot cb (unat (cb_size cb))" "i < unat (cb_size cb)"
    using inv lt slot_less [OF inv] by (auto simp: slot_inj)
  then show "cb_items cb m' ! i = cb_items cb m ! i"
    by (simp add: cb_items_def frame)
qed simp

lemma circular_buffer_enqueue_items:
  assumes inv: "cb_inv cb" and nf: "\<not> circular_buffer_full cb"
    and src: "element = 0 \<or> disjoint_ranges (slot_addr cb (unat (cb_tail cb))) (unat (cb_element_size cb))
      element (unat (cb_element_size cb))"
  shows "\<exists>cb' m'. circular_buffer_enqueue cb m element = kret (cb', m') \<and> cb_inv cb' \<and>
    cb_items cb' m' = cb_items cb m @ [bytes_at m (if element = 0 then slot_addr cb (unat (cb_tail cb)) else element)
      (unat (cb_element_size cb))] \<and> cb_capacity cb' = cb_capacity cb \<and>
    cb_buffer cb' = cb_buffer cb \<and> cb_element_size cb' = cb_element_size cb \<and>
    (\<forall>x. \<not> in_range x (slot_addr cb (unat (cb_tail cb))) (unat (cb_element_size cb)) \<longrightarrow> m' x = m x)"
proof -
  let ?n = "unat (cb_size cb)" and ?c = "unat (cb_capacity cb)" and ?e = "unat (cb_element_size cb)"
  let ?t = "slot_addr cb (unat (cb_tail cb))"
  have lt: "?n < ?c" and c: "0 < ?c" "?c < 2147483648" and tl: "unat (cb_tail cb) = slot cb ?n"
    using inv nf by (auto simp: cb_inv_def circular_buffer_full_def word_unat_eq_iff)
  have t1: "unat (1 + cb_tail cb) = 1 + slot cb ?n"
    using slot_less [OF inv, of ?n] c by (simp add: unat_add_u32 tl)
  define cb' where "cb' = cb\<lparr>cb_size := cb_size cb + 1, cb_tail := of_nat (unat (1 + cb_tail cb) mod ?c)\<rparr>"
  define m' where "m' = (if element \<noteq> 0 then memcpy m ?t element (cb_element_size cb) else m)"
  have enq: "circular_buffer_enqueue cb m element = kret (cb', m')"
    using nf umod_ok [OF c(1), of "1 + cb_tail cb"]
    by (simp add: circular_buffer_enqueue_def Let_def offset_slot cb'_def m'_def)
  have sz: "unat (cb_size cb') = Suc ?n"
    using lt c by (simp add: cb'_def unat_add_u32)
  have slots: "slot cb' = slot cb" "slot_addr cb' = slot_addr cb"
    by (simp_all add: slot_def slot_addr_def cb'_def fun_eq_iff)
  have "unat (of_nat (unat (1 + cb_tail cb) mod ?c) :: u32) = slot cb (Suc ?n)"
    using c by (simp add: t1 slot_def mod_Suc_eq le_less_trans [OF mod_less_eq_dividend] unat_of_nat_u32
        order.strict_trans [OF mod_less_divisor])
  then have inv': "cb_inv cb'"
    using inv lt sz slots by (simp add: cb_inv_def cb'_def)
  have copy: "copy_ok ?t element ?e" if "element \<noteq> 0"
    using src that copy_ok_disjoint by blast
  have new: "bytes_at m' ?t ?e = bytes_at m (if element = 0 then ?t else element) ?e"
    using bytes_at_memcpy [OF copy, of m] by (simp add: m'_def)
  have out: "\<forall>x. \<not> in_range x ?t ?e \<longrightarrow> m' x = m x"
    by (simp add: m'_def memcpy_eq copy)
  have "bytes_at m' (slot_addr cb k) ?e = bytes_at m (slot_addr cb k) ?e" if "k < ?c" "k \<noteq> slot cb ?n" for k
    using bytes_at_memcpy_other [OF copy, of "slot_addr cb k" ?e m] slots_disjoint [OF inv slot_less [OF inv] that(1), of ?n]
      that unat_lt_u32 [of "cb_element_size cb"] by (simp add: m'_def tl less_imp_le)
  then have "cb_items cb m' = cb_items cb m"
    by (intro cb_items_write [OF inv lt])
  moreover have "cb_items cb' m' = cb_items cb m' @ [bytes_at m' ?t ?e]"
    unfolding cb_items_def sz slots by (simp add: tl cb'_def)
  ultimately show ?thesis
    using enq inv' new out by (simp add: cb'_def)
qed

lemma slot_Suc: "cb_inv cb \<Longrightarrow> slot (cb\<lparr>cb_head := of_nat (Suc (unat (cb_head cb)) mod unat (cb_capacity cb)), cb_size := z\<rparr>) i
    = slot cb (Suc i)"
proof -
  assume "cb_inv cb"
  then have c: "0 < unat (cb_capacity cb)" "unat (cb_capacity cb) < 2147483648"
    by (simp_all add: cb_inv_def)
  have "Suc (unat (cb_head cb)) mod unat (cb_capacity cb) < 4294967296"
    using mod_less_divisor [OF c(1), of "Suc (unat (cb_head cb))"] c(2) by linarith
  then show ?thesis
    by (simp add: slot_def mod_add_left_eq)
qed

lemma circular_buffer_dequeue_items:
  assumes inv: "cb_inv cb" and items: "cb_items cb m = x # xs"
    and dst: "element = 0 \<or> (\<forall>k < unat (cb_capacity cb).
      disjoint_ranges element (unat (cb_element_size cb)) (slot_addr cb k) (unat (cb_element_size cb)))"
  shows "\<exists>cb' m'. circular_buffer_dequeue cb m element = kret (cb', m') \<and> cb_inv cb' \<and> cb_items cb' m' = xs \<and>
    (element = 0 \<or> bytes_at m' element (unat (cb_element_size cb)) = x) \<and> cb_capacity cb' = cb_capacity cb \<and>
    cb_buffer cb' = cb_buffer cb \<and> cb_element_size cb' = cb_element_size cb \<and>
    (element = 0 \<longrightarrow> m' = m)"
proof -
  let ?n = "unat (cb_size cb)" and ?c = "unat (cb_capacity cb)" and ?e = "unat (cb_element_size cb)"
  have n: "?n = Suc (length xs)"
    using arg_cong [OF items, of length] by simp
  have c: "0 < ?c" "?c < 2147483648" "?n \<le> ?c" "unat (cb_head cb) < ?c"
    using inv by (simp_all add: cb_inv_def)
  have h1: "unat (cb_head cb + 1) = Suc (unat (cb_head cb))"
    using c by (simp add: unat_add_u32)
  define cb' where "cb' = cb\<lparr>cb_head := of_nat (Suc (unat (cb_head cb)) mod ?c), cb_size := cb_size cb - 1\<rparr>"
  define m' where "m' = (if element \<noteq> 0 then memcpy m element (slot_addr cb (unat (cb_head cb))) (cb_element_size cb) else m)"
  have "\<not> circular_buffer_empty cb"
    using n by (auto simp: circular_buffer_empty_def)
  then have deq: "circular_buffer_dequeue cb m element = kret (cb', m')"
    using umod_ok [OF c(1), of "cb_head cb + 1"]
    by (simp add: circular_buffer_dequeue_def Let_def offset_slot cb'_def m'_def h1)
  have "cb_size cb \<noteq> 0"
    using n by auto
  then have sz: "unat (cb_size cb') = length xs"
    using n by (simp add: cb'_def unat_minus_one)
  have slots: "slot cb' i = slot cb (Suc i)" "slot_addr cb' = slot_addr cb" for i
    using slot_Suc [OF inv] by (simp_all add: cb'_def slot_addr_def fun_eq_iff)
  have "Suc (unat (cb_head cb)) mod ?c < ?c"
    using c(1) by simp
  then have "unat (of_nat (Suc (unat (cb_head cb)) mod ?c) :: u32) < ?c"
    using c(2) by simp
  then have inv': "cb_inv cb'"
    using inv sz slots(1) [of "length xs"] n by (simp add: cb_inv_def cb'_def)
  have hd0: "slot cb 0 = unat (cb_head cb)"
    using c(4) by (simp add: slot_def)
  have copy: "copy_ok element (slot_addr cb (unat (cb_head cb))) ?e" if "element \<noteq> 0"
    using dst that c(4) copy_ok_disjoint by blast
  have same: "bytes_at m' (slot_addr cb k) ?e = bytes_at m (slot_addr cb k) ?e" if "k < ?c" for k
    using bytes_at_memcpy_other [OF copy, of "slot_addr cb k" ?e m] dst that
      unat_lt_u32 [of "cb_element_size cb"] by (auto simp: m'_def less_imp_le)
  have x: "x = bytes_at m (slot_addr cb (unat (cb_head cb))) ?e"
    using cb_items_nth [of 0 cb m] n by (simp add: items hd0)
  have nth: "xs ! i = bytes_at m (slot_addr cb (slot cb (Suc i))) ?e" if "i < length xs" for i
    using cb_items_nth [of "Suc i" cb m] that n by (simp add: items)
  have "cb_items cb' m' = xs"
  proof (rule nth_equalityI)
    show "length (cb_items cb' m') = length xs"
      by (simp add: sz)
    fix i
    assume "i < length (cb_items cb' m')"
    then show "cb_items cb' m' ! i = xs ! i"
      using nth [of i] same [OF slot_less [OF inv], of "Suc i"] sz slots by (simp add: cb_items_def cb'_def)
  qed
  moreover have "element = 0 \<or> bytes_at m' element ?e = x"
    using bytes_at_memcpy [OF copy, of m] by (auto simp: m'_def x)
  ultimately show ?thesis
    using deq inv' by (simp add: cb'_def m'_def)
qed

lemma circular_buffer_get_items:
  assumes inv: "cb_inv cb" and i: "i < unat (cb_size cb)"
  shows "\<exists>a. circular_buffer_get cb (of_nat i) = kret a \<and>
    bytes_at m a (unat (cb_element_size cb)) = cb_items cb m ! i"
proof -
  have c: "0 < unat (cb_capacity cb)" "unat (cb_capacity cb) < 2147483648" "i < unat (cb_capacity cb)"
    "unat (cb_head cb) < unat (cb_capacity cb)"
    using inv i by (simp_all add: cb_inv_def)
  have "unat (of_nat i + cb_head cb) = unat (cb_head cb) + i"
    using c by (simp add: unat_add_u32)
  moreover have "unat (of_nat (slot cb i) :: u32) = slot cb i"
    using slot_less [OF inv, of i] c(2) by simp
  ultimately show ?thesis
    using umod_ok [OF c(1), of "of_nat i + cb_head cb"] i
    by (simp add: circular_buffer_get_def offset_slot cb_items_def slot_def)
qed


section \<open>The contract of a bounded queue\<close>

text \<open>
  \<open>put\<close> appends the element a pointer refers to, \<open>drop\<close> discards the oldest one.  The client
  \<open>push\<close> makes room first: it keeps the latest elements.
\<close>

locale bounded_queue =
  fixes inv :: "'s \<Rightarrow> bool" and items :: "'s \<Rightarrow> 'a list" and cap :: "'s \<Rightarrow> nat" and full :: "'s \<Rightarrow> bool"
    and ok :: "'s \<Rightarrow> u32 \<Rightarrow> bool" and val :: "'s \<Rightarrow> u32 \<Rightarrow> 'a"
    and put :: "'s \<Rightarrow> u32 \<Rightarrow> 's kres" and drop_oldest :: "'s \<Rightarrow> 's kres"
  assumes bound: "inv s \<Longrightarrow> length (items s) \<le> cap s \<and> 0 < cap s"
    and full_iff: "inv s \<Longrightarrow> full s \<longleftrightarrow> length (items s) = cap s"
    and put_law: "inv s \<Longrightarrow> ok s e \<Longrightarrow> \<not> full s \<Longrightarrow>
      \<exists>s'. put s e = kret s' \<and> inv s' \<and> cap s' = cap s \<and> items s' = items s @ [val s e]"
    and drop_law: "inv s \<Longrightarrow> items s \<noteq> [] \<Longrightarrow>
      \<exists>s'. drop_oldest s = kret s' \<and> inv s' \<and> cap s' = cap s \<and> items s' = tl (items s) \<and>
        (\<forall>e. ok s e \<longrightarrow> ok s' e \<and> val s' e = val s e)"
begin

definition push :: "'s \<Rightarrow> u32 \<Rightarrow> 's kres" where
  "push s e = (if full s then kbind (drop_oldest s) (\<lambda>s1. put s1 e) else put s e)"

lemma push_keeps_latest:
  assumes "inv s" and "ok s e"
  shows "\<exists>s'. push s e = kret s' \<and> inv s' \<and> cap s' = cap s \<and>
    items s' = drop (length (items s) + 1 - cap s) (items s @ [val s e])"
proof (cases "full s")
  case False
  then have "length (items s) < cap s"
    using full_iff [OF assms(1)] bound [OF assms(1)] by simp
  then show ?thesis
    using put_law [OF assms False] False by (auto simp: push_def)
next
  case True
  then have len: "length (items s) = cap s" "items s \<noteq> []"
    using full_iff [OF assms(1)] bound [OF assms(1)] by auto
  then obtain s1 where s1: "drop_oldest s = kret s1" "inv s1" "cap s1 = cap s" "items s1 = tl (items s)"
      "ok s1 e" "val s1 e = val s e"
    using drop_law [OF assms(1) len(2)] assms(2) by blast
  have "\<not> full s1"
    using full_iff [OF s1(2)] s1(3,4) len bound [OF assms(1)] by auto
  then show ?thesis
    using put_law [OF s1(2,5)] s1 True len bound [OF assms(1)] by (auto simp: push_def drop_Suc)
qed

end

definition ring_ok :: "circular_buffer \<times> mem \<Rightarrow> u32 \<Rightarrow> bool" where
  "ring_ok s e \<longleftrightarrow>
     e \<noteq> 0 \<and> (\<forall>k < unat (cb_capacity (fst s)). disjoint_ranges (slot_addr (fst s) k)
       (unat (cb_element_size (fst s))) e (unat (cb_element_size (fst s))))"

definition ring_val :: "circular_buffer \<times> mem \<Rightarrow> u32 \<Rightarrow> u8 list" where
  "ring_val s e = bytes_at (snd s) e (unat (cb_element_size (fst s)))"

definition ring_put :: "circular_buffer \<times> mem \<Rightarrow> u32 \<Rightarrow> (circular_buffer \<times> mem) kres" where
  "ring_put s e = circular_buffer_enqueue (fst s) (snd s) e"

definition ring_drop :: "circular_buffer \<times> mem \<Rightarrow> (circular_buffer \<times> mem) kres" where
  "ring_drop s = circular_buffer_dequeue (fst s) (snd s) 0"

interpretation ring: bounded_queue "\<lambda>s. cb_inv (fst s)" "\<lambda>s. cb_items (fst s) (snd s)"
  "\<lambda>s. unat (cb_capacity (fst s))" "\<lambda>s. circular_buffer_full (fst s)" ring_ok ring_val ring_put ring_drop
proof
  fix s :: "circular_buffer \<times> mem" and e
  assume inv: "cb_inv (fst s)"
  then show "length (cb_items (fst s) (snd s)) \<le> unat (cb_capacity (fst s)) \<and> 0 < unat (cb_capacity (fst s))"
    by (simp add: cb_inv_def)
  show "circular_buffer_full (fst s) \<longleftrightarrow> length (cb_items (fst s) (snd s)) = unat (cb_capacity (fst s))"
    by (simp add: circular_buffer_full_def word_unat_eq_iff)
  show "\<exists>s'. ring_put s e = kret s' \<and> cb_inv (fst s') \<and> unat (cb_capacity (fst s')) = unat (cb_capacity (fst s)) \<and>
      cb_items (fst s') (snd s') = cb_items (fst s) (snd s) @ [ring_val s e]"
    if "ring_ok s e" "\<not> circular_buffer_full (fst s)"
  proof -
    have "unat (cb_tail (fst s)) < unat (cb_capacity (fst s))"
      using inv slot_less by (simp add: cb_inv_def)
    then have "disjoint_ranges (slot_addr (fst s) (unat (cb_tail (fst s)))) (unat (cb_element_size (fst s)))
        e (unat (cb_element_size (fst s)))"
      using that(1) by (simp add: ring_ok_def)
    then show ?thesis
      using circular_buffer_enqueue_items [OF inv that(2), of e "snd s"] that(1)
      by (auto simp: ring_put_def ring_val_def ring_ok_def)
  qed
  show "\<exists>s'. ring_drop s = kret s' \<and> cb_inv (fst s') \<and> unat (cb_capacity (fst s')) = unat (cb_capacity (fst s)) \<and>
      cb_items (fst s') (snd s') = tl (cb_items (fst s) (snd s)) \<and>
      (\<forall>e. ring_ok s e \<longrightarrow> ring_ok s' e \<and> ring_val s' e = ring_val s e)"
    if ne: "cb_items (fst s) (snd s) \<noteq> []"
  proof -
    obtain x xs where x: "cb_items (fst s) (snd s) = x # xs"
      using ne by (cases "cb_items (fst s) (snd s)") auto
    obtain cb' where cb': "circular_buffer_dequeue (fst s) (snd s) 0 = kret (cb', snd s)" "cb_inv cb'"
      "cb_items cb' (snd s) = xs" "cb_capacity cb' = cb_capacity (fst s)" "cb_buffer cb' = cb_buffer (fst s)"
      "cb_element_size cb' = cb_element_size (fst s)"
      using circular_buffer_dequeue_items [OF inv x, of 0] by auto
    then have "slot_addr cb' = slot_addr (fst s)"
      by (simp add: slot_addr_def fun_eq_iff)
    then show ?thesis
      using cb' x by (intro exI [of _ "(cb', snd s)"]) (simp add: ring_drop_def ring_ok_def ring_val_def)
  qed
qed


section \<open>Properties\<close>

text \<open>A ring of two words with one of them filled.\<close>

definition sample_ring :: circular_buffer where
  "sample_ring = \<lparr>cb_buffer = 0x1000, cb_head = 1, cb_tail = 0, cb_capacity = 2, cb_element_size = 4, cb_size = 1\<rparr>"

lemma sample_ring_inv: "cb_inv sample_ring" "\<not> circular_buffer_full sample_ring"
  by (simp_all add: cb_inv_def sample_ring_def slot_def array_fits_def circular_buffer_full_def)

lemma sample_ring_slots: "slot_addr sample_ring k = 0x1000 + of_nat k * 4"
  by (simp add: slot_addr_def elem_at_def sample_ring_def)

text \<open>
  C22: enqueueing into a ring that is not full appends the element the pointer
  refers to behind those already there and keeps the ring well formed; on a full ring it does
  nothing.
\<close>
theorem circular_enqueue_appends:
  assumes "cb_inv cb" and "element \<noteq> 0"
    and "disjoint_ranges (slot_addr cb (unat (cb_tail cb))) (unat (cb_element_size cb)) element (unat (cb_element_size cb))"
  shows "\<exists>cb' m'. circular_buffer_enqueue cb m element = kret (cb', m') \<and> cb_inv cb' \<and>
    cb_items cb' m' = (if length (cb_items cb m) = unat (cb_capacity cb) then cb_items cb m
      else cb_items cb m @ [bytes_at m element (unat (cb_element_size cb))])"
proof (cases "circular_buffer_full cb")
  case True
  then show ?thesis
    using assms(1) by (simp add: circular_buffer_enqueue_def circular_buffer_full_def)
next
  case False
  then have "unat (cb_size cb) \<noteq> unat (cb_capacity cb)"
    by (simp add: circular_buffer_full_def word_unat_eq_iff)
  then show ?thesis
    using circular_buffer_enqueue_items [OF assms(1) False, of element m] assms(2,3) by auto
qed

theorem circular_enqueue_appends_witness:
  "\<exists>cb' m'. circular_buffer_enqueue sample_ring (\<lambda>_. 7) 0x2000 = kret (cb', m') \<and> cb_inv cb' \<and>
     cb_items cb' m' = [[7, 7, 7, 7], [7, 7, 7, 7]]"
proof -
  have "disjoint_ranges (slot_addr sample_ring (unat (cb_tail sample_ring))) (unat (cb_element_size sample_ring))
      0x2000 (unat (cb_element_size sample_ring))"
    by (rule far_disjoint) (simp_all add: sample_ring_slots, simp_all add: sample_ring_def)
  from circular_enqueue_appends [OF sample_ring_inv(1) _ this, of "\<lambda>_. 7"] show ?thesis
    by (simp add: cb_items_def sample_ring_def bytes_at_def upt_rec)
qed

text \<open>
  Dequeueing from a ring with elements copies the oldest one to the given
  place and removes it; from an empty ring it does nothing.
\<close>
theorem circular_dequeue_removes:
  assumes "cb_inv cb"
    and "element = 0 \<or> (\<forall>k < unat (cb_capacity cb).
      disjoint_ranges element (unat (cb_element_size cb)) (slot_addr cb k) (unat (cb_element_size cb)))"
  shows "\<exists>cb' m'. circular_buffer_dequeue cb m element = kret (cb', m') \<and> cb_inv cb' \<and>
    cb_items cb' m' = tl (cb_items cb m) \<and>
    (cb_items cb m = [] \<or> element = 0 \<or> bytes_at m' element (unat (cb_element_size cb)) = hd (cb_items cb m))"
proof (cases "cb_items cb m")
  case Nil
  then have "circular_buffer_empty cb"
    by (simp add: cb_items_def circular_buffer_empty_def unat_eq_zero)
  then show ?thesis
    using assms(1) Nil by (simp add: circular_buffer_dequeue_def)
next
  case (Cons x xs)
  then show ?thesis
    using circular_buffer_dequeue_items [OF assms(1) Cons assms(2)] by auto
qed

theorem circular_dequeue_removes_witness:
  "\<exists>cb' m'. circular_buffer_dequeue sample_ring (\<lambda>_. 7) 0 = kret (cb', m') \<and> cb_inv cb' \<and> cb_items cb' m' = []"
  using circular_dequeue_removes [OF sample_ring_inv(1), of 0 "\<lambda>_. 7"]
  by (simp add: cb_items_def sample_ring_def)

text \<open>
  The address returned for index \<open>i\<close> holds the \<open>i\<close>-th oldest element.
\<close>
theorem circular_get_nth:
  assumes "cb_inv cb" and "i < length (cb_items cb m)"
  shows "\<exists>a. circular_buffer_get cb (of_nat i) = kret a \<and>
    bytes_at m a (unat (cb_element_size cb)) = cb_items cb m ! i"
  using circular_buffer_get_items [OF assms(1), of i m] assms(2) by simp

theorem circular_get_nth_witness:
  "\<exists>a. circular_buffer_get sample_ring 0 = kret a \<and> bytes_at (\<lambda>_. 7) a 4 = cb_items sample_ring (\<lambda>_. 7) ! 0"
proof -
  have "0 < length (cb_items sample_ring (\<lambda>_. 7))" "unat (cb_element_size sample_ring) = 4"
    by (simp_all add: sample_ring_def)
  then show ?thesis
    using circular_get_nth [OF sample_ring_inv(1), of 0 "\<lambda>_. 7"] by simp
qed

end
