(* ===== verification/Message.thy ===== *)
theory Message
  imports CString_Correct Circular_Buffer
begin

text \<open>
  \<^verbatim>\<open>kernel/src/system/message.c\<close>: the log of the kernel, a ring of 128 entries.  An entry is a level
  and a text of 128 bytes.  The local variable \<^verbatim>\<open>log\<close> is in memory like everything else; its
  address on the stack is an argument.
\<close>

definition MSG_BUFFER_SIZE :: u32 where
  "MSG_BUFFER_SIZE = 128"

definition MSG_LOG_SIZE :: u32 where
  "MSG_LOG_SIZE = 128"

definition LOG_STRUCT_SIZE :: u32 where
  "LOG_STRUCT_SIZE = 132"

definition kmessage_init :: "kheap \<Rightarrow> (u32 \<times> circular_buffer option \<times> kheap) kres" where
  "kmessage_init h =
     kbind (circular_buffer_create h MSG_BUFFER_SIZE LOG_STRUCT_SIZE kmalloc) (\<lambda>(p, c, h').
       if p = 0 then kpanic ''Memory allocation failed.'' else kret (p, c, h'))"

text \<open>Lines 16 to 26: the entry is put together in the local variable.\<close>

definition kmessage_entry :: "mem \<Rightarrow> u32 \<Rightarrow> u32 \<Rightarrow> u32 \<Rightarrow> mem" where
  "kmessage_entry m log_ptr level message =
     (let m1 = memset m log_ptr 0 LOG_STRUCT_SIZE;
          m2 = store32 m1 log_ptr level;
          len = strlen m2 message;
          msg_len = (if MSG_LOG_SIZE \<le> len then MSG_LOG_SIZE - 1 else len);
          m3 = memcpy m2 (log_ptr + 4) message msg_len
      in m3(log_ptr + 4 + msg_len := 0))"

definition kmessage :: "circular_buffer \<Rightarrow> mem \<Rightarrow> u32 \<Rightarrow> u32 \<Rightarrow> u32 \<Rightarrow> (circular_buffer \<times> mem) kres" where
  "kmessage cb m log_ptr level message =
     (let m' = kmessage_entry m log_ptr level message
      in kbind (if circular_buffer_full cb then circular_buffer_dequeue cb m' 0 else kret (cb, m')) (\<lambda>(cb1, m1).
           circular_buffer_enqueue cb1 m1 log_ptr))"

definition kmessage_get_log :: "circular_buffer \<Rightarrow> circular_buffer" where
  "kmessage_get_log cb = cb"


text \<open>
  How other components see the log: the ring, the memory it is in, the address of the local variable
  and where the linker put the literals that are logged.
\<close>

definition KMESSAGE_LEVEL_PANIC :: u32 where
  "KMESSAGE_LEVEL_PANIC = 0"

definition KMESSAGE_LEVEL_INFO :: u32 where
  "KMESSAGE_LEVEL_INFO = 1"

definition KMESSAGE_LEVEL_WARN :: u32 where
  "KMESSAGE_LEVEL_WARN = 2"

definition KMESSAGE_LEVEL_ERROR :: u32 where
  "KMESSAGE_LEVEL_ERROR = 3"

record klog =
  kl_ring :: circular_buffer
  kl_mem :: mem
  kl_frame :: u32
  kl_literal :: "string \<Rightarrow> u32"

definition klog_literal :: "klog \<Rightarrow> u32 \<Rightarrow> string \<Rightarrow> klog kres" where
  "klog_literal k level msg =
     kbind (kmessage (kl_ring k) (kl_mem k) (kl_frame k) level (kl_literal k msg)) (\<lambda>(cb, m).
       kret (k\<lparr>kl_ring := cb, kl_mem := m\<rparr>))"


section \<open>The entry\<close>

definition entry_bytes :: "u32 \<Rightarrow> u8 list \<Rightarrow> u8 list" where
  "entry_bytes level cs =
     [ucast level, ucast (drop_bit 8 level), ucast (drop_bit 16 level), ucast (drop_bit 24 level)] @
     take 127 cs @ replicate (128 - length (take 127 cs)) 0"

lemma store32_store_bytes:
  "store32 m a v = store_bytes m a [ucast v, ucast (drop_bit 8 v), ucast (drop_bit 16 v), ucast (drop_bit 24 v)]"
  by (simp add: store32_def add.assoc)

lemma in_range_sub: "i + n \<le> k \<Longrightarrow> k \<le> 4294967296 \<Longrightarrow> in_range x (p + of_nat i) n \<Longrightarrow> in_range x p k"
proof -
  assume lim: "i + n \<le> k" "k \<le> 4294967296" and "in_range x (p + of_nat i) n"
  then obtain j where "j < n" "x = p + of_nat (i + j)"
    by (auto simp: in_range_ex add.assoc)
  then show ?thesis
    using lim by (simp del: of_nat_add)
qed

lemma kmessage_entry_bytes:
  assumes msg: "cstr m message cs" "str_fits message cs"
    and dis: "disjoint_ranges log_ptr 132 message (length cs + 1)"
  shows "bytes_at (kmessage_entry m log_ptr level message) log_ptr 132 = entry_bytes level cs"
    and "\<not> in_range x log_ptr 132 \<Longrightarrow> kmessage_entry m log_ptr level message x = m x"
proof -
  define n where "n = length (take 127 cs)"
  have n: "n \<le> 127" "n = min 127 (length cs)" "length cs < 4294967296"
    using msg(2) by (simp_all add: n_def str_fits_def)
  define m1 where "m1 = memset m log_ptr 0 132"
  define m2 where "m2 = store32 m1 log_ptr level"
  have m1: "\<not> in_range x log_ptr 132 \<Longrightarrow> m1 x = m x" "in_range x log_ptr 132 \<Longrightarrow> m1 x = 0" for x
    by (simp_all add: m1_def memset_eq)
  define hdr :: "u8 list" where
    "hdr = [ucast level, ucast (drop_bit 8 level), ucast (drop_bit 16 level), ucast (drop_bit 24 level)]"
  have hdr: "length hdr = 4" "m2 = store_bytes m1 log_ptr hdr"
    by (simp_all add: hdr_def m2_def store32_store_bytes)
  have m2_low: "\<not> in_range x log_ptr 4 \<Longrightarrow> m2 x = m1 x" for x
    using store_bytes_other [of x log_ptr hdr m1] by (simp add: hdr)
  have sub: "in_range x log_ptr 4 \<Longrightarrow> in_range x log_ptr 132" for x
    by (simp add: in_range_def)
  have m2: "\<not> in_range x log_ptr 132 \<Longrightarrow> m2 x = m x" for x
    using m2_low m1 sub by metis
  have "m2 x = m x" if "in_range x message (length cs + 1)" for x
    using dis that m2 by (auto simp: disjoint_ranges_def)
  moreover have "length cs < 4294967295"
    using msg(2) by (auto simp: str_fits_def)
  ultimately have "cstr m2 message cs"
    using msg(1) by (subst cstr_other [of _ _ _ m]) auto
  then have str: "cstr m2 message cs" "strlen m2 message = of_nat (length cs)"
    using strlen_eq msg(2) by blast+
  have len: "(if MSG_LOG_SIZE \<le> of_nat (length cs) then MSG_LOG_SIZE - 1 else of_nat (length cs)) = (of_nat n :: u32)"
    using n by (auto simp: MSG_LOG_SIZE_def word_le_unat)
  have un: "unat (of_nat n :: u32) = n"
    using n by simp
  have "disjoint_ranges (log_ptr + 4) n message n"
    unfolding disjoint_ranges_def
  proof (intro allI notI; elim conjE)
    fix x
    assume "in_range x (log_ptr + 4) n" "in_range x message n"
    moreover have "n \<le> length cs + 1"
      using n by simp
    ultimately have "in_range x log_ptr 132" "in_range x message (length cs + 1)"
      using in_range_sub [of 4 n 132 x log_ptr] n by (auto simp: in_range_def)
    then show False
      using dis by (auto simp: disjoint_ranges_def)
  qed
  then have cp: "copy_ok (log_ptr + 4) message (unat (of_nat n :: u32))"
    unfolding un by (rule copy_ok_disjoint)
  define m3 where "m3 = memcpy m2 (log_ptr + 4) message (of_nat n)"
  have m4: "kmessage_entry m log_ptr level message = m3(log_ptr + 4 + of_nat n := 0)"
    unfolding kmessage_entry_def Let_def LOG_STRUCT_SIZE_def m1_def [symmetric] m2_def [symmetric] str(2) len m3_def ..
  have m3: "m3 x = (if in_range x (log_ptr + 4) n then m2 (message + (x - (log_ptr + 4))) else m2 x)" for x
    using memcpy_eq [OF cp, of m2] by (simp add: m3_def un)
  show "kmessage_entry m log_ptr level message x = m x" if "\<not> in_range x log_ptr 132"
  proof -
    have "x \<noteq> log_ptr + 4 + of_nat n"
      using that n in_range_offset [of "4 + n" log_ptr 132] by (auto simp: add.assoc)
    moreover have "\<not> in_range x (log_ptr + 4) n"
      using that in_range_sub [of 4 n 132 x log_ptr] n by auto
    ultimately show ?thesis
      using m2 [OF that] by (simp add: m4 m3)
  qed
  show "bytes_at (kmessage_entry m log_ptr level message) log_ptr 132 = entry_bytes level cs"
  proof (rule nth_equalityI)
    have "length (entry_bytes level cs) = 132"
      using n by (simp add: entry_bytes_def)
    then show "length (bytes_at (kmessage_entry m log_ptr level message) log_ptr 132) = length (entry_bytes level cs)"
      by simp
    fix i
    assume "i < length (bytes_at (kmessage_entry m log_ptr level message) log_ptr 132)"
    then have i: "i < 132"
      by simp
    let ?x = "log_ptr + of_nat i"
    have win: "in_range ?x (log_ptr + 4) n \<longleftrightarrow> 4 \<le> i \<and> i < 4 + n" "in_range ?x log_ptr 4 \<longleftrightarrow> i < 4"
      using in_range_window [of i 4 n log_ptr] i n by simp_all
    have here: "?x = log_ptr + 4 + of_nat n \<longleftrightarrow> i = 4 + n"
      using of_nat_u32_inj [of i "4 + n"] i n by (simp add: add.assoc)
    have entry: "entry_bytes level cs ! i = (if i < 4 then hdr ! i else if i - 4 < n then cs ! (i - 4) else 0)"
      using i n by (auto simp: entry_bytes_def nth_append simp flip: hdr_def simp: hdr n_def)
    consider "i < 4" | "4 \<le> i" "i < 4 + n" | "4 + n \<le> i"
      by linarith
    then have "kmessage_entry m log_ptr level message ?x = entry_bytes level cs ! i"
    proof cases
      case 1
      have "m2 ?x = hdr ! i"
        using bytes_at_store_bytes [of hdr m1 log_ptr] bytes_at_nth [of i 4 m2 log_ptr] 1 by (simp add: hdr)
      then show ?thesis
        using 1 by (simp add: m4 m3 here win entry)
    next
      case 2
      then have "message + (?x - (log_ptr + 4)) = message + of_nat (i - 4)"
        by (simp add: of_nat_diff)
      moreover have "m2 (message + of_nat (i - 4)) = cs ! (i - 4)"
        using str(1) 2 n by (intro cstr_bytes) simp_all
      moreover have "i - 4 < n"
        using 2 by linarith
      ultimately show ?thesis
        using 2 by (simp add: m4 m3 here win entry)
    next
      case 3
      have "m2 ?x = 0"
        using m2_low [of ?x] m1(2) [of ?x] win(2) 3 i by simp
      moreover have "\<not> i - 4 < n"
        using 3 by linarith
      ultimately show ?thesis
        using 3 by (simp add: m4 m3 here win entry)
    qed
    then show "bytes_at (kmessage_entry m log_ptr level message) log_ptr 132 ! i = entry_bytes level cs ! i"
      using i by simp
  qed
qed


section \<open>The log keeps the latest entries\<close>

lemma cb_items_other:
  assumes "\<And>k x. k < unat (cb_capacity cb) \<Longrightarrow> in_range x (slot_addr cb k) (unat (cb_element_size cb)) \<Longrightarrow> m' x = m x"
    and "cb_inv cb"
  shows "cb_items cb m' = cb_items cb m"
proof (rule nth_equalityI)
  fix i
  assume "i < length (cb_items cb m')"
  then have "i < unat (cb_size cb)"
    by simp
  moreover have "bytes_at m' (slot_addr cb (slot cb i)) (unat (cb_element_size cb)) =
      bytes_at m (slot_addr cb (slot cb i)) (unat (cb_element_size cb))"
    by (intro bytes_at_eqI assms(1) [OF slot_less [OF assms(2), of i]] in_range_below)
  ultimately show "cb_items cb m' ! i = cb_items cb m ! i"
    by (simp add: cb_items_nth)
qed simp

lemma kmessage_push: "kmessage cb m log_ptr level message = ring.push (cb, kmessage_entry m log_ptr level message) log_ptr"
  by (simp add: kmessage_def ring.push_def ring_put_def ring_drop_def Let_def case_prod_unfold)

text \<open>
  C38: \<open>kmessage\<close> never fails on a well-formed log; afterwards the log holds the
  latest entries up to its capacity, the newest being the level and the first 127 characters of
  the message, padded with zeros.
\<close>
theorem kmessage_keeps_latest:
  assumes inv: "cb_inv cb" and sz: "cb_element_size cb = LOG_STRUCT_SIZE" and nz: "log_ptr \<noteq> 0"
    and log: "\<forall>k < unat (cb_capacity cb). disjoint_ranges (slot_addr cb k) 132 log_ptr 132"
    and msg: "cstr m message cs" "str_fits message cs" "disjoint_ranges log_ptr 132 message (length cs + 1)"
  shows "\<exists>cb' m'. kmessage cb m log_ptr level message = kret (cb', m') \<and> cb_inv cb' \<and>
    cb_items cb' m' = drop (length (cb_items cb m) + 1 - unat (cb_capacity cb))
      (cb_items cb m @ [entry_bytes level cs])"
proof -
  let ?m = "kmessage_entry m log_ptr level message"
  have e: "unat (cb_element_size cb) = 132"
    by (simp add: sz LOG_STRUCT_SIZE_def)
  have "cb_items cb ?m = cb_items cb m"
    using log kmessage_entry_bytes(2) [OF msg] by (intro cb_items_other [OF _ inv]) (auto simp: e disjoint_ranges_def)
  moreover have "ring_ok (cb, ?m) log_ptr"
    using log nz by (simp add: ring_ok_def e)
  moreover have "ring_val (cb, ?m) log_ptr = entry_bytes level cs"
    using kmessage_entry_bytes(1) [OF msg] by (simp add: ring_val_def e)
  ultimately show ?thesis
    using ring.push_keeps_latest [of "(cb, ?m)" log_ptr] inv unfolding kmessage_push by auto
qed

text \<open>A log of two entries, both in use.\<close>

definition sample_log :: circular_buffer where
  "sample_log = \<lparr>cb_buffer = 0x1000, cb_head = 0, cb_tail = 0, cb_capacity = 2, cb_element_size = LOG_STRUCT_SIZE, cb_size = 2\<rparr>"

theorem kmessage_keeps_latest_witness:
  "\<exists>cb' m'. kmessage sample_log sample_strings 0x2000 1 0x100 = kret (cb', m') \<and> cb_inv cb' \<and>
     length (cb_items cb' m') = 2 \<and> cb_items cb' m' ! 1 = entry_bytes 1 [97, 98]"
proof -
  have inv: "cb_inv sample_log"
    by (simp add: cb_inv_def sample_log_def slot_def array_fits_def LOG_STRUCT_SIZE_def)
  have cap: "unat (cb_capacity sample_log) = 2"
    by (simp add: sample_log_def)
  have "disjoint_ranges (slot_addr sample_log k) 132 0x2000 132" if "k < 2" for k
    using that by (intro far_disjoint)
      (auto simp: slot_addr_def elem_at_def sample_log_def LOG_STRUCT_SIZE_def less_2_cases_iff)
  then have log: "\<forall>k < unat (cb_capacity sample_log). disjoint_ranges (slot_addr sample_log k) 132 0x2000 132"
    by (simp add: cap)
  have dis: "disjoint_ranges 0x2000 132 0x100 (length [97 :: u8, 98] + 1)"
    by (rule disjoint_ranges_sym, rule far_disjoint) simp_all
  have sz: "cb_element_size sample_log = LOG_STRUCT_SIZE" and nz: "(0x2000 :: u32) \<noteq> 0"
    and fits: "str_fits 0x100 [97, 98]"
    by (simp_all add: sample_log_def str_fits_def)
  from kmessage_keeps_latest [OF inv sz nz log sample_strings_cstr(1) fits dis, of 1] obtain cb' m' where r: "kmessage sample_log sample_strings 0x2000 1 0x100 = kret (cb', m')" "cb_inv cb'"
    "cb_items cb' m' = drop (length (cb_items sample_log sample_strings) + 1 - unat (cb_capacity sample_log))
      (cb_items sample_log sample_strings @ [entry_bytes 1 [97, 98]])"
    by blast
  have "length (cb_items sample_log sample_strings) = 2"
    by (simp add: sample_log_def)
  then have "length (cb_items cb' m') = 2" "cb_items cb' m' ! 1 = entry_bytes 1 [97, 98]"
    by (simp_all add: r(3) cap nth_append)
  then show ?thesis
    using r(1,2) by blast
qed

end
