(* ===== verification/Vmm.thy ===== *)
theory Vmm
  imports Heap Pmm
begin

text \<open>
  \<^verbatim>\<open>kernel/src/memory/vmm.c\<close>: the virtual memory manager, and \<^verbatim>\<open>kheap_init\<close> of \<^verbatim>\<open>heap.c\<close>, which calls it.

  Page directories and page tables are objects of their own, found by their virtual address; the
  arrays in them are functions of the index.  A fresh one is all zero, because it is allocated
  with \<^verbatim>\<open>MALLOC_FLAG_INIT\<close>.  The addresses \<^verbatim>\<open>kernel_virtual_start\<close> and \<^verbatim>\<open>kernel_virtual_end\<close> come from
  the linker and are arguments.
\<close>

section \<open>State\<close>

record page_table_entry =
  pte_present :: bool
  pte_read_write :: bool
  pte_user_supervisor :: bool
  pte_write_through :: bool
  pte_cache_disable :: bool
  pte_accessed :: bool
  pte_dirty :: bool
  pte_attribute_table :: bool
  pte_global :: bool
  pte_available :: "3 word"
  pte_page_base :: "20 word"

record page_directory_entry =
  pde_present :: bool
  pde_read_write :: bool
  pde_user_supervisor :: bool
  pde_write_through :: bool
  pde_cache_disable :: bool
  pde_accessed :: bool
  pde_reserved :: bool
  pde_page_size :: bool
  pde_global :: bool
  pde_available :: "3 word"
  pde_page_table_base :: "20 word"

type_synonym page_table = "u32 \<Rightarrow> page_table_entry"

record page_directory =
  pd_entries :: "u32 \<Rightarrow> page_directory_entry"
  pd_tables :: "u32 \<Rightarrow> u32"

record vmm =
  kernel_page_directory :: u32
  curr_page_directory :: u32
  dirs :: "u32 \<rightharpoonup> page_directory"
  ptabs :: "u32 \<rightharpoonup> page_table"
  vheap :: kheap
  vpmm :: pmm_memory
  vcpu :: cpu

definition PAGE_FLAG_USED :: "3 word" where
  "PAGE_FLAG_USED = 1"

definition PAGE_FLAG_PRESENT :: "3 word" where
  "PAGE_FLAG_PRESENT = 0"

definition VMM_USER_SPACE_BASE :: u32 where
  "VMM_USER_SPACE_BASE = 0x00001000"

definition VMM_USER_SPACE_SIZE :: u32 where
  "VMM_USER_SPACE_SIZE = 0xBFFFF000"

definition VMM_KERNEL_SPACE_BASE :: u32 where
  "VMM_KERNEL_SPACE_BASE = 0xC0000000"

definition VMM_KERNEL_SPACE_SIZE :: u32 where
  "VMM_KERNEL_SPACE_SIZE = 0x3FFFFFFF"

definition VMM_REAL_MODE_MEMORY_BASE :: u32 where
  "VMM_REAL_MODE_MEMORY_BASE = 0xC0000000"

definition VMM_REAL_MODE_MEMORY_SIZE :: u32 where
  "VMM_REAL_MODE_MEMORY_SIZE = 0x00100000"

definition zero_pte :: page_table_entry where
  "zero_pte = \<lparr>pte_present = False, pte_read_write = False, pte_user_supervisor = False,
     pte_write_through = False, pte_cache_disable = False, pte_accessed = False, pte_dirty = False,
     pte_attribute_table = False, pte_global = False, pte_available = 0, pte_page_base = 0\<rparr>"

definition zero_pde :: page_directory_entry where
  "zero_pde = \<lparr>pde_present = False, pde_read_write = False, pde_user_supervisor = False,
     pde_write_through = False, pde_cache_disable = False, pde_accessed = False, pde_reserved = False,
     pde_page_size = False, pde_global = False, pde_available = 0, pde_page_table_base = 0\<rparr>"

definition PAGE_TABLE_BYTES :: u32 where
  "PAGE_TABLE_BYTES = 4096"

definition PAGE_DIRECTORY_BYTES :: u32 where
  "PAGE_DIRECTORY_BYTES = 8192"


section \<open>Translation\<close>

text \<open>The entry as table and index, \<open>None\<close> for the NULL pointer.\<close>

definition vmm_get_page_entry :: "vmm \<Rightarrow> u32 \<Rightarrow> u32 \<Rightarrow> (u32 \<times> u32) option kres" where
  "vmm_get_page_entry v page_directory virtual_address =
     (if page_directory = 0 then kret None
      else kbind (deref (dirs v) page_directory) (\<lambda>d.
        let table = pd_tables d (paging_directory_index virtual_address) in
        kret (if table = 0 then None else Some (table, paging_table_index virtual_address))))"

definition vmm_read_entry :: "vmm \<Rightarrow> u32 \<times> u32 \<Rightarrow> page_table_entry kres" where
  "vmm_read_entry v e = kbind (deref (ptabs v) (fst e)) (\<lambda>t. kret (t (snd e)))"

definition vmm_virtual_to_physical_address :: "vmm \<Rightarrow> u32 \<Rightarrow> u32 \<Rightarrow> u32 kres" where
  "vmm_virtual_to_physical_address v page_directory virtual_address =
     (if page_directory = 0 then kret (virtual_address - VMM_KERNEL_SPACE_BASE)
      else kbind (vmm_get_page_entry v page_directory virtual_address) (\<lambda>entry.
        case entry of None \<Rightarrow> kfault
        | Some e \<Rightarrow> kbind (vmm_read_entry v e) (\<lambda>pte.
            kret (if \<not> pte_present pte then 0
                  else push_bit 12 (ucast (pte_page_base pte)) + paging_memory_offset virtual_address))))"

definition vmm_is_page_used :: "vmm \<Rightarrow> u32 \<Rightarrow> u32 \<Rightarrow> bool kres" where
  "vmm_is_page_used v page_directory virtual_address =
     kbind (vmm_get_page_entry v page_directory virtual_address) (\<lambda>entry.
       case entry of None \<Rightarrow> kret False
       | Some e \<Rightarrow> kbind (vmm_read_entry v e) (\<lambda>pte. kret (pte_available pte AND PAGE_FLAG_USED \<noteq> 0)))"


section \<open>Mapping\<close>

text \<open>Lines 121 to 140: the page table of an address, allocated if there is none yet.\<close>

definition vmm_map_page_table :: "vmm \<Rightarrow> u32 \<Rightarrow> u32 \<Rightarrow> u32 \<Rightarrow> (u32 \<times> vmm) kres" where
  "vmm_map_page_table v page_directory page_directory_dict virtual_address =
     kbind (deref (dirs v) page_directory) (\<lambda>d.
       let di = paging_directory_index virtual_address in
       if pd_tables d di = 0 then
         kbind (kmalloc_flag (vheap v) PAGE_TABLE_BYTES (MALLOC_FLAG_ALIGN OR MALLOC_FLAG_INIT)) (\<lambda>(table, h).
           if table = 0 then kpanic ''Memory allocation failed.''
           else
             let v1 = v\<lparr>vheap := h, ptabs := (ptabs v)(table \<mapsto> \<lambda>_. zero_pte)\<rparr>
             in kbind (vmm_virtual_to_physical_address v1 page_directory_dict table) (\<lambda>table_physical_address.
                  let e = (pd_entries d di)\<lparr>pde_present := True, pde_read_write := True,
                            pde_user_supervisor := True,
                            pde_page_table_base := ucast (drop_bit 12 table_physical_address),
                            pde_page_size := False\<rparr>
                  in kret (table, v1\<lparr>dirs := (dirs v1)(page_directory \<mapsto>
                       \<lparr>pd_entries = (pd_entries d)(di := e), pd_tables = (pd_tables d)(di := table)\<rparr>)\<rparr>)))
       else kret (pd_tables d di, v))"

definition vmm_map_page :: "vmm \<Rightarrow> u32 \<Rightarrow> u32 \<Rightarrow> u32 \<Rightarrow> u32 \<Rightarrow> bool \<Rightarrow> bool \<Rightarrow> vmm kres" where
  "vmm_map_page v page_directory page_directory_dict virtual_address physical_address is_kernel is_writeable =
     kbind (vmm_map_page_table v page_directory page_directory_dict virtual_address) (\<lambda>(table, v1).
       kbind (deref (ptabs v1) table) (\<lambda>t.
         let ti = paging_table_index virtual_address;
             v2 = (if pte_present (t ti) then v1\<lparr>vcpu := paging_invalidate_page virtual_address (vcpu v1)\<rparr> else v1);
             frame_index = pmm_address_to_index physical_address;
             pte = (t ti)\<lparr>pte_present := True, pte_read_write := is_writeable,
                     pte_user_supervisor := \<not> is_kernel,
                     pte_available := PAGE_FLAG_USED OR PAGE_FLAG_PRESENT,
                     pte_page_base := ucast frame_index\<rparr>
         in kret (v2\<lparr>ptabs := (ptabs v2)(table \<mapsto> t(ti := pte))\<rparr>)))"

text \<open>Marking a frame changes the counters and, through the bitmap, the memory.\<close>

definition vmm_mark_reserved :: "vmm \<Rightarrow> u32 \<Rightarrow> vmm" where
  "vmm_mark_reserved v a =
     (let (p, m) = pmm_mark_frame_reserved (vpmm v) (mem (vheap v)) a
      in v\<lparr>vpmm := p, vheap := (vheap v)\<lparr>mem := m\<rparr>\<rparr>)"

definition vmm_mark_available :: "vmm \<Rightarrow> u32 \<Rightarrow> vmm" where
  "vmm_mark_available v a =
     (let (p, m) = pmm_mark_frame_available (vpmm v) (mem (vheap v)) a
      in v\<lparr>vpmm := p, vheap := (vheap v)\<lparr>mem := m\<rparr>\<rparr>)"

text \<open>The two loops of \<^verbatim>\<open>vmm_init\<close>, lines 41 to 51 and 56 to 66, over the pages from \<open>base\<close> on.\<close>

partial_function (option) vmm_init_loop :: "vmm \<Rightarrow> u32 \<Rightarrow> u32 \<Rightarrow> u32 \<Rightarrow> vmm kres" where
  "vmm_init_loop v base num_pages i =
     (if i < num_pages then
        kbind (vmm_virtual_to_physical_address v 0 (base + i * PAGE_SIZE)) (\<lambda>physical_address.
          kbind (vmm_map_page v (kernel_page_directory v) 0 (base + i * PAGE_SIZE) physical_address True True) (\<lambda>v1.
            vmm_init_loop (vmm_mark_reserved v1 physical_address) base num_pages (i + 1)))
      else kret v)"

definition vmm_init :: "vmm \<Rightarrow> u32 \<Rightarrow> u32 \<Rightarrow> vmm kres" where
  "vmm_init v kernel_virtual_start kernel_virtual_end =
     kbind (kmalloc_flag (vheap v) PAGE_DIRECTORY_BYTES (MALLOC_FLAG_ALIGN OR MALLOC_FLAG_INIT)) (\<lambda>(kd, h).
       if kd = 0 then kpanic ''Memory allocation failed.''
       else
         let v1 = v\<lparr>vheap := h, kernel_page_directory := kd,
                    dirs := (dirs v)(kd \<mapsto> \<lparr>pd_entries = \<lambda>_. zero_pde, pd_tables = \<lambda>_. 0\<rparr>)\<rparr>
         in kbind (div_up VMM_REAL_MODE_MEMORY_SIZE PAGE_SIZE) (\<lambda>num_pages.
            kbind (vmm_init_loop v1 VMM_REAL_MODE_MEMORY_BASE num_pages 0) (\<lambda>v2.
            kbind (div_up (kernel_virtual_end - kernel_virtual_start) PAGE_SIZE) (\<lambda>num_pages.
            kbind (vmm_init_loop v2 kernel_virtual_start num_pages 0) (\<lambda>v3.
            kbind (vmm_virtual_to_physical_address v3 0 (kernel_page_directory v3)) (\<lambda>pd.
              kret (v3\<lparr>curr_page_directory := kernel_page_directory v3,
                       vcpu := paging_enable (paging_switch_page_directory pd (vcpu v3))\<rparr>)))))))"


section \<open>Free memory\<close>

text \<open>Lines 176 to 188: whether the pages from an address on are in the space and unused.\<close>

partial_function (option) vmm_check_free :: "vmm \<Rightarrow> u32 \<Rightarrow> u32 \<Rightarrow> u32 \<Rightarrow> u32 \<Rightarrow> bool kres" where
  "vmm_check_free v page_address space_end sz offset =
     (if offset < sz then
        kbind (vmm_is_page_used v (curr_page_directory v) (page_address + offset)) (\<lambda>used.
          if space_end \<le> page_address + offset \<or> used then kret False
          else vmm_check_free v page_address space_end sz (offset + PAGE_SIZE))
      else kret True)"

partial_function (option) vmm_find_loop :: "vmm \<Rightarrow> u32 \<Rightarrow> u32 \<Rightarrow> u32 \<Rightarrow> u32 \<Rightarrow> u32 \<Rightarrow> u32 kres" where
  "vmm_find_loop v base space_size max_pages sz i =
     (if i < max_pages then
        kbind (vmm_is_page_used v (curr_page_directory v) (base + i * PAGE_SIZE)) (\<lambda>used.
          if used then vmm_find_loop v base space_size max_pages sz (i + 1)
          else kbind (vmm_check_free v (base + i * PAGE_SIZE) (base + space_size) sz 0) (\<lambda>is_free.
            if is_free then kret (base + i * PAGE_SIZE)
            else vmm_find_loop v base space_size max_pages sz (i + 1)))
      else kret 0)"

definition vmm_find_free_memory :: "vmm \<Rightarrow> u32 \<Rightarrow> bool \<Rightarrow> u32 kres" where
  "vmm_find_free_memory v sz is_kernel =
     (let space_base_address = (if is_kernel then VMM_KERNEL_SPACE_BASE else VMM_USER_SPACE_BASE);
          space_size = (if is_kernel then VMM_KERNEL_SPACE_SIZE else VMM_USER_SPACE_SIZE)
      in kbind (div_up space_size PAGE_SIZE) (\<lambda>max_pages.
           vmm_find_loop v space_base_address space_size max_pages sz 0))"


section \<open>Mapping and unmapping a range\<close>

definition vmm_unmap_page :: "vmm \<Rightarrow> u32 \<Rightarrow> vmm kres" where
  "vmm_unmap_page v virtual_address =
     kbind (vmm_virtual_to_physical_address v (curr_page_directory v) virtual_address) (\<lambda>frame_address.
       kret (if frame_address \<noteq> 0 then vmm_mark_available v frame_address else v))"

partial_function (option) vmm_unmap_loop :: "vmm \<Rightarrow> u32 \<Rightarrow> u32 \<Rightarrow> u32 \<Rightarrow> vmm kres" where
  "vmm_unmap_loop v virtual_address num_pages i =
     (if i < num_pages then
        kbind (vmm_unmap_page v (virtual_address + i * PAGE_SIZE)) (\<lambda>v1.
          vmm_unmap_loop v1 virtual_address num_pages (i + 1))
      else kret v)"

definition vmm_unmap_memory :: "vmm \<Rightarrow> u32 \<Rightarrow> u32 \<Rightarrow> vmm kres" where
  "vmm_unmap_memory v virtual_address sz =
     kbind (div_up sz PAGE_SIZE) (\<lambda>num_pages.
       vmm_unmap_loop v (paging_align_address_down virtual_address) num_pages 0)"

text \<open>
  Lines 221 to 239.  The flags of the pages are not those \<^verbatim>\<open>vmm_map_memory\<close> is called with: every page
  is mapped as a writeable kernel page.
\<close>

partial_function (option) vmm_map_loop :: "vmm \<Rightarrow> u32 \<Rightarrow> u32 \<Rightarrow> u32 \<Rightarrow> u32 \<Rightarrow> u32 \<Rightarrow> (u32 \<times> vmm) kres" where
  "vmm_map_loop v virtual_address physical_address sz num_pages i =
     (if i < num_pages then
        let free_physical_address = pmm_find_free_frame_from (vpmm v) (mem (vheap v)) physical_address in
        if free_physical_address = 0 then
          kbind (vmm_unmap_memory v virtual_address sz) (\<lambda>v1. kret (0, v1))
        else
          kbind (vmm_map_page v (curr_page_directory v) (curr_page_directory v)
                   (virtual_address + i * PAGE_SIZE) free_physical_address True True) (\<lambda>v1.
            vmm_map_loop (vmm_mark_reserved v1 free_physical_address) virtual_address physical_address sz num_pages (i + 1))
      else kret (virtual_address, v))"

definition vmm_map_memory :: "vmm \<Rightarrow> u32 \<Rightarrow> u32 \<Rightarrow> u32 \<Rightarrow> bool \<Rightarrow> bool \<Rightarrow> (u32 \<times> vmm) kres" where
  "vmm_map_memory v virtual_address physical_address sz is_kernel is_writeable =
     kbind (if virtual_address = 0 then
              kbind (vmm_find_free_memory v sz is_kernel) (\<lambda>a.
                if a = 0 then kpanic ''Virtaul memory allocation failed.'' else kret a)
            else kret virtual_address) (\<lambda>va.
       let pa = (if physical_address = 0 then pmm_find_free_frame (vpmm v) (mem (vheap v)) else physical_address)
       in if pa = 0 then kret (0, v)
          else kbind (div_up sz PAGE_SIZE) (\<lambda>num_pages.
            vmm_map_loop v (paging_align_address_down va) pa sz num_pages 0))"

text \<open>\<^verbatim>\<open>kheap_init\<close>: the heap region is mapped and becomes one free block.\<close>

definition kheap_init :: "vmm \<Rightarrow> vmm kres" where
  "kheap_init v =
     kbind (vmm_map_memory v 0 0 KHEAP_HEAP_SIZE True True) (\<lambda>(base, v1).
       if base = 0 then kpanic ''Memory allocation failed.''
       else kret (v1\<lparr>vheap := kheap_init_head (vheap v1) base\<rparr>))"

declare vmm_init_loop.simps [code] vmm_check_free.simps [code] vmm_find_loop.simps [code]
  vmm_unmap_loop.simps [code] vmm_map_loop.simps [code]

end
