(* ===== verification/Vmm_Correct.thy ===== *)
theory Vmm_Correct
  imports Vmm Pmm_Init
begin

text \<open>
  What the page tables of a directory say about every address, how mapping a page changes it while
  the placement allocator provides the tables, and the loops over ranges of pages.
\<close>

section \<open>The entry of an address\<close>

definition page :: "u32 \<Rightarrow> nat" where
  "page a = unat a div 4096"

lemma page_eq_iff:
  "page a = page b \<longleftrightarrow>
   paging_directory_index a = paging_directory_index b \<and> paging_table_index a = paging_table_index b"
proof -
  have "unat x div 4194304 = unat x div 4096 div 1024" for x :: u32
    by (simp add: div_mult2_eq [symmetric])
  then have "page a = page b \<longleftrightarrow> unat (paging_directory_index a) = unat (paging_directory_index b) \<and>
      unat (paging_table_index a) = unat (paging_table_index b)"
    unfolding page_def unat_directory_index unat_table_index by (metis div_mult_mod_eq)
  then show ?thesis
    by (simp add: word_unat_eq_iff)
qed

text \<open>An address without a page table has the entry of a table that was never written.\<close>

definition vpage :: "vmm \<Rightarrow> u32 \<Rightarrow> u32 \<Rightarrow> page_table_entry" where
  "vpage v pd a =
     (case dirs v pd of None \<Rightarrow> zero_pte
      | Some d \<Rightarrow>
        (case ptabs v (pd_tables d (paging_directory_index a)) of None \<Rightarrow> zero_pte
         | Some t \<Rightarrow> if pd_tables d (paging_directory_index a) = 0 then zero_pte else t (paging_table_index a)))"

definition mapping :: "vmm \<Rightarrow> u32 \<Rightarrow> u32 \<Rightarrow> nat option" where
  "mapping v pd a = (if pte_present (vpage v pd a) then Some (unat (pte_page_base (vpage v pd a))) else None)"

definition dir_ok :: "vmm \<Rightarrow> u32 \<Rightarrow> page_directory \<Rightarrow> bool" where
  "dir_ok v pd d \<longleftrightarrow>
     pd \<noteq> 0 \<and> dirs v pd = Some d \<and>
     (\<forall>i. pd_tables d i \<noteq> 0 \<longrightarrow> ptabs v (pd_tables d i) \<noteq> None) \<and>
     (\<forall>i j. pd_tables d i = pd_tables d j \<and> pd_tables d i \<noteq> 0 \<longrightarrow> i = j)"

lemma dir_okD:
  assumes "dir_ok v pd d"
  shows "pd \<noteq> 0" and "dirs v pd = Some d" and "pd_tables d i \<noteq> 0 \<Longrightarrow> \<exists>t. ptabs v (pd_tables d i) = Some t"
    and "pd_tables d i \<noteq> 0 \<Longrightarrow> pd_tables d i = pd_tables d j \<Longrightarrow> i = j"
  using assms unfolding dir_ok_def by blast+

lemma translate_mapped:
  assumes "dir_ok v pd d" and "pd_tables d (paging_directory_index a) \<noteq> 0"
  shows "vmm_virtual_to_physical_address v pd a =
    kret (case mapping v pd a of None \<Rightarrow> 0 | Some f \<Rightarrow> of_nat f * 4096 + paging_memory_offset a)"
proof -
  note d = dir_okD [OF assms(1)]
  obtain t where t: "ptabs v (pd_tables d (paging_directory_index a)) = Some t"
    using d(3) [OF assms(2)] by blast
  show ?thesis
    using d(1,2) t assms(2)
    by (simp add: vmm_virtual_to_physical_address_def vmm_get_page_entry_def vmm_read_entry_def
        mapping_def vpage_def Let_def push_bit_eq_mult unsigned_ucast_eq mult.commute)
qed

lemma is_page_used_eq:
  assumes "dir_ok v pd d"
  shows "vmm_is_page_used v pd a = kret (pte_available (vpage v pd a) AND PAGE_FLAG_USED \<noteq> 0)"
proof (cases "pd_tables d (paging_directory_index a) = 0")
  case True
  then show ?thesis
    using dir_okD(1,2) [OF assms] by (simp add: vmm_is_page_used_def vmm_get_page_entry_def vpage_def Let_def
        zero_pte_def split: option.splits)
next
  case False
  then obtain t where t: "ptabs v (pd_tables d (paging_directory_index a)) = Some t"
    using dir_okD(3) [OF assms] by blast
  then show ?thesis
    using dir_okD(1,2) [OF assms] False by (simp add: vmm_is_page_used_def vmm_get_page_entry_def
        vmm_read_entry_def vpage_def Let_def)
qed

definition mapped_pte :: "page_table_entry \<Rightarrow> u32 \<Rightarrow> bool \<Rightarrow> bool \<Rightarrow> page_table_entry" where
  "mapped_pte e pa is_kernel is_writeable =
     e\<lparr>pte_present := True, pte_read_write := is_writeable, pte_user_supervisor := \<not> is_kernel,
       pte_available := PAGE_FLAG_USED OR PAGE_FLAG_PRESENT, pte_page_base := ucast (pmm_address_to_index pa)\<rparr>"

text \<open>Writing an entry of an existing table.\<close>

lemma vpage_write:
  assumes "dir_ok v pd d" and "pd_tables d (paging_directory_index va) = table" and "table \<noteq> 0"
    and "ptabs v table = Some t" and "dirs v' = dirs v" and "ptabs v' = (ptabs v)(table \<mapsto> t(paging_table_index va := e))"
  shows "dir_ok v' pd d" and "vpage v' pd a = (if page a = page va then e else vpage v pd a)"
proof -
  note d = dir_okD [OF assms(1)]
  show "dir_ok v' pd d"
    unfolding dir_ok_def using d assms(5,6) by (metis fun_upd_apply option.distinct(1))
  have "pd_tables d (paging_directory_index a) = table \<longleftrightarrow> paging_directory_index a = paging_directory_index va"
    using d(4) assms(2,3) by metis
  then show "vpage v' pd a = (if page a = page va then e else vpage v pd a)"
    using d(2) assms(2-) by (simp add: vpage_def page_eq_iff)
qed

text \<open>Adding an empty table changes no entry.\<close>

lemma vpage_new_table:
  assumes "dir_ok v pd d" and "pd_tables d di = 0" and "table \<noteq> 0" and "ptabs v table = None"
    and "dirs v' = (dirs v)(pd \<mapsto> d')" and "pd_tables d' = (pd_tables d)(di := table)"
    and "ptabs v' = (ptabs v)(table \<mapsto> \<lambda>_. zero_pte)"
  shows "dir_ok v' pd d'" and "vpage v' pd a = vpage v pd a"
proof -
  note d = dir_okD [OF assms(1)]
  have other: "pd_tables d i \<noteq> table" for i
    using d(3) [of i] assms(3,4) by auto
  show "dir_ok v' pd d'"
    unfolding dir_ok_def assms(5-7)
  proof (intro conjI allI impI)
    show "pd \<noteq> 0" "((dirs v)(pd \<mapsto> d')) pd = Some d'"
      using d(1) by simp_all
    show "((ptabs v)(table \<mapsto> \<lambda>_. zero_pte)) (((pd_tables d)(di := table)) i) \<noteq> None"
      if "((pd_tables d)(di := table)) i \<noteq> 0" for i
      using that d(3) [of i] by (auto split: if_splits)
    show "i = j" if "((pd_tables d)(di := table)) i = ((pd_tables d)(di := table)) j \<and>
        ((pd_tables d)(di := table)) i \<noteq> 0" for i j
      using that d(4) [of i j] other [of i] other [of j] by (auto split: if_splits)
  qed
  show "vpage v' pd a = vpage v pd a"
    using d(2) assms(2,5-) other [of "paging_directory_index a"] by (auto simp: vpage_def split: option.splits)
qed


section \<open>The walk of the paging unit\<close>

lemma vpage_present_table:
  assumes "dir_ok v pd d" and "pte_present (vpage v pd a)"
  shows "pd_tables d (paging_directory_index a) \<noteq> 0"
  using assms(2) dir_okD(2) [OF assms(1)]
  by (auto simp: vpage_def zero_pte_def split: option.splits if_splits)

lemma translate_page:
  assumes "dir_ok v pd d" and "mapping v pd a = Some f"
  shows "vmm_virtual_to_physical_address v pd a = kret (of_nat f * 4096 + paging_memory_offset a)"
proof -
  have "pte_present (vpage v pd a)"
    using assms(2) by (auto simp: mapping_def split: if_splits)
  then show ?thesis
    using translate_mapped [OF assms(1)] vpage_present_table [OF assms(1)] assms(2) by simp
qed

lemma frame_plus_offset: "f * 4096 \<le> unat a \<Longrightarrow> unat a < f * 4096 + 4096 \<Longrightarrow> of_nat f * 4096 + paging_memory_offset a = a"
proof (rule u32_eqI)
  assume a: "f * 4096 \<le> unat a" "unat a < f * 4096 + 4096"
  have f: "f = unat a div 4096"
    using a by (intro div_nat_eqI [symmetric]) (simp_all add: mult.commute)
  have "f < 1048576"
    unfolding f using unat_lt_u32 [of a] by (simp add: less_mult_imp_div_less)
  then have "unat (of_nat f * 4096 :: u32) = f * 4096"
    by (simp add: unat_mult_u32)
  then show "unat (of_nat f * 4096 + paging_memory_offset a) = unat a"
    using f unat_lt_u32 [of a] by (simp add: unat_add_u32 unat_memory_offset)
qed

lemma linear_address:
  assumes "0xC0000000 \<le> unat a"
  shows "of_nat (page a - 786432) * 4096 + paging_memory_offset a = a - VMM_KERNEL_SPACE_BASE"
proof -
  let ?b = "a - VMM_KERNEL_SPACE_BASE"
  have b: "unat ?b = unat a - 786432 * 4096"
    using assms by (simp add: VMM_KERNEL_SPACE_BASE_def unat_sub_u32)
  have p: "page a * 4096 \<le> unat a" "unat a < page a * 4096 + 4096" "786432 \<le> page a"
    using assms dividend_less_div_times [of 4096 "unat a"] by (simp_all add: page_def)
  have "unat a = unat ?b + 786432 * 4096"
    using b assms by simp
  then have "paging_memory_offset a = paging_memory_offset ?b"
    unfolding word_unat_eq_iff unat_memory_offset by (metis mod_mult_self1)
  then show ?thesis
    using frame_plus_offset [of "page a - 786432" ?b] b p by auto
qed

lemma boot_translate:
  assumes "dir_ok v pd d" and "mapping v pd a = Some (page a - 786432)" and "0xC0000000 \<le> unat a"
  shows "vmm_virtual_to_physical_address v pd a = kret (a - VMM_KERNEL_SPACE_BASE)"
  using translate_page [OF assms(1,2)] linear_address [OF assms(3)] by simp

text \<open>
  What the processor does with an address: it takes the directory at the physical address in
  \<^verbatim>\<open>CR3\<close>, follows the entry of the address to a page table if the entry is present and does not name a
  4 MB page, and the entry of that table to the frame.  The rights are those both entries give.  The
  software's own array \<^verbatim>\<open>tables\<close> plays no part in it.  The directories and tables lie in the kernel's
  image, whose virtual addresses are 3 GB above the physical ones.
\<close>

definition mmu_walk :: "vmm \<Rightarrow> u32 \<Rightarrow> u32 \<Rightarrow> (u32 \<times> bool \<times> bool) option" where
  "mmu_walk v root a =
     (case dirs v (root + VMM_KERNEL_SPACE_BASE) of None \<Rightarrow> None
      | Some d \<Rightarrow>
        (let pde = pd_entries d (paging_directory_index a) in
         if \<not> pde_present pde \<or> pde_page_size pde then None
         else case ptabs v (push_bit 12 (ucast (pde_page_table_base pde)) + VMM_KERNEL_SPACE_BASE) of None \<Rightarrow> None
           | Some t \<Rightarrow>
             (let pte = t (paging_table_index a) in
              if \<not> pte_present pte then None
              else Some (push_bit 12 (ucast (pte_page_base pte)) + paging_memory_offset a,
                     pde_read_write pde \<and> pte_read_write pte, pde_user_supervisor pde \<and> pte_user_supervisor pte))))"

text \<open>The entries of a directory are linked when they name the tables of the array, with all rights.\<close>

definition linked :: "page_directory \<Rightarrow> bool" where
  "linked d \<longleftrightarrow> (\<forall>i. let pde = pd_entries d i in
     if pd_tables d i = 0 then \<not> pde_present pde
     else pde_present pde \<and> \<not> pde_page_size pde \<and> pde_read_write pde \<and> pde_user_supervisor pde \<and>
       push_bit 12 (ucast (pde_page_table_base pde)) + VMM_KERNEL_SPACE_BASE = pd_tables d i)"

lemma mmu_walk_linked:
  assumes "dir_ok v pd d" and "linked d"
  shows "mmu_walk v (pd - VMM_KERNEL_SPACE_BASE) a =
    (case mapping v pd a of None \<Rightarrow> None
     | Some f \<Rightarrow> Some (of_nat f * 4096 + paging_memory_offset a,
         pte_read_write (vpage v pd a), pte_user_supervisor (vpage v pd a)))"
proof -
  let ?i = "paging_directory_index a"
  note d = dir_okD(2,3) [OF assms(1)]
  have l: "if pd_tables d ?i = 0 then \<not> pde_present (pd_entries d ?i)
     else pde_present (pd_entries d ?i) \<and> \<not> pde_page_size (pd_entries d ?i) \<and>
       pde_read_write (pd_entries d ?i) \<and> pde_user_supervisor (pd_entries d ?i) \<and>
       push_bit 12 (ucast (pde_page_table_base (pd_entries d ?i))) + VMM_KERNEL_SPACE_BASE = pd_tables d ?i"
    using assms(2) unfolding linked_def Let_def by blast
  show ?thesis
  proof (cases "pd_tables d ?i = 0")
    case True
    then show ?thesis
      using l d(1) by (auto simp: mmu_walk_def mapping_def vpage_def zero_pte_def Let_def split: option.splits)
  next
    case False
    then obtain t where "ptabs v (pd_tables d ?i) = Some t"
      using d(2) by blast
    then show ?thesis
      using l d(1) False
      by (simp add: mmu_walk_def mapping_def vpage_def Let_def push_bit_eq_mult unsigned_ucast_eq mult.commute)
  qed
qed

text \<open>The 20 bits of an entry are enough for the address of a table on a page boundary.\<close>

lemma table_base:
  assumes "paging_is_aligned_address r"
  shows "push_bit 12 (ucast (ucast (drop_bit 12 (r - VMM_KERNEL_SPACE_BASE)) :: 20 word)) + VMM_KERNEL_SPACE_BASE = r"
proof -
  let ?q = "r - VMM_KERNEL_SPACE_BASE"
  have "unat ?q mod 4096 = 0"
    using assms by (auto simp: is_aligned_iff VMM_KERNEL_SPACE_BASE_def unat_sub_u32)
  moreover have "unat ?q div 4096 < 1048576"
    using unat_lt_u32 [of ?q] by (simp add: less_mult_imp_div_less)
  moreover have "unat (ucast (drop_bit 12 ?q) :: 20 word) = unat ?q div 4096 mod 1048576"
    by (simp add: unsigned_ucast_eq take_bit_eq_mod unat_drop_bit_u32)
  moreover have "unat (push_bit 12 (ucast x :: u32)) = unat x * 4096" for x :: "20 word"
    using unsigned_less [of x, where ?'a = nat] by (simp add: push_bit_eq_mult unat_mult_u32 unsigned_ucast_eq take_bit_eq_mod)
  ultimately have "push_bit 12 (ucast (ucast (drop_bit 12 ?q) :: 20 word)) = ?q"
    by (intro u32_eqI) (simp add: minus_mod_eq_div_mult [symmetric])
  then show ?thesis
    by simp
qed


section \<open>Mapping a page while the kernel boots\<close>

text \<open>
  Until the heap is enabled page tables come from the placement memory.  \<open>S\<close> are the directory
  slots that are going to be used; there is memory left for the tables still missing in them, a
  table and the padding in front of it taking at most two pages.
\<close>

definition flag_ok :: "page_table_entry \<Rightarrow> bool" where
  "flag_ok e \<longleftrightarrow> pte_present e = (pte_available e AND PAGE_FLAG_USED \<noteq> 0)"

definition boot_ok :: "vmm \<Rightarrow> u32 \<Rightarrow> page_directory \<Rightarrow> u32 set \<Rightarrow> bool" where
  "boot_ok v pd d S \<longleftrightarrow>
     dir_ok v pd d \<and> (\<forall>a. flag_ok (vpage v pd a)) \<and>
     placement_inv (vheap v) \<and> \<not> kheap_enabled (vheap v) \<and>
     (\<forall>t. ptabs v t \<noteq> None \<longrightarrow> unat t < unat (placement_head (vheap v))) \<and>
     pmm_inv (vpmm v) (mem (vheap v)) \<and>
     unat (bitmap (vpmm v)) + 131072 \<le> unat (placement_head (vheap v)) \<and>
     finite S \<and> 8192 * card {i \<in> S. pd_tables d i = 0} \<le> unat (placement_free_memory (vheap v))"

definition frames :: "vmm \<Rightarrow> nat set" where
  "frames v = used_frames (vpmm v) (mem (vheap v))"

definition kept :: "vmm \<Rightarrow> vmm \<Rightarrow> bool" where
  "kept v v' \<longleftrightarrow> kernel_page_directory v' = kernel_page_directory v \<and> curr_page_directory v' = curr_page_directory v \<and>
     placement_memory (vheap v') = placement_memory (vheap v)"

lemma kept_trans: "kept v v1 \<Longrightarrow> kept v1 v2 \<Longrightarrow> kept v v2"
  by (simp add: kept_def)

definition in_placement :: "vmm \<Rightarrow> u32 \<Rightarrow> bool" where
  "in_placement v a \<longleftrightarrow> unat (placement_memory (vheap v)) \<le> unat a \<and> unat a < unat (placement_memory (vheap v)) + 0x100000"

text \<open>
  The directory through which table addresses are translated: none, or one that maps the placement
  memory to the addresses 3 GB below it.
\<close>

definition dict_ok :: "vmm \<Rightarrow> u32 \<Rightarrow> u32 \<Rightarrow> bool" where
  "dict_ok v pd dict \<longleftrightarrow> dict = 0 \<or> dict = pd \<and>
     (\<forall>a. in_placement v a \<longrightarrow> 0xC0000000 \<le> unat a \<and> mapping v pd a = Some (page a - 786432))"

lemma vpage_cong: "dirs v' = dirs v \<Longrightarrow> ptabs v' = ptabs v \<Longrightarrow> vpage v' pd = vpage v pd"
  by (rule ext) (simp add: vpage_def cong: option.case_cong)

lemma dir_ok_cong: "dirs v' = dirs v \<Longrightarrow> ptabs v' = ptabs v \<Longrightarrow> dir_ok v' pd d = dir_ok v pd d"
  by (simp only: dir_ok_def)

lemma used_frames_memset:
  assumes "unat (bitmap p) + 131072 \<le> unat r" and "unat r + n < 4294967296"
  shows "used_frames p (memset m r x (of_nat n)) = used_frames p m"
proof -
  have "disjoint_ranges (bitmap p) 131072 r n"
    using assms by (intro far_disjoint)
  then have "memset m r x (of_nat n) (bitmap p + of_nat i div 8) = m (bitmap p + of_nat i div 8)" if "i < 1048576" for i
    using that assms(2) block_in_bitmap [of "of_nat i" "bitmap p"]
    by (auto simp: memset_eq disjoint_ranges_def)
  then show ?thesis
    by (auto simp: used_frames_def test_frame_bit)
qed

lemma map_page_table_boot:
  assumes ok: "boot_ok v pd d S" and di: "paging_directory_index va \<in> S" and dict: "dict_ok v pd dict"
  shows "\<exists>v1 d1. vmm_map_page_table v pd dict va = kret (pd_tables d1 (paging_directory_index va), v1) \<and>
    boot_ok v1 pd d1 S \<and> pd_tables d1 (paging_directory_index va) \<noteq> 0 \<and> vpage v1 pd = vpage v pd \<and>
    kept v v1 \<and> vpmm v1 = vpmm v \<and> frames v1 = frames v \<and> (linked d \<longrightarrow> linked d1)"
proof (cases "pd_tables d (paging_directory_index va) = 0")
  case False
  have "dir_ok v pd d"
    using ok by (simp add: boot_ok_def)
  then have "vmm_map_page_table v pd dict va = kret (pd_tables d (paging_directory_index va), v)"
    using False dir_okD(2) [of v pd d] by (simp add: vmm_map_page_table_def Let_def)
  then show ?thesis
    using ok False by (intro exI [of _ v] exI [of _ d]) (simp add: kept_def)
next
  case True
  let ?di = "paging_directory_index va"
  let ?h = "vheap v"
  have dok: "dir_ok v pd d" and flags: "\<And>a. flag_ok (vpage v pd a)" and pinv: "placement_inv ?h" and dis: "\<not> kheap_enabled ?h"
    and tabs: "\<And>t. ptabs v t \<noteq> None \<Longrightarrow> unat t < unat (placement_head ?h)"
    and pmm: "pmm_inv (vpmm v) (mem ?h)" and bm: "unat (bitmap (vpmm v)) + 131072 \<le> unat (placement_head ?h)"
    and fin: "finite S" and room: "8192 * card {i \<in> S. pd_tables d i = 0} \<le> unat (placement_free_memory ?h)"
    using ok unfolding boot_ok_def by blast+
  have miss: "card {i \<in> S. pd_tables d i = 0} = Suc (card ({i \<in> S. pd_tables d i = 0} - {?di}))"
    using fin di True by (intro card.remove) auto
  have fl: "(MALLOC_FLAG_ALIGN OR MALLOC_FLAG_INIT) AND MALLOC_FLAG_ALIGN \<noteq> 0"
    "(MALLOC_FLAG_ALIGN OR MALLOC_FLAG_INIT) AND MALLOC_FLAG_INIT \<noteq> 0"
    by (simp_all add: MALLOC_FLAG_ALIGN_def MALLOC_FLAG_INIT_def)
  obtain r h where alloc: "kmalloc_placement_base ?h (of_nat 4096) (MALLOC_FLAG_ALIGN OR MALLOC_FLAG_INIT) = (r, h)"
    and aligned: "paging_is_aligned_address r"
    and h: "placement_inv h" "unat (placement_head ?h) \<le> unat r" "unat r < unat (placement_head ?h) + 4096"
      "unat (placement_head h) = unat r + 4096" "placement_memory h = placement_memory ?h"
      "\<not> kheap_enabled h" "mem h = memset (mem ?h) r 0 (of_nat 4096)"
    using kmalloc_placement_aligned [OF pinv fl(1), of 4096] room miss fl(2) dis by auto
  have r0: "r \<noteq> 0"
    using h(2) pinv by (auto simp: placement_inv_def)
  have fresh: "ptabs v r = None"
    using tabs [of r] h(2) by force
  define v1 where "v1 = v\<lparr>vheap := h, ptabs := (ptabs v)(r \<mapsto> \<lambda>_. zero_pte)\<rparr>"
  let ?p = "r - VMM_KERNEL_SPACE_BASE"
  have p: "vmm_virtual_to_physical_address v1 dict r = kret ?p"
  proof (cases "dict = 0")
    case False
    moreover have "in_placement v r"
      using h(1-5) pinv by (auto simp: in_placement_def placement_inv_def)
    ultimately have pd: "dict = pd" "0xC0000000 \<le> unat r" "mapping v pd r = Some (page r - 786432)"
      using dict by (auto simp: dict_ok_def)
    have "pd_tables d i \<noteq> r" for i
      using dir_okD(3) [OF dok, of i] r0 fresh by auto
    then have "dir_ok v1 pd d" "mapping v1 pd r = mapping v pd r"
      using dir_okD [OF dok] by (auto simp: dir_ok_def v1_def mapping_def vpage_def split: if_splits)
    then show ?thesis
      using boot_translate pd by metis
  qed (simp add: vmm_virtual_to_physical_address_def)
  define d1 where "d1 = \<lparr>pd_entries = (pd_entries d)(?di := (pd_entries d ?di)\<lparr>pde_present := True, pde_read_write := True,
      pde_user_supervisor := True, pde_page_table_base := ucast (drop_bit 12 ?p), pde_page_size := False\<rparr>),
    pd_tables = (pd_tables d)(?di := r)\<rparr>"
  define v2 where "v2 = v1\<lparr>dirs := (dirs v1)(pd \<mapsto> d1)\<rparr>"
  have "vmm_map_page_table v pd dict va = kret (r, v2)"
    using dir_okD(2) [OF dok] True alloc dis r0 p
    by (simp add: vmm_map_page_table_def kmalloc_flag_def kmalloc_base_def PAGE_TABLE_BYTES_def v1_def v2_def d1_def Let_def)
  moreover have tables: "pd_tables d1 = (pd_tables d)(?di := r)"
    by (simp add: d1_def)
  moreover have new: "dir_ok v2 pd d1" "vpage v2 pd a = vpage v pd a" for a
    using vpage_new_table [OF dok True r0 fresh, of v2 d1] by (simp_all add: v2_def v1_def tables)
  moreover have fr: "used_frames (vpmm v) (mem h) = used_frames (vpmm v) (mem ?h)"
    unfolding h(7) using bm h(1,2,4) by (intro used_frames_memset) (auto simp: placement_inv_def)
  moreover have "boot_ok v2 pd d1 S"
    unfolding boot_ok_def
  proof (intro conjI allI impI)
    show "unat t < unat (placement_head (vheap v2))" if "ptabs v2 t \<noteq> None" for t
      using that tabs [of t] h(2,4) by (auto simp: v2_def v1_def split: if_splits)
    have "{i \<in> S. pd_tables d1 i = 0} = {i \<in> S. pd_tables d i = 0} - {?di}"
      using r0 by (auto simp: tables)
    then show "8192 * card {i \<in> S. pd_tables d1 i = 0} \<le> unat (placement_free_memory (vheap v2))"
      using room miss h(1,3,4,5) pinv by (simp add: v2_def v1_def placement_inv_def)
  qed (use new flags h(1,2,4,6) pmm bm fin fr in \<open>simp_all add: v2_def v1_def pmm_inv_def\<close>)
  moreover have "linked d1" if "linked d"
    using that r0 table_base [OF aligned] unfolding linked_def Let_def by (simp add: d1_def)
  ultimately show ?thesis
    using r0 h(5) by (intro exI [of _ v2] exI [of _ d1])
      (simp add: fun_eq_iff kept_def frames_def v2_def v1_def)
qed


lemma mapped_pte_simps [simp]:
  "pte_present (mapped_pte e pa k w)" "flag_ok (mapped_pte e pa k w)"
  "unat (pte_page_base (mapped_pte e pa k w)) = frame pa"
proof -
  show "pte_present (mapped_pte e pa k w)" "flag_ok (mapped_pte e pa k w)"
    by (simp_all add: mapped_pte_def flag_ok_def PAGE_FLAG_USED_def PAGE_FLAG_PRESENT_def)
  show "unat (pte_page_base (mapped_pte e pa k w)) = frame pa"
    using address_index_bound [of pa]
    by (simp add: mapped_pte_def frame_def unsigned_ucast_eq take_bit_eq_mod)
qed

definition map_entry :: "vmm \<Rightarrow> u32 \<Rightarrow> u32 \<Rightarrow> u32 \<Rightarrow> bool \<Rightarrow> bool \<Rightarrow> u32 \<Rightarrow> page_table_entry" where
  "map_entry v pd va pa k w a = (if page a = page va then mapped_pte (vpage v pd a) pa k w else vpage v pd a)"

lemma map_page_boot:
  assumes ok: "boot_ok v pd d S" and di: "paging_directory_index va \<in> S" and dict: "dict_ok v pd dict"
  shows "\<exists>v' d'. vmm_map_page v pd dict va pa k w = kret v' \<and> boot_ok v' pd d' S \<and>
    vpage v' pd = map_entry v pd va pa k w \<and> kept v v' \<and> vpmm v' = vpmm v \<and> frames v' = frames v \<and>
    (linked d \<longrightarrow> linked d')"
proof -
  obtain v1 d1 where v1: "vmm_map_page_table v pd dict va = kret (pd_tables d1 (paging_directory_index va), v1)"
    "boot_ok v1 pd d1 S" "pd_tables d1 (paging_directory_index va) \<noteq> 0" "vpage v1 pd = vpage v pd"
    "kept v v1" "vpmm v1 = vpmm v" "frames v1 = frames v" "linked d \<longrightarrow> linked d1"
    using map_page_table_boot [OF ok di dict] by blast
  let ?table = "pd_tables d1 (paging_directory_index va)"
  let ?ti = "paging_table_index va"
  have dok: "dir_ok v1 pd d1"
    using v1(2) by (simp add: boot_ok_def)
  obtain t where t: "ptabs v1 ?table = Some t"
    using dir_okD(3) [OF dok v1(3)] by blast
  define v2 where "v2 = (if pte_present (t ?ti) then v1\<lparr>vcpu := paging_invalidate_page va (vcpu v1)\<rparr> else v1)"
  define v3 where "v3 = v2\<lparr>ptabs := (ptabs v1)(?table \<mapsto> t(?ti := mapped_pte (t ?ti) pa k w))\<rparr>"
  have same: "dirs v3 = dirs v1" "ptabs v3 = (ptabs v1)(?table \<mapsto> t(?ti := mapped_pte (t ?ti) pa k w))"
    "vheap v3 = vheap v1" "vpmm v3 = vpmm v1" "kept v1 v3"
    by (simp_all add: v3_def v2_def kept_def)
  have "vmm_map_page v pd dict va pa k w = kret v3"
    using t by (simp add: vmm_map_page_def v1(1) Let_def v3_def v2_def mapped_pte_def)
  moreover note wr = vpage_write [OF dok refl v1(3) t same(1,2)]
  moreover have "vpage v1 pd a = t ?ti" if "page a = page va" for a
    using that t v1(3) dir_okD(2) [OF dok] by (simp add: vpage_def page_eq_iff)
  then have vp: "vpage v3 pd = map_entry v pd va pa k w"
    by (simp add: fun_eq_iff wr(2) map_entry_def v1(4) [symmetric])
  moreover have "boot_ok v3 pd d1 S"
    using v1(2) wr(1) t unfolding boot_ok_def same(3,4) by (auto simp: same(2) vp map_entry_def v1(4) split: if_splits)
  moreover have "kept v v3" "frames v3 = frames v" "vpmm v3 = vpmm v"
    using kept_trans [OF v1(5) same(5)] v1(6,7) same(3,4) by (simp_all add: frames_def)
  ultimately show ?thesis
    using v1(8) by blast
qed

lemma mark_reserved_boot:
  assumes "boot_ok v pd d S"
  shows "boot_ok (vmm_mark_reserved v pa) pd d S" and "vpage (vmm_mark_reserved v pa) pd = vpage v pd"
    and "kept v (vmm_mark_reserved v pa)" and "frames (vmm_mark_reserved v pa) = insert (frame pa) (frames v)"
proof -
  obtain p m where pm: "pmm_mark_frame_reserved (vpmm v) (mem (vheap v)) pa = (p, m)"
    by fastforce
  have inv: "pmm_inv (vpmm v) (mem (vheap v))"
    using assms by (simp add: boot_ok_def)
  note law = mark_frame_reserved_law [OF inv pm]
  have bm: "bitmap p = bitmap (vpmm v)"
    using pmm_set_frame_fields pm unfolding pmm_mark_frame_reserved_def by blast
  let ?v = "v\<lparr>vpmm := p, vheap := (vheap v)\<lparr>mem := m\<rparr>\<rparr>"
  have v: "vmm_mark_reserved v pa = ?v"
    by (simp add: vmm_mark_reserved_def pm)
  show vp: "vpage (vmm_mark_reserved v pa) pd = vpage v pd"
    unfolding v by (rule vpage_cong) simp_all
  show "boot_ok (vmm_mark_reserved v pa) pd d S"
    using assms law bm vp dir_ok_cong [of ?v v pd d] unfolding v boot_ok_def by (simp add: placement_inv_def)
  show "kept v (vmm_mark_reserved v pa)" "frames (vmm_mark_reserved v pa) = insert (frame pa) (frames v)"
    using law by (simp_all add: v kept_def frames_def)
qed


section \<open>Mapping the kernel\<close>

lemma mapping_cong: "vpage v' pd = vpage v pd \<Longrightarrow> mapping v' pd = mapping v pd"
  by (simp add: mapping_def fun_eq_iff)

lemma mapping_map_entry:
  "vpage v' pd = map_entry v pd va pa k w \<Longrightarrow>
   mapping v' pd a = (if page a = page va then Some (frame pa) else mapping v pd a)"
  by (simp add: mapping_def map_entry_def)

lemma page_offset:
  assumes "unat base + unat n * 4096 \<le> 4294967296" and "(i :: u32) < n"
  shows "page (base + i * PAGE_SIZE) = page base + unat i" and "unat (base + i * PAGE_SIZE) = unat base + unat i * 4096"
proof -
  have i: "unat i < unat n"
    using assms(2) by (simp add: word_less_unat)
  have "unat (i * PAGE_SIZE) = unat i * 4096"
    using assms(1) i by (simp add: PAGE_SIZE_def unat_mult_u32)
  then show u: "unat (base + i * PAGE_SIZE) = unat base + unat i * 4096"
    using assms(1) i by (simp add: unat_add_u32)
  then show "page (base + i * PAGE_SIZE) = page base + unat i"
    by (simp add: page_def)
qed

text \<open>Before paging is enabled the kernel lies at a fixed distance from its virtual addresses.\<close>

lemma linear_frame:
  assumes "0xC0000000 \<le> unat a"
  shows "frame (a - VMM_KERNEL_SPACE_BASE) = page a - 786432"
proof -
  have "unat (a - VMM_KERNEL_SPACE_BASE) = unat a - 786432 * 4096"
    using assms by (simp add: VMM_KERNEL_SPACE_BASE_def unat_sub_u32)
  then show ?thesis
    by (simp add: frame_def pmm_address_to_index_def unat_frame_index page_def)
qed

lemma init_loop_boot:
  assumes "boot_ok v pd d S" and "kernel_page_directory v = pd" and "i \<le> n"
    and lim: "unat base + unat n * 4096 \<le> 4294967296" "0xC0000000 \<le> unat base"
    and slots: "\<And>j. j < n \<Longrightarrow> paging_directory_index (base + j * PAGE_SIZE) \<in> S"
  shows "\<exists>v' d'. vmm_init_loop v base n i = kret v' \<and> boot_ok v' pd d' S \<and> kept v v' \<and>
    frames v' = frames v \<union> {page base + unat i - 786432..<page base + unat n - 786432} \<and>
    (\<forall>a. mapping v' pd a = (if page base + unat i \<le> page a \<and> page a < page base + unat n
       then Some (page a - 786432) else mapping v pd a)) \<and> (linked d \<longrightarrow> linked d')"
  using assms(1-3)
proof (induction "unat n - unat i" arbitrary: v d i)
  case 0
  then have "\<not> i < n" "unat n = unat i"
    by (simp_all add: u32_order)
  then show ?case
    using 0 by (intro exI [of _ v] exI [of _ d]) (auto simp: vmm_init_loop.simps kept_def)
next
  case (Suc x)
  then have i: "i < n" "unat (i + 1) = Suc (unat i)" "i + 1 \<le> n" and x: "x = unat n - unat (i + 1)"
    using unat_Suc_less [of i n] by (simp_all add: u32_order)
  let ?va = "base + i * PAGE_SIZE"
  let ?pa = "?va - VMM_KERNEL_SPACE_BASE"
  note off = page_offset [OF lim(1) i(1)]
  have pg: "786432 \<le> page base" "frame ?pa = page base + unat i - 786432"
    using linear_frame [of ?va] lim(2) off by (auto simp: page_def)
  obtain v1 d1 where v1: "vmm_map_page v pd 0 ?va ?pa True True = kret v1" "boot_ok v1 pd d1 S"
    "vpage v1 pd = map_entry v pd ?va ?pa True True" "kept v v1" "frames v1 = frames v" "linked d \<longrightarrow> linked d1"
    using map_page_boot [OF Suc.prems(1) slots [OF i(1)], of 0 ?pa True True] by (auto simp: dict_ok_def)
  let ?v2 = "vmm_mark_reserved v1 ?pa"
  note v2 = mark_reserved_boot [OF v1(2), of ?pa]
  have kpd: "kernel_page_directory ?v2 = pd"
    using v1(4) v2(3) Suc.prems(2) by (simp add: kept_def)
  obtain v' d' where v': "vmm_init_loop ?v2 base n (i + 1) = kret v'" "boot_ok v' pd d' S" "kept ?v2 v'"
    "frames v' = frames ?v2 \<union> {page base + Suc (unat i) - 786432..<page base + unat n - 786432}"
    "\<And>a. mapping v' pd a = (if page base + Suc (unat i) \<le> page a \<and> page a < page base + unat n
       then Some (page a - 786432) else mapping ?v2 pd a)"
    "linked d1 \<longrightarrow> linked d'"
    using Suc.hyps(1) [OF x v2(1) kpd i(3)] unfolding i(2) by blast
  have "vmm_init_loop v base n i = kret v'"
    using i(1) v1(1) v'(1) Suc.prems(2)
    by (subst vmm_init_loop.simps) (simp add: vmm_virtual_to_physical_address_def)
  moreover have "frames v' = frames v \<union> {page base + unat i - 786432..<page base + unat n - 786432}"
    using v'(4) v2(4) v1(5) pg i(1) by (auto simp: word_less_unat)
  moreover have "mapping ?v2 pd a = (if page a = page base + unat i then Some (page a - 786432) else mapping v pd a)" for a
    using mapping_map_entry [OF v1(3), of a] off(1) pg(2) mapping_cong [OF v2(2)] by simp
  then have "mapping v' pd a = (if page base + unat i \<le> page a \<and> page a < page base + unat n
       then Some (page a - 786432) else mapping v pd a)" for a
    using i(1) by (auto simp: v'(5) word_less_unat)
  ultimately show ?case
    using v'(2,6) v1(6) kept_trans [OF v1(4) kept_trans [OF v2(3) v'(3)]] by blast
qed


text \<open>The directory slots of \<open>k\<close> times four megabytes from the start of the kernel space on.\<close>

definition kernel_slots :: "nat \<Rightarrow> u32 set" where
  "kernel_slots k = of_nat ` {768..<768 + k}"

lemma kernel_slots_card: "finite (kernel_slots k)" "card {i \<in> kernel_slots k. P i} \<le> k"
proof -
  show fin: "finite (kernel_slots k)"
    by (simp add: kernel_slots_def)
  have "card {i \<in> kernel_slots k. P i} \<le> card (kernel_slots k)"
    using fin by (intro card_mono) auto
  also have "\<dots> \<le> k"
    unfolding kernel_slots_def using card_image_le [of "{768..<768 + k}" "of_nat :: nat \<Rightarrow> u32"] by simp
  finally show "card {i \<in> kernel_slots k. P i} \<le> k" .
qed

lemma kernel_slotsI:
  assumes "0xC0000000 \<le> unat a" and "unat a < 0xC0000000 + k * 4194304"
  shows "paging_directory_index a \<in> kernel_slots k"
proof -
  have "unat (paging_directory_index a) \<in> {768..<768 + k}"
    using assms by (auto simp: unat_directory_index less_mult_imp_div_less)
  then show ?thesis
    unfolding kernel_slots_def by (metis imageI of_nat_unat_u32)
qed

definition kernel_pages :: "u32 \<Rightarrow> u32 \<Rightarrow> nat" where
  "kernel_pages kstart kend = (unat kend - unat kstart + 4095) div 4096"

text \<open>What \<^verbatim>\<open>vmm_init\<close> finds: frames managed in a bitmap below the placement head, and room for the tables.\<close>

definition vmm_before :: "vmm \<Rightarrow> nat \<Rightarrow> bool" where
  "vmm_before v k \<longleftrightarrow>
     placement_inv (vheap v) \<and> \<not> kheap_enabled (vheap v) \<and> pmm_inv (vpmm v) (mem (vheap v)) \<and>
     unat (bitmap (vpmm v)) + 131072 \<le> unat (placement_head (vheap v)) \<and>
     (\<forall>t. ptabs v t = None) \<and> 12288 + 8192 * k \<le> unat (placement_free_memory (vheap v))"

lemma vmm_init_directory:
  assumes "vmm_before v k"
  shows "\<exists>kd h d. kmalloc_flag (vheap v) PAGE_DIRECTORY_BYTES (MALLOC_FLAG_ALIGN OR MALLOC_FLAG_INIT) = kret (kd, h) \<and>
    kd \<noteq> 0 \<and> d = \<lparr>pd_entries = \<lambda>_. zero_pde, pd_tables = \<lambda>_. 0\<rparr> \<and>
    (let v1 = v\<lparr>vheap := h, kernel_page_directory := kd, dirs := (dirs v)(kd \<mapsto> d)\<rparr> in
       boot_ok v1 kd d (kernel_slots k) \<and> frames v1 = frames v \<and> placement_memory h = placement_memory (vheap v) \<and>
       (\<forall>a. mapping v1 kd a = None))"
proof -
  let ?h = "vheap v"
  have pinv: "placement_inv ?h" and dis: "\<not> kheap_enabled ?h" and pmm: "pmm_inv (vpmm v) (mem ?h)"
    and bm: "unat (bitmap (vpmm v)) + 131072 \<le> unat (placement_head ?h)" and tabs: "\<And>t. ptabs v t = None"
    and room: "12288 + 8192 * k \<le> unat (placement_free_memory ?h)"
    using assms unfolding vmm_before_def by blast+
  have fl: "(MALLOC_FLAG_ALIGN OR MALLOC_FLAG_INIT) AND MALLOC_FLAG_ALIGN \<noteq> 0"
    "(MALLOC_FLAG_ALIGN OR MALLOC_FLAG_INIT) AND MALLOC_FLAG_INIT \<noteq> 0"
    by (simp_all add: MALLOC_FLAG_ALIGN_def MALLOC_FLAG_INIT_def)
  obtain kd h where alloc: "kmalloc_placement_base ?h (of_nat 8192) (MALLOC_FLAG_ALIGN OR MALLOC_FLAG_INIT) = (kd, h)"
    and h: "placement_inv h" "unat (placement_head ?h) \<le> unat kd" "unat kd < unat (placement_head ?h) + 4096"
      "unat (placement_head h) = unat kd + 8192" "placement_memory h = placement_memory ?h"
      "\<not> kheap_enabled h" "mem h = memset (mem ?h) kd 0 (of_nat 8192)"
    using kmalloc_placement_aligned [OF pinv fl(1), of 8192] room fl(2) dis by auto
  define d where "d = \<lparr>pd_entries = \<lambda>_. zero_pde, pd_tables = \<lambda>_ :: u32. 0 :: u32\<rparr>"
  define v1 where "v1 = v\<lparr>vheap := h, kernel_page_directory := kd, dirs := (dirs v)(kd \<mapsto> d)\<rparr>"
  have kd0: "kd \<noteq> 0"
    using h(2) pinv by (auto simp: placement_inv_def)
  have vp: "vpage v1 kd a = zero_pte" for a
    by (simp add: v1_def vpage_def d_def tabs)
  have fr: "used_frames (vpmm v) (mem h) = used_frames (vpmm v) (mem ?h)"
    unfolding h(7) using bm h(1,2,4) by (intro used_frames_memset) (auto simp: placement_inv_def)
  have "boot_ok v1 kd d (kernel_slots k)"
    unfolding boot_ok_def
  proof (intro conjI allI impI)
    show "dir_ok v1 kd d"
      by (simp add: dir_ok_def v1_def d_def kd0)
    show "flag_ok (vpage v1 kd a)" for a
      by (simp add: vp flag_ok_def zero_pte_def)
    show "8192 * card {i \<in> kernel_slots k. pd_tables d i = 0} \<le> unat (placement_free_memory (vheap v1))"
      using room kernel_slots_card(2) [of k "\<lambda>i. pd_tables d i = 0"] h(1,3,4,5) pinv
      by (simp add: v1_def placement_inv_def)
  qed (use h(1,2,4,6) pmm bm fr tabs kernel_slots_card(1) in \<open>simp_all add: v1_def pmm_inv_def\<close>)
  moreover have "mapping v1 kd a = None" for a
    by (simp add: mapping_def vp zero_pte_def)
  moreover have "kmalloc_flag ?h PAGE_DIRECTORY_BYTES (MALLOC_FLAG_ALIGN OR MALLOC_FLAG_INIT) = kret (kd, h)"
    using alloc dis by (simp add: kmalloc_flag_def kmalloc_base_def PAGE_DIRECTORY_BYTES_def)
  ultimately show ?thesis
    using kd0 fr h(5) by (intro exI [of _ kd] exI [of _ h] exI [of _ d]) (simp add: Let_def v1_def d_def frames_def)
qed

lemma linked_empty: "linked \<lparr>pd_entries = \<lambda>_. zero_pde, pd_tables = \<lambda>_. 0\<rparr>"
  by (simp add: linked_def zero_pde_def)

end
