(* ===== verification/Vmm_Map.thy ===== *)
theory Vmm_Map
  imports Vmm_Correct
begin

text \<open>
  The address space \<^verbatim>\<open>vmm_init\<close> sets up, the search for unused pages, and the mapping of a range to
  frames of the pool; then what \<^verbatim>\<open>kheap_init\<close> makes of it.
\<close>

section \<open>Initialisation\<close>

definition boot_page :: "u32 \<Rightarrow> u32 \<Rightarrow> u32 \<Rightarrow> bool" where
  "boot_page kstart kend a \<longleftrightarrow>
     786432 \<le> page a \<and> page a < 786688 \<or>
     page kstart \<le> page a \<and> page a < page kstart + kernel_pages kstart kend"

lemma slots_bound: "vmm_before v k \<Longrightarrow> k \<le> 126"
  by (auto simp: vmm_before_def placement_inv_def)

lemma vmm_init_ok:
  assumes before: "vmm_before v k" and k: "0 < k"
    and lim: "0xC0000000 \<le> unat kstart" "unat kstart \<le> unat kend" "unat kend \<le> 0xC0000000 + k * 4194304"
  shows "\<exists>v' d. vmm_init v kstart kend = kret v' \<and> boot_ok v' (kernel_page_directory v') d (kernel_slots k) \<and>
    curr_page_directory v' = kernel_page_directory v' \<and>
    placement_memory (vheap v') = placement_memory (vheap v) \<and>
    bit (cr0 (vcpu v')) 31 \<and> cr3 (vcpu v') = kernel_page_directory v' - VMM_KERNEL_SPACE_BASE \<and>
    frames v' = frames v \<union> {0..<256} \<union> {page kstart - 786432..<page kstart + kernel_pages kstart kend - 786432} \<and>
    (\<forall>a. mapping v' (kernel_page_directory v') a = (if boot_page kstart kend a then Some (page a - 786432) else None)) \<and>
    linked d"
proof -
  let ?S = "kernel_slots k"
  let ?n = "of_nat (kernel_pages kstart kend) :: u32"
  have k126: "k \<le> 126"
    using slots_bound [OF before] .
  have np: "kernel_pages kstart kend * 4096 \<le> unat kend - unat kstart + 4095"
    by (simp add: kernel_pages_def)
  have n: "unat ?n = kernel_pages kstart kend" "unat kstart + unat ?n * 4096 \<le> 4294967296"
    using np lim k126 by auto
  obtain kd h d0 where dir: "kmalloc_flag (vheap v) PAGE_DIRECTORY_BYTES (MALLOC_FLAG_ALIGN OR MALLOC_FLAG_INIT) = kret (kd, h)"
    "kd \<noteq> 0" "d0 = \<lparr>pd_entries = \<lambda>_. zero_pde, pd_tables = \<lambda>_. 0\<rparr>"
    and v1: "let v1 = v\<lparr>vheap := h, kernel_page_directory := kd, dirs := (dirs v)(kd \<mapsto> d0)\<rparr> in
       boot_ok v1 kd d0 ?S \<and> frames v1 = frames v \<and> placement_memory h = placement_memory (vheap v) \<and>
       (\<forall>a. mapping v1 kd a = None)"
    using vmm_init_directory [OF before] by blast
  define v1 where "v1 = v\<lparr>vheap := h, kernel_page_directory := kd, dirs := (dirs v)(kd \<mapsto> d0)\<rparr>"
  have v1: "boot_ok v1 kd d0 ?S" "frames v1 = frames v" "placement_memory (vheap v1) = placement_memory (vheap v)"
    "\<And>a. mapping v1 kd a = None" "kernel_page_directory v1 = kd"
    using v1 by (simp_all add: v1_def Let_def)
  have divs: "div_up VMM_REAL_MODE_MEMORY_SIZE PAGE_SIZE = kret 256"
    "div_up (kend - kstart) PAGE_SIZE = kret ?n"
    using lim k126 div_up_eq [of PAGE_SIZE VMM_REAL_MODE_MEMORY_SIZE] div_up_eq [of PAGE_SIZE "kend - kstart"]
    by (simp_all add: PAGE_SIZE_def VMM_REAL_MODE_MEMORY_SIZE_def unat_sub_u32 kernel_pages_def add.commute [of 4095] del: of_nat_add of_nat_diff)
  have s1: "paging_directory_index (VMM_REAL_MODE_MEMORY_BASE + j * PAGE_SIZE) \<in> ?S" if "j < 256" for j
    using page_offset(2) [of VMM_REAL_MODE_MEMORY_BASE 256 j] that k
    by (intro kernel_slotsI) (auto simp: VMM_REAL_MODE_MEMORY_BASE_def word_less_unat)
  obtain v2 d2 where v2: "vmm_init_loop v1 VMM_REAL_MODE_MEMORY_BASE 256 0 = kret v2" "boot_ok v2 kd d2 ?S" "kept v1 v2"
    "frames v2 = frames v1 \<union> {0..<256}"
    "\<And>a. mapping v2 kd a = (if 786432 \<le> page a \<and> page a < 786688 then Some (page a - 786432) else mapping v1 kd a)"
    "linked d0 \<longrightarrow> linked d2"
    using init_loop_boot [OF v1(1,5), of 0 256 VMM_REAL_MODE_MEMORY_BASE] s1
    by (auto simp: VMM_REAL_MODE_MEMORY_BASE_def page_def)
  have s2: "paging_directory_index (kstart + j * PAGE_SIZE) \<in> ?S" if "j < ?n" for j
  proof -
    have "Suc (unat j) \<le> kernel_pages kstart kend"
      using that n(1) by (simp add: word_less_unat)
    then have "Suc (unat j) * 4096 \<le> unat kend - unat kstart + 4095"
      using np by (meson le_trans mult_le_mono1)
    then show ?thesis
      using page_offset(2) [OF n(2) that] lim by (intro kernel_slotsI) auto
  qed
  have kpd: "kernel_page_directory v2 = kd"
    using v2(3) v1(5) by (simp add: kept_def)
  obtain v3 d3 where v3: "vmm_init_loop v2 kstart ?n 0 = kret v3" "boot_ok v3 kd d3 ?S" "kept v2 v3"
    "frames v3 = frames v2 \<union> {page kstart - 786432..<page kstart + unat ?n - 786432}"
    "\<And>a. mapping v3 kd a = (if page kstart \<le> page a \<and> page a < page kstart + unat ?n then Some (page a - 786432) else mapping v2 kd a)"
    "linked d2 \<longrightarrow> linked d3"
    using init_loop_boot [OF v2(2) kpd, of 0 ?n kstart] s2 n(2) lim(1) by auto
  have kpd3: "kernel_page_directory v3 = kd"
    using v3(3) kpd by (simp add: kept_def)
  define v' where "v' = v3\<lparr>curr_page_directory := kd,
    vcpu := paging_enable (paging_switch_page_directory (kd - VMM_KERNEL_SPACE_BASE) (vcpu v3))\<rparr>"
  have same: "dirs v' = dirs v3" "ptabs v' = ptabs v3" "vheap v' = vheap v3" "vpmm v' = vpmm v3"
    by (simp_all add: v'_def)
  have "vmm_init v kstart kend = kret v'"
    using dir(1,2) v2(1) v3(1) kpd3
    by (simp add: vmm_init_def Let_def divs dir(3) [symmetric] v1_def [symmetric] v'_def vmm_virtual_to_physical_address_def)
  moreover have vp: "vpage v' pd = vpage v3 pd" for pd
    using same(1,2) by (rule vpage_cong)
  moreover have "boot_ok v' kd d3 ?S"
    using v3(2) dir_ok_cong [of v' v3 kd d3] same by (simp add: boot_ok_def vp)
  moreover have "placement_memory (vheap v') = placement_memory (vheap v)"
    using v1(3) v2(3) v3(3) by (simp add: v'_def kept_def)
  moreover have "mapping v' kd a = (if boot_page kstart kend a then Some (page a - 786432) else None)" for a
    by (simp add: mapping_cong [OF vp] v3(5) v2(5) v1(4) boot_page_def n(1))
  moreover have "frames v' = frames v \<union> {0..<256} \<union> {page kstart - 786432..<page kstart + kernel_pages kstart kend - 786432}"
    using v3(4) v2(4) v1(2) n(1) by (simp add: frames_def v'_def)
  moreover have "linked d3"
    using v2(6) v3(6) linked_empty by (simp add: dir(3))
  ultimately show ?thesis
    using kpd3 by (intro exI [of _ v'] exI [of _ d3])
      (simp add: v'_def paging_enable_def paging_switch_page_directory_def bit_or_iff)
qed


section \<open>Searching unused pages\<close>

definition free_run :: "vmm \<Rightarrow> u32 \<Rightarrow> u32 \<Rightarrow> nat \<Rightarrow> u32 \<Rightarrow> bool" where
  "free_run v pd space_end sz a \<longleftrightarrow>
     (\<forall>j. j * 4096 < sz \<longrightarrow> a + of_nat (j * 4096) < space_end \<and> mapping v pd (a + of_nat (j * 4096)) = None)"

definition flags_ok :: "vmm \<Rightarrow> u32 \<Rightarrow> bool" where
  "flags_ok v pd \<longleftrightarrow> (\<exists>d. dir_ok v pd d) \<and> (\<forall>a. flag_ok (vpage v pd a))"

lemma boot_flags_ok: "boot_ok v pd d S \<Longrightarrow> flags_ok v pd"
  by (auto simp: boot_ok_def flags_ok_def)

lemma page_used_mapping:
  "flags_ok v pd \<Longrightarrow> vmm_is_page_used v pd a = kret (mapping v pd a \<noteq> None)"
  using is_page_used_eq by (auto simp: flags_ok_def flag_ok_def mapping_def)

lemma check_free_from:
  assumes ok: "flags_ok v (curr_page_directory v)" and sz: "unat sz \<le> 0xFFFFF000"
  shows "k * 4096 \<le> 0xFFFFF000 \<Longrightarrow> vmm_check_free v a e sz (of_nat (k * 4096)) =
    kret (\<forall>j \<ge> k. j * 4096 < unat sz \<longrightarrow>
      a + of_nat (j * 4096) < e \<and> mapping v (curr_page_directory v) (a + of_nat (j * 4096)) = None)"
proof (induction "unat sz - k * 4096" arbitrary: k rule: less_induct)
  case less
  let ?off = "of_nat (k * 4096) :: u32"
  have off: "unat ?off = k * 4096"
    using less.prems by (simp del: of_nat_mult)
  have next_off: "of_nat (Suc k * 4096) = ?off + PAGE_SIZE"
    by (simp add: PAGE_SIZE_def)
  have unf: "vmm_check_free v a e sz ?off =
      (if k * 4096 < unat sz then
         if e \<le> a + ?off \<or> mapping v (curr_page_directory v) (a + ?off) \<noteq> None then kret False
         else vmm_check_free v a e sz (of_nat (Suc k * 4096))
       else kret True)"
    using off unfolding next_off by (subst vmm_check_free.simps) (simp add: page_used_mapping [OF ok] word_less_unat del: of_nat_mult)
  show ?case
  proof (cases "k * 4096 < unat sz")
    case True
    then have "Suc k * 4096 \<le> 0xFFFFF000"
      using sz by presburger
    then have IH: "vmm_check_free v a e sz (of_nat (Suc k * 4096)) =
      kret (\<forall>j \<ge> Suc k. j * 4096 < unat sz \<longrightarrow>
        a + of_nat (j * 4096) < e \<and> mapping v (curr_page_directory v) (a + of_nat (j * 4096)) = None)"
      using True by (intro less.hyps) auto
    have le: "k \<le> j \<longleftrightarrow> j = k \<or> Suc k \<le> j" for j
      by auto
    show ?thesis
      unfolding unf IH le using True by (auto simp del: of_nat_mult)
  next
    case False
    then show ?thesis
      unfolding unf by (auto dest: order_trans)
  qed
qed

lemma check_free_eq:
  assumes "flags_ok v (curr_page_directory v)" and "unat sz \<le> 0xFFFFF000"
  shows "vmm_check_free v a e sz 0 = kret (free_run v (curr_page_directory v) e (unat sz) a)"
  using check_free_from [OF assms, of 0] by (simp add: free_run_def)

lemma find_loop_first:
  assumes ok: "flags_ok v (curr_page_directory v)" and sz: "unat sz \<le> 0xFFFFF000" "0 < unat sz"
  shows "(\<exists>k. i \<le> k \<and> k < n \<and> vmm_find_loop v base space n sz i = kret (base + k * PAGE_SIZE) \<and>
      free_run v (curr_page_directory v) (base + space) (unat sz) (base + k * PAGE_SIZE) \<and>
      (\<forall>j. i \<le> j \<and> j < k \<longrightarrow> \<not> free_run v (curr_page_directory v) (base + space) (unat sz) (base + j * PAGE_SIZE))) \<or>
    vmm_find_loop v base space n sz i = kret 0 \<and>
      (\<forall>j. i \<le> j \<and> j < n \<longrightarrow> \<not> free_run v (curr_page_directory v) (base + space) (unat sz) (base + j * PAGE_SIZE))"
proof (induction "unat n - unat i" arbitrary: i)
  case 0
  then have "n \<le> i"
    by (simp add: u32_order)
  then show ?case
    by (intro disjI2) (auto simp: vmm_find_loop.simps dest: order_trans)
next
  case (Suc x)
  let ?free = "\<lambda>k. free_run v (curr_page_directory v) (base + space) (unat sz) (base + k * PAGE_SIZE)"
  have i: "i < n" "unat (i + 1) = Suc (unat i)"
    using Suc.hyps(2) unat_Suc_less [of i n] by (simp_all add: u32_order)
  have le: "i \<le> j \<longleftrightarrow> j = i \<or> i + 1 \<le> j" for j
    using i(2) by (auto simp: word_le_unat word_unat_eq_iff)
  have first: "?free i \<Longrightarrow> mapping v (curr_page_directory v) (base + i * PAGE_SIZE) = None"
    using sz(2) unfolding free_run_def by (drule_tac spec [of _ 0]) simp
  have unf: "vmm_find_loop v base space n sz i =
      (if ?free i then kret (base + i * PAGE_SIZE) else vmm_find_loop v base space n sz (i + 1))"
    using i(1) first by (subst vmm_find_loop.simps)
      (simp add: page_used_mapping [OF ok] check_free_eq [OF ok sz(1)])
  show ?case
  proof (cases "?free i")
    case True
    then show ?thesis
      using i(1) unf by (intro disjI1 exI [of _ i]) auto
  next
    case False
    have "x = unat n - unat (i + 1)"
      using Suc.hyps(2) i(2) by simp
    from Suc.hyps(1) [OF this] show ?thesis
      using False unfolding unf le by (metis)
  qed
qed


section \<open>Mapping a range\<close>

lemma dict_ok_step:
  assumes "dict_ok v pd pd" and "kept v v'" and "\<And>a. in_placement v a \<Longrightarrow> mapping v' pd a = mapping v pd a"
  shows "dict_ok v' pd pd"
  using assms by (auto simp: dict_ok_def in_placement_def kept_def)

lemma map_loop_ok:
  assumes "boot_ok v pd d S" and "curr_page_directory v = pd" and "dict_ok v pd pd" and "i \<le> n"
    and "unat n - unat i \<le> card ({frame pa..<1048575} - frames v)"
    and lim: "unat va + unat n * 4096 \<le> 4294967296" and pa: "0 < frame pa"
    and slots: "\<And>j. j < n \<Longrightarrow> paging_directory_index (va + j * PAGE_SIZE) \<in> S"
    and above: "\<And>a. unat (placement_memory (vheap v)) \<le> unat a \<Longrightarrow>
      unat a < unat (placement_memory (vheap v)) + 0x100000 \<Longrightarrow> page a < page va"
  shows "\<exists>v' d' fs. vmm_map_loop v va pa sz n i = kret (va, v') \<and> boot_ok v' pd d' S \<and> kept v v' \<and>
    length fs = unat n - unat i \<and> distinct fs \<and> set fs \<subseteq> {frame pa..<1048575} - frames v \<and>
    frames v' = frames v \<union> set fs \<and>
    (\<forall>a. mapping v' pd a = (if page va + unat i \<le> page a \<and> page a < page va + unat n
       then Some (fs ! (page a - (page va + unat i))) else mapping v pd a)) \<and>
    (linked d \<longrightarrow> linked d')"
  using assms(1-5) above
proof (induction "unat n - unat i" arbitrary: v d i)
  case 0
  then have "\<not> i < n" "unat n = unat i"
    by (simp_all add: u32_order)
  then show ?case
    using "0.prems"(1) by (intro exI [of _ v] exI [of _ d] exI [of _ "[]"]) (auto simp: vmm_map_loop.simps kept_def)
next
  case (Suc x)
  then have i: "i < n" "unat (i + 1) = Suc (unat i)" "i + 1 \<le> n" and x: "x = unat n - unat (i + 1)"
    using unat_Suc_less [of i n] by (simp_all add: u32_order)
  let ?va = "va + i * PAGE_SIZE"
  let ?r = "pmm_find_free_frame_from (vpmm v) (mem (vheap v)) pa"
  have inv: "pmm_inv (vpmm v) (mem (vheap v))"
    using Suc.prems(1) by (simp add: boot_ok_def)
  have "{frame pa..<1048575} - frames v \<noteq> {}"
    using Suc.prems(5) Suc.hyps(2) by (metis card.empty le_zero_eq nat.distinct(1))
  then have r0: "?r \<noteq> 0"
    using pmm_find_free_frame_from_spec(2) [OF inv refl, of pa] pa by (auto simp: frames_def frame_def)
  note r = pmm_find_free_frame_from_spec(1) [OF inv refl r0]
  have rf: "frame ?r \<in> {frame pa..<1048575} - frames v"
    using r by (auto simp: frames_def frame_def word_le_unat)
  note off = page_offset [OF lim i(1)]
  obtain v1 d1 where v1: "vmm_map_page v pd pd ?va ?r True True = kret v1" "boot_ok v1 pd d1 S"
    "vpage v1 pd = map_entry v pd ?va ?r True True" "kept v v1" "frames v1 = frames v" "linked d \<longrightarrow> linked d1"
    using map_page_boot [OF Suc.prems(1) slots [OF i(1)] Suc.prems(3), of ?r True True] by blast
  let ?v2 = "vmm_mark_reserved v1 ?r"
  note v2 = mark_reserved_boot [OF v1(2), of ?r]
  have m2: "mapping ?v2 pd a = (if page a = page va + unat i then Some (frame ?r) else mapping v pd a)" for a
    using mapping_map_entry [OF v1(3), of a] off(1) mapping_cong [OF v2(2)] by simp
  have k2: "kept v ?v2"
    using kept_trans [OF v1(4) v2(3)] .
  have fr2: "frames ?v2 = insert (frame ?r) (frames v)"
    using v2(4) v1(5) by simp
  have "card ({frame pa..<1048575} - frames v) = Suc (card ({frame pa..<1048575} - frames ?v2))"
    using rf unfolding fr2 by (subst Diff_insert) (intro card.remove, auto)
  then have enough: "unat n - unat (i + 1) \<le> card ({frame pa..<1048575} - frames ?v2)"
    using Suc.prems(5) i(2) by simp
  have cpd: "curr_page_directory ?v2 = pd"
    using k2 Suc.prems(2) by (simp add: kept_def)
  have dict: "dict_ok ?v2 pd pd"
    using Suc.prems(3) k2
  proof (rule dict_ok_step)
    fix a
    assume "in_placement v a"
    then have "page a < page va"
      using Suc.prems(6) by (simp add: in_placement_def)
    then show "mapping ?v2 pd a = mapping v pd a"
      by (simp add: m2)
  qed
  have below: "page a < page va" if "unat (placement_memory (vheap ?v2)) \<le> unat a"
      "unat a < unat (placement_memory (vheap ?v2)) + 0x100000" for a
    using Suc.prems(6) k2 that by (simp add: kept_def)
  obtain v' d' fs where v': "vmm_map_loop ?v2 va pa sz n (i + 1) = kret (va, v')" "boot_ok v' pd d' S" "kept ?v2 v'"
    "length fs = unat n - Suc (unat i)" "distinct fs" "set fs \<subseteq> {frame pa..<1048575} - frames ?v2"
    "frames v' = frames ?v2 \<union> set fs"
    "\<And>a. mapping v' pd a = (if page va + Suc (unat i) \<le> page a \<and> page a < page va + unat n
       then Some (fs ! (page a - (page va + Suc (unat i)))) else mapping ?v2 pd a)"
    "linked d1 \<longrightarrow> linked d'"
    using Suc.hyps(1) [OF x v2(1) cpd dict i(3) enough below] unfolding i(2) by blast
  have "vmm_map_loop v va pa sz n i = kret (va, v')"
    using i(1) v1(1) v'(1) Suc.prems(2) r0 by (subst vmm_map_loop.simps) (simp add: Let_def)
  moreover have "length (frame ?r # fs) = unat n - unat i"
    using v'(4) i(1) by (simp add: word_less_unat)
  moreover have "distinct (frame ?r # fs)" "set (frame ?r # fs) \<subseteq> {frame pa..<1048575} - frames v"
    "frames v' = frames v \<union> set (frame ?r # fs)"
    using v'(5-7) rf fr2 by auto
  moreover have "mapping v' pd a = (if page va + unat i \<le> page a \<and> page a < page va + unat n
       then Some ((frame ?r # fs) ! (page a - (page va + unat i))) else mapping v pd a)" for a
    using i(1) by (auto simp: v'(8) m2 nth_Cons' word_less_unat)
  ultimately show ?case
    using v'(2,9) v1(6) kept_trans [OF k2 v'(3)] by blast
qed


section \<open>The heap region\<close>

text \<open>The kernel space is in use up to page \<open>e\<close> and unused from there on.\<close>

definition space_used_to :: "vmm \<Rightarrow> u32 \<Rightarrow> nat \<Rightarrow> bool" where
  "space_used_to v pd e \<longleftrightarrow> (\<forall>a. 0xC0000000 \<le> unat a \<longrightarrow> (mapping v pd a \<noteq> None) = (page a < e))"

lemma find_kernel_space:
  assumes ok: "flags_ok v (curr_page_directory v)" and sp: "space_used_to v (curr_page_directory v) e"
    and e: "786432 \<le> e" "e * 4096 + unat sz < 0xFFFFFFFF" and sz: "0 < unat sz"
  shows "vmm_find_free_memory v sz True = kret (of_nat (e * 4096))"
proof -
  let ?pd = "curr_page_directory v"
  let ?free = "\<lambda>k. free_run v ?pd (VMM_KERNEL_SPACE_BASE + VMM_KERNEL_SPACE_SIZE) (unat sz) (VMM_KERNEL_SPACE_BASE + k * PAGE_SIZE)"
  define k0 :: u32 where "k0 = of_nat (e - 786432)"
  have k0: "unat k0 = e - 786432"
    using e by (simp add: k0_def del: of_nat_diff)
  have addr: "unat (VMM_KERNEL_SPACE_BASE + k * PAGE_SIZE) = 0xC0000000 + unat k * 4096"
      "page (VMM_KERNEL_SPACE_BASE + k * PAGE_SIZE) = 786432 + unat k" if "k < 262144" for k
    using page_offset [of VMM_KERNEL_SPACE_BASE 262144 k] that by (simp_all add: VMM_KERNEL_SPACE_BASE_def page_def)
  have lt: "k0 < 262144"
    using k0 e sz by (simp add: word_less_unat)
  have base: "VMM_KERNEL_SPACE_BASE + k0 * PAGE_SIZE = of_nat (e * 4096)"
  proof (rule u32_eqI)
    have "0xC0000000 + (e - 786432) * 4096 = e * 4096" "e * 4096 < 4294967296"
      using e by linarith+
    then show "unat (VMM_KERNEL_SPACE_BASE + k0 * PAGE_SIZE) = unat (of_nat (e * 4096) :: u32)"
      unfolding addr(1) [OF lt] k0 by (simp only: unat_of_nat_u32_small)
  qed
  have free0: "?free k0"
    unfolding free_run_def base
  proof (intro allI impI)
    fix j assume j: "j * 4096 < unat sz"
    have u: "unat (of_nat (e * 4096) + of_nat (j * 4096) :: u32) = (e + j) * 4096"
    proof -
      have "(of_nat (e * 4096) + of_nat (j * 4096) :: u32) = of_nat ((e + j) * 4096)"
        unfolding distrib_right of_nat_add ..
      moreover have "(e + j) * 4096 < 4294967296"
        using j e unfolding distrib_right by linarith
      ultimately show ?thesis
        by (simp only: unat_of_nat_u32_small)
    qed
    then have "0xC0000000 \<le> unat (of_nat (e * 4096) + of_nat (j * 4096) :: u32)" "page (of_nat (e * 4096) + of_nat (j * 4096)) = e + j"
      using e(1) by (simp_all add: page_def del: of_nat_mult)
    then have "mapping v ?pd (of_nat (e * 4096) + of_nat (j * 4096)) = None"
      using sp unfolding space_used_to_def by (metis not_add_less1)
    moreover have "of_nat (e * 4096) + of_nat (j * 4096) < VMM_KERNEL_SPACE_BASE + VMM_KERNEL_SPACE_SIZE"
    proof -
      have "unat (VMM_KERNEL_SPACE_BASE + VMM_KERNEL_SPACE_SIZE) = 0xFFFFFFFF"
        by (simp add: VMM_KERNEL_SPACE_BASE_def VMM_KERNEL_SPACE_SIZE_def)
      then show ?thesis
        unfolding word_less_unat u distrib_right using j e by linarith
    qed
    ultimately show "of_nat (e * 4096) + of_nat (j * 4096) < VMM_KERNEL_SPACE_BASE + VMM_KERNEL_SPACE_SIZE \<and>
        mapping v ?pd (of_nat (e * 4096) + of_nat (j * 4096)) = None"
      by blast
  qed
  have not_below: "unat k0 \<le> unat k" if "?free k" "k < 262144" for k
  proof -
    have "mapping v ?pd (VMM_KERNEL_SPACE_BASE + k * PAGE_SIZE) = None"
      using that(1) sz unfolding free_run_def by (drule_tac spec [of _ 0]) simp
    then have "\<not> 786432 + unat k < e"
      using sp addr [OF that(2)] unfolding space_used_to_def by (metis le_add1)
    then show ?thesis
      using k0 by simp
  qed
  have "unat sz \<le> 0xFFFFF000"
    using e by simp
  from find_loop_first [OF ok this sz, of 0 262144 VMM_KERNEL_SPACE_BASE VMM_KERNEL_SPACE_SIZE]
  obtain k where k: "k < 262144" "?free k"
      "vmm_find_loop v VMM_KERNEL_SPACE_BASE VMM_KERNEL_SPACE_SIZE 262144 sz 0 = kret (VMM_KERNEL_SPACE_BASE + k * PAGE_SIZE)"
      "\<forall>j. j < k \<longrightarrow> \<not> ?free j"
    using free0 lt by auto
  have "\<not> k0 < k"
    using k(4) free0 by blast
  then have "k = k0"
    using not_below [OF k(2,1)] by (simp add: word_less_unat word_unat_eq_iff)
  moreover have "div_up VMM_KERNEL_SPACE_SIZE PAGE_SIZE = kret 262144"
    by (simp add: div_up_eq VMM_KERNEL_SPACE_SIZE_def PAGE_SIZE_def)
  ultimately show ?thesis
    using k(3) base by (simp add: vmm_find_free_memory_def del: of_nat_mult)
qed

lemma find_free_frame_some:
  assumes inv: "pmm_inv p m" and zero: "0 \<in> used_frames p m" and some: "{..<1048575} - used_frames p m \<noteq> {}"
  shows "pmm_find_free_frame p m \<noteq> 0" and "0 < frame (pmm_find_free_frame p m)"
    and "{frame (pmm_find_free_frame p m)..<1048575} - used_frames p m = {..<1048575} - used_frames p m"
proof -
  let ?r = "pmm_find_free_frame p m"
  have num: "k < num_memory_frames p \<longleftrightarrow> unat k < 1048575" for k
    using inv by (simp add: pmm_inv_def word_less_unat)
  have r: "?r = pmm_find_loop p m 0"
    by (simp add: pmm_find_free_frame_def pmm_find_free_frame_from_def PMM_PAS_BASE_def pmm_address_to_index_def paging_frame_index_def)
  have all: "\<not> (\<forall>j. unat j < 1048575 \<longrightarrow> pmm_test_frame p m j)"
    using some by (auto simp: used_frames_def)
  obtain k where k: "unat k < 1048575" "\<not> pmm_test_frame p m k" "?r = k * 4096"
      "\<And>j. j < k \<Longrightarrow> pmm_test_frame p m j"
    using pmm_find_loop_spec [of 0 p m] all unfolding r num by auto
  have "k \<noteq> 0"
    using k(2) zero by (auto simp: used_frames_def)
  then show "?r \<noteq> 0" "0 < frame ?r"
    using frame_address [of k] k(1,3) by (simp_all add: frame_def unat_gt_0)
  have "j \<in> used_frames p m" if "j < unat k" for j
    using that k(1) k(4) [of "of_nat j"] by (simp add: used_frames_def word_less_unat)
  then show "{frame ?r..<1048575} - used_frames p m = {..<1048575} - used_frames p m"
    using frame_address(2) [of k] k(1,3) by (auto simp: frame_def) (meson not_le)
qed


text \<open>
  \<^verbatim>\<open>kheap_init\<close> takes the first unused pages of the kernel space, gives each a frame of its own and
  makes the region one free block.
\<close>

lemma kheap_init_ok:
  assumes ok: "boot_ok v pd d (kernel_slots k)" and cur: "curr_page_directory v = pd" and dict: "dict_ok v pd pd"
    and sp: "space_used_to v pd e" and e: "786432 \<le> e" "e * 4096 + 0x2000000 \<le> 0xC0000000 + k * 4194304" and k: "k \<le> 126"
    and below: "unat (placement_memory (vheap v)) + 0x100000 \<le> e * 4096"
    and zero: "0 \<in> frames v" and enough: "8192 \<le> card ({..<1048575} - frames v)"
  shows "\<exists>v' fs. kheap_init v = kret v' \<and> unat (kheap_base (vheap v')) = e * 4096 \<and>
    heap_inv (vheap v') [(0x2000000 - 20, True)] \<and> curr_page_directory v' = pd \<and>
    length fs = 8192 \<and> distinct fs \<and> set fs \<inter> frames v = {} \<and> frames v' = frames v \<union> set fs \<and>
    (\<forall>a. mapping v' pd a = (if e \<le> page a \<and> page a < e + 8192 then Some (fs ! (page a - e)) else mapping v pd a)) \<and>
    (\<exists>d'. dir_ok v' pd d' \<and> (linked d \<longrightarrow> linked d'))"
proof -
  let ?va = "of_nat (e * 4096) :: u32"
  let ?pa = "pmm_find_free_frame (vpmm v) (mem (vheap v))"
  have inv: "pmm_inv (vpmm v) (mem (vheap v))"
    using ok by (simp add: boot_ok_def)
  have va: "unat ?va = e * 4096" "page ?va = e"
    using e k by (simp_all add: page_def del: of_nat_mult)
  have down: "paging_align_address_down ?va = ?va"
    by (rule u32_eqI) (simp add: unat_align_down va(1) del: of_nat_mult)
  have find: "vmm_find_free_memory v KHEAP_HEAP_SIZE True = kret ?va"
    using find_kernel_space [of v e KHEAP_HEAP_SIZE] boot_flags_ok [OF ok] cur sp e k
    by (simp add: KHEAP_HEAP_SIZE_def del: of_nat_mult)
  have pa: "?pa \<noteq> 0" "0 < frame ?pa" "{frame ?pa..<1048575} - frames v = {..<1048575} - frames v"
    using find_free_frame_some [OF inv] zero enough unfolding frames_def by fastforce+
  have slots: "paging_directory_index (?va + j * PAGE_SIZE) \<in> kernel_slots k" if "j < 8192" for j
    using page_offset(2) [of ?va 8192 j] that va e k
    by (intro kernel_slotsI) (auto simp: word_less_unat simp del: of_nat_mult)
  have above: "page a < page ?va" if "unat a < unat (placement_memory (vheap v)) + 0x100000" for a
    using that below va(2) by (simp add: page_def less_mult_imp_div_less)
  obtain v1 d1 fs where v1: "vmm_map_loop v ?va ?pa KHEAP_HEAP_SIZE 8192 0 = kret (?va, v1)" "kept v v1"
    "length fs = 8192" "distinct fs" "set fs \<subseteq> {frame ?pa..<1048575} - frames v" "frames v1 = frames v \<union> set fs"
    "\<And>a. mapping v1 pd a = (if e \<le> page a \<and> page a < e + 8192 then Some (fs ! (page a - e)) else mapping v pd a)"
    "dir_ok v1 pd d1" "linked d \<longrightarrow> linked d1"
    using map_loop_ok [OF ok cur dict, of 0 8192 ?pa ?va KHEAP_HEAP_SIZE] pa enough slots va e k above
    by (auto simp: boot_ok_def simp del: of_nat_mult)
  have "div_up KHEAP_HEAP_SIZE PAGE_SIZE = kret 8192"
    by (simp add: div_up_eq KHEAP_HEAP_SIZE_def PAGE_SIZE_def)
  moreover have va0: "?va \<noteq> 0"
    using va(1) e(1) by (metis mult_eq_0_iff not_numeral_le_zero unat_0 zero_neq_numeral)
  ultimately have map: "vmm_map_memory v 0 0 KHEAP_HEAP_SIZE True True = kret (?va, v1)"
    using pa(1) v1(1) by (simp add: vmm_map_memory_def find down Let_def del: of_nat_mult)
  define v' where "v' = v1\<lparr>vheap := kheap_init_head (vheap v1) ?va\<rparr>"
  have "kheap_init v = kret v'"
    using va0 by (simp add: kheap_init_def map v'_def del: of_nat_mult)
  moreover have "heap_inv (vheap v') [(0x2000000 - 20, True)]"
    using heap_inv_init [of ?va "vheap v1"] va(1) e k below v1(2) by (simp add: v'_def kept_def del: of_nat_mult)
  moreover have "mapping v' pd = mapping v1 pd"
    by (intro mapping_cong vpage_cong) (simp_all add: v'_def)
  moreover have "dir_ok v' pd d1"
    using v1(8) dir_ok_cong [of v' v1] by (simp add: v'_def)
  moreover have "frames v' = frames v1" "kheap_base (vheap v') = ?va" "curr_page_directory v' = pd"
    using cur v1(2) by (simp_all add: frames_def v'_def kheap_init_head_def kept_def)
  ultimately show ?thesis
    using v1(3-7,9) va(1) by (intro exI [of _ v'] exI [of _ fs]) auto
qed

end
