(* ===== verification/Vmm_Boot.thy ===== *)
theory Vmm_Boot
  imports Vmm_Map
begin

text \<open>
  The properties of the virtual memory manager, with a machine on which they are instantiated: a
  kernel of two megabytes, 63 megabytes of free memory behind the first one, and the frame bitmap at
  the start of the placement memory.
\<close>

section \<open>A sample machine\<close>

definition boot_bitmap :: mem where
  "boot_bitmap a = (if 0xC0200020 \<le> a \<and> a < 0xC0200800 then 0 else 0xFF)"

definition boot_vmm :: vmm where
  "boot_vmm = \<lparr>kernel_page_directory = 0, curr_page_directory = 0, dirs = Map.empty, ptabs = Map.empty,
     vheap = \<lparr>placement_memory = 0xC0200000, placement_head = 0xC0220000,
       placement_free_memory = 0xE0000, kheap_enabled = False, kheap_base = 0, kheap_head = 0,
       kheap_tail = 0, heads = Map.empty, mem = boot_bitmap\<rparr>,
     vpmm = \<lparr>regions = 0, num_regions = 0, region_size = 12, memory_size = 0,
       num_memory_frames = 1048575, num_memory_frames_used = 1032447, bitmap = 0xC0200000, bitmap_size = 131072\<rparr>,
     vcpu = \<lparr>cr0 = 0, cr3 = 0, cr4 = 0, invlpg = []\<rparr>\<rparr>"

lemma bit_FF: "k < 8 \<Longrightarrow> bit (0xFF :: u8) k"
proof -
  have ones: "(0xFF :: u8) = mask 8"
    by (simp add: mask_eq_exp_minus_1)
  show "k < 8 \<Longrightarrow> bit (0xFF :: u8) k"
    unfolding ones bit_mask_iff by simp
qed

lemma boot_frames: "frames boot_vmm = {i. i < 1048576 \<and> \<not> (256 \<le> i \<and> i < 16384)}"
proof -
  have "bit (boot_bitmap (0xC0200000 + of_nat i div 8)) (unat (of_nat i :: u32) mod 8) \<longleftrightarrow> \<not> (256 \<le> i \<and> i < 16384)"
    if "i < 1048576" for i
  proof -
    have u: "unat (0xC0200000 + of_nat i div 8 :: u32) = 0xC0200000 + i div 8"
      using that by (simp add: unat_add_u32 unat_div less_mult_imp_div_less)
    have "0xC0200020 \<le> (0xC0200000 + of_nat i div 8 :: u32) \<and> (0xC0200000 + of_nat i div 8 :: u32) < 0xC0200800 \<longleftrightarrow> 256 \<le> i \<and> i < 16384"
      unfolding u32_order u using that by auto
    then show ?thesis
      using bit_FF [of "unat (of_nat i :: u32) mod 8"] by (simp add: boot_bitmap_def)
  qed
  then show ?thesis
    by (auto simp: frames_def used_frames_def test_frame_bit boot_vmm_def)
qed

lemma boot_vmm_before: "vmm_before boot_vmm 9"
proof -
  have sets: "{i. i < 1048576 \<and> \<not> (256 \<le> i \<and> i < 16384)} = {0..<256} \<union> {16384..<1048576 :: nat}"
    by auto
  have "card ({0..<256} \<union> {16384..<1048576 :: nat}) = card {0..<256 :: nat} + card {16384..<1048576 :: nat}"
    by (rule card_Un_disjoint) (simp_all add: ivl_disj_int)
  then have "card (used_frames (vpmm boot_vmm) (mem (vheap boot_vmm))) = 1032448"
    unfolding frames_def [symmetric] boot_frames sets by simp
  then have "pmm_inv (vpmm boot_vmm) (mem (vheap boot_vmm))"
    unfolding pmm_inv_def by (simp add: boot_vmm_def)
  then show ?thesis
    by (simp add: vmm_before_def) (simp add: boot_vmm_def placement_inv_def)
qed


section \<open>Properties\<close>

text \<open>
  C12: \<^verbatim>\<open>vmm_init\<close> succeeds when the placement memory has room for a page directory and
  one table per four megabytes.  Afterwards paging is on with the new directory.  For every
  address of the real mode memory and of the kernel both the walk of the paging unit from \<^verbatim>\<open>CR3\<close> and
  the kernel's own translation end at the address 3 GB below it; the walk fails for every other
  address.  Exactly the frames of these two ranges have become used.
\<close>
theorem vmm_init_maps_kernel:
  assumes "vmm_before v k" and "0 < k" and "0xC0000000 \<le> unat kstart" and "unat kstart \<le> unat kend"
    and "unat kend \<le> 0xC0000000 + k * 4194304"
  shows "\<exists>v' pd. vmm_init v kstart kend = kret v' \<and> curr_page_directory v' = pd \<and>
    bit (cr0 (vcpu v')) 31 \<and> cr3 (vcpu v') = pd - VMM_KERNEL_SPACE_BASE \<and>
    (\<forall>a. if boot_page kstart kend a
         then vmm_virtual_to_physical_address v' pd a = kret (a - VMM_KERNEL_SPACE_BASE) \<and>
           map_option fst (mmu_walk v' (cr3 (vcpu v')) a) = Some (a - VMM_KERNEL_SPACE_BASE)
         else vmm_is_page_used v' pd a = kret False \<and> mmu_walk v' (cr3 (vcpu v')) a = None) \<and>
    frames v' = frames v \<union> {0..<256} \<union> {page kstart - 786432..<page kstart + kernel_pages kstart kend - 786432}"
proof -
  obtain v' d where v': "vmm_init v kstart kend = kret v'"
    "boot_ok v' (kernel_page_directory v') d (kernel_slots k)" "curr_page_directory v' = kernel_page_directory v'"
    "bit (cr0 (vcpu v')) 31" "cr3 (vcpu v') = kernel_page_directory v' - VMM_KERNEL_SPACE_BASE"
    "frames v' = frames v \<union> {0..<256} \<union> {page kstart - 786432..<page kstart + kernel_pages kstart kend - 786432}"
    "\<And>a. mapping v' (kernel_page_directory v') a = (if boot_page kstart kend a then Some (page a - 786432) else None)"
    "linked d"
    using vmm_init_ok [OF assms] by blast
  have dok: "dir_ok v' (kernel_page_directory v') d"
    using v'(2) by (simp add: boot_ok_def)
  have "0xC0000000 \<le> unat a" if "boot_page kstart kend a" for a
  proof -
    have "786432 \<le> page kstart"
      using assms(3) by (simp add: page_def)
    then have "786432 * 4096 \<le> page a * 4096"
      using that by (auto simp: boot_page_def)
    also have "\<dots> \<le> unat a"
      by (simp add: page_def)
    finally show ?thesis
      by simp
  qed
  then have low: "vmm_virtual_to_physical_address v' (kernel_page_directory v') a = kret (a - VMM_KERNEL_SPACE_BASE)"
    "of_nat (page a - 786432) * 4096 + paging_memory_offset a = a - VMM_KERNEL_SPACE_BASE"
    if "boot_page kstart kend a" for a
    using that boot_translate [OF dok] linear_address v'(7) by simp_all
  have walk: "mmu_walk v' (cr3 (vcpu v')) a = (if boot_page kstart kend a
      then Some (a - VMM_KERNEL_SPACE_BASE, pte_read_write (vpage v' (kernel_page_directory v') a),
        pte_user_supervisor (vpage v' (kernel_page_directory v') a)) else None)" for a
    using low(2) by (simp add: v'(5,7) mmu_walk_linked [OF dok v'(8)])
  have all: "if boot_page kstart kend a
      then vmm_virtual_to_physical_address v' (kernel_page_directory v') a = kret (a - VMM_KERNEL_SPACE_BASE) \<and>
        map_option fst (mmu_walk v' (cr3 (vcpu v')) a) = Some (a - VMM_KERNEL_SPACE_BASE)
      else vmm_is_page_used v' (kernel_page_directory v') a = kret False \<and> mmu_walk v' (cr3 (vcpu v')) a = None" for a
    using low(1) [of a] page_used_mapping [OF boot_flags_ok [OF v'(2)], of a] v'(7) [of a] walk [of a] by simp
  show ?thesis
    by (intro exI conjI allI) (rule v' all)+
qed

theorem vmm_init_maps_kernel_witness:
  "\<exists>v' pd. vmm_init boot_vmm 0xC0100000 0xC0300000 = kret v' \<and> curr_page_directory v' = pd \<and>
    vmm_virtual_to_physical_address v' pd 0xC0123456 = kret 0x00123456 \<and>
    map_option fst (mmu_walk v' (cr3 (vcpu v')) 0xC0123456) = Some 0x00123456"
proof -
  have "boot_page 0xC0100000 0xC0300000 0xC0123456"
    by (simp add: boot_page_def page_def kernel_pages_def)
  then show ?thesis
    using vmm_init_maps_kernel [OF boot_vmm_before, of "0xC0100000" "0xC0300000"]
    by (auto simp: VMM_KERNEL_SPACE_BASE_def dest!: spec [of _ "0xC0123456"])
qed

text \<open>
  C11: after \<^verbatim>\<open>vmm_init\<close> the call of \<^verbatim>\<open>kheap_init\<close> succeeds if 8192 frames behind the
  kernel are free.  The heap starts at the first page behind the kernel as one free block and keeps the
  heap invariant; its 8192 pages are mapped to 8192 different frames, none of them in use before, and
  the kernel and the real mode memory keep their mapping; the walk of the paging unit finds the same.
\<close>
theorem kheap_init_maps_heap:
  assumes "vmm_before v k" and kstart: "unat kstart = 0xC0100000"
    and pl: "unat kstart \<le> unat (placement_memory (vheap v))" "unat (placement_memory (vheap v)) + 0x100000 \<le> unat kend"
    and e: "e = (unat kend + 4095) div 4096" and lim: "e * 4096 + 0x2000000 \<le> 0xC0000000 + k * 4194304"
    and enough: "8192 \<le> card ({e - 786432..<1048575} - frames v)"
  shows "\<exists>v1 v2 fs. vmm_init v kstart kend = kret v1 \<and> kheap_init v1 = kret v2 \<and>
    heap_inv (vheap v2) [(0x2000000 - 20, True)] \<and> unat (kheap_base (vheap v2)) = e * 4096 \<and>
    length fs = 8192 \<and> distinct fs \<and> set fs \<inter> (frames v \<union> {..<e - 786432}) = {} \<and>
    (\<forall>a. mapping v2 (curr_page_directory v2) a =
       (if 786432 \<le> page a \<and> page a < e then Some (page a - 786432)
        else if e \<le> page a \<and> page a < e + 8192 then Some (fs ! (page a - e)) else None)) \<and>
    (\<forall>a. map_option fst (mmu_walk v2 (curr_page_directory v2 - VMM_KERNEL_SPACE_BASE) a) =
       map_option (\<lambda>f. of_nat f * 4096 + paging_memory_offset a) (mapping v2 (curr_page_directory v2) a))"
proof -
  have kend: "unat kend \<le> e * 4096" "0xC0200000 \<le> unat kend"
    using pl kstart e by simp_all
  have k: "0 < k" "0xC0000000 \<le> unat kstart" "unat kstart \<le> unat kend" "unat kend \<le> 0xC0000000 + k * 4194304"
    using kend lim kstart by auto
  obtain v1 d where v1: "vmm_init v kstart kend = kret v1" "boot_ok v1 (curr_page_directory v1) d (kernel_slots k)"
    "placement_memory (vheap v1) = placement_memory (vheap v)"
    "frames v1 = frames v \<union> {0..<256} \<union> {page kstart - 786432..<page kstart + kernel_pages kstart kend - 786432}"
    "\<And>a. mapping v1 (curr_page_directory v1) a = (if boot_page kstart kend a then Some (page a - 786432) else None)"
    "linked d"
    using vmm_init_ok [OF assms(1) k] by metis
  have pg: "page kstart = 786688"
    by (simp add: page_def kstart)
  have kp: "786688 + kernel_pages kstart kend = e"
    using kend(2) kstart e by (simp add: kernel_pages_def)
  then have e0: "786688 \<le> e"
    by simp
  have bp: "boot_page kstart kend a \<longleftrightarrow> 786432 \<le> page a \<and> page a < e" for a
    unfolding boot_page_def pg kp using e0 by auto
  have "{0..<256} \<union> {786688 - 786432..<e - 786432} = {..<e - 786432}"
    using e0 by auto
  then have fr: "frames v1 = frames v \<union> {..<e - 786432}"
    unfolding v1(4) pg kp Un_assoc by (rule arg_cong)
  have sp: "space_used_to v1 (curr_page_directory v1) e"
    unfolding space_used_to_def using v1(5) bp by (auto simp: page_def)
  have dict: "dict_ok v1 (curr_page_directory v1) (curr_page_directory v1)"
  proof -
    have "0xC0000000 \<le> unat a \<and> boot_page kstart kend a" if "in_placement v1 a" for a
    proof -
      have "0xC0000000 \<le> unat a" "unat a < e * 4096"
        using that pl kstart kend(1) unfolding in_placement_def v1(3) by linarith+
      then show ?thesis
        unfolding bp page_def by (simp add: less_mult_imp_div_less)
    qed
    then show ?thesis
      using v1(5) unfolding dict_ok_def by metis
  qed
  have "{..<1048575} - frames v1 = {e - 786432..<1048575} - frames v"
    unfolding fr by auto
  then have en: "8192 \<le> card ({..<1048575} - frames v1)"
    using enough by simp
  have below: "unat (placement_memory (vheap v1)) + 0x100000 \<le> e * 4096" "0 \<in> frames v1" "786432 \<le> e"
    using pl(2) kend(1) v1(3) fr e0 by auto
  obtain v2 fs where v2: "kheap_init v1 = kret v2" "unat (kheap_base (vheap v2)) = e * 4096"
    "heap_inv (vheap v2) [(0x2000000 - 20, True)]" "curr_page_directory v2 = curr_page_directory v1"
    "length fs = 8192" "distinct fs" "set fs \<inter> frames v1 = {}"
    "\<And>a. mapping v2 (curr_page_directory v1) a =
       (if e \<le> page a \<and> page a < e + 8192 then Some (fs ! (page a - e)) else mapping v1 (curr_page_directory v1) a)"
    "\<exists>d'. dir_ok v2 (curr_page_directory v1) d' \<and> (linked d \<longrightarrow> linked d')"
    using kheap_init_ok [OF v1(2) refl dict sp below(3) lim slots_bound [OF assms(1)] below(1,2) en] by blast
  have "map_option fst (mmu_walk v2 (curr_page_directory v2 - VMM_KERNEL_SPACE_BASE) a) =
      map_option (\<lambda>f. of_nat f * 4096 + paging_memory_offset a) (mapping v2 (curr_page_directory v2) a)" for a
    using v2(4,9) v1(6) mmu_walk_linked [of v2 "curr_page_directory v2" _ a] by (auto split: option.splits)
  then show ?thesis
    using v2(1-8) fr v1(1) by (intro exI [of _ v1] exI [of _ v2] exI [of _ fs]) (auto simp: v1(5) bp)
qed

theorem kheap_init_maps_heap_witness:
  "\<exists>v1 v2. vmm_init boot_vmm 0xC0100000 0xC0300000 = kret v1 \<and> kheap_init v1 = kret v2 \<and>
    heap_inv (vheap v2) [(0x2000000 - 20, True)] \<and> unat (kheap_base (vheap v2)) = 0xC0300000"
proof -
  have "{(787200 :: nat) - 786432..<1048575} - frames boot_vmm = {768..<16384}"
    unfolding boot_frames by auto
  then show ?thesis
    using kheap_init_maps_heap [OF boot_vmm_before, of "0xC0100000" "0xC0300000" 787200]
    by (auto simp: boot_vmm_def)
qed


text \<open>
  C10: mapping a page while the kernel boots succeeds.  Both the walk of the paging
  unit and the kernel's own translation then take every address of the page to the same offset in the
  frame of the physical address, with the rights asked for; every other address keeps its entry and
  its walk, no frame changes hands, and the directory stays fit for the next mapping.
\<close>
theorem vmm_map_page_translates:
  assumes "boot_ok v pd d S" and "linked d" and "paging_directory_index va \<in> S" and "dict_ok v pd dict"
  shows "\<exists>v'. vmm_map_page v pd dict va pa is_kernel is_writeable = kret v' \<and> frames v' = frames v \<and>
    (\<exists>d'. boot_ok v' pd d' S \<and> linked d') \<and>
    (\<forall>a. if page a = page va then
           vmm_virtual_to_physical_address v' pd a = kret (paging_align_address_down pa + paging_memory_offset a) \<and>
           mmu_walk v' (pd - VMM_KERNEL_SPACE_BASE) a =
             Some (paging_align_address_down pa + paging_memory_offset a, is_writeable, \<not> is_kernel)
         else vpage v' pd a = vpage v pd a \<and>
           mmu_walk v' (pd - VMM_KERNEL_SPACE_BASE) a = mmu_walk v (pd - VMM_KERNEL_SPACE_BASE) a)"
proof -
  obtain v' d' where v': "vmm_map_page v pd dict va pa is_kernel is_writeable = kret v'" "boot_ok v' pd d' S"
    "vpage v' pd = map_entry v pd va pa is_kernel is_writeable" "frames v' = frames v" "linked d'"
    using map_page_boot [OF assms(1,3,4)] assms(2) by blast
  have dok: "dir_ok v' pd d'" "dir_ok v pd d"
    using v'(2) assms(1) by (simp_all add: boot_ok_def)
  have base: "of_nat (frame pa) * 4096 = paging_align_address_down pa"
  proof (rule u32_eqI)
    have "unat (of_nat (frame pa) * 4096 :: u32) = unat pa div 4096 * 4096"
      using frame_address(1) [of "of_nat (frame pa)"] address_index_bound [of pa]
      by (simp add: frame_def pmm_address_to_index_def unat_frame_index)
    also have "\<dots> = unat (paging_align_address_down pa)"
      by (simp add: unat_align_down minus_mod_eq_div_mult)
    finally show "unat (of_nat (frame pa) * 4096 :: u32) = unat (paging_align_address_down pa)" .
  qed
  have m: "mapping v' pd a = (if page a = page va then Some (frame pa) else mapping v pd a)" for a
    using mapping_map_entry [OF v'(3)] .
  have "vmm_virtual_to_physical_address v' pd a = kret (paging_align_address_down pa + paging_memory_offset a)"
    if "page a = page va" for a
    using translate_page [OF dok(1)] m that base by simp
  moreover have "mmu_walk v' (pd - VMM_KERNEL_SPACE_BASE) a =
      (if page a = page va then Some (paging_align_address_down pa + paging_memory_offset a, is_writeable, \<not> is_kernel)
       else mmu_walk v (pd - VMM_KERNEL_SPACE_BASE) a)" for a
    using base by (simp add: mmu_walk_linked [OF dok(1) v'(5)] mmu_walk_linked [OF dok(2) assms(2)] m v'(3)
        map_entry_def mapped_pte_def split: option.split)
  ultimately show ?thesis
    using v'(1-5) by (intro exI [of _ v']) (auto simp: map_entry_def)
qed

lemma boot_vmm_ready:
  "\<exists>v d. boot_ok v (curr_page_directory v) d (kernel_slots 9) \<and> linked d \<and>
    mapping v (curr_page_directory v) 0xC0100000 = Some 256"
proof -
  have "boot_page 0xC0100000 0xC0300000 0xC0100000" "page 0xC0100000 - 786432 = 256"
    by (simp_all add: boot_page_def page_def kernel_pages_def)
  moreover have "(0xC0000000 :: nat) \<le> unat (0xC0100000 :: u32)" "unat (0xC0100000 :: u32) \<le> unat (0xC0300000 :: u32)"
    "unat (0xC0300000 :: u32) \<le> 0xC0000000 + 9 * 4194304"
    by simp_all
  note vmm_init_ok [OF boot_vmm_before _ this]
  ultimately show ?thesis
    by (metis zero_less_numeral)
qed

theorem vmm_map_page_translates_witness:
  "\<exists>v v'. vmm_map_page v (curr_page_directory v) 0 0xC1000000 0x00400000 True True = kret v' \<and>
     vmm_virtual_to_physical_address v' (curr_page_directory v) 0xC1000123 = kret 0x00400123 \<and>
     mmu_walk v' (curr_page_directory v - VMM_KERNEL_SPACE_BASE) 0xC1000123 = Some (0x00400123, True, False)"
proof -
  obtain v d where v: "boot_ok v (curr_page_directory v) d (kernel_slots 9)" "linked d"
    using boot_vmm_ready by (elim exE conjE)
  have "paging_directory_index 0xC1000000 \<in> kernel_slots 9"
    by (rule kernel_slotsI) simp_all
  moreover have "page 0xC1000123 = page 0xC1000000"
    by (simp add: page_def)
  moreover have "paging_align_address_down 0x00400000 + paging_memory_offset 0xC1000123 = 0x00400123"
    by (simp add: paging_align_address_down_def paging_memory_offset_def PAGE_SIZE_def)
  moreover have "dict_ok v (curr_page_directory v) 0"
    by (simp add: dict_ok_def)
  ultimately show ?thesis
    using vmm_map_page_translates [OF v, of "0xC1000000" 0 "0x00400000" True True] by metis
qed


lemma frame_of_translation: "f < 1048576 \<Longrightarrow> frame (of_nat f * 4096 + paging_memory_offset a) = f"
proof -
  assume f: "f < 1048576"
  then have "unat (of_nat f * 4096 :: u32) = f * 4096"
    by (simp add: unat_mult_u32)
  moreover have "unat a mod 4096 < 4096"
    by simp
  ultimately have "unat (of_nat f * 4096 + paging_memory_offset a) = f * 4096 + unat a mod 4096"
    using f by (simp only: unat_add_u32 unat_memory_offset) simp
  then show ?thesis
    by (simp add: frame_def pmm_address_to_index_def unat_frame_index)
qed

lemma mark_available_frames:
  assumes "pmm_inv (vpmm v) (mem (vheap v))"
  shows "vpage (vmm_mark_available v pa) pd = vpage v pd" and "frames (vmm_mark_available v pa) = frames v - {frame pa}"
proof -
  obtain p m where pm: "pmm_mark_frame_available (vpmm v) (mem (vheap v)) pa = (p, m)"
    by fastforce
  show "vpage (vmm_mark_available v pa) pd = vpage v pd"
    by (rule vpage_cong) (simp_all add: vmm_mark_available_def pm)
  show "frames (vmm_mark_available v pa) = frames v - {frame pa}"
    using mark_frame_available_law [OF assms pm] by (simp add: vmm_mark_available_def pm frames_def)
qed

text \<open>
  C33: unmapping a page releases its frame, so that the next search may hand it
  out again, but leaves the page table entry as it was: the page stays present and still translates
  to the released frame.
\<close>
theorem vmm_unmap_page_dangles:
  assumes "boot_ok v (curr_page_directory v) d S" and "mapping v (curr_page_directory v) a = Some f" and "0 < f"
  shows "\<exists>v'. vmm_unmap_page v a = kret v' \<and> f \<notin> frames v' \<and> frames v' = frames v - {f} \<and>
    vpage v' (curr_page_directory v) = vpage v (curr_page_directory v) \<and>
    mapping v' (curr_page_directory v) a = Some f"
proof -
  let ?pd = "curr_page_directory v"
  let ?p = "of_nat f * 4096 + paging_memory_offset a :: u32"
  have "f = unat (pte_page_base (vpage v ?pd a))"
    using assms(2) by (auto simp: mapping_def split: if_splits)
  then have f: "f < 1048576"
    using unsigned_less [of "pte_page_base (vpage v ?pd a)"] by simp
  have ok: "dir_ok v ?pd d" "pmm_inv (vpmm v) (mem (vheap v))"
    using assms(1) by (simp_all add: boot_ok_def)
  have fr: "frame ?p = f"
    using f by (rule frame_of_translation)
  have "frame 0 = 0"
    by (simp add: frame_def pmm_address_to_index_def unat_frame_index)
  then have "?p = 0 \<Longrightarrow> f = 0"
    using fr by simp
  then have "?p \<noteq> 0"
    using assms(3) by blast
  then have "vmm_unmap_page v a = kret (vmm_mark_available v ?p)"
    using translate_page [OF ok(1) assms(2)] by (simp add: vmm_unmap_page_def)
  then show ?thesis
    using mark_available_frames [OF ok(2), of ?p] mapping_cong [OF mark_available_frames(1) [OF ok(2), of ?p]] fr assms(2)
    by simp
qed

theorem vmm_unmap_page_dangles_witness:
  "\<exists>v v'. vmm_unmap_page v 0xC0100000 = kret v' \<and> 256 \<notin> frames v' \<and>
     mapping v' (curr_page_directory v) 0xC0100000 = Some 256"
proof -
  obtain v d where "boot_ok v (curr_page_directory v) d (kernel_slots 9)"
    "mapping v (curr_page_directory v) 0xC0100000 = Some 256"
    using boot_vmm_ready by (elim exE conjE)
  from vmm_unmap_page_dangles [OF this] show ?thesis
    by auto
qed

end
