(* ===== verification/Linked_List.thy ===== *)
theory Linked_List
  imports Heap Array
begin

text \<open>
  \<^verbatim>\<open>kernel/src/utils/linked_list.c\<close>: doubly linked lists of pointers.

  Nodes and list headers are objects found by their address; creating one writes its fields at the
  address the allocator returned.  Releasing one is a call of the deallocator and leaves the object
  readable, as \<^verbatim>\<open>kfree\<close> does, which is what \<^verbatim>\<open>linked_list_destroy\<close> relies on.  Allocator, deallocator
  and comparison are function pointers, so they are arguments.
\<close>

section \<open>Nodes and lists\<close>

record linked_list_node =
  ln_prev :: u32
  ln_next :: u32
  ln_data :: u32

record linked_list =
  ll_head :: u32
  ll_tail :: u32
  ll_size :: u32

record lstore =
  lnodes :: "u32 \<rightharpoonup> linked_list_node"
  llists :: "u32 \<rightharpoonup> linked_list"

type_synonym 'h allocator_fn = "'h \<Rightarrow> u32 \<Rightarrow> (u32 \<times> 'h) kres"
type_synonym 'h free_fn = "'h \<Rightarrow> u32 \<Rightarrow> 'h kres"

definition LIST_STRUCT_SIZE :: u32 where
  "LIST_STRUCT_SIZE = 12"

definition LIST_NODE_SIZE :: u32 where
  "LIST_NODE_SIZE = 12"


section \<open>Creation\<close>

definition linked_list_init :: "lstore \<Rightarrow> u32 \<Rightarrow> bool \<times> lstore" where
  "linked_list_init st list =
     (if list = 0 then (False, st)
      else (True, st\<lparr>llists := (llists st)(list \<mapsto> \<lparr>ll_head = 0, ll_tail = 0, ll_size = 0\<rparr>)\<rparr>))"

definition linked_list_node_init :: "lstore \<Rightarrow> u32 \<Rightarrow> u32 \<Rightarrow> bool \<times> lstore" where
  "linked_list_node_init st node data =
     (if node = 0 then (False, st)
      else (True, st\<lparr>lnodes := (lnodes st)(node \<mapsto> \<lparr>ln_prev = 0, ln_next = 0, ln_data = data\<rparr>)\<rparr>))"

definition linked_list_create :: "'h allocator_fn \<Rightarrow> lstore \<Rightarrow> 'h \<Rightarrow> (u32 \<times> lstore \<times> 'h) kres" where
  "linked_list_create allocator st h =
     kbind (allocator h LIST_STRUCT_SIZE) (\<lambda>(list, h1).
       let (ok, st1) = linked_list_init st list in
       if \<not> ok then kret (0, st1, h1) else kret (list, st1, h1))"

definition linked_list_node_create :: "u32 \<Rightarrow> 'h allocator_fn \<Rightarrow> lstore \<Rightarrow> 'h \<Rightarrow> (u32 \<times> lstore \<times> 'h) kres" where
  "linked_list_node_create data allocator st h =
     kbind (allocator h LIST_NODE_SIZE) (\<lambda>(node, h1).
       let (ok, st1) = linked_list_node_init st node data in
       if \<not> ok then kret (0, st1, h1) else kret (node, st1, h1))"


section \<open>Insertion and removal\<close>

definition linked_list_empty :: "lstore \<Rightarrow> u32 \<Rightarrow> bool kres" where
  "linked_list_empty st list = kbind (deref (llists st) list) (\<lambda>l. kret (ll_head l = 0))"

definition linked_list_append :: "lstore \<Rightarrow> u32 \<Rightarrow> u32 \<Rightarrow> lstore kres" where
  "linked_list_append st list node =
     (if list = 0 \<or> node = 0 then kret st
      else kbind (linked_list_empty st list) (\<lambda>e.
        kbind (deref (llists st) list) (\<lambda>l.
          kbind (if e then
                   kbind (modify (lnodes st) node (\<lambda>n. n\<lparr>ln_prev := 0, ln_next := 0\<rparr>)) (\<lambda>N.
                     kret (N, l\<lparr>ll_head := node, ll_tail := node\<rparr>))
                 else
                   kbind (modify (lnodes st) node (\<lambda>n. n\<lparr>ln_prev := ll_tail l, ln_next := 0\<rparr>)) (\<lambda>N.
                     kbind (modify N (ll_tail l) (\<lambda>n. n\<lparr>ln_next := node\<rparr>)) (\<lambda>N'.
                       kret (N', l\<lparr>ll_tail := node\<rparr>)))) (\<lambda>(N, l').
            kret (st\<lparr>lnodes := N, llists := (llists st)(list \<mapsto> l'\<lparr>ll_size := ll_size l' + 1\<rparr>)\<rparr>)))))"

definition linked_list_remove :: "lstore \<Rightarrow> u32 \<Rightarrow> u32 \<Rightarrow> lstore kres" where
  "linked_list_remove st list node =
     (if list = 0 \<or> node = 0 then kret st
      else kbind (deref (llists st) list) (\<lambda>l.
        kbind (deref (lnodes st) node) (\<lambda>n.
          let l1 = (if ll_head l = node then l\<lparr>ll_head := ln_next n\<rparr> else l);
              l2 = (if ll_tail l1 = node then l1\<lparr>ll_tail := ln_prev n\<rparr> else l1)
          in kbind (if ln_prev n \<noteq> 0 then modify (lnodes st) (ln_prev n) (\<lambda>p. p\<lparr>ln_next := ln_next n\<rparr>)
                    else kret (lnodes st)) (\<lambda>N1.
             kbind (deref N1 node) (\<lambda>n1.
             kbind (if ln_next n1 \<noteq> 0 then modify N1 (ln_next n1) (\<lambda>p. p\<lparr>ln_prev := ln_prev n1\<rparr>)
                    else kret N1) (\<lambda>N2.
             kbind (modify N2 node (\<lambda>n. n\<lparr>ln_prev := 0, ln_next := 0\<rparr>)) (\<lambda>N3.
               kret (st\<lparr>lnodes := N3, llists := (llists st)(list \<mapsto> l2\<lparr>ll_size := ll_size l2 - 1\<rparr>)\<rparr>))))))))"

definition linked_list_pop_head :: "lstore \<Rightarrow> u32 \<Rightarrow> (u32 \<times> lstore) kres" where
  "linked_list_pop_head st list =
     (if list = 0 then kret (0, st)
      else kbind (deref (llists st) list) (\<lambda>l.
        let head = ll_head l in
        kbind (linked_list_remove st list head) (\<lambda>st1. kret (head, st1))))"

text \<open>The last element is not looked at: \<^verbatim>\<open>tail\<close> is initialised with \<^verbatim>\<open>list->head\<close>.\<close>

definition linked_list_pop_tail :: "lstore \<Rightarrow> u32 \<Rightarrow> (u32 \<times> lstore) kres" where
  "linked_list_pop_tail st list =
     (if list = 0 then kret (0, st)
      else kbind (deref (llists st) list) (\<lambda>l.
        let tail = ll_head l in
        kbind (linked_list_remove st list tail) (\<lambda>st1. kret (tail, st1))))"


section \<open>Loops over a list\<close>

partial_function (option) linked_list_destroy_loop ::
  "lstore \<Rightarrow> bool \<Rightarrow> 'h free_fn \<Rightarrow> 'h \<Rightarrow> u32 \<Rightarrow> 'h kres" where
  "linked_list_destroy_loop st free_data deallocator h node =
     (if node = 0 then kret h
      else kbind (deref (lnodes st) node) (\<lambda>n.
        kbind (if free_data then deallocator h (ln_data n) else kret h) (\<lambda>h1.
          kbind (deallocator h1 node) (\<lambda>h2.
            linked_list_destroy_loop st free_data deallocator h2 (ln_next n)))))"

definition linked_list_destroy :: "lstore \<Rightarrow> u32 \<Rightarrow> bool \<Rightarrow> 'h free_fn \<Rightarrow> 'h \<Rightarrow> 'h kres" where
  "linked_list_destroy st list free_data deallocator h =
     (if list = 0 then kret h
      else kbind (deref (llists st) list) (\<lambda>l.
        kbind (linked_list_destroy_loop st free_data deallocator h (ll_head l)) (\<lambda>h1.
          deallocator h1 list)))"

definition linked_list_node_swap :: "lstore \<Rightarrow> u32 \<Rightarrow> u32 \<Rightarrow> lstore kres" where
  "linked_list_node_swap st a b =
     kbind (deref (lnodes st) a) (\<lambda>na.
       kbind (deref (lnodes st) b) (\<lambda>nb.
         kbind (modify (lnodes st) a (\<lambda>n. n\<lparr>ln_data := ln_data nb\<rparr>)) (\<lambda>N.
           kbind (modify N b (\<lambda>n. n\<lparr>ln_data := ln_data na\<rparr>)) (\<lambda>N'.
             kret (st\<lparr>lnodes := N'\<rparr>)))))"

partial_function (option) linked_list_sort_inner ::
  "lstore \<Rightarrow> (u32 \<Rightarrow> u32 \<Rightarrow> int) \<Rightarrow> u32 \<Rightarrow> u32 \<Rightarrow> lstore kres" where
  "linked_list_sort_inner st cmp node nxt =
     (if nxt = 0 then kret st
      else kbind (deref (lnodes st) node) (\<lambda>a.
        kbind (deref (lnodes st) nxt) (\<lambda>b.
          kbind (if 0 < cmp (ln_data a) (ln_data b) then linked_list_node_swap st node nxt else kret st) (\<lambda>st1.
            linked_list_sort_inner st1 cmp node (ln_next b)))))"

partial_function (option) linked_list_sort_outer ::
  "lstore \<Rightarrow> (u32 \<Rightarrow> u32 \<Rightarrow> int) \<Rightarrow> u32 \<Rightarrow> lstore kres" where
  "linked_list_sort_outer st cmp node =
     (if node = 0 then kret st
      else kbind (deref (lnodes st) node) (\<lambda>a.
        kbind (linked_list_sort_inner st cmp node (ln_next a)) (\<lambda>st1.
          kbind (deref (lnodes st1) node) (\<lambda>a1.
            linked_list_sort_outer st1 cmp (ln_next a1)))))"

definition linked_list_sort :: "lstore \<Rightarrow> u32 \<Rightarrow> (u32 \<Rightarrow> u32 \<Rightarrow> int) \<Rightarrow> lstore kres" where
  "linked_list_sort st list cmp =
     (if list = 0 then kret st
      else kbind (deref (llists st) list) (\<lambda>l. linked_list_sort_outer st cmp (ll_head l)))"

declare linked_list_destroy_loop.simps [code] linked_list_sort_inner.simps [code] linked_list_sort_outer.simps [code]

end
