(* ===== verification/Generic_Tree.thy ===== *)
theory Generic_Tree
  imports Linked_List
begin

text \<open>
  \<^verbatim>\<open>kernel/src/utils/generic_tree.c\<close>: trees whose nodes keep their children in a chain of \<^verbatim>\<open>slide\<close>
  pointers.

  Nodes and tree headers are objects found by their address, as in theory \<open>Linked_List\<close>.  The
  three recursive functions call themselves from a loop over the children; function and loop are
  one recursion here, with a flag that tells which of the two is meant.
\<close>

section \<open>Nodes and trees\<close>

record generic_tree_node =
  gt_parent :: u32
  gt_slide :: u32
  gt_child :: u32
  gt_data :: u32

record generic_tree =
  gt_root :: u32

record tstore =
  tnodes :: "u32 \<rightharpoonup> generic_tree_node"
  trees :: "u32 \<rightharpoonup> generic_tree"

definition TREE_STRUCT_SIZE :: u32 where
  "TREE_STRUCT_SIZE = 4"

definition TREE_NODE_SIZE :: u32 where
  "TREE_NODE_SIZE = 16"


section \<open>Creation\<close>

definition generic_tree_init :: "tstore \<Rightarrow> u32 \<Rightarrow> tstore" where
  "generic_tree_init st tree = (if tree \<noteq> 0 then st\<lparr>trees := (trees st)(tree \<mapsto> \<lparr>gt_root = 0\<rparr>)\<rparr> else st)"

definition generic_tree_node_init :: "tstore \<Rightarrow> u32 \<Rightarrow> u32 \<Rightarrow> tstore" where
  "generic_tree_node_init st node data =
     (if node \<noteq> 0 then
        st\<lparr>tnodes := (tnodes st)(node \<mapsto> \<lparr>gt_parent = 0, gt_slide = 0, gt_child = 0, gt_data = data\<rparr>)\<rparr>
      else st)"

definition generic_tree_create :: "'h allocator_fn \<Rightarrow> tstore \<Rightarrow> 'h \<Rightarrow> (u32 \<times> tstore \<times> 'h) kres" where
  "generic_tree_create allocator st h =
     kbind (allocator h TREE_STRUCT_SIZE) (\<lambda>(tree, h1).
       if tree = 0 then kret (0, st, h1) else kret (tree, generic_tree_init st tree, h1))"

definition generic_tree_node_create :: "u32 \<Rightarrow> 'h allocator_fn \<Rightarrow> tstore \<Rightarrow> 'h \<Rightarrow> (u32 \<times> tstore \<times> 'h) kres" where
  "generic_tree_node_create data allocator st h =
     kbind (allocator h TREE_NODE_SIZE) (\<lambda>(node, h1).
       if node = 0 then kret (0, st, h1) else kret (node, generic_tree_node_init st node data, h1))"


section \<open>Insertion and removal\<close>

text \<open>Lines 84 to 86: the last node of a chain of siblings.\<close>

partial_function (option) generic_tree_last :: "(u32 \<rightharpoonup> generic_tree_node) \<Rightarrow> u32 \<Rightarrow> u32 kres" where
  "generic_tree_last N lst =
     kbind (deref N lst) (\<lambda>n. if gt_slide n \<noteq> 0 then generic_tree_last N (gt_slide n) else kret lst)"

definition generic_tree_insert :: "tstore \<Rightarrow> u32 \<Rightarrow> u32 \<Rightarrow> tstore kres" where
  "generic_tree_insert st parent node =
     (if parent = 0 \<or> node = 0 then kret st
      else kbind (deref (tnodes st) parent) (\<lambda>p.
        kbind (if gt_child p = 0 then modify (tnodes st) parent (\<lambda>p. p\<lparr>gt_child := node\<rparr>)
               else kbind (generic_tree_last (tnodes st) (gt_child p)) (\<lambda>lst.
                 modify (tnodes st) lst (\<lambda>n. n\<lparr>gt_slide := node\<rparr>))) (\<lambda>N.
          kbind (modify N node (\<lambda>n. n\<lparr>gt_parent := parent\<rparr>)) (\<lambda>N'.
            kret (st\<lparr>tnodes := N'\<rparr>)))))"

text \<open>Lines 105 to 107: the sibling in front of a node.\<close>

partial_function (option) generic_tree_before :: "(u32 \<rightharpoonup> generic_tree_node) \<Rightarrow> u32 \<Rightarrow> u32 \<Rightarrow> u32 kres" where
  "generic_tree_before N node prev =
     kbind (deref N prev) (\<lambda>n. if gt_slide n \<noteq> node then generic_tree_before N node (gt_slide n) else kret prev)"

definition generic_tree_remove :: "tstore \<Rightarrow> u32 \<Rightarrow> u32 \<Rightarrow> tstore kres" where
  "generic_tree_remove st tree node =
     (if tree = 0 \<or> node = 0 then kret st
      else kbind (deref (tnodes st) node) (\<lambda>n.
        kbind (if gt_parent n \<noteq> 0 then
                 kbind (deref (tnodes st) (gt_parent n)) (\<lambda>p.
                   if gt_child p = node then modify (tnodes st) (gt_parent n) (\<lambda>p. p\<lparr>gt_child := gt_slide n\<rparr>)
                   else kbind (generic_tree_before (tnodes st) node (gt_child p)) (\<lambda>prev.
                     modify (tnodes st) prev (\<lambda>q. q\<lparr>gt_slide := gt_slide n\<rparr>)))
               else kret (tnodes st)) (\<lambda>N.
          kbind (deref (trees st) tree) (\<lambda>t.
            let T = (if gt_root t = node then (trees st)(tree \<mapsto> t\<lparr>gt_root := 0\<rparr>) else trees st) in
            kbind (modify N node (\<lambda>n. n\<lparr>gt_parent := 0, gt_slide := 0\<rparr>)) (\<lambda>N'.
              kret (st\<lparr>tnodes := N', trees := T\<rparr>))))))"


section \<open>Traversals\<close>

partial_function (option) generic_tree_find_rec ::
  "(u32 \<rightharpoonup> generic_tree_node) \<Rightarrow> u32 \<Rightarrow> (u32 \<Rightarrow> u32 \<Rightarrow> int kres) \<Rightarrow> bool \<Rightarrow> u32 \<Rightarrow> u32 kres" where
  "generic_tree_find_rec N data cmp in_loop node =
     (if in_loop then
        if node = 0 then kret 0
        else kbind (generic_tree_find_rec N data cmp False node) (\<lambda>result.
          if result \<noteq> 0 then kret result
          else kbind (deref N node) (\<lambda>n. generic_tree_find_rec N data cmp True (gt_slide n)))
      else
        if node = 0 \<or> data = 0 then kret 0
        else kbind (deref N node) (\<lambda>n.
          kbind (cmp (gt_data n) data) (\<lambda>c.
            if c \<noteq> 0 then kret node else generic_tree_find_rec N data cmp True (gt_child n))))"

definition generic_tree_find :: "tstore \<Rightarrow> u32 \<Rightarrow> u32 \<Rightarrow> (u32 \<Rightarrow> u32 \<Rightarrow> int kres) \<Rightarrow> u32 kres" where
  "generic_tree_find st tree data cmp =
     (if tree = 0 then kret 0
      else kbind (deref (trees st) tree) (\<lambda>t.
        if gt_root t \<noteq> 0 then generic_tree_find_rec (tnodes st) data cmp False (gt_root t) else kret 0))"

partial_function (option) generic_tree_foreach_rec ::
  "(u32 \<rightharpoonup> generic_tree_node) \<Rightarrow> ('s \<Rightarrow> u32 \<Rightarrow> 's kres) \<Rightarrow> bool \<Rightarrow> u32 \<Rightarrow> 's \<Rightarrow> 's kres" where
  "generic_tree_foreach_rec N callback in_loop node s =
     (if node = 0 then kret s
      else if in_loop then
        kbind (generic_tree_foreach_rec N callback False node s) (\<lambda>s1.
          kbind (deref N node) (\<lambda>n. generic_tree_foreach_rec N callback True (gt_slide n) s1))
      else
        kbind (callback s node) (\<lambda>s1.
          kbind (deref N node) (\<lambda>n. generic_tree_foreach_rec N callback True (gt_child n) s1)))"

definition generic_tree_callback_foreach :: "tstore \<Rightarrow> u32 \<Rightarrow> ('s \<Rightarrow> u32 \<Rightarrow> 's kres) \<Rightarrow> 's \<Rightarrow> 's kres" where
  "generic_tree_callback_foreach st tree callback s =
     (if tree = 0 then kret s
      else kbind (deref (trees st) tree) (\<lambda>t. generic_tree_foreach_rec (tnodes st) callback False (gt_root t) s))"

partial_function (option) generic_tree_destroy_rec ::
  "(u32 \<rightharpoonup> generic_tree_node) \<Rightarrow> bool \<Rightarrow> 'h free_fn \<Rightarrow> bool \<Rightarrow> u32 \<Rightarrow> 'h \<Rightarrow> 'h kres" where
  "generic_tree_destroy_rec N free_data deallocator in_loop node h =
     (if in_loop then
        if node = 0 then kret h
        else kbind (deref N node) (\<lambda>n.
          kbind (generic_tree_destroy_rec N free_data deallocator False node h) (\<lambda>h1.
            generic_tree_destroy_rec N free_data deallocator True (gt_slide n) h1))
      else kbind (deref N node) (\<lambda>n.
        kbind (generic_tree_destroy_rec N free_data deallocator True (gt_child n) h) (\<lambda>h1.
          kbind (if free_data then deallocator h1 (gt_data n) else kret h1) (\<lambda>h2.
            deallocator h2 node))))"

definition generic_tree_destroy :: "tstore \<Rightarrow> u32 \<Rightarrow> bool \<Rightarrow> 'h free_fn \<Rightarrow> 'h \<Rightarrow> 'h kres" where
  "generic_tree_destroy st tree free_data deallocator h =
     (if tree = 0 then kret h
      else kbind (deref (trees st) tree) (\<lambda>t.
        kbind (if gt_root t \<noteq> 0 then generic_tree_destroy_rec (tnodes st) free_data deallocator False (gt_root t) h
               else kret h) (\<lambda>h1.
          deallocator h1 tree)))"

declare generic_tree_last.simps [code] generic_tree_before.simps [code] generic_tree_find_rec.simps [code]
  generic_tree_foreach_rec.simps [code] generic_tree_destroy_rec.simps [code]

end
