(* ===== verification/Device.thy ===== *)
theory Device
  imports Generic_Tree Numeric CString
begin

text \<open>
  \<^verbatim>\<open>kernel/src/device/device.c\<close>: the registry of devices, a tree whose nodes point to the devices.

  The state holds the heap, the objects of the trees and lists allocated from it, the devices by
  their address and the state of the random numbers.  A string literal is where the linker put it,
  so its address is an argument, and so is the address of a parameter that the code takes.
\<close>

section \<open>Devices\<close>

definition DEVICE_BUS_TYPE_PLATFORM :: u8 where
  "DEVICE_BUS_TYPE_PLATFORM = 0x00"

definition DEVICE_BUS_TYPE_ISA :: u8 where
  "DEVICE_BUS_TYPE_ISA = 0x01"

definition DEVICE_BUS_TYPE_PCI :: u8 where
  "DEVICE_BUS_TYPE_PCI = 0x02"

definition DEVICE_BUS_TYPE_USB :: u8 where
  "DEVICE_BUS_TYPE_USB = 0x03"

definition DEVICE_BUS_TYPE_RESERVED :: u8 where
  "DEVICE_BUS_TYPE_RESERVED = 0xFF"

definition DEVICE_TYPE_UNKNOWN :: u16 where
  "DEVICE_TYPE_UNKNOWN = 0x0000"

definition DEVICE_TYPE_KEYBOARD :: u16 where
  "DEVICE_TYPE_KEYBOARD = 0x0100"

definition DEVICE_TYPE_STORAGE :: u16 where
  "DEVICE_TYPE_STORAGE = 0x0200"

definition DEVICE_TYPE_VIDEO :: u16 where
  "DEVICE_TYPE_VIDEO = 0x0300"

definition DEVICE_TYPE_CONTROLLER :: u16 where
  "DEVICE_TYPE_CONTROLLER = 0x0400"

definition DEVICE_TYPE_RESERVED :: u16 where
  "DEVICE_TYPE_RESERVED = 0xFF00"

record bus =
  bus_type :: u8
  bus_data :: u32

record device =
  dev_id :: uuid
  dev_name :: u32
  dev_type :: u16
  dev_bus :: bus

text \<open>
  The drivers: tables of function pointers.  A function whose address the source takes is a value of \<open>driver_fn\<close>.
\<close>

datatype driver_fn =
    Ps2_keyboard_register_listener
  | Vga_tm_probe | Vga_get_width | Vga_get_height | Vga_write | Vga_strwrite | Vga_clean_screen
  | Vga_enable_cursor | Vga_disable_cursor
  | Ata_sector_size | Ata_total_size nat | Ata_read_drive nat | Ata_write_drive nat

record keyboard_driver =
  kd_register_listener :: driver_fn

record video_driver =
  tm_probe :: driver_fn
  tm_get_width :: driver_fn
  tm_get_height :: driver_fn
  tm_clean_screen :: driver_fn
  tm_write :: driver_fn
  tm_strwrite :: driver_fn
  tm_enable_cursor :: driver_fn
  tm_disable_cursor :: driver_fn

record storage_driver =
  sd_sector_size :: driver_fn
  sd_total_size :: driver_fn
  sd_read :: driver_fn
  sd_write :: driver_fn

text \<open>
  A keyboard, video or storage device is a \<open>device\<close> followed by a pointer to its driver; \<open>driver_ptr\<close> is that pointer by
  the address of the device.
\<close>

record registry =
  reg_heap :: kheap
  reg_trees :: tstore
  reg_lists :: lstore
  device_tree :: u32
  devices :: "u32 \<rightharpoonup> device"
  rand_state :: u32
  driver_ptr :: "u32 \<rightharpoonup> u32"
  keyboard_drivers :: "u32 \<rightharpoonup> keyboard_driver"
  video_drivers :: "u32 \<rightharpoonup> video_driver"
  storage_drivers :: "u32 \<rightharpoonup> storage_driver"

definition DEVICE_STRUCT_SIZE :: u32 where
  "DEVICE_STRUCT_SIZE = 27"

definition DRIVEN_DEVICE_SIZE :: u32 where
  "DRIVEN_DEVICE_SIZE = 31"

abbreviation out_of_memory :: "'a kres" where
  "out_of_memory \<equiv> kpanic ''Memory allocation failed.''"


section \<open>The root of the registry\<close>

definition device_init :: "u32 \<Rightarrow> registry \<Rightarrow> registry kres" where
  "device_init computer_literal r =
     kbind (generic_tree_create kmalloc (reg_trees r) (reg_heap r)) (\<lambda>(tree, T, h).
     if tree = 0 then out_of_memory else
     kbind (kmalloc h DEVICE_STRUCT_SIZE) (\<lambda>(root_device, h1).
     if root_device = 0 then out_of_memory else
     kbind (kmalloc h1 9) (\<lambda>(name, h2).
     if name = 0 then out_of_memory else
     let (uid, nxt) = generate_uuid_v4 (rand_state r) in
     case strcpy (mem h2) name computer_literal of None \<Rightarrow> None | Some mm \<Rightarrow>
     kbind (generic_tree_node_create root_device kmalloc T (h2\<lparr>mem := mm\<rparr>)) (\<lambda>(root_node, T1, h3).
     if root_node = 0 then out_of_memory else
     kbind (modify (trees T1) tree (\<lambda>t. t\<lparr>gt_root := root_node\<rparr>)) (\<lambda>TT.
       kret (r\<lparr>reg_heap := h3, reg_trees := T1\<lparr>trees := TT\<rparr>, device_tree := tree, rand_state := nxt,
         devices := (devices r)(root_device \<mapsto> \<lparr>dev_id = uid, dev_name = name, dev_type = DEVICE_TYPE_RESERVED,
           dev_bus = \<lparr>bus_type = DEVICE_BUS_TYPE_RESERVED, bus_data = 0\<rparr>\<rparr>)\<rparr>))))))"


section \<open>Registration\<close>

definition device_register_compare :: "u32 \<Rightarrow> u32 \<Rightarrow> int kres" where
  "device_register_compare node_data compare_data = kret (if node_data = compare_data then 1 else 0)"

definition device_register :: "registry \<Rightarrow> u32 \<Rightarrow> (int \<times> registry) kres" where
  "device_register r device =
     kbind (deref (trees (reg_trees r)) (device_tree r)) (\<lambda>t.
     kbind (generic_tree_node_create device kmalloc (reg_trees r) (reg_heap r)) (\<lambda>(device_node, T, h).
     if device_node = 0 then out_of_memory
     else kbind (generic_tree_insert T (gt_root t) device_node) (\<lambda>T1.
       kret (0, r\<lparr>reg_heap := h, reg_trees := T1\<rparr>))))"

definition device_register_at :: "registry \<Rightarrow> u32 \<Rightarrow> u32 \<Rightarrow> (int \<times> registry) kres" where
  "device_register_at r device parent =
     kbind (generic_tree_find (reg_trees r) (device_tree r) parent device_register_compare) (\<lambda>parent_node.
     if parent_node = 0 then kret (- 1, r)
     else kbind (generic_tree_node_create device kmalloc (reg_trees r) (reg_heap r)) (\<lambda>(device_node, T, h).
     if device_node = 0 then out_of_memory
     else kbind (generic_tree_insert T parent_node device_node) (\<lambda>T1.
       kret (0, r\<lparr>reg_heap := h, reg_trees := T1\<rparr>))))"

definition device_unregister :: "registry \<Rightarrow> u32 \<Rightarrow> (int \<times> registry) kres" where
  "device_unregister r device =
     kbind (generic_tree_find (reg_trees r) (device_tree r) device device_register_compare) (\<lambda>device_node.
     if device_node = 0 then kret (- 1, r)
     else kbind (generic_tree_remove (reg_trees r) (device_tree r) device_node) (\<lambda>T.
       kbind (kfree (reg_heap r) device_node) (\<lambda>h.
         kret (0, r\<lparr>reg_heap := h, reg_trees := T\<rparr>))))"


section \<open>Searches\<close>

text \<open>The compared type is read through a pointer: \<open>u16s\<close> holds the numbers by address.\<close>

definition device_type_compare :: "(u32 \<rightharpoonup> device) \<Rightarrow> (u32 \<rightharpoonup> u16) \<Rightarrow> u32 \<Rightarrow> u32 \<Rightarrow> int kres" where
  "device_type_compare D u16s node_data compare_data =
     kbind (deref D node_data) (\<lambda>node_device.
     kbind (deref u16s compare_data) (\<lambda>compare_type.
       kret (if dev_type node_device = compare_type then 1 else 0)))"

definition device_find_by_type :: "registry \<Rightarrow> u32 \<Rightarrow> u16 \<Rightarrow> u32 kres" where
  "device_find_by_type r type_ptr type =
     kbind (generic_tree_find (reg_trees r) (device_tree r) type_ptr (device_type_compare (devices r) [type_ptr \<mapsto> type])) (\<lambda>device_node.
     if device_node = 0 then kret 0
     else kbind (deref (tnodes (reg_trees r)) device_node) (\<lambda>n. kret (gt_data n)))"

record device_payload =
  payload_devices :: u32
  payload_type :: u32

text \<open>What both callbacks do with a device that fits: it goes to the end of the result.\<close>

definition device_collect :: "u32 \<Rightarrow> registry \<Rightarrow> u32 \<Rightarrow> registry kres" where
  "device_collect list r data =
     kbind (linked_list_node_create data kmalloc (reg_lists r) (reg_heap r)) (\<lambda>(node, L, h).
     if node = 0 then out_of_memory
     else kbind (linked_list_append L list node) (\<lambda>L1. kret (r\<lparr>reg_heap := h, reg_lists := L1\<rparr>)))"

definition device_find_all_by_type_callback :: "device_payload \<Rightarrow> registry \<Rightarrow> u32 \<Rightarrow> registry kres" where
  "device_find_all_by_type_callback payload r device_node =
     kbind (deref (tnodes (reg_trees r)) device_node) (\<lambda>n.
     kbind (deref (devices r) (gt_data n)) (\<lambda>device.
       if dev_type device = ucast (payload_type payload)
       then device_collect (payload_devices payload) r (gt_data n) else kret r))"

definition device_find_all_by_type :: "registry \<Rightarrow> u16 \<Rightarrow> (u32 \<times> registry) kres" where
  "device_find_all_by_type r type =
     kbind (linked_list_create kmalloc (reg_lists r) (reg_heap r)) (\<lambda>(list, L, h).
     if list = 0 then out_of_memory
     else let payload = \<lparr>payload_devices = list, payload_type = ucast type\<rparr>;
              r1 = r\<lparr>reg_heap := h, reg_lists := L\<rparr>
          in kbind (generic_tree_callback_foreach (reg_trees r1) (device_tree r1) (device_find_all_by_type_callback payload) r1) (\<lambda>r2.
               kret (list, r2)))"

definition device_find_all_by_bustype_callback :: "device_payload \<Rightarrow> registry \<Rightarrow> u32 \<Rightarrow> registry kres" where
  "device_find_all_by_bustype_callback payload r device_node =
     kbind (deref (tnodes (reg_trees r)) device_node) (\<lambda>n.
     kbind (deref (devices r) (gt_data n)) (\<lambda>device.
       if bus_type (dev_bus device) = ucast (payload_type payload)
       then device_collect (payload_devices payload) r (gt_data n) else kret r))"

definition device_find_all_by_bustype :: "registry \<Rightarrow> u8 \<Rightarrow> (u32 \<times> registry) kres" where
  "device_find_all_by_bustype r type =
     kbind (linked_list_create kmalloc (reg_lists r) (reg_heap r)) (\<lambda>(list, L, h).
     if list = 0 then out_of_memory
     else let payload = \<lparr>payload_devices = list, payload_type = ucast type\<rparr>;
              r1 = r\<lparr>reg_heap := h, reg_lists := L\<rparr>
          in kbind (generic_tree_callback_foreach (reg_trees r1) (device_tree r1) (device_find_all_by_bustype_callback payload) r1) (\<lambda>r2.
               kret (list, r2)))"

end
