(* ===== verification/Generic_Tree_Correct.thy ===== *)
theory Generic_Tree_Correct
  imports Generic_Tree
begin

text \<open>
  The nodes below a chain of siblings as a forest of addresses.  Insertion and removal are compared
  with the operations on forests, the traversals with lists of addresses in preorder and postorder.
\<close>

section \<open>Forests\<close>

datatype gtree = GNode (addr: u32) (kids: "gtree list")

fun addrs :: "gtree list \<Rightarrow> u32 list" where
  "addrs [] = []"
| "addrs (GNode a cs # ts) = a # addrs cs @ addrs ts"

fun postorder :: "gtree list \<Rightarrow> u32 list" where
  "postorder [] = []"
| "postorder (GNode a cs # ts) = postorder cs @ a # postorder ts"

fun forest :: "(u32 \<rightharpoonup> generic_tree_node) \<Rightarrow> u32 \<Rightarrow> u32 \<Rightarrow> gtree list \<Rightarrow> bool" where
  "forest N par p [] \<longleftrightarrow> p = 0"
| "forest N par p (GNode a cs # ts) \<longleftrightarrow>
     p = a \<and> a \<noteq> 0 \<and> (\<exists>n. N a = Some n \<and> gt_parent n = par \<and> forest N a (gt_child n) cs \<and> forest N par (gt_slide n) ts)"

lemma addrs_append [simp]: "addrs (ss @ ts) = addrs ss @ addrs ts"
  by (induction ss rule: addrs.induct) auto

lemma forest_cong: "(\<And>x. x \<in> set (addrs ts) \<Longrightarrow> N' x = N x) \<Longrightarrow> forest N' par p ts = forest N par p ts"
  by (induction N par p ts rule: forest.induct) auto

lemma forest_nodes: "forest N par p ts \<Longrightarrow> x \<in> set (addrs ts) \<Longrightarrow> x \<noteq> 0 \<and> (\<exists>n. N x = Some n)"
  by (induction N par p ts rule: forest.induct) auto

lemma roots_subset: "addr ` set ts \<subseteq> set (addrs ts)"
  by (induction ts rule: addrs.induct) auto

definition first_root :: "gtree list \<Rightarrow> u32 \<Rightarrow> u32" where
  "first_root ts q = (if ts = [] then q else addr (hd ts))"

text \<open>A forest whose chain of roots ends in \<open>q\<close> instead of \<^verbatim>\<open>NULL\<close>.\<close>

fun forest_to :: "(u32 \<rightharpoonup> generic_tree_node) \<Rightarrow> u32 \<Rightarrow> u32 \<Rightarrow> gtree list \<Rightarrow> u32 \<Rightarrow> bool" where
  "forest_to N par p [] q \<longleftrightarrow> p = q"
| "forest_to N par p (GNode a cs # ts) q \<longleftrightarrow>
     p = a \<and> a \<noteq> 0 \<and> (\<exists>n. N a = Some n \<and> gt_parent n = par \<and> forest N a (gt_child n) cs \<and> forest_to N par (gt_slide n) ts q)"

lemma forest_to_0: "forest_to N par p ts 0 = forest N par p ts"
  by (induction ts arbitrary: p rule: addrs.induct) auto

lemma forest_start: "forest_to N par p ts q \<Longrightarrow> p = first_root ts q"
  by (cases ts rule: addrs.cases) (auto simp: first_root_def)

lemma forest_to_append:
  "forest_to N par p (ss @ ts) q \<longleftrightarrow> forest_to N par p ss (first_root ts q) \<and> forest_to N par (first_root ts q) ts q"
proof (induction ss arbitrary: p rule: addrs.induct)
  case 1
  then show ?case
    using forest_start by auto
qed auto

lemma forest_to_cong:
  "(\<And>x. x \<in> set (addrs ts) \<Longrightarrow> N' x = N x) \<Longrightarrow> forest_to N' par p ts q = forest_to N par p ts q"
proof (induction ts arbitrary: p rule: addrs.induct)
  case (2 a cs ts)
  have "forest N' a c cs = forest N a c cs" for c
    using "2.prems" by (intro forest_cong) simp
  then show ?case
    using "2.prems" "2.IH"(2) by simp
qed simp

lemma forest_to_relink:
  assumes "forest_to N par p (ss @ [GNode z cs]) q" and "distinct (addrs (ss @ [GNode z cs]))" and "N z = Some n"
  shows "forest_to (N(z \<mapsto> n\<lparr>gt_slide := q'\<rparr>)) par p (ss @ [GNode z cs]) q'"
proof -
  have "forest_to (N(z \<mapsto> n\<lparr>gt_slide := q'\<rparr>)) par p ss z = forest_to N par p ss z"
    using assms(2) by (intro forest_to_cong) auto
  moreover have "forest (N(z \<mapsto> n\<lparr>gt_slide := q'\<rparr>)) z c cs = forest N z c cs" for c
    using assms(2) by (intro forest_cong) auto
  ultimately show ?thesis
    using assms(1,3) by (auto simp: forest_to_append first_root_def)
qed


section \<open>Changing the children of a node\<close>

fun children_of :: "u32 \<Rightarrow> gtree list \<Rightarrow> gtree list" where
  "children_of a [] = []"
| "children_of a (GNode x cs # ts) =
     (if x = a then cs else if a \<in> set (addrs cs) then children_of a cs else children_of a ts)"

fun set_children :: "u32 \<Rightarrow> gtree list \<Rightarrow> gtree list \<Rightarrow> gtree list" where
  "set_children a ks [] = []"
| "set_children a ks (GNode x cs # ts) =
     (if x = a then GNode x ks # ts
      else if a \<in> set (addrs cs) then GNode x (set_children a ks cs) # ts
      else GNode x cs # set_children a ks ts)"

lemma children_subset: "set (addrs (children_of a ts)) \<subseteq> set (addrs ts)"
  by (induction a ts rule: children_of.induct) auto

lemma children_distinct:
  "distinct (addrs ts) \<Longrightarrow> distinct (addrs (children_of a ts)) \<and> a \<notin> set (addrs (children_of a ts))"
  by (induction a ts rule: children_of.induct) (auto dest: subsetD [OF children_subset])

lemma forest_children:
  "forest N par p ts \<Longrightarrow> a \<in> set (addrs ts) \<Longrightarrow> \<exists>n. N a = Some n \<and> forest N a (gt_child n) (children_of a ts)"
proof (induction ts arbitrary: par p rule: addrs.induct)
  case (2 x cs ts)
  then obtain m where m: "N x = Some m" "forest N x (gt_child m) cs" "forest N par (gt_slide m) ts"
    by auto
  then show ?case
    using "2.IH"(1) [OF m(2)] "2.IH"(2) [OF m(3)] "2.prems"(2)
    by (cases "x = a"; cases "a \<in> set (addrs cs)") simp_all
qed simp

text \<open>
  Only the node \<open>a\<close> and what is below it has changed: the forest around it still stands, with the
  new children in place of the old ones.
\<close>

lemma forest_set_children:
  assumes "forest N par p ts" and "distinct (addrs ts)" and "a \<in> set (addrs ts)"
    and "\<And>x. x \<in> set (addrs ts) \<Longrightarrow> x \<noteq> a \<Longrightarrow> x \<notin> set (addrs (children_of a ts)) \<Longrightarrow> N' x = N x"
    and "N a = Some n" and "N' a = Some n'" and "gt_parent n' = gt_parent n" and "gt_slide n' = gt_slide n"
    and "forest N' a (gt_child n') ks"
  shows "forest N' par p (set_children a ks ts)"
  using assms(1-4)
proof (induction ts arbitrary: par p rule: addrs.induct)
  case (2 x cs ts)
  have sub: "set (addrs (children_of a cs)) \<subseteq> set (addrs cs)" "set (addrs (children_of a ts)) \<subseteq> set (addrs ts)"
    by (rule children_subset)+
  obtain m where m: "p = x" "x \<noteq> 0" "N x = Some m" "gt_parent m = par" "forest N x (gt_child m) cs" "forest N par (gt_slide m) ts"
    using "2.prems"(1) by auto
  have dis: "distinct (addrs cs)" "distinct (addrs ts)" "x \<notin> set (addrs cs)" "x \<notin> set (addrs ts)"
    "set (addrs cs) \<inter> set (addrs ts) = {}"
    using "2.prems"(2) by auto
  consider "x = a" | "x \<noteq> a" "a \<in> set (addrs cs)" | "x \<noteq> a" "a \<notin> set (addrs cs)" "a \<in> set (addrs ts)"
    using "2.prems"(3) by auto
  then show ?case
  proof cases
    case 1
    then have "forest N' par (gt_slide m) ts"
      using m(6) "2.prems"(4) dis by (subst forest_cong [of ts N' N]) auto
    then show ?thesis
      using 1 m assms(5-9) by auto
  next
    case 2
    have "forest N' x (gt_child m) (set_children a ks cs)"
      using m(5) dis(1) 2 "2.prems"(4) by (intro "2.IH"(1)) auto
    moreover have "forest N' par (gt_slide m) ts"
      using m(6) "2.prems"(4) dis sub 2 by (subst forest_cong [of ts N' N]) auto
    moreover have "N' x = N x"
      using "2.prems"(4) [of x] 2 dis(3) sub by auto
    ultimately show ?thesis
      using m 2 by auto
  next
    case 3
    have "forest N' par (gt_slide m) (set_children a ks ts)"
      using m(6) dis(2) 3 "2.prems"(4) by (intro "2.IH"(2)) auto
    moreover have "forest N' x (gt_child m) cs"
      using m(5) "2.prems"(4) dis sub 3 by (subst forest_cong [of cs N' N]) auto
    moreover have "N' x = N x"
      using "2.prems"(4) [of x] 3 dis(4) sub by auto
    ultimately show ?thesis
      using m 3 by auto
  qed
qed simp


section \<open>Insertion and removal\<close>

definition node_value :: "(u32 \<rightharpoonup> generic_tree_node) \<Rightarrow> u32 \<Rightarrow> u32" where
  "node_value N a = (case N a of None \<Rightarrow> 0 | Some n \<Rightarrow> gt_data n)"

lemma node_value_upd [simp]:
  "N p = Some x \<Longrightarrow> gt_data y = gt_data x \<Longrightarrow> node_value (N(p \<mapsto> y)) = node_value N"
  by (auto simp: node_value_def fun_eq_iff)

lemma tree_last_ok:
  "forest_to N par p (ss @ [GNode z cs]) 0 \<Longrightarrow> generic_tree_last N p = kret z"
proof (induction ss arbitrary: p rule: addrs.induct)
  case 1
  then show ?case
    by (subst generic_tree_last.simps) auto
next
  case (2 a bs ss)
  then obtain n where n: "p = a" "N a = Some n" "forest_to N par (gt_slide n) (ss @ [GNode z cs]) 0"
    by auto
  have "gt_slide n \<noteq> 0"
    using n(3) by (cases ss rule: addrs.cases) auto
  then show ?case
    using n "2.IH"(2) [OF n(3)] by (subst generic_tree_last.simps) simp
qed

text \<open>A chain of siblings grows by one at its end.\<close>

lemma forest_snoc:
  assumes fo: "forest N a c ks" and dis: "distinct (addrs ks)" and ks: "ks \<noteq> []"
    and b: "b \<noteq> 0" "b \<notin> set (addrs ks)" "N b = Some n" "gt_slide n = 0"
    and bs: "forest N b (gt_child n) bs" "b \<notin> set (addrs bs)" "set (addrs bs) \<inter> set (addrs ks) = {}"
  shows "\<exists>z m. generic_tree_last N c = kret z \<and> z \<in> set (addrs ks) \<and> N z = Some m \<and>
    forest (N(z \<mapsto> m\<lparr>gt_slide := b\<rparr>, b \<mapsto> n\<lparr>gt_parent := a\<rparr>)) a c (ks @ [GNode b bs])"
proof -
  obtain ss z cs where ks': "ks = ss @ [GNode z cs]"
    using ks by (metis gtree.exhaust rev_exhaust)
  have to: "forest_to N a c (ss @ [GNode z cs]) 0"
    using fo by (simp add: ks' forest_to_0)
  obtain m where m: "N z = Some m"
    using forest_nodes [OF fo, of z] by (auto simp: ks')
  let ?N = "N(z \<mapsto> m\<lparr>gt_slide := b\<rparr>)"
  have "forest_to ?N a c ks b"
    using forest_to_relink [OF to _ m] dis by (simp add: ks')
  then have "forest_to (?N(b \<mapsto> n\<lparr>gt_parent := a\<rparr>)) a c ks b"
    using b(2) by (subst forest_to_cong [of ks _ ?N]) auto
  moreover have "z \<notin> set (addrs bs)"
    using bs(3) by (auto simp: ks')
  then have "forest (?N(b \<mapsto> n\<lparr>gt_parent := a\<rparr>)) b (gt_child n) bs"
    using bs(1,2) by (subst forest_cong [of bs _ N]) auto
  ultimately have "forest (?N(b \<mapsto> n\<lparr>gt_parent := a\<rparr>)) a c (ks @ [GNode b bs])"
    using b unfolding forest_to_0 [symmetric] forest_to_append by (simp add: first_root_def forest_to_0)
  then show ?thesis
    using tree_last_ok [OF to] m by (intro exI [of _ z] exI [of _ m]) (simp add: ks')
qed

lemma insert_forest:
  assumes fo: "forest (tnodes st) par p ts" and dis: "distinct (addrs ts)" and a: "a \<in> set (addrs ts)"
    and b: "b \<noteq> 0" "b \<notin> set (addrs ts)" "tnodes st b = Some n" "gt_slide n = 0"
    and bs: "forest (tnodes st) b (gt_child n) bs" "b \<notin> set (addrs bs)" "set (addrs bs) \<inter> set (addrs ts) = {}"
  shows "\<exists>st'. generic_tree_insert st a b = kret st' \<and> trees st' = trees st \<and>
    forest (tnodes st') par p (set_children a (children_of a ts @ [GNode b bs]) ts) \<and>
    node_value (tnodes st') = node_value (tnodes st)"
proof -
  let ?N = "tnodes st"
  let ?ks = "children_of a ts"
  obtain m where m: "?N a = Some m" "forest ?N a (gt_child m) ?ks"
    using forest_children [OF fo a] by blast
  have ks: "distinct (addrs ?ks)" "a \<notin> set (addrs ?ks)" "set (addrs ?ks) \<subseteq> set (addrs ts)"
    using children_distinct [OF dis, of a] children_subset [of a ts] by auto
  have ab: "a \<noteq> 0" "a \<noteq> b" "b \<notin> set (addrs ?ks)"
    using forest_nodes [OF fo a] a b(2) ks(3) by auto
  have abs: "a \<notin> set (addrs bs)" "set (addrs bs) \<inter> set (addrs ?ks) = {}"
    using bs(3) a ks(3) by auto
  show ?thesis
  proof (cases "?ks = []")
    case True
    let ?N' = "?N(a \<mapsto> m\<lparr>gt_child := b\<rparr>, b \<mapsto> n\<lparr>gt_parent := a\<rparr>)"
    have "generic_tree_insert st a b = kret (st\<lparr>tnodes := ?N'\<rparr>)"
      using m True ab b by (simp add: generic_tree_insert_def)
    moreover have "forest ?N' b (gt_child n) bs"
      using bs(1,2) abs(1) by (subst forest_cong [of bs _ ?N]) auto
    then have "forest ?N' par p (set_children a (?ks @ [GNode b bs]) ts)"
      using b ab True by (intro forest_set_children [OF fo dis a _ m(1), where n' = "m\<lparr>gt_child := b\<rparr>"]) auto
    moreover have "node_value ?N' = node_value ?N"
      using m(1) b(3) ab(2) by simp
    ultimately show ?thesis
      by simp
  next
    case False
    then obtain z k where z: "generic_tree_last ?N (gt_child m) = kret z" "z \<in> set (addrs ?ks)" "?N z = Some k"
      "forest (?N(z \<mapsto> k\<lparr>gt_slide := b\<rparr>, b \<mapsto> n\<lparr>gt_parent := a\<rparr>)) a (gt_child m) (?ks @ [GNode b bs])"
      using forest_snoc [OF m(2) ks(1) _ b(1) ab(3) b(3,4) bs(1,2) abs(2)] by blast
    let ?N' = "?N(z \<mapsto> k\<lparr>gt_slide := b\<rparr>, b \<mapsto> n\<lparr>gt_parent := a\<rparr>)"
    have c: "gt_child m \<noteq> 0"
      using m(2) False by (cases ?ks rule: addrs.cases) auto
    have zb: "z \<noteq> b" "z \<noteq> a"
      using z(2) ab(3) ks(2) by auto
    then have "generic_tree_insert st a b = kret (st\<lparr>tnodes := ?N'\<rparr>)"
      using m z(1,3) c ab b by (simp add: generic_tree_insert_def)
    moreover have "forest ?N' par p (set_children a (?ks @ [GNode b bs]) ts)"
      using b ab zb z(2,4) m(1) by (intro forest_set_children [OF fo dis a _ m(1)]) auto
    moreover have "node_value ?N' = node_value ?N"
      using z(3) b(3) zb(1) by simp
    ultimately show ?thesis
      by simp
  qed
qed

lemma tree_before_ok:
  "forest_to N par p (ss @ [GNode z cs]) b \<Longrightarrow> b \<notin> set (addrs (ss @ [GNode z cs])) \<Longrightarrow>
   generic_tree_before N b p = kret z"
proof (induction ss arbitrary: p rule: addrs.induct)
  case 1
  then show ?case
    by (subst generic_tree_before.simps) auto
next
  case (2 a bs ss)
  then obtain n where n: "p = a" "N a = Some n" "forest_to N par (gt_slide n) (ss @ [GNode z cs]) b"
    by auto
  have "gt_slide n \<noteq> b"
    using n(3) "2.prems"(2) by (cases ss rule: addrs.cases) auto
  then show ?case
    using n "2.IH"(2) [OF n(3)] "2.prems"(2) by (subst generic_tree_before.simps) simp
qed


text \<open>A chain of siblings with one node taken out.\<close>

lemma forest_unlink:
  assumes fo: "forest N a c (ss @ GNode b bs # us)" and dis: "distinct (addrs (ss @ GNode b bs # us))"
    and ss: "ss \<noteq> []" and n: "N b = Some n"
  shows "\<exists>z m. generic_tree_before N b c = kret z \<and> z \<in> set (addrs ss) \<and> N z = Some m \<and>
    forest (N(z \<mapsto> m\<lparr>gt_slide := gt_slide n\<rparr>)) a c (ss @ us)"
proof -
  obtain rs z cs where ss': "ss = rs @ [GNode z cs]"
    using ss by (metis gtree.exhaust rev_exhaust)
  have to: "forest_to N a c ss b" "forest_to N a (gt_slide n) us 0"
    using fo n by (auto simp: forest_to_0 [symmetric] forest_to_append first_root_def)
  obtain m where m: "N z = Some m"
    using forest_nodes [OF fo, of z] by (auto simp: ss')
  let ?N = "N(z \<mapsto> m\<lparr>gt_slide := gt_slide n\<rparr>)"
  have "forest_to ?N a c ss (gt_slide n)"
    using forest_to_relink [of N a c rs z cs b m] to(1) dis m unfolding ss' by simp blast
  moreover have "forest_to ?N a (gt_slide n) us 0"
    using to(2) dis by (subst forest_to_cong [of us _ N]) (auto simp: ss')
  ultimately have "forest ?N a c (ss @ us)"
    using forest_start [OF to(2)] by (simp add: forest_to_0 [symmetric] forest_to_append)
  then show ?thesis
    using tree_before_ok [of N a c rs z cs b] to(1) dis m by (intro exI [of _ z] exI [of _ m]) (auto simp: ss')
qed

lemma children_parent:
  assumes "forest N a c (ss @ GNode b bs # us)"
  shows "\<exists>n. N b = Some n \<and> gt_parent n = a \<and> b \<noteq> 0 \<and> forest N b (gt_child n) bs"
  using assms by (auto simp: forest_to_0 [symmetric] forest_to_append)

lemma remove_forest:
  assumes fo: "forest (tnodes st) par p ts" and dis: "distinct (addrs ts)" and a: "a \<in> set (addrs ts)"
    and ch: "children_of a ts = ss @ GNode b bs # us" and tr: "tr \<noteq> 0" "trees st tr = Some t" "gt_root t \<noteq> b"
  shows "\<exists>st'. generic_tree_remove st tr b = kret st' \<and> trees st' = trees st \<and>
    forest (tnodes st') par p (set_children a (ss @ us) ts) \<and> forest (tnodes st') 0 b [GNode b bs] \<and>
    node_value (tnodes st') = node_value (tnodes st)"
proof -
  let ?N = "tnodes st"
  obtain m where m: "?N a = Some m" "forest ?N a (gt_child m) (ss @ GNode b bs # us)"
    using forest_children [OF fo a] ch by auto
  have ks: "distinct (addrs (ss @ GNode b bs # us))" "a \<notin> set (addrs (ss @ GNode b bs # us))"
    using children_distinct [OF dis, of a] by (simp_all add: ch)
  obtain n where n: "?N b = Some n" "gt_parent n = a" "b \<noteq> 0" "forest ?N b (gt_child n) bs"
    using children_parent [OF m(2)] by blast
  have ab: "a \<noteq> 0" "a \<noteq> b"
    using forest_nodes [OF fo a] ks(2) by auto
  obtain N1 m1 where N1: "(if gt_child m = b then modify ?N a (\<lambda>p. p\<lparr>gt_child := gt_slide n\<rparr>)
       else kbind (generic_tree_before ?N b (gt_child m)) (\<lambda>prev. modify ?N prev (\<lambda>q. q\<lparr>gt_slide := gt_slide n\<rparr>))) = kret N1"
    "N1 a = Some m1" "gt_parent m1 = gt_parent m" "gt_slide m1 = gt_slide m" "forest N1 a (gt_child m1) (ss @ us)"
    "\<And>x. x \<notin> insert a (set (addrs ss)) \<Longrightarrow> N1 x = ?N x" "node_value N1 = node_value ?N"
  proof (cases "ss = []")
    case True
    have "forest (?N(a \<mapsto> m\<lparr>gt_child := gt_slide n\<rparr>)) a (gt_slide n) us"
      using m(2) n(1) ks(2) True by (subst forest_cong [of us _ ?N]) auto
    then show thesis
      using m True by (intro that [of "?N(a \<mapsto> m\<lparr>gt_child := gt_slide n\<rparr>)" "m\<lparr>gt_child := gt_slide n\<rparr>"]) auto
  next
    case False
    then obtain z k where z: "generic_tree_before ?N b (gt_child m) = kret z" "z \<in> set (addrs ss)" "?N z = Some k"
      "forest (?N(z \<mapsto> k\<lparr>gt_slide := gt_slide n\<rparr>)) a (gt_child m) (ss @ us)"
      using forest_unlink [OF m(2) ks(1) _ n(1)] by blast
    have "gt_child m \<noteq> b"
      using m(2) False ks(1) by (cases ss rule: addrs.cases) auto
    moreover have "z \<noteq> a"
      using z(2) ks(2) by auto
    ultimately show thesis
      using z m(1) by (intro that [of "?N(z \<mapsto> k\<lparr>gt_slide := gt_slide n\<rparr>)" m]) auto
  qed
  let ?N2 = "N1(b \<mapsto> n\<lparr>gt_parent := 0, gt_slide := 0\<rparr>)"
  have b1: "N1 b = Some n"
    using N1(6) [of b] ks n(1) ab by auto
  have "generic_tree_remove st tr b = kret (st\<lparr>tnodes := ?N2\<rparr>)"
    using tr n ab m(1) N1(1) b1 by (cases "gt_child m = b") (auto simp: generic_tree_remove_def Let_def)
  moreover have "forest ?N2 a (gt_child m1) (ss @ us)"
    using N1(5) ks(1) by (subst forest_cong [of "ss @ us" _ N1]) auto
  then have "forest ?N2 par p (set_children a (ss @ us) ts)"
    using N1 ab ch by (intro forest_set_children [OF fo dis a _ m(1), where n' = m1]) auto
  moreover have "x \<noteq> b \<and> x \<notin> insert a (set (addrs ss))" if "x \<in> set (addrs bs)" for x
    using ks that by auto
  then have "forest ?N2 b (gt_child n) bs"
    using n(4) N1(6) by (subst forest_cong [of bs _ ?N]) simp_all
  then have "forest ?N2 0 b [GNode b bs]"
    using n(3) by simp
  moreover have "node_value ?N2 = node_value ?N"
    using b1 N1(7) by simp
  ultimately show ?thesis
    by simp
qed


section \<open>Traversals\<close>

definition first_match :: "(u32 \<Rightarrow> bool) \<Rightarrow> u32 list \<Rightarrow> u32" where
  "first_match P as = (case filter P as of [] \<Rightarrow> 0 | a # _ \<Rightarrow> a)"

lemma first_match_append: "0 \<notin> set as \<Longrightarrow> first_match P (as @ bs) = (if first_match P as \<noteq> 0 then first_match P as else first_match P bs)"
  by (induction as) (auto simp: first_match_def)

text \<open>The search visits the nodes in preorder and stops at the first match.\<close>

lemma find_rec_ok:
  assumes "forest N par p ts" and "\<forall>a \<in> set (addrs ts). cmp (node_value N a) data = kret (c (node_value N a))" and "data \<noteq> 0"
  shows "generic_tree_find_rec N data cmp True p = kret (first_match (\<lambda>a. c (node_value N a) \<noteq> 0) (addrs ts))"
  using assms
proof (induction ts arbitrary: par p rule: addrs.induct)
  case 1
  then show ?case
    by (subst generic_tree_find_rec.simps) (simp add: first_match_def)
next
  case (2 a cs ts)
  let ?P = "\<lambda>a. c (node_value N a) \<noteq> 0"
  obtain n where n: "p = a" "a \<noteq> 0" "N a = Some n" "forest N a (gt_child n) cs" "forest N par (gt_slide n) ts"
    using "2.prems"(1) by auto
  have IH: "generic_tree_find_rec N data cmp True (gt_child n) = kret (first_match ?P (addrs cs))"
    "generic_tree_find_rec N data cmp True (gt_slide n) = kret (first_match ?P (addrs ts))"
    using "2.prems"(2,3) by (intro "2.IH"(1) [OF n(4)] "2.IH"(2) [OF n(5)]; simp)+
  have "cmp (gt_data n) data = kret (c (gt_data n))"
    using "2.prems"(2) n(3) by (simp add: node_value_def)
  then have "generic_tree_find_rec N data cmp False a = kret (first_match ?P (a # addrs cs))"
    using n(2,3) "2.prems"(3) IH(1)
    by (subst generic_tree_find_rec.simps) (simp add: first_match_def node_value_def)
  moreover have "0 \<notin> set (a # addrs cs)"
    using forest_nodes [OF n(4)] n(2) by auto
  then have "first_match ?P (addrs (GNode a cs # ts)) =
      (if first_match ?P (a # addrs cs) \<noteq> 0 then first_match ?P (a # addrs cs) else first_match ?P (addrs ts))"
    using first_match_append [of "a # addrs cs" ?P "addrs ts"] by simp
  ultimately show ?case
    using n(1-3) IH(2) by (subst generic_tree_find_rec.simps) simp
qed

primrec visit_all :: "('s \<Rightarrow> u32 \<Rightarrow> 's kres) \<Rightarrow> 's \<Rightarrow> u32 list \<Rightarrow> 's kres" where
  "visit_all f s [] = kret s"
| "visit_all f s (a # as) = kbind (f s a) (\<lambda>s1. visit_all f s1 as)"

lemma visit_all_append: "visit_all f s (as @ bs) = kbind (visit_all f s as) (\<lambda>s1. visit_all f s1 bs)"
  by (induction as arbitrary: s) (simp_all add: kbind_assoc)

lemma foreach_rec_ok:
  "forest N par p ts \<Longrightarrow> generic_tree_foreach_rec N f True p s = visit_all f s (addrs ts)"
proof (induction ts arbitrary: par p s rule: addrs.induct)
  case 1
  then show ?case
    by (subst generic_tree_foreach_rec.simps) simp
next
  case (2 a cs ts)
  obtain n where n: "p = a" "a \<noteq> 0" "N a = Some n" "forest N a (gt_child n) cs" "forest N par (gt_slide n) ts"
    using "2.prems" by auto
  have "generic_tree_foreach_rec N f False a s = visit_all f s (a # addrs cs)" for s
    using n(2,3) "2.IH"(1) [OF n(4)] by (subst generic_tree_foreach_rec.simps) simp
  then show ?case
    using n(1-3) "2.IH"(2) [OF n(5)] by (subst generic_tree_foreach_rec.simps) (simp add: visit_all_append kbind_assoc)
qed

definition tree_pointers :: "(u32 \<rightharpoonup> generic_tree_node) \<Rightarrow> bool \<Rightarrow> u32 list \<Rightarrow> u32 list" where
  "tree_pointers N free_data as = concat (map (\<lambda>a. (if free_data then [node_value N a] else []) @ [a]) as)"

text \<open>Destruction releases every node after the nodes below it.\<close>

lemma destroy_rec_ok:
  "forest N par p ts \<Longrightarrow>
   generic_tree_destroy_rec N fd f True p h = visit_all f h (tree_pointers N fd (postorder ts))"
proof (induction ts arbitrary: par p h rule: postorder.induct)
  case 1
  then show ?case
    by (subst generic_tree_destroy_rec.simps) (simp add: tree_pointers_def)
next
  case (2 a cs ts)
  obtain n where n: "p = a" "a \<noteq> 0" "N a = Some n" "forest N a (gt_child n) cs" "forest N par (gt_slide n) ts"
    using "2.prems" by auto
  have "generic_tree_destroy_rec N fd f False a h = visit_all f h (tree_pointers N fd (postorder cs @ [a]))" for h
    using n(2,3) "2.IH"(1) [OF n(4)]
    by (subst generic_tree_destroy_rec.simps) (simp add: tree_pointers_def node_value_def visit_all_append)
  moreover have "generic_tree_destroy_rec N fd f True (gt_slide n) = (\<lambda>h. visit_all f h (tree_pointers N fd (postorder ts)))"
    using "2.IH"(2) [OF n(5)] by blast
  moreover have "tree_pointers N fd (postorder (GNode a cs # ts)) =
      tree_pointers N fd (postorder cs @ [a]) @ tree_pointers N fd (postorder ts)"
    by (simp add: tree_pointers_def)
  ultimately show ?case
    using n(1-3) by (subst generic_tree_destroy_rec.simps) (simp add: visit_all_append)
qed


section \<open>Trees\<close>

text \<open>The tree at \<open>tr\<close>: a forest of at most one root, every node of it reachable only once.\<close>

definition tree_ok :: "tstore \<Rightarrow> u32 \<Rightarrow> gtree list \<Rightarrow> bool" where
  "tree_ok st tr ts \<longleftrightarrow>
     tr \<noteq> 0 \<and> trees st tr = Some \<lparr>gt_root = first_root ts 0\<rparr> \<and> length ts \<le> 1 \<and>
     forest (tnodes st) 0 (first_root ts 0) ts \<and> distinct (addrs ts)"

lemmas tree_okD = tree_ok_def [THEN iffD1, THEN conjunct1] tree_ok_def [THEN iffD1, THEN conjunct2, THEN conjunct1]
  tree_ok_def [THEN iffD1, THEN conjunct2, THEN conjunct2, THEN conjunct1]
  tree_ok_def [THEN iffD1, THEN conjunct2, THEN conjunct2, THEN conjunct2, THEN conjunct1]
  tree_ok_def [THEN iffD1, THEN conjunct2, THEN conjunct2, THEN conjunct2, THEN conjunct2]

lemma set_children_root [simp]:
  "length (set_children a ks ts) = length ts" "first_root (set_children a ks ts) q = first_root ts q"
proof -
  show "length (set_children a ks ts) = length ts"
    by (induction a ks ts rule: set_children.induct) auto
  show "first_root (set_children a ks ts) q = first_root ts q"
    by (cases ts rule: addrs.cases) (auto simp: first_root_def)
qed

lemma set_children_addrs:
  "distinct (addrs ts) \<Longrightarrow> a \<in> set (addrs ts) \<Longrightarrow>
   mset (addrs (set_children a ks ts)) + mset (addrs (children_of a ts)) = mset (addrs ts) + mset (addrs ks)"
proof (induction ts rule: addrs.induct)
  case (2 x cs ts)
  then show ?case
    by (cases "x = a"; cases "a \<in> set (addrs cs)") (auto simp: union_ac)
qed simp

lemma set_children_same: "set_children a (children_of a ts) ts = ts"
  by (induction ts rule: addrs.induct) auto

text \<open>The root of a tree is nobody's child.\<close>

lemma child_not_root:
  assumes "distinct (addrs ts)" and "children_of a ts = ss @ GNode b bs # us" and "length ts \<le> 1"
  shows "first_root ts q \<noteq> b"
proof (cases ts rule: addrs.cases)
  case (2 x cs us')
  then have "us' = []" "ts = [GNode x cs]"
    using assms(3) by auto
  moreover have "set (addrs (children_of a cs)) \<subseteq> set (addrs cs)"
    by (rule children_subset)
  ultimately show ?thesis
    using assms(1,2) by (auto simp: first_root_def split: if_splits)
qed (use assms(2) in simp)

lemma tree_graft_ok:
  assumes "tree_ok st tr ts" and a: "a \<in> set (addrs ts)"
    and b: "tnodes st b = Some n" "gt_slide n = 0" "forest (tnodes st) (gt_parent n) b [GNode b bs]" "distinct (addrs (GNode b bs # ts))"
  shows "\<exists>st'. generic_tree_insert st a b = kret st' \<and>
    tree_ok st' tr (set_children a (children_of a ts @ [GNode b bs]) ts) \<and> node_value (tnodes st') = node_value (tnodes st)"
proof -
  note d = tree_okD [OF assms(1)]
  have "b \<noteq> 0" "b \<notin> set (addrs ts)" "forest (tnodes st) b (gt_child n) bs" "b \<notin> set (addrs bs)" "set (addrs bs) \<inter> set (addrs ts) = {}"
    using b by auto
  from insert_forest [OF d(4,5) a this(1,2) b(1,2) this(3-5)] obtain st' where
    "generic_tree_insert st a b = kret st'" "trees st' = trees st"
    "forest (tnodes st') 0 (first_root ts 0) (set_children a (children_of a ts @ [GNode b bs]) ts)"
    "node_value (tnodes st') = node_value (tnodes st)"
    by blast
  moreover have "mset (addrs (set_children a (children_of a ts @ [GNode b bs]) ts)) = mset (addrs (GNode b bs # ts))"
    using set_children_addrs [OF d(5) a, of "children_of a ts @ [GNode b bs]"] by (simp add: union_ac)
  then have "distinct (addrs (set_children a (children_of a ts @ [GNode b bs]) ts))"
    using b(4) by (metis mset_eq_imp_distinct_iff)
  ultimately show ?thesis
    using d by (auto simp: tree_ok_def)
qed

lemma tree_insert_ok:
  assumes "tree_ok st tr ts" and "a \<in> set (addrs ts)"
    and "b \<noteq> 0" "b \<notin> set (addrs ts)" "tnodes st b = Some n" "gt_slide n = 0" "gt_child n = 0"
  shows "\<exists>st'. generic_tree_insert st a b = kret st' \<and>
    tree_ok st' tr (set_children a (children_of a ts @ [GNode b []]) ts) \<and> node_value (tnodes st') = node_value (tnodes st)"
  using tree_graft_ok [OF assms(1,2), of b n "[]"] assms(3-) tree_okD(5) [OF assms(1)] by simp

lemma tree_remove_ok:
  assumes "tree_ok st tr ts" and a: "a \<in> set (addrs ts)" and c: "children_of a ts = ss @ GNode c cs # us"
  shows "\<exists>st'. generic_tree_remove st tr c = kret st' \<and> tree_ok st' tr (set_children a (ss @ us) ts) \<and>
    forest (tnodes st') 0 c [GNode c cs] \<and> node_value (tnodes st') = node_value (tnodes st)"
proof -
  note d = tree_okD [OF assms(1)]
  obtain st' where "generic_tree_remove st tr c = kret st'" "trees st' = trees st"
    "forest (tnodes st') 0 (first_root ts 0) (set_children a (ss @ us) ts)" "forest (tnodes st') 0 c [GNode c cs]"
    "node_value (tnodes st') = node_value (tnodes st)"
    using remove_forest [OF d(4,5) a c d(1,2)] child_not_root [OF d(5) c d(3)] by auto
  moreover have "mset (addrs (set_children a (ss @ us) ts)) + mset (addrs [GNode c cs]) = mset (addrs ts)"
    using set_children_addrs [OF d(5) a, of "ss @ us"] by (simp add: c union_ac)
  then have "distinct (addrs (set_children a (ss @ us) ts) @ addrs [GNode c cs])"
    using d(5) by (metis mset_append mset_eq_imp_distinct_iff)
  ultimately show ?thesis
    using d by (auto simp: tree_ok_def)
qed

text \<open>The root, with everything below it.\<close>

lemma tree_remove_root:
  assumes ok: "tree_ok st tr [GNode c cs]"
  shows "\<exists>st'. generic_tree_remove st tr c = kret st' \<and> tree_ok st' tr [] \<and>
    forest (tnodes st') 0 c [GNode c cs] \<and> node_value (tnodes st') = node_value (tnodes st)"
proof -
  note d = tree_okD [OF ok]
  obtain n where n: "c \<noteq> 0" "tnodes st c = Some n" "gt_parent n = 0" "forest (tnodes st) c (gt_child n) cs" "gt_slide n = 0"
    using d(4) by (auto simp: first_root_def)
  let ?st = "\<lparr>tnodes = (tnodes st)(c \<mapsto> n\<lparr>gt_parent := 0, gt_slide := 0\<rparr>), trees = (trees st)(tr \<mapsto> \<lparr>gt_root = 0\<rparr>)\<rparr>"
  have "generic_tree_remove st tr c = kret ?st"
    using d(1,2) n by (simp add: generic_tree_remove_def first_root_def)
  moreover have "forest (tnodes ?st) c (gt_child n) cs"
    using n(4) d(5) by (subst forest_cong [of cs _ "tnodes st"]) auto
  then have "forest (tnodes ?st) 0 c [GNode c cs]"
    using n(1) by simp
  moreover have "tree_ok ?st tr []"
    using d(1) by (simp add: tree_ok_def first_root_def)
  ultimately show ?thesis
    using n(2) by (intro exI [of _ ?st]) simp
qed

text \<open>A forest without a node and what is below it.\<close>

fun prune :: "u32 \<Rightarrow> gtree list \<Rightarrow> gtree list" where
  "prune c [] = []"
| "prune c (GNode x cs # ts) = (if x = c then ts else GNode x (prune c cs) # prune c ts)"

lemma prune_other: "c \<notin> set (addrs ts) \<Longrightarrow> prune c ts = ts"
  by (induction c ts rule: prune.induct) auto

lemma prune_root: "c \<notin> set (addrs ss) \<Longrightarrow> prune c (ss @ GNode c cs # us) = ss @ us"
  by (induction c ss rule: prune.induct) (auto simp: prune_other)

lemma child_of_some:
  "distinct (addrs ts) \<Longrightarrow> c \<in> set (addrs ts) \<Longrightarrow> c \<notin> addr ` set ts \<Longrightarrow>
   \<exists>a ss us. a \<in> set (addrs ts) \<and> children_of a ts = ss @ GNode c (children_of c ts) # us \<and> prune c ts = set_children a (ss @ us) ts"
proof (induction ts rule: addrs.induct)
  case (2 x cs ts)
  have dis: "distinct (addrs cs)" "distinct (addrs ts)" "x \<notin> set (addrs cs)" "x \<notin> set (addrs ts)"
    "set (addrs cs) \<inter> set (addrs ts) = {}" "x \<noteq> c"
    using "2.prems"(1,3) by auto
  consider "c \<in> addr ` set cs" | "c \<in> set (addrs cs)" "c \<notin> addr ` set cs" | "c \<in> set (addrs ts)" "c \<notin> set (addrs cs)" "c \<notin> addr ` set ts"
    using "2.prems"(2,3) by auto
  then show ?case
  proof cases
    case 1
    then obtain ss bs us where cs: "cs = ss @ GNode c bs # us"
      by (metis (no_types, lifting) gtree.collapse imageE split_list)
    then have "c \<notin> set (addrs ss)" "c \<notin> set (addrs ts)" "c \<notin> set (addrs us)"
      using dis by auto
    moreover from this have "children_of c cs = bs"
      unfolding cs by (induction ss rule: addrs.induct) auto
    ultimately show ?thesis
      using dis cs prune_root [of c ss bs us]
      by (intro exI [of _ x] exI [of _ ss] exI [of _ us]) (auto simp: prune_other)
  next
    case 2
    then obtain a ss us where a: "a \<in> set (addrs cs)" "children_of a cs = ss @ GNode c (children_of c cs) # us"
      "prune c cs = set_children a (ss @ us) cs"
      using "2.IH"(1) dis(1) by blast
    moreover have "c \<notin> set (addrs ts)"
      using 2(1) dis(5) by blast
    ultimately show ?thesis
      using dis 2 by (intro exI [of _ a] exI [of _ ss] exI [of _ us]) (auto simp: prune_other)
  next
    case 3
    then obtain a ss us where a: "a \<in> set (addrs ts)" "children_of a ts = ss @ GNode c (children_of c ts) # us"
      "prune c ts = set_children a (ss @ us) ts"
      using "2.IH"(2) dis(2) by blast
    moreover have "a \<noteq> x" "a \<notin> set (addrs cs)"
      using a(1) dis by auto
    ultimately show ?thesis
      using dis 3 by (intro exI [of _ a] exI [of _ ss] exI [of _ us]) (auto simp: prune_other)
  qed
qed simp

lemma tree_prune_ok:
  assumes ok: "tree_ok st tr ts" and c: "c \<in> set (addrs ts)"
  shows "\<exists>st'. generic_tree_remove st tr c = kret st' \<and> tree_ok st' tr (prune c ts) \<and>
    forest (tnodes st') 0 c [GNode c (children_of c ts)] \<and> node_value (tnodes st') = node_value (tnodes st)"
proof (cases "c \<in> addr ` set ts")
  case True
  then obtain cs where "ts = [GNode c cs]"
    using tree_okD(3) [OF ok] by (cases ts rule: addrs.cases) auto
  then show ?thesis
    using tree_remove_root [of st tr c cs] ok by simp
next
  case False
  obtain a ss us where a: "a \<in> set (addrs ts)" "children_of a ts = ss @ GNode c (children_of c ts) # us"
    "prune c ts = set_children a (ss @ us) ts"
    using child_of_some [OF tree_okD(5) [OF ok] c False] by blast
  show ?thesis
    using tree_remove_ok [OF ok a(1,2)] unfolding a(3) .
qed

lemma tree_shape: "tree_ok st tr ts \<Longrightarrow> (ts = [] \<Longrightarrow> P) \<Longrightarrow>
    (\<And>a cs n. ts = [GNode a cs] \<Longrightarrow> a \<noteq> 0 \<Longrightarrow> tnodes st a = Some n \<Longrightarrow> forest (tnodes st) a (gt_child n) cs \<Longrightarrow> P) \<Longrightarrow> P"
  by (cases ts rule: addrs.cases) (auto simp: tree_ok_def first_root_def)

lemma tree_find_ok:
  assumes "tree_ok st tr ts" and "\<forall>a \<in> set (addrs ts). cmp (node_value (tnodes st) a) data = kret (c (node_value (tnodes st) a))"
    and "data \<noteq> 0"
  shows "generic_tree_find st tr data cmp = kret (first_match (\<lambda>a. c (node_value (tnodes st) a) \<noteq> 0) (addrs ts))"
proof (rule tree_shape [OF assms(1)])
  note d = tree_okD [OF assms(1)]
  show ?thesis if "ts = []"
    using d(1,2) that by (simp add: generic_tree_find_def first_root_def first_match_def)
  fix a cs n
  assume ts: "ts = [GNode a cs]" and n: "a \<noteq> 0" "tnodes st a = Some n" "forest (tnodes st) a (gt_child n) cs"
  have "generic_tree_find_rec (tnodes st) data cmp True (gt_child n) =
      kret (first_match (\<lambda>a. c (node_value (tnodes st) a) \<noteq> 0) (addrs cs))"
    using assms(2,3) by (intro find_rec_ok [OF n(3)]) (simp_all add: ts)
  moreover have "cmp (gt_data n) data = kret (c (gt_data n))"
    using assms(2) n(2) by (simp add: ts node_value_def)
  ultimately have "generic_tree_find_rec (tnodes st) data cmp False a =
      kret (first_match (\<lambda>a. c (node_value (tnodes st) a) \<noteq> 0) (a # addrs cs))"
    using n(1,2) assms(3)
    by (subst generic_tree_find_rec.simps) (simp add: first_match_def node_value_def)
  then show ?thesis
    using d(1,2) n(1) by (simp add: generic_tree_find_def ts first_root_def)
qed

lemma tree_foreach_ok:
  assumes "tree_ok st tr ts"
  shows "generic_tree_callback_foreach st tr callback s = visit_all callback s (addrs ts)"
proof (rule tree_shape [OF assms(1)])
  note d = tree_okD [OF assms(1)]
  show ?thesis if "ts = []"
    using d(1,2) that by (simp add: generic_tree_callback_foreach_def generic_tree_foreach_rec.simps first_root_def)
  fix a cs n
  assume ts: "ts = [GNode a cs]" and n: "a \<noteq> 0" "tnodes st a = Some n" "forest (tnodes st) a (gt_child n) cs"
  have "generic_tree_foreach_rec (tnodes st) callback True (gt_child n) = (\<lambda>s. visit_all callback s (addrs cs))"
    using foreach_rec_ok [OF n(3), of callback] by (simp add: fun_eq_iff)
  then show ?thesis
    using d(1,2) n(1,2) by (simp add: generic_tree_callback_foreach_def ts first_root_def)
      (subst generic_tree_foreach_rec.simps, simp)
qed

lemma tree_destroy_ok:
  assumes "tree_ok st tr ts"
  shows "generic_tree_destroy st tr fd f h = visit_all f h (tree_pointers (tnodes st) fd (postorder ts) @ [tr])"
proof (rule tree_shape [OF assms(1)])
  note d = tree_okD [OF assms(1)]
  show ?thesis if "ts = []"
    using d(1,2) that by (simp add: generic_tree_destroy_def first_root_def tree_pointers_def)
  fix a cs n
  assume ts: "ts = [GNode a cs]" and n: "a \<noteq> 0" "tnodes st a = Some n" "forest (tnodes st) a (gt_child n) cs"
  show ?thesis
    using d(1,2) n(1,2) destroy_rec_ok [OF n(3), of fd f]
    by (simp add: generic_tree_destroy_def ts first_root_def visit_all_append)
      (subst generic_tree_destroy_rec.simps, simp add: tree_pointers_def node_value_def visit_all_append kbind_assoc)
qed

definition sample_tree :: tstore where
  "sample_tree = \<lparr>tnodes = [0x100 \<mapsto> \<lparr>gt_parent = 0, gt_slide = 0, gt_child = 0x200, gt_data = 7\<rparr>,
     0x200 \<mapsto> \<lparr>gt_parent = 0x100, gt_slide = 0x300, gt_child = 0x400, gt_data = 9\<rparr>,
     0x300 \<mapsto> \<lparr>gt_parent = 0x100, gt_slide = 0, gt_child = 0, gt_data = 8\<rparr>,
     0x400 \<mapsto> \<lparr>gt_parent = 0x200, gt_slide = 0, gt_child = 0, gt_data = 8\<rparr>,
     0x500 \<mapsto> \<lparr>gt_parent = 0, gt_slide = 0, gt_child = 0, gt_data = 6\<rparr>],
     trees = [0x10 \<mapsto> \<lparr>gt_root = 0x100\<rparr>]\<rparr>"

lemma sample_tree_ok: "tree_ok sample_tree 0x10 [GNode 0x100 [GNode 0x200 [GNode 0x400 []], GNode 0x300 []]]"
  by (simp add: tree_ok_def sample_tree_def first_root_def)

text \<open>
  C19: inserting a detached node, with whatever is below it, makes it the last child of any node
  of the tree; removing any node of the tree, its root included, takes it out together with everything below it and leaves
  it as the root of a tree of its own.  Both keep the tree well formed and the data of every node.
\<close>
theorem generic_tree_insert_remove:
  assumes "tree_ok st tr ts" and "a \<in> set (addrs ts)"
  shows "(tnodes st b = Some n \<longrightarrow> gt_slide n = 0 \<longrightarrow> forest (tnodes st) (gt_parent n) b [GNode b bs] \<longrightarrow>
      distinct (addrs (GNode b bs # ts)) \<longrightarrow>
      (\<exists>st'. generic_tree_insert st a b = kret st' \<and>
        tree_ok st' tr (set_children a (children_of a ts @ [GNode b bs]) ts) \<and>
        node_value (tnodes st') = node_value (tnodes st))) \<and>
    (\<exists>st'. generic_tree_remove st tr a = kret st' \<and> tree_ok st' tr (prune a ts) \<and>
      forest (tnodes st') 0 a [GNode a (children_of a ts)] \<and> node_value (tnodes st') = node_value (tnodes st))"
  using tree_graft_ok [OF assms] tree_prune_ok [OF assms] by blast

theorem generic_tree_insert_remove_witness:
  "(\<exists>st'. generic_tree_insert sample_tree 0x100 0x500 = kret st' \<and>
     tree_ok st' 0x10 [GNode 0x100 [GNode 0x200 [GNode 0x400 []], GNode 0x300 [], GNode 0x500 []]]) \<and>
   (\<exists>st'. generic_tree_remove sample_tree 0x10 0x200 = kret st' \<and> tree_ok st' 0x10 [GNode 0x100 [GNode 0x300 []]]) \<and>
   (\<exists>st'. generic_tree_remove sample_tree 0x10 0x100 = kret st' \<and> tree_ok st' 0x10 [] \<and>
     forest (tnodes st') 0 0x100 [GNode 0x100 [GNode 0x200 [GNode 0x400 []], GNode 0x300 []]])"
proof -
  have n: "tnodes sample_tree 0x500 = Some \<lparr>gt_parent = 0, gt_slide = 0, gt_child = 0, gt_data = 6\<rparr>"
    by (simp add: sample_tree_def)
  show ?thesis
    using generic_tree_insert_remove [OF sample_tree_ok, of "0x100" "0x500" "\<lparr>gt_parent = 0, gt_slide = 0, gt_child = 0, gt_data = 6\<rparr>" "[]"]
      generic_tree_insert_remove [OF sample_tree_ok, of "0x200", THEN conjunct2] n
    by auto
qed

text \<open>
  C39: every walk over a tree ends.  The search returns the first node in preorder whose
  data the comparison accepts, or \<^verbatim>\<open>NULL\<close>; the callback is called once for every node in preorder; destruction
  releases every node once, after the nodes below it, and the tree last.
\<close>
theorem generic_tree_traversals:
  assumes "tree_ok st tr ts" and "\<forall>a \<in> set (addrs ts). cmp (node_value (tnodes st) a) data = kret (c (node_value (tnodes st) a))"
    and "data \<noteq> 0"
  shows "generic_tree_find st tr data cmp = kret (first_match (\<lambda>a. c (node_value (tnodes st) a) \<noteq> 0) (addrs ts)) \<and>
    generic_tree_callback_foreach st tr callback s = visit_all callback s (addrs ts) \<and>
    generic_tree_destroy st tr fd f h = visit_all f h (tree_pointers (tnodes st) fd (postorder ts) @ [tr])"
  using assms by (intro conjI tree_find_ok tree_foreach_ok tree_destroy_ok)

theorem generic_tree_traversals_witness:
  "generic_tree_find sample_tree 0x10 8 (\<lambda>x d. kret (if x = d then 1 else 0)) = kret 0x400 \<and>
   generic_tree_callback_foreach sample_tree 0x10 (\<lambda>s a. kret (s @ [a])) [] = kret [0x100, 0x200, 0x400, 0x300] \<and>
   generic_tree_destroy sample_tree 0x10 False (\<lambda>s a. kret (s @ [a])) [] = kret [0x400, 0x200, 0x300, 0x100, 0x10]"
proof (intro conjI)
  let ?cmp = "\<lambda>x d. kret (if x = d then 1 else 0)"
  let ?log = "\<lambda>s a. kret (s @ [a])"
  note w = generic_tree_traversals [OF sample_tree_ok, where data = 8 and cmp = ?cmp and c = "\<lambda>x. if x = 8 then 1 else 0"
      and callback = ?log and s = "[]" and f = ?log and h = "[]" and fd = False]
  show "generic_tree_find sample_tree 0x10 8 ?cmp = kret 0x400"
    using w by (simp add: first_match_def node_value_def sample_tree_def)
  show "generic_tree_callback_foreach sample_tree 0x10 ?log [] = kret [0x100, 0x200, 0x400, 0x300]"
    using w by simp
  show "generic_tree_destroy sample_tree 0x10 False ?log [] = kret [0x400, 0x200, 0x300, 0x100, 0x10]"
    using w by (simp add: tree_pointers_def)
qed

end
