(* ===== verification/Linked_List_Correct.thy ===== *)
theory Linked_List_Correct
  imports Linked_List
begin

text \<open>
  A header and its nodes represent the list of the node addresses; the operations are compared with
  the operations on that list, and sorting with an exchange sort of the data pointers.
\<close>

section \<open>Doubly linked segments\<close>

text \<open>The nodes \<open>xs\<close> from pointer \<open>p\<close> on, with \<open>pr\<close> in front of the first and \<open>nx\<close> behind the last.\<close>

fun dseg :: "(u32 \<rightharpoonup> linked_list_node) \<Rightarrow> u32 \<Rightarrow> u32 \<Rightarrow> u32 list \<Rightarrow> u32 \<Rightarrow> bool" where
  "dseg N pr p [] nx \<longleftrightarrow> p = nx"
| "dseg N pr p (x # xs) nx \<longleftrightarrow>
     p = x \<and> x \<noteq> 0 \<and> (\<exists>n. N x = Some n \<and> ln_prev n = pr \<and> dseg N x (ln_next n) xs nx)"

definition last_or :: "u32 \<Rightarrow> u32 list \<Rightarrow> u32" where
  "last_or pr xs = (if xs = [] then pr else last xs)"

definition hd_or :: "u32 list \<Rightarrow> u32 \<Rightarrow> u32" where
  "hd_or xs nx = (if xs = [] then nx else hd xs)"

lemma last_or_simps [simp]: "last_or pr [] = pr" "last_or pr (x # xs) = last_or x xs" "last_or pr (xs @ ys) = last_or (last_or pr xs) ys"
  by (simp_all add: last_or_def)

lemma hd_or_simps [simp]: "hd_or [] nx = nx" "hd_or (x # xs) nx = x" "hd_or (xs @ ys) nx = hd_or xs (hd_or ys nx)"
  by (simp_all add: hd_or_def)

lemma last_or_in: "xs \<noteq> [] \<Longrightarrow> last_or pr xs \<in> set xs" and hd_or_in: "xs \<noteq> [] \<Longrightarrow> hd_or xs nx \<in> set xs"
  by (simp_all add: last_or_def hd_or_def)

lemma dseg_start: "dseg N pr p xs nx \<Longrightarrow> p = hd_or xs nx"
  by (cases xs) auto

lemma dseg_append:
  "dseg N pr p (xs @ ys) nx \<longleftrightarrow>
   dseg N pr p xs (hd_or ys nx) \<and> dseg N (last_or pr xs) (hd_or ys nx) ys nx"
proof (induction xs arbitrary: pr p)
  case Nil
  then show ?case
    using dseg_start by auto
qed auto

lemma dseg_other [simp]: "a \<notin> set xs \<Longrightarrow> dseg (N(a := v)) pr p xs nx = dseg N pr p xs nx"
  by (induction xs arbitrary: pr p) auto

lemma dseg_nonzero: "dseg N pr p xs nx \<Longrightarrow> 0 \<notin> set xs"
  by (induction xs arbitrary: pr p) auto

lemma dseg_node: "dseg N pr p xs nx \<Longrightarrow> x \<in> set xs \<Longrightarrow> \<exists>n. N x = Some n"
  by (induction xs arbitrary: pr p) auto

text \<open>What lies behind a segment is written in its last node, what lies in front of it in its first.\<close>

lemma dseg_set_next:
  assumes "dseg N pr p (xs @ [x]) nx" and "x \<notin> set xs" and "N x = Some n"
  shows "dseg (N(x \<mapsto> n\<lparr>ln_next := nx'\<rparr>)) pr p (xs @ [x]) nx'"
  using assms by (auto simp: dseg_append)

lemma dseg_set_prev:
  assumes "dseg N pr p (x # xs) nx" and "x \<notin> set xs" and "N x = Some n"
  shows "dseg (N(x \<mapsto> n\<lparr>ln_prev := pr'\<rparr>)) pr' p (x # xs) nx"
  using assms by auto

definition node_data :: "(u32 \<rightharpoonup> linked_list_node) \<Rightarrow> u32 list \<Rightarrow> u32 list" where
  "node_data N xs = map (\<lambda>x. case N x of None \<Rightarrow> 0 | Some n \<Rightarrow> ln_data n) xs"

lemma node_data_link: "N a = Some n \<Longrightarrow> ln_data n' = ln_data n \<Longrightarrow> node_data (N(a \<mapsto> n')) = node_data N"
  by (auto simp: node_data_def fun_eq_iff)

definition list_ok :: "lstore \<Rightarrow> u32 \<Rightarrow> u32 list \<Rightarrow> bool" where
  "list_ok st l xs \<longleftrightarrow>
     l \<noteq> 0 \<and> llists st l = Some \<lparr>ll_head = hd_or xs 0, ll_tail = last_or 0 xs, ll_size = of_nat (length xs)\<rparr> \<and>
     dseg (lnodes st) 0 (hd_or xs 0) xs 0 \<and> distinct xs"

lemma list_okD:
  assumes "list_ok st l xs"
  shows "l \<noteq> 0" and "llists st l = Some \<lparr>ll_head = hd_or xs 0, ll_tail = last_or 0 xs, ll_size = of_nat (length xs)\<rparr>"
    and "dseg (lnodes st) 0 (hd_or xs 0) xs 0" and "distinct xs" and "0 \<notin> set xs"
  using assms dseg_nonzero by (auto simp: list_ok_def)


section \<open>Append\<close>

lemma append_ok:
  assumes ok: "list_ok st l xs" and node: "node \<noteq> 0" "node \<notin> set xs" "lnodes st node = Some n"
  shows "\<exists>st'. linked_list_append st l node = kret st' \<and> list_ok st' l (xs @ [node]) \<and>
    node_data (lnodes st') = node_data (lnodes st) \<and>
    (\<forall>a. a \<notin> set (xs @ [node]) \<longrightarrow> lnodes st' a = lnodes st a) \<and> (\<forall>k. k \<noteq> l \<longrightarrow> llists st' k = llists st k)"
proof (cases xs rule: rev_cases)
  case Nil
  note d = list_okD [OF ok]
  show ?thesis
    using d node by (auto simp: Nil linked_list_append_def linked_list_empty_def list_ok_def node_data_def fun_eq_iff)
next
  case (snoc ys y)
  note d = list_okD [OF ok]
  have y: "y \<noteq> 0" "y \<noteq> node" "y \<notin> set ys"
    using d(4,5) node(2) by (auto simp: snoc)
  obtain m where m: "lnodes st y = Some m"
    using dseg_node [OF d(3), of y] snoc by auto
  let ?N = "(lnodes st)(node \<mapsto> n\<lparr>ln_prev := y, ln_next := 0\<rparr>)"
  let ?N' = "?N(y \<mapsto> m\<lparr>ln_next := node\<rparr>)"
  let ?st = "st\<lparr>lnodes := ?N', llists := (llists st)(l \<mapsto>
    \<lparr>ll_head = hd_or xs 0, ll_tail = node, ll_size = of_nat (length xs) + 1\<rparr>)\<rparr>"
  have hd: "hd_or xs 0 \<noteq> 0"
    using d(5) hd_or_in [of xs 0] by (metis snoc snoc_eq_iff_butlast)
  have "linked_list_append st l node = kret ?st"
    using d(1,2) node y m hd by (simp add: linked_list_append_def linked_list_empty_def snoc)
  moreover have "dseg ?N 0 (hd_or xs 0) (ys @ [y]) 0"
    using d(3) node(2) by (simp add: snoc)
  then have "dseg ?N' 0 (hd_or xs 0) (ys @ [y]) node"
    using m y by (intro dseg_set_next) auto
  then have "dseg ?N' 0 (hd_or xs 0) (xs @ [node]) 0"
    using node(1) y by (subst dseg_append) (simp add: snoc)
  then have "list_ok ?st l (xs @ [node])"
    using d node y by (simp add: list_ok_def snoc)
  moreover have "node_data ?N' = node_data (lnodes st)"
    using node m by (auto simp: node_data_def fun_eq_iff)
  ultimately show ?thesis
    by (intro exI [of _ ?st]) (auto simp: snoc)
qed


section \<open>Removal\<close>

lemma remove_ok:
  assumes ok: "list_ok st l (xs @ x # ys)"
  shows "\<exists>st'. linked_list_remove st l x = kret st' \<and> list_ok st' l (xs @ ys) \<and>
    node_data (lnodes st') = node_data (lnodes st) \<and> (\<exists>n. lnodes st' x = Some n \<and> ln_prev n = 0 \<and> ln_next n = 0) \<and>
    (\<forall>a. a \<notin> set (xs @ x # ys) \<longrightarrow> lnodes st' a = lnodes st a) \<and> (\<forall>k. k \<noteq> l \<longrightarrow> llists st' k = llists st k)"
proof -
  note d = list_okD [OF ok]
  let ?N = "lnodes st"
  let ?p = "last_or 0 xs"
  let ?q = "hd_or ys 0"
  have dis: "x \<notin> set xs" "x \<notin> set ys" "distinct xs" "distinct ys" "set xs \<inter> set ys = {}" "x \<noteq> 0"
    using d(4,5) by auto
  obtain n where seg: "dseg ?N 0 (hd_or xs x) xs x" and n: "?N x = Some n" "ln_prev n = ?p" "ln_next n = ?q"
    and segy: "dseg ?N x ?q ys 0"
  proof -
    have "dseg ?N 0 (hd_or xs x) xs x" and "dseg ?N ?p x (x # ys) 0"
      using d(3) by (simp_all add: dseg_append)
    moreover from this(2) obtain n where "?N x = Some n" "ln_prev n = ?p" "dseg ?N x (ln_next n) ys 0"
      by auto
    ultimately show thesis
      using that dseg_start by metis
  qed
  have pq: "?p \<noteq> x" "?q \<noteq> x" "xs \<noteq> [] \<Longrightarrow> ?p \<in> set xs \<and> ?p \<noteq> 0" "ys \<noteq> [] \<Longrightarrow> ?q \<in> set ys \<and> ?q \<noteq> 0"
    using dis d(5) last_or_in [of xs 0] hd_or_in [of ys 0]
    by (cases "xs = []", simp, metis Un_iff set_append, cases "ys = []", simp, metis UnCI list.set_intros(2) set_append,
        metis Un_iff set_append, metis UnCI list.set_intros(2) set_append)
  have apart: "xs \<noteq> [] \<Longrightarrow> ?p \<notin> set ys" "ys \<noteq> [] \<Longrightarrow> ?q \<notin> set xs"
    using pq(3,4) dis(5) by blast+
  define N1 where "N1 = (if xs = [] then ?N else ?N(?p \<mapsto> (the (?N ?p))\<lparr>ln_next := ?q\<rparr>))"
  define N2 where "N2 = (if ys = [] then N1 else N1(?q \<mapsto> (the (N1 ?q))\<lparr>ln_prev := ?p\<rparr>))"
  define N3 where "N3 = N2(x \<mapsto> n\<lparr>ln_prev := 0, ln_next := 0\<rparr>)"
  define st' where "st' = st\<lparr>lnodes := N3, llists := (llists st)(l \<mapsto>
    \<lparr>ll_head = hd_or (xs @ ys) 0, ll_tail = last_or 0 (xs @ ys), ll_size = of_nat (length (xs @ ys))\<rparr>)\<rparr>"
  have np: "xs \<noteq> [] \<Longrightarrow> \<exists>m. ?N ?p = Some m" and nq: "ys \<noteq> [] \<Longrightarrow> \<exists>m. ?N ?q = Some m"
    using dseg_node [OF seg] dseg_node [OF segy] pq by blast+
  have N1x: "N1 x = Some n"
    using n pq(1) by (simp add: N1_def)
  have N2x: "N2 x = Some n"
    using N1x pq(2) by (simp add: N2_def)
  have step1: "(if ?p \<noteq> 0 then modify ?N ?p (\<lambda>p. p\<lparr>ln_next := ?q\<rparr>) else kret ?N) = kret N1"
    using np pq(3) by (cases "xs = []") (auto simp: N1_def last_or_def)
  have step2: "(if ?q \<noteq> 0 then modify N1 ?q (\<lambda>p. p\<lparr>ln_prev := ?p\<rparr>) else kret N1) = kret N2"
    using nq pq(4) by (cases "ys = []") (auto simp: N2_def N1_def hd_or_def modify_def split: option.splits)
  have hd: "(hd_or (xs @ x # ys) 0 = x) = (xs = [])" and tl: "(last_or 0 (xs @ x # ys) = x) = (ys = [])"
    using hd_or_in [of xs x] last_or_in [of ys x] dis(1,2) by force+
  have "\<not> (l = 0 \<or> x = 0)"
    using d(1) dis(6) by simp
  then have "linked_list_remove st l x = kret st'"
    unfolding linked_list_remove_def Let_def deref_Some [of "llists st", OF d(2)] deref_Some [of ?N, OF n(1)] kbind_simps n(2,3) step1
      deref_Some [of N1, OF N1x] step2 modify_Some [of N2, OF N2x]
    using hd tl by (cases "xs = []"; cases "ys = []") (simp_all add: N3_def st'_def hd_or_def last_or_def)
  moreover have sx1: "dseg N1 0 (hd_or xs ?q) xs ?q"
  proof (cases xs rule: rev_cases)
    case (snoc zs z)
    then have "hd_or xs x = hd_or xs ?q" "?p = z" "z \<notin> set zs"
      using dis(3) by (simp_all add: hd_or_def)
    then show ?thesis
      using dseg_set_next [of ?N 0 "hd_or xs x" zs z x] seg np snoc by (auto simp: N1_def)
  qed (simp add: N1_def)
  have sy1: "dseg N1 x ?q ys 0"
    using segy apart(1) by (cases "xs = []") (simp_all add: N1_def)
  have sx2: "dseg N2 0 (hd_or xs ?q) xs ?q"
    using sx1 apart(2) by (cases "ys = []") (simp_all add: N2_def)
  have sy2: "dseg N2 ?p ?q ys 0"
  proof (cases ys)
    case (Cons z zs)
    then show ?thesis
      using dseg_set_prev [of N1 x z z zs 0] sy1 dis(4) by (auto simp: N2_def)
  qed (simp add: N2_def)
  have "dseg N3 0 (hd_or (xs @ ys) 0) (xs @ ys) 0"
    unfolding dseg_append using sx2 sy2 dis(1,2) by (simp add: N3_def)
  then have "list_ok st' l (xs @ ys)"
    using d(1,4) by (simp add: list_ok_def st'_def)
  moreover have "node_data N1 = node_data ?N"
    using np node_data_link [of ?N ?p] by (cases "xs = []") (auto simp: N1_def)
  moreover have "node_data N2 = node_data N1"
  proof (cases "ys = []")
    case False
    then obtain m where "N1 ?q = Some m"
      using nq by (cases "xs = []"; cases "?q = ?p") (auto simp: N1_def)
    then show ?thesis
      using False by (simp add: N2_def node_data_link)
  qed (simp add: N2_def)
  moreover have "node_data N3 = node_data N2"
    using N2x unfolding N3_def by (rule node_data_link) simp
  ultimately show ?thesis
    using pq(3,4) by (intro exI [of _ st']) (auto simp: st'_def N3_def N2_def N1_def)
qed


section \<open>Sorting\<close>

text \<open>One round of the exchange sort puts a smallest element in front.\<close>

fun exchange :: "('a \<Rightarrow> 'a \<Rightarrow> bool) \<Rightarrow> 'a \<Rightarrow> 'a list \<Rightarrow> 'a \<times> 'a list" where
  "exchange gt x [] = (x, [])"
| "exchange gt x (y # ys) =
     (if gt x y then (fst (exchange gt y ys), x # snd (exchange gt y ys))
      else (fst (exchange gt x ys), y # snd (exchange gt x ys)))"

lemma exchange_length [simp]: "length (snd (exchange gt x ys)) = length ys"
  by (induction ys arbitrary: x) auto

lemma exchange_mset: "add_mset (fst (exchange gt x ys)) (mset (snd (exchange gt x ys))) = mset (x # ys)"
proof (induction ys arbitrary: x)
  case (Cons y ys)
  show ?case
    using Cons [of x] Cons [of y] by (auto simp: add_mset_commute)
qed simp

function exchange_sort :: "('a \<Rightarrow> 'a \<Rightarrow> bool) \<Rightarrow> 'a list \<Rightarrow> 'a list" where
  "exchange_sort gt [] = []"
| "exchange_sort gt (x # xs) = fst (exchange gt x xs) # exchange_sort gt (snd (exchange gt x xs))"
  by pat_completeness auto
termination
  by (relation "measure (\<lambda>(gt, xs). length xs)") auto

lemma exchange_sort_mset: "mset (exchange_sort gt xs) = mset xs"
  by (induction gt xs rule: exchange_sort.induct) (simp_all add: exchange_mset)

context key_order
begin

lemma exchange_smallest: "z \<in> set (x # ys) \<Longrightarrow> key (fst (exchange gt x ys)) \<le> key z"
proof (induction ys arbitrary: x z)
  case (Cons y ys)
  have "key (fst (exchange gt y ys)) \<le> key y" "key (fst (exchange gt x ys)) \<le> key x"
    using Cons.IH by simp_all
  then show ?case
    using Cons.IH [of z y] Cons.IH [of z x] Cons.prems gt_key [of x y] by (auto simp: not_less)
qed simp

lemma exchange_sort_sorted: "sorted (map key (exchange_sort gt xs))"
proof (induction "length xs" arbitrary: xs)
  case (Suc k)
  then obtain x ys where xs: "xs = x # ys"
    by (cases xs) auto
  let ?ws = "snd (exchange gt x ys)"
  have "insert (fst (exchange gt x ys)) (set ?ws) = set (x # ys)"
    using arg_cong [OF exchange_mset [of gt x ys], of set_mset] by simp
  then have "key (fst (exchange gt x ys)) \<le> key z" if "z \<in> set ?ws" for z
    using exchange_smallest [of z x ys] that by auto
  moreover have "set (exchange_sort gt ?ws) = set ?ws"
    using exchange_sort_mset by (rule mset_eq_setD)
  ultimately show ?case
    using Suc.hyps(1) [of ?ws] Suc.hyps(2) by (auto simp: xs)
qed simp

end

text \<open>Exchanging data pointers leaves the links alone.\<close>

definition links :: "(u32 \<rightharpoonup> linked_list_node) \<Rightarrow> u32 \<rightharpoonup> u32 \<times> u32" where
  "links N = (\<lambda>p. map_option (\<lambda>n. (ln_prev n, ln_next n)) (N p))"

lemma dseg_links: "links N' = links N \<Longrightarrow> dseg N' pr p xs nx = dseg N pr p xs nx"
proof (induction xs arbitrary: pr p)
  case (Cons x xs)
  have "map_option (\<lambda>n. (ln_prev n, ln_next n)) (N' x) = map_option (\<lambda>n. (ln_prev n, ln_next n)) (N x)"
    using fun_cong [OF Cons.prems, of x] by (simp add: links_def)
  then show ?case
    using Cons.IH [OF Cons.prems] by (cases "N x"; cases "N' x") auto
qed simp

lemma node_swap_ok:
  assumes "lnodes st a = Some na" and "lnodes st b = Some nb" and "a \<noteq> b"
  shows "\<exists>st'. linked_list_node_swap st a b = kret st' \<and> llists st' = llists st \<and> links (lnodes st') = links (lnodes st) \<and>
    lnodes st' a = Some (na\<lparr>ln_data := ln_data nb\<rparr>) \<and> lnodes st' b = Some (nb\<lparr>ln_data := ln_data na\<rparr>) \<and>
    (\<forall>x. x \<noteq> a \<and> x \<noteq> b \<longrightarrow> lnodes st' x = lnodes st x)"
  using assms by (auto simp: linked_list_node_swap_def links_def fun_eq_iff)

lemma node_data_simps [simp]:
  "node_data N [] = []" "node_data N (x # xs) = (case N x of None \<Rightarrow> 0 | Some n \<Rightarrow> ln_data n) # node_data N xs"
  by (simp_all add: node_data_def)

lemma node_data_cong: "(\<And>x. x \<in> set xs \<Longrightarrow> N' x = N x) \<Longrightarrow> node_data N' xs = node_data N xs"
  by (simp add: node_data_def)

lemma sort_inner_ok:
  assumes "dseg (lnodes st) pr (hd_or ys 0) ys 0" and "x \<notin> set ys" and "distinct ys" and "lnodes st x = Some a"
  shows "\<exists>st'. linked_list_sort_inner st cmp x (hd_or ys 0) = kret st' \<and> llists st' = llists st \<and>
    links (lnodes st') = links (lnodes st) \<and> (\<forall>p. p \<notin> set (x # ys) \<longrightarrow> lnodes st' p = lnodes st p) \<and>
    (\<exists>a'. lnodes st' x = Some a' \<and>
      (ln_data a', node_data (lnodes st') ys) = exchange (\<lambda>x y. 0 < cmp x y) (ln_data a) (node_data (lnodes st) ys))"
  using assms
proof (induction ys arbitrary: st pr a)
  case Nil
  then show ?case
    by (intro exI [of _ st]) (simp add: linked_list_sort_inner.simps)
next
  case (Cons y ys)
  obtain b where b: "lnodes st y = Some b" "ln_prev b = pr" "dseg (lnodes st) y (ln_next b) ys 0"
    using Cons.prems(1) by auto
  have y: "y \<noteq> 0" "x \<noteq> y" "x \<notin> set ys" "y \<notin> set ys" "distinct ys" and nx: "ln_next b = hd_or ys 0"
    using Cons.prems dseg_start [OF b(3)] by auto
  obtain st1 a1 b1 where st1: "(if 0 < cmp (ln_data a) (ln_data b) then linked_list_node_swap st x y else kret st) = kret st1"
    "llists st1 = llists st" "links (lnodes st1) = links (lnodes st)" "lnodes st1 x = Some a1" "lnodes st1 y = Some b1"
    "\<And>p. p \<noteq> x \<Longrightarrow> p \<noteq> y \<Longrightarrow> lnodes st1 p = lnodes st p"
    "ln_data a1 = (if 0 < cmp (ln_data a) (ln_data b) then ln_data b else ln_data a)"
    "ln_data b1 = (if 0 < cmp (ln_data a) (ln_data b) then ln_data a else ln_data b)"
  proof (cases "0 < cmp (ln_data a) (ln_data b)")
    case True
    obtain st' where "linked_list_node_swap st x y = kret st'" "llists st' = llists st" "links (lnodes st') = links (lnodes st)"
      "lnodes st' x = Some (a\<lparr>ln_data := ln_data b\<rparr>)" "lnodes st' y = Some (b\<lparr>ln_data := ln_data a\<rparr>)"
      "\<forall>p. p \<noteq> x \<and> p \<noteq> y \<longrightarrow> lnodes st' p = lnodes st p"
      using node_swap_ok [OF Cons.prems(4) b(1) y(2)] by blast
    then show thesis
      using that [of st'] True by simp
  next
    case False
    then show thesis
      using that [of st a b] Cons.prems(4) b(1) by simp
  qed
  have seg: "dseg (lnodes st1) y (hd_or ys 0) ys 0"
    using b(3) dseg_links [OF st1(3)] by (simp add: nx)
  obtain st' a' where st': "linked_list_sort_inner st1 cmp x (hd_or ys 0) = kret st'" "llists st' = llists st1"
    "links (lnodes st') = links (lnodes st1)" "\<forall>p. p \<notin> set (x # ys) \<longrightarrow> lnodes st' p = lnodes st1 p"
    "lnodes st' x = Some a'" "(ln_data a', node_data (lnodes st') ys) = exchange (\<lambda>x y. 0 < cmp x y) (ln_data a1) (node_data (lnodes st1) ys)"
    using Cons.IH [OF seg y(3,5) st1(4)] by blast
  have "linked_list_sort_inner st cmp x (hd_or (y # ys) 0) = kret st'"
    using y(1) Cons.prems(4) b(1) st1(1) st'(1) nx
    by (subst linked_list_sort_inner.simps) (cases "0 < cmp (ln_data a) (ln_data b)"; simp)
  moreover have "node_data (lnodes st1) ys = node_data (lnodes st) ys"
    using y(3,4) st1(6) by (intro node_data_cong) metis
  moreover have "lnodes st' y = Some b1"
    using st'(4) y(2,4) st1(5) by auto
  ultimately show ?case
    using st'(2-5) st'(6) [symmetric] st1(2,3,6,7,8) b(1) by (intro exI [of _ st']) auto
qed


lemma sort_outer_ok:
  assumes "dseg (lnodes st) pr (hd_or xs 0) xs 0" and "distinct xs"
  shows "\<exists>st'. linked_list_sort_outer st cmp (hd_or xs 0) = kret st' \<and> llists st' = llists st \<and>
    links (lnodes st') = links (lnodes st) \<and> (\<forall>p. p \<notin> set xs \<longrightarrow> lnodes st' p = lnodes st p) \<and>
    node_data (lnodes st') xs = exchange_sort (\<lambda>x y. 0 < cmp x y) (node_data (lnodes st) xs)"
  using assms
proof (induction xs arbitrary: st pr)
  case Nil
  then show ?case
    by (intro exI [of _ st]) (simp add: linked_list_sort_outer.simps)
next
  case (Cons x xs)
  obtain a where a: "lnodes st x = Some a" "dseg (lnodes st) x (ln_next a) xs 0"
    using Cons.prems(1) by auto
  have x: "x \<noteq> 0" "x \<notin> set xs" "distinct xs" and nx: "ln_next a = hd_or xs 0"
    using Cons.prems dseg_start [OF a(2)] by auto
  obtain st1 a1 where st1: "linked_list_sort_inner st cmp x (hd_or xs 0) = kret st1" "llists st1 = llists st"
    "links (lnodes st1) = links (lnodes st)" "\<forall>p. p \<notin> set (x # xs) \<longrightarrow> lnodes st1 p = lnodes st p"
    "lnodes st1 x = Some a1"
    "(ln_data a1, node_data (lnodes st1) xs) = exchange (\<lambda>x y. 0 < cmp x y) (ln_data a) (node_data (lnodes st) xs)"
    using sort_inner_ok [OF a(2) [unfolded nx] x(2,3) a(1)] by blast
  have "ln_next a1 = ln_next a"
    using fun_cong [OF st1(3), of x] a(1) st1(5) by (simp add: links_def)
  moreover have seg: "dseg (lnodes st1) x (hd_or xs 0) xs 0"
    using a(2) dseg_links [OF st1(3)] by (simp add: nx)
  obtain st' where st': "linked_list_sort_outer st1 cmp (hd_or xs 0) = kret st'" "llists st' = llists st1"
    "links (lnodes st') = links (lnodes st1)" "\<forall>p. p \<notin> set xs \<longrightarrow> lnodes st' p = lnodes st1 p"
    "node_data (lnodes st') xs = exchange_sort (\<lambda>x y. 0 < cmp x y) (node_data (lnodes st1) xs)"
    using Cons.IH [OF seg x(3)] by blast
  moreover have "linked_list_sort_outer st cmp (hd_or (x # xs) 0) = kret st'"
    using x(1) a(1) st1(1,5) st'(1) nx calculation(1)
    by (subst linked_list_sort_outer.simps) simp
  moreover have "lnodes st' x = Some a1"
    using st'(4) x(2) st1(5) by auto
  ultimately show ?case
    using st1(2-4) st1(6) [symmetric] a(1) by (intro exI [of _ st']) auto
qed


section \<open>Destruction\<close>

text \<open>The deallocator is called for the data and the node of every element in order, then for the header.\<close>

primrec free_all :: "'h free_fn \<Rightarrow> 'h \<Rightarrow> u32 list \<Rightarrow> 'h kres" where
  "free_all deallocator h [] = kret h"
| "free_all deallocator h (a # as) = kbind (deallocator h a) (\<lambda>h1. free_all deallocator h1 as)"

lemma free_all_append:
  "free_all f h (as @ bs) = kbind (free_all f h as) (\<lambda>h1. free_all f h1 bs)"
  by (induction as arbitrary: h) (simp_all add: kbind_assoc)

definition owned_pointers :: "(u32 \<rightharpoonup> linked_list_node) \<Rightarrow> bool \<Rightarrow> u32 list \<Rightarrow> u32 list" where
  "owned_pointers N free_data xs =
     concat (map (\<lambda>x. (if free_data then [case N x of None \<Rightarrow> 0 | Some n \<Rightarrow> ln_data n] else []) @ [x]) xs)"

lemma destroy_loop_eq:
  "dseg (lnodes st) pr p xs 0 \<Longrightarrow>
   linked_list_destroy_loop st fd f h p = free_all f h (owned_pointers (lnodes st) fd xs)"
proof (induction xs arbitrary: pr p h)
  case Nil
  then show ?case
    by (simp add: linked_list_destroy_loop.simps owned_pointers_def)
next
  case (Cons x xs)
  then obtain n where n: "p = x" "x \<noteq> 0" "lnodes st x = Some n" "dseg (lnodes st) x (ln_next n) xs 0"
    by auto
  show ?case
    using n(1-3) Cons.IH [OF n(4)] by (subst linked_list_destroy_loop.simps) (simp add: owned_pointers_def kbind_assoc)
qed

lemma linked_list_destroy_eq:
  assumes "list_ok st l xs"
  shows "linked_list_destroy st l fd f h = free_all f h (owned_pointers (lnodes st) fd xs @ [l])"
  using list_okD [OF assms] by (simp add: linked_list_destroy_def destroy_loop_eq free_all_append)


section \<open>Properties\<close>

text \<open>Three nodes at 0x100, 0x200 and 0x300 with data 7, 9 and 8, and a fourth node at 0x400.\<close>

definition sample_list :: lstore where
  "sample_list = \<lparr>lnodes = [0x100 \<mapsto> \<lparr>ln_prev = 0, ln_next = 0x200, ln_data = 7\<rparr>,
     0x200 \<mapsto> \<lparr>ln_prev = 0x100, ln_next = 0x300, ln_data = 9\<rparr>,
     0x300 \<mapsto> \<lparr>ln_prev = 0x200, ln_next = 0, ln_data = 8\<rparr>,
     0x400 \<mapsto> \<lparr>ln_prev = 0, ln_next = 0, ln_data = 5\<rparr>],
     llists = [0x10 \<mapsto> \<lparr>ll_head = 0x100, ll_tail = 0x300, ll_size = 3\<rparr>]\<rparr>"

definition empty_list :: lstore where
  "empty_list = \<lparr>lnodes = [0x400 \<mapsto> \<lparr>ln_prev = 7, ln_next = 7, ln_data = 5\<rparr>],
     llists = [0x10 \<mapsto> \<lparr>ll_head = 0, ll_tail = 0, ll_size = 0\<rparr>]\<rparr>"

lemma sample_list_ok: "list_ok sample_list 0x10 [0x100, 0x200, 0x300]"
  by (simp add: list_ok_def sample_list_def hd_or_def last_or_def)

text \<open>
  C20: appending a node to any list, the empty one included, puts it at the end; removing any node
  of the list takes it out, unlinks it and leaves the rest in order.  Both keep the list well formed (links in both
  directions, head, tail and size) and change neither the data of a node nor any other list or node.
\<close>
theorem linked_list_append_remove:
  assumes "list_ok st l xs" and "node \<noteq> 0" and "node \<notin> set xs" and "lnodes st node = Some n"
  shows "(\<exists>st'. linked_list_append st l node = kret st' \<and> list_ok st' l (xs @ [node]) \<and>
      node_data (lnodes st') = node_data (lnodes st) \<and>
      (\<forall>a. a \<notin> set (xs @ [node]) \<longrightarrow> lnodes st' a = lnodes st a) \<and> (\<forall>k. k \<noteq> l \<longrightarrow> llists st' k = llists st k)) \<and>
    (\<forall>x \<in> set xs. \<exists>st'. linked_list_remove st l x = kret st' \<and> list_ok st' l (remove1 x xs) \<and>
      node_data (lnodes st') = node_data (lnodes st) \<and> (\<exists>n. lnodes st' x = Some n \<and> ln_prev n = 0 \<and> ln_next n = 0) \<and>
      (\<forall>a. a \<notin> set xs \<longrightarrow> lnodes st' a = lnodes st a) \<and> (\<forall>k. k \<noteq> l \<longrightarrow> llists st' k = llists st k))"
proof (intro conjI ballI append_ok [OF assms])
  fix x assume "x \<in> set xs"
  then obtain as bs where xs: "xs = as @ x # bs" "x \<notin> set as"
    by (meson split_list_first)
  then have "remove1 x xs = as @ bs"
    by (simp add: remove1_append)
  then show "\<exists>st'. linked_list_remove st l x = kret st' \<and> list_ok st' l (remove1 x xs) \<and>
      node_data (lnodes st') = node_data (lnodes st) \<and> (\<exists>n. lnodes st' x = Some n \<and> ln_prev n = 0 \<and> ln_next n = 0) \<and>
      (\<forall>a. a \<notin> set xs \<longrightarrow> lnodes st' a = lnodes st a) \<and> (\<forall>k. k \<noteq> l \<longrightarrow> llists st' k = llists st k)"
    using remove_ok [OF assms(1) [unfolded xs(1)]] by (simp add: xs(1))
qed

theorem linked_list_append_remove_witness:
  "(\<exists>st'. linked_list_append sample_list 0x10 0x400 = kret st' \<and> list_ok st' 0x10 [0x100, 0x200, 0x300, 0x400]) \<and>
   (\<exists>st'. linked_list_remove sample_list 0x10 0x200 = kret st' \<and> list_ok st' 0x10 [0x100, 0x300]) \<and>
   (\<exists>st'. linked_list_append empty_list 0x10 0x400 = kret st' \<and> list_ok st' 0x10 [0x400])"
proof -
  have "lnodes sample_list 0x400 = Some \<lparr>ln_prev = 0, ln_next = 0, ln_data = 5\<rparr>"
    by (simp add: sample_list_def)
  moreover have "list_ok empty_list 0x10 []" "lnodes empty_list 0x400 = Some \<lparr>ln_prev = 7, ln_next = 7, ln_data = 5\<rparr>"
    by (simp_all add: empty_list_def list_ok_def hd_or_def last_or_def)
  ultimately show ?thesis
    using linked_list_append_remove [OF sample_list_ok, of "0x400"] linked_list_append_remove [of empty_list "0x10" "[]" "0x400"] by auto
qed

text \<open>
  C21: sorting terminates; the nodes stay where they are and the data pointers are
  permuted so that they ascend in the order of the comparison function.
\<close>
theorem linked_list_sort_sorts:
  fixes key :: "u32 \<Rightarrow> 'k :: linorder"
  assumes "list_ok st l xs" and "\<And>x y. 0 < cmp x y \<longleftrightarrow> key y < key x"
  shows "\<exists>st'. linked_list_sort st l cmp = kret st' \<and> list_ok st' l xs \<and>
    sorted (map key (node_data (lnodes st') xs)) \<and>
    mset (node_data (lnodes st') xs) = mset (node_data (lnodes st) xs) \<and>
    (\<forall>p. p \<notin> set xs \<longrightarrow> lnodes st' p = lnodes st p)"
proof -
  note d = list_okD [OF assms(1)]
  obtain st' where st': "linked_list_sort_outer st cmp (hd_or xs 0) = kret st'" "llists st' = llists st"
    "links (lnodes st') = links (lnodes st)" "\<forall>p. p \<notin> set xs \<longrightarrow> lnodes st' p = lnodes st p"
    "node_data (lnodes st') xs = exchange_sort (\<lambda>x y. 0 < cmp x y) (node_data (lnodes st) xs)"
    using sort_outer_ok [OF d(3,4)] by blast
  have "linked_list_sort st l cmp = kret st'"
    using d(1,2) st'(1) by (simp add: linked_list_sort_def)
  moreover have "list_ok st' l xs"
    using d st'(2) dseg_links [OF st'(3)] by (simp add: list_ok_def)
  moreover have "key_order (\<lambda>x y. 0 < cmp x y) key"
    by unfold_locales (rule assms(2))
  then have "sorted (map key (node_data (lnodes st') xs))"
    unfolding st'(5) by (rule key_order.exchange_sort_sorted)
  moreover have "mset (node_data (lnodes st') xs) = mset (node_data (lnodes st) xs)"
    unfolding st'(5) by (rule exchange_sort_mset)
  ultimately show ?thesis
    using st'(4) by blast
qed

theorem linked_list_sort_sorts_witness:
  "\<exists>st'. linked_list_sort sample_list 0x10 (\<lambda>a b. int (unat a) - int (unat b)) = kret st' \<and>
     list_ok st' 0x10 [0x100, 0x200, 0x300] \<and> mset (node_data (lnodes st') [0x100, 0x200, 0x300]) = {#7, 9, 8#}"
proof -
  have m: "mset (node_data (lnodes sample_list) [0x100, 0x200, 0x300]) = {#7, 9, 8#}"
    by (simp add: sample_list_def)
  have "0 < int (unat x) - int (unat y) \<longleftrightarrow> unat y < unat x" for x y :: u32
    by (simp only: zero_less_diff of_nat_less_iff diff_gt_0_iff_gt)
  from linked_list_sort_sorts [OF sample_list_ok, of "\<lambda>a b. int (unat a) - int (unat b)" unat, OF this]
  obtain st' where "linked_list_sort sample_list 0x10 (\<lambda>a b. int (unat a) - int (unat b)) = kret st'"
    "list_ok st' 0x10 [0x100, 0x200, 0x300]"
    "mset (node_data (lnodes st') [0x100, 0x200, 0x300]) = mset (node_data (lnodes sample_list) [0x100, 0x200, 0x300])"
    by blast
  then show ?thesis
    unfolding m by blast
qed

text \<open>
  On a list of two or more nodes \<^verbatim>\<open>linked_list_pop_tail\<close> takes out the first
  node, as \<^verbatim>\<open>linked_list_pop_head\<close> does, and leaves the last one in the list.
\<close>
theorem linked_list_pop_tail_pops_head:
  assumes "list_ok st l (x # y # ys)"
  shows "\<exists>st'. linked_list_pop_tail st l = kret (x, st') \<and> linked_list_pop_head st l = kret (x, st') \<and>
    list_ok st' l (y # ys) \<and> last (y # ys) = last (x # y # ys)"
proof -
  obtain st' where "linked_list_remove st l x = kret st'" "list_ok st' l (y # ys)"
    using remove_ok [of st l "[]" x "y # ys"] assms by auto
  then show ?thesis
    using list_okD(1,2) [OF assms] by (simp add: linked_list_pop_tail_def linked_list_pop_head_def Let_def)
qed

theorem linked_list_pop_tail_pops_head_witness:
  "\<exists>st'. linked_list_pop_tail sample_list 0x10 = kret (0x100, st') \<and> list_ok st' 0x10 [0x200, 0x300]"
  using linked_list_pop_tail_pops_head [OF sample_list_ok] by auto

end
