(* ===== verification/Device_Correct.thy ===== *)
theory Device_Correct
  imports Device Generic_Tree_Correct Linked_List_Correct Heap_Correct
begin

text \<open>
  The registry as a list of devices in the preorder of its tree.  The heap, the tree and the lists
  share the addresses: every node lives in a payload of the heap, which is why a new node is not
  one of the tree or list it goes into.
\<close>

section \<open>The registry as a list\<close>

definition registered :: "registry \<Rightarrow> gtree list \<Rightarrow> u32 list" where
  "registered r ts = map (node_value (tnodes (reg_trees r))) (addrs ts)"

definition in_heap :: "(nat \<times> nat) set \<Rightarrow> u32 \<Rightarrow> bool" where
  "in_heap L a \<longleftrightarrow> (\<exists>s. (unat a, s) \<in> L)"

definition registry_ok :: "registry \<Rightarrow> (nat \<times> nat) set \<Rightarrow> gtree list \<Rightarrow> bool" where
  "registry_ok r L ts \<longleftrightarrow>
     heap_owns (reg_heap r) L \<and> request_ok (reg_heap r) 27 \<and> tree_ok (reg_trees r) (device_tree r) ts \<and>
     (\<forall>a \<in> set (addrs ts). in_heap L a \<and> devices r (node_value (tnodes (reg_trees r)) a) \<noteq> None)"

lemma registry_okD:
  assumes "registry_ok r L ts"
  shows "heap_owns (reg_heap r) L" and "request_ok (reg_heap r) 27" and "tree_ok (reg_trees r) (device_tree r) ts"
    and "\<And>a. a \<in> set (addrs ts) \<Longrightarrow> in_heap L a"
    and "\<And>a. a \<in> set (addrs ts) \<Longrightarrow> devices r (node_value (tnodes (reg_trees r)) a) \<noteq> None"
  using assms by (auto simp: registry_ok_def)

text \<open>A small request either fails and changes nothing or takes a payload that was not in use.\<close>

lemma kmalloc_node:
  assumes "heap_owns h L" and "request_ok h 27" and "0 < n" and "n \<le> 27"
  shows "kmalloc h (of_nat n) = kret (0, h) \<or>
    (\<exists>p s h'. kmalloc h (of_nat n) = kret (p, h') \<and> p \<noteq> 0 \<and> \<not> in_heap L p \<and> heap_owns h' (insert (unat p, s) L) \<and>
      request_ok h' 27)"
proof -
  obtain bs where bs: "heap_inv h bs" "L = live (unat (kheap_base h)) bs"
    using assms(1) unfolding heap_owns_def by blast
  have "request_ok h n"
    using assms(2-4) by (simp add: request_ok_def)
  from kmalloc_live [OF bs(1) this] show ?thesis
  proof (elim disjE exE conjE)
    fix t s :: nat and h' bs'
    let ?p = "t + 20" and ?s = "fst (hd (carve n s))"
    assume new: "kmalloc h (of_nat n) = kret (adr ?p, h')" "heap_inv h' bs'" "kheap_base h' = kheap_base h"
      "live (unat (kheap_base h)) bs' = insert (?p, ?s) (live (unat (kheap_base h)) bs)"
      "(?p, ?s) \<notin> live (unat (kheap_base h)) bs"
    have owns: "heap_owns h' (insert (?p, ?s) L)"
      using new unfolding heap_owns_def bs(2) by (intro exI [of _ bs']) simp
    have b: "0 < ?p" "0 < ?s" "?p + ?s < 4294967296"
      using heap_alloc.owned_bounds [OF owns, of ?p ?s] by auto
    have "False" if "(?p, k) \<in> L" for k
      using heap_alloc.owned_disjoint [OF owns, of ?p ?s ?p k] heap_alloc.owned_bounds [OF owns, of ?p k] that b new(5)
      by (auto simp: bs(2))
    then have "\<not> in_heap L (adr ?p)"
      using b by (auto simp: in_heap_def)
    then show ?thesis
      using new(1,3) owns b assms(2)
      by (intro disjI2 exI [of _ "adr ?p"] exI [of _ ?s] exI [of _ h']) (simp add: request_ok_def)
  qed simp
qed

lemma in_heap_insert: "in_heap L a \<Longrightarrow> in_heap (insert x L) a"
  by (auto simp: in_heap_def)


section \<open>Registration\<close>

text \<open>A node for a device, not yet in the tree.\<close>

lemma fresh_node:
  assumes ok: "registry_ok r L ts"
  shows "kmalloc (reg_heap r) TREE_NODE_SIZE = kret (0, reg_heap r) \<and>
      generic_tree_node_create dev kmalloc (reg_trees r) (reg_heap r) = kret (0, reg_trees r, reg_heap r) \<or>
    (\<exists>b s T h. generic_tree_node_create dev kmalloc (reg_trees r) (reg_heap r) = kret (b, T, h) \<and> b \<noteq> 0 \<and>
       \<not> in_heap L b \<and> b \<notin> set (addrs ts) \<and> heap_owns h (insert (unat b, s) L) \<and> request_ok h 27 \<and> tree_ok T (device_tree r) ts \<and>
       tnodes T b = Some \<lparr>gt_parent = 0, gt_slide = 0, gt_child = 0, gt_data = dev\<rparr> \<and>
       (\<forall>a. a \<noteq> b \<longrightarrow> tnodes T a = tnodes (reg_trees r) a) \<and> trees T = trees (reg_trees r))"
proof -
  note d = registry_okD [OF ok]
  have "kmalloc (reg_heap r) TREE_NODE_SIZE = kret (0, reg_heap r) \<or>
    (\<exists>p s h. kmalloc (reg_heap r) TREE_NODE_SIZE = kret (p, h) \<and> p \<noteq> 0 \<and> \<not> in_heap L p \<and> heap_owns h (insert (unat p, s) L) \<and>
      request_ok h 27)"
    using kmalloc_node [OF d(1,2), of 16] by (simp add: TREE_NODE_SIZE_def)
  then show ?thesis
  proof (elim disjE exE conjE)
    assume "kmalloc (reg_heap r) TREE_NODE_SIZE = kret (0, reg_heap r)"
    then show ?thesis
      by (simp add: generic_tree_node_create_def)
  next
    fix p s h
    let ?T = "(reg_trees r)\<lparr>tnodes := (tnodes (reg_trees r))(p \<mapsto> \<lparr>gt_parent = 0, gt_slide = 0, gt_child = 0, gt_data = dev\<rparr>)\<rparr>"
    assume p: "kmalloc (reg_heap r) TREE_NODE_SIZE = kret (p, h)" "p \<noteq> 0" "\<not> in_heap L p" "heap_owns h (insert (unat p, s) L)"
      "request_ok h 27"
    have new: "p \<notin> set (addrs ts)"
      using p(3) d(4) by blast
    have "generic_tree_node_create dev kmalloc (reg_trees r) (reg_heap r) = kret (p, ?T, h)"
      using p(1,2) by (simp add: generic_tree_node_create_def generic_tree_node_init_def)
    moreover have "forest (tnodes ?T) 0 (first_root ts 0) ts = forest (tnodes (reg_trees r)) 0 (first_root ts 0) ts"
      using new by (intro forest_cong) auto
    then have "tree_ok ?T (device_tree r) ts"
      using d(3) by (simp add: tree_ok_def)
    ultimately show ?thesis
      using p(2-5) new by (intro disjI2 exI [of _ p] exI [of _ s] exI [of _ ?T] exI [of _ h]) simp
  qed
qed

text \<open>A device registered below the node \<open>a\<close>.\<close>

lemma register_below:
  assumes ok: "registry_ok r L ts" and a: "a \<in> set (addrs ts)" and dev: "devices r dev \<noteq> None"
    and b: "b \<noteq> 0" "b \<notin> set (addrs ts)" "heap_owns h (insert (unat b, s) L)" "request_ok h 27" "tree_ok T (device_tree r) ts"
      "tnodes T b = Some \<lparr>gt_parent = 0, gt_slide = 0, gt_child = 0, gt_data = dev\<rparr>"
      "\<forall>x. x \<noteq> b \<longrightarrow> tnodes T x = tnodes (reg_trees r) x"
  shows "\<exists>T1. generic_tree_insert T a b = kret T1 \<and>
    registry_ok (r\<lparr>reg_heap := h, reg_trees := T1\<rparr>) (insert (unat b, s) L)
      (set_children a (children_of a ts @ [GNode b []]) ts) \<and>
    (\<forall>x \<in> set (addrs ts). node_value (tnodes T1) x = node_value (tnodes (reg_trees r)) x) \<and>
    node_value (tnodes T1) b = dev"
proof -
  note d = registry_okD [OF ok]
  let ?ts = "set_children a (children_of a ts @ [GNode b []]) ts"
  obtain T1 where T1: "generic_tree_insert T a b = kret T1" "tree_ok T1 (device_tree r) ?ts"
    "node_value (tnodes T1) = node_value (tnodes T)"
    using tree_insert_ok [OF b(5) a b(1,2,6)] by auto
  have vals: "node_value (tnodes T1) x = node_value (tnodes (reg_trees r)) x" if "x \<in> set (addrs ts)" for x
    using that b(2,7) by (auto simp: T1(3) node_value_def)
  have new: "node_value (tnodes T1) b = dev"
    using b(6) by (simp add: T1(3) node_value_def)
  have "mset (addrs ?ts) = mset (b # addrs ts)"
    using set_children_addrs [OF tree_okD(5) [OF b(5)] a, of "children_of a ts @ [GNode b []]"] by simp
  then have set_ts: "set (addrs ?ts) = insert b (set (addrs ts))"
    by (metis list.simps(15) mset_eq_setD)
  have "registry_ok (r\<lparr>reg_heap := h, reg_trees := T1\<rparr>) (insert (unat b, s) L) ?ts"
    unfolding registry_ok_def set_ts
    using T1(2) b(3,4) vals new dev d(4,5) by (auto simp: in_heap_insert) (auto simp: in_heap_def)
  then show ?thesis
    using T1(1) vals new by blast
qed

text \<open>A device registered at the root is the last one in preorder.\<close>

lemma register_ok:
  assumes ok: "registry_ok r L ts" and "ts \<noteq> []" and dev: "devices r dev \<noteq> None"
    and mem: "kmalloc (reg_heap r) TREE_NODE_SIZE \<noteq> kret (0, reg_heap r)"
  shows "\<exists>r' b s. device_register r dev = kret (0, r') \<and> (unat b, s) \<notin> L \<and>
    (\<exists>a cs. ts = [GNode a cs] \<and> registry_ok r' (insert (unat b, s) L) [GNode a (cs @ [GNode b []])] \<and>
      registered r' [GNode a (cs @ [GNode b []])] = registered r ts @ [dev])"
proof -
  obtain a cs where ts: "ts = [GNode a cs]"
    using tree_shape [OF registry_okD(3) [OF ok]] \<open>ts \<noteq> []\<close> by metis
  obtain b s T h where b: "generic_tree_node_create dev kmalloc (reg_trees r) (reg_heap r) = kret (b, T, h)" "b \<noteq> 0"
       "b \<notin> set (addrs ts)" "heap_owns h (insert (unat b, s) L)" "request_ok h 27" "tree_ok T (device_tree r) ts"
       "tnodes T b = Some \<lparr>gt_parent = 0, gt_slide = 0, gt_child = 0, gt_data = dev\<rparr>"
       "\<forall>a. a \<noteq> b \<longrightarrow> tnodes T a = tnodes (reg_trees r) a" "\<not> in_heap L b"
    using fresh_node [OF ok, of dev] mem by blast
  have a: "a \<in> set (addrs ts)"
    by (simp add: ts)
  obtain T1 where T1: "generic_tree_insert T a b = kret T1"
    "registry_ok (r\<lparr>reg_heap := h, reg_trees := T1\<rparr>) (insert (unat b, s) L) [GNode a (cs @ [GNode b []])]"
    "\<forall>x \<in> set (addrs ts). node_value (tnodes T1) x = node_value (tnodes (reg_trees r)) x" "node_value (tnodes T1) b = dev"
    using register_below [OF ok a dev b(2-8)] by (auto simp: ts)
  have "device_register r dev = kret (0, r\<lparr>reg_heap := h, reg_trees := T1\<rparr>)"
    using b(1,2) T1(1) tree_okD(2) [OF registry_okD(3) [OF ok]] by (simp add: device_register_def ts first_root_def)
  then show ?thesis
    using T1(2-4) b(9) by (intro exI [of _ "r\<lparr>reg_heap := h, reg_trees := T1\<rparr>"] exI [of _ b] exI [of _ s])
      (simp add: ts registered_def in_heap_def)
qed


lemma registered_find:
  assumes ok: "registry_ok r L ts" and "data \<noteq> 0"
    and "\<And>a. a \<in> set (addrs ts) \<Longrightarrow> cmp (node_value (tnodes (reg_trees r)) a) data = kret (if P (node_value (tnodes (reg_trees r)) a) then 1 else 0)"
  shows "generic_tree_find (reg_trees r) (device_tree r) data cmp =
    kret (first_match (\<lambda>a. P (node_value (tnodes (reg_trees r)) a)) (addrs ts))"
  using tree_find_ok [OF registry_okD(3) [OF ok], where cmp = cmp and data = data and c = "\<lambda>x. if P x then 1 else 0"] assms(2,3)
  by (simp add: if_distrib [of "\<lambda>x. x \<noteq> 0"] cong: if_cong)

text \<open>Unregistering a device takes its node and what is below it out of the tree and releases the node.\<close>

lemma unregister_ok:
  assumes ok: "registry_ok r L ts" and a: "a \<in> set (addrs ts)" and c: "children_of a ts = ss @ GNode c cs # us"
    and dev: "dev \<noteq> 0" "first_match (\<lambda>x. node_value (tnodes (reg_trees r)) x = dev) (addrs ts) = c"
    and s: "(unat c, s) \<in> L"
  shows "\<exists>r'. device_unregister r dev = kret (0, r') \<and> registry_ok r' (L - {(unat c, s)}) (set_children a (ss @ us) ts) \<and>
    node_value (tnodes (reg_trees r')) = node_value (tnodes (reg_trees r))"
proof -
  note d = registry_okD [OF ok]
  let ?ts = "set_children a (ss @ us) ts"
  obtain T where T: "generic_tree_remove (reg_trees r) (device_tree r) c = kret T" "tree_ok T (device_tree r) ?ts"
    "node_value (tnodes T) = node_value (tnodes (reg_trees r))"
    using tree_remove_ok [OF d(3) a c] by blast
  obtain h where h: "kfree (reg_heap r) c = kret h" "heap_owns h (L - {(unat c, s)})"
    using heap_alloc.release_law [OF d(1) s] by auto
  have base: "kheap_base h = kheap_base (reg_heap r)"
  proof -
    obtain bs where "heap_inv (reg_heap r) bs" "(unat c, s) \<in> live (unat (kheap_base (reg_heap r))) bs"
      using d(1) s unfolding heap_owns_def by blast
    from kfree_live [OF this] show ?thesis
      using h(1) by auto
  qed
  have "mset (addrs ?ts) + mset (addrs [GNode c cs]) = mset (addrs ts)"
    using set_children_addrs [OF tree_okD(5) [OF d(3)] a, of "ss @ us"] by (simp add: c union_ac)
  then have "mset (addrs ?ts @ addrs [GNode c cs]) = mset (addrs ts)"
    by simp
  then have rest: "distinct (addrs ?ts @ addrs [GNode c cs])" "set (addrs ?ts) \<subseteq> set (addrs ts)"
    using tree_okD(5) [OF d(3)] by (metis mset_eq_imp_distinct_iff, metis mset_eq_setD set_append sup_ge1)
  have c0: "c \<noteq> 0"
    using heap_alloc.owned_bounds [OF d(1) s] by auto
  have "device_unregister r dev = kret (0, r\<lparr>reg_heap := h, reg_trees := T\<rparr>)"
    using registered_find [OF ok dev(1), of device_register_compare "\<lambda>x. x = dev"] dev(2) T(1) h(1) c0
    by (simp add: device_unregister_def device_register_compare_def)
  moreover have "in_heap (L - {(unat c, s)}) x" if "x \<in> set (addrs ?ts)" for x
  proof -
    have "x \<noteq> c" "x \<in> set (addrs ts)"
      using rest that by auto
    then show ?thesis
      using d(4) [of x] by (auto simp: in_heap_def word_unat_eq_iff)
  qed
  then have "registry_ok (r\<lparr>reg_heap := h, reg_trees := T\<rparr>) (L - {(unat c, s)}) ?ts"
    using h(2) T(2,3) rest(2) d(2,5) base by (auto simp: registry_ok_def request_ok_def)
  ultimately show ?thesis
    using T(3) by auto
qed


section \<open>Searches\<close>

definition with_type :: "registry \<Rightarrow> u16 \<Rightarrow> u32 \<Rightarrow> bool" where
  "with_type r type dev \<longleftrightarrow> dev_type (the (devices r dev)) = type"

definition with_bus :: "registry \<Rightarrow> u8 \<Rightarrow> u32 \<Rightarrow> bool" where
  "with_bus r type dev \<longleftrightarrow> bus_type (dev_bus (the (devices r dev))) = type"

lemma first_match_map: "0 \<notin> set as \<Longrightarrow>
    (if first_match (\<lambda>a. P (f a)) as = 0 then 0 else f (first_match (\<lambda>a. P (f a)) as)) =
    (case filter P (map f as) of [] \<Rightarrow> 0 | d # _ \<Rightarrow> d)"
  by (induction as) (auto simp: first_match_def)

lemma find_by_type_ok:
  assumes ok: "registry_ok r L ts" and "type_ptr \<noteq> 0"
  shows "device_find_by_type r type_ptr type =
    kret (case filter (with_type r type) (registered r ts) of [] \<Rightarrow> 0 | d # _ \<Rightarrow> d)"
proof -
  note d = registry_okD [OF ok]
  let ?val = "node_value (tnodes (reg_trees r))"
  let ?a = "first_match (\<lambda>a. with_type r type (?val a)) (addrs ts)"
  have "generic_tree_find (reg_trees r) (device_tree r) type_ptr (device_type_compare (devices r) [type_ptr \<mapsto> type]) = kret ?a"
    using d(5) by (intro registered_find [OF assms]) (force simp: device_type_compare_def with_type_def)
  moreover have nz: "x \<noteq> 0 \<and> (\<exists>n. tnodes (reg_trees r) x = Some n)" if "x \<in> set (addrs ts)" for x
    using forest_nodes [OF tree_okD(4) [OF d(3)] that] .
  have "?a \<noteq> 0 \<Longrightarrow> ?a \<in> set (addrs ts)"
    by (auto simp: first_match_def split: list.splits dest: filter_eq_ConsD)
  then have "?a \<noteq> 0 \<Longrightarrow> \<exists>n. tnodes (reg_trees r) ?a = Some n \<and> gt_data n = ?val ?a"
    using nz [of ?a] by (auto simp: node_value_def)
  moreover have "(if ?a = 0 then 0 else ?val ?a) = (case filter (with_type r type) (registered r ts) of [] \<Rightarrow> 0 | d # _ \<Rightarrow> d)"
    unfolding registered_def using nz by (intro first_match_map) blast
  ultimately show ?thesis
    by (cases "?a = 0") (auto simp: device_find_by_type_def)
qed

text \<open>The result of a search for all devices under construction.\<close>

definition collecting :: "registry \<Rightarrow> (nat \<times> nat) set \<Rightarrow> gtree list \<Rightarrow> u32 \<Rightarrow> u32 list \<Rightarrow> bool" where
  "collecting r L ts l ns \<longleftrightarrow> registry_ok r L ts \<and> list_ok (reg_lists r) l ns \<and> (\<forall>x \<in> set ns. in_heap L x)"

definition same_devices :: "registry \<Rightarrow> registry \<Rightarrow> bool" where
  "same_devices r r' \<longleftrightarrow> reg_trees r' = reg_trees r \<and> device_tree r' = device_tree r \<and> devices r' = devices r"

lemma small_alloc:
  assumes "registry_ok r L ts"
  shows "kmalloc (reg_heap r) 12 = kret (0, reg_heap r) \<or>
    (\<exists>p s h. kmalloc (reg_heap r) 12 = kret (p, h) \<and> p \<noteq> 0 \<and> \<not> in_heap L p \<and> registry_ok (r\<lparr>reg_heap := h\<rparr>) (insert (unat p, s) L) ts)"
proof -
  have "in_heap (insert x L) a" if "a \<in> set (addrs ts)" for x a
    using registry_okD(4) [OF assms that] by (rule in_heap_insert)
  then show ?thesis
    using kmalloc_node [OF registry_okD(1,2) [OF assms], of 12] assms by (auto simp: registry_ok_def)
qed

lemma collect_ok:
  assumes "collecting r L ts l ns"
  shows "device_collect l r dev = out_of_memory \<or>
    (\<exists>r' b s. device_collect l r dev = kret r' \<and> collecting r' (insert (unat b, s) L) ts l (ns @ [b]) \<and>
      node_data (lnodes (reg_lists r')) (ns @ [b]) = node_data (lnodes (reg_lists r)) ns @ [dev] \<and> same_devices r r')"
proof -
  have ok: "registry_ok r L ts" and lst: "list_ok (reg_lists r) l ns" and ns: "\<forall>x \<in> set ns. in_heap L x"
    using assms by (simp_all add: collecting_def)
  from small_alloc [OF ok] show ?thesis
  proof (elim disjE exE conjE)
    fix p s h
    assume p: "kmalloc (reg_heap r) 12 = kret (p, h)" "p \<noteq> 0" "\<not> in_heap L p"
      "registry_ok (r\<lparr>reg_heap := h\<rparr>) (insert (unat p, s) L) ts"
    let ?n = "\<lparr>ln_prev = 0, ln_next = 0, ln_data = dev\<rparr>"
    let ?S = "(reg_lists r)\<lparr>lnodes := (lnodes (reg_lists r))(p \<mapsto> ?n)\<rparr>"
    have new: "p \<notin> set ns"
      using p(3) ns by blast
    then have "list_ok ?S l ns"
      using lst by (simp add: list_ok_def)
    then obtain S1 where S1: "linked_list_append ?S l p = kret S1" "list_ok S1 l (ns @ [p])"
      "node_data (lnodes S1) = node_data (lnodes ?S)"
      using append_ok [of ?S l ns p ?n] p(2) new by auto
    have "device_collect l r dev = kret (r\<lparr>reg_heap := h, reg_lists := S1\<rparr>)"
      using p(1,2) S1(1) by (simp add: device_collect_def linked_list_node_create_def LIST_NODE_SIZE_def linked_list_node_init_def)
    moreover have "collecting (r\<lparr>reg_heap := h, reg_lists := S1\<rparr>) (insert (unat p, s) L) ts l (ns @ [p])"
      using p(4) S1(2) ns by (auto simp: collecting_def registry_ok_def in_heap_def)
    moreover have "node_data (lnodes S1) (ns @ [p]) = node_data (lnodes (reg_lists r)) ns @ [dev]"
      using new by (auto simp: S1(3) node_data_def)
    ultimately show ?thesis
      by (intro disjI2 exI [of _ "r\<lparr>reg_heap := h, reg_lists := S1\<rparr>"] exI [of _ p] exI [of _ s]) (simp add: same_devices_def)
  qed (simp add: device_collect_def linked_list_node_create_def LIST_NODE_SIZE_def linked_list_node_init_def)
qed

text \<open>Both callbacks keep the devices that satisfy a predicate.\<close>

lemma visit_collect:
  assumes cb: "\<And>r a. f r a = kbind (deref (tnodes (reg_trees r)) a) (\<lambda>n. kbind (deref (devices r) (gt_data n)) (\<lambda>d.
      if P d then device_collect l r (gt_data n) else kret r))"
  shows "collecting r L ts l ns \<Longrightarrow> set as \<subseteq> set (addrs ts) \<Longrightarrow>
    visit_all f r as = out_of_memory \<or>
    (\<exists>r' L' ns'. visit_all f r as = kret r' \<and> collecting r' L' ts l ns' \<and> L \<subseteq> L' \<and> same_devices r r' \<and>
      node_data (lnodes (reg_lists r')) ns' = node_data (lnodes (reg_lists r)) ns @
        filter (\<lambda>d. P (the (devices r d))) (map (node_value (tnodes (reg_trees r))) as))"
proof (induction as arbitrary: r L ns)
  case Nil
  then show ?case
    by (auto simp: same_devices_def)
next
  case (Cons a as)
  have ok: "registry_ok r L ts"
    using Cons.prems(1) by (simp add: collecting_def)
  obtain n where n: "tnodes (reg_trees r) a = Some n"
    using forest_nodes [OF tree_okD(4) [OF registry_okD(3) [OF ok]], of a] Cons.prems(2) by auto
  have val: "node_value (tnodes (reg_trees r)) a = gt_data n"
    using n by (simp add: node_value_def)
  obtain d where d: "devices r (gt_data n) = Some d"
    using registry_okD(5) [OF ok, of a] Cons.prems(2) val by auto
  have step: "f r a = (if P d then device_collect l r (gt_data n) else kret r)"
    using n d by (simp add: cb)
  show ?case
  proof (cases "P d")
    case True
    from collect_ok [OF Cons.prems(1), of "gt_data n"] show ?thesis
    proof (elim disjE exE conjE)
      fix r1 b s
      assume r1: "device_collect l r (gt_data n) = kret r1" "collecting r1 (insert (unat b, s) L) ts l (ns @ [b])"
        "node_data (lnodes (reg_lists r1)) (ns @ [b]) = node_data (lnodes (reg_lists r)) ns @ [gt_data n]" "same_devices r r1"
      then show ?thesis
        using Cons.IH [OF r1(2)] Cons.prems(2) True d val by (fastforce simp: step same_devices_def)
    qed (simp add: step True)
  next
    case False
    then show ?thesis
      using Cons.IH [OF Cons.prems(1)] Cons.prems(2) d val by (simp add: step)
  qed
qed

lemma find_all_ok:
  assumes ok: "registry_ok r L ts"
    and cb: "\<And>l r a. f l r a = kbind (deref (tnodes (reg_trees r)) a) (\<lambda>n. kbind (deref (devices r) (gt_data n)) (\<lambda>d.
      if P d then device_collect l r (gt_data n) else kret r))"
    and run: "run = kbind (linked_list_create kmalloc (reg_lists r) (reg_heap r)) (\<lambda>(list, L, h).
      if list = 0 then out_of_memory
      else let r1 = r\<lparr>reg_heap := h, reg_lists := L\<rparr>
           in kbind (generic_tree_callback_foreach (reg_trees r1) (device_tree r1) (f list) r1) (\<lambda>r2. kret (list, r2)))"
  shows "run = out_of_memory \<or>
    (\<exists>l r' L' ns. run = kret (l, r') \<and> registry_ok r' L' ts \<and> L \<subseteq> L' \<and> same_devices r r' \<and>
      list_ok (reg_lists r') l ns \<and>
      node_data (lnodes (reg_lists r')) ns = filter (\<lambda>d. P (the (devices r d))) (registered r ts))"
  using small_alloc [OF ok]
proof (elim disjE exE conjE)
  assume "kmalloc (reg_heap r) 12 = kret (0, reg_heap r)"
  then show ?thesis
    by (simp add: run linked_list_create_def LIST_STRUCT_SIZE_def linked_list_init_def)
next
  fix p s h
  let ?S = "(reg_lists r)\<lparr>llists := (llists (reg_lists r))(p \<mapsto> \<lparr>ll_head = 0, ll_tail = 0, ll_size = 0\<rparr>)\<rparr>"
  let ?r = "r\<lparr>reg_heap := h, reg_lists := ?S\<rparr>"
  assume p: "kmalloc (reg_heap r) 12 = kret (p, h)" "p \<noteq> 0" "registry_ok (r\<lparr>reg_heap := h\<rparr>) (insert (unat p, s) L) ts"
  have ok': "registry_ok ?r (insert (unat p, s) L) ts"
    using p(3) by (simp add: registry_ok_def)
  then have "collecting ?r (insert (unat p, s) L) ts p []"
    using p(2) by (simp add: collecting_def list_ok_def)
  from visit_collect [where f = "f p" and P = P, OF cb this order_refl] have
    "visit_all (f p) ?r (addrs ts) = out_of_memory \<or>
     (\<exists>r' L' ns'. visit_all (f p) ?r (addrs ts) = kret r' \<and> collecting r' L' ts p ns' \<and> insert (unat p, s) L \<subseteq> L' \<and>
       same_devices ?r r' \<and> node_data (lnodes (reg_lists r')) ns' = filter (\<lambda>d. P (the (devices r d))) (registered r ts))"
    by (simp add: node_data_def registered_def)
  moreover have "run = kbind (visit_all (f p) ?r (addrs ts)) (\<lambda>r2. kret (p, r2))"
    using p(1,2) tree_foreach_ok [OF registry_okD(3) [OF ok'], of "f p" ?r]
    by (simp add: run linked_list_create_def LIST_STRUCT_SIZE_def linked_list_init_def)
  ultimately show ?thesis
    by (auto simp: collecting_def same_devices_def)
qed

section \<open>Properties\<close>

text \<open>A registry with a root and a device of a keyboard that is not registered yet.\<close>

definition sample_registry :: registry where
  "sample_registry = \<lparr>reg_heap = used_kheap,
     reg_trees = \<lparr>tnodes = [0xC0800014 \<mapsto> \<lparr>gt_parent = 0, gt_slide = 0, gt_child = 0, gt_data = 0x1000\<rparr>],
       trees = [0x10 \<mapsto> \<lparr>gt_root = 0xC0800014\<rparr>]\<rparr>,
     reg_lists = \<lparr>lnodes = Map.empty, llists = Map.empty\<rparr>, device_tree = 0x10,
     devices = [0x1000 \<mapsto> \<lparr>dev_id = \<lparr>bytes = []\<rparr>, dev_name = 0, dev_type = DEVICE_TYPE_RESERVED,
         dev_bus = \<lparr>bus_type = DEVICE_BUS_TYPE_RESERVED, bus_data = 0\<rparr>\<rparr>,
       0x2000 \<mapsto> \<lparr>dev_id = \<lparr>bytes = []\<rparr>, dev_name = 0, dev_type = DEVICE_TYPE_KEYBOARD,
         dev_bus = \<lparr>bus_type = DEVICE_BUS_TYPE_ISA, bus_data = 0\<rparr>\<rparr>],
     rand_state = 0, driver_ptr = Map.empty, keyboard_drivers = Map.empty, video_drivers = Map.empty, storage_drivers = Map.empty\<rparr>"

lemma sample_registry_ok: "registry_ok sample_registry {(0xC0800014, 100)} [GNode 0xC0800014 []]"
proof -
  have "heap_owns used_kheap {(0xC0800014, 100)}"
    unfolding heap_owns_def used_kheap_live [symmetric] using used_kheap_inv by blast
  then show ?thesis
    by (simp add: registry_ok_def sample_registry_def request_ok_def tree_ok_def first_root_def in_heap_def node_value_def)
qed

lemma used_kheap_space: "kmalloc used_kheap TREE_NODE_SIZE \<noteq> kret (0, used_kheap)"
proof -
  have "adr (t + 20) \<noteq> 0" if "(t, s) \<in> frees (unat (kheap_base used_kheap)) [(100, False), (0x1FFFF74, True)]" for t s
    using frees_bounds [OF that] used_kheap_inv by (auto simp: heap_inv_def)
  then show ?thesis
    using kmalloc_live [OF used_kheap_inv, of 16] by (auto simp: request_ok_def TREE_NODE_SIZE_def)
qed

text \<open>
  C18: while the heap has room for a node, registering a device puts it at the end of
  the registry and unregistering it again restores the registry and the payloads in use; the node that is
  allocated for it is none of the tree's.
\<close>
theorem device_register_unregister:
  assumes "registry_ok r L ts" and "ts \<noteq> []" and "devices r dev \<noteq> None" and "dev \<noteq> 0" and "dev \<notin> set (registered r ts)"
    and "kmalloc (reg_heap r) TREE_NODE_SIZE \<noteq> kret (0, reg_heap r)"
  shows "\<exists>r1 L1 ts1 r2. device_register r dev = kret (0, r1) \<and> registry_ok r1 L1 ts1 \<and> L \<subset> L1 \<and>
    registered r1 ts1 = registered r ts @ [dev] \<and>
    device_unregister r1 dev = kret (0, r2) \<and> registry_ok r2 L ts \<and> registered r2 ts = registered r ts"
proof -
  obtain r1 b s a cs where r1: "device_register r dev = kret (0, r1)" "ts = [GNode a cs]" "(unat b, s) \<notin> L"
    "registry_ok r1 (insert (unat b, s) L) [GNode a (cs @ [GNode b []])]"
    "registered r1 [GNode a (cs @ [GNode b []])] = registered r ts @ [dev]"
    using register_ok [OF assms(1-3,6)] by blast
  let ?val = "node_value (tnodes (reg_trees r1))"
  have vals: "map ?val (addrs ts) = registered r ts" "?val b = dev"
    using r1(5) by (simp_all add: r1(2) registered_def)
  have "filter (\<lambda>x. ?val x = dev) (addrs ts) = []"
    using assms(5) unfolding vals(1) [symmetric] by (auto simp: filter_empty_conv)
  then have "first_match (\<lambda>x. ?val x = dev) (addrs ts @ [b]) = b"
    using vals(2) by (simp add: first_match_def)
  moreover have "addrs [GNode a (cs @ [GNode b []])] = addrs ts @ [b]"
    by (simp add: r1(2))
  ultimately obtain r2 where r2: "device_unregister r1 dev = kret (0, r2)"
    "registry_ok r2 (insert (unat b, s) L - {(unat b, s)}) ts" "node_value (tnodes (reg_trees r2)) = ?val"
    using unregister_ok [OF r1(4), of a cs b "[]" "[]" dev s] assms(4) by (auto simp: r1(2))
  have "registered r2 ts = registered r ts"
    using vals(1) r2(3) by (simp add: registered_def)
  moreover have "L \<subset> insert (unat b, s) L"
    using r1(3) by blast
  moreover have "registry_ok r2 L ts"
    using r2(2) r1(3) by simp
  ultimately show ?thesis
    using r1(1,4,5) r2(1) by blast
qed

theorem device_register_unregister_witness:
  "\<exists>r1 r2. device_register sample_registry 0x2000 = kret (0, r1) \<and> device_unregister r1 0x2000 = kret (0, r2) \<and>
     registered r2 [GNode 0xC0800014 []] = [0x1000]"
  using device_register_unregister [OF sample_registry_ok, of "0x2000"] used_kheap_space
  by (auto simp: sample_registry_def registered_def node_value_def)

text \<open>
  \<^verbatim>\<open>device_find_by_type\<close> returns the first registered device of the type, or \<^verbatim>\<open>NULL\<close>; the two
  searches for all devices panic for lack of memory or return a new list with the registered devices of the
  type or of the bus in their order, and leave the registry as it was.
\<close>
theorem device_searches:
  assumes "registry_ok r L ts" and "type_ptr \<noteq> 0"
  shows "device_find_by_type r type_ptr type =
      kret (case filter (with_type r type) (registered r ts) of [] \<Rightarrow> 0 | d # _ \<Rightarrow> d) \<and>
    (device_find_all_by_type r type = out_of_memory \<or>
     (\<exists>l r' L' ns. device_find_all_by_type r type = kret (l, r') \<and> registry_ok r' L' ts \<and> L \<subseteq> L' \<and> same_devices r r' \<and>
        list_ok (reg_lists r') l ns \<and> node_data (lnodes (reg_lists r')) ns = filter (with_type r type) (registered r ts))) \<and>
    (device_find_all_by_bustype r btype = out_of_memory \<or>
     (\<exists>l r' L' ns. device_find_all_by_bustype r btype = kret (l, r') \<and> registry_ok r' L' ts \<and> L \<subseteq> L' \<and> same_devices r r' \<and>
        list_ok (reg_lists r') l ns \<and> node_data (lnodes (reg_lists r')) ns = filter (with_bus r btype) (registered r ts)))"
proof (intro conjI)
  show "device_find_by_type r type_ptr type =
      kret (case filter (with_type r type) (registered r ts) of [] \<Rightarrow> 0 | d # _ \<Rightarrow> d)"
    by (rule find_by_type_ok [OF assms])
  show "device_find_all_by_type r type = out_of_memory \<or>
     (\<exists>l r' L' ns. device_find_all_by_type r type = kret (l, r') \<and> registry_ok r' L' ts \<and> L \<subseteq> L' \<and> same_devices r r' \<and>
        list_ok (reg_lists r') l ns \<and> node_data (lnodes (reg_lists r')) ns = filter (with_type r type) (registered r ts))"
    unfolding with_type_def device_find_all_by_type_def Let_def
    by (rule find_all_ok [OF assms(1), where P = "\<lambda>d. dev_type d = type"
          and f = "\<lambda>l. device_find_all_by_type_callback \<lparr>payload_devices = l, payload_type = ucast type\<rparr>"])
      (simp_all add: device_find_all_by_type_callback_def Let_def cong: if_cong)
  show "device_find_all_by_bustype r btype = out_of_memory \<or>
     (\<exists>l r' L' ns. device_find_all_by_bustype r btype = kret (l, r') \<and> registry_ok r' L' ts \<and> L \<subseteq> L' \<and> same_devices r r' \<and>
        list_ok (reg_lists r') l ns \<and> node_data (lnodes (reg_lists r')) ns = filter (with_bus r btype) (registered r ts))"
    unfolding with_bus_def device_find_all_by_bustype_def Let_def
    by (rule find_all_ok [OF assms(1), where P = "\<lambda>d. bus_type (dev_bus d) = btype"
          and f = "\<lambda>l. device_find_all_by_bustype_callback \<lparr>payload_devices = l, payload_type = ucast btype\<rparr>"])
      (simp_all add: device_find_all_by_bustype_callback_def Let_def cong: if_cong)
qed

theorem device_searches_witness:
  "device_find_by_type sample_registry 0x3000 DEVICE_TYPE_RESERVED = kret 0x1000 \<and>
   device_find_by_type sample_registry 0x3000 DEVICE_TYPE_VIDEO = kret 0"
proof -
  have "registered sample_registry [GNode 0xC0800014 []] = [0x1000]"
    by (simp add: registered_def sample_registry_def node_value_def)
  then show ?thesis
    using device_searches [OF sample_registry_ok, of "0x3000" DEVICE_TYPE_RESERVED]
      device_searches [OF sample_registry_ok, of "0x3000" DEVICE_TYPE_VIDEO]
    by (simp add: with_type_def sample_registry_def DEVICE_TYPE_RESERVED_def DEVICE_TYPE_VIDEO_def)
qed

end
