(* ===== verification/Descriptors.thy ===== *)
theory Descriptors
  imports Message
begin

text \<open>
  \<^verbatim>\<open>kernel/src/arch/i386/gdt.c\<close>, \<^verbatim>\<open>tss.c\<close> and \<^verbatim>\<open>idt.c\<close>: the tables the processor reads.

  A bit-field of \<open>n\<close> bits is an \<open>n\<close>-bit word, so an assignment keeps the low \<open>n\<close> bits of its value.  The
  three flush routines are assembly of a few instructions each; their effect on the processor's registers is
  written out here.  The addresses of the static tables and of the interrupt entry points are up to the
  linker and are arguments.
\<close>

section \<open>Segment descriptors\<close>

record gdt_segment_descriptor =
  limit_low :: u16
  base_low :: u16
  base_middle :: u8
  accessed :: "1 word"
  read_write :: "1 word"
  direction_conforming :: "1 word"
  executable :: "1 word"
  descriptor_type :: "1 word"
  privilege_level :: "2 word"
  present :: "1 word"
  limit_high :: "4 word"
  reserved :: "1 word"
  long_mode :: "1 word"
  seg_size :: "1 word"
  granularity :: "1 word"
  base_high :: u8

record gdt_table =
  gdt_limit :: u16
  gdt_base :: u32

datatype gdt_selector = GDT_NULL_SELEKTOR | GDT_KERNEL_CODE_SELEKTOR | GDT_KERNEL_DATA_SELEKTOR
  | GDT_USER_CODE_SELEKTOR | GDT_USER_DATA_SELEKTOR | GDT_TASK_STATE_SELEKTOR

definition gdt_selector_index :: "gdt_selector \<Rightarrow> nat" where
  "gdt_selector_index s = (case s of GDT_NULL_SELEKTOR \<Rightarrow> 0 | GDT_KERNEL_CODE_SELEKTOR \<Rightarrow> 1
     | GDT_KERNEL_DATA_SELEKTOR \<Rightarrow> 2 | GDT_USER_CODE_SELEKTOR \<Rightarrow> 3 | GDT_USER_DATA_SELEKTOR \<Rightarrow> 4
     | GDT_TASK_STATE_SELEKTOR \<Rightarrow> 5)"

definition GDT_SIZE :: nat where
  "GDT_SIZE = 6"

definition GDT_FLAGS_GRANULARITY_MASK :: u8 where "GDT_FLAGS_GRANULARITY_MASK = 0b10000000"
definition GDT_FLAGS_SIZE_MASK :: u8 where "GDT_FLAGS_SIZE_MASK = 0b01000000"
definition GDT_FLAGS_LONG_MODE_MASK :: u8 where "GDT_FLAGS_LONG_MODE_MASK = 0b00100000"

definition GDT_ACCESS_PRESENT_MASK :: u8 where "GDT_ACCESS_PRESENT_MASK = 0b10000000"
definition GDT_ACCESS_PRIVILEGE_LEVEL_MASK :: u8 where "GDT_ACCESS_PRIVILEGE_LEVEL_MASK = 0b01100000"
definition GDT_ACCESS_DESCRIPTOR_TYPE_MASK :: u8 where "GDT_ACCESS_DESCRIPTOR_TYPE_MASK = 0b00010000"
definition GDT_ACCESS_EXECUTABLE_MASK :: u8 where "GDT_ACCESS_EXECUTABLE_MASK = 0b00001000"
definition GDT_ACCESS_DIRECTION_CONFORMING_MASK :: u8 where "GDT_ACCESS_DIRECTION_CONFORMING_MASK = 0b00000100"
definition GDT_ACCESS_READWRITE_MASK :: u8 where "GDT_ACCESS_READWRITE_MASK = 0b00000010"
definition GDT_ACCESS_ACCESSED_MASK :: u8 where "GDT_ACCESS_ACCESSED_MASK = 0b00000001"

definition GDT_FLAGS_GRANULARITY_4KB :: u8 where "GDT_FLAGS_GRANULARITY_4KB = 0b10000000"
definition GDT_FLAGS_BIT_32_SEGMENT :: u8 where "GDT_FLAGS_BIT_32_SEGMENT = 0b01000000"

definition GDT_ACCESS_PRESENT :: u8 where "GDT_ACCESS_PRESENT = 0b10000000"
definition GDT_ACCESS_RING0 :: u8 where "GDT_ACCESS_RING0 = 0b00000000"
definition GDT_ACCESS_RING3 :: u8 where "GDT_ACCESS_RING3 = 0b01100000"
definition GDT_ACCESS_STANDARD_SEGMENT :: u8 where "GDT_ACCESS_STANDARD_SEGMENT = 0b00010000"
definition GDT_ACCESS_EXECUTABLE :: u8 where "GDT_ACCESS_EXECUTABLE = 0b00001000"
definition GDT_ACCESS_DIRECTION_UP :: u8 where "GDT_ACCESS_DIRECTION_UP = 0b00000000"
definition GDT_ACCESS_READWRITE :: u8 where "GDT_ACCESS_READWRITE = 0b00000010"
definition GDT_ACCESS_ACCESSED :: u8 where "GDT_ACCESS_ACCESSED = 0b00000001"

lemmas gdt_masks = GDT_FLAGS_GRANULARITY_MASK_def GDT_FLAGS_SIZE_MASK_def GDT_FLAGS_LONG_MODE_MASK_def
  GDT_ACCESS_PRESENT_MASK_def GDT_ACCESS_PRIVILEGE_LEVEL_MASK_def GDT_ACCESS_DESCRIPTOR_TYPE_MASK_def
  GDT_ACCESS_EXECUTABLE_MASK_def GDT_ACCESS_DIRECTION_CONFORMING_MASK_def GDT_ACCESS_READWRITE_MASK_def
  GDT_ACCESS_ACCESSED_MASK_def

lemmas gdt_flags = GDT_FLAGS_GRANULARITY_4KB_def GDT_FLAGS_BIT_32_SEGMENT_def GDT_ACCESS_PRESENT_def
  GDT_ACCESS_RING0_def GDT_ACCESS_RING3_def GDT_ACCESS_STANDARD_SEGMENT_def GDT_ACCESS_EXECUTABLE_def
  GDT_ACCESS_DIRECTION_UP_def GDT_ACCESS_READWRITE_def GDT_ACCESS_ACCESSED_def

text \<open>The task state segment, with every field of the structure.\<close>

record tss_segment_descriptor =
  tss_link :: u16
  tss_reserved0 :: u16
  tss_esp0 :: u32
  tss_ss0 :: u16
  tss_reserved1 :: u16
  tss_esp1 :: u32
  tss_ss1 :: u16
  tss_reserved2 :: u16
  tss_esp2 :: u32
  tss_ss2 :: u16
  tss_reserved3 :: u16
  tss_cr3 :: u32
  tss_eip :: u32
  tss_eflags :: u32
  tss_eax :: u32
  tss_ecx :: u32
  tss_edx :: u32
  tss_ebx :: u32
  tss_esp :: u32
  tss_ebp :: u32
  tss_esi :: u32
  tss_edi :: u32
  tss_es :: u16
  tss_reserved4 :: u16
  tss_cs :: u16
  tss_reserved5 :: u16
  tss_ss :: u16
  tss_reserved6 :: u16
  tss_ds :: u16
  tss_reserved7 :: u16
  tss_fs :: u16
  tss_reserved8 :: u16
  tss_gs :: u16
  tss_reserved9 :: u16
  tss_ldt :: u16
  tss_reserved10 :: u16
  tss_reserved11 :: u16
  tss_iopb :: u16
  tss_ssp :: u32

definition TSS_STRUCT_SIZE :: u32 where
  "TSS_STRUCT_SIZE = 108"

section \<open>Gates\<close>

record idt_gate_descriptor =
  offset_low :: u16
  selector :: u16
  unused :: u8
  gate_type :: "4 word"
  gate_reserved :: "1 word"
  gate_privilege_level :: "2 word"
  gate_present :: "1 word"
  offset_high :: u16

record idt_table =
  idt_limit :: u16
  idt_base :: u32

definition IDT_SIZE :: nat where "IDT_SIZE = 256"
definition IDT_GATE_TYPE_MASK :: u8 where "IDT_GATE_TYPE_MASK = 0b00001111"
definition IDT_PRIVILEGE_LEVEL_MASK :: u8 where "IDT_PRIVILEGE_LEVEL_MASK = 0b01100000"
definition IDT_PRESENT_MASK :: u8 where "IDT_PRESENT_MASK = 0b10000000"
definition LOW_16 :: "u32 \<Rightarrow> u16" where "LOW_16 address = ucast (address AND 0xFFFF)"
definition HIGH_16 :: "u32 \<Rightarrow> u16" where "HIGH_16 address = ucast (drop_bit 16 address AND 0xFFFF)"

text \<open>The interrupts by name, with their numbers.\<close>

datatype isr_interrupt_t =
    DIVISION_BY_ZERO_EXCEPTION | DEBUG_EXCEPTION | NON_MASKABLE_INTERRUPT_EXCEPTION | BREAKPOINT_EXCEPTION
  | OVERFLOW_EXCEPTION | BOUND_RANGE_EXCEEDED_EXCEPTION | INVALID_OPCODE_EXCEPTION
  | DEVICE_NOT_AVAILABLE_EXCEPTION | DOUBLE_FAULT_EXCEPTION | COPROCESSOR_SEGMENT_OVERRUN_EXCEPTION
  | INVALID_TSS_EXCEPTION | SEGMENT_NOT_PRESENT_EXCEPTION | STACK_SEGMENT_FAULT_EXCEPTION
  | GENERAL_PROTECTION_EXCEPTION | PAGE_FAULT_EXCEPTION | RESERVED_EXCEPTION | FLOATING_POINT_EXCEPTION
  | ALIGNMENT_CHECK_EXCEPTION | MACHINE_CHECK_EXCEPTION | SIMD_FLOATING_POINT_EXCEPTION
  | PROGRAMMABLE_INTERRUPT_TIMER_INTERRUPT | KEYBOARD_INTERRUPT | CASCADE_INTERRUPT | COM2_INTERRUPT
  | COM1_INTERRUPT | LPT2_INTERRUPT | FLOPPY_DISK_INTERRUPT | LPT1_INTERRUPT | CMOS_REAL_TIME_CLOCK_INTERRUPT
  | PERIPHERAL1_INTERRUPT | PERIPHERAL2_INTERRUPT | PERIPHERAL3_INTERRUPT | PS2_INTERRUPT
  | COPROCESSOR_INTERRUPT | PRIMARY_ATA_HARD_DISK_INTERRUPT | SECONDARY_ATA_HARD_DISK_INTERRUPT
  | SYSCALL_INTERRUPT

definition isr_exceptions :: "isr_interrupt_t list" where
  "isr_exceptions = [DIVISION_BY_ZERO_EXCEPTION, DEBUG_EXCEPTION, NON_MASKABLE_INTERRUPT_EXCEPTION,
     BREAKPOINT_EXCEPTION, OVERFLOW_EXCEPTION, BOUND_RANGE_EXCEEDED_EXCEPTION, INVALID_OPCODE_EXCEPTION,
     DEVICE_NOT_AVAILABLE_EXCEPTION, DOUBLE_FAULT_EXCEPTION, COPROCESSOR_SEGMENT_OVERRUN_EXCEPTION,
     INVALID_TSS_EXCEPTION, SEGMENT_NOT_PRESENT_EXCEPTION, STACK_SEGMENT_FAULT_EXCEPTION,
     GENERAL_PROTECTION_EXCEPTION, PAGE_FAULT_EXCEPTION, RESERVED_EXCEPTION, FLOATING_POINT_EXCEPTION,
     ALIGNMENT_CHECK_EXCEPTION, MACHINE_CHECK_EXCEPTION, SIMD_FLOATING_POINT_EXCEPTION]"

definition isr_requests :: "isr_interrupt_t list" where
  "isr_requests = [PROGRAMMABLE_INTERRUPT_TIMER_INTERRUPT, KEYBOARD_INTERRUPT, CASCADE_INTERRUPT, COM2_INTERRUPT,
     COM1_INTERRUPT, LPT2_INTERRUPT, FLOPPY_DISK_INTERRUPT, LPT1_INTERRUPT, CMOS_REAL_TIME_CLOCK_INTERRUPT,
     PERIPHERAL1_INTERRUPT, PERIPHERAL2_INTERRUPT, PERIPHERAL3_INTERRUPT, PS2_INTERRUPT,
     COPROCESSOR_INTERRUPT, PRIMARY_ATA_HARD_DISK_INTERRUPT, SECONDARY_ATA_HARD_DISK_INTERRUPT]"

primrec isr_code :: "isr_interrupt_t \<Rightarrow> nat" where
  "isr_code DIVISION_BY_ZERO_EXCEPTION = 0"
| "isr_code DEBUG_EXCEPTION = 1"
| "isr_code NON_MASKABLE_INTERRUPT_EXCEPTION = 2"
| "isr_code BREAKPOINT_EXCEPTION = 3"
| "isr_code OVERFLOW_EXCEPTION = 4"
| "isr_code BOUND_RANGE_EXCEEDED_EXCEPTION = 5"
| "isr_code INVALID_OPCODE_EXCEPTION = 6"
| "isr_code DEVICE_NOT_AVAILABLE_EXCEPTION = 7"
| "isr_code DOUBLE_FAULT_EXCEPTION = 8"
| "isr_code COPROCESSOR_SEGMENT_OVERRUN_EXCEPTION = 9"
| "isr_code INVALID_TSS_EXCEPTION = 10"
| "isr_code SEGMENT_NOT_PRESENT_EXCEPTION = 11"
| "isr_code STACK_SEGMENT_FAULT_EXCEPTION = 12"
| "isr_code GENERAL_PROTECTION_EXCEPTION = 13"
| "isr_code PAGE_FAULT_EXCEPTION = 14"
| "isr_code RESERVED_EXCEPTION = 15"
| "isr_code FLOATING_POINT_EXCEPTION = 16"
| "isr_code ALIGNMENT_CHECK_EXCEPTION = 17"
| "isr_code MACHINE_CHECK_EXCEPTION = 18"
| "isr_code SIMD_FLOATING_POINT_EXCEPTION = 19"
| "isr_code PROGRAMMABLE_INTERRUPT_TIMER_INTERRUPT = 32"
| "isr_code KEYBOARD_INTERRUPT = 33"
| "isr_code CASCADE_INTERRUPT = 34"
| "isr_code COM2_INTERRUPT = 35"
| "isr_code COM1_INTERRUPT = 36"
| "isr_code LPT2_INTERRUPT = 37"
| "isr_code FLOPPY_DISK_INTERRUPT = 38"
| "isr_code LPT1_INTERRUPT = 39"
| "isr_code CMOS_REAL_TIME_CLOCK_INTERRUPT = 40"
| "isr_code PERIPHERAL1_INTERRUPT = 41"
| "isr_code PERIPHERAL2_INTERRUPT = 42"
| "isr_code PERIPHERAL3_INTERRUPT = 43"
| "isr_code PS2_INTERRUPT = 44"
| "isr_code COPROCESSOR_INTERRUPT = 45"
| "isr_code PRIMARY_ATA_HARD_DISK_INTERRUPT = 46"
| "isr_code SECONDARY_ATA_HARD_DISK_INTERRUPT = 47"
| "isr_code SYSCALL_INTERRUPT = 0x80"


section \<open>The processor's registers\<close>

text \<open>
  \<open>gdtr\<close> and \<open>idtr\<close> hold limit and base of the loaded tables, \<open>seg_cs\<close> and \<open>seg_data\<close> the selectors in the code
  and the five data segment registers, \<open>tr\<close> the task register.
\<close>

record segments =
  gdt_descriptors :: "gdt_segment_descriptor list"
  gdt :: gdt_table
  tss :: tss_segment_descriptor
  idt_descriptors :: "idt_gate_descriptor list"
  idt :: idt_table
  gdtr :: gdt_table
  idtr :: idt_table
  seg_cs :: u16
  seg_data :: u16
  tr :: u16

text \<open>Assembly: \<^verbatim>\<open>gdt_flush.asm\<close>, \<^verbatim>\<open>idt_flush.asm\<close> and \<^verbatim>\<open>tss_flush.asm\<close>.\<close>

definition gdt_flush :: "segments \<Rightarrow> segments" where
  "gdt_flush s = s\<lparr>gdtr := gdt s, seg_cs := 0x08, seg_data := 0x10\<rparr>"

definition idt_flush :: "segments \<Rightarrow> segments" where
  "idt_flush s = s\<lparr>idtr := idt s\<rparr>"

definition tss_flush :: "segments \<Rightarrow> segments" where
  "tss_flush s = s\<lparr>tr := 0x2B\<rparr>"


section \<open>Global descriptor table\<close>

definition gdt_set_fields :: "u32 \<Rightarrow> u32 \<Rightarrow> u8 \<Rightarrow> u8 \<Rightarrow> gdt_segment_descriptor \<Rightarrow> gdt_segment_descriptor" where
  "gdt_set_fields base limit access flags e =
     e\<lparr>base_low := ucast (base AND 0xFFFF),
       base_middle := ucast (drop_bit 16 base AND 0xFF),
       base_high := ucast (drop_bit 24 base AND 0xFF),
       limit_low := ucast (limit AND 0xFFFF),
       limit_high := ucast (drop_bit 16 limit AND 0x0F),
       accessed := ucast (drop_bit 0 (access AND GDT_ACCESS_ACCESSED_MASK)),
       read_write := ucast (drop_bit 1 (access AND GDT_ACCESS_READWRITE_MASK)),
       direction_conforming := ucast (drop_bit 2 (access AND GDT_ACCESS_DIRECTION_CONFORMING_MASK)),
       executable := ucast (drop_bit 3 (access AND GDT_ACCESS_EXECUTABLE_MASK)),
       descriptor_type := ucast (drop_bit 4 (access AND GDT_ACCESS_DESCRIPTOR_TYPE_MASK)),
       privilege_level := ucast (drop_bit 5 (access AND GDT_ACCESS_PRIVILEGE_LEVEL_MASK)),
       present := ucast (drop_bit 7 (access AND GDT_ACCESS_PRESENT_MASK)),
       reserved := 0,
       long_mode := ucast (drop_bit 5 (flags AND GDT_FLAGS_LONG_MODE_MASK)),
       seg_size := ucast (drop_bit 6 (flags AND GDT_FLAGS_SIZE_MASK)),
       granularity := ucast (drop_bit 7 (flags AND GDT_FLAGS_GRANULARITY_MASK))\<rparr>"

definition gdt_init_descriptor :: "gdt_selector \<Rightarrow> u32 \<Rightarrow> u32 \<Rightarrow> u8 \<Rightarrow> u8 \<Rightarrow> segments \<Rightarrow> segments" where
  "gdt_init_descriptor sel base limit access flags s =
     (let i = gdt_selector_index sel
      in s\<lparr>gdt_descriptors := (gdt_descriptors s)[i := gdt_set_fields base limit access flags (gdt_descriptors s ! i)]\<rparr>)"

definition gdt_zero :: gdt_segment_descriptor where
  "gdt_zero = \<lparr>limit_low = 0, base_low = 0, base_middle = 0, accessed = 0, read_write = 0, direction_conforming = 0,
     executable = 0, descriptor_type = 0, privilege_level = 0, present = 0, limit_high = 0, reserved = 0,
     long_mode = 0, seg_size = 0, granularity = 0, base_high = 0\<rparr>"

definition gdt_init :: "u32 \<Rightarrow> segments \<Rightarrow> klog \<Rightarrow> (segments \<times> klog) kres" where
  "gdt_init descriptors_addr s k =
     (let s0 = s\<lparr>gdt_descriptors := replicate GDT_SIZE gdt_zero\<rparr>;
          s1 = gdt_init_descriptor GDT_NULL_SELEKTOR 0 0 0 0 s0;
          s2 = gdt_init_descriptor GDT_KERNEL_CODE_SELEKTOR 0x00000000 0x000FFFFF
            (GDT_ACCESS_PRESENT OR GDT_ACCESS_RING0 OR GDT_ACCESS_STANDARD_SEGMENT OR GDT_ACCESS_EXECUTABLE OR GDT_ACCESS_READWRITE)
            (GDT_FLAGS_GRANULARITY_4KB OR GDT_FLAGS_BIT_32_SEGMENT) s1;
          s3 = gdt_init_descriptor GDT_KERNEL_DATA_SELEKTOR 0x00000000 0x000FFFFF
            (GDT_ACCESS_PRESENT OR GDT_ACCESS_RING0 OR GDT_ACCESS_STANDARD_SEGMENT OR GDT_ACCESS_DIRECTION_UP OR GDT_ACCESS_READWRITE)
            (GDT_FLAGS_GRANULARITY_4KB OR GDT_FLAGS_BIT_32_SEGMENT) s2;
          s4 = gdt_init_descriptor GDT_USER_CODE_SELEKTOR 0x00000000 0x000FFFFF
            (GDT_ACCESS_PRESENT OR GDT_ACCESS_RING3 OR GDT_ACCESS_STANDARD_SEGMENT OR GDT_ACCESS_EXECUTABLE OR GDT_ACCESS_READWRITE)
            (GDT_FLAGS_GRANULARITY_4KB OR GDT_FLAGS_BIT_32_SEGMENT) s3;
          s5 = gdt_init_descriptor GDT_USER_DATA_SELEKTOR 0x00000000 0x000FFFFF
            (GDT_ACCESS_PRESENT OR GDT_ACCESS_RING3 OR GDT_ACCESS_STANDARD_SEGMENT OR GDT_ACCESS_DIRECTION_UP OR GDT_ACCESS_READWRITE)
            (GDT_FLAGS_GRANULARITY_4KB OR GDT_FLAGS_BIT_32_SEGMENT) s4;
          s6 = gdt_flush (s5\<lparr>gdt := \<lparr>gdt_limit = of_nat (8 * GDT_SIZE) - 1, gdt_base = descriptors_addr\<rparr>\<rparr>)
      in kbind (klog_literal k KMESSAGE_LEVEL_INFO ''cpu: GDT initialized'') (\<lambda>k1. kret (s6, k1)))"

definition gdt_get_selector_value :: "gdt_selector \<Rightarrow> u32 \<Rightarrow> u32" where
  "gdt_get_selector_value sel r = (let ti = 0 in push_bit 3 (of_nat (gdt_selector_index sel)) + push_bit 2 ti + r)"


section \<open>Task state segment\<close>

definition tss_zero :: tss_segment_descriptor where
  "tss_zero = \<lparr>tss_link = 0, tss_reserved0 = 0, tss_esp0 = 0, tss_ss0 = 0, tss_reserved1 = 0, tss_esp1 = 0, tss_ss1 = 0, tss_reserved2 = 0,
     tss_esp2 = 0, tss_ss2 = 0, tss_reserved3 = 0, tss_cr3 = 0, tss_eip = 0, tss_eflags = 0, tss_eax = 0, tss_ecx = 0, tss_edx = 0, tss_ebx = 0, tss_esp = 0,
     tss_ebp = 0, tss_esi = 0, tss_edi = 0, tss_es = 0, tss_reserved4 = 0, tss_cs = 0, tss_reserved5 = 0, tss_ss = 0, tss_reserved6 = 0, tss_ds = 0,
     tss_reserved7 = 0, tss_fs = 0, tss_reserved8 = 0, tss_gs = 0, tss_reserved9 = 0, tss_ldt = 0, tss_reserved10 = 0, tss_reserved11 = 0,
     tss_iopb = 0, tss_ssp = 0\<rparr>"

definition tss_init :: "u32 \<Rightarrow> u16 \<Rightarrow> u32 \<Rightarrow> segments \<Rightarrow> klog \<Rightarrow> (segments \<times> klog) kres" where
  "tss_init tss_addr ss0_val esp0_val s k =
     (let s1 = gdt_init_descriptor GDT_TASK_STATE_SELEKTOR tss_addr TSS_STRUCT_SIZE
            (GDT_ACCESS_PRESENT OR GDT_ACCESS_RING3 OR GDT_ACCESS_EXECUTABLE OR GDT_ACCESS_ACCESSED) 0x00 s;
          kernel_code = ucast (gdt_get_selector_value GDT_KERNEL_CODE_SELEKTOR 3);
          kernel_data = ucast (gdt_get_selector_value GDT_KERNEL_DATA_SELEKTOR 3);
          s2 = s1\<lparr>tss := tss_zero\<lparr>tss_ss0 := ss0_val, tss_esp0 := esp0_val, tss_cs := kernel_code, tss_ss := kernel_data,
            tss_ds := kernel_data, tss_es := kernel_data, tss_fs := kernel_data, tss_gs := kernel_data\<rparr>\<rparr>;
          s3 = tss_flush s2
      in kbind (klog_literal k KMESSAGE_LEVEL_INFO ''cpu: TSS initialized'') (\<lambda>k1. kret (s3, k1)))"

definition tss_update_ring0_stack :: "u16 \<Rightarrow> u32 \<Rightarrow> segments \<Rightarrow> segments" where
  "tss_update_ring0_stack ss0_val esp0_val s = s\<lparr>tss := (tss s)\<lparr>tss_ss0 := ss0_val, tss_esp0 := esp0_val\<rparr>\<rparr>"


section \<open>Interrupt descriptor table\<close>

definition idt_set_fields :: "u32 \<Rightarrow> u16 \<Rightarrow> u8 \<Rightarrow> idt_gate_descriptor \<Rightarrow> idt_gate_descriptor" where
  "idt_set_fields offset sel flags e =
     e\<lparr>offset_low := LOW_16 offset, offset_high := HIGH_16 offset, selector := sel,
       gate_type := ucast (flags AND IDT_GATE_TYPE_MASK),
       gate_privilege_level := ucast (drop_bit 5 (flags AND IDT_PRIVILEGE_LEVEL_MASK)),
       gate_present := ucast (drop_bit 7 (flags AND IDT_PRESENT_MASK)),
       unused := 0\<rparr>"

definition idt_init_descriptor :: "nat \<Rightarrow> u32 \<Rightarrow> u16 \<Rightarrow> u8 \<Rightarrow> segments \<Rightarrow> segments" where
  "idt_init_descriptor index offset sel flags s =
     s\<lparr>idt_descriptors := (idt_descriptors s)[index := idt_set_fields offset sel flags (idt_descriptors s ! index)]\<rparr>"

definition idt_zero :: idt_gate_descriptor where
  "idt_zero = \<lparr>offset_low = 0, selector = 0, unused = 0, gate_type = 0, gate_reserved = 0, gate_privilege_level = 0,
     gate_present = 0, offset_high = 0\<rparr>"

text \<open>
  The calls of \<^verbatim>\<open>idt_init_descriptor\<close> in their order: the named exceptions, the unnamed ones from 20 to 31, the
  hardware interrupts and the system call; \<open>exc i\<close> and \<open>irq i\<close> are the addresses of the entry points.
\<close>

definition idt_gates :: "(nat \<Rightarrow> u32) \<Rightarrow> (nat \<Rightarrow> u32) \<Rightarrow> u32 \<Rightarrow> (nat \<times> u32 \<times> u16 \<times> u8) list" where
  "idt_gates exc irq syscall =
     map (\<lambda>(e, i). (isr_code e, exc i, 0x08, 0x8E)) (zip isr_exceptions [0..<20]) @
     map (\<lambda>i. (i, exc i, 0x08, 0x8E)) [20..<32] @
     map (\<lambda>(e, i). (isr_code e, irq i, 0x08, 0x8E)) (zip isr_requests [32..<48]) @
     [(isr_code SYSCALL_INTERRUPT, syscall, 0x08, 0xEE)]"

definition idt_init :: "u32 \<Rightarrow> (nat \<Rightarrow> u32) \<Rightarrow> (nat \<Rightarrow> u32) \<Rightarrow> u32 \<Rightarrow> segments \<Rightarrow> klog \<Rightarrow> (segments \<times> klog) kres" where
  "idt_init descriptors_addr exc irq syscall s k =
     (let s0 = s\<lparr>idt_descriptors := replicate IDT_SIZE idt_zero\<rparr>;
          s1 = fold (\<lambda>(i, offset, sel, flags). idt_init_descriptor i offset sel flags) (idt_gates exc irq syscall) s0;
          s2 = idt_flush (s1\<lparr>idt := \<lparr>idt_limit = of_nat (8 * IDT_SIZE) - 1, idt_base = descriptors_addr\<rparr>\<rparr>)
      in kbind (klog_literal k KMESSAGE_LEVEL_INFO ''cpu: IDT initialized'') (\<lambda>k1. kret (s2, k1)))"

end
