(* ===== verification/Descriptors_Correct.thy ===== *)
theory Descriptors_Correct
  imports Descriptors
begin

text \<open>The tables as the processor reads them.\<close>

section \<open>The layout of a segment descriptor\<close>

text \<open>
  The packed structure as the eight bytes it occupies, the first bit-field of a byte in its lowest bits, and what
  the processor takes out of them.
\<close>

definition access_byte :: "gdt_segment_descriptor \<Rightarrow> u8" where
  "access_byte e =
     ucast (accessed e) OR push_bit 1 (ucast (read_write e)) OR push_bit 2 (ucast (direction_conforming e)) OR
     push_bit 3 (ucast (executable e)) OR push_bit 4 (ucast (descriptor_type e)) OR
     push_bit 5 (ucast (privilege_level e)) OR push_bit 7 (ucast (present e))"

definition flags_byte :: "gdt_segment_descriptor \<Rightarrow> u8" where
  "flags_byte e =
     ucast (limit_high e) OR push_bit 4 (ucast (reserved e)) OR push_bit 5 (ucast (long_mode e)) OR
     push_bit 6 (ucast (seg_size e)) OR push_bit 7 (ucast (granularity e))"

definition gdt_bytes :: "gdt_segment_descriptor \<Rightarrow> u8 list" where
  "gdt_bytes e =
     [ucast (limit_low e), ucast (drop_bit 8 (limit_low e)), ucast (base_low e), ucast (drop_bit 8 (base_low e)),
      base_middle e, access_byte e, flags_byte e, base_high e]"

definition seg_base :: "u8 list \<Rightarrow> u32" where
  "seg_base bs = ucast (bs ! 2) OR push_bit 8 (ucast (bs ! 3)) OR push_bit 16 (ucast (bs ! 4)) OR push_bit 24 (ucast (bs ! 7))"

definition seg_limit :: "u8 list \<Rightarrow> u32" where
  "seg_limit bs = ucast (bs ! 0) OR push_bit 8 (ucast (bs ! 1)) OR push_bit 16 (ucast (bs ! 6 AND 0x0F))"

definition seg_access :: "u8 list \<Rightarrow> u8" where
  "seg_access bs = bs ! 5"

definition seg_flags :: "u8 list \<Rightarrow> u8" where
  "seg_flags bs = bs ! 6 AND 0xF0"

lemma low_masks: "(0xFFFF :: u32) = mask 16" "(0xFF :: u32) = mask 8" "(0x0F :: u32) = mask 4" "(0xFFFFF :: u32) = mask 20"
  "(0x0F :: u8) = mask 4" "(0xF0 :: u8) = push_bit 4 (mask 4)" "(0xE0 :: u8) = push_bit 5 (mask 3)"
  by (simp_all add: mask_eq_exp_minus_1)

lemma bit_times_2: "bit (a * 2 :: u8) n \<longleftrightarrow> 0 < n \<and> n < 8 \<and> bit a (n - 1)"
  using bit_double_iff [of a n] by (auto simp: mult.commute)

lemma bits8I: "\<forall>n \<in> {0, 1, 2, 3, 4, 5, 6, 7}. bit (a :: u8) n = bit b n \<Longrightarrow> a = b"
proof (rule bit_word_eqI)
  fix n
  assume all: "\<forall>n \<in> {0, 1, 2, 3, 4, 5, 6, 7}. bit a n = bit b n" and "n < LENGTH(8)"
  from this(2) have "n \<in> {0, 1, 2, 3, 4, 5, 6, 7}"
    by (simp; arith)
  with all show "bit a n = bit b n"
    by blast
qed

lemma gdt_access_read: "seg_access (gdt_bytes (gdt_set_fields base limit access flags e)) = access"
  by (rule bits8I)
    (simp add: seg_access_def gdt_bytes_def access_byte_def gdt_set_fields_def gdt_masks bit_simps bit_times_2,
      simp add: numeral_2_eq_2)

lemma gdt_flags_read: "seg_flags (gdt_bytes (gdt_set_fields base limit access flags e)) = flags AND 0xE0"
  by (rule bits8I)
    (simp add: seg_flags_def gdt_bytes_def flags_byte_def gdt_set_fields_def gdt_masks low_masks bit_simps)

lemma gdt_base_read: "seg_base (gdt_bytes (gdt_set_fields base limit access flags e)) = base"
proof (rule bit_word_eqI)
  fix n
  assume "n < LENGTH(32)"
  then consider "n < 8" | "8 \<le> n" "n < 16" | "16 \<le> n" "n < 24" | "24 \<le> n" "n < 32"
    by fastforce
  then show "bit (seg_base (gdt_bytes (gdt_set_fields base limit access flags e))) n = bit base n"
    by cases (simp_all add: seg_base_def gdt_bytes_def gdt_set_fields_def low_masks bit_simps less_diff_conv2 le_diff_conv2)
qed

lemma gdt_limit_read: "seg_limit (gdt_bytes (gdt_set_fields base limit access flags e)) = limit AND 0xFFFFF"
proof (rule bit_word_eqI)
  fix n
  assume "n < LENGTH(32)"
  then consider "n < 8" | "8 \<le> n" "n < 16" | "16 \<le> n" "n < 20" | "20 \<le> n" "n < 32"
    by fastforce
  then show "bit (seg_limit (gdt_bytes (gdt_set_fields base limit access flags e))) n = bit (limit AND 0xFFFFF) n"
    by cases (simp_all add: seg_limit_def gdt_bytes_def gdt_set_fields_def flags_byte_def low_masks bit_simps less_diff_conv2 le_diff_conv2)
qed


section \<open>The segments of the kernel\<close>

text \<open>Logging returns as long as the ring has a capacity.\<close>

lemma klog_returns: "cb_capacity (kl_ring k) \<noteq> 0 \<Longrightarrow> \<exists>k'. klog_literal k level msg = kret k'"
  by (simp add: klog_literal_def kmessage_def circular_buffer_enqueue_def circular_buffer_dequeue_def umod_def Let_def
      split: if_split)

lemma replicate_6: "replicate 6 x = [x, x, x, x, x, x]"
  by (simp add: numeral_eq_Suc)

lemma gdt_init_table:
  assumes "klog_literal k KMESSAGE_LEVEL_INFO ''cpu: GDT initialized'' = kret k'"
  shows "\<exists>s'. gdt_init addr s k = kret (s', k') \<and>
    map gdt_bytes (gdt_descriptors s') =
      [[0, 0, 0, 0, 0, 0, 0, 0], [0xFF, 0xFF, 0, 0, 0, 0x9A, 0xCF, 0], [0xFF, 0xFF, 0, 0, 0, 0x92, 0xCF, 0],
       [0xFF, 0xFF, 0, 0, 0, 0xFA, 0xCF, 0], [0xFF, 0xFF, 0, 0, 0, 0xF2, 0xCF, 0], [0, 0, 0, 0, 0, 0, 0, 0]] \<and>
    gdtr s' = \<lparr>gdt_limit = 47, gdt_base = addr\<rparr> \<and> seg_cs s' = 0x08 \<and> seg_data s' = 0x10"
  using assms
  by (simp add: gdt_init_def gdt_init_descriptor_def gdt_selector_index_def gdt_set_fields_def gdt_zero_def GDT_SIZE_def
      gdt_flush_def gdt_masks gdt_flags gdt_bytes_def access_byte_def flags_byte_def Let_def replicate_6)

lemma gdt_init_descriptor_nth:
  assumes "length (gdt_descriptors s) = GDT_SIZE"
  shows "gdt_descriptors (gdt_init_descriptor sel base limit access flags s) ! gdt_selector_index sel =
      gdt_set_fields base limit access flags (gdt_descriptors s ! gdt_selector_index sel)"
    and "i \<noteq> gdt_selector_index sel \<Longrightarrow>
      gdt_descriptors (gdt_init_descriptor sel base limit access flags s) ! i = gdt_descriptors s ! i"
  using assms by (cases sel; simp add: gdt_init_descriptor_def gdt_selector_index_def GDT_SIZE_def)+


section \<open>Gates\<close>

definition gate_offset :: "idt_gate_descriptor \<Rightarrow> u32" where
  "gate_offset e = ucast (offset_low e) OR push_bit 16 (ucast (offset_high e))"

lemma gate_offset_read: "gate_offset (idt_set_fields offset sel flags e) = offset"
proof (rule bit_word_eqI)
  fix n
  assume "n < LENGTH(32)"
  then consider "n < 16" | "16 \<le> n" "n < 32"
    by fastforce
  then show "bit (gate_offset (idt_set_fields offset sel flags e)) n = bit offset n"
    by cases (simp_all add: gate_offset_def idt_set_fields_def LOW_16_def HIGH_16_def low_masks bit_simps less_diff_conv2)
qed

text \<open>A sequence of writes to different entries of the table.\<close>

abbreviation write_gates :: "(nat \<times> u32 \<times> u16 \<times> u8) list \<Rightarrow> segments \<Rightarrow> segments" where
  "write_gates gs \<equiv> fold (\<lambda>(i, offset, sel, flags). idt_init_descriptor i offset sel flags) gs"

lemma idt_fold_nth:
  assumes "distinct (map fst gs)" and "\<forall>g \<in> set gs. fst g < length (idt_descriptors s)"
  shows "idt_descriptors (write_gates gs s) ! i =
      (case map_of gs i of None \<Rightarrow> idt_descriptors s ! i
       | Some (offset, sel, flags) \<Rightarrow> idt_set_fields offset sel flags (idt_descriptors s ! i))"
  using assms
proof (induction gs arbitrary: s)
  case (Cons g gs)
  obtain j offset sel flags where g: "g = (j, offset, sel, flags)"
    by (cases g) auto
  let ?s = "idt_init_descriptor j offset sel flags s"
  have s: "length (idt_descriptors ?s) = length (idt_descriptors s)"
    "idt_descriptors ?s ! i = (if i = j then idt_set_fields offset sel flags (idt_descriptors s ! j) else idt_descriptors s ! i)"
    using Cons.prems(2) by (auto simp: idt_init_descriptor_def g nth_list_update)
  have "map_of gs j = None"
    using Cons.prems(1) by (auto simp: g map_of_eq_None_iff)
  then show ?case
    using Cons.IH [of ?s] Cons.prems s by (auto simp: g split: option.split)
qed simp

text \<open>Which gates are set up, and how.\<close>

definition gate_of :: "(nat \<Rightarrow> u32) \<Rightarrow> (nat \<Rightarrow> u32) \<Rightarrow> u32 \<Rightarrow> nat \<Rightarrow> (u32 \<times> u16 \<times> u8) option" where
  "gate_of exc irq syscall i =
     (if i < 32 then Some (exc i, 0x08, 0x8E) else if i < 48 then Some (irq i, 0x08, 0x8E)
      else if i = 0x80 then Some (syscall, 0x08, 0xEE) else None)"

lemma isr_codes: "map isr_code isr_exceptions = [0..<20]" "map isr_code isr_requests = [32..<48]"
  by (simp_all add: isr_exceptions_def isr_requests_def upt_rec [of 0] upt_rec [of "Suc 0"] numeral_2_eq_2 [symmetric])

lemma map_zip_code: "map isr_code es = ns \<Longrightarrow> map (\<lambda>(e, i). (isr_code e, f i)) (zip es ns) = map (\<lambda>i. (i, f i)) ns"
  by (induction es arbitrary: ns) auto

lemma idt_gates_eq:
  "idt_gates exc irq syscall =
     map (\<lambda>i. (i, the (gate_of exc irq syscall i))) ([0..<20] @ [20..<32] @ [32..<48] @ [0x80])"
  unfolding idt_gates_def map_zip_code [OF isr_codes(1)] map_zip_code [OF isr_codes(2)]
  by (simp add: gate_of_def)

lemma idt_gates_map:
  "map_of (idt_gates exc irq syscall) i = gate_of exc irq syscall i"
  "distinct (map fst (idt_gates exc irq syscall))" "\<forall>g \<in> set (idt_gates exc irq syscall). fst g < 256"
proof -
  let ?is = "[0..<20] @ [20..<32] @ [32..<48] @ [0x80]"
  have dis: "distinct ?is" and mem: "i \<in> set ?is \<longleftrightarrow> i < 48 \<or> i = 0x80"
    unfolding distinct_append set_append set_upt by auto
  show "map_of (idt_gates exc irq syscall) i = gate_of exc irq syscall i"
    unfolding idt_gates_eq map_of_map_restrict restrict_map_def mem by (auto simp: gate_of_def)
  show "distinct (map fst (idt_gates exc irq syscall))"
    unfolding idt_gates_eq map_map o_def fst_conv using dis by simp
  show "\<forall>g \<in> set (idt_gates exc irq syscall). fst g < 256"
    unfolding idt_gates_eq by auto
qed


section \<open>Properties\<close>

definition sample_segments :: segments where
  "sample_segments = \<lparr>gdt_descriptors = replicate 6 gdt_zero, gdt = \<lparr>gdt_limit = 0, gdt_base = 0\<rparr>, tss = tss_zero,
     idt_descriptors = [], idt = \<lparr>idt_limit = 0, idt_base = 0\<rparr>, gdtr = \<lparr>gdt_limit = 0, gdt_base = 0\<rparr>,
     idtr = \<lparr>idt_limit = 0, idt_base = 0\<rparr>, seg_cs = 0, seg_data = 0, tr = 0\<rparr>"

definition sample_klog :: klog where
  "sample_klog = \<lparr>kl_ring = sample_log, kl_mem = (\<lambda>_. 0), kl_frame = 0x8000, kl_literal = (\<lambda>_. 0x9000)\<rparr>"

lemma sample_klog_capacity: "cb_capacity (kl_ring sample_klog) \<noteq> 0"
  by (simp add: sample_klog_def sample_log_def)

text \<open>
  The processor reads from a descriptor that \<^verbatim>\<open>gdt_init_descriptor\<close> wrote the base address,
  the low 20 bits of the limit, the access byte and the three flags it was given, and the other descriptors of the
  table are unchanged.
\<close>
theorem gdt_descriptor_roundtrip:
  assumes "length (gdt_descriptors s) = GDT_SIZE"
    and "bs = gdt_bytes (gdt_descriptors (gdt_init_descriptor sel base limit access flags s) ! gdt_selector_index sel)"
  shows "seg_base bs = base \<and> seg_limit bs = limit AND 0xFFFFF \<and> seg_access bs = access \<and> seg_flags bs = flags AND 0xE0 \<and>
    (\<forall>i. i \<noteq> gdt_selector_index sel \<longrightarrow>
      gdt_descriptors (gdt_init_descriptor sel base limit access flags s) ! i = gdt_descriptors s ! i)"
  unfolding assms(2) gdt_init_descriptor_nth(1) [OF assms(1)]
  by (simp add: gdt_base_read gdt_limit_read gdt_access_read gdt_flags_read gdt_init_descriptor_nth(2) [OF assms(1)])

theorem gdt_descriptor_roundtrip_witness:
  "seg_base (gdt_bytes (gdt_descriptors (gdt_init_descriptor GDT_TASK_STATE_SELEKTOR 0xC0123450 108 0xE9 0 sample_segments) ! 5)) =
     0xC0123450"
  using gdt_descriptor_roundtrip [of sample_segments, OF _ refl, of GDT_TASK_STATE_SELEKTOR "0xC0123450" 108 "0xE9" 0]
  by (simp add: sample_segments_def GDT_SIZE_def gdt_selector_index_def)

text \<open>
  \<^verbatim>\<open>gdt_init\<close> returns with flat 4 GB code and data segments for ring 0 and ring 3 in the table,
  byte for byte, the table loaded and the segment registers on the kernel's segments.
\<close>
theorem gdt_init_flat_segments:
  assumes "cb_capacity (kl_ring k) \<noteq> 0"
  shows "\<exists>s' k'. gdt_init addr s k = kret (s', k') \<and>
    map gdt_bytes (gdt_descriptors s') =
      [[0, 0, 0, 0, 0, 0, 0, 0], [0xFF, 0xFF, 0, 0, 0, 0x9A, 0xCF, 0], [0xFF, 0xFF, 0, 0, 0, 0x92, 0xCF, 0],
       [0xFF, 0xFF, 0, 0, 0, 0xFA, 0xCF, 0], [0xFF, 0xFF, 0, 0, 0, 0xF2, 0xCF, 0], [0, 0, 0, 0, 0, 0, 0, 0]] \<and>
    gdtr s' = \<lparr>gdt_limit = 47, gdt_base = addr\<rparr> \<and> seg_cs s' = 0x08 \<and> seg_data s' = 0x10"
  using klog_returns [OF assms] gdt_init_table by meson

theorem gdt_init_flat_segments_witness:
  "\<exists>s' k'. gdt_init 0xC0100000 sample_segments sample_klog = kret (s', k') \<and> gdtr s' = \<lparr>gdt_limit = 47, gdt_base = 0xC0100000\<rparr>"
  using gdt_init_flat_segments [OF sample_klog_capacity, of "0xC0100000" sample_segments] by blast

text \<open>
  After \<^verbatim>\<open>idt_init\<close> the gates of the 32 exceptions, the 16 hardware interrupts and the system call
  are present and lead to their entry points in the kernel's code segment, the system call's alone from ring 3;
  no other gate is present.
\<close>
theorem idt_init_gates:
  assumes "cb_capacity (kl_ring k) \<noteq> 0"
  shows "\<exists>s' k'. idt_init addr exc irq syscall s k = kret (s', k') \<and> idtr s' = \<lparr>idt_limit = 2047, idt_base = addr\<rparr> \<and>
    (\<forall>i < 256. let g = idt_descriptors s' ! i in
      (gate_present g = 1 \<longleftrightarrow> i < 48 \<or> i = 0x80) \<and>
      (gate_present g = 1 \<longrightarrow> selector g = 0x08 \<and> gate_type g = 0xE \<and>
        gate_privilege_level g = (if i = 0x80 then 3 else 0) \<and>
        gate_offset g = (if i < 32 then exc i else if i < 48 then irq i else syscall)))"
proof -
  obtain k' where k': "klog_literal k KMESSAGE_LEVEL_INFO ''cpu: IDT initialized'' = kret k'"
    using klog_returns [OF assms] by blast
  let ?s0 = "s\<lparr>idt_descriptors := replicate 256 idt_zero\<rparr>"
  let ?s1 = "write_gates (idt_gates exc irq syscall) ?s0"
  have nth: "idt_descriptors ?s1 ! i = (case gate_of exc irq syscall i of None \<Rightarrow> idt_zero
      | Some (offset, sel, flags) \<Rightarrow> idt_set_fields offset sel flags idt_zero)" if "i < 256" for i
    using idt_fold_nth [OF idt_gates_map(2), of exc irq syscall ?s0 i] idt_gates_map(1,3) that
    by (simp split: option.split prod.split)
  have "idt_init addr exc irq syscall s k = kret (?s1\<lparr>idt := \<lparr>idt_limit = 2047, idt_base = addr\<rparr>,
      idtr := \<lparr>idt_limit = 2047, idt_base = addr\<rparr>\<rparr>, k')"
    using k' by (simp add: idt_init_def idt_flush_def IDT_SIZE_def Let_def)
  moreover have "let g = idt_descriptors ?s1 ! i in (gate_present g = 1 \<longleftrightarrow> i < 48 \<or> i = 0x80) \<and>
      (gate_present g = 1 \<longrightarrow> selector g = 0x08 \<and> gate_type g = 0xE \<and>
        gate_privilege_level g = (if i = 0x80 then 3 else 0) \<and>
        gate_offset g = (if i < 32 then exc i else if i < 48 then irq i else syscall))" if "i < 256" for i
    unfolding nth [OF that] gate_of_def
    by (simp add: gate_offset_read Let_def)
      (simp add: idt_set_fields_def idt_zero_def IDT_PRESENT_MASK_def IDT_GATE_TYPE_MASK_def IDT_PRIVILEGE_LEVEL_MASK_def)
  ultimately show ?thesis
    by simp
qed

theorem idt_init_gates_witness:
  "\<exists>s' k'. idt_init 0xC0101000 (\<lambda>i. of_nat (0xC0100000 + 16 * i)) (\<lambda>i. of_nat (0xC0100000 + 16 * i)) 0xC0100800 sample_segments sample_klog = kret (s', k') \<and>
     (gate_present (idt_descriptors s' ! 200) = 1 \<longleftrightarrow> 200 < (48 :: nat)) \<and> gate_present (idt_descriptors s' ! 33) = 1"
  using idt_init_gates [OF sample_klog_capacity, of "0xC0101000" "\<lambda>i. of_nat (0xC0100000 + 16 * i)" "\<lambda>i. of_nat (0xC0100000 + 16 * i)" "0xC0100800" sample_segments]
  by (elim exE conjE) (auto simp: Let_def)

end
