(* ===== verification/Ports.thy ===== *)
theory Ports
  imports Prelude
begin

text \<open>
  \<^verbatim>\<open>kernel/src/arch/i386/ports.c\<close> and \<^verbatim>\<open>pic.c\<close>: the \<^verbatim>\<open>in\<close> and \<^verbatim>\<open>out\<close> instructions and the interrupt
  controllers behind them.

  What happens when a port is read or written is up to the devices of the machine.  Their state has
  an arbitrary type, and the six instructions on it are an argument of everything that uses them.
\<close>

section \<open>The ports of a machine\<close>

record 'd ports =
  in8 :: "u16 \<Rightarrow> 'd \<Rightarrow> u8 \<times> 'd"
  out8 :: "u16 \<Rightarrow> u8 \<Rightarrow> 'd \<Rightarrow> 'd"
  in16 :: "u16 \<Rightarrow> 'd \<Rightarrow> u16 \<times> 'd"
  out16 :: "u16 \<Rightarrow> u16 \<Rightarrow> 'd \<Rightarrow> 'd"
  in32 :: "u16 \<Rightarrow> 'd \<Rightarrow> u32 \<times> 'd"
  out32 :: "u16 \<Rightarrow> u32 \<Rightarrow> 'd \<Rightarrow> 'd"

definition port_byte_in :: "'d ports \<Rightarrow> u16 \<Rightarrow> 'd \<Rightarrow> u8 \<times> 'd" where
  "port_byte_in io port d = in8 io port d"

definition port_byte_out :: "'d ports \<Rightarrow> u16 \<Rightarrow> u8 \<Rightarrow> 'd \<Rightarrow> 'd" where
  "port_byte_out io port data d = out8 io port data d"

definition port_word_in :: "'d ports \<Rightarrow> u16 \<Rightarrow> 'd \<Rightarrow> u16 \<times> 'd" where
  "port_word_in io port d = in16 io port d"

definition port_word_out :: "'d ports \<Rightarrow> u16 \<Rightarrow> u16 \<Rightarrow> 'd \<Rightarrow> 'd" where
  "port_word_out io port data d = out16 io port data d"

definition port_long_in :: "'d ports \<Rightarrow> u16 \<Rightarrow> 'd \<Rightarrow> u32 \<times> 'd" where
  "port_long_in io port d = in32 io port d"

definition port_long_out :: "'d ports \<Rightarrow> u16 \<Rightarrow> u32 \<Rightarrow> 'd \<Rightarrow> 'd" where
  "port_long_out io port data d = out32 io port data d"

lemmas port_defs = port_byte_in_def port_byte_out_def port_word_in_def port_word_out_def
  port_long_in_def port_long_out_def


section \<open>The interrupt controllers\<close>

definition PIC_8259_MASTER_COMMAND_REGISTER :: u16 where
  "PIC_8259_MASTER_COMMAND_REGISTER = 0x20"

definition PIC_8259_MASTER_DATA_REGISTER :: u16 where
  "PIC_8259_MASTER_DATA_REGISTER = 0x21"

definition PIC_8259_SLAVE_COMMAND_REGISTER :: u16 where
  "PIC_8259_SLAVE_COMMAND_REGISTER = 0xA0"

definition PIC_8259_SLAVE_DATA_REGISTER :: u16 where
  "PIC_8259_SLAVE_DATA_REGISTER = 0xA1"

definition PIC_8259_EOI :: u8 where
  "PIC_8259_EOI = 0x20"

definition PIC_8259_ICW1_ICW4 :: u8 where
  "PIC_8259_ICW1_ICW4 = 0x01"

definition PIC_8259_ICW1_INIT :: u8 where
  "PIC_8259_ICW1_INIT = 0x10"

definition PIC_8259_ICW4_8086 :: u8 where
  "PIC_8259_ICW4_8086 = 0x01"

lemmas pic_regs = PIC_8259_MASTER_COMMAND_REGISTER_def PIC_8259_MASTER_DATA_REGISTER_def
  PIC_8259_SLAVE_COMMAND_REGISTER_def PIC_8259_SLAVE_DATA_REGISTER_def

text \<open>The shift is on an \<^verbatim>\<open>int\<close>; the callers pass fewer than 16 lines, so it stays below 8.\<close>

definition pic_8259_mask_irq :: "'d ports \<Rightarrow> u8 \<Rightarrow> 'd \<Rightarrow> 'd" where
  "pic_8259_mask_irq io irq d =
     (let (port, irq) = (if irq < 8 then (PIC_8259_MASTER_DATA_REGISTER, irq) else (PIC_8259_SLAVE_DATA_REGISTER, irq - 8));
          (v, d1) = port_byte_in io port d
      in port_byte_out io port (v OR ucast (push_bit (unat irq) 1 :: u32)) d1)"

definition pic_8259_unmask_irq :: "'d ports \<Rightarrow> u8 \<Rightarrow> 'd \<Rightarrow> 'd" where
  "pic_8259_unmask_irq io irq d =
     (let (port, irq) = (if irq < 8 then (PIC_8259_MASTER_DATA_REGISTER, irq) else (PIC_8259_SLAVE_DATA_REGISTER, irq - 8));
          (v, d1) = port_byte_in io port d
      in port_byte_out io port (v AND ucast (NOT (push_bit (unat irq) 1) :: u32)) d1)"

definition pic_8259_send_eoi :: "'d ports \<Rightarrow> u8 \<Rightarrow> 'd \<Rightarrow> 'd" where
  "pic_8259_send_eoi io irq d =
     (if 8 \<le> irq then port_byte_out io PIC_8259_SLAVE_COMMAND_REGISTER PIC_8259_EOI d
      else port_byte_out io PIC_8259_MASTER_COMMAND_REGISTER PIC_8259_EOI d)"

definition pic_8259_init :: "'d ports \<Rightarrow> 'd \<Rightarrow> 'd" where
  "pic_8259_init io d =
     (let (mask1, d1) = port_byte_in io PIC_8259_MASTER_DATA_REGISTER d;
          (mask2, d2) = port_byte_in io PIC_8259_SLAVE_DATA_REGISTER d1;
          d3 = port_byte_out io PIC_8259_MASTER_COMMAND_REGISTER (PIC_8259_ICW1_INIT OR PIC_8259_ICW1_ICW4) d2;
          d4 = port_byte_out io PIC_8259_SLAVE_COMMAND_REGISTER (PIC_8259_ICW1_INIT OR PIC_8259_ICW1_ICW4) d3;
          d5 = port_byte_out io PIC_8259_MASTER_DATA_REGISTER 0x20 d4;
          d6 = port_byte_out io PIC_8259_SLAVE_DATA_REGISTER 0x28 d5;
          d7 = port_byte_out io PIC_8259_MASTER_DATA_REGISTER 0x04 d6;
          d8 = port_byte_out io PIC_8259_SLAVE_DATA_REGISTER 0x02 d7;
          d9 = port_byte_out io PIC_8259_MASTER_DATA_REGISTER PIC_8259_ICW4_8086 d8;
          d10 = port_byte_out io PIC_8259_SLAVE_DATA_REGISTER PIC_8259_ICW4_8086 d9;
          d11 = port_byte_out io PIC_8259_MASTER_DATA_REGISTER mask1 d10;
          d12 = port_byte_out io PIC_8259_SLAVE_DATA_REGISTER mask2 d11
      in fold (\<lambda>i. pic_8259_unmask_irq io (of_nat i)) [0..<16] d12)"


section \<open>What an 8259 does\<close>

text \<open>
  The documented behaviour of the chip, as far as the kernel uses it: the initialisation words after
  ICW1, the mask register behind the data port and the non-specific end of interrupt, which clears
  the highest priority bit (the lowest one) of the in-service register.
\<close>

record pic_chip =
  imr :: u8
  isr :: u8
  vector_base :: u8
  icw :: nat

definition chip_command :: "u8 \<Rightarrow> pic_chip \<Rightarrow> pic_chip" where
  "chip_command v c =
     (if v = 0x11 then c\<lparr>imr := 0, isr := 0, icw := 2\<rparr>
      else if v = 0x20 then c\<lparr>isr := isr c AND (isr c - 1)\<rparr>
      else c)"

definition chip_data :: "u8 \<Rightarrow> pic_chip \<Rightarrow> pic_chip" where
  "chip_data v c =
     (if icw c = 2 then c\<lparr>vector_base := v AND 0xF8, icw := 3\<rparr>
      else if icw c = 3 then c\<lparr>icw := 4\<rparr>
      else if icw c = 4 then c\<lparr>icw := 0\<rparr>
      else c\<lparr>imr := v\<rparr>)"

text \<open>\<open>chips d\<close>: the master and the slave of a machine.\<close>

definition has_8259 :: "'d ports \<Rightarrow> ('d \<Rightarrow> pic_chip \<times> pic_chip) \<Rightarrow> bool" where
  "has_8259 io chips \<longleftrightarrow>
     (\<forall>d v. chips (out8 io 0x20 v d) = apfst (chip_command v) (chips d)) \<and>
     (\<forall>d v. chips (out8 io 0x21 v d) = apfst (chip_data v) (chips d)) \<and>
     (\<forall>d v. chips (out8 io 0xA0 v d) = apsnd (chip_command v) (chips d)) \<and>
     (\<forall>d v. chips (out8 io 0xA1 v d) = apsnd (chip_data v) (chips d)) \<and>
     (\<forall>d. fst (in8 io 0x21 d) = imr (fst (chips d)) \<and> chips (snd (in8 io 0x21 d)) = chips d) \<and>
     (\<forall>d. fst (in8 io 0xA1 d) = imr (snd (chips d)) \<and> chips (snd (in8 io 0xA1 d)) = chips d)"

lemma has_8259D:
  assumes "has_8259 io chips"
  shows "chips (out8 io 0x20 v d) = apfst (chip_command v) (chips d)"
    and "chips (out8 io 0x21 v d) = apfst (chip_data v) (chips d)"
    and "chips (out8 io 0xA0 v d) = apsnd (chip_command v) (chips d)"
    and "chips (out8 io 0xA1 v d) = apsnd (chip_data v) (chips d)"
    and "fst (in8 io 0x21 d) = imr (fst (chips d))" and "chips (snd (in8 io 0x21 d)) = chips d"
    and "fst (in8 io 0xA1 d) = imr (snd (chips d))" and "chips (snd (in8 io 0xA1 d)) = chips d"
  using assms unfolding has_8259_def by blast+

text \<open>A machine that consists of the two chips.\<close>

definition pic_machine :: "(pic_chip \<times> pic_chip) ports" where
  "pic_machine = \<lparr>
     in8 = (\<lambda>p d. (if p = 0x21 then imr (fst d) else if p = 0xA1 then imr (snd d) else 0xFF, d)),
     out8 = (\<lambda>p v d. if p = 0x20 then apfst (chip_command v) d else if p = 0x21 then apfst (chip_data v) d
       else if p = 0xA0 then apsnd (chip_command v) d else if p = 0xA1 then apsnd (chip_data v) d else d),
     in16 = (\<lambda>p d. (0xFFFF, d)), out16 = (\<lambda>p v d. d), in32 = (\<lambda>p d. (0xFFFFFFFF, d)), out32 = (\<lambda>p v d. d)\<rparr>"

lemma pic_machine_ok: "has_8259 pic_machine id"
  by (simp add: has_8259_def pic_machine_def)

lemma unmask_chips:
  assumes "has_8259 io chips" and "i < 16" and "chips d = (m, s)" and "icw m = 0" and "icw s = 0"
  shows "chips (pic_8259_unmask_irq io (of_nat i) d) =
    (if i < 8 then (m\<lparr>imr := imr m AND ucast (NOT (push_bit i 1) :: u32)\<rparr>, s)
     else (m, s\<lparr>imr := imr s AND ucast (NOT (push_bit (i - 8) 1) :: u32)\<rparr>))"
proof -
  note h = has_8259D [OF assms(1)]
  have u: "unat (of_nat i :: u8) = i" "(of_nat i :: u8) < 8 \<longleftrightarrow> i < 8"
    using assms(2) by (simp_all add: word_less_nat_alt unat_of_nat)
  moreover have "8 \<le> i \<Longrightarrow> unat (of_nat i - 8 :: u8) = i - 8"
    using u by (simp add: unat_sub word_le_nat_alt)
  ultimately show ?thesis
    using assms(3-5) h(2,4) h(5,6) [of d] h(7,8) [of d]
    by (cases "in8 io 0x21 d"; cases "in8 io 0xA1 d")
      (auto simp: pic_8259_unmask_irq_def port_defs pic_regs chip_data_def)
qed

lemma unmask_all_chips:
  assumes "has_8259 io chips" and "chips d = (m, s)" and "icw m = 0" and "icw s = 0" and "n \<le> 16"
  shows "\<exists>a b. chips (fold (\<lambda>i. pic_8259_unmask_irq io (of_nat i)) [0..<n] d) =
    (m\<lparr>imr := a\<rparr>, s\<lparr>imr := b\<rparr>) \<and> (\<forall>k. k < n \<longrightarrow> k < 8 \<longrightarrow> \<not> bit a k) \<and> (\<forall>k. k + 8 < n \<longrightarrow> \<not> bit b k)"
  using assms(5)
proof (induction n)
  case 0
  then show ?case
    using assms(2) by (intro exI [of _ "imr m"] exI [of _ "imr s"]) simp
next
  case (Suc n)
  then obtain a b where ab: "chips (fold (\<lambda>i. pic_8259_unmask_irq io (of_nat i)) [0..<n] d) = (m\<lparr>imr := a\<rparr>, s\<lparr>imr := b\<rparr>)"
    "\<forall>k. k < n \<longrightarrow> k < 8 \<longrightarrow> \<not> bit a k" "\<forall>k. k + 8 < n \<longrightarrow> \<not> bit b k"
    by auto
  let ?a = "if n < 8 then a AND ucast (NOT (push_bit n 1) :: u32) else a"
  let ?b = "if n < 8 then b else b AND ucast (NOT (push_bit (n - 8) 1) :: u32)"
  have "chips (fold (\<lambda>i. pic_8259_unmask_irq io (of_nat i)) [0..<Suc n] d) = (m\<lparr>imr := ?a\<rparr>, s\<lparr>imr := ?b\<rparr>)"
    using Suc.prems unmask_chips [OF assms(1) _ ab(1), of n] assms(3,4) by simp
  moreover have "\<forall>k. k < Suc n \<longrightarrow> k < 8 \<longrightarrow> \<not> bit ?a k" "\<forall>k. k + 8 < Suc n \<longrightarrow> \<not> bit ?b k"
    using ab(2,3) Suc.prems by (auto simp: bit_simps less_Suc_eq)
  ultimately show ?case
    by blast
qed

lemma pic_init_chips:
  assumes "has_8259 io chips"
  shows "chips (pic_8259_init io d) =
    (\<lparr>imr = 0, isr = 0, vector_base = 0x20, icw = 0\<rparr>, \<lparr>imr = 0, isr = 0, vector_base = 0x28, icw = 0\<rparr>)"
proof -
  note h = has_8259D [OF assms(1)]
  define d12 where "d12 = (let (mask1, d1) = in8 io 0x21 d; (mask2, d2) = in8 io 0xA1 d1 in
    out8 io 0xA1 mask2 (out8 io 0x21 mask1 (out8 io 0xA1 1 (out8 io 0x21 1 (out8 io 0xA1 2 (out8 io 0x21 4
      (out8 io 0xA1 0x28 (out8 io 0x21 0x20 (out8 io 0xA0 0x11 (out8 io 0x20 0x11 d2))))))))))"
  have init: "pic_8259_init io d = fold (\<lambda>i. pic_8259_unmask_irq io (of_nat i)) [0..<16] d12"
    by (simp add: pic_8259_init_def d12_def port_defs pic_regs PIC_8259_ICW1_INIT_def PIC_8259_ICW1_ICW4_def
        PIC_8259_ICW4_8086_def Let_def split: prod.split)
  obtain a b where "chips d12 = (\<lparr>imr = a, isr = 0, vector_base = 0x20, icw = 0\<rparr>, \<lparr>imr = b, isr = 0, vector_base = 0x28, icw = 0\<rparr>)"
    using h by (cases "chips d"; cases "fst (chips d)"; cases "snd (chips d)") (auto simp: d12_def Let_def split_beta chip_command_def chip_data_def)
  from unmask_all_chips [OF assms this, of 16] obtain x y where xy:
    "chips (pic_8259_init io d) = (\<lparr>imr = x, isr = 0, vector_base = 0x20, icw = 0\<rparr>, \<lparr>imr = y, isr = 0, vector_base = 0x28, icw = 0\<rparr>)"
    "\<forall>k. k < 16 \<longrightarrow> k < 8 \<longrightarrow> \<not> bit x k" "\<forall>k. k + 8 < 16 \<longrightarrow> \<not> bit y k"
    unfolding init by auto
  have "x = 0" "y = 0"
    using xy(2,3) by (auto intro!: bit_word_eqI)
  with xy(1) show ?thesis
    by simp
qed

end
