(* ===== verification/Interrupts.thy ===== *)
theory Interrupts
  imports Ports Descriptors
begin

text \<open>
  \<^verbatim>\<open>kernel/src/arch/i386/interrupts\<close>: the table of listeners and the second stage of an interrupt, which calls the
  listener and tells the controller that the interrupt is over.  A listener gets the saved registers, which it may
  change, and the state of the machine.
\<close>

section \<open>Saved registers and listeners\<close>

record isr_cpu_state =
  st_ds :: u32
  st_edi :: u32
  st_esi :: u32
  st_ebp :: u32
  st_esp :: u32
  st_ebx :: u32
  st_edx :: u32
  st_ecx :: u32
  st_eax :: u32
  st_interrupt_code :: u32
  st_error_code :: u32
  st_eip :: u32
  st_cs :: u32
  st_eflags :: u32
  st_useresp :: u32
  st_ss :: u32

type_synonym 'd listener = "isr_cpu_state \<Rightarrow> 'd \<Rightarrow> (isr_cpu_state \<times> 'd) kres"

definition ISR_MAX_INTERRUPT_LISTENERS :: u32 where
  "ISR_MAX_INTERRUPT_LISTENERS = 256"

definition isr_exception_messages :: "string list" where
  "isr_exception_messages = [
     ''Division By Zero'', ''Debug'', ''Non Maskable Interrupt'', ''Breakpoint'', ''Detected Overflow'', ''Out Of Bounds'',
     ''Invalid Opcode'', ''No Coprocessor'', ''Double Fault'', ''Coprocessor Segment Overrun'', ''Bad TSS'',
     ''Segment Not Present'', ''Stack Fault'', ''General Protection Fault'', ''Page Fault'', ''Unknown Interrupt'',
     ''Coprocessor Fault'', ''Alignment Check'', ''Machine Check'', ''Reserved'', ''Reserved'', ''Reserved'', ''Reserved'',
     ''Reserved'', ''Reserved'', ''Reserved'', ''Reserved'', ''Reserved'', ''Reserved'', ''Reserved'', ''Reserved'', ''Reserved'']"

text \<open>The index is not checked: a code beyond the table reads whatever lies behind it.\<close>

definition isr_stage2 :: "'d ports \<Rightarrow> 'd listener option list \<Rightarrow> isr_cpu_state \<Rightarrow> 'd \<Rightarrow> (isr_cpu_state \<times> 'd) kres" where
  "isr_stage2 io listeners state d =
     (let interrupt_code = st_interrupt_code state in
      if length listeners \<le> unat interrupt_code then kfault
      else kbind (case listeners ! unat interrupt_code of None \<Rightarrow> kret (state, d) | Some listener \<Rightarrow> listener state d) (\<lambda>(state1, d1).
        kret (state1,
          if 32 \<le> interrupt_code \<and> interrupt_code < 48 then
            let pic_8259_code = interrupt_code - 32 in
            if pic_8259_code < 16 then pic_8259_send_eoi io (ucast pic_8259_code) d1 else d1
          else d1)))"

definition isr_register_listener :: "'d listener option list \<Rightarrow> u32 \<Rightarrow> 'd listener option \<Rightarrow> int \<times> 'd listener option list" where
  "isr_register_listener listeners sel listener =
     (if ISR_MAX_INTERRUPT_LISTENERS \<le> sel then (- 1, listeners) else (0, listeners[unat sel := listener]))"

definition isr_unregister_listener :: "'d listener option list \<Rightarrow> u32 \<Rightarrow> int \<times> 'd listener option list" where
  "isr_unregister_listener listeners sel =
     (if ISR_MAX_INTERRUPT_LISTENERS \<le> sel then (- 1, listeners) else (0, listeners[unat sel := None]))"

text \<open>\<^verbatim>\<open>isr.c\<close>: the interrupt flag, and the software interrupt that \<^verbatim>\<open>isr_interrupt\<close> raises, if any.\<close>

definition clear_interrupt_flag :: "bool \<Rightarrow> bool" where
  "clear_interrupt_flag flag = False"

definition set_interrupt_flag :: "bool \<Rightarrow> bool" where
  "set_interrupt_flag flag = True"

definition isr_interrupt :: "int \<Rightarrow> nat option" where
  "isr_interrupt i = (if 0 \<le> i \<and> i \<le> 0x1F then Some (nat i) else None)"


section \<open>Dispatch\<close>

definition listeners_ok :: "'d listener option list \<Rightarrow> bool" where
  "listeners_ok L \<longleftrightarrow> length L = 256"

definition run_listener :: "'d listener option list \<Rightarrow> 'd listener" where
  "run_listener L state d =
     (case L ! unat (st_interrupt_code state) of None \<Rightarrow> kret (state, d) | Some f \<Rightarrow> f state d)"

definition end_of_interrupt :: "'d ports \<Rightarrow> u32 \<Rightarrow> 'd \<Rightarrow> 'd" where
  "end_of_interrupt io code d =
     (if 32 \<le> code \<and> code < 48 then pic_8259_send_eoi io (ucast (code - 32)) d else d)"

lemma stage2_eq:
  assumes "listeners_ok L" and "st_interrupt_code state < 256"
  shows "isr_stage2 io L state d =
    kbind (run_listener L state d) (\<lambda>(state1, d1). kret (state1, end_of_interrupt io (st_interrupt_code state) d1))"
proof -
  let ?c = "st_interrupt_code state"
  have "?c - 32 < 16" if "32 \<le> ?c" "?c < 48"
    using that by (simp add: word_less_nat_alt word_le_nat_alt unat_sub_u32)
  moreover have "unat ?c < 256"
    using assms(2) by (simp add: word_less_nat_alt)
  ultimately show ?thesis
    using assms(1)
    by (auto simp: isr_stage2_def run_listener_def end_of_interrupt_def listeners_ok_def Let_def fun_eq_iff
        intro!: arg_cong [where f = "kbind _"])
qed

lemma eoi_chips:
  assumes "has_8259 io chips" and "chips d = (m, s)"
  shows "chips (end_of_interrupt io code d) =
    (if 32 \<le> code \<and> code < 40 then (m\<lparr>isr := isr m AND (isr m - 1)\<rparr>, s)
     else if 40 \<le> code \<and> code < 48 then (m, s\<lparr>isr := isr s AND (isr s - 1)\<rparr>) else (m, s))"
proof -
  note h = has_8259D [OF assms(1)]
  have small: "unat (ucast (code - 32) :: u8) = unat code - 32" if "32 \<le> code" "code < 48"
  proof -
    have "unat (code - 32) = unat code - 32" "unat (code - 32) < 256"
      using that by (simp_all add: word_less_nat_alt word_le_nat_alt unat_sub_u32)
    then show ?thesis
      by (simp add: unsigned_ucast_eq take_bit_eq_mod)
  qed
  consider "32 \<le> code" "code < 40" | "40 \<le> code" "code < 48" | "\<not> (32 \<le> code \<and> code < 48)"
    by fastforce
  then show ?thesis
  proof cases
    case 1
    then have "\<not> 8 \<le> (ucast (code - 32) :: u8)" "code < 48"
      using small by (auto simp: word_le_nat_alt word_less_nat_alt)
    then show ?thesis
      using 1 assms(2) h(1)
      by (simp add: end_of_interrupt_def pic_8259_send_eoi_def port_defs pic_regs PIC_8259_EOI_def chip_command_def)
  next
    case 2
    then have "8 \<le> (ucast (code - 32) :: u8)" "32 \<le> code"
      using small by (auto simp: word_le_nat_alt word_less_nat_alt)
    then show ?thesis
      using 2 assms(2) h(3)
      by (simp add: end_of_interrupt_def pic_8259_send_eoi_def port_defs pic_regs PIC_8259_EOI_def chip_command_def)
  next
    case 3
    then have "\<not> (32 \<le> code \<and> code < 40)" "\<not> (40 \<le> code \<and> code < 48)"
      by (auto simp: word_le_nat_alt word_less_nat_alt)
    then show ?thesis
      using 3 assms(2) unfolding end_of_interrupt_def by (simp only: if_False)
  qed
qed


section \<open>Properties\<close>

definition idle_cpu :: isr_cpu_state where
  "idle_cpu = \<lparr>st_ds = 0, st_edi = 0, st_esi = 0, st_ebp = 0, st_esp = 0, st_ebx = 0, st_edx = 0, st_ecx = 0, st_eax = 0,
     st_interrupt_code = 33, st_error_code = 0, st_eip = 0, st_cs = 0, st_eflags = 0, st_useresp = 0, st_ss = 0\<rparr>"

definition busy_chip :: pic_chip where
  "busy_chip = \<lparr>imr = 0, isr = 0b00000110, vector_base = 0x20, icw = 0\<rparr>"

text \<open>
  A listener can be registered for every code of the table and no other; from then on
  an interrupt with that code runs it, an interrupt with another code runs what it ran before, and unregistering
  restores a table in which the entry was empty.
\<close>
theorem isr_register_dispatches:
  assumes "listeners_ok L" and "isr_register_listener L sel (Some f) = (r, L')"
  shows "(r = 0 \<longleftrightarrow> sel < 256) \<and> listeners_ok L' \<and> (r \<noteq> 0 \<longrightarrow> r = - 1 \<and> L' = L) \<and>
    (r = 0 \<longrightarrow>
      (\<forall>state d. st_interrupt_code state = sel \<longrightarrow>
        isr_stage2 io L' state d = kbind (f state d) (\<lambda>(state1, d1). kret (state1, end_of_interrupt io sel d1))) \<and>
      (\<forall>state d. st_interrupt_code state \<noteq> sel \<longrightarrow> isr_stage2 io L' state d = isr_stage2 io L state d) \<and>
      (L ! unat sel = None \<longrightarrow> isr_unregister_listener L' sel = (0, L)))"
proof (cases "sel < 256")
  case True
  then have sel: "\<not> 256 \<le> sel" "unat sel < 256"
    by (simp_all add: word_less_nat_alt word_le_nat_alt)
  then have L': "r = 0" "L' = L[unat sel := Some f]"
    using assms(2) by (simp_all add: isr_register_listener_def ISR_MAX_INTERRUPT_LISTENERS_def)
  have ok: "listeners_ok L'"
    using assms(1) by (simp add: L'(2) listeners_ok_def)
  have "isr_stage2 io L' state d = kbind (f state d) (\<lambda>(state1, d1). kret (state1, end_of_interrupt io sel d1))"
    if "st_interrupt_code state = sel" for state d
    using that stage2_eq [OF ok, of state io d] True sel(2) assms(1) by (simp add: run_listener_def L'(2) listeners_ok_def)
  moreover have "isr_stage2 io L' state d = isr_stage2 io L state d" if "st_interrupt_code state \<noteq> sel" for state d
  proof -
    have "unat (st_interrupt_code state) \<noteq> unat sel"
      using that by (simp add: word_unat_eq_iff)
    then show ?thesis
      by (simp add: isr_stage2_def L'(2) Let_def)
  qed
  moreover have "isr_unregister_listener L' sel = (0, L)" if "L ! unat sel = None"
    using that sel by (simp add: isr_unregister_listener_def ISR_MAX_INTERRUPT_LISTENERS_def L'(2) list_update_same_conv)
      (metis list_update_id that)
  ultimately show ?thesis
    using True ok L'(1) by blast
next
  case False
  then have "256 \<le> sel"
    by simp
  then show ?thesis
    using assms False by (simp add: isr_register_listener_def ISR_MAX_INTERRUPT_LISTENERS_def)
qed

theorem isr_register_dispatches_witness:
  "isr_stage2 pic_machine (snd (isr_register_listener (replicate 256 None) 33 (Some (\<lambda>s d. kret (s\<lparr>st_eax := 7\<rparr>, d))))) idle_cpu (busy_chip, busy_chip) =
     kret (idle_cpu\<lparr>st_eax := 7\<rparr>, end_of_interrupt pic_machine 33 (busy_chip, busy_chip))"
proof -
  have "listeners_ok (replicate 256 None)"
    by (simp add: listeners_ok_def)
  from isr_register_dispatches [OF this, where sel = 33 and f = "\<lambda>s d. kret (s\<lparr>st_eax := 7\<rparr>, d)" and io = pic_machine,
      OF surjective_pairing]
  show ?thesis
    by (simp add: idle_cpu_def)
qed

text \<open>
  C24: a hardware interrupt ends with one end-of-interrupt command: of the lines in service at
  the controller it came from, the one with the highest priority is cleared.  For the lines of the slave the master
  gets no such command, so its cascade line stays in service.
\<close>
theorem isr_stage2_acknowledges:
  assumes "has_8259 io chips" and "listeners_ok L" and "st_interrupt_code state < 256"
    and "run_listener L state d = kret (state1, d1)" and "chips d1 = (m, s)"
  shows "\<exists>d2. isr_stage2 io L state d = kret (state1, d2) \<and>
    (let code = st_interrupt_code state in
      chips d2 = (if 32 \<le> code \<and> code < 40 then (m\<lparr>isr := isr m AND (isr m - 1)\<rparr>, s)
        else if 40 \<le> code \<and> code < 48 then (m, s\<lparr>isr := isr s AND (isr s - 1)\<rparr>) else (m, s)))"
  using stage2_eq [OF assms(2,3), of io d] assms(4) eoi_chips [OF assms(1,5)] by (simp add: Let_def)

theorem isr_stage2_acknowledges_witness:
  "isr_stage2 pic_machine (replicate 256 None) (idle_cpu\<lparr>st_interrupt_code := 46\<rparr>) (busy_chip, busy_chip) =
     kret (idle_cpu\<lparr>st_interrupt_code := 46\<rparr>, (busy_chip, busy_chip\<lparr>isr := 0b00000100\<rparr>))"
  using isr_stage2_acknowledges [OF pic_machine_ok, of "replicate 256 None" "idle_cpu\<lparr>st_interrupt_code := 46\<rparr>" "(busy_chip, busy_chip)"
      "idle_cpu\<lparr>st_interrupt_code := 46\<rparr>" "(busy_chip, busy_chip)" busy_chip busy_chip]
  by (simp add: listeners_ok_def run_listener_def idle_cpu_def busy_chip_def)

text \<open>
  After \<^verbatim>\<open>pic_8259_init\<close> the hardware interrupts arrive as 0x20 to 0x2F, none is masked and none
  is in service, whatever the controllers' masks and state were before.
\<close>
theorem pic_8259_init_remaps:
  assumes "has_8259 io chips"
  shows "chips (pic_8259_init io d) =
    (\<lparr>imr = 0, isr = 0, vector_base = 0x20, icw = 0\<rparr>, \<lparr>imr = 0, isr = 0, vector_base = 0x28, icw = 0\<rparr>)"
  by (rule pic_init_chips [OF assms])

theorem pic_8259_init_remaps_witness:
  "pic_8259_init pic_machine (busy_chip, busy_chip\<lparr>imr := 0xFF, icw := 3\<rparr>) =
    (\<lparr>imr = 0, isr = 0, vector_base = 0x20, icw = 0\<rparr>, \<lparr>imr = 0, isr = 0, vector_base = 0x28, icw = 0\<rparr>)"
  using pic_8259_init_remaps [OF pic_machine_ok, of "(busy_chip, busy_chip\<lparr>imr := 0xFF, icw := 3\<rparr>)"] by simp

end
