(* ===== verification/Keyboard.thy ===== *)
theory Keyboard
  imports CString Interrupts Device
begin

text \<open>
  \<^verbatim>\<open>kernel/src/device/keyboard.c\<close> and \<^verbatim>\<open>kernel/src/drivers/input/ps2/keyboard.c\<close>: scan codes, key events and the PS/2
  driver.
\<close>

section \<open>Characters\<close>

definition ASCII_CTRL_NUL :: u8 where "ASCII_CTRL_NUL = 0"
definition ASCII_CTRL_BS :: u8 where "ASCII_CTRL_BS = 8"
definition ASCII_CTRL_TAB :: u8 where "ASCII_CTRL_TAB = 9"
definition ASCII_CTRL_CR :: u8 where "ASCII_CTRL_CR = 13"
definition ASCII_CTRL_ESC :: u8 where "ASCII_CTRL_ESC = 27"
definition ASCII_SPACE :: u8 where "ASCII_SPACE = 32"
definition ASCII_PUNCT_APOSTROPHE :: u8 where "ASCII_PUNCT_APOSTROPHE = 39"
definition ASCII_PUNCT_ASTERISK :: u8 where "ASCII_PUNCT_ASTERISK = 42"
definition ASCII_PUNCT_PLUS :: u8 where "ASCII_PUNCT_PLUS = 43"
definition ASCII_PUNCT_COMMA :: u8 where "ASCII_PUNCT_COMMA = 44"
definition ASCII_PUNCT_MINUS :: u8 where "ASCII_PUNCT_MINUS = 45"
definition ASCII_PUNCT_DOT :: u8 where "ASCII_PUNCT_DOT = 46"
definition ASCII_PUNCT_SLASH :: u8 where "ASCII_PUNCT_SLASH = 47"
definition ASCII_DIGIT_0 :: u8 where "ASCII_DIGIT_0 = 48"
definition ASCII_DIGIT_1 :: u8 where "ASCII_DIGIT_1 = 49"
definition ASCII_DIGIT_2 :: u8 where "ASCII_DIGIT_2 = 50"
definition ASCII_DIGIT_3 :: u8 where "ASCII_DIGIT_3 = 51"
definition ASCII_DIGIT_4 :: u8 where "ASCII_DIGIT_4 = 52"
definition ASCII_DIGIT_5 :: u8 where "ASCII_DIGIT_5 = 53"
definition ASCII_DIGIT_6 :: u8 where "ASCII_DIGIT_6 = 54"
definition ASCII_DIGIT_7 :: u8 where "ASCII_DIGIT_7 = 55"
definition ASCII_DIGIT_8 :: u8 where "ASCII_DIGIT_8 = 56"
definition ASCII_DIGIT_9 :: u8 where "ASCII_DIGIT_9 = 57"
definition ASCII_PUNCT_SEMICOLON :: u8 where "ASCII_PUNCT_SEMICOLON = 59"
definition ASCII_PUNCT_EQUAL :: u8 where "ASCII_PUNCT_EQUAL = 61"
definition ASCII_UPPER_A :: u8 where "ASCII_UPPER_A = 65"
definition ASCII_UPPER_B :: u8 where "ASCII_UPPER_B = 66"
definition ASCII_UPPER_C :: u8 where "ASCII_UPPER_C = 67"
definition ASCII_UPPER_D :: u8 where "ASCII_UPPER_D = 68"
definition ASCII_UPPER_E :: u8 where "ASCII_UPPER_E = 69"
definition ASCII_UPPER_F :: u8 where "ASCII_UPPER_F = 70"
definition ASCII_UPPER_G :: u8 where "ASCII_UPPER_G = 71"
definition ASCII_UPPER_H :: u8 where "ASCII_UPPER_H = 72"
definition ASCII_UPPER_I :: u8 where "ASCII_UPPER_I = 73"
definition ASCII_UPPER_J :: u8 where "ASCII_UPPER_J = 74"
definition ASCII_UPPER_K :: u8 where "ASCII_UPPER_K = 75"
definition ASCII_UPPER_L :: u8 where "ASCII_UPPER_L = 76"
definition ASCII_UPPER_M :: u8 where "ASCII_UPPER_M = 77"
definition ASCII_UPPER_N :: u8 where "ASCII_UPPER_N = 78"
definition ASCII_UPPER_O :: u8 where "ASCII_UPPER_O = 79"
definition ASCII_UPPER_P :: u8 where "ASCII_UPPER_P = 80"
definition ASCII_UPPER_Q :: u8 where "ASCII_UPPER_Q = 81"
definition ASCII_UPPER_R :: u8 where "ASCII_UPPER_R = 82"
definition ASCII_UPPER_S :: u8 where "ASCII_UPPER_S = 83"
definition ASCII_UPPER_T :: u8 where "ASCII_UPPER_T = 84"
definition ASCII_UPPER_U :: u8 where "ASCII_UPPER_U = 85"
definition ASCII_UPPER_V :: u8 where "ASCII_UPPER_V = 86"
definition ASCII_UPPER_W :: u8 where "ASCII_UPPER_W = 87"
definition ASCII_UPPER_X :: u8 where "ASCII_UPPER_X = 88"
definition ASCII_UPPER_Y :: u8 where "ASCII_UPPER_Y = 89"
definition ASCII_UPPER_Z :: u8 where "ASCII_UPPER_Z = 90"
definition ASCII_PUNCT_LBRACKET :: u8 where "ASCII_PUNCT_LBRACKET = 91"
definition ASCII_PUNCT_BACKSLASH :: u8 where "ASCII_PUNCT_BACKSLASH = 92"
definition ASCII_PUNCT_RBRACKET :: u8 where "ASCII_PUNCT_RBRACKET = 93"
definition ASCII_PUNCT_GRAVE :: u8 where "ASCII_PUNCT_GRAVE = 96"

lemmas ascii_defs = ASCII_CTRL_NUL_def ASCII_CTRL_BS_def ASCII_CTRL_TAB_def ASCII_CTRL_CR_def
  ASCII_CTRL_ESC_def ASCII_SPACE_def ASCII_PUNCT_APOSTROPHE_def ASCII_PUNCT_ASTERISK_def
  ASCII_PUNCT_PLUS_def ASCII_PUNCT_COMMA_def ASCII_PUNCT_MINUS_def ASCII_PUNCT_DOT_def
  ASCII_PUNCT_SLASH_def ASCII_DIGIT_0_def ASCII_DIGIT_1_def ASCII_DIGIT_2_def
  ASCII_DIGIT_3_def ASCII_DIGIT_4_def ASCII_DIGIT_5_def ASCII_DIGIT_6_def
  ASCII_DIGIT_7_def ASCII_DIGIT_8_def ASCII_DIGIT_9_def ASCII_PUNCT_SEMICOLON_def
  ASCII_PUNCT_EQUAL_def ASCII_UPPER_A_def ASCII_UPPER_B_def ASCII_UPPER_C_def
  ASCII_UPPER_D_def ASCII_UPPER_E_def ASCII_UPPER_F_def ASCII_UPPER_G_def
  ASCII_UPPER_H_def ASCII_UPPER_I_def ASCII_UPPER_J_def ASCII_UPPER_K_def
  ASCII_UPPER_L_def ASCII_UPPER_M_def ASCII_UPPER_N_def ASCII_UPPER_O_def
  ASCII_UPPER_P_def ASCII_UPPER_Q_def ASCII_UPPER_R_def ASCII_UPPER_S_def
  ASCII_UPPER_T_def ASCII_UPPER_U_def ASCII_UPPER_V_def ASCII_UPPER_W_def
  ASCII_UPPER_X_def ASCII_UPPER_Y_def ASCII_UPPER_Z_def ASCII_PUNCT_LBRACKET_def
  ASCII_PUNCT_BACKSLASH_def ASCII_PUNCT_RBRACKET_def ASCII_PUNCT_GRAVE_def


section \<open>Scan codes\<close>

definition keyboard_scancode_ascii_map :: "u8 list" where
  "keyboard_scancode_ascii_map = [
     ASCII_CTRL_NUL, ASCII_CTRL_ESC, ASCII_DIGIT_1, ASCII_DIGIT_2, ASCII_DIGIT_3,
     ASCII_DIGIT_4, ASCII_DIGIT_5, ASCII_DIGIT_6, ASCII_DIGIT_7, ASCII_DIGIT_8,
     ASCII_DIGIT_9, ASCII_DIGIT_0, ASCII_PUNCT_MINUS, ASCII_PUNCT_EQUAL, ASCII_CTRL_BS,
     ASCII_CTRL_TAB, ASCII_UPPER_Q, ASCII_UPPER_W, ASCII_UPPER_E, ASCII_UPPER_R,
     ASCII_UPPER_T, ASCII_UPPER_Y, ASCII_UPPER_U, ASCII_UPPER_I, ASCII_UPPER_O,
     ASCII_UPPER_P, ASCII_PUNCT_LBRACKET, ASCII_PUNCT_RBRACKET, ASCII_CTRL_CR, ASCII_CTRL_NUL,
     ASCII_UPPER_A, ASCII_UPPER_S, ASCII_UPPER_D, ASCII_UPPER_F, ASCII_UPPER_G,
     ASCII_UPPER_H, ASCII_UPPER_J, ASCII_UPPER_K, ASCII_UPPER_L, ASCII_PUNCT_SEMICOLON,
     ASCII_PUNCT_APOSTROPHE, ASCII_PUNCT_GRAVE, ASCII_CTRL_NUL, ASCII_PUNCT_BACKSLASH, ASCII_UPPER_Z,
     ASCII_UPPER_X, ASCII_UPPER_C, ASCII_UPPER_V, ASCII_UPPER_B, ASCII_UPPER_N,
     ASCII_UPPER_M, ASCII_PUNCT_COMMA, ASCII_PUNCT_DOT, ASCII_PUNCT_SLASH, ASCII_CTRL_NUL,
     ASCII_PUNCT_ASTERISK, ASCII_CTRL_NUL, ASCII_SPACE, ASCII_CTRL_NUL, ASCII_CTRL_NUL,
     ASCII_CTRL_NUL, ASCII_CTRL_NUL, ASCII_CTRL_NUL, ASCII_CTRL_NUL, ASCII_CTRL_NUL,
     ASCII_CTRL_NUL, ASCII_CTRL_NUL, ASCII_CTRL_NUL, ASCII_CTRL_NUL, ASCII_CTRL_NUL,
     ASCII_CTRL_NUL, ASCII_DIGIT_7, ASCII_DIGIT_8, ASCII_DIGIT_9, ASCII_PUNCT_MINUS,
     ASCII_DIGIT_4, ASCII_DIGIT_5, ASCII_DIGIT_6, ASCII_PUNCT_PLUS, ASCII_DIGIT_1,
     ASCII_DIGIT_2, ASCII_DIGIT_3, ASCII_DIGIT_0, ASCII_PUNCT_DOT, ASCII_CTRL_NUL,
     ASCII_CTRL_NUL, ASCII_CTRL_NUL, ASCII_CTRL_NUL, ASCII_CTRL_NUL]"

record keyboard_event =
  keycode :: u32
  pressed :: bool

text \<open>
  The code of a released key is looked up as it is, with its high bit set: it is an index behind the 89 entries of
  the table.  What lies there is up to the linker and is the argument \<open>beyond\<close>.
\<close>

definition scancode_lookup :: "(nat \<Rightarrow> u8) \<Rightarrow> u32 \<Rightarrow> u8" where
  "scancode_lookup beyond scancode =
     (if unat scancode < length keyboard_scancode_ascii_map then keyboard_scancode_ascii_map ! unat scancode
      else beyond (unat scancode))"

definition keyboard_transfer_scancode :: "(nat \<Rightarrow> u8) \<Rightarrow> u32 \<Rightarrow> keyboard_event" where
  "keyboard_transfer_scancode beyond scancode =
     (let event = \<lparr>keycode = scast ASCII_CTRL_NUL, pressed = False\<rparr>;
          event1 = (if scancode \<le> 0x58 then event\<lparr>keycode := scast (scancode_lookup beyond scancode), pressed := True\<rparr>
            else if 0x80 \<le> scancode \<and> scancode \<le> 0xD8 then event\<lparr>keycode := scast (scancode_lookup beyond scancode), pressed := False\<rparr>
            else event)
      in event1\<lparr>keycode := scast (tolower (ucast (keycode event1)))\<rparr>)"


section \<open>The PS/2 driver\<close>

definition PS2_DATA_REGISTER :: u16 where
  "PS2_DATA_REGISTER = 0x60"

type_synonym 'd keyboard_listener = "keyboard_event \<Rightarrow> 'd \<Rightarrow> 'd kres"

definition ps2_keyboard_register_listener :: "'d keyboard_listener option \<Rightarrow> 'd keyboard_listener option \<Rightarrow> 'd keyboard_listener option" where
  "ps2_keyboard_register_listener ps2_keyboard_listener listener = listener"

definition ps2_keyboard_interrupt_handler ::
  "'d ports \<Rightarrow> (nat \<Rightarrow> u8) \<Rightarrow> 'd keyboard_listener option \<Rightarrow> 'd listener" where
  "ps2_keyboard_interrupt_handler io beyond ps2_keyboard_listener state d =
     (let (scancode, d1) = port_byte_in io PS2_DATA_REGISTER d
      in case ps2_keyboard_listener of None \<Rightarrow> kret (state, d1)
         | Some listener \<Rightarrow>
             kbind (listener (keyboard_transfer_scancode beyond (ucast scancode)) d1) (\<lambda>d2. kret (state, d2)))"

text \<open>
  What the driver's initialisation has in common with the other drivers': a device with a name, an identifier and a
  type, allocated from the heap.  The result is the address of the device, or the panic for lack of memory.
\<close>

definition driver_device :: "u32 \<Rightarrow> u32 \<Rightarrow> u16 \<Rightarrow> registry \<Rightarrow> (u32 \<times> registry) kres" where
  "driver_device name_literal name_size type r =
     kbind (kmalloc (reg_heap r) DRIVEN_DEVICE_SIZE) (\<lambda>(device, h1).
     if device = 0 then out_of_memory else
     kbind (kmalloc h1 name_size) (\<lambda>(name, h2).
     if name = 0 then out_of_memory else
     let (uid, nxt) = generate_uuid_v4 (rand_state r) in
     case strcpy (mem h2) name name_literal of None \<Rightarrow> None | Some mm \<Rightarrow>
       kret (device, r\<lparr>reg_heap := h2\<lparr>mem := mm\<rparr>, rand_state := nxt,
         devices := (devices r)(device \<mapsto> \<lparr>dev_id = uid, dev_name = name, dev_type = type,
           dev_bus = \<lparr>bus_type = DEVICE_BUS_TYPE_PLATFORM, bus_data = 0\<rparr>\<rparr>)\<rparr>)))"

text \<open>The handler that is registered reads the listener at the time of the interrupt, so it is an argument here.\<close>

definition ps2_keyboard_init ::
  "'d ports \<Rightarrow> u32 \<Rightarrow> 'd listener \<Rightarrow> registry \<Rightarrow> 'd listener option list \<Rightarrow> 'd \<Rightarrow>
   (int \<times> registry \<times> 'd listener option list \<times> 'd) kres" where
  "ps2_keyboard_init io name_literal handler r listeners d =
     kbind (driver_device name_literal 14 DEVICE_TYPE_KEYBOARD r) (\<lambda>(device, r1).
     kbind (kmalloc (reg_heap r1) 4) (\<lambda>(driver, h).
     if driver = 0 then out_of_memory else
     let r2 = r1\<lparr>reg_heap := h, driver_ptr := (driver_ptr r1)(device \<mapsto> driver),
       keyboard_drivers := (keyboard_drivers r1)(driver \<mapsto> \<lparr>kd_register_listener = Ps2_keyboard_register_listener\<rparr>)\<rparr> in
     kbind (device_register r2 device) (\<lambda>(_, r3).
     let (_, listeners1) = isr_register_listener listeners (of_nat (isr_code KEYBOARD_INTERRUPT)) (Some handler);
         d1 = port_byte_out io PS2_DATA_REGISTER 0xF4 d
     in kret (0, r3, listeners1, d1))))"

end
