(* ===== verification/Keyboard_Correct.thy ===== *)
theory Keyboard_Correct
  imports Keyboard
begin

text \<open>
  The path of a key stroke: interrupt, dispatch, scan code, key event, listener, end of interrupt.  The table of scan
  codes is compared with the rows of a keyboard with the US layout.
\<close>

section \<open>The layout\<close>

text \<open>Each row with the scan code of its first key.\<close>

definition us_layout :: "(nat \<times> string) list" where
  "us_layout = [(0x02, ''1234567890-=''), (0x10, ''qwertyuiop[]''), (0x1E, ''asdfghjkl;''), (0x2C, ''zxcvbnm,./''),
     (0x39, '' ''), (0x47, ''789-456+1230.'')]"

fun row_events :: "(nat \<Rightarrow> u8) \<Rightarrow> nat \<Rightarrow> string \<Rightarrow> bool" where
  "row_events beyond code [] \<longleftrightarrow> True"
| "row_events beyond code (c # cs) \<longleftrightarrow>
     keyboard_transfer_scancode beyond (of_nat code) = \<lparr>keycode = of_char c, pressed = True\<rparr> \<and> row_events beyond (Suc code) cs"

lemma transfer_pressed:
  "scancode \<le> 0x58 \<Longrightarrow> keyboard_transfer_scancode beyond scancode =
     \<lparr>keycode = scast (tolower (ucast (scast (keyboard_scancode_ascii_map ! unat scancode) :: u32))), pressed = True\<rparr>"
  by (simp add: keyboard_transfer_scancode_def scancode_lookup_def word_le_nat_alt keyboard_scancode_ascii_map_def Let_def)

lemma keyboard_layout_rows:
  "list_all (\<lambda>(code, row). row_events beyond code row) us_layout"
  by (simp add: us_layout_def transfer_pressed keyboard_scancode_ascii_map_def ascii_defs tolower_def)

lemma row_events_nth:
  "row_events beyond code row \<Longrightarrow> i < length row \<Longrightarrow>
    keyboard_transfer_scancode beyond (of_nat (code + i)) = \<lparr>keycode = of_char (row ! i), pressed = True\<rparr>"
proof (induction row arbitrary: code i)
  case (Cons c row)
  then show ?case
    by (cases i) (force simp: algebra_simps)+
qed simp

lemma transfer_released:
  "\<not> scancode \<le> 0x58 \<Longrightarrow> \<not> pressed (keyboard_transfer_scancode beyond scancode)"
  by (simp add: keyboard_transfer_scancode_def Let_def)


section \<open>Delivery\<close>

definition keyboard_code :: u32 where
  "keyboard_code = of_nat (isr_code KEYBOARD_INTERRUPT)"

lemma keyboard_delivered:
  assumes "listeners_ok L" and "port_byte_in io PS2_DATA_REGISTER d = (scancode, d1)"
    and "st_interrupt_code state = keyboard_code"
  shows "isr_stage2 io (snd (isr_register_listener L keyboard_code
      (Some (ps2_keyboard_interrupt_handler io beyond (Some listener))))) state d =
    kbind (listener (keyboard_transfer_scancode beyond (ucast scancode)) d1)
      (\<lambda>d2. kret (state, end_of_interrupt io keyboard_code d2))"
proof -
  have code: "keyboard_code = 33"
    by (simp add: keyboard_code_def)
  let ?L = "L[33 := Some (ps2_keyboard_interrupt_handler io beyond (Some listener))]"
  have "listeners_ok ?L" "33 < length L"
    using assms(1) by (simp_all add: listeners_ok_def)
  moreover have "snd (isr_register_listener L keyboard_code (Some (ps2_keyboard_interrupt_handler io beyond (Some listener)))) = ?L"
    by (simp add: isr_register_listener_def ISR_MAX_INTERRUPT_LISTENERS_def code)
  ultimately show ?thesis
    using assms(2,3) by (simp add: stage2_eq run_listener_def ps2_keyboard_interrupt_handler_def kbind_assoc code)
qed

text \<open>
  C23: once a listener is registered with the driver and the driver with the dispatcher, the
  interrupt raised by a key of the layout makes exactly one call of the listener, with the character on that key as a
  press, and ends with the end-of-interrupt command; a release code makes one call with an event that is no press.
\<close>
theorem keyboard_interrupt_delivers:
  assumes "listeners_ok L" and "port_byte_in io PS2_DATA_REGISTER d = (scancode, d1)"
    and "st_interrupt_code state = keyboard_code"
  shows "\<exists>event.
    isr_stage2 io (snd (isr_register_listener L keyboard_code
        (Some (ps2_keyboard_interrupt_handler io beyond (ps2_keyboard_register_listener old (Some listener)))))) state d =
      kbind (listener event d1) (\<lambda>d2. kret (state, end_of_interrupt io keyboard_code d2)) \<and>
    pressed event = (scancode \<le> 0x58) \<and>
    (\<forall>(code, row) \<in> set us_layout. \<forall>i < length row. scancode = of_nat (code + i) \<longrightarrow> keycode event = of_char (row ! i))"
proof (intro exI conjI)
  let ?e = "keyboard_transfer_scancode beyond (ucast scancode)"
  show "isr_stage2 io (snd (isr_register_listener L keyboard_code
        (Some (ps2_keyboard_interrupt_handler io beyond (ps2_keyboard_register_listener old (Some listener)))))) state d =
      kbind (listener ?e d1) (\<lambda>d2. kret (state, end_of_interrupt io keyboard_code d2))"
    using keyboard_delivered [OF assms] by (simp add: ps2_keyboard_register_listener_def)
  have "unat scancode < 2 ^ 32"
    by (rule less_trans [OF unat_lt_u8]) simp
  then have le: "(ucast scancode :: u32) \<le> 0x58 \<longleftrightarrow> scancode \<le> 0x58"
    by (simp add: word_le_nat_alt unsigned_ucast_eq take_bit_nat_eq_self)
  show "pressed ?e = (scancode \<le> 0x58)"
    by (cases "scancode \<le> 0x58") (simp_all add: transfer_pressed transfer_released le)
  have "keycode ?e = of_char (row ! i)"
    if row: "(code, row) \<in> set us_layout" and i: "i < length row" and s: "scancode = of_nat (code + i)" for code row i
  proof -
    have "code + i < 256"
      using row i by (auto simp: us_layout_def)
    then have "unat scancode = code + i"
      by (simp add: s unat_of_nat del: of_nat_add)
    then have "(ucast scancode :: u32) = of_nat (code + i)"
      by (metis of_nat_unat)
    moreover have "row_events beyond code row"
      using row keyboard_layout_rows [of beyond] by (auto simp: list_all_iff)
    ultimately show ?thesis
      using row_events_nth [OF _ i, of beyond code] by simp
  qed
  then show "\<forall>(code, row) \<in> set us_layout. \<forall>i < length row. scancode = of_nat (code + i) \<longrightarrow> keycode ?e = of_char (row ! i)"
    by blast
qed

text \<open>The machine of the witness: a keyboard that holds the scan code of the letter q, and two idle controllers.\<close>

definition key_machine :: "(u8 list) ports" where
  "key_machine = \<lparr>in8 = (\<lambda>p d. if p = 0x60 then (0x10, d) else (0, d)), out8 = (\<lambda>p v d. v # d),
     in16 = (\<lambda>p d. (0, d)), out16 = (\<lambda>p v d. d), in32 = (\<lambda>p d. (0, d)), out32 = (\<lambda>p v d. d)\<rparr>"

theorem keyboard_interrupt_delivers_witness:
  "isr_stage2 key_machine (snd (isr_register_listener (replicate 256 None) keyboard_code
        (Some (ps2_keyboard_interrupt_handler key_machine (\<lambda>_. 0) (ps2_keyboard_register_listener None
          (Some (\<lambda>e d. kret ((if pressed e then ucast (keycode e) else 0) # d)))))))) idle_cpu [] =
     kret (idle_cpu, [PIC_8259_EOI, of_char CHR ''q''])"
proof -
  have p1: "listeners_ok (replicate 256 None :: u8 list listener option list)"
    by (simp add: listeners_ok_def)
  have p2: "port_byte_in key_machine PS2_DATA_REGISTER [] = (0x10, [])"
    by (simp add: port_byte_in_def PS2_DATA_REGISTER_def key_machine_def)
  have p3: "st_interrupt_code idle_cpu = keyboard_code"
    by (simp add: idle_cpu_def keyboard_code_def)
  have "\<exists>event :: keyboard_event. isr_stage2 key_machine (snd (isr_register_listener (replicate 256 None) keyboard_code
        (Some (ps2_keyboard_interrupt_handler key_machine (\<lambda>_. 0) (ps2_keyboard_register_listener None
          (Some (\<lambda>e d. kret ((if pressed e then ucast (keycode e) else 0) # d)))))))) idle_cpu [] =
      kbind (kret ((if pressed event then ucast (keycode event) else 0) # []))
        (\<lambda>d2. kret (idle_cpu, end_of_interrupt key_machine keyboard_code d2)) \<and>
    pressed event = ((0x10 :: u8) \<le> 0x58) \<and>
    (\<forall>(code, row) \<in> set us_layout. \<forall>i < length row. (0x10 :: u8) = of_nat (code + i) \<longrightarrow> keycode event = of_char (row ! i))"
    using keyboard_interrupt_delivers [OF p1 p2 p3, of "\<lambda>_. 0" None
      "\<lambda>e d. kret ((if pressed e then ucast (keycode e) else 0) # d)"] .
  then obtain event :: keyboard_event where run: "isr_stage2 key_machine (snd (isr_register_listener (replicate 256 None) keyboard_code
        (Some (ps2_keyboard_interrupt_handler key_machine (\<lambda>_. 0) (ps2_keyboard_register_listener None
          (Some (\<lambda>e d. kret ((if pressed e then ucast (keycode e) else 0) # d)))))))) idle_cpu [] =
      kbind (kret ((if pressed event then ucast (keycode event) else 0) # []))
        (\<lambda>d2. kret (idle_cpu, end_of_interrupt key_machine keyboard_code d2))"
    and event: "pressed event = ((0x10 :: u8) \<le> 0x58)"
      "\<forall>(code, row) \<in> set us_layout. \<forall>i < length row. (0x10 :: u8) = of_nat (code + i) \<longrightarrow> keycode event = of_char (row ! i)"
    by blast
  have "(0x10, ''qwertyuiop[]'') \<in> set us_layout"
    by (simp add: us_layout_def)
  from bspec [OF event(2) this] have "keycode event = of_char CHR ''q''"
    by (auto dest: spec [of _ 0])
  with run event(1)
  show ?thesis
    by (simp add: end_of_interrupt_def keyboard_code_def pic_8259_send_eoi_def port_byte_out_def key_machine_def)
qed

end
