(* ===== verification/Vga.thy ===== *)
theory Vga
  imports Keyboard Vmm "HOL-Library.Signed_Division"
begin

text \<open>
  \<^verbatim>\<open>kernel/src/drivers/video/vga/vga.c\<close>: the text screen.

  The structure \<^verbatim>\<open>vga_state\<close> is found through a static pointer that is \<^verbatim>\<open>NULL\<close> before \<^verbatim>\<open>vga_init\<close>; the screen is part of
  the byte memory.  An \<^verbatim>\<open>int\<close> is an \<open>int\<close> here and becomes a 32-bit word where the source mixes it with the unsigned
  \<^verbatim>\<open>width\<close> and \<^verbatim>\<open>height\<close>; these and \<^verbatim>\<open>bytes\<close> only ever hold the numbers that \<^verbatim>\<open>vga_init\<close> writes, so no divisor is zero.
\<close>

section \<open>Constants and state\<close>

definition VGA_TM_VIDEO_MEMORY :: u32 where "VGA_TM_VIDEO_MEMORY = VMM_REAL_MODE_MEMORY_BASE + 0xB8000"
definition VGA_GC_ADDRESS_REGISTER_PORT :: u16 where "VGA_GC_ADDRESS_REGISTER_PORT = 0x3CE"
definition VGA_CRTC_ADDRESS_REGISTER_PORT :: u16 where "VGA_CRTC_ADDRESS_REGISTER_PORT = 0x3D4"
definition VGA_CRTC_DATA_REGISTER_PORT :: u16 where "VGA_CRTC_DATA_REGISTER_PORT = 0x3D5"
definition VGA_CRTC_CURSOR_START_REGISTER :: u8 where "VGA_CRTC_CURSOR_START_REGISTER = 0x0A"
definition VGA_CRTC_CURSOR_END_REGISTER :: u8 where "VGA_CRTC_CURSOR_END_REGISTER = 0x0B"
definition VGA_80x25_16_TEXT :: u32 where "VGA_80x25_16_TEXT = 0x03"

datatype vga_color = VGA_COLOR_BLACK | VGA_COLOR_BLUE | VGA_COLOR_GREEN | VGA_COLOR_CYAN | VGA_COLOR_RED
  | VGA_COLOR_MAGENTA | VGA_COLOR_BROWN | VGA_COLOR_LIGHT_GREY | VGA_COLOR_DARK_GREY | VGA_COLOR_LIGHT_BLUE
  | VGA_COLOR_LIGHT_GREEN | VGA_COLOR_LIGHT_CYAN | VGA_COLOR_LIGHT_RED | VGA_COLOR_LIGHT_MAGENTA
  | VGA_COLOR_LIGHT_BROWN | VGA_COLOR_WHITE

primrec vga_color_code :: "vga_color \<Rightarrow> u32" where
  "vga_color_code VGA_COLOR_BLACK = 0"
| "vga_color_code VGA_COLOR_BLUE = 1"
| "vga_color_code VGA_COLOR_GREEN = 2"
| "vga_color_code VGA_COLOR_CYAN = 3"
| "vga_color_code VGA_COLOR_RED = 4"
| "vga_color_code VGA_COLOR_MAGENTA = 5"
| "vga_color_code VGA_COLOR_BROWN = 6"
| "vga_color_code VGA_COLOR_LIGHT_GREY = 7"
| "vga_color_code VGA_COLOR_DARK_GREY = 8"
| "vga_color_code VGA_COLOR_LIGHT_BLUE = 9"
| "vga_color_code VGA_COLOR_LIGHT_GREEN = 10"
| "vga_color_code VGA_COLOR_LIGHT_CYAN = 11"
| "vga_color_code VGA_COLOR_LIGHT_RED = 12"
| "vga_color_code VGA_COLOR_LIGHT_MAGENTA = 13"
| "vga_color_code VGA_COLOR_LIGHT_BROWN = 14"
| "vga_color_code VGA_COLOR_WHITE = 15"

record vga_state =
  vga_mode :: u32
  vga_width :: u32
  vga_height :: u32
  vga_buffer :: u32
  vga_attri :: u8
  vga_cursor_enabled :: bool
  vga_x :: int
  vga_y :: int
  vga_bytes :: int

text \<open>What the driver works on: its structure, the memory with the screen, and the machine behind the ports.\<close>

record 'd screen =
  sc_state :: vga_state
  sc_mem :: mem
  sc_dev :: 'd

definition vga_get_attri :: "vga_color \<Rightarrow> vga_color \<Rightarrow> u8" where
  "vga_get_attri fg bg = ucast (vga_color_code fg OR push_bit 4 (vga_color_code bg))"


section \<open>Positions\<close>

definition vga_get_width :: "vga_state \<Rightarrow> u32" where
  "vga_get_width v = vga_width v"

definition vga_get_height :: "vga_state \<Rightarrow> u32" where
  "vga_get_height v = vga_height v"

definition vga_get_offset :: "vga_state \<Rightarrow> int" where
  "vga_get_offset v = sint (of_int (vga_bytes v) * (of_int (vga_y v) * vga_width v + of_int (vga_x v)) :: u32)"

definition vga_get_offset_x :: "vga_state \<Rightarrow> int \<Rightarrow> int" where
  "vga_get_offset_x v offset = sint (of_int (offset sdiv vga_bytes v) mod vga_width v)"

definition vga_get_offset_y :: "vga_state \<Rightarrow> int \<Rightarrow> int" where
  "vga_get_offset_y v offset = sint (of_int (offset sdiv vga_bytes v) div vga_width v)"

text \<open>The arguments are ignored.\<close>

definition vga_setpos :: "int \<Rightarrow> int \<Rightarrow> vga_state \<Rightarrow> vga_state" where
  "vga_setpos x y v = v\<lparr>vga_x := 0, vga_y := 0\<rparr>"


section \<open>Cursor\<close>

definition vga_update_cursor :: "'d ports \<Rightarrow> vga_state \<Rightarrow> 'd \<Rightarrow> 'd" where
  "vga_update_cursor io v d =
     (if \<not> vga_cursor_enabled v then d
      else let index = vga_get_offset v sdiv vga_bytes v;
               d1 = port_byte_out io VGA_CRTC_ADDRESS_REGISTER_PORT 14 d;
               d2 = port_byte_out io VGA_CRTC_DATA_REGISTER_PORT (of_int (drop_bit 8 index)) d1;
               d3 = port_byte_out io VGA_CRTC_ADDRESS_REGISTER_PORT 15 d2
           in port_byte_out io VGA_CRTC_DATA_REGISTER_PORT (of_int (index AND 0xff)) d3)"

definition vga_enable_cursor :: "'d ports \<Rightarrow> u8 \<Rightarrow> u8 \<Rightarrow> 'd screen \<Rightarrow> 'd screen" where
  "vga_enable_cursor io start fin s =
     (let d1 = port_byte_out io VGA_CRTC_ADDRESS_REGISTER_PORT VGA_CRTC_CURSOR_START_REGISTER (sc_dev s);
          (data, d2) = port_byte_in io VGA_CRTC_DATA_REGISTER_PORT d1;
          d3 = port_byte_out io VGA_CRTC_DATA_REGISTER_PORT ((data AND 0xC0) OR start) d2;
          d4 = port_byte_out io VGA_CRTC_ADDRESS_REGISTER_PORT VGA_CRTC_CURSOR_END_REGISTER d3;
          (data', d5) = port_byte_in io VGA_CRTC_DATA_REGISTER_PORT d4;
          d6 = port_byte_out io VGA_CRTC_DATA_REGISTER_PORT ((data' AND 0xE0) OR fin) d5;
          v = (sc_state s)\<lparr>vga_cursor_enabled := True\<rparr>
      in s\<lparr>sc_state := v, sc_dev := vga_update_cursor io v d6\<rparr>)"

definition vga_disable_cursor :: "'d ports \<Rightarrow> 'd screen \<Rightarrow> 'd screen" where
  "vga_disable_cursor io s =
     (let d1 = port_byte_out io VGA_CRTC_ADDRESS_REGISTER_PORT VGA_CRTC_CURSOR_START_REGISTER (sc_dev s);
          d2 = port_byte_out io VGA_CRTC_DATA_REGISTER_PORT 0x20 d1
      in s\<lparr>sc_state := (sc_state s)\<lparr>vga_cursor_enabled := False\<rparr>, sc_dev := d2\<rparr>)"

definition vga_probe :: "'d ports \<Rightarrow> 'd \<Rightarrow> bool \<times> 'd" where
  "vga_probe io d =
     (let dummy = 0x0F;
          d1 = port_byte_out io VGA_GC_ADDRESS_REGISTER_PORT dummy d;
          (v, d2) = port_byte_in io VGA_GC_ADDRESS_REGISTER_PORT d1
      in (v = dummy, d2))"


section \<open>Writing\<close>

text \<open>Lines 145 to 149, then lines 151 to 154.\<close>

definition vga_scroll_lines :: "vga_state \<Rightarrow> mem \<Rightarrow> mem" where
  "vga_scroll_lines v m =
     (let line_width_bytes = of_int (vga_bytes v) * vga_width v
      in fold (\<lambda>i m. memcpy m (vga_buffer v + (of_nat i - 1) * line_width_bytes) (vga_buffer v + of_nat i * line_width_bytes)
           line_width_bytes) [1..<unat (vga_height v)] m)"

definition vga_clear_line :: "vga_state \<Rightarrow> u32 \<Rightarrow> mem \<Rightarrow> mem" where
  "vga_clear_line v last_line m =
     fold (\<lambda>i m. m(last_line + of_nat (i * 2) := 0, last_line + of_nat (i * 2 + 1) := vga_attri v)) [0..<unat (vga_width v)] m"

definition vga_scroll :: "vga_state \<Rightarrow> mem \<Rightarrow> mem" where
  "vga_scroll v m =
     (let line_width_bytes = of_int (vga_bytes v) * vga_width v;
          m1 = vga_scroll_lines v m;
          last_line = vga_buffer v + (vga_height v - 1) * line_width_bytes
      in vga_clear_line v last_line m1)"

text \<open>
  Lines 187 to 192: the loop tests the byte at index \<^verbatim>\<open>bytes\<close> of the screen, not the one at \<^verbatim>\<open>offset\<close>, so it ends after one
  round or never.
\<close>

partial_function (option) vga_backspace :: "vga_state \<Rightarrow> mem \<Rightarrow> int \<Rightarrow> int kres" where
  "vga_backspace v m offset =
     (let offset1 = offset - vga_bytes v
      in if m (vga_buffer v + of_int (vga_bytes v)) \<noteq> 0 then kret offset1 else vga_backspace v m offset1)"

declare vga_backspace.simps [code]

text \<open>A character and its attribute go to the byte at \<^verbatim>\<open>offset\<close> and the one behind it.\<close>

definition vga_cell :: "vga_state \<Rightarrow> int \<Rightarrow> u8 \<Rightarrow> mem \<Rightarrow> mem" where
  "vga_cell v offset c m = m(vga_buffer v + of_int offset := c, vga_buffer v + of_int (offset + 1) := vga_attri v)"

definition vga_place :: "vga_state \<Rightarrow> mem \<Rightarrow> u8 \<Rightarrow> (int \<times> mem) kres" where
  "vga_place v m c =
     (let width = sint (vga_width v);
          bytes = vga_bytes v;
          offset = vga_get_offset v
      in if c = 10 then kret (offset + bytes * (width - ((offset sdiv bytes) smod width)), m)
         else if c = ASCII_CTRL_BS then
           kbind (if 0 < offset then vga_backspace v m offset else kret offset) (\<lambda>offset1.
             kret (offset1, vga_cell v offset1 0 m))
         else kret (offset + bytes, vga_cell v offset c m))"

definition vga_putchar :: "'d ports \<Rightarrow> u8 \<Rightarrow> 'd screen \<Rightarrow> 'd screen kres" where
  "vga_putchar io c s =
     kbind (if vga_mode (sc_state s) = VGA_80x25_16_TEXT then
              kbind (vga_place (sc_state s) (sc_mem s) c) (\<lambda>(offset, m).
                let v = sc_state s;
                    width = sint (vga_width v);
                    height = sint (vga_height v);
                    bytes = vga_bytes v;
                    (offset1, m1) = (if offset = bytes * width * height then (offset - bytes * width, vga_scroll v m) else (offset, m))
                in kret (s\<lparr>sc_state := v\<lparr>vga_x := vga_get_offset_x v offset1, vga_y := vga_get_offset_y v offset1\<rparr>, sc_mem := m1\<rparr>))
            else kret s) (\<lambda>s1.
       kret (s1\<lparr>sc_dev := vga_update_cursor io (sc_state s1) (sc_dev s1)\<rparr>))"

definition vga_write :: "'d ports \<Rightarrow> u8 \<Rightarrow> 'd screen \<Rightarrow> 'd screen kres" where
  "vga_write io c s = vga_putchar io c s"

primrec vga_putchars :: "'d ports \<Rightarrow> u8 list \<Rightarrow> 'd screen \<Rightarrow> 'd screen kres" where
  "vga_putchars io [] s = kret s"
| "vga_putchars io (c # cs) s = kbind (vga_putchar io c s) (vga_putchars io cs)"

text \<open>
  Lines 137 to 139: \<^verbatim>\<open>data[i]\<close> is read when its turn comes, from the memory the characters before it were written to.
\<close>

function vga_strwrite_loop :: "'d ports \<Rightarrow> u32 \<Rightarrow> int \<Rightarrow> int \<Rightarrow> 'd screen \<Rightarrow> 'd screen kres" where
  "vga_strwrite_loop io data sz i s =
     (if i < sz then kbind (vga_putchar io (sc_mem s (data + of_int i)) s) (vga_strwrite_loop io data sz (i + 1)) else kret s)"
  by auto
termination
  by (relation "measure (\<lambda>(io, data, sz, i, s). nat (sz - i))") auto

definition vga_strwrite :: "'d ports \<Rightarrow> u32 \<Rightarrow> 'd screen \<Rightarrow> 'd screen kres" where
  "vga_strwrite io data s = vga_strwrite_loop io data (sint (strlen (sc_mem s) data)) 0 s"

definition vga_clean_screen :: "'d ports \<Rightarrow> 'd screen \<Rightarrow> 'd screen kres" where
  "vga_clean_screen io s =
     (let height = sint (vga_height (sc_state s));
          width = sint (vga_width (sc_state s));
          s1 = s\<lparr>sc_state := vga_setpos 0 0 (sc_state s)\<rparr>
      in kbind (vga_putchars io (replicate (nat (height * width)) 0) s1) (\<lambda>s2.
           let v = vga_setpos 0 0 (sc_state s2)
           in kret (s2\<lparr>sc_state := v, sc_dev := vga_update_cursor io v (sc_dev s2)\<rparr>)))"


section \<open>Initialisation\<close>

text \<open>
  \<open>vga_ptr\<close> is the static pointer; an allocated structure is not initialised, so what it holds is the part of the
  state that was there before.
\<close>

definition VGA_STATE_SIZE :: u32 where
  "VGA_STATE_SIZE = 32"

definition VIDEO_DRIVER_SIZE :: u32 where
  "VIDEO_DRIVER_SIZE = 32"

definition vga_tm_probe :: "u32 \<Rightarrow> vga_state \<Rightarrow> bool" where
  "vga_tm_probe vga_ptr v \<longleftrightarrow> vga_ptr \<noteq> 0 \<and> vga_mode v = VGA_80x25_16_TEXT"

definition vga_set_mode :: "u32 \<Rightarrow> vga_state \<Rightarrow> vga_state" where
  "vga_set_mode mode v =
     v\<lparr>vga_width := 80, vga_height := 25, vga_buffer := VGA_TM_VIDEO_MEMORY,
       vga_attri := vga_get_attri VGA_COLOR_LIGHT_GREY VGA_COLOR_BLACK, vga_cursor_enabled := True,
       vga_x := 0, vga_y := 0, vga_bytes := 2, vga_mode := mode\<rparr>"

definition vga_init :: "'d ports \<Rightarrow> u32 \<Rightarrow> u32 \<Rightarrow> u32 \<Rightarrow> vga_state \<Rightarrow> registry \<Rightarrow> 'd \<Rightarrow> (u32 \<times> vga_state \<times> registry \<times> 'd) kres" where
  "vga_init io name_literal mode vga_ptr v r d =
     kbind (if vga_ptr = 0 then
              kbind (kmalloc (reg_heap r) VGA_STATE_SIZE) (\<lambda>(p, h).
                if p = 0 then out_of_memory else kret (p, r\<lparr>reg_heap := h\<rparr>))
            else kret (vga_ptr, r)) (\<lambda>(p, r0).
     if mode = VGA_80x25_16_TEXT then
       let v1 = vga_set_mode mode v in
       kbind (driver_device name_literal 15 DEVICE_TYPE_VIDEO r0) (\<lambda>(device, r1).
       kbind (kmalloc (reg_heap r1) VIDEO_DRIVER_SIZE) (\<lambda>(driver, h).
       if driver = 0 then out_of_memory else
       let r2 = r1\<lparr>reg_heap := h, driver_ptr := (driver_ptr r1)(device \<mapsto> driver),
         video_drivers := (video_drivers r1)(driver \<mapsto> \<lparr>tm_probe = Vga_tm_probe, tm_get_width = Vga_get_width,
           tm_get_height = Vga_get_height, tm_clean_screen = Vga_clean_screen, tm_write = Vga_write,
           tm_strwrite = Vga_strwrite, tm_enable_cursor = Vga_enable_cursor, tm_disable_cursor = Vga_disable_cursor\<rparr>)\<rparr> in
       kbind (device_register r2 device) (\<lambda>(_, r3).
       let s = vga_enable_cursor io 0 15 \<lparr>sc_state = v1, sc_mem = mem (reg_heap r3), sc_dev = d\<rparr> in
       kbind (vga_clean_screen io s) (\<lambda>s1.
         kret (p, sc_state s1, r3\<lparr>reg_heap := (reg_heap r3)\<lparr>mem := sc_mem s1\<rparr>\<rparr>, sc_dev s1)))))
     else kret (p, v, r0, d))"

end
