(* ===== verification/Vga_Correct.thy ===== *)
theory Vga_Correct
  imports Vga Descriptors_Correct
begin

text \<open>
  The screen as a list of 2000 cells and a position in it.  Every character that is written is one step of a small
  console on such lists; only the backspace may not return.
\<close>

section \<open>Signed arithmetic in range\<close>

lemma sint_small: "0 \<le> k \<Longrightarrow> k < 2147483648 \<Longrightarrow> sint (of_int k :: u32) = k"
  by (simp add: signed_of_int signed_take_bit_int_eq_self)

lemma uint_small: "0 \<le> k \<Longrightarrow> k < 4294967296 \<Longrightarrow> uint (of_int k :: u32) = k"
  by (simp add: unsigned_of_int take_bit_int_eq_self)

lemma sdiv_nonneg: "0 \<le> (q :: int) \<Longrightarrow> 0 < b \<Longrightarrow> q sdiv b = q div b"
  by (cases "q = 0") (simp_all add: signed_divide_int_def)

lemma smod_nonneg: "0 \<le> (q :: int) \<Longrightarrow> 0 < b \<Longrightarrow> q smod b = q mod b"
  by (cases "q = 0") (simp_all add: signed_modulo_int_def sgn_if)

lemma udivmod_80:
  assumes "0 \<le> q" and "q < 2147483648"
  shows "sint ((of_int q :: u32) mod 80) = q mod 80" and "sint ((of_int q :: u32) div 80) = q div 80"
proof -
  have "(of_int q :: u32) mod 80 = of_int (q mod 80)" "(of_int q :: u32) div 80 = of_int (q div 80)"
    using assms by (simp_all add: word_mod_def word_div_def uint_small)
  moreover have "q div 80 < 2147483648"
    using assms by presburger
  ultimately show "sint ((of_int q :: u32) mod 80) = q mod 80" "sint ((of_int q :: u32) div 80) = q div 80"
    using assms by (simp_all add: sint_small pos_imp_zdiv_nonneg_iff)
qed


section \<open>The screen\<close>

definition vga_ok :: "vga_state \<Rightarrow> bool" where
  "vga_ok v \<longleftrightarrow> vga_mode v = VGA_80x25_16_TEXT \<and> vga_width v = 80 \<and> vga_height v = 25 \<and> vga_bytes v = 2 \<and>
     0 \<le> vga_x v \<and> vga_x v < 80 \<and> 0 \<le> vga_y v \<and> vga_y v < 25"

definition cursor :: "vga_state \<Rightarrow> nat" where
  "cursor v = nat (vga_y v * 80 + vga_x v)"

definition cell_at :: "u32 \<Rightarrow> mem \<Rightarrow> nat \<Rightarrow> u8 \<times> u8" where
  "cell_at buf m i = (m (buf + of_nat (2 * i)), m (buf + of_nat (2 * i + 1)))"

definition screen_text :: "u32 \<Rightarrow> mem \<Rightarrow> (u8 \<times> u8) list" where
  "screen_text buf m = map (cell_at buf m) [0..<2000]"

lemma vga_okD:
  assumes "vga_ok v"
  shows "vga_mode v = VGA_80x25_16_TEXT" and "vga_width v = 80" and "vga_height v = 25" and "vga_bytes v = 2"
    and "cursor v < 2000" and "vga_get_offset v = 2 * int (cursor v)" and "vga_get_offset v sdiv 2 = int (cursor v)"
proof -
  have ok: "0 \<le> vga_x v" "vga_x v < 80" "0 \<le> vga_y v" "vga_y v < 25"
    using assms by (simp_all add: vga_ok_def)
  show basic: "vga_mode v = VGA_80x25_16_TEXT" "vga_width v = 80" "vga_height v = 25" "vga_bytes v = 2"
    using assms by (simp_all add: vga_ok_def)
  have "vga_y v * 80 + vga_x v < 2000"
    using ok by linarith
  then show "cursor v < 2000"
    by (simp add: cursor_def)
  have pos: "int (cursor v) = vga_y v * 80 + vga_x v"
    using ok by (simp add: cursor_def)
  have "vga_get_offset v = sint (of_int (2 * (vga_y v * 80 + vga_x v)) :: u32)"
    by (simp add: vga_get_offset_def basic)
  also have "\<dots> = 2 * int (cursor v)"
    unfolding pos using ok by (intro sint_small) auto
  finally show off: "vga_get_offset v = 2 * int (cursor v)" .
  show "vga_get_offset v sdiv 2 = int (cursor v)"
    unfolding off by (simp add: sdiv_nonneg)
qed

lemma vga_okI:
  assumes "vga_ok v" and "p < 2000"
  shows "vga_ok (v\<lparr>vga_x := vga_get_offset_x v (2 * int p), vga_y := vga_get_offset_y v (2 * int p)\<rparr>)"
    and "cursor (v\<lparr>vga_x := vga_get_offset_x v (2 * int p), vga_y := vga_get_offset_y v (2 * int p)\<rparr>) = p"
proof -
  note d = vga_okD [OF assms(1)]
  have xy: "vga_get_offset_x v (2 * int p) = int p mod 80" "vga_get_offset_y v (2 * int p) = int p div 80"
    using assms(2) udivmod_80 [of "int p"] by (simp_all add: vga_get_offset_x_def vga_get_offset_y_def d(2,4) sdiv_nonneg)
  show "vga_ok (v\<lparr>vga_x := vga_get_offset_x v (2 * int p), vga_y := vga_get_offset_y v (2 * int p)\<rparr>)"
    unfolding xy using assms by (simp add: vga_ok_def zdiv_int [symmetric]) linarith
  show "cursor (v\<lparr>vga_x := vga_get_offset_x v (2 * int p), vga_y := vga_get_offset_y v (2 * int p)\<rparr>) = p"
    unfolding xy by (simp add: cursor_def)
qed

text \<open>Writing one cell.\<close>

lemma screen_eqI: "(\<And>i. i < 2000 \<Longrightarrow> cell_at buf m i = xs ! i) \<Longrightarrow> length xs = 2000 \<Longrightarrow> screen_text buf m = xs"
  by (rule nth_equalityI) (simp_all add: screen_text_def)

lemma screen_length [simp]: "length (screen_text buf m) = 2000"
  by (simp add: screen_text_def)

lemma screen_nth [simp]: "i < 2000 \<Longrightarrow> screen_text buf m ! i = cell_at buf m i"
  by (simp add: screen_text_def)

lemma offset_eq_iff: "i < 4294967296 \<Longrightarrow> j < 4294967296 \<Longrightarrow> (buf :: u32) + of_nat i = buf + of_nat j \<longleftrightarrow> i = j"
  using of_nat_u32_inj [of i j] by simp

lemma vga_cell_screen:
  assumes "p < 2000"
  shows "screen_text (vga_buffer v) (vga_cell v (2 * int p) c m) = (screen_text (vga_buffer v) m)[p := (c, vga_attri v)]"
    and "\<not> in_range x (vga_buffer v) 4000 \<Longrightarrow> vga_cell v (2 * int p) c m x = m x"
proof -
  let ?b = "vga_buffer v"
  have eq: "vga_cell v (2 * int p) c m = m(?b + of_nat (2 * p) := c, ?b + of_nat (2 * p + 1) := vga_attri v)"
    by (simp add: vga_cell_def ac_simps)
  show "screen_text ?b (vga_cell v (2 * int p) c m) = (screen_text ?b m)[p := (c, vga_attri v)]"
  proof (rule screen_eqI)
    fix i :: nat
    assume i: "i < 2000"
    have "(?b + of_nat (2 * i) = ?b + of_nat (2 * p)) = (i = p)" "?b + of_nat (2 * i) \<noteq> ?b + of_nat (2 * p + 1)"
      "?b + of_nat (2 * i + 1) \<noteq> ?b + of_nat (2 * p)" "(?b + of_nat (2 * i + 1) = ?b + of_nat (2 * p + 1)) = (i = p)"
      using i assms by (subst offset_eq_iff; simp; presburger)+
    then show "cell_at ?b (vga_cell v (2 * int p) c m) i = (screen_text ?b m)[p := (c, vga_attri v)] ! i"
      unfolding eq cell_at_def using i by (simp add: nth_list_update cell_at_def del: of_nat_mult of_nat_add of_nat_Suc)
  qed simp
  show "vga_cell v (2 * int p) c m x = m x" if "\<not> in_range x ?b 4000"
    using that assms unfolding eq by (auto simp del: of_nat_mult of_nat_add of_nat_Suc)
qed

text \<open>Scrolling: the lines move up by one, from the top to the bottom, and the last one is cleared.\<close>

lemma in_screen: "k < 4000 \<Longrightarrow> in_range ((buf :: u32) + of_nat k) buf 4000"
  by (rule in_range_offset [THEN iffD2]) simp_all

lemma line_copy:
  assumes "1 \<le> i" and "i < 25"
  shows "k < 4000 \<Longrightarrow> memcpy m (buf + (of_nat i - 1) * 160) (buf + of_nat i * 160) 160 (buf + of_nat k) =
      (if (i - 1) * 160 \<le> k \<and> k < i * 160 then m (buf + of_nat (k + 160)) else m (buf + of_nat k))"
    and "\<not> in_range x buf 4000 \<Longrightarrow> memcpy m (buf + (of_nat i - 1) * 160) (buf + of_nat i * 160) 160 x = m x"
proof -
  let ?dst = "buf + of_nat ((i - 1) * 160)"
  have addr: "buf + (of_nat i - 1) * 160 = ?dst" "buf + of_nat i * 160 = buf + of_nat (i * 160)"
    "buf + of_nat (i * 160) = ?dst + 160"
    using assms(1) by (simp_all add: of_nat_diff algebra_simps)
  have "unat (?dst - (?dst + 160)) = unat (- (160 :: u32))"
    by simp
  then have "copy_ok ?dst (?dst + 160) (unat (160 :: u32))"
    by (simp add: copy_ok_def)
  then have cp: "memcpy m (buf + (of_nat i - 1) * 160) (buf + of_nat i * 160) 160 =
      (\<lambda>a. if in_range a ?dst 160 then m (?dst + 160 + (a - ?dst)) else m a)"
    unfolding addr by (subst memcpy_eq) simp_all
  show "memcpy m (buf + (of_nat i - 1) * 160) (buf + of_nat i * 160) 160 (buf + of_nat k) =
      (if (i - 1) * 160 \<le> k \<and> k < i * 160 then m (buf + of_nat (k + 160)) else m (buf + of_nat k))" if "k < 4000"
  proof -
    have "in_range (buf + of_nat k) ?dst 160 \<longleftrightarrow> (i - 1) * 160 \<le> k \<and> k < (i - 1) * 160 + 160"
      using that assms by (intro in_range_window) auto
    moreover have "(i - 1) * 160 + 160 = i * 160"
      using assms(1) by (simp add: diff_mult_distrib)
    moreover have "?dst + 160 + (buf + of_nat k - ?dst) = buf + of_nat (k + 160)"
      by simp
    ultimately show ?thesis
      unfolding cp by (simp only:)
  qed
  show "memcpy m (buf + (of_nat i - 1) * 160) (buf + of_nat i * 160) 160 x = m x" if out: "\<not> in_range x buf 4000"
  proof -
    have "\<not> in_range x ?dst 160"
    proof
      assume "in_range x ?dst 160"
      then obtain j where "j < 160" and "x = buf + of_nat ((i - 1) * 160 + j)"
        by (auto simp: in_range_ex add.assoc)
      moreover have "(i - 1) * 160 + j < 4000"
        using assms \<open>j < 160\<close> by linarith
      ultimately show False
        using out in_screen [of "(i - 1) * 160 + j" buf] by blast
    qed
    then show ?thesis
      unfolding cp by (simp only: if_False)
  qed
qed

definition copy_lines :: "u32 \<Rightarrow> nat \<Rightarrow> mem \<Rightarrow> mem" where
  "copy_lines buf n m = fold (\<lambda>i m. memcpy m (buf + (of_nat i - 1) * 160) (buf + of_nat i * 160) 160) [1..<n] m"

lemma scroll_lines:
  assumes "n \<le> 25" and "0 < n"
  shows "(\<forall>k < 4000. copy_lines b n m (b + of_nat k) =
      (if k < (n - 1) * 160 then m (b + of_nat (k + 160)) else m (b + of_nat k))) \<and>
    (\<forall>x. \<not> in_range x b 4000 \<longrightarrow> copy_lines b n m x = m x)"
  using assms
proof (induction n)
  case (Suc n)
  show ?case
  proof (cases "n = 0")
    case False
    let ?m = "copy_lines b n m"
    have IH: "\<forall>k < 4000. ?m (b + of_nat k) = (if k < (n - 1) * 160 then m (b + of_nat (k + 160)) else m (b + of_nat k))"
      "\<forall>x. \<not> in_range x b 4000 \<longrightarrow> ?m x = m x"
      using Suc False by auto
    have step: "copy_lines b (Suc n) m =
        memcpy ?m (b + (of_nat n - 1) * 160) (b + of_nat n * 160) 160"
      using False by (simp add: copy_lines_def)
    have n: "1 \<le> n" "n < 25"
      using False Suc.prems by auto
    note cp = line_copy [OF n, where buf = b and m = ?m]
    have "memcpy ?m (b + (of_nat n - 1) * 160) (b + of_nat n * 160) 160 (b + of_nat k) =
        (if k < n * 160 then m (b + of_nat (k + 160)) else m (b + of_nat k))" if "k < 4000" for k
    proof (cases "(n - 1) * 160 \<le> k \<and> k < n * 160")
      case True
      then have "k + 160 < 4000" "\<not> k + 160 < (n - 1) * 160"
        using n by auto
      then show ?thesis
        using cp(1) [OF that] True IH(1) by (simp del: of_nat_add)
    next
      case False
      then have "k < (n - 1) * 160 \<longleftrightarrow> k < n * 160"
        by (auto simp: diff_mult_distrib)
      then show ?thesis
        using cp(1) [OF that] False IH(1) that by (simp del: of_nat_add)
    qed
    moreover have "memcpy ?m (b + (of_nat n - 1) * 160) (b + of_nat n * 160) 160 x = m x" if "\<not> in_range x b 4000" for x
      using cp(2) [OF that] IH(2) that by simp
    ultimately show ?thesis
      unfolding step by simp
  qed (simp add: copy_lines_def)
qed simp

definition clear_cells :: "u32 \<Rightarrow> u8 \<Rightarrow> nat \<Rightarrow> mem \<Rightarrow> mem" where
  "clear_cells buf a n m = fold (\<lambda>i m. m(buf + of_nat 3840 + of_nat (i * 2) := 0, buf + of_nat 3840 + of_nat (i * 2 + 1) := a)) [0..<n] m"

lemma clear_line:
  assumes "n \<le> 80"
  shows "(\<forall>i < 2000. cell_at buf (clear_cells buf a n m) i = (if 1920 \<le> i \<and> i < 1920 + n then (0, a) else cell_at buf m i)) \<and>
    (\<forall>x. \<not> in_range x buf 4000 \<longrightarrow> clear_cells buf a n m x = m x)"
  using assms
proof (induction n)
  case (Suc n)
  let ?m = "clear_cells buf a n m"
  have step: "clear_cells buf a (Suc n) m =
      ?m(buf + of_nat (2 * (1920 + n)) := 0, buf + of_nat (2 * (1920 + n) + 1) := a)"
    by (simp add: clear_cells_def algebra_simps)
  let ?v = "\<lparr>vga_mode = 0, vga_width = 0, vga_height = 0, vga_buffer = buf, vga_attri = a, vga_cursor_enabled = False,
    vga_x = 0, vga_y = 0, vga_bytes = 0\<rparr>"
  have upd: "?m(buf + of_nat (2 * (1920 + n)) := 0, buf + of_nat (2 * (1920 + n) + 1) := a) = vga_cell ?v (2 * int (1920 + n)) 0 ?m"
    by (simp add: vga_cell_def ac_simps)
  have p: "1920 + n < 2000"
    using Suc.prems by simp
  have "cell_at buf (vga_cell ?v (2 * int (1920 + n)) 0 ?m) i = (if i = 1920 + n then (0, a) else cell_at buf ?m i)" if "i < 2000" for i
    using arg_cong [OF vga_cell_screen(1) [OF p, where v = ?v and c = 0 and m = ?m], of "\<lambda>t. t ! i"] that
    by (simp add: nth_list_update del: of_nat_add)
  moreover have "vga_cell ?v (2 * int (1920 + n)) 0 ?m x = ?m x" if "\<not> in_range x buf 4000" for x
    using vga_cell_screen(2) [OF p, of x ?v 0 ?m] that by simp
  ultimately show ?case
    unfolding step upd using Suc by auto
qed (auto simp: clear_cells_def)

lemma scroll_screen:
  assumes "vga_ok v"
  shows "screen_text (vga_buffer v) (vga_scroll v m) =
      drop 80 (screen_text (vga_buffer v) m) @ replicate 80 (0, vga_attri v)"
    and "\<not> in_range x (vga_buffer v) 4000 \<Longrightarrow> vga_scroll v m x = m x"
proof -
  note d = vga_okD [OF assms]
  let ?b = "vga_buffer v"
  have lines: "vga_scroll_lines v m = copy_lines ?b 25 m"
    by (simp add: vga_scroll_lines_def copy_lines_def d(2-4) Let_def)
  have eq: "vga_scroll v m = clear_cells ?b (vga_attri v) 80 (vga_scroll_lines v m)"
    by (simp add: vga_scroll_def vga_clear_line_def clear_cells_def d(2-4) Let_def)
  note sl = scroll_lines [of 25 ?b m, folded lines]
  have up: "cell_at ?b (vga_scroll_lines v m) i = cell_at ?b m (i + 80)" if "i < 1920" for i
  proof -
    have "2 * i + 160 = 2 * (i + 80)" "2 * i + 1 + 160 = 2 * (i + 80) + 1" "2 * i < 3840" "2 * i + 1 < 3840"
      using that by simp_all
    then show ?thesis
      using sl [THEN conjunct1, rule_format, of "2 * i"] sl [THEN conjunct1, rule_format, of "2 * i + 1"]
      unfolding cell_at_def by (simp del: of_nat_add of_nat_mult of_nat_Suc)
  qed
  note cl = clear_line [of 80 ?b "vga_attri v" "vga_scroll_lines v m", folded eq]
  show "screen_text ?b (vga_scroll v m) = drop 80 (screen_text ?b m) @ replicate 80 (0, vga_attri v)"
    using cl up by (intro screen_eqI) (auto simp: nth_append ac_simps)
  show "vga_scroll v m x = m x" if "\<not> in_range x ?b 4000"
    using cl sl that by simp
qed


section \<open>The console\<close>

text \<open>What one character does to the cells and the position.\<close>

definition console_put :: "u8 \<Rightarrow> u8 \<Rightarrow> (u8 \<times> u8) list \<times> nat \<Rightarrow> (u8 \<times> u8) list \<times> nat" where
  "console_put attr c = (\<lambda>(cells, p).
     let (cells1, p1) =
       (if c = 10 then (cells, (p div 80 + 1) * 80)
        else if c = 8 then (cells[p - 1 := (0, attr)], p - 1)
        else (cells[p := (c, attr)], p + 1))
     in if p1 = 2000 then (drop 80 cells1 @ replicate 80 (0, attr), 1920) else (cells1, p1))"

definition console :: "'d screen \<Rightarrow> (u8 \<times> u8) list \<times> nat" where
  "console s = (screen_text (vga_buffer (sc_state s)) (sc_mem s), cursor (sc_state s))"

definition same_mode :: "vga_state \<Rightarrow> vga_state \<Rightarrow> bool" where
  "same_mode v v' \<longleftrightarrow> vga_buffer v' = vga_buffer v \<and> vga_attri v' = vga_attri v \<and> vga_cursor_enabled v' = vga_cursor_enabled v"

text \<open>The byte the backspace looks at: the character of the second cell of the screen.\<close>

definition backspace_ok :: "u8 \<Rightarrow> 'd screen \<Rightarrow> bool" where
  "backspace_ok c s \<longleftrightarrow> c = 8 \<longrightarrow> cursor (sc_state s) = 0 \<or> sc_mem s (vga_buffer (sc_state s) + 2) \<noteq> 0"

lemma place_ok:
  assumes "vga_ok v" and "c = 8 \<longrightarrow> cursor v = 0 \<or> m (vga_buffer v + 2) \<noteq> 0"
  shows "\<exists>p m'. vga_place v m c = kret (2 * int p, m') \<and> p \<le> 2000 \<and>
    (screen_text (vga_buffer v) m', p) =
      (if c = 10 then (screen_text (vga_buffer v) m, (cursor v div 80 + 1) * 80)
       else if c = 8 then ((screen_text (vga_buffer v) m)[cursor v - 1 := (0, vga_attri v)], cursor v - 1)
       else ((screen_text (vga_buffer v) m)[cursor v := (c, vga_attri v)], cursor v + 1)) \<and>
    (\<forall>x. \<not> in_range x (vga_buffer v) 4000 \<longrightarrow> m' x = m x)"
proof -
  note d = vga_okD [OF assms(1)]
  have w: "sint (vga_width v) = 80"
    by (simp add: d(2))
  consider "c = 10" | "c = 8" "cursor v = 0" | "c = 8" "cursor v \<noteq> 0" | "c \<noteq> 10" "c \<noteq> 8"
    by blast
  then show ?thesis
  proof cases
    case 1
    have "2 * int (cursor v) + 2 * (80 - int (cursor v) mod 80) = 2 * int ((cursor v div 80 + 1) * 80)"
      by (simp add: zmod_int zdiv_int minus_mod_eq_mult_div [symmetric] algebra_simps)
    moreover have "(cursor v div 80 + 1) * 80 \<le> 2000"
      using less_mult_imp_div_less [of "cursor v" 25 80] d(5) by simp
    ultimately show ?thesis
      using 1 by (intro exI [of _ "(cursor v div 80 + 1) * 80"] exI [of _ m])
        (simp add: vga_place_def Let_def w d(4,6) sdiv_nonneg smod_nonneg)
  next
    case 2
    then show ?thesis
      using vga_cell_screen [where p = 0 and v = v and c = 0 and m = m]
      by (intro exI [of _ 0] exI [of _ "vga_cell v 0 0 m"]) (simp add: vga_place_def Let_def d(4,6) ASCII_CTRL_BS_def)
  next
    case 3
    let ?p = "cursor v - 1"
    have p: "?p < 2000" "2 * int ?p = 2 * int (cursor v) - 2"
      using d(5) 3 by (simp_all add: of_nat_diff)
    have "vga_backspace v m (2 * int (cursor v)) = kret (2 * int ?p)"
      using assms(2) 3 p(2) by (subst vga_backspace.simps) (simp add: d(4))
    then show ?thesis
      using 3 d(5) vga_cell_screen [OF p(1), where v = v and c = 0 and m = m]
      by (intro exI [of _ ?p] exI [of _ "vga_cell v (2 * int ?p) 0 m"]) (simp add: vga_place_def Let_def d(4,6) ASCII_CTRL_BS_def)
  next
    case 4
    then show ?thesis
      using d(5) vga_cell_screen [OF d(5), where v = v and c = c and m = m]
      by (intro exI [of _ "cursor v + 1"] exI [of _ "vga_cell v (2 * int (cursor v)) c m"])
        (simp add: vga_place_def Let_def d(4,6) ASCII_CTRL_BS_def)
  qed
qed

lemma putchar_ok:
  assumes ok: "vga_ok (sc_state s)" and bs: "backspace_ok c s"
  shows "\<exists>s'. vga_putchar io c s = kret s' \<and> vga_ok (sc_state s') \<and> same_mode (sc_state s) (sc_state s') \<and>
    console s' = console_put (vga_attri (sc_state s)) c (console s) \<and>
    (\<forall>x. \<not> in_range x (vga_buffer (sc_state s)) 4000 \<longrightarrow> sc_mem s' x = sc_mem s x) \<and>
    sc_dev s' = vga_update_cursor io (sc_state s') (sc_dev s)"
proof -
  let ?v = "sc_state s"
  let ?b = "vga_buffer ?v"
  note d = vga_okD [OF ok]
  obtain p m' where p: "vga_place ?v (sc_mem s) c = kret (2 * int p, m')" "p \<le> 2000"
    and tx: "(screen_text ?b m', p) =
      (if c = 10 then (screen_text ?b (sc_mem s), (cursor ?v div 80 + 1) * 80)
       else if c = 8 then ((screen_text ?b (sc_mem s))[cursor ?v - 1 := (0, vga_attri ?v)], cursor ?v - 1)
       else ((screen_text ?b (sc_mem s))[cursor ?v := (c, vga_attri ?v)], cursor ?v + 1))"
    and frame: "\<forall>x. \<not> in_range x ?b 4000 \<longrightarrow> m' x = sc_mem s x"
    using place_ok [OF ok, of c "sc_mem s"] bs unfolding backspace_ok_def by blast
  have put: "console_put (vga_attri ?v) c (console s) =
      (if p = 2000 then (drop 80 (screen_text ?b m') @ replicate 80 (0, vga_attri ?v), 1920) else (screen_text ?b m', p))"
    unfolding console_put_def console_def split_conv tx [symmetric] Let_def ..
  define q where "q = (if p = 2000 then 1920 else p)"
  define mm where "mm = (if p = 2000 then vga_scroll ?v m' else m')"
  let ?w = "?v\<lparr>vga_x := vga_get_offset_x ?v (2 * int q), vga_y := vga_get_offset_y ?v (2 * int q)\<rparr>"
  have q: "q < 2000"
    using p(2) by (simp add: q_def)
  have sz: "sint (vga_width ?v) = 80" "sint (vga_height ?v) = 25"
    by (simp_all add: d(2,3))
  have "(if 2 * int p = 2 * 80 * 25 then (2 * int p - 2 * 80, vga_scroll ?v m') else (2 * int p, m')) = (2 * int q, mm)"
    by (simp add: q_def mm_def)
  then have run: "vga_putchar io c s = kret (s\<lparr>sc_state := ?w, sc_mem := mm, sc_dev := vga_update_cursor io ?w (sc_dev s)\<rparr>)"
    by (simp only: vga_putchar_def d(1,4) p(1) sz kbind_simps Let_def split_conv if_True) simp
  have "console_put (vga_attri ?v) c (console s) = (screen_text ?b mm, q)"
    unfolding put q_def mm_def using scroll_screen(1) [OF ok] by simp
  moreover have "\<forall>x. \<not> in_range x ?b 4000 \<longrightarrow> mm x = sc_mem s x"
    using frame scroll_screen(2) [OF ok] by (simp add: mm_def)
  ultimately show ?thesis
    using run vga_okI [OF ok q] by (simp add: console_def same_mode_def)
qed

text \<open>On a screen whose second cell is empty a backspace runs forever.\<close>

lemma backspace_diverges:
  assumes "m (vga_buffer v + of_int (vga_bytes v)) = 0"
  shows "vga_backspace v m offset = None"
proof -
  have "\<forall>r. vga_backspace v m offset = Some r \<longrightarrow> m (vga_buffer v + of_int (vga_bytes v)) \<noteq> 0"
  proof (intro allI impI)
    fix r
    show "vga_backspace v m offset = Some r \<Longrightarrow> m (vga_buffer v + of_int (vga_bytes v)) \<noteq> 0"
      by (rule vga_backspace.raw_induct [where P = "\<lambda>v m offset r. m (vga_buffer v + of_int (vga_bytes v)) \<noteq> 0"])
        (auto simp: Let_def split: if_splits)
  qed
  then show ?thesis
    using assms by (cases "vga_backspace v m offset") auto
qed


section \<open>Strings and the empty screen\<close>

definition console_puts :: "u8 \<Rightarrow> u8 list \<Rightarrow> (u8 \<times> u8) list \<times> nat \<Rightarrow> (u8 \<times> u8) list \<times> nat" where
  "console_puts attr cs = fold (console_put attr) cs"

lemma same_mode_trans: "same_mode u v \<Longrightarrow> same_mode v w \<Longrightarrow> same_mode u w"
  by (simp add: same_mode_def)

lemma putchars_ok:
  assumes "vga_ok (sc_state s)" and "8 \<notin> set cs"
  shows "\<exists>s'. vga_putchars io cs s = kret s' \<and> vga_ok (sc_state s') \<and> same_mode (sc_state s) (sc_state s') \<and>
    console s' = console_puts (vga_attri (sc_state s)) cs (console s) \<and>
    (\<forall>x. \<not> in_range x (vga_buffer (sc_state s)) 4000 \<longrightarrow> sc_mem s' x = sc_mem s x)"
  using assms
proof (induction cs arbitrary: s)
  case Nil
  then show ?case
    by (simp add: console_puts_def same_mode_def)
next
  case (Cons c cs)
  have "backspace_ok c s"
    using Cons.prems(2) by (auto simp: backspace_ok_def)
  from putchar_ok [OF Cons.prems(1) this, of io] obtain s1 where s1: "vga_putchar io c s = kret s1" "vga_ok (sc_state s1)"
    "same_mode (sc_state s) (sc_state s1)" "console s1 = console_put (vga_attri (sc_state s)) c (console s)"
    "\<forall>x. \<not> in_range x (vga_buffer (sc_state s)) 4000 \<longrightarrow> sc_mem s1 x = sc_mem s x"
    by blast
  with Cons.IH [OF s1(2)] Cons.prems(2) show ?case
    by (auto simp: console_puts_def same_mode_def)
qed

lemma strwrite_loop_ok:
  assumes "vga_ok (sc_state s)" and "bytes_at (sc_mem s) data n = cs" and "8 \<notin> set cs" and "i + k = n" and "n < 2147483648"
    and "disjoint_ranges (vga_buffer (sc_state s)) 4000 data n"
  shows "vga_strwrite_loop io data (int n) (int i) s = vga_putchars io (drop i cs) s"
  using assms
proof (induction k arbitrary: i s)
  case 0
  then show ?case
    by (subst vga_strwrite_loop.simps) auto
next
  case (Suc k)
  have i: "i < n" "length cs = n"
    using Suc.prems(2,4) by auto
  have c: "sc_mem s (data + of_int (int i)) = cs ! i" "drop i cs = cs ! i # drop (Suc i) cs" "cs ! i \<in> set cs"
    using i arg_cong [OF Suc.prems(2), of "\<lambda>bs. bs ! i"] by (simp_all add: Cons_nth_drop_Suc)
  then have "backspace_ok (cs ! i) s"
    using Suc.prems(3) by (auto simp: backspace_ok_def)
  from putchar_ok [OF Suc.prems(1) this, of io] obtain s1 where s1: "vga_putchar io (cs ! i) s = kret s1" "vga_ok (sc_state s1)"
    "same_mode (sc_state s) (sc_state s1)" "\<forall>x. \<not> in_range x (vga_buffer (sc_state s)) 4000 \<longrightarrow> sc_mem s1 x = sc_mem s x"
    by blast
  have "bytes_at (sc_mem s1) data n = cs"
    unfolding Suc.prems(2) [symmetric] using s1(4) disjoint_rangesD [OF Suc.prems(6)] Suc.prems(5) by (intro bytes_at_eqI) auto
  then have "vga_strwrite_loop io data (int n) (int (Suc i)) s1 = vga_putchars io (drop (Suc i) cs) s1"
    using Suc.prems s1(2,3) by (intro Suc.IH) (auto simp: same_mode_def)
  then show ?case
    using i(1) s1(1) c by (subst vga_strwrite_loop.simps) (simp add: add.commute)
qed

lemma console_zeros:
  assumes "length cells = 2000" and "k < 2000"
  shows "console_puts attr (replicate k 0) (cells, 0) = (replicate k (0, attr) @ drop k cells, k)"
  using assms(2)
proof (induction k)
  case (Suc k)
  have "replicate (Suc k) (0 :: u8) = replicate k 0 @ [0]"
    by (simp add: replicate_append_same)
  moreover have "(replicate k (0, attr) @ drop k cells)[k := (0, attr)] = replicate (Suc k) (0, attr) @ drop (Suc k) cells"
    using Suc.prems assms(1)
    by (simp add: list_update_append replicate_append_same [symmetric] drop_Suc_Cons Cons_nth_drop_Suc [symmetric])
  ultimately show ?case
    using Suc by (simp add: console_puts_def console_put_def)
qed (simp add: console_puts_def)

lemma console_2000:
  assumes "length cells = 2000"
  shows "console_puts attr (replicate 2000 0) (cells, 0) = (replicate 2000 (0, attr), 1920)"
proof -
  have split: "replicate 2000 x = replicate 1999 x @ [x]" "replicate 2000 x = replicate 1920 x @ replicate 80 x" for x :: 'a
    using replicate_add [of 1999 1 x] replicate_add [of 1920 80 x] by simp_all
  have "(replicate 1999 (0, attr) @ drop 1999 cells)[1999 := (0, attr)] = replicate 2000 (0, attr)"
  proof -
    have "length (drop 1999 cells) = 1"
      using assms by simp
    then obtain x where "drop 1999 cells = [x]"
      by (metis One_nat_def length_0_conv length_Suc_conv)
    then show ?thesis
      unfolding split(1) by (simp add: list_update_append)
  qed
  then show ?thesis
    using console_zeros [OF assms, of 1999 attr] unfolding console_puts_def split(1) [of 0]
    by (simp add: console_put_def split(2) [symmetric])
qed

lemma clean_screen_ok:
  assumes "vga_ok (sc_state s)"
  shows "\<exists>s'. vga_clean_screen io s = kret s' \<and> vga_ok (sc_state s') \<and> same_mode (sc_state s) (sc_state s') \<and>
    console s' = (replicate 2000 (0, vga_attri (sc_state s)), 0) \<and>
    (\<forall>x. \<not> in_range x (vga_buffer (sc_state s)) 4000 \<longrightarrow> sc_mem s' x = sc_mem s x)"
proof -
  let ?s = "s\<lparr>sc_state := vga_setpos 0 0 (sc_state s)\<rparr>"
  let ?a = "vga_attri (sc_state s)"
  have ok: "vga_ok (sc_state ?s)"
    using assms by (simp add: vga_ok_def vga_setpos_def)
  obtain s1 where s1: "vga_putchars io (replicate 2000 0) ?s = kret s1" "vga_ok (sc_state s1)"
    "same_mode (sc_state ?s) (sc_state s1)"
    "console s1 = console_puts (vga_attri (sc_state ?s)) (replicate 2000 0) (console ?s)"
    "\<forall>x. \<not> in_range x (vga_buffer (sc_state ?s)) 4000 \<longrightarrow> sc_mem s1 x = sc_mem ?s x"
    using putchars_ok [OF ok, of "replicate 2000 0" io] by auto
  have start: "console ?s = (screen_text (vga_buffer (sc_state s)) (sc_mem s), 0)" "vga_attri (sc_state ?s) = ?a"
    by (simp_all add: console_def vga_setpos_def cursor_def)
  have text1: "screen_text (vga_buffer (sc_state s1)) (sc_mem s1) = replicate 2000 (0, ?a)"
    using s1(4) unfolding start console_2000 [OF screen_length] by (simp add: console_def)
  let ?v = "vga_setpos 0 0 (sc_state s1)"
  let ?s' = "s1\<lparr>sc_state := ?v, sc_dev := vga_update_cursor io ?v (sc_dev s1)\<rparr>"
  have "vga_clean_screen io s = kret ?s'"
    using s1(1) vga_okD(2,3) [OF assms] by (simp add: vga_clean_screen_def Let_def)
  moreover have "vga_ok (sc_state ?s')" "same_mode (sc_state s) (sc_state ?s')"
    using s1(2,3) by (simp_all add: vga_ok_def vga_setpos_def same_mode_def)
  moreover have "console ?s' = (replicate 2000 (0, ?a), 0)"
    using text1 by (simp add: console_def vga_setpos_def cursor_def)
  moreover have "\<forall>x. \<not> in_range x (vga_buffer (sc_state s)) 4000 \<longrightarrow> sc_mem ?s' x = sc_mem s x"
    using s1(5) by (simp add: vga_setpos_def)
  ultimately show ?thesis
    by blast
qed


lemma screen_text_cong:
  assumes "\<And>x. in_range x buf 4000 \<Longrightarrow> m x = m' x"
  shows "screen_text buf m = screen_text buf m'"
  unfolding screen_text_def
proof (rule map_cong [OF refl])
  fix i assume "i \<in> set [0..<2000]"
  then have i: "2 * i < 4000" "2 * i + 1 < 4000" "2 * i < 4294967296" "2 * i + 1 < 4294967296"
    by simp_all
  have "in_range (buf + of_nat (2 * i)) buf 4000" "in_range (buf + of_nat (2 * i + 1)) buf 4000"
    using i by (simp_all only: in_range_offset)
  then show "cell_at buf m i = cell_at buf m' i"
    unfolding cell_at_def using assms by metis
qed

lemma console_cong:
  "vga = sc_state s \<Longrightarrow> (\<And>x. in_range x (vga_buffer vga) 4000 \<Longrightarrow> m x = sc_mem s x) \<Longrightarrow>
    console \<lparr>sc_state = vga, sc_mem = m, sc_dev = d\<rparr> = console s"
  by (simp add: console_def screen_text_cong [of "vga_buffer (sc_state s)" m "sc_mem s"])

lemma strwrite_putchars:
  assumes "vga_ok (sc_state s)" and "cstr (sc_mem s) data cs" and "str_fits data cs" and "length cs < 2147483648"
    and "disjoint_ranges (vga_buffer (sc_state s)) 4000 data (length cs)" and "8 \<notin> set cs"
  shows "vga_strwrite io data s = vga_putchars io cs s"
proof -
  have "strlen (sc_mem s) data = of_nat (length cs)"
    using strlen_eq [OF assms(2,3)] .
  moreover have "sint (of_nat (length cs) :: u32) = int (length cs)"
    using sint_small [of "int (length cs)"] assms(4) by simp
  moreover have "bytes_at (sc_mem s) data (length cs) = cs"
    using assms(2) bytes_at_add [of "sc_mem s" data "length cs" 1] by (simp add: cstr_bytes_at)
  then have "vga_strwrite_loop io data (int (length cs)) (int 0) s = vga_putchars io (drop 0 cs) s"
    using assms by (intro strwrite_loop_ok) auto
  ultimately show ?thesis
    by (simp add: vga_strwrite_def)
qed


section \<open>Properties\<close>

definition sample_screen :: "unit screen" where
  "sample_screen = \<lparr>sc_state = vga_set_mode VGA_80x25_16_TEXT \<lparr>vga_mode = 0, vga_width = 0, vga_height = 0, vga_buffer = 0,
     vga_attri = 0, vga_cursor_enabled = False, vga_x = 0, vga_y = 0, vga_bytes = 0\<rparr>,
     sc_mem = (\<lambda>_. 0)(0x1000 := 72, 0x1001 := 105), sc_dev = ()\<rparr>"

definition silent_ports :: "unit ports" where
  "silent_ports = \<lparr>in8 = (\<lambda>p d. (0xFF, d)), out8 = (\<lambda>p v d. d), in16 = (\<lambda>p d. (0xFFFF, d)), out16 = (\<lambda>p v d. d),
     in32 = (\<lambda>p d. (0xFFFFFFFF, d)), out32 = (\<lambda>p v d. d)\<rparr>"

lemma sample_screen_ok: "vga_ok (sc_state sample_screen)" "vga_buffer (sc_state sample_screen) = 0xC00B8000"
  "cursor (sc_state sample_screen) = 0"
  by (simp_all add: sample_screen_def vga_ok_def vga_set_mode_def VGA_TM_VIDEO_MEMORY_def VMM_REAL_MODE_MEMORY_BASE_def cursor_def)

text \<open>
  C9: writing a character is one step of a console of 80 by 25 cells: it is put at the cursor, a line
  feed goes to the next line, a backspace to the cell before, and behind the last cell the lines scroll up; the cursor
  stays on the screen and no byte outside it changes.
\<close>
theorem vga_putchar_refines:
  assumes "vga_ok (sc_state s)" and "c = 8 \<longrightarrow> cursor (sc_state s) = 0 \<or> sc_mem s (vga_buffer (sc_state s) + 2) \<noteq> 0"
  shows "\<exists>s'. vga_putchar io c s = kret s' \<and> vga_ok (sc_state s') \<and> cursor (sc_state s') < 2000 \<and>
    console s' = console_put (vga_attri (sc_state s)) c (console s) \<and>
    (\<forall>x. \<not> in_range x (vga_buffer (sc_state s)) 4000 \<longrightarrow> sc_mem s' x = sc_mem s x)"
  using putchar_ok [OF assms(1), of c io] assms(2) vga_okD(5) unfolding backspace_ok_def by blast

theorem vga_putchar_refines_witness:
  "\<exists>s'. vga_putchar silent_ports 65 sample_screen = kret s' \<and> console s' = console_put 7 65 (console sample_screen)"
  using vga_putchar_refines [OF sample_screen_ok(1), of 65 silent_ports]
  by (auto simp: sample_screen_def vga_set_mode_def vga_get_attri_def)

text \<open>
  \<^verbatim>\<open>vga_clean_screen\<close> terminates with 2000 empty cells and the cursor in the corner, and
  \<^verbatim>\<open>vga_strwrite\<close> puts the characters of a string without backspaces on the screen one after another.
\<close>
theorem vga_strwrite_clean:
  assumes "vga_ok (sc_state s)" and "cstr (sc_mem s) data cs" and "str_fits data cs" and "length cs < 2147483648"
    and "disjoint_ranges (vga_buffer (sc_state s)) 4000 data (length cs)" and "8 \<notin> set cs"
  shows "(\<exists>s'. vga_clean_screen io s = kret s' \<and> vga_ok (sc_state s') \<and>
      console s' = (replicate 2000 (0, vga_attri (sc_state s)), 0)) \<and>
    (\<exists>s'. vga_strwrite io data s = kret s' \<and> vga_ok (sc_state s') \<and>
      console s' = fold (console_put (vga_attri (sc_state s))) cs (console s))"
  using strwrite_putchars [OF assms] putchars_ok [OF assms(1,6), of io] clean_screen_ok [OF assms(1), of io]
  unfolding console_puts_def by auto

theorem vga_strwrite_clean_witness:
  "\<exists>s'. vga_strwrite silent_ports 0x1000 sample_screen = kret s' \<and>
     console s' = console_put 7 105 (console_put 7 72 (console sample_screen))"
proof -
  have "cstr (sc_mem sample_screen) 0x1000 [72, 105]"
    by (simp add: sample_screen_def)
  moreover have "str_fits 0x1000 [72, 105 :: u8]"
    by (simp add: str_fits_def)
  moreover have "disjoint_ranges (vga_buffer (sc_state sample_screen)) 4000 0x1000 (length [72, 105 :: u8])"
    unfolding sample_screen_ok by (rule disjoint_ranges_sym, rule far_disjoint) simp_all
  ultimately show ?thesis
    using vga_strwrite_clean [OF sample_screen_ok(1), of "0x1000" "[72, 105]" silent_ports]
    by (auto simp: sample_screen_def vga_set_mode_def vga_get_attri_def)
qed

text \<open>
  C34: when the second cell of the screen is empty, a backspace anywhere but in the corner never
  returns, for instance the one that follows the first character on a cleared screen.
\<close>
theorem vga_backspace_hangs:
  assumes "vga_ok (sc_state s)" and "0 < cursor (sc_state s)" and "sc_mem s (vga_buffer (sc_state s) + 2) = 0"
  shows "vga_putchar io 8 s = None"
proof -
  note d = vga_okD [OF assms(1)]
  have "vga_backspace (sc_state s) (sc_mem s) (vga_get_offset (sc_state s)) = None"
    using assms(3) by (intro backspace_diverges) (simp add: d(4))
  then have "vga_place (sc_state s) (sc_mem s) 8 = None"
    using assms(2) by (simp add: vga_place_def Let_def d(6) ASCII_CTRL_BS_def)
  then show ?thesis
    by (simp add: vga_putchar_def d(1))
qed

theorem vga_backspace_hangs_witness:
  "vga_putchar silent_ports 8 (sample_screen\<lparr>sc_state := (sc_state sample_screen)\<lparr>vga_x := 1\<rparr>\<rparr>) = None"
  using vga_backspace_hangs [of "sample_screen\<lparr>sc_state := (sc_state sample_screen)\<lparr>vga_x := 1\<rparr>\<rparr>" silent_ports] sample_screen_ok
  by (simp add: vga_ok_def cursor_def sample_screen_def)

end
