(* ===== verification/Ata.thy ===== *)
theory Ata
  imports Keyboard Message
begin

text \<open>
  \<^verbatim>\<open>kernel/src/drivers/storage/ata.c\<close>: the driver of the ATA drives, with programmed input and output and 28-bit
  sector addresses.  The drives are behind the ports; the four entries of \<^verbatim>\<open>ata_devices\<close> are passed as a list.
\<close>

unbundle bit_operations_syntax

section \<open>Registers and drives\<close>

definition ATA_PRIMARY_IO_BASE :: u16 where "ATA_PRIMARY_IO_BASE = 0x1F0"
definition ATA_SECONDARY_IO_BASE :: u16 where "ATA_SECONDARY_IO_BASE = 0x170"
definition ATA_DRIVE_MASTER :: u8 where "ATA_DRIVE_MASTER = 0xA0"
definition ATA_DRIVE_SLAVE :: u8 where "ATA_DRIVE_SLAVE = 0xB0"
definition ATA_READWRITE_MASTER :: u8 where "ATA_READWRITE_MASTER = 0xE0"
definition ATA_READWRITE_SLAVE :: u8 where "ATA_READWRITE_SLAVE = 0xF0"
definition ATA_DATA_REGISTER_OFFSET :: u16 where "ATA_DATA_REGISTER_OFFSET = 0"
definition ATA_SECTOR_COUNT_REGISTER_OFFSET :: u16 where "ATA_SECTOR_COUNT_REGISTER_OFFSET = 2"
definition ATA_LBA_LOW_REGISTER_OFFSET :: u16 where "ATA_LBA_LOW_REGISTER_OFFSET = 3"
definition ATA_LBA_MID_REGISTER_OFFSET :: u16 where "ATA_LBA_MID_REGISTER_OFFSET = 4"
definition ATA_LBA_HIGH_REGISTER_OFFSET :: u16 where "ATA_LBA_HIGH_REGISTER_OFFSET = 5"
definition ATA_DRIVE_REGISTER_OFFSET :: u16 where "ATA_DRIVE_REGISTER_OFFSET = 6"
definition ATA_STATUS_REGISTER_OFFSET :: u16 where "ATA_STATUS_REGISTER_OFFSET = 7"
definition ATA_COMMAND_REGISTER_OFFSET :: u16 where "ATA_COMMAND_REGISTER_OFFSET = 7"
definition ATA_STATUS_ERR :: u8 where "ATA_STATUS_ERR = 0x01"
definition ATA_STATUS_DRQ :: u8 where "ATA_STATUS_DRQ = 0x08"
definition ATA_STATUS_BSY :: u8 where "ATA_STATUS_BSY = 0x80"
definition ATA_COMMAND_READ_SECTORS :: u8 where "ATA_COMMAND_READ_SECTORS = 0x20"
definition ATA_COMMAND_WRITE_SECTORS :: u8 where "ATA_COMMAND_WRITE_SECTORS = 0x30"
definition ATA_COMMAND_IDENTIFY :: u8 where "ATA_COMMAND_IDENTIFY = 0xEC"
definition ATA_SECTOR_SIZE :: u32 where "ATA_SECTOR_SIZE = 512"

lemmas ata_regs = ATA_PRIMARY_IO_BASE_def ATA_SECONDARY_IO_BASE_def ATA_DATA_REGISTER_OFFSET_def
  ATA_SECTOR_COUNT_REGISTER_OFFSET_def ATA_LBA_LOW_REGISTER_OFFSET_def ATA_LBA_MID_REGISTER_OFFSET_def
  ATA_LBA_HIGH_REGISTER_OFFSET_def ATA_DRIVE_REGISTER_OFFSET_def ATA_STATUS_REGISTER_OFFSET_def
  ATA_COMMAND_REGISTER_OFFSET_def

datatype ata_drive =
  ATA_PRIMARY_MASTER_DRIVE | ATA_PRIMARY_SLAVE_DRIVE | ATA_SECONDARY_MASTER_DRIVE | ATA_SECONDARY_SLAVE_DRIVE

primrec ata_drive_index :: "ata_drive \<Rightarrow> nat" where
  "ata_drive_index ATA_PRIMARY_MASTER_DRIVE = 0"
| "ata_drive_index ATA_PRIMARY_SLAVE_DRIVE = 1"
| "ata_drive_index ATA_SECONDARY_MASTER_DRIVE = 2"
| "ata_drive_index ATA_SECONDARY_SLAVE_DRIVE = 3"

record ata_device =
  ad_drive :: ata_drive
  ad_present :: bool
  ad_lba_supported :: bool
  ad_lba48_supported :: bool
  ad_size :: u32

definition ata_get_io_base :: "ata_device \<Rightarrow> u16" where
  "ata_get_io_base device =
     (if ad_drive device = ATA_PRIMARY_MASTER_DRIVE \<or> ad_drive device = ATA_PRIMARY_SLAVE_DRIVE
      then ATA_PRIMARY_IO_BASE else ATA_SECONDARY_IO_BASE)"

definition ata_is_master :: "ata_device \<Rightarrow> bool" where
  "ata_is_master device \<longleftrightarrow> ad_drive device = ATA_PRIMARY_MASTER_DRIVE \<or> ad_drive device = ATA_SECONDARY_MASTER_DRIVE"


section \<open>Waiting\<close>

text \<open>The two loops that poll the status register; a drive that stays busy keeps them going for ever.\<close>

partial_function (option) ata_wait_busy :: "'d ports \<Rightarrow> u16 \<Rightarrow> 'd \<Rightarrow> 'd kres" where
  "ata_wait_busy io io_status d =
     (if fst (port_byte_in io io_status d) AND ATA_STATUS_BSY \<noteq> 0
      then ata_wait_busy io io_status (snd (port_byte_in io io_status d))
      else kret (snd (port_byte_in io io_status d)))"

partial_function (option) ata_wait_data :: "'d ports \<Rightarrow> u16 \<Rightarrow> u8 \<Rightarrow> u8 \<Rightarrow> 'd \<Rightarrow> 'd kres" where
  "ata_wait_data io io_status drq err d =
     (if drq = 0 \<and> err = 0 then
        ata_wait_data io io_status (fst (port_byte_in io io_status d) AND ATA_STATUS_DRQ)
          (fst (port_byte_in io io_status (snd (port_byte_in io io_status d))) AND ATA_STATUS_ERR)
          (snd (port_byte_in io io_status (snd (port_byte_in io io_status d))))
      else kret d)"

declare ata_wait_busy.simps [code] ata_wait_data.simps [code]


section \<open>Sectors\<close>

text \<open>Accesses through a \<^verbatim>\<open>uint16_t *\<close>, little endian.\<close>

definition load16 :: "mem \<Rightarrow> u32 \<Rightarrow> u16" where
  "load16 m a = word_rcat [m (a + 1), m a]"

definition store16 :: "mem \<Rightarrow> u32 \<Rightarrow> u16 \<Rightarrow> mem" where
  "store16 m a v = m(a := ucast v, a + 1 := ucast (drop_bit 8 v))"

text \<open>What \<^verbatim>\<open>ata_write_sector_lba28\<close> and \<^verbatim>\<open>ata_read_sector_lba28\<close> have in common: drive, sector count, address, command.\<close>

definition ata_lba28_command :: "'d ports \<Rightarrow> ata_device \<Rightarrow> u32 \<Rightarrow> u8 \<Rightarrow> 'd \<Rightarrow> 'd" where
  "ata_lba28_command io device lba command d =
     (let io_base = ata_get_io_base device;
          is_master = ata_is_master device;
          d1 = port_byte_out io (io_base + ATA_DRIVE_REGISTER_OFFSET)
            ((if is_master then ATA_READWRITE_MASTER else ATA_READWRITE_SLAVE) OR ucast (drop_bit 24 lba AND 0x0F)) d;
          d2 = port_byte_out io (io_base + ATA_SECTOR_COUNT_REGISTER_OFFSET) 0x01 d1;
          d3 = port_byte_out io (io_base + ATA_LBA_LOW_REGISTER_OFFSET) (ucast (lba AND 0x000000FF)) d2;
          d4 = port_byte_out io (io_base + ATA_LBA_MID_REGISTER_OFFSET) (ucast (drop_bit 8 (lba AND 0x0000FF00))) d3;
          d5 = port_byte_out io (io_base + ATA_LBA_HIGH_REGISTER_OFFSET) (ucast (drop_bit 16 (lba AND 0x00FF0000))) d4
      in port_byte_out io (io_base + ATA_COMMAND_REGISTER_OFFSET) command d5)"

definition ata_write_sector_lba28 :: "'d ports \<Rightarrow> ata_device \<Rightarrow> u32 \<Rightarrow> u32 \<Rightarrow> mem \<Rightarrow> 'd \<Rightarrow> 'd kres" where
  "ata_write_sector_lba28 io device lba buf m d =
     (let io_base = ata_get_io_base device
      in kbind (ata_wait_busy io (io_base + ATA_STATUS_REGISTER_OFFSET)
            (ata_lba28_command io device lba ATA_COMMAND_WRITE_SECTORS d)) (\<lambda>d1.
         kret (fold (\<lambda>i d. port_word_out io (io_base + ATA_DATA_REGISTER_OFFSET) (load16 m (buf + 2 * of_nat i)) d) [0..<256] d1)))"

definition ata_read_sector_lba28 :: "'d ports \<Rightarrow> ata_device \<Rightarrow> u32 \<Rightarrow> u32 \<Rightarrow> mem \<Rightarrow> 'd \<Rightarrow> (mem \<times> 'd) kres" where
  "ata_read_sector_lba28 io device lba buf m d =
     (let io_base = ata_get_io_base device
      in kbind (ata_wait_busy io (io_base + ATA_STATUS_REGISTER_OFFSET)
            (ata_lba28_command io device lba ATA_COMMAND_READ_SECTORS d)) (\<lambda>d1.
         kret (fold (\<lambda>i (m, d). let (v, d') = port_word_in io (io_base + ATA_DATA_REGISTER_OFFSET) d
            in (store16 m (buf + 2 * of_nat i) v, d')) [0..<256] (m, d1))))"


section \<open>Byte ranges\<close>

text \<open>The part of sector \<open>idx\<close> that lies in the range: its offset in the sector and its length.\<close>

definition ata_offset :: "u32 \<Rightarrow> u32 \<Rightarrow> u32 \<Rightarrow> u32" where
  "ata_offset start_sector start_sector_offset idx = (if idx = start_sector then 0 + start_sector_offset else 0)"

definition ata_length :: "u32 \<Rightarrow> u32 \<Rightarrow> u32 \<Rightarrow> u32 \<Rightarrow> u32 \<Rightarrow> u32" where
  "ata_length start_sector start_sector_offset end_sector end_sector_offset idx =
     (let size = (if idx = start_sector then ATA_SECTOR_SIZE - start_sector_offset else ATA_SECTOR_SIZE)
      in if idx = end_sector then end_sector_offset - ata_offset start_sector start_sector_offset idx + 1 else size)"

partial_function (option) ata_write_loop ::
  "'d ports \<Rightarrow> ata_device \<Rightarrow> u32 \<Rightarrow> u32 \<Rightarrow> u32 \<Rightarrow> u32 \<Rightarrow> u32 \<Rightarrow> u32 \<Rightarrow> u32 \<Rightarrow> u32 \<Rightarrow> mem \<Rightarrow> 'd \<Rightarrow> (u32 \<times> mem \<times> 'd) kres" where
  "ata_write_loop io device start soff ende eoff sector_buf idx data_ptr total_size m d =
     (if idx \<le> ende then
        kbind (ata_read_sector_lba28 io device idx sector_buf m d) (\<lambda>r.
        kbind (ata_write_sector_lba28 io device idx sector_buf
          (memcpy (fst r) (sector_buf + ata_offset start soff idx) data_ptr (ata_length start soff ende eoff idx)) (snd r)) (\<lambda>d2.
        ata_write_loop io device start soff ende eoff sector_buf (idx + 1)
          (data_ptr + ata_length start soff ende eoff idx) (total_size + ata_length start soff ende eoff idx)
          (memcpy (fst r) (sector_buf + ata_offset start soff idx) data_ptr (ata_length start soff ende eoff idx)) d2))
      else kret (total_size, m, d))"

partial_function (option) ata_read_loop ::
  "'d ports \<Rightarrow> ata_device \<Rightarrow> u32 \<Rightarrow> u32 \<Rightarrow> u32 \<Rightarrow> u32 \<Rightarrow> u32 \<Rightarrow> u32 \<Rightarrow> u32 \<Rightarrow> u32 \<Rightarrow> mem \<Rightarrow> 'd \<Rightarrow> (u32 \<times> mem \<times> 'd) kres" where
  "ata_read_loop io device start soff ende eoff sector_buf idx data_ptr total_size m d =
     (if idx \<le> ende then
        kbind (ata_read_sector_lba28 io device idx sector_buf m d) (\<lambda>r.
        ata_read_loop io device start soff ende eoff sector_buf (idx + 1)
          (data_ptr + ata_length start soff ende eoff idx) (total_size + ata_length start soff ende eoff idx)
          (memcpy (fst r) data_ptr (sector_buf + ata_offset start soff idx) (ata_length start soff ende eoff idx)) (snd r))
      else kret (total_size, m, d))"

declare ata_write_loop.simps [code] ata_read_loop.simps [code]

definition ata_write :: "'d ports \<Rightarrow> ata_device \<Rightarrow> u32 \<Rightarrow> u32 \<Rightarrow> u32 \<Rightarrow> kheap \<Rightarrow> 'd \<Rightarrow> (u32 \<times> kheap \<times> 'd) kres" where
  "ata_write io device address buf n h d =
     (if ad_size device < address + n then kret (0, h, d)
      else if \<not> ad_present device then kret (0, h, d)
      else if \<not> ad_lba_supported device then kret (0, h, d)
      else
        let start_sector = address div ATA_SECTOR_SIZE;
            start_sector_offset = address mod ATA_SECTOR_SIZE;
            end_sector = (address + n - 1) div ATA_SECTOR_SIZE;
            end_sector_offset = (address + n - 1) mod ATA_SECTOR_SIZE
        in kbind (kmalloc h ATA_SECTOR_SIZE) (\<lambda>(sector_buf, h1).
           if sector_buf = 0 then out_of_memory else
           kbind (ata_write_loop io device start_sector start_sector_offset end_sector end_sector_offset sector_buf
             start_sector buf 0 (mem h1) d) (\<lambda>(total_size, m, d1). kret (total_size, h1\<lparr>mem := m\<rparr>, d1))))"

definition ata_read :: "'d ports \<Rightarrow> ata_device \<Rightarrow> u32 \<Rightarrow> u32 \<Rightarrow> u32 \<Rightarrow> kheap \<Rightarrow> 'd \<Rightarrow> (u32 \<times> kheap \<times> 'd) kres" where
  "ata_read io device address buf n h d =
     (if ad_size device < address + n then kret (0, h, d)
      else if \<not> ad_present device then kret (0, h, d)
      else if \<not> ad_lba_supported device then kret (0, h, d)
      else
        let start_sector = address div ATA_SECTOR_SIZE;
            start_sector_offset = address mod ATA_SECTOR_SIZE;
            end_sector = (address + n - 1) div ATA_SECTOR_SIZE;
            end_sector_offset = (address + n - 1) mod ATA_SECTOR_SIZE
        in kbind (kmalloc h ATA_SECTOR_SIZE) (\<lambda>(sector_buf, h1).
           if sector_buf = 0 then out_of_memory else
           kbind (ata_read_loop io device start_sector start_sector_offset end_sector end_sector_offset sector_buf
             start_sector buf 0 (mem h1) d) (\<lambda>(total_size, m, d1). kret (total_size, h1\<lparr>mem := m\<rparr>, d1))))"


section \<open>The functions of the four drivers\<close>

definition ata_sector_size :: u32 where
  "ata_sector_size = ATA_SECTOR_SIZE"

definition ata_total_size_primary_master :: "ata_device list \<Rightarrow> u32" where
  "ata_total_size_primary_master devs = ad_size (devs ! ata_drive_index ATA_PRIMARY_MASTER_DRIVE)"

definition ata_write_primary_master :: "'d ports \<Rightarrow> ata_device list \<Rightarrow> u32 \<Rightarrow> u32 \<Rightarrow> u32 \<Rightarrow> kheap \<Rightarrow> 'd \<Rightarrow> (u32 \<times> kheap \<times> 'd) kres" where
  "ata_write_primary_master io devs address buf n h d = ata_write io (devs ! ata_drive_index ATA_PRIMARY_MASTER_DRIVE) address buf n h d"

definition ata_read_primary_master :: "'d ports \<Rightarrow> ata_device list \<Rightarrow> u32 \<Rightarrow> u32 \<Rightarrow> u32 \<Rightarrow> kheap \<Rightarrow> 'd \<Rightarrow> (u32 \<times> kheap \<times> 'd) kres" where
  "ata_read_primary_master io devs address buf n h d = ata_read io (devs ! ata_drive_index ATA_PRIMARY_MASTER_DRIVE) address buf n h d"

definition ata_total_size_primary_slave :: "ata_device list \<Rightarrow> u32" where
  "ata_total_size_primary_slave devs = ad_size (devs ! ata_drive_index ATA_PRIMARY_SLAVE_DRIVE)"

definition ata_write_primary_slave :: "'d ports \<Rightarrow> ata_device list \<Rightarrow> u32 \<Rightarrow> u32 \<Rightarrow> u32 \<Rightarrow> kheap \<Rightarrow> 'd \<Rightarrow> (u32 \<times> kheap \<times> 'd) kres" where
  "ata_write_primary_slave io devs address buf n h d = ata_write io (devs ! ata_drive_index ATA_PRIMARY_SLAVE_DRIVE) address buf n h d"

definition ata_read_primary_slave :: "'d ports \<Rightarrow> ata_device list \<Rightarrow> u32 \<Rightarrow> u32 \<Rightarrow> u32 \<Rightarrow> kheap \<Rightarrow> 'd \<Rightarrow> (u32 \<times> kheap \<times> 'd) kres" where
  "ata_read_primary_slave io devs address buf n h d = ata_read io (devs ! ata_drive_index ATA_PRIMARY_SLAVE_DRIVE) address buf n h d"

definition ata_total_size_secondary_master :: "ata_device list \<Rightarrow> u32" where
  "ata_total_size_secondary_master devs = ad_size (devs ! ata_drive_index ATA_SECONDARY_MASTER_DRIVE)"

definition ata_write_secondary_master :: "'d ports \<Rightarrow> ata_device list \<Rightarrow> u32 \<Rightarrow> u32 \<Rightarrow> u32 \<Rightarrow> kheap \<Rightarrow> 'd \<Rightarrow> (u32 \<times> kheap \<times> 'd) kres" where
  "ata_write_secondary_master io devs address buf n h d = ata_write io (devs ! ata_drive_index ATA_SECONDARY_MASTER_DRIVE) address buf n h d"

definition ata_read_secondary_master :: "'d ports \<Rightarrow> ata_device list \<Rightarrow> u32 \<Rightarrow> u32 \<Rightarrow> u32 \<Rightarrow> kheap \<Rightarrow> 'd \<Rightarrow> (u32 \<times> kheap \<times> 'd) kres" where
  "ata_read_secondary_master io devs address buf n h d = ata_read io (devs ! ata_drive_index ATA_SECONDARY_MASTER_DRIVE) address buf n h d"

definition ata_total_size_secondary_slave :: "ata_device list \<Rightarrow> u32" where
  "ata_total_size_secondary_slave devs = ad_size (devs ! ata_drive_index ATA_SECONDARY_SLAVE_DRIVE)"

definition ata_write_secondary_slave :: "'d ports \<Rightarrow> ata_device list \<Rightarrow> u32 \<Rightarrow> u32 \<Rightarrow> u32 \<Rightarrow> kheap \<Rightarrow> 'd \<Rightarrow> (u32 \<times> kheap \<times> 'd) kres" where
  "ata_write_secondary_slave io devs address buf n h d = ata_write io (devs ! ata_drive_index ATA_SECONDARY_SLAVE_DRIVE) address buf n h d"

definition ata_read_secondary_slave :: "'d ports \<Rightarrow> ata_device list \<Rightarrow> u32 \<Rightarrow> u32 \<Rightarrow> u32 \<Rightarrow> kheap \<Rightarrow> 'd \<Rightarrow> (u32 \<times> kheap \<times> 'd) kres" where
  "ata_read_secondary_slave io devs address buf n h d = ata_read io (devs ! ata_drive_index ATA_SECONDARY_SLAVE_DRIVE) address buf n h d"


section \<open>Probing\<close>

primrec ata_in_words :: "'d ports \<Rightarrow> u16 \<Rightarrow> nat \<Rightarrow> 'd \<Rightarrow> u16 list \<times> 'd" where
  "ata_in_words io io_data 0 d = ([], d)"
| "ata_in_words io io_data (Suc n) d =
     (let (v, d1) = port_word_in io io_data d; (vs, d2) = ata_in_words io io_data n d1 in (v # vs, d2))"

text \<open>The products are of type \<^verbatim>\<open>int\<close> and wrap like the 32-bit words here.\<close>

definition ata_identified :: "u16 list \<Rightarrow> ata_device \<Rightarrow> ata_device" where
  "ata_identified identify_data device =
     (let device1 = (if identify_data ! 49 AND push_bit 9 1 \<noteq> 0 then device\<lparr>ad_lba_supported := True\<rparr> else device);
          device2 = (if identify_data ! 83 AND push_bit 10 1 \<noteq> 0 then device1\<lparr>ad_lba48_supported := True\<rparr> else device1);
          device3 = (if ad_lba_supported device2
            then device2\<lparr>ad_size := (ucast (identify_data ! 60) OR push_bit 16 (ucast (identify_data ! 61))) * ATA_SECTOR_SIZE\<rparr>
            else device2\<lparr>ad_size := (ucast (identify_data ! 1) * ucast (identify_data ! 3) * ucast (identify_data ! 6)) * ATA_SECTOR_SIZE\<rparr>)
      in device3\<lparr>ad_present := True\<rparr>)"

definition ata_device_probe :: "'d ports \<Rightarrow> ata_device \<Rightarrow> 'd \<Rightarrow> (bool \<times> ata_device \<times> 'd) kres" where
  "ata_device_probe io device d =
     (let io_base = ata_get_io_base device;
          is_master = ata_is_master device;
          io_status = io_base + ATA_STATUS_REGISTER_OFFSET;
          d1 = port_byte_out io (io_base + ATA_DRIVE_REGISTER_OFFSET) (if is_master then ATA_DRIVE_MASTER else ATA_DRIVE_SLAVE) d;
          d2 = ((\<lambda>d. snd (port_byte_in io io_status d)) ^^ 4) d1;
          d3 = port_byte_out io (io_base + ATA_SECTOR_COUNT_REGISTER_OFFSET) 0x00 d2;
          d4 = port_byte_out io (io_base + ATA_LBA_LOW_REGISTER_OFFSET) 0x00 d3;
          d5 = port_byte_out io (io_base + ATA_LBA_MID_REGISTER_OFFSET) 0x00 d4;
          d6 = port_byte_out io (io_base + ATA_LBA_HIGH_REGISTER_OFFSET) 0x00 d5;
          d7 = port_byte_out io (io_base + ATA_COMMAND_REGISTER_OFFSET) ATA_COMMAND_IDENTIFY d6;
          (status, d8) = port_byte_in io io_status d7
      in if status = 0x00 then kret (False, device, d8) else
         kbind (ata_wait_busy io io_status d8) (\<lambda>d9.
         let (mid, d10) = port_byte_in io (io_base + ATA_LBA_MID_REGISTER_OFFSET) d9 in
         if mid \<noteq> 0x00 then kret (False, device, d10) else
         let (high, d11) = port_byte_in io (io_base + ATA_LBA_HIGH_REGISTER_OFFSET) d10 in
         if high \<noteq> 0x00 then kret (False, device, d11) else
         kbind (ata_wait_data io io_status 0 0 d11) (\<lambda>d12.
         let (identify_data, d13) = ata_in_words io (io_base + ATA_DATA_REGISTER_OFFSET) 256 d12
         in kret (True, ata_identified identify_data device, d13))))"


section \<open>Initialisation\<close>

text \<open>
  What the drivers and the log share: the registry with the heap and its memory, the ring of the log, the addresses of
  the local variables of \<^verbatim>\<open>ata_init_device\<close> and \<^verbatim>\<open>kmessage\<close> and of the arguments on the stack, and the literals.
\<close>

definition STORAGE_DRIVER_SIZE :: u32 where
  "STORAGE_DRIVER_SIZE = 16"

record ata_init_state =
  ai_devices :: "ata_device list"
  ai_registry :: registry
  ai_log :: circular_buffer

record ata_init_frame =
  af_literal :: "string \<Rightarrow> u32"
  af_message :: u32
  af_args :: u32
  af_log :: u32

text \<open>A call through \<^verbatim>\<open>driver_total_size\<close>.\<close>

fun ata_call_total_size :: "ata_device list \<Rightarrow> driver_fn \<Rightarrow> u32 kres" where
  "ata_call_total_size devs (Ata_total_size i) =
     (if i = 0 then kret (ata_total_size_primary_master devs)
      else if i = 1 then kret (ata_total_size_primary_slave devs)
      else if i = 2 then kret (ata_total_size_secondary_master devs)
      else kret (ata_total_size_secondary_slave devs))"
| "ata_call_total_size devs _ = kfault"

definition ata_init_device ::
  "'d ports \<Rightarrow> (mem \<Rightarrow> u32 \<Rightarrow> u32 \<Rightarrow> u32 \<Rightarrow> mem \<times> u32) \<Rightarrow> ata_init_frame \<Rightarrow> nat \<Rightarrow> string \<Rightarrow>
   driver_fn \<Rightarrow> driver_fn \<Rightarrow> driver_fn \<Rightarrow> driver_fn \<Rightarrow> ata_init_state \<Rightarrow> 'd \<Rightarrow> (ata_init_state \<times> 'd) kres" where
  "ata_init_device io ftoa f device_idx name driver_sector_size driver_total_size driver_read driver_write s d =
     kbind (ata_device_probe io (ai_devices s ! device_idx) d) (\<lambda>(present, dev, d1).
     let s1 = s\<lparr>ai_devices := (ai_devices s)[device_idx := dev]\<rparr> in
     if \<not> present then kret (s1, d1) else
     kbind (driver_device (af_literal f name) (strlen (mem (reg_heap (ai_registry s1))) (af_literal f name) + 1)
       DEVICE_TYPE_STORAGE (ai_registry s1)) (\<lambda>(device, r1).
     kbind (kmalloc (reg_heap r1) STORAGE_DRIVER_SIZE) (\<lambda>(driver, h).
     if driver = 0 then out_of_memory else
     let r2 = r1\<lparr>reg_heap := h, driver_ptr := (driver_ptr r1)(device \<mapsto> driver),
       storage_drivers := (storage_drivers r1)(driver \<mapsto> \<lparr>sd_sector_size = driver_sector_size,
         sd_total_size = driver_total_size, sd_read = driver_read, sd_write = driver_write\<rparr>)\<rparr> in
     kbind (device_register r2 device) (\<lambda>(_, r3).
     kbind (ata_call_total_size (ai_devices s1) driver_total_size) (\<lambda>total.
     let m = store32 (store32 (mem (reg_heap r3)) (af_args f) (of_nat device_idx)) (af_args f + 4) (total div 1024 div 1024) in
     case sprintf ftoa m (af_message f) (af_literal f ''ata: Found device at %d (%d MB)'') (af_args f) of None \<Rightarrow> None
     | Some (_, m1) \<Rightarrow>
         kbind (kmessage (ai_log s1) m1 (af_log f) KMESSAGE_LEVEL_INFO (af_message f)) (\<lambda>(ring, m2).
         kret (s1\<lparr>ai_registry := r3\<lparr>reg_heap := (reg_heap r3)\<lparr>mem := m2\<rparr>\<rparr>, ai_log := ring\<rparr>, d1)))))))"

definition ata_initial_devices :: "ata_device list" where
  "ata_initial_devices = map (\<lambda>drive. \<lparr>ad_drive = drive, ad_present = False, ad_lba_supported = False,
     ad_lba48_supported = False, ad_size = 0\<rparr>)
     [ATA_PRIMARY_MASTER_DRIVE, ATA_PRIMARY_SLAVE_DRIVE, ATA_SECONDARY_MASTER_DRIVE, ATA_SECONDARY_SLAVE_DRIVE]"

definition ata_init ::
  "'d ports \<Rightarrow> (mem \<Rightarrow> u32 \<Rightarrow> u32 \<Rightarrow> u32 \<Rightarrow> mem \<times> u32) \<Rightarrow> ata_init_frame \<Rightarrow> ata_init_state \<Rightarrow> 'd \<Rightarrow>
   (int \<times> ata_init_state \<times> 'd) kres" where
  "ata_init io ftoa f s d =
     (let s0 = s\<lparr>ai_devices := ata_initial_devices\<rparr>;
          dev = (\<lambda>i name (s, d). ata_init_device io ftoa f i name Ata_sector_size (Ata_total_size i) (Ata_read_drive i) (Ata_write_drive i) s d)
      in kbind (dev 0 ''ATA Primary Master Drive'' (s0, d)) (\<lambda>x1.
         kbind (dev 1 ''ATA Primary Slave Drive'' x1) (\<lambda>x2.
         kbind (dev 2 ''ATA Secondary Master Drive'' x2) (\<lambda>x3.
         kbind (dev 3 ''ATA Secondary Slave Drive'' x3) (\<lambda>(s4, d4). kret (0, s4, d4))))))"

end
