(* ===== verification/Pci.thy ===== *)
theory Pci
  imports Ata
begin

text \<open>
  \<^verbatim>\<open>kernel/src/drivers/pci/pci.c\<close> and \<^verbatim>\<open>kernel/src/drivers/storage/sata.c\<close>: the configuration space behind two ports, the
  base address registers, the enumeration of all functions at boot, and the search for a SATA controller.
\<close>

unbundle bit_operations_syntax

section \<open>Registers\<close>

definition PCI_MAX_NUM_BUSES :: nat where "PCI_MAX_NUM_BUSES = 256"
definition PCI_DEVICES_PER_BUS :: nat where "PCI_DEVICES_PER_BUS = 32"
definition PCI_FUNCTIONS_PER_DEVICE :: nat where "PCI_FUNCTIONS_PER_DEVICE = 8"
definition PCI_CONFIG_ADDRESS :: u16 where "PCI_CONFIG_ADDRESS = 0xCF8"
definition PCI_CONFIG_DATA :: u16 where "PCI_CONFIG_DATA = 0xCFC"
definition PCI_CONFIG_ENABLE_BIT :: u32 where "PCI_CONFIG_ENABLE_BIT = 0x80000000"
definition PCI_CONFIG_BUS_MASK :: u32 where "PCI_CONFIG_BUS_MASK = 0xFF"
definition PCI_CONFIG_SLOT_MASK :: u32 where "PCI_CONFIG_SLOT_MASK = 0x1F"
definition PCI_CONFIG_FUNC_MASK :: u32 where "PCI_CONFIG_FUNC_MASK = 0x07"
definition PCI_CONFIG_OFFSET_MASK :: u32 where "PCI_CONFIG_OFFSET_MASK = 0xFC"
definition PCI_CONFIG_INVALID_VENDOR :: u16 where "PCI_CONFIG_INVALID_VENDOR = 0xFFFF"
definition PCI_VENDOR_ID :: u8 where "PCI_VENDOR_ID = 0x00"
definition PCI_DEVICE_ID :: u8 where "PCI_DEVICE_ID = 0x02"
definition PCI_PROG_IF :: u8 where "PCI_PROG_IF = 0x09"
definition PCI_SUBCLASS :: u8 where "PCI_SUBCLASS = 0x0A"
definition PCI_CLASS_CODE :: u8 where "PCI_CLASS_CODE = 0x0B"
definition PCI_HEADER_TYPE :: u8 where "PCI_HEADER_TYPE = 0x0E"
definition PCI_BAR_IO_SPACE :: u32 where "PCI_BAR_IO_SPACE = 0x01"
definition PCI_BAR_MEMORY_SPACE :: u32 where "PCI_BAR_MEMORY_SPACE = 0x00"
definition PCI_BAR_MEMORY_32BIT :: u8 where "PCI_BAR_MEMORY_32BIT = 0x00"
definition PIC_HEADER_TYPE_MULTIFUNCTION :: u8 where "PIC_HEADER_TYPE_MULTIFUNCTION = 0x80"
definition PCI_HEADER_TYPE_0 :: u8 where "PCI_HEADER_TYPE_0 = 0x00"
definition PCI_HEADER_TYPE_1 :: u8 where "PCI_HEADER_TYPE_1 = 0x01"
definition PCI_H0_BAR0 :: u8 where "PCI_H0_BAR0 = 0x10"
definition PCI_H0_BAR1 :: u8 where "PCI_H0_BAR1 = 0x14"
definition PCI_H0_BAR2 :: u8 where "PCI_H0_BAR2 = 0x18"
definition PCI_H0_BAR3 :: u8 where "PCI_H0_BAR3 = 0x1C"
definition PCI_H0_BAR4 :: u8 where "PCI_H0_BAR4 = 0x20"
definition PCI_H0_BAR5 :: u8 where "PCI_H0_BAR5 = 0x24"
definition PCI_CLASS_MASS_STORAGE_CONTROLLER :: u8 where "PCI_CLASS_MASS_STORAGE_CONTROLLER = 0x01"
definition PCI_SUBCLASS_SATA_CONTROLLER :: u8 where "PCI_SUBCLASS_SATA_CONTROLLER = 0x06"

lemmas pci_masks = PCI_CONFIG_ENABLE_BIT_def PCI_CONFIG_BUS_MASK_def PCI_CONFIG_SLOT_MASK_def PCI_CONFIG_FUNC_MASK_def
  PCI_CONFIG_OFFSET_MASK_def

text \<open>The union of \<^verbatim>\<open>base_address\<close> and \<^verbatim>\<open>io_port\<close> is its four bytes; writing \<^verbatim>\<open>io_port\<close> changes the lower two.\<close>

record pci_bar =
  bar_type :: u8
  bar_address :: u32
  bar_size :: u32
  bar_flags :: u8

record pci_general_device_info =
  gi_bar :: "pci_bar list"
  gi_interrupt_line :: u8

record pci_device =
  pci_bus :: u8
  pci_slot :: u8
  pci_function :: u8
  pci_vendor_id :: u16
  pci_device_id :: u16
  pci_classcode :: u8
  pci_subclass :: u8
  pci_prog_if :: u8
  pci_header_type :: u8
  pci_data :: pci_general_device_info

definition PCI_DEVICE_SIZE :: u32 where
  "PCI_DEVICE_SIZE = 111"


section \<open>The configuration space\<close>

definition pci_config_get_address :: "u8 \<Rightarrow> u8 \<Rightarrow> u8 \<Rightarrow> u8 \<Rightarrow> u32" where
  "pci_config_get_address bus slt func offset =
     (let lbus = push_bit 16 (ucast bus AND PCI_CONFIG_BUS_MASK);
          lslot = push_bit 11 (ucast slt AND PCI_CONFIG_SLOT_MASK);
          lfunc = push_bit 8 (ucast func AND PCI_CONFIG_FUNC_MASK);
          loffset = ucast offset AND PCI_CONFIG_OFFSET_MASK
      in PCI_CONFIG_ENABLE_BIT OR lbus OR lslot OR lfunc OR loffset)"

definition pci_config_make_byte :: "u32 \<Rightarrow> u8 \<Rightarrow> u8" where
  "pci_config_make_byte data offset = ucast (drop_bit (unat (offset AND 3) * 8) data AND 0xFF)"

definition pci_config_make_word :: "u32 \<Rightarrow> u8 \<Rightarrow> u16" where
  "pci_config_make_word data offset = ucast (drop_bit (unat (offset AND 2) * 8) data AND 0xFFFF)"

definition pci_config_make_long :: "u32 \<Rightarrow> u8 \<Rightarrow> u32" where
  "pci_config_make_long data offset = data"

definition pci_config_read_byte :: "'d ports \<Rightarrow> u8 \<Rightarrow> u8 \<Rightarrow> u8 \<Rightarrow> u8 \<Rightarrow> 'd \<Rightarrow> u8 \<times> 'd" where
  "pci_config_read_byte io bus slt func offset d =
     (let d1 = port_long_out io PCI_CONFIG_ADDRESS (pci_config_get_address bus slt func offset) d;
          (data, d2) = port_long_in io PCI_CONFIG_DATA d1
      in (pci_config_make_byte data offset, d2))"

definition pci_config_read_word :: "'d ports \<Rightarrow> u8 \<Rightarrow> u8 \<Rightarrow> u8 \<Rightarrow> u8 \<Rightarrow> 'd \<Rightarrow> u16 \<times> 'd" where
  "pci_config_read_word io bus slt func offset d =
     (let d1 = port_long_out io PCI_CONFIG_ADDRESS (pci_config_get_address bus slt func offset) d;
          (data, d2) = port_long_in io PCI_CONFIG_DATA d1
      in (pci_config_make_word data offset, d2))"

definition pci_config_read_long :: "'d ports \<Rightarrow> u8 \<Rightarrow> u8 \<Rightarrow> u8 \<Rightarrow> u8 \<Rightarrow> 'd \<Rightarrow> u32 \<times> 'd" where
  "pci_config_read_long io bus slt func offset d =
     (let d1 = port_long_out io PCI_CONFIG_ADDRESS (pci_config_get_address bus slt func offset) d;
          (data, d2) = port_long_in io PCI_CONFIG_DATA d1
      in (pci_config_make_long data offset, d2))"

definition pci_config_write_long :: "'d ports \<Rightarrow> u8 \<Rightarrow> u8 \<Rightarrow> u8 \<Rightarrow> u8 \<Rightarrow> u32 \<Rightarrow> 'd \<Rightarrow> 'd" where
  "pci_config_write_long io bus slt func offset v d =
     port_long_out io PCI_CONFIG_DATA v (port_long_out io PCI_CONFIG_ADDRESS (pci_config_get_address bus slt func offset) d)"


section \<open>Base address registers\<close>

definition pci_set_bar :: "u8 \<Rightarrow> (pci_bar \<Rightarrow> pci_bar) \<Rightarrow> pci_device \<Rightarrow> pci_device" where
  "pci_set_bar i f pd = pd\<lparr>pci_data := (pci_data pd)\<lparr>gi_bar := (gi_bar (pci_data pd))[unat i := f (gi_bar (pci_data pd) ! unat i)]\<rparr>\<rparr>"

definition pci_bar_offset :: "u8 \<Rightarrow> u8 option" where
  "pci_bar_offset bar_index =
     (if bar_index = 0 then Some PCI_H0_BAR0 else if bar_index = 1 then Some PCI_H0_BAR1
      else if bar_index = 2 then Some PCI_H0_BAR2 else if bar_index = 3 then Some PCI_H0_BAR3
      else if bar_index = 4 then Some PCI_H0_BAR4 else if bar_index = 5 then Some PCI_H0_BAR5 else None)"

text \<open>The size of a region: all ones are written to the register, read back, and the old value restored.\<close>

definition pci_bar_mask :: "'d ports \<Rightarrow> pci_device \<Rightarrow> u8 \<Rightarrow> u32 \<Rightarrow> 'd \<Rightarrow> u32 \<times> 'd" where
  "pci_bar_mask io pd offset old d =
     (let d1 = pci_config_write_long io (pci_bus pd) (pci_slot pd) (pci_function pd) offset 0xFFFFFFFF d;
          (msk, d2) = pci_config_read_long io (pci_bus pd) (pci_slot pd) (pci_function pd) offset d1
      in (msk, pci_config_write_long io (pci_bus pd) (pci_slot pd) (pci_function pd) offset old d2))"

definition pci_general_load_bar_info :: "'d ports \<Rightarrow> pci_device \<Rightarrow> u8 \<Rightarrow> 'd \<Rightarrow> int \<times> pci_device \<times> 'd" where
  "pci_general_load_bar_info io pd bar_index d =
     (case pci_bar_offset bar_index of None \<Rightarrow> (- 1, pd, d)
      | Some offset \<Rightarrow>
          let (addr, d1) = pci_config_read_long io (pci_bus pd) (pci_slot pd) (pci_function pd) offset d
          in if addr AND PCI_BAR_IO_SPACE \<noteq> 0 then
               let pd1 = pci_set_bar bar_index (\<lambda>b. b\<lparr>bar_type := ucast PCI_BAR_IO_SPACE\<rparr>) pd;
                   (msk, d2) = pci_bar_mask io pd1 offset addr d1
               in (0, pci_set_bar bar_index (\<lambda>b. b\<lparr>bar_size := NOT (msk AND NOT 0x3) + 1,
                     bar_address := (bar_address b AND 0xFFFF0000) OR ucast (ucast (addr AND NOT 0x3) :: u16),
                     bar_flags := ucast (addr AND 0x3)\<rparr>) pd1, d2)
             else if (ucast (addr AND 0x3) :: u8) \<noteq> PCI_BAR_MEMORY_32BIT then (- 1, pd, d1)
             else
               let pd1 = pci_set_bar bar_index (\<lambda>b. b\<lparr>bar_type := ucast PCI_BAR_MEMORY_SPACE\<rparr>) pd;
                   (msk, d2) = pci_bar_mask io pd1 offset addr d1
               in (0, pci_set_bar bar_index (\<lambda>b. b\<lparr>bar_size := NOT (msk AND NOT 0xF) + 1, bar_address := addr,
                     bar_flags := ucast (addr AND 0xF)\<rparr>) pd1, d2))"

definition pci_pci2pci_load_bar_info :: "pci_device \<Rightarrow> u8 \<Rightarrow> int" where
  "pci_pci2pci_load_bar_info pd bar_index = - 1"

definition pci_load_bar_info :: "'d ports \<Rightarrow> pci_device \<Rightarrow> u8 \<Rightarrow> 'd \<Rightarrow> int \<times> pci_device \<times> 'd" where
  "pci_load_bar_info io pd bar_index d =
     (let header_type = pci_header_type pd AND 0x7F
      in if header_type = PCI_HEADER_TYPE_0 then pci_general_load_bar_info io pd bar_index d
         else if header_type = PCI_HEADER_TYPE_1 then (pci_pci2pci_load_bar_info pd bar_index, pd, d)
         else (- 1, pd, d))"


section \<open>Enumeration\<close>

text \<open>
  The structures of the PCI devices by their address, next to the registry and the log.  \<open>pf_fresh\<close> is what the memory
  of a structure just allocated holds: \<^verbatim>\<open>pci_probe_device\<close> leaves the information on the registers as it is.
\<close>

record pci_state =
  ps_registry :: registry
  ps_log :: circular_buffer
  ps_devices :: "u32 \<rightharpoonup> pci_device"

record pci_frame =
  pf_literal :: "string \<Rightarrow> u32"
  pf_message :: u32
  pf_args :: u32
  pf_log :: u32
  pf_fresh :: pci_general_device_info

definition pci_probe_device :: "'d ports \<Rightarrow> pci_frame \<Rightarrow> u8 \<Rightarrow> u8 \<Rightarrow> u8 \<Rightarrow> pci_state \<Rightarrow> 'd \<Rightarrow> (u32 \<times> pci_state \<times> 'd) kres" where
  "pci_probe_device io f bus slt func s d =
     (let (vendor_id, d1) = pci_config_read_word io bus slt func PCI_VENDOR_ID d
      in if vendor_id = PCI_CONFIG_INVALID_VENDOR then kret (0, s, d1) else
         let (device_id, d2) = pci_config_read_word io bus slt func PCI_DEVICE_ID d1;
             (classcode, d3) = pci_config_read_byte io bus slt func PCI_CLASS_CODE d2;
             (subclass, d4) = pci_config_read_byte io bus slt func PCI_SUBCLASS d3;
             (prog_if, d5) = pci_config_read_byte io bus slt func PCI_PROG_IF d4;
             (header_type, d6) = pci_config_read_byte io bus slt func PCI_HEADER_TYPE d5
         in kbind (kmalloc (reg_heap (ps_registry s)) PCI_DEVICE_SIZE) (\<lambda>(device, h).
            if device = 0 then out_of_memory else
            kret (device, s\<lparr>ps_registry := (ps_registry s)\<lparr>reg_heap := h\<rparr>,
              ps_devices := (ps_devices s)(device \<mapsto> \<lparr>pci_bus = bus, pci_slot = slt, pci_function = func,
                pci_vendor_id = vendor_id, pci_device_id = device_id, pci_classcode = classcode, pci_subclass = subclass,
                pci_prog_if = prog_if, pci_header_type = header_type, pci_data = pf_fresh f\<rparr>)\<rparr>, d6)))"

definition pci_get_device_name ::
  "(mem \<Rightarrow> u32 \<Rightarrow> u32 \<Rightarrow> u32 \<Rightarrow> mem \<times> u32) \<Rightarrow> pci_frame \<Rightarrow> pci_device \<Rightarrow> registry \<Rightarrow> (u32 \<times> registry) kres" where
  "pci_get_device_name ftoa f pd r =
     kbind (kmalloc (reg_heap r) 32) (\<lambda>(name, h).
     if name = 0 then out_of_memory else
     case sprintf ftoa (push_args (mem h) (pf_args f) [ucast (pci_vendor_id pd), ucast (pci_device_id pd), ucast (pci_bus pd),
         ucast (pci_slot pd), ucast (pci_function pd)]) name (pf_literal f ''PCI: %x/%x (%d:%d.%d)'') (pf_args f) of None \<Rightarrow> None
     | Some (_, m) \<Rightarrow> kret (name, r\<lparr>reg_heap := h\<lparr>mem := m\<rparr>\<rparr>))"

text \<open>
  One function that answers: its device is registered below the first one of its slot, and the log gets a line.  The
  allocation of the device is not checked; a write to \<^verbatim>\<open>NULL\<close> is an undetermined access.
\<close>

definition pci_add_function ::
  "(mem \<Rightarrow> u32 \<Rightarrow> u32 \<Rightarrow> u32 \<Rightarrow> mem \<times> u32) \<Rightarrow> pci_frame \<Rightarrow> nat \<Rightarrow> nat \<Rightarrow> nat \<Rightarrow> u32 \<Rightarrow> u32 \<Rightarrow> pci_state \<Rightarrow> (u32 \<times> pci_state) kres" where
  "pci_add_function ftoa f bus slt func slot_device pci_ptr s =
     kbind (deref (ps_devices s) pci_ptr) (\<lambda>pd.
     kbind (kmalloc (reg_heap (ps_registry s)) DEVICE_STRUCT_SIZE) (\<lambda>(device, h).
     if device = 0 then kfault else
     let r = (ps_registry s)\<lparr>reg_heap := h\<rparr>; (uid, nxt) = generate_uuid_v4 (rand_state r) in
     kbind (pci_get_device_name ftoa f pd (r\<lparr>rand_state := nxt\<rparr>)) (\<lambda>(name, r1).
     let r2 = r1\<lparr>devices := (devices r1)(device \<mapsto> \<lparr>dev_id = uid, dev_name = name, dev_type = DEVICE_TYPE_UNKNOWN,
       dev_bus = \<lparr>bus_type = DEVICE_BUS_TYPE_PCI, bus_data = pci_ptr\<rparr>\<rparr>)\<rparr> in
     kbind (if slot_device = 0 then device_register r2 device else device_register_at r2 device slot_device) (\<lambda>(_, r3).
     case sprintf ftoa (push_args (mem (reg_heap r3)) (pf_args f) [ucast (pci_vendor_id pd), ucast (pci_device_id pd), of_nat bus,
         of_nat slt, of_nat func]) (pf_message f) (pf_literal f ''pci: Found device Vendor ID: %x, Device ID: %x at %d:%d.%d'')
         (pf_args f) of None \<Rightarrow> None
     | Some (_, m1) \<Rightarrow>
         kbind (kmessage (ps_log s) m1 (pf_log f) KMESSAGE_LEVEL_INFO (pf_message f)) (\<lambda>(ring, m2).
         kret (if slot_device = 0 then device else slot_device,
           s\<lparr>ps_registry := r3\<lparr>reg_heap := (reg_heap r3)\<lparr>mem := m2\<rparr>\<rparr>, ps_log := ring\<rparr>))))))"

fun pci_functions ::
  "'d ports \<Rightarrow> (mem \<Rightarrow> u32 \<Rightarrow> u32 \<Rightarrow> u32 \<Rightarrow> mem \<times> u32) \<Rightarrow> pci_frame \<Rightarrow> nat \<Rightarrow> nat \<Rightarrow> nat list \<Rightarrow> u32 \<Rightarrow> pci_state \<Rightarrow> 'd \<Rightarrow>
   (pci_state \<times> 'd) kres" where
  "pci_functions io ftoa f bus slt [] slot_device s d = kret (s, d)"
| "pci_functions io ftoa f bus slt (func # funcs) slot_device s d =
     kbind (pci_probe_device io f (of_nat bus) (of_nat slt) (of_nat func) s d) (\<lambda>(pci_ptr, s1, d1).
     if pci_ptr = 0 then pci_functions io ftoa f bus slt funcs slot_device s1 d1 else
     kbind (pci_add_function ftoa f bus slt func slot_device pci_ptr s1) (\<lambda>(slot_device1, s2).
     kbind (deref (ps_devices s2) pci_ptr) (\<lambda>pd.
     if func = 0 \<and> pci_header_type pd AND PIC_HEADER_TYPE_MULTIFUNCTION = 0 then kret (s2, d1)
     else pci_functions io ftoa f bus slt funcs slot_device1 s2 d1)))"

fun pci_slots ::
  "'d ports \<Rightarrow> (mem \<Rightarrow> u32 \<Rightarrow> u32 \<Rightarrow> u32 \<Rightarrow> mem \<times> u32) \<Rightarrow> pci_frame \<Rightarrow> (nat \<times> nat) list \<Rightarrow> pci_state \<Rightarrow> 'd \<Rightarrow> (pci_state \<times> 'd) kres" where
  "pci_slots io ftoa f [] s d = kret (s, d)"
| "pci_slots io ftoa f ((bus, slt) # rest) s d =
     kbind (pci_functions io ftoa f bus slt [0..<PCI_FUNCTIONS_PER_DEVICE] 0 s d) (\<lambda>(s1, d1). pci_slots io ftoa f rest s1 d1)"

definition pci_init ::
  "'d ports \<Rightarrow> (mem \<Rightarrow> u32 \<Rightarrow> u32 \<Rightarrow> u32 \<Rightarrow> mem \<times> u32) \<Rightarrow> pci_frame \<Rightarrow> pci_state \<Rightarrow> 'd \<Rightarrow> (int \<times> pci_state \<times> 'd) kres" where
  "pci_init io ftoa f s d =
     kbind (pci_slots io ftoa f (List.product [0..<PCI_MAX_NUM_BUSES] [0..<PCI_DEVICES_PER_BUS]) s d) (\<lambda>(s1, d1). kret (0, s1, d1))"


section \<open>SATA controllers\<close>

text \<open>The search reads every PCI device and does nothing with the controllers it finds.\<close>

partial_function (option) sata_search :: "pci_state \<Rightarrow> u32 \<Rightarrow> unit kres" where
  "sata_search s node =
     (if node = 0 then kret ()
      else kbind (deref (lnodes (reg_lists (ps_registry s))) node) (\<lambda>n.
        kbind (deref (devices (ps_registry s)) (ln_data n)) (\<lambda>device.
        kbind (deref (ps_devices s) (bus_data (dev_bus device))) (\<lambda>pd.
        if pci_classcode pd = PCI_CLASS_MASS_STORAGE_CONTROLLER \<and> pci_subclass pd = PCI_SUBCLASS_SATA_CONTROLLER
        then sata_search s (ln_next n) else sata_search s (ln_next n)))))"

declare sata_search.simps [code]

definition sata_init :: "pci_state \<Rightarrow> (int \<times> pci_state) kres" where
  "sata_init s =
     kbind (device_find_all_by_bustype (ps_registry s) DEVICE_BUS_TYPE_PCI) (\<lambda>(list, r).
     kbind (deref (llists (reg_lists r)) list) (\<lambda>l.
     kbind (sata_search (s\<lparr>ps_registry := r\<rparr>) (ll_head l)) (\<lambda>_.
     kbind (linked_list_destroy (reg_lists r) list False kfree (reg_heap r)) (\<lambda>h.
       kret (0, s\<lparr>ps_registry := r\<lparr>reg_heap := h\<rparr>\<rparr>)))))"

end
