(* ===== verification/Pci_Correct.thy ===== *)
theory Pci_Correct
  imports Pci
begin

text \<open>
  The configuration mechanism as the PCI standard describes it, and what the driver reads through it.
\<close>

unbundle bit_operations_syntax

section \<open>Addresses\<close>

lemma config_address_bits:
  "bit (pci_config_get_address b s f off) n \<longleftrightarrow>
     n = 31 \<or> (16 \<le> n \<and> n < 24 \<and> bit b (n - 16)) \<or> (11 \<le> n \<and> n < 16 \<and> bit s (n - 11)) \<or>
     (8 \<le> n \<and> n < 11 \<and> bit f (n - 8)) \<or> (2 \<le> n \<and> n < 8 \<and> bit off n)"
proof -
  have masks: "(0xFF :: u32) = mask 8" "(0x1F :: u32) = mask 5" "(7 :: u32) = mask 3" "(0xFC :: u32) = push_bit 2 (mask 6)"
    "(0x80000000 :: u32) = push_bit 31 1"
    by (simp_all add: mask_eq_exp_minus_1)
  have "bit (push_bit 16 (ucast b AND mask 8) :: u32) n \<longleftrightarrow> 16 \<le> n \<and> n < 24 \<and> bit b (n - 16)"
    by (auto simp: bit_simps)
  moreover have "bit (push_bit 11 (ucast s AND mask 5) :: u32) n \<longleftrightarrow> 11 \<le> n \<and> n < 16 \<and> bit s (n - 11)"
    by (auto simp: bit_simps)
  moreover have "bit (push_bit 8 (ucast f AND mask 3) :: u32) n \<longleftrightarrow> 8 \<le> n \<and> n < 11 \<and> bit f (n - 8)"
    by (auto simp: bit_simps)
  moreover have "bit (ucast off AND push_bit 2 (mask 6) :: u32) n \<longleftrightarrow> 2 \<le> n \<and> n < 8 \<and> bit off n"
    by (auto simp: bit_simps)
  moreover have "bit (push_bit 31 1 :: u32) n \<longleftrightarrow> n = 31"
    by (subst bit_push_bit_iff) (auto simp: bit_1_iff)
  ultimately show ?thesis
    unfolding pci_config_get_address_def Let_def pci_masks masks bit_or_iff by blast
qed


text \<open>Different functions and different registers have different addresses.\<close>

lemma config_address_inj:
  assumes "pci_config_get_address b s f off = pci_config_get_address b' s' f' off'"
    and "unat s < 32" "unat s' < 32" "unat f < 8" "unat f' < 8"
  shows "b = b' \<and> s = s' \<and> f = f' \<and> drop_bit 2 off = drop_bit 2 off'"
proof -
  note bits = config_address_bits [of b s f off] config_address_bits [of b' s' f' off']
  have eq: "bit (pci_config_get_address b s f off) n = bit (pci_config_get_address b' s' f' off') n" for n
    using assms(1) by simp
  have small: "\<not> bit w n" if "unat w < 2 ^ k" "k \<le> n" for w :: u8 and n k
    using that by (metis bit_take_bit_iff linorder_not_less take_bit_nat_eq_self_iff unsigned_take_bit_eq word_unat_eq_iff)
  have "bit b n = bit b' n" if "n < 8" for n
    using eq [of "n + 16"] that by (simp add: bits)
  moreover have "bit s n = bit s' n" for n
    using eq [of "n + 11"] small [of s 5 n] small [of s' 5 n] assms(2,3) by (cases "n < 5") (auto simp: bits)
  moreover have "bit f n = bit f' n" for n
    using eq [of "n + 8"] small [of f 3 n] small [of f' 3 n] assms(4,5) by (cases "n < 3") (auto simp: bits)
  moreover have "bit (drop_bit 2 off) n = bit (drop_bit 2 off') n" if "n < 8" for n
    using eq [of "n + 2"] that by (cases "n < 6") (auto simp: bits bit_simps add.commute dest: bit_imp_le_length)
  ultimately show ?thesis
    by (auto intro!: bit_word_eqI)
qed


section \<open>The configuration mechanism\<close>

text \<open>
  A machine with the two ports: \<open>cfg d\<close> is the address register and the registers of all functions by address.  Reading
  and writing the data port accesses the register selected; of a register, the bits in \<open>wr\<close> can be written.
\<close>

definition has_pci :: "'d ports \<Rightarrow> ('d \<Rightarrow> u32 \<times> (u32 \<Rightarrow> u32)) \<Rightarrow> (u32 \<Rightarrow> u32) \<Rightarrow> bool" where
  "has_pci io cfg wr \<longleftrightarrow>
     (\<forall>d a. cfg (out32 io 0xCF8 a d) = (a, snd (cfg d))) \<and>
     (\<forall>d a R. cfg d = (a, R) \<longrightarrow> bit a 31 \<longrightarrow> fst (in32 io 0xCFC d) = R a \<and> cfg (snd (in32 io 0xCFC d)) = (a, R)) \<and>
     (\<forall>d a R v. cfg d = (a, R) \<longrightarrow> bit a 31 \<longrightarrow> cfg (out32 io 0xCFC v d) = (a, R(a := (v AND wr a) OR (R a AND NOT (wr a)))))"

lemma config_enabled: "bit (pci_config_get_address b s f off) 31"
  by (simp add: config_address_bits)

lemma read_long_ok:
  assumes "has_pci io cfg wr"
  shows "\<exists>d'. pci_config_read_long io b s f off d = (snd (cfg d) (pci_config_get_address b s f off), d') \<and> snd (cfg d') = snd (cfg d)"
proof -
  let ?a = "pci_config_get_address b s f off"
  let ?d = "out32 io 0xCF8 ?a d"
  have "cfg ?d = (?a, snd (cfg d))"
    using assms by (simp add: has_pci_def)
  then have "fst (in32 io 0xCFC ?d) = snd (cfg d) ?a" "cfg (snd (in32 io 0xCFC ?d)) = (?a, snd (cfg d))"
    using assms config_enabled [of b s f off] unfolding has_pci_def by blast+
  then show ?thesis
    by (cases "in32 io 0xCFC ?d")
      (simp add: pci_config_read_long_def port_defs PCI_CONFIG_ADDRESS_def PCI_CONFIG_DATA_def pci_config_make_long_def)
qed

lemma write_long_ok:
  assumes "has_pci io cfg wr"
  shows "snd (cfg (pci_config_write_long io b s f off v d)) =
    (let a = pci_config_get_address b s f off; R = snd (cfg d) in R(a := (v AND wr a) OR (R a AND NOT (wr a))))"
proof -
  let ?a = "pci_config_get_address b s f off"
  have "cfg (out32 io 0xCF8 ?a d) = (?a, snd (cfg d))"
    using assms by (simp add: has_pci_def)
  then show ?thesis
    using assms config_enabled [of b s f off] unfolding has_pci_def
    by (auto simp: pci_config_write_long_def port_defs PCI_CONFIG_ADDRESS_def PCI_CONFIG_DATA_def Let_def)
qed

text \<open>Writing all ones and the old value leaves the registers as they were; what is read in between shows the writable bits.\<close>

lemma bar_mask_ok:
  assumes "has_pci io cfg wr" and "a = pci_config_get_address (pci_bus pd) (pci_slot pd) (pci_function pd) off"
    and "old = snd (cfg d) a"
  shows "\<exists>d'. pci_bar_mask io pd off old d = (wr a OR (old AND NOT (wr a)), d') \<and> snd (cfg d') = snd (cfg d)"
proof -
  let ?w = "pci_config_write_long io (pci_bus pd) (pci_slot pd) (pci_function pd) off"
  let ?d1 = "?w 0xFFFFFFFF d"
  obtain d2 where d2: "pci_config_read_long io (pci_bus pd) (pci_slot pd) (pci_function pd) off ?d1 = (snd (cfg ?d1) a, d2)"
    "snd (cfg d2) = snd (cfg ?d1)"
    using read_long_ok [OF assms(1), of "pci_bus pd" "pci_slot pd" "pci_function pd" off ?d1] assms(2) by auto
  have ones: "(0xFFFFFFFF :: u32) = NOT 0"
    by simp
  have one: "snd (cfg ?d1) = (snd (cfg d))(a := wr a OR (old AND NOT (wr a)))"
    using write_long_ok [OF assms(1), of "pci_bus pd" "pci_slot pd" "pci_function pd" off "0xFFFFFFFF" d]
    unfolding assms(2) [symmetric] assms(3) ones by (simp add: Let_def)
  have restored: "(old AND wr a) OR ((wr a OR (old AND NOT (wr a))) AND NOT (wr a)) = old"
    by (rule bit_word_eqI) (auto simp: bit_simps)
  have "snd (cfg (?w old d2)) = snd (cfg d)"
    using write_long_ok [OF assms(1), of "pci_bus pd" "pci_slot pd" "pci_function pd" off old d2]
    unfolding assms(2) [symmetric] d2(2) one by (simp add: Let_def restored [unfolded assms(3)] assms(3))
  then show ?thesis
    by (simp add: pci_bar_mask_def d2(1) one)
qed


section \<open>Sizes of regions\<close>

lemma low_masks3: "(0x3 :: u32) = mask 2" "(0xF :: u32) = mask 4"
  by (simp_all add: mask_eq_exp_minus_1)

lemma bar_size_bits:
  assumes "wr = NOT (mask k)" and "k < 32" and "low \<le> k" and "old AND mask k AND NOT (mask low) = (0 :: u32)"
  shows "NOT ((wr OR (old AND NOT wr)) AND NOT (mask low)) + 1 = 2 ^ k"
proof -
  have "NOT ((wr OR (old AND NOT wr)) AND NOT (mask low)) = mask k"
  proof (rule bit_word_eqI)
    fix n assume "n < LENGTH(32)"
    moreover have "\<not> bit (old AND mask k AND NOT (mask low)) n"
      by (simp add: assms(4))
    ultimately show "bit (NOT ((wr OR (old AND NOT wr)) AND NOT (mask low))) n = bit (mask k :: u32) n"
      using assms(2,3) by (auto simp: assms(1) bit_simps)
  qed
  then show ?thesis
    by (simp add: mask_eq_exp_minus_1)
qed

text \<open>A region of \<open>2 ^ k\<close> bytes: the lower \<open>k\<close> bits of its register are fixed, and zero above the \<open>low\<close> bits that tell its kind.\<close>

definition bar_region :: "u32 \<Rightarrow> u32 \<Rightarrow> nat \<Rightarrow> bool" where
  "bar_region wr old k \<longleftrightarrow> wr = NOT (mask k) \<and> k < 32 \<and>
     (if bit old 0 then 2 \<le> k \<and> old AND mask k AND NOT (mask 2) = 0
      else \<not> bit old 1 \<and> 4 \<le> k \<and> old AND mask k AND NOT (mask 4) = 0)"

lemma bit01: "(x :: u32) AND 1 = 0 \<longleftrightarrow> \<not> bit x 0" "\<not> bit x 0 \<Longrightarrow> (ucast (x AND mask 2) :: u8) = 0 \<longleftrightarrow> \<not> bit x 1"
proof -
  show "x AND 1 = 0 \<longleftrightarrow> \<not> bit x 0"
    by (simp add: and_one_eq odd_iff_mod_2_eq_one bit_0)
  assume b0: "\<not> bit x 0"
  show "(ucast (x AND mask 2) :: u8) = 0 \<longleftrightarrow> \<not> bit x 1"
  proof
    assume "(ucast (x AND mask 2) :: u8) = 0"
    then have "\<not> bit (ucast (x AND mask 2) :: u8) 1"
      by simp
    then show "\<not> bit x 1"
      by (simp add: bit_simps)
  next
    assume b1: "\<not> bit x 1"
    show "(ucast (x AND mask 2) :: u8) = 0"
    proof (rule bit_word_eqI)
      fix n
      show "bit (ucast (x AND mask 2) :: u8) n = bit (0 :: u8) n"
        using b0 b1 by (cases "n = 0"; cases "n = 1") (auto simp: bit_simps less_2_cases_iff)
    qed
  qed
qed


lemma bar_offset_index: "pci_bar_offset i = Some off \<Longrightarrow> unat i < 6"
  by (auto simp: pci_bar_offset_def split: if_splits)

lemma set_bar_fields:
  "pci_bus (pci_set_bar i f pd) = pci_bus pd" "pci_slot (pci_set_bar i f pd) = pci_slot pd"
  "pci_function (pci_set_bar i f pd) = pci_function pd" "length (gi_bar (pci_data (pci_set_bar i f pd))) = length (gi_bar (pci_data pd))"
  "j \<noteq> unat i \<Longrightarrow> gi_bar (pci_data (pci_set_bar i f pd)) ! j = gi_bar (pci_data pd) ! j"
  "unat i < length (gi_bar (pci_data pd)) \<Longrightarrow> gi_bar (pci_data (pci_set_bar i f pd)) ! unat i = f (gi_bar (pci_data pd) ! unat i)"
  by (simp_all add: pci_set_bar_def)

text \<open>
  C37: for a base address register of a region of \<open>2 ^ k\<close> bytes, in memory or in the space of the ports,
  \<open>pci_load_bar_info\<close> succeeds, records this size and the kind of the region, leaves the other registers of the
  structure alone, and the configuration space is afterwards what it was before, although the register is overwritten in
  between.
\<close>
theorem pci_bar_sizes:
  assumes "has_pci io cfg wr" and "pci_header_type pd AND 0x7F = 0" and "pci_bar_offset i = Some off"
    and "a = pci_config_get_address (pci_bus pd) (pci_slot pd) (pci_function pd) off"
    and "bar_region (wr a) (snd (cfg d) a) k" and "length (gi_bar (pci_data pd)) = 6"
  shows "\<exists>pd' d'. pci_load_bar_info io pd i d = (0, pd', d') \<and> snd (cfg d') = snd (cfg d) \<and>
    bar_size (gi_bar (pci_data pd') ! unat i) = 2 ^ k \<and>
    bar_type (gi_bar (pci_data pd') ! unat i) = (if bit (snd (cfg d) a) 0 then 1 else 0) \<and>
    (\<not> bit (snd (cfg d) a) 0 \<longrightarrow> bar_address (gi_bar (pci_data pd') ! unat i) = snd (cfg d) a) \<and>
    (\<forall>j. j \<noteq> unat i \<longrightarrow> gi_bar (pci_data pd') ! j = gi_bar (pci_data pd) ! j)"
proof -
  define old where "old = snd (cfg d) a"
  obtain d1 where d1: "pci_config_read_long io (pci_bus pd) (pci_slot pd) (pci_function pd) off d = (old, d1)" "snd (cfg d1) = snd (cfg d)"
    using read_long_ok [OF assms(1), of "pci_bus pd" "pci_slot pd" "pci_function pd" off d] assms(4) by (auto simp: old_def)
  let ?t = "if bit old 0 then ucast PCI_BAR_IO_SPACE else ucast PCI_BAR_MEMORY_SPACE :: u8"
  let ?pd = "pci_set_bar i (\<lambda>b. b\<lparr>bar_type := ?t\<rparr>) pd"
  obtain d2 where d2: "pci_bar_mask io ?pd off old d1 = (wr a OR (old AND NOT (wr a)), d2)" "snd (cfg d2) = snd (cfg d)"
    using bar_mask_ok [OF assms(1), of a ?pd off old d1] assms(4) d1(2) by (auto simp: set_bar_fields old_def)
  have i: "unat i < length (gi_bar (pci_data pd))"
    using bar_offset_index [OF assms(3)] assms(6) by simp
  note region = assms(5) [unfolded bar_region_def, folded old_def]
  show ?thesis
  proof (cases "bit old 0")
    case True
    have sz: "NOT ((wr a OR (old AND NOT (wr a))) AND NOT 0x3) + 1 = 2 ^ k"
      unfolding low_masks3 using region True by (intro bar_size_bits) auto
    show ?thesis
      using True d1(1) d2 assms(2,3) i
      by (simp add: pci_load_bar_info_def PCI_HEADER_TYPE_0_def pci_general_load_bar_info_def PCI_BAR_IO_SPACE_def bit01 set_bar_fields
          sz [simplified] old_def [symmetric])
  next
    case False
    have sz: "NOT ((wr a OR (old AND NOT (wr a))) AND NOT 0xF) + 1 = 2 ^ k"
      unfolding low_masks3 using region False by (intro bar_size_bits) auto
    have kind: "(ucast (old AND 0x3) :: u8) = 0"
      unfolding low_masks3 using region False bit01(2) [of old] by simp
    show ?thesis
      using False d1(1) d2 assms(2,3) i kind
      by (simp add: pci_load_bar_info_def PCI_HEADER_TYPE_0_def pci_general_load_bar_info_def PCI_BAR_IO_SPACE_def bit01 set_bar_fields
          PCI_BAR_MEMORY_32BIT_def PCI_BAR_MEMORY_SPACE_def sz [simplified] old_def [symmetric])
  qed
qed

text \<open>A machine with one memory region of 4096 bytes behind the first register of function 0:1.0.\<close>

definition pci_machine :: "(u32 \<times> (u32 \<Rightarrow> u32)) ports" where
  "pci_machine = \<lparr>in8 = (\<lambda>p d. (0, d)), out8 = (\<lambda>p v d. d), in16 = (\<lambda>p d. (0, d)), out16 = (\<lambda>p v d. d),
     in32 = (\<lambda>p d. (if p = 0xCFC then snd d (fst d) else 0, d)),
     out32 = (\<lambda>p v d. if p = 0xCF8 then (v, snd d)
       else if p = 0xCFC then (fst d, (snd d)(fst d := (v AND NOT (mask 12)) OR (snd d (fst d) AND NOT (NOT (mask 12))))) else d)\<rparr>"

definition sample_pci_device :: pci_device where
  "sample_pci_device = \<lparr>pci_bus = 0, pci_slot = 1, pci_function = 0, pci_vendor_id = 0x8086, pci_device_id = 0x2922,
     pci_classcode = 1, pci_subclass = 6, pci_prog_if = 1, pci_header_type = 0,
     pci_data = \<lparr>gi_bar = replicate 6 \<lparr>bar_type = 0, bar_address = 0, bar_size = 0, bar_flags = 0\<rparr>, gi_interrupt_line = 0\<rparr>\<rparr>"

theorem pci_bar_sizes_witness:
  "\<exists>pd' d'. pci_load_bar_info pci_machine sample_pci_device 0 (0, \<lambda>_. 0xFEBF1000) = (0, pd', d') \<and> snd d' = (\<lambda>_. 0xFEBF1000) \<and>
     bar_size (gi_bar (pci_data pd') ! 0) = 4096 \<and> bar_address (gi_bar (pci_data pd') ! 0) = 0xFEBF1000"
proof -
  have "has_pci pci_machine id (\<lambda>_. NOT (mask 12))"
    by (auto simp: has_pci_def pci_machine_def)
  moreover have "bar_region (NOT (mask 12)) 0xFEBF1000 12"
    by (simp add: bar_region_def mask_eq_exp_minus_1)
  ultimately show ?thesis
    using pci_bar_sizes [of pci_machine id "\<lambda>_. NOT (mask 12)" sample_pci_device 0 PCI_H0_BAR0 _ "(0, \<lambda>_. 0xFEBF1000)" 12]
    by (simp add: sample_pci_device_def pci_bar_offset_def) blast
qed

end
