(* ===== verification/Ata_Correct.thy ===== *)
theory Ata_Correct
  imports Ata Heap_Correct
begin

text \<open>
  A drive as the ATA standard describes it to programmed input and output, and the driver on top of it: single sectors
  first, then byte ranges that begin and end inside sectors.
\<close>

unbundle bit_operations_syntax

section \<open>A channel with two drives\<close>

text \<open>
  \<open>Sending a k\<close>: the host takes the next \<open>k\<close> words, which are the bytes from \<open>a\<close> on; \<open>Receiving a k\<close>: the host gives
  them.  \<open>ch_busy\<close> is the number of times the status register will still be read with the busy bit set.
\<close>

datatype ata_transfer = Idle | Sending nat nat | Receiving nat nat

record ata_channel =
  ch_select :: u8
  ch_count :: u8
  ch_low :: u8
  ch_mid :: u8
  ch_high :: u8
  ch_busy :: nat
  ch_transfer :: ata_transfer
  ch_disk :: "bool \<Rightarrow> nat \<Rightarrow> u8"

definition ch_slave :: "ata_channel \<Rightarrow> bool" where
  "ch_slave c \<longleftrightarrow> bit (ch_select c) 4"

definition ch_lba :: "ata_channel \<Rightarrow> nat" where
  "ch_lba c = unat (ch_low c) + 2 ^ 8 * unat (ch_mid c) + 2 ^ 16 * unat (ch_high c) + 2 ^ 24 * (unat (ch_select c) mod 16)"

definition ch_command :: "u8 \<Rightarrow> ata_channel \<Rightarrow> ata_channel" where
  "ch_command v c = c\<lparr>ch_transfer := (if v = 0x20 then Sending else Receiving) (512 * ch_lba c) (256 * unat (ch_count c))\<rparr>"

fun ch_next :: "ata_transfer \<Rightarrow> ata_transfer" where
  "ch_next Idle = Idle"
| "ch_next (Sending a k) = (if k \<le> 1 then Idle else Sending (a + 2) (k - 1))"
| "ch_next (Receiving a k) = (if k \<le> 1 then Idle else Receiving (a + 2) (k - 1))"

text \<open>
  What the driver relies on, for the channel with the registers at \<open>base\<close>: the registers can be written and a command
  given while the channel is not busy, a command makes it busy for some time, and the data register moves the words of
  one sector.  After the last word the drive is busy with the sector for any time, as programmed output of the ATA
  standard is (the drive sets the busy bit when it has the whole block).
\<close>

definition has_ata :: "'d ports \<Rightarrow> u16 \<Rightarrow> ('d \<Rightarrow> ata_channel) \<Rightarrow> bool" where
  "has_ata io base chan \<longleftrightarrow>
     (\<forall>d v. ch_busy (chan d) = 0 \<longrightarrow> chan (out8 io (base + 2) v d) = (chan d)\<lparr>ch_count := v\<rparr>) \<and>
     (\<forall>d v. ch_busy (chan d) = 0 \<longrightarrow> chan (out8 io (base + 3) v d) = (chan d)\<lparr>ch_low := v\<rparr>) \<and>
     (\<forall>d v. ch_busy (chan d) = 0 \<longrightarrow> chan (out8 io (base + 4) v d) = (chan d)\<lparr>ch_mid := v\<rparr>) \<and>
     (\<forall>d v. ch_busy (chan d) = 0 \<longrightarrow> chan (out8 io (base + 5) v d) = (chan d)\<lparr>ch_high := v\<rparr>) \<and>
     (\<forall>d v. ch_busy (chan d) = 0 \<longrightarrow> chan (out8 io (base + 6) v d) = (chan d)\<lparr>ch_select := v\<rparr>) \<and>
     (\<forall>d v. ch_busy (chan d) = 0 \<longrightarrow> bit (ch_select (chan d)) 6 \<longrightarrow> v = 0x20 \<or> v = 0x30 \<longrightarrow>
        (\<exists>n. chan (out8 io (base + 7) v d) = (ch_command v (chan d))\<lparr>ch_busy := n\<rparr>)) \<and>
     (\<forall>d. (fst (in8 io (base + 7) d) AND 0x80 = 0) = (ch_busy (chan d) = 0) \<and>
        chan (snd (in8 io (base + 7) d)) = (chan d)\<lparr>ch_busy := ch_busy (chan d) - 1\<rparr>) \<and>
     (\<forall>d a k. ch_busy (chan d) = 0 \<longrightarrow> ch_transfer (chan d) = Sending a k \<longrightarrow>
        fst (in16 io base d) = word_rcat [ch_disk (chan d) (ch_slave (chan d)) (a + 1), ch_disk (chan d) (ch_slave (chan d)) a] \<and>
        chan (snd (in16 io base d)) = (chan d)\<lparr>ch_transfer := ch_next (Sending a k)\<rparr>) \<and>
     (\<forall>d a k v. ch_busy (chan d) = 0 \<longrightarrow> ch_transfer (chan d) = Receiving a k \<longrightarrow>
        (\<exists>b. (1 < k \<longrightarrow> b = 0) \<and> chan (out16 io base v d) = (chan d)\<lparr>ch_busy := b, ch_transfer := ch_next (Receiving a k),
          ch_disk := (ch_disk (chan d))(ch_slave (chan d) :=
            (ch_disk (chan d) (ch_slave (chan d)))(a := ucast v, a + 1 := ucast (drop_bit 8 v)))\<rparr>))"

text \<open>A drive that has finished with a sector before the next access to its registers.\<close>

definition prompt_drive :: "'d ports \<Rightarrow> u16 \<Rightarrow> ('d \<Rightarrow> ata_channel) \<Rightarrow> bool" where
  "prompt_drive io base chan \<longleftrightarrow>
     (\<forall>d a v. ch_busy (chan d) = 0 \<longrightarrow> ch_transfer (chan d) = Receiving a 1 \<longrightarrow> ch_busy (chan (out16 io base v d)) = 0)"

lemma has_ataD:
  assumes "has_ata io base chan"
  shows "ch_busy (chan d) = 0 \<Longrightarrow> chan (out8 io (base + 2) v d) = (chan d)\<lparr>ch_count := v\<rparr>"
    and "ch_busy (chan d) = 0 \<Longrightarrow> chan (out8 io (base + 3) v d) = (chan d)\<lparr>ch_low := v\<rparr>"
    and "ch_busy (chan d) = 0 \<Longrightarrow> chan (out8 io (base + 4) v d) = (chan d)\<lparr>ch_mid := v\<rparr>"
    and "ch_busy (chan d) = 0 \<Longrightarrow> chan (out8 io (base + 5) v d) = (chan d)\<lparr>ch_high := v\<rparr>"
    and "ch_busy (chan d) = 0 \<Longrightarrow> chan (out8 io (base + 6) v d) = (chan d)\<lparr>ch_select := v\<rparr>"
    and "ch_busy (chan d) = 0 \<Longrightarrow> bit (ch_select (chan d)) 6 \<Longrightarrow> v = 0x20 \<or> v = 0x30 \<Longrightarrow>
      \<exists>n. chan (out8 io (base + 7) v d) = (ch_command v (chan d))\<lparr>ch_busy := n\<rparr>"
    and "(fst (in8 io (base + 7) d) AND 0x80 = 0) = (ch_busy (chan d) = 0)"
    and "chan (snd (in8 io (base + 7) d)) = (chan d)\<lparr>ch_busy := ch_busy (chan d) - 1\<rparr>"
    and "ch_busy (chan d) = 0 \<Longrightarrow> ch_transfer (chan d) = Sending a k \<Longrightarrow>
      fst (in16 io base d) = word_rcat [ch_disk (chan d) (ch_slave (chan d)) (a + 1), ch_disk (chan d) (ch_slave (chan d)) a]"
    and "ch_busy (chan d) = 0 \<Longrightarrow> ch_transfer (chan d) = Sending a k \<Longrightarrow>
      chan (snd (in16 io base d)) = (chan d)\<lparr>ch_transfer := ch_next (Sending a k)\<rparr>"
    and "ch_busy (chan d) = 0 \<Longrightarrow> ch_transfer (chan d) = Receiving a k \<Longrightarrow>
      \<exists>b. (1 < k \<longrightarrow> b = 0) \<and> chan (out16 io base w d) = (chan d)\<lparr>ch_busy := b, ch_transfer := ch_next (Receiving a k),
        ch_disk := (ch_disk (chan d))(ch_slave (chan d) :=
          (ch_disk (chan d) (ch_slave (chan d)))(a := ucast w, a + 1 := ucast (drop_bit 8 w)))\<rparr>"
  using assms unfolding has_ata_def by blast+

definition ch_ready :: "ata_channel \<Rightarrow> bool" where
  "ch_ready c \<longleftrightarrow> ch_busy c = 0 \<and> ch_transfer c = Idle"


section \<open>Words\<close>

lemma rcat_word: "(word_rcat [h, l :: u8] :: u16) = of_nat (256 * unat h + unat l)"
  by (simp add: word_rcat_def word_of_int_eq_iff take_bit_eq_mod)

lemma rcat_low: "ucast (word_rcat [h, l :: u8] :: u16) = l"
proof -
  have "unat (ucast (word_rcat [h, l :: u8] :: u16) :: u8) = unat l"
    using unat_lt_u8 [of h] unat_lt_u8 [of l]
    by (simp add: rcat_word unsigned_ucast_eq take_bit_eq_mod unat_of_nat mod_mod_cancel del: of_nat_add of_nat_mult)
  then show ?thesis
    by (simp add: word_unat_eq_iff)
qed

lemma rcat_high: "ucast (drop_bit 8 (word_rcat [h, l :: u8] :: u16)) = h"
proof -
  have "256 * unat h + unat l < 65536"
    using unat_lt_u8 [of h] unat_lt_u8 [of l] by linarith
  then have "unat (word_rcat [h, l :: u8] :: u16) = 256 * unat h + unat l"
    by (simp add: rcat_word unat_of_nat del: of_nat_add of_nat_mult)
  then have "unat (ucast (drop_bit 8 (word_rcat [h, l :: u8] :: u16)) :: u8) = unat h"
    using unat_lt_u8 [of h] unat_lt_u8 [of l]
    by (simp add: unsigned_ucast_eq take_bit_eq_mod drop_bit_eq_div unat_div)
  then show ?thesis
    by (simp add: word_unat_eq_iff)
qed

lemma in_range_two: "n + 2 \<le> 4294967296 \<Longrightarrow> in_range a p (n + 2) \<longleftrightarrow> in_range a p n \<or> a = p + of_nat n \<or> a = p + of_nat n + 1"
proof -
  assume n: "n + 2 \<le> 4294967296"
  have eq: "a = p + of_nat k \<longleftrightarrow> unat (a - p) = k" if "k < 4294967296" for k
  proof
    assume "unat (a - p) = k"
    then have "a - p = of_nat k"
      using of_nat_unat_u32 [of "a - p"] by simp
    then show "a = p + of_nat k"
      by (simp add: diff_eq_eq add.commute)
  qed (use that in simp)
  have "a = p + of_nat n \<longleftrightarrow> unat (a - p) = n" "a = p + of_nat n + 1 \<longleftrightarrow> unat (a - p) = n + 1"
    using eq [of n] eq [of "n + 1"] n by (simp_all add: add_ac)
  then show ?thesis
    unfolding in_range_def by linarith
qed


section \<open>One sector\<close>

lemma wait_busy_ok:
  assumes "has_ata io base chan"
  shows "\<exists>d'. ata_wait_busy io (base + 7) d = kret d' \<and> chan d' = (chan d)\<lparr>ch_busy := 0\<rparr>"
proof (induction "ch_busy (chan d)" arbitrary: d)
  case 0
  then show ?case
    using has_ataD(7,8) [OF assms, of d] by (simp add: ata_wait_busy.simps port_defs ATA_STATUS_BSY_def)
next
  case (Suc n)
  let ?d = "snd (in8 io (base + 7) d)"
  have "n = ch_busy (chan ?d)" "fst (in8 io (base + 7) d) AND 0x80 \<noteq> 0"
    using has_ataD(7,8) [OF assms, of d] Suc.hyps(2) by auto
  then show ?case
    using Suc.hyps(1) [of ?d] has_ataD(8) [OF assms, of d] by (simp add: ata_wait_busy.simps port_defs ATA_STATUS_BSY_def)
qed


lemma lba_parts:
  "ucast (lba AND 0xFF) = (ucast lba :: u8)"
  "ucast (drop_bit 8 (lba AND 0xFF00)) = (ucast (drop_bit 8 lba) :: u8)"
  "ucast (drop_bit 16 (lba AND 0xFF0000)) = (ucast (drop_bit 16 lba) :: u8)" for lba :: u32
proof -
  have masks: "(0xFF :: u32) = mask 8" "(0xFF00 :: u32) = push_bit 8 (mask 8)" "(0xFF0000 :: u32) = push_bit 16 (mask 8)"
    by (simp_all add: mask_eq_exp_minus_1)
  show "ucast (lba AND 0xFF) = (ucast lba :: u8)"
    "ucast (drop_bit 8 (lba AND 0xFF00)) = (ucast (drop_bit 8 lba) :: u8)"
    "ucast (drop_bit 16 (lba AND 0xFF0000)) = (ucast (drop_bit 16 lba) :: u8)"
    unfolding masks by (rule bit_word_eqI, simp add: bit_simps)+
qed

lemma four_bytes: "x mod 256 + 2 ^ 8 * (x div 256 mod 256) + 2 ^ 16 * (x div 65536 mod 256) + 2 ^ 24 * (x div 2 ^ 24) = (x :: nat)"
proof -
  have "x div 256 div 256 = x div 65536" "x div 65536 div 256 = x div 2 ^ 24"
    by (simp_all flip: div_mult2_eq)
  then have "x = x div 256 * 256 + x mod 256" "x div 256 = x div 65536 * 256 + x div 256 mod 256"
    "x div 65536 = x div 2 ^ 24 * 256 + x div 65536 mod 256"
    using div_mult_mod_eq [of "x div 256" 256] div_mult_mod_eq [of "x div 65536" 256] by simp_all
  then have "x = ((x div 2 ^ 24 * 256 + x div 65536 mod 256) * 256 + x div 256 mod 256) * 256 + x mod 256"
    by presburger
  then show ?thesis
    by (simp add: algebra_simps)
qed

lemma lba_bytes:
  assumes "unat (lba :: u32) < 2 ^ 28" and "sel = 0xE0 \<or> sel = (0xF0 :: u8)"
  shows "unat (ucast (lba AND 0xFF) :: u8) + 2 ^ 8 * unat (ucast (drop_bit 8 (lba AND 0xFF00)) :: u8)
      + 2 ^ 16 * unat (ucast (drop_bit 16 (lba AND 0xFF0000)) :: u8)
      + 2 ^ 24 * (unat (sel OR ucast (drop_bit 24 lba AND 0x0F)) mod 16) = unat lba"
    and "bit (sel OR ucast (drop_bit 24 lba AND 0x0F)) 4 \<longleftrightarrow> sel = 0xF0"
    and "bit (sel OR ucast (drop_bit 24 lba AND 0x0F)) 6"
proof -
  show "bit (sel OR ucast (drop_bit 24 lba AND 0x0F)) 4 \<longleftrightarrow> sel = 0xF0"
    and "bit (sel OR ucast (drop_bit 24 lba AND 0x0F)) 6"
    using assms(2) by (auto simp: bit_simps)
  have "unat (ucast (drop_bit k lba) :: u8) = unat lba div 2 ^ k mod 256" for k
    by (simp add: unsigned_ucast_eq take_bit_eq_mod unat_drop_bit_u32)
  from this [of 0] this [of 8] this [of 16]
  have parts: "unat (ucast lba :: u8) = unat lba mod 256" "unat (ucast (drop_bit 8 lba) :: u8) = unat lba div 256 mod 256"
    "unat (ucast (drop_bit 16 lba) :: u8) = unat lba div 65536 mod 256"
    by simp_all
  have "bit (15 :: u32) n" "\<not> bit sel n" if n: "n < 4" for n
  proof -
    consider "n = 0" | "n = 1" | "n = 2" | "n = 3"
      using n by linarith
    then show "bit (15 :: u32) n" "\<not> bit sel n"
      using assms(2) by (cases; auto)+
  qed
  then have low: "take_bit 4 (sel OR ucast (drop_bit 24 lba AND 0x0F)) = ucast (take_bit 4 (drop_bit 24 lba))"
    by (intro bit_word_eqI) (auto simp: bit_simps)
  have "unat (sel OR ucast (drop_bit 24 lba AND 0x0F)) mod 16 = take_bit 4 (unat (sel OR ucast (drop_bit 24 lba AND 0x0F)))"
    by (simp add: take_bit_eq_mod)
  also have "\<dots> = unat (ucast (take_bit 4 (drop_bit 24 lba)) :: u8)"
    unfolding unsigned_take_bit_eq [symmetric] low ..
  also have "\<dots> = unat lba div 2 ^ 24 mod 16"
    by (simp add: unsigned_ucast_eq unsigned_take_bit_eq take_bit_take_bit unat_drop_bit_u32) (simp add: take_bit_eq_mod)
  finally have "unat (sel OR ucast (drop_bit 24 lba AND 0x0F)) mod 16 = unat lba div 2 ^ 24 mod 16" .
  moreover have "unat lba div 2 ^ 24 < 16"
    using assms(1) by (simp add: less_mult_imp_div_less)
  ultimately show "unat (ucast (lba AND 0xFF) :: u8) + 2 ^ 8 * unat (ucast (drop_bit 8 (lba AND 0xFF00)) :: u8)
      + 2 ^ 16 * unat (ucast (drop_bit 16 (lba AND 0xFF0000)) :: u8)
      + 2 ^ 24 * (unat (sel OR ucast (drop_bit 24 lba AND 0x0F)) mod 16) = unat lba"
    unfolding lba_parts parts using four_bytes [of "unat lba"] by (simp del: power_numeral)
qed

lemma command_ok:
  assumes "has_ata io (ata_get_io_base device) chan" and "ch_busy (chan d) = 0" and "unat lba < 2 ^ 28"
    and "v = 0x20 \<or> v = 0x30"
  shows "\<exists>c. chan (ata_lba28_command io device lba v d) = c \<and> ch_disk c = ch_disk (chan d) \<and> ch_slave c = (\<not> ata_is_master device) \<and>
    ch_transfer c = (if v = 0x20 then Sending else Receiving) (512 * unat lba) 256"
proof -
  note h = has_ataD [OF assms(1)]
  let ?sel = "if ata_is_master device then 0xE0 else 0xF0 :: u8"
  have sel: "?sel = 0xE0 \<or> ?sel = 0xF0" "?sel = 0xF0 \<longleftrightarrow> \<not> ata_is_master device"
    by simp_all
  define c where "c = (chan d)\<lparr>ch_select := ?sel OR ucast (drop_bit 24 lba AND 0x0F), ch_count := 1, ch_low := ucast (lba AND 0xFF),
    ch_mid := ucast (drop_bit 8 (lba AND 0xFF00)), ch_high := ucast (drop_bit 16 (lba AND 0xFF0000))\<rparr>"
  have c: "ch_lba c = unat lba" "ch_slave c = (\<not> ata_is_master device)" "bit (ch_select c) 6" "ch_count c = 1"
    "ch_disk c = ch_disk (chan d)"
    unfolding ch_lba_def ch_slave_def using lba_bytes [OF assms(3) sel(1)] sel(2) by (simp_all add: c_def)
  define b where "b = ata_get_io_base device"
  let ?d5 = "out8 io (b + 5) (ucast (drop_bit 16 (lba AND 0xFF0000))) (out8 io (b + 4) (ucast (drop_bit 8 (lba AND 0xFF00)))
    (out8 io (b + 3) (ucast (lba AND 0xFF)) (out8 io (b + 2) 1 (out8 io (b + 6) (?sel OR ucast (drop_bit 24 lba AND 0x0F)) d))))"
  have d5: "chan ?d5 = c"
    using assms(2) by (simp add: h(1-5) [folded b_def] c_def)
  have "ata_lba28_command io device lba v d = out8 io (b + 7) v ?d5"
    by (simp add: ata_lba28_command_def Let_def port_defs ata_regs ATA_READWRITE_MASTER_def ATA_READWRITE_SLAVE_def b_def [symmetric])
  moreover obtain n where "chan (out8 io (b + 7) v ?d5) = (ch_command v c)\<lparr>ch_busy := n\<rparr>"
    using h(6) [folded b_def, of ?d5 v] assms(2,4) c(3) unfolding d5 by (auto simp: c_def)
  ultimately show ?thesis
    using c by (simp add: ch_command_def ch_slave_def)
qed


text \<open>Moving the words of a sector, \<open>n\<close> of them.\<close>

lemma ch_next_steps:
  "n < 256 \<Longrightarrow> ch_next (if n = 256 then Idle else Sending (a + 2 * n) (256 - n)) = (if Suc n = 256 then Idle else Sending (a + 2 * Suc n) (256 - Suc n))"
  "n < 256 \<Longrightarrow> ch_next (if n = 256 then Idle else Receiving (a + 2 * n) (256 - n)) = (if Suc n = 256 then Idle else Receiving (a + 2 * Suc n) (256 - Suc n))"
  by auto

lemma read_words_ok:
  assumes "has_ata io base chan" and c: "chan d = c" "ch_busy c = 0" "ch_transfer c = Sending a 256" and "n \<le> 256"
  shows "\<exists>d'. fold (\<lambda>i (m, d). let (v, d') = in16 io base d in (store16 m (buf + 2 * of_nat i) v, d')) [0..<n] (m, d) =
      (\<lambda>x. if in_range x buf (2 * n) then ch_disk c (ch_slave c) (a + unat (x - buf)) else m x, d') \<and>
    chan d' = c\<lparr>ch_transfer := if n = 256 then Idle else Sending (a + 2 * n) (256 - n)\<rparr>"
  using assms(5)
proof (induction n)
  case 0
  then show ?case
    using c by (simp; metis ata_channel.surjective ata_channel.update_convs(7))
next
  case (Suc n)
  let ?m = "\<lambda>n x. if in_range x buf (2 * n) then ch_disk c (ch_slave c) (a + unat (x - buf)) else m x"
  let ?c = "\<lambda>n. c\<lparr>ch_transfer := if n = 256 then Idle else Sending (a + 2 * n) (256 - n)\<rparr>"
  obtain d' where d': "fold (\<lambda>i (m, d). let (v, d') = in16 io base d in (store16 m (buf + 2 * of_nat i) v, d')) [0..<n] (m, d) = (?m n, d')"
    "chan d' = ?c n"
    using Suc by auto
  have n: "n < 256"
    using Suc.prems by simp
  obtain v d2 where io: "in16 io base d' = (v, d2)"
    by (cases "in16 io base d'")
  have "ch_busy (chan d') = 0" "ch_transfer (chan d') = Sending (a + 2 * n) (256 - n)"
    using d'(2) n c(2) by simp_all
  note get = has_ataD(9,10) [OF assms(1) this]
  have v: "v = word_rcat [ch_disk c (ch_slave c) (a + 2 * n + 1), ch_disk c (ch_slave c) (a + 2 * n)]"
    using get(1) d'(2) by (simp add: io ch_slave_def)
  have "chan d2 = ?c (Suc n)"
    using get(2) d'(2) n by (simp add: io)
  moreover have "store16 (?m n) (buf + 2 * of_nat n) v = ?m (Suc n)"
  proof
    fix x
    have two: "in_range x buf (2 * Suc n) \<longleftrightarrow> in_range x buf (2 * n) \<or> x = buf + of_nat (2 * n) \<or> x = buf + of_nat (2 * n) + 1"
      using in_range_two [of "2 * n" x buf] n by simp
    have "unat (of_nat (2 * n) :: u32) = 2 * n" "unat (of_nat (2 * n) + 1 :: u32) = 2 * n + 1"
      using n unat_of_nat_u32_small [of "2 * n"] unat_of_nat_u32_small [of "2 * n + 1"] by (simp_all add: add.commute)
    then show "store16 (?m n) (buf + 2 * of_nat n) v x = ?m (Suc n) x"
      unfolding two by (auto simp: store16_def v rcat_low rcat_high)
  qed
  ultimately show ?case
    using d'(1) by (simp add: io)
qed


lemma load16_bytes: "ucast (load16 m p) = m p" "ucast (drop_bit 8 (load16 m p)) = m (p + 1)"
  by (simp_all add: load16_def rcat_low rcat_high)

lemma write_words_ok:
  assumes "has_ata io base chan" and c: "chan d = c" "ch_busy c = 0" "ch_transfer c = Receiving a 256" and "n \<le> 256"
  shows "\<exists>b. (n < 256 \<or> prompt_drive io base chan \<longrightarrow> b = 0) \<and>
    chan (fold (\<lambda>i d. out16 io base (load16 m (buf + 2 * of_nat i)) d) [0..<n] d) =
    c\<lparr>ch_busy := b, ch_transfer := if n = 256 then Idle else Receiving (a + 2 * n) (256 - n),
      ch_disk := (ch_disk c)(ch_slave c :=
        \<lambda>x. if a \<le> x \<and> x < a + 2 * n then m (buf + of_nat (x - a)) else ch_disk c (ch_slave c) x)\<rparr>"
  using assms(5)
proof (induction n)
  case 0
  then show ?case
    using c by (intro exI [of _ 0]) (cases c, auto simp: fun_eq_iff)
next
  case (Suc n)
  let ?d = "fold (\<lambda>i d. out16 io base (load16 m (buf + 2 * of_nat i)) d) [0..<n] d"
  let ?f = "\<lambda>n x. if a \<le> x \<and> x < a + 2 * n then m (buf + of_nat (x - a)) else ch_disk c (ch_slave c) x"
  have n: "n < 256"
    using Suc.prems by simp
  have d: "chan ?d = c\<lparr>ch_busy := 0, ch_transfer := if n = 256 then Idle else Receiving (a + 2 * n) (256 - n), ch_disk := (ch_disk c)(ch_slave c := ?f n)\<rparr>"
    using Suc.IH [OF less_imp_le [OF n]] n by (simp only: simp_thms)
  then have "ch_busy (chan ?d) = 0" "ch_transfer (chan ?d) = Receiving (a + 2 * n) (256 - n)"
    using n c(2) by simp_all
  note busy = this
  obtain b where b: "1 < 256 - n \<longrightarrow> b = 0" and put: "chan (out16 io base (load16 m (buf + 2 * of_nat n)) ?d) =
      (chan ?d)\<lparr>ch_busy := b, ch_transfer := ch_next (Receiving (a + 2 * n) (256 - n)), ch_disk := (ch_disk (chan ?d))(ch_slave (chan ?d) :=
        (ch_disk (chan ?d) (ch_slave (chan ?d)))(a + 2 * n := ucast (load16 m (buf + 2 * of_nat n)),
          a + 2 * n + 1 := ucast (drop_bit 8 (load16 m (buf + 2 * of_nat n)))))\<rparr>"
    using has_ataD(11) [OF assms(1) busy, of "load16 m (buf + 2 * of_nat n)"] by blast
  have "b = 0" if "prompt_drive io base chan" "n = 255"
    using that busy arg_cong [OF put, of ch_busy] by (auto simp: prompt_drive_def)
  with b n have b': "Suc n < 256 \<or> prompt_drive io base chan \<longrightarrow> b = 0"
    by (cases "n = 255") auto
  have "(?f n)(a + 2 * n := m (buf + 2 * of_nat n), a + 2 * n + 1 := m (buf + 2 * of_nat n + 1)) = ?f (Suc n)" (is "?g = _")
  proof
    fix x
    consider "x = a + 2 * n" | "x = a + 2 * n + 1"
      | "x \<noteq> a + 2 * n" "x \<noteq> a + 2 * n + 1"
      by blast
    then show "?g x = ?f (Suc n) x"
    proof cases
      case 3
      then have "(a \<le> x \<and> x < a + 2 * Suc n) = (a \<le> x \<and> x < a + 2 * n)"
        by auto
      then show ?thesis
        using 3 by (simp only: fun_upd_apply if_False)
    qed (simp_all add: add_ac)
  qed
  note g = this
  define X where "X = (ch_disk c)(ch_slave c := ?f (Suc n))"
  have sl: "ch_slave (chan ?d) = ch_slave c" "ch_disk (chan ?d) = (ch_disk c)(ch_slave c := ?f n)"
    unfolding d ch_slave_def by simp_all
  have "chan (out16 io base (load16 m (buf + 2 * of_nat n)) ?d) = (chan ?d)\<lparr>ch_busy := b, ch_transfer := ch_next (Receiving (a + 2 * n) (256 - n)), ch_disk := X\<rparr>"
    unfolding X_def using put unfolding sl load16_bytes by (simp only: fun_upd_same fun_upd_upd g)
  moreover have "ch_next (Receiving (a + 2 * n) (256 - n)) = (if Suc n = 256 then Idle else Receiving (a + 2 * Suc n) (256 - Suc n))"
    using n by auto
  ultimately show ?case
    unfolding X_def [symmetric] d using b' by (intro exI [of _ b]) (simp add: X_def [symmetric])
qed

text \<open>The bytes of a sector, and a sector replaced.\<close>

definition sector_read :: "(nat \<Rightarrow> u8) \<Rightarrow> u32 \<Rightarrow> u32 \<Rightarrow> mem \<Rightarrow> mem" where
  "sector_read disk lba buf m = (\<lambda>x. if in_range x buf 512 then disk (512 * unat lba + unat (x - buf)) else m x)"

definition sector_write :: "(nat \<Rightarrow> u8) \<Rightarrow> u32 \<Rightarrow> u32 \<Rightarrow> mem \<Rightarrow> nat \<Rightarrow> u8" where
  "sector_write disk lba buf m =
     (\<lambda>x. if 512 * unat lba \<le> x \<and> x < 512 * unat lba + 512 then m (buf + of_nat (x - 512 * unat lba)) else disk x)"

lemma read_sector_ok:
  assumes "has_ata io (ata_get_io_base device) chan" and "ch_ready (chan d)" and "unat lba < 2 ^ 28"
  shows "\<exists>d'. ata_read_sector_lba28 io device lba buf m d =
      kret (sector_read (ch_disk (chan d) (\<not> ata_is_master device)) lba buf m, d') \<and>
    ch_ready (chan d') \<and> ch_disk (chan d') = ch_disk (chan d)"
proof -
  let ?d = "ata_lba28_command io device lba 0x20 d"
  obtain c where c: "chan ?d = c" "ch_disk c = ch_disk (chan d)" "ch_slave c = (\<not> ata_is_master device)"
    "ch_transfer c = Sending (512 * unat lba) 256"
    using command_ok [OF assms(1) _ assms(3), of d "0x20"] assms(2) by (auto simp: ch_ready_def)
  obtain d1 where d1: "ata_wait_busy io (ata_get_io_base device + 7) ?d = kret d1" "chan d1 = c\<lparr>ch_busy := 0\<rparr>"
    using wait_busy_ok [OF assms(1), of ?d] c(1) by auto
  obtain c1 where c1: "chan d1 = c1" "ch_busy c1 = 0" "ch_disk c1 = ch_disk (chan d)" "ch_slave c1 = (\<not> ata_is_master device)"
    "ch_transfer c1 = Sending (512 * unat lba) 256"
    using c d1(2) by (simp add: ch_slave_def)
  show ?thesis
    using read_words_ok [OF assms(1) c1(1,2,5), of 256 buf m, unfolded c1(3,4)] d1(1) c1(2,3)
    by (auto simp: ata_read_sector_lba28_def Let_def port_defs ata_regs ATA_COMMAND_READ_SECTORS_def sector_read_def ch_ready_def)
qed

lemma write_sector_ok:
  assumes "has_ata io (ata_get_io_base device) chan" and "ch_ready (chan d)" and "unat lba < 2 ^ 28"
  shows "\<exists>d'. ata_write_sector_lba28 io device lba buf m d = kret d' \<and> ch_transfer (chan d') = Idle \<and>
    (prompt_drive io (ata_get_io_base device) chan \<longrightarrow> ch_ready (chan d')) \<and>
    ch_disk (chan d') = (ch_disk (chan d))(\<not> ata_is_master device :=
      sector_write (ch_disk (chan d) (\<not> ata_is_master device)) lba buf m)"
proof -
  let ?d = "ata_lba28_command io device lba 0x30 d"
  obtain c where c: "chan ?d = c" "ch_disk c = ch_disk (chan d)" "ch_slave c = (\<not> ata_is_master device)"
    "ch_transfer c = Receiving (512 * unat lba) 256"
    using command_ok [OF assms(1) _ assms(3), of d "0x30"] assms(2) by (auto simp: ch_ready_def)
  obtain d1 where d1: "ata_wait_busy io (ata_get_io_base device + 7) ?d = kret d1" "chan d1 = c\<lparr>ch_busy := 0\<rparr>"
    using wait_busy_ok [OF assms(1), of ?d] c(1) by auto
  obtain c1 where c1: "chan d1 = c1" "ch_busy c1 = 0" "ch_disk c1 = ch_disk (chan d)" "ch_slave c1 = (\<not> ata_is_master device)"
    "ch_transfer c1 = Receiving (512 * unat lba) 256"
    using c d1(2) by (simp add: ch_slave_def)
  show ?thesis
    using write_words_ok [OF assms(1) c1(1,2,5), of 256 m buf, unfolded c1(3,4)] d1(1) c1(2,3)
    by (auto simp: ata_write_sector_lba28_def Let_def port_defs ata_regs ATA_COMMAND_WRITE_SECTORS_def sector_write_def ch_ready_def)
qed


section \<open>A range of bytes\<close>

text \<open>
  The part of sector \<open>i\<close> in the range of \<open>n\<close> bytes from \<open>a\<close>, and the number of bytes in the sectors before it.
\<close>

definition part_lo :: "nat \<Rightarrow> nat \<Rightarrow> nat" where
  "part_lo a i = max a (512 * i)"

definition part_hi :: "nat \<Rightarrow> nat \<Rightarrow> nat \<Rightarrow> nat" where
  "part_hi a n i = min (a + n) (512 * i + 512)"

definition part_done :: "nat \<Rightarrow> nat \<Rightarrow> nat \<Rightarrow> nat" where
  "part_done a n i = min (a + n) (max a (512 * i)) - a"

lemma part_sector:
  assumes "a div 512 \<le> i" and "i \<le> (a + n - 1) div 512" and "0 < n"
  shows "512 * i \<le> part_lo a i" "part_lo a i < part_hi a n i" "part_hi a n i \<le> 512 * i + 512" "part_hi a n i \<le> a + n"
    "part_lo a i = a + part_done a n i" "part_done a n (Suc i) = part_done a n i + (part_hi a n i - part_lo a i)"
    "part_done a n i + (part_hi a n i - part_lo a i) \<le> n"
proof -
  have "a div 512 < i + 1"
    using assms(1) by simp
  then have "a < (i + 1) * 512"
    by (simp only: div_less_iff_less_mult)
  moreover have "i * 512 \<le> a + n - 1"
    using assms(2) by (simp add: less_eq_div_iff_mult_less_eq)
  ultimately have i: "a < 512 * i + 512" "512 * i < a + n"
    using assms(3) by (simp_all add: mult.commute)
  show "512 * i \<le> part_lo a i" "part_lo a i < part_hi a n i" "part_hi a n i \<le> 512 * i + 512" "part_hi a n i \<le> a + n"
    "part_lo a i = a + part_done a n i" "part_done a n (Suc i) = part_done a n i + (part_hi a n i - part_lo a i)"
    "part_done a n i + (part_hi a n i - part_lo a i) \<le> n"
    using i assms(3) by (auto simp: part_lo_def part_hi_def part_done_def min_def max_def)
qed

lemma part_bounds: "part_done a n (a div 512) = 0" "0 < n \<Longrightarrow> part_done a n (Suc ((a + n - 1) div 512)) = n"
proof -
  show "part_done a n (a div 512) = 0"
    by (simp add: part_done_def)
  assume "0 < n"
  have "(a + n - 1) div 512 < (a + n - 1) div 512 + 1"
    by simp
  then have "a + n - 1 < ((a + n - 1) div 512 + 1) * 512"
    by (simp only: div_less_iff_less_mult)
  then have "a + n \<le> 512 * Suc ((a + n - 1) div 512)"
    using \<open>0 < n\<close> by simp
  then show "part_done a n (Suc ((a + n - 1) div 512)) = n"
    by (simp add: part_done_def min_def max_def)
qed

lemma unat_last: "0 < unat n \<Longrightarrow> unat a + unat n < 4294967296 \<Longrightarrow> unat (a + n - 1 :: u32) = unat a + unat n - 1"
proof -
  assume n: "0 < unat n" and fits: "unat a + unat n < 4294967296"
  then have "unat (a + n) = unat a + unat n"
    by (simp add: unat_add_u32)
  moreover from this have "a + n \<noteq> 0"
    using n by auto
  ultimately show ?thesis
    by (simp add: unat_minus_one)
qed

lemma unat_offset:
  assumes "unat a div 512 \<le> unat i"
  shows "unat (ata_offset (a div 512) (a mod 512) i) = part_lo (unat a) (unat i) - 512 * unat i"
proof (cases "i = a div 512")
  case True
  then have "unat i = unat a div 512"
    by (simp add: unat_div)
  moreover have "max (unat a) (512 * (unat a div 512)) = unat a" "unat a - 512 * (unat a div 512) = unat a mod 512"
    by (simp_all add: minus_mult_div_eq_mod)
  ultimately show ?thesis
    using True by (simp add: ata_offset_def part_lo_def unat_mod)
next
  case False
  then have "unat i \<noteq> unat a div 512"
    by (auto simp: word_unat_eq_iff unat_div)
  then have "unat a \<le> 512 * unat i"
    using assms by linarith
  then show ?thesis
    using False by (simp add: ata_offset_def part_lo_def)
qed

lemma unat_length:
  assumes n: "0 < unat n" and fits: "unat a + unat n < 4294967296"
    and i: "unat a div 512 \<le> unat i" "unat i \<le> (unat a + unat n - 1) div 512"
  shows "unat (ata_length (a div 512) (a mod 512) ((a + n - 1) div 512) ((a + n - 1) mod 512) i) =
      part_hi (unat a) (unat n) (unat i) - part_lo (unat a) (unat i)"
proof -
  let ?l = "unat a + unat n - 1" and ?lo = "part_lo (unat a) (unat i)" and ?hi = "part_hi (unat a) (unat n) (unat i)"
  note off = unat_offset [OF i(1)]
  note part = part_sector [OF i n]
  have start: "i = a div 512 \<longleftrightarrow> unat i = unat a div 512" and ende: "i = (a + n - 1) div 512 \<longleftrightarrow> unat i = ?l div 512"
    by (simp_all add: word_unat_eq_iff unat_div unat_last [OF n fits])
  show ?thesis
  proof (cases "i = (a + n - 1) div 512")
    case True
    then have hi: "?hi = unat a + unat n"
      unfolding part_hi_def ende by linarith
    have eo: "unat ((a + n - 1) mod 512) = ?l - 512 * unat i"
      using True unfolding ende by (simp add: unat_mod unat_last [OF n fits] minus_mult_div_eq_mod)
    have "unat ((a + n - 1) mod 512 - ata_offset (a div 512) (a mod 512) i) = ?hi - 1 - ?lo"
      using eo off part hi n unfolding unat_sub_u32 by simp
    moreover have "?hi - 1 - ?lo + 1 < 4294967296"
      using part(4) fits part(2) by linarith
    ultimately show ?thesis
      using True part(2) by (simp add: ata_length_def unat_add_u32)
  next
    case False
    then have hi: "?hi = 512 * unat i + 512"
      using i(2) unfolding part_hi_def ende by linarith
    show ?thesis
    proof (cases "i = a div 512")
      case True
      then have "unat (a mod 512) = ?lo - 512 * unat i"
        using off by (simp add: ata_offset_def)
      then have "unat (512 - a mod 512) = 512 - (?lo - 512 * unat i)"
        using part by (subst unat_sub_u32) auto
      then show ?thesis
        using True False hi part by (simp add: ata_length_def ATA_SECTOR_SIZE_def)
    next
      case nostart: False
      then have "?lo = 512 * unat i"
        using i(1) unfolding start part_lo_def by linarith
      then show ?thesis
        using False nostart hi by (simp add: ata_length_def ATA_SECTOR_SIZE_def)
    qed
  qed
qed


text \<open>
  One round of each loop.  The sector is read into the buffer, and the part of it in the range is copied out, or
  replaced and written back.
\<close>

lemma in_part:
  assumes "p = buf + of_nat k" and "k + l \<le> N" and "N < 4294967296"
  shows "in_range x p l \<longleftrightarrow> in_range x buf N \<and> k \<le> unat (x - buf) \<and> unat (x - buf) < k + l"
    and "in_range x p l \<Longrightarrow> unat (x - p) = unat (x - buf) - k"
proof -
  have x: "x = buf + of_nat (unat (x - buf))"
    by simp
  have "unat (x - buf) < 4294967296"
    by simp
  then show rng: "in_range x p l \<longleftrightarrow> in_range x buf N \<and> k \<le> unat (x - buf) \<and> unat (x - buf) < k + l"
    using in_range_window [of "unat (x - buf)" k l buf] assms unfolding in_range_def by (auto simp: x [symmetric])
  assume "in_range x p l"
  with rng have "k \<le> unat (x - buf)"
    by blast
  moreover have "x - p = (x - buf) - of_nat k" and k: "unat (of_nat k :: u32) = k"
    using assms by (simp_all add: algebra_simps)
  ultimately show "unat (x - p) = unat (x - buf) - k"
    using unat_sub_u32 [of "x - buf" "of_nat k"] by (simp only: k if_True)
qed

lemma read_round:
  assumes dis: "disjoint_ranges buf N sector_buf 512" and N: "N < 4294967296"
    and p: "p = buf + of_nat k" "k + unat l \<le> N" and off: "unat off + unat l \<le> 512"
  shows "memcpy (sector_read disk lba sector_buf m) p (sector_buf + off) l =
    (\<lambda>x. if in_range x buf N \<and> k \<le> unat (x - buf) \<and> unat (x - buf) < k + unat l
      then disk (512 * unat lba + unat off + (unat (x - buf) - k))
      else if in_range x sector_buf 512 then disk (512 * unat lba + unat (x - sector_buf)) else m x)"
proof -
  note part = in_part [OF p N]
  note src = in_part [of "sector_buf + off" sector_buf "unat off" "unat l" 512]
  have "disjoint_ranges p (unat l) (sector_buf + off) (unat l)"
    using dis part(1) src(1) off unfolding disjoint_ranges_def by simp blast
  then have "memcpy (sector_read disk lba sector_buf m) p (sector_buf + off) l x =
      (if in_range x p (unat l) then sector_read disk lba sector_buf m (sector_buf + off + (x - p)) else sector_read disk lba sector_buf m x)" for x
    by (simp add: memcpy_eq copy_ok_disjoint)
  moreover have "sector_read disk lba sector_buf m (sector_buf + off + (x - p)) = disk (512 * unat lba + unat off + (unat (x - buf) - k))"
    if "in_range x p (unat l)" for x
  proof -
    have "unat (x - p) < unat l"
      using that by (simp add: in_range_def)
    then have "unat (off + (x - p)) = unat off + (unat (x - buf) - k)" "unat (off + (x - p)) < 512"
      using off part(2) [OF that] by (simp_all add: unat_add_u32)
    then show ?thesis
      by (simp add: sector_read_def in_range_def add.assoc)
  qed
  ultimately show ?thesis
    unfolding part(1) [symmetric] by (auto simp: fun_eq_iff sector_read_def)
qed


lemma write_round:
  assumes dis: "disjoint_ranges buf N sector_buf 512" and N: "N < 4294967296"
    and p: "p = buf + of_nat k" "k + unat l \<le> N" and off: "unat off + unat l \<le> 512"
    and m'_def: "m' = memcpy (sector_read disk lba sector_buf m) (sector_buf + off) p l"
  shows "\<not> in_range x sector_buf 512 \<Longrightarrow> m' x = m x"
    and "sector_write disk lba sector_buf m' =
      (\<lambda>x. if 512 * unat lba + unat off \<le> x \<and> x < 512 * unat lba + unat off + unat l
        then m (buf + of_nat (k + (x - (512 * unat lba + unat off)))) else disk x)"
proof -
  note part = in_part [OF p N]
  note dst = in_part [of "sector_buf + off" sector_buf "unat off" "unat l" 512]
  have "disjoint_ranges (sector_buf + off) (unat l) p (unat l)"
    using dis part(1) dst(1) off unfolding disjoint_ranges_def by simp
  then have m': "m' x = (if in_range x (sector_buf + off) (unat l) then sector_read disk lba sector_buf m (p + (x - (sector_buf + off)))
      else sector_read disk lba sector_buf m x)" for x
    by (simp add: m'_def memcpy_eq copy_ok_disjoint)
  show "\<not> in_range x sector_buf 512 \<Longrightarrow> m' x = m x"
    using dst(1) [of x] off by (simp add: m' sector_read_def)
  show "sector_write disk lba sector_buf m' =
      (\<lambda>x. if 512 * unat lba + unat off \<le> x \<and> x < 512 * unat lba + unat off + unat l
        then m (buf + of_nat (k + (x - (512 * unat lba + unat off)))) else disk x)"
  proof
    fix x
    show "sector_write disk lba sector_buf m' x =
      (if 512 * unat lba + unat off \<le> x \<and> x < 512 * unat lba + unat off + unat l
        then m (buf + of_nat (k + (x - (512 * unat lba + unat off)))) else disk x)"
    proof (cases "512 * unat lba \<le> x \<and> x < 512 * unat lba + 512")
      case True
      define j where "j = x - 512 * unat lba"
      have j: "x = 512 * unat lba + j" "j < 512"
        using True by (auto simp: j_def less_diff_conv2 add.commute)
      let ?y = "sector_buf + of_nat j"
      have uj: "unat (?y - sector_buf) = j"
        using j(2) by simp
      have y: "in_range ?y (sector_buf + off) (unat l) \<longleftrightarrow> unat off \<le> j \<and> j < unat off + unat l"
        using dst(1) [of ?y] off j(2) by simp
      have "m' ?y = (if unat off \<le> j \<and> j < unat off + unat l then m (buf + of_nat (k + (j - unat off))) else disk x)"
      proof (cases "unat off \<le> j \<and> j < unat off + unat l")
        case inside: True
        have "?y - (sector_buf + off) = of_nat (j - unat off)"
          using inside by (simp add: of_nat_diff)
        then have src: "p + (?y - (sector_buf + off)) = buf + of_nat (k + (j - unat off))"
          by (simp add: p(1) add.assoc)
        have "k + (j - unat off) < N" "k + (j - unat off) < 4294967296"
          using inside p(2) N by linarith+
        then have "in_range (buf + of_nat (k + (j - unat off))) buf N"
          by (simp only: in_range_offset)
        then have out: "\<not> in_range (buf + of_nat (k + (j - unat off))) sector_buf 512"
          using dis unfolding disjoint_ranges_def by blast
        show ?thesis
          unfolding m' sector_read_def src y using inside out by (simp only: if_True if_False simp_thms)
      next
        case False
        have "in_range ?y sector_buf 512"
          using j(2) by (simp add: in_range_def)
        with False show ?thesis
          unfolding m' sector_read_def y uj j(1) by (simp only: if_True if_False)
      qed
      then show ?thesis
        using True j by (simp add: sector_write_def)
    next
      case False
      then show ?thesis
        using off by (auto simp: sector_write_def)
    qed
  qed
qed


text \<open>What both loops need, and where they are before sector \<open>i\<close>.\<close>

definition range_ok :: "'d ports \<Rightarrow> ata_device \<Rightarrow> ('d \<Rightarrow> ata_channel) \<Rightarrow> u32 \<Rightarrow> u32 \<Rightarrow> u32 \<Rightarrow> u32 \<Rightarrow> bool" where
  "range_ok io device chan a n buf sector_buf \<longleftrightarrow>
     has_ata io (ata_get_io_base device) chan \<and> 0 < unat n \<and> unat a + unat n < 4294967296 \<and>
     disjoint_ranges buf (unat n) sector_buf 512"

lemma range_round:
  assumes "range_ok io device chan a n buf sector_buf" and "unat a div 512 \<le> unat i" and "unat i \<le> (unat a + unat n - 1) div 512"
  defines "off \<equiv> ata_offset (a div 512) (a mod 512) i"
    and "l \<equiv> ata_length (a div 512) (a mod 512) ((a + n - 1) div 512) ((a + n - 1) mod 512) i"
    and "k \<equiv> part_done (unat a) (unat n) (unat i)"
  shows "i \<le> (a + n - 1) div 512" "unat i < 2 ^ 28" "unat off + unat l \<le> 512" "k + unat l \<le> unat n"
    "512 * unat i + unat off = unat a + k" "part_done (unat a) (unat n) (Suc (unat i)) = k + unat l" "unat (i + 1) = Suc (unat i)"
proof -
  have n: "0 < unat n" and fits: "unat a + unat n < 4294967296"
    using assms(1) by (simp_all add: range_ok_def)
  note part = part_sector [OF assms(2,3) n]
  have off: "unat off = part_lo (unat a) (unat i) - 512 * unat i" and l: "unat l = part_hi (unat a) (unat n) (unat i) - part_lo (unat a) (unat i)"
    unfolding off_def l_def using unat_offset [OF assms(2)] unat_length [OF n fits assms(2,3)] by simp_all
  show "i \<le> (a + n - 1) div 512"
    using assms(3) by (simp add: word_le_nat_alt unat_div unat_last [OF n fits])
  have "(unat a + unat n - 1) div 512 < 2 ^ 23"
    using fits by (simp add: less_mult_imp_div_less)
  then show i: "unat i < 2 ^ 28"
    using assms(3) by simp
  then show "unat (i + 1) = Suc (unat i)"
    by (simp add: unat_add_u32)
  show "unat off + unat l \<le> 512" "k + unat l \<le> unat n" "512 * unat i + unat off = unat a + k"
    "part_done (unat a) (unat n) (Suc (unat i)) = k + unat l"
    using part unfolding off l k_def by simp_all
qed

lemma read_loop_ok:
  assumes ok: "range_ok io device chan a n buf sector_buf" and "ch_ready (chan d)"
    and "unat a div 512 \<le> unat i" and "unat i \<le> Suc ((unat a + unat n - 1) div 512)"
  shows "\<exists>m' d'. ata_read_loop io device (a div 512) (a mod 512) ((a + n - 1) div 512) ((a + n - 1) mod 512) sector_buf i
      (buf + of_nat (part_done (unat a) (unat n) (unat i))) (of_nat (part_done (unat a) (unat n) (unat i))) m d = kret (n, m', d') \<and>
    ch_ready (chan d') \<and> ch_disk (chan d') = ch_disk (chan d) \<and>
    (\<forall>x. in_range x buf (unat n) \<and> part_done (unat a) (unat n) (unat i) \<le> unat (x - buf) \<longrightarrow>
      m' x = ch_disk (chan d) (\<not> ata_is_master device) (unat a + unat (x - buf))) \<and>
    (\<forall>x. \<not> in_range x sector_buf 512 \<and> \<not> (in_range x buf (unat n) \<and> part_done (unat a) (unat n) (unat i) \<le> unat (x - buf)) \<longrightarrow> m' x = m x)"
  using assms(2-4)
proof (induction "Suc ((unat a + unat n - 1) div 512) - unat i" arbitrary: i m d)
  case 0
  then have "unat i = Suc ((unat a + unat n - 1) div 512)"
    by simp
  moreover have n: "0 < unat n" and fits: "unat a + unat n < 4294967296"
    using ok by (simp_all add: range_ok_def)
  ultimately have "\<not> i \<le> (a + n - 1) div 512" "part_done (unat a) (unat n) (unat i) = unat n"
    using part_bounds(2) [OF n, of "unat a"] by (simp_all add: word_le_nat_alt unat_div unat_last [OF n fits])
  then show ?case
    using 0 by (auto simp: ata_read_loop.simps in_range_def)
next
  case (Suc r)
  let ?off = "ata_offset (a div 512) (a mod 512) i"
  let ?l = "ata_length (a div 512) (a mod 512) ((a + n - 1) div 512) ((a + n - 1) mod 512) i"
  let ?k = "part_done (unat a) (unat n) (unat i)"
  have le: "unat i \<le> (unat a + unat n - 1) div 512"
    using Suc.hyps(2) by simp
  note rd = range_round [OF ok Suc.prems(2) le]
  have hw: "has_ata io (ata_get_io_base device) chan" and dis: "disjoint_ranges buf (unat n) sector_buf 512"
    using ok by (simp_all add: range_ok_def)
  let ?disk = "ch_disk (chan d) (\<not> ata_is_master device)"
  obtain d1 where d1: "ata_read_sector_lba28 io device i sector_buf m d = kret (sector_read ?disk i sector_buf m, d1)"
    "ch_ready (chan d1)" "ch_disk (chan d1) = ch_disk (chan d)"
    using read_sector_ok [OF hw Suc.prems(1) rd(2)] by blast
  let ?m = "memcpy (sector_read ?disk i sector_buf m) (buf + of_nat ?k) (sector_buf + ?off) ?l"
  note rr = read_round [OF dis _ refl rd(4,3), of ?disk i m, OF unat_lt_u32]
  have step: "buf + of_nat ?k + ?l = buf + of_nat (part_done (unat a) (unat n) (unat (i + 1)))"
    "of_nat ?k + ?l = of_nat (part_done (unat a) (unat n) (unat (i + 1)))"
    unfolding rd(7,6) by (simp_all add: add.assoc)
  have "r = Suc ((unat a + unat n - 1) div 512) - unat (i + 1)" "unat a div 512 \<le> unat (i + 1)" "unat (i + 1) \<le> Suc ((unat a + unat n - 1) div 512)"
    using Suc.hyps(2) Suc.prems(2) le rd(7) by simp_all
  from Suc.hyps(1) [OF this(1) d1(2) this(2,3), of ?m] obtain m' d' where
    run: "ata_read_loop io device (a div 512) (a mod 512) ((a + n - 1) div 512) ((a + n - 1) mod 512) sector_buf (i + 1)
      (buf + of_nat (part_done (unat a) (unat n) (unat (i + 1)))) (of_nat (part_done (unat a) (unat n) (unat (i + 1)))) ?m d1 = kret (n, m', d')"
    and ready: "ch_ready (chan d')" "ch_disk (chan d') = ch_disk (chan d)"
    and new: "\<And>x. in_range x buf (unat n) \<Longrightarrow> ?k + unat ?l \<le> unat (x - buf) \<Longrightarrow> m' x = ?disk (unat a + unat (x - buf))"
    and old: "\<And>x. \<not> in_range x sector_buf 512 \<Longrightarrow> \<not> (in_range x buf (unat n) \<and> ?k + unat ?l \<le> unat (x - buf)) \<Longrightarrow> m' x = ?m x"
    unfolding d1(3) rd(7,6) by blast
  have "ata_read_loop io device (a div 512) (a mod 512) ((a + n - 1) div 512) ((a + n - 1) mod 512) sector_buf i
      (buf + of_nat ?k) (of_nat ?k) m d = kret (n, m', d')"
    using rd(1) by (subst ata_read_loop.simps) (simp add: d1(1) run step)
  moreover have "m' x = ?disk (unat a + unat (x - buf))" if x: "in_range x buf (unat n)" "?k \<le> unat (x - buf)" for x
  proof (cases "?k + unat ?l \<le> unat (x - buf)")
    case False
    have "\<not> in_range x sector_buf 512"
      using x(1) dis unfolding disjoint_ranges_def by blast
    then have "m' x = ?m x"
      using old False by blast
    also have "\<dots> = ?disk (unat a + ?k + (unat (x - buf) - ?k))"
      unfolding rr rd(5) using x False by simp
    finally show ?thesis
      using x(2) by simp
  qed (use new x in blast)
  moreover have "m' x = m x" if x: "\<not> in_range x sector_buf 512" "\<not> (in_range x buf (unat n) \<and> ?k \<le> unat (x - buf))" for x
  proof -
    have "m' x = ?m x"
      using old x by auto
    then show ?thesis
      using x unfolding rr by auto
  qed
  ultimately show ?case
    using ready by blast
qed


text \<open>
  The disk with the bytes of a buffer at \<open>a\<close>.  The loop that writes takes the next sector at once after the last word of
  the one before, so it needs a drive that is ready there, unless the range lies in one sector.
\<close>

definition disk_put :: "(nat \<Rightarrow> u8) \<Rightarrow> nat \<Rightarrow> nat \<Rightarrow> (nat \<Rightarrow> u8) \<Rightarrow> nat \<Rightarrow> u8" where
  "disk_put disk a e src = (\<lambda>x. if a \<le> x \<and> x < e then src x else disk x)"

lemma disk_put_append:
  "a \<le> b \<Longrightarrow> b \<le> e \<Longrightarrow> disk_put (disk_put disk a b src) b e src = disk_put disk a e src"
  by (auto simp: disk_put_def fun_eq_iff)

definition write_paced :: "'d ports \<Rightarrow> ata_device \<Rightarrow> ('d \<Rightarrow> ata_channel) \<Rightarrow> u32 \<Rightarrow> u32 \<Rightarrow> bool" where
  "write_paced io device chan a n \<longleftrightarrow>
     unat a div 512 = (unat a + unat n - 1) div 512 \<or> prompt_drive io (ata_get_io_base device) chan"

lemma write_loop_ok:
  assumes ok: "range_ok io device chan a n buf sector_buf" and paced: "write_paced io device chan a n"
    and "ch_transfer (chan d) = Idle" and "unat i \<le> (unat a + unat n - 1) div 512 \<or> prompt_drive io (ata_get_io_base device) chan \<longrightarrow> ch_ready (chan d)"
    and "unat a div 512 \<le> unat i" and "unat i \<le> Suc ((unat a + unat n - 1) div 512)"
    and "\<forall>x. in_range x buf (unat n) \<longrightarrow> m x = m0 x"
  shows "\<exists>m' d'. ata_write_loop io device (a div 512) (a mod 512) ((a + n - 1) div 512) ((a + n - 1) mod 512) sector_buf i
      (buf + of_nat (part_done (unat a) (unat n) (unat i))) (of_nat (part_done (unat a) (unat n) (unat i))) m d = kret (n, m', d') \<and>
    ch_transfer (chan d') = Idle \<and> (prompt_drive io (ata_get_io_base device) chan \<longrightarrow> ch_ready (chan d')) \<and>
    ch_disk (chan d') = (ch_disk (chan d))(\<not> ata_is_master device :=
      disk_put (ch_disk (chan d) (\<not> ata_is_master device)) (unat a + part_done (unat a) (unat n) (unat i)) (unat a + unat n)
        (\<lambda>x. m0 (buf + of_nat (x - unat a)))) \<and>
    (\<forall>x. \<not> in_range x sector_buf 512 \<longrightarrow> m' x = m x)"
  using assms(3-7)
proof (induction "Suc ((unat a + unat n - 1) div 512) - unat i" arbitrary: i m d)
  case 0
  then have "unat i = Suc ((unat a + unat n - 1) div 512)"
    by simp
  moreover have n: "0 < unat n" and fits: "unat a + unat n < 4294967296"
    using ok by (simp_all add: range_ok_def)
  ultimately have i: "\<not> i \<le> (a + n - 1) div 512" "part_done (unat a) (unat n) (unat i) = unat n"
    using part_bounds(2) [OF n, of "unat a"] by (simp_all add: word_le_nat_alt unat_div unat_last [OF n fits])
  moreover have "disk_put f e e src = f" for f e src
    by (auto simp: disk_put_def fun_eq_iff)
  ultimately show ?case
    using 0 by (subst ata_write_loop.simps) (simp only: i if_False, simp)
next
  case (Suc r)
  let ?off = "ata_offset (a div 512) (a mod 512) i"
  let ?l = "ata_length (a div 512) (a mod 512) ((a + n - 1) div 512) ((a + n - 1) mod 512) i"
  let ?k = "part_done (unat a) (unat n) (unat i)"
  have le: "unat i \<le> (unat a + unat n - 1) div 512"
    using Suc.hyps(2) by simp
  note rd = range_round [OF ok Suc.prems(3) le]
  have hw: "has_ata io (ata_get_io_base device) chan" and dis: "disjoint_ranges buf (unat n) sector_buf 512"
    using ok by (simp_all add: range_ok_def)
  define sl where "sl = (\<not> ata_is_master device)"
  let ?disk = "ch_disk (chan d) sl" and ?src = "\<lambda>x. m0 (buf + of_nat (x - unat a))"
  obtain d1 where d1: "ata_read_sector_lba28 io device i sector_buf m d = kret (sector_read ?disk i sector_buf m, d1)"
    "ch_ready (chan d1)" "ch_disk (chan d1) = ch_disk (chan d)"
    using read_sector_ok [OF hw _ rd(2)] Suc.prems(2) le unfolding sl_def by blast
  define m1 where "m1 = memcpy (sector_read ?disk i sector_buf m) (sector_buf + ?off) (buf + of_nat ?k) ?l"
  obtain d2 where d2: "ata_write_sector_lba28 io device i sector_buf m1 d1 = kret d2" "ch_transfer (chan d2) = Idle"
    "prompt_drive io (ata_get_io_base device) chan \<longrightarrow> ch_ready (chan d2)"
    "ch_disk (chan d2) = (ch_disk (chan d))(sl := sector_write ?disk i sector_buf m1)"
    using write_sector_ok [OF hw d1(2) rd(2), of sector_buf m1] unfolding d1(3) sl_def by blast
  note wr = write_round [OF dis unat_lt_u32 refl rd(4,3) m1_def]
  have "m (buf + of_nat (?k + (x - (unat a + ?k)))) = ?src x" if "unat a + ?k \<le> x" "x < unat a + ?k + unat ?l" for x
  proof -
    have "?k + (x - (unat a + ?k)) = x - unat a" "x - unat a < unat n"
      using that rd(4) by linarith+
    then show ?thesis
      using Suc.prems(5) by (simp add: less_trans [OF _ unat_lt_u32])
  qed
  then have disk: "sector_write ?disk i sector_buf m1 = disk_put ?disk (unat a + ?k) (unat a + (?k + unat ?l)) ?src"
    unfolding wr(2) rd(5) disk_put_def by (auto simp: fun_eq_iff simp del: of_nat_add)
  have step: "buf + of_nat ?k + ?l = buf + of_nat (part_done (unat a) (unat n) (unat (i + 1)))"
    "of_nat ?k + ?l = of_nat (part_done (unat a) (unat n) (unat (i + 1)))"
    unfolding rd(7,6) by (simp_all add: add.assoc)
  have m1: "\<forall>x. in_range x buf (unat n) \<longrightarrow> m1 x = m0 x"
    using wr(1) Suc.prems(5) dis unfolding disjoint_ranges_def by metis
  have "r = Suc ((unat a + unat n - 1) div 512) - unat (i + 1)" "unat a div 512 \<le> unat (i + 1)" "unat (i + 1) \<le> Suc ((unat a + unat n - 1) div 512)"
    using Suc.hyps(2) Suc.prems(3) le rd(7) by simp_all
  note range = this
  have "unat (i + 1) \<le> (unat a + unat n - 1) div 512 \<or> prompt_drive io (ata_get_io_base device) chan \<longrightarrow> ch_ready (chan d2)"
    using paced d2(3) rd(7) Suc.prems(3) unfolding write_paced_def by auto
  from Suc.hyps(1) [OF range(1) d2(2) this range(2,3) m1] obtain m' d' where
    run: "ata_write_loop io device (a div 512) (a mod 512) ((a + n - 1) div 512) ((a + n - 1) mod 512) sector_buf (i + 1)
      (buf + of_nat (part_done (unat a) (unat n) (unat (i + 1)))) (of_nat (part_done (unat a) (unat n) (unat (i + 1)))) m1 d2 = kret (n, m', d')"
    and idle: "ch_transfer (chan d') = Idle" "prompt_drive io (ata_get_io_base device) chan \<longrightarrow> ch_ready (chan d')"
    and new: "ch_disk (chan d') = (ch_disk (chan d2))(sl := disk_put (ch_disk (chan d2) sl) (unat a + (?k + unat ?l)) (unat a + unat n) ?src)"
    and old: "\<And>x. \<not> in_range x sector_buf 512 \<Longrightarrow> m' x = m1 x"
    unfolding rd(7,6) sl_def by blast
  have "ata_write_loop io device (a div 512) (a mod 512) ((a + n - 1) div 512) ((a + n - 1) mod 512) sector_buf i
      (buf + of_nat ?k) (of_nat ?k) m d = kret (n, m', d')"
    using rd(1) by (subst ata_write_loop.simps) (simp add: d1(1) m1_def [symmetric] d2(1) run step)
  moreover have "ch_disk (chan d') = (ch_disk (chan d))(sl := disk_put ?disk (unat a + ?k) (unat a + unat n) ?src)"
    unfolding new d2(4) disk fun_upd_same fun_upd_upd using rd(4) by (subst disk_put_append) simp_all
  moreover have "\<forall>x. \<not> in_range x sector_buf 512 \<longrightarrow> m' x = m x"
    using old wr(1) by simp
  ultimately show ?case
    using idle unfolding sl_def by blast
qed


section \<open>Reading and writing\<close>

definition drive_disk :: "('d \<Rightarrow> ata_channel) \<Rightarrow> ata_device \<Rightarrow> 'd \<Rightarrow> nat \<Rightarrow> u8" where
  "drive_disk chan device d = ch_disk (chan d) (\<not> ata_is_master device)"

text \<open>A request within the drive, with a buffer that is a payload of the heap.\<close>

definition ata_request_ok :: "ata_device \<Rightarrow> kheap \<Rightarrow> (nat \<times> nat) set \<Rightarrow> u32 \<Rightarrow> u32 \<Rightarrow> u32 \<Rightarrow> bool" where
  "ata_request_ok device h L a buf n \<longleftrightarrow>
     ad_present device \<and> ad_lba_supported device \<and> 0 < unat n \<and> unat a + unat n \<le> unat (ad_size device) \<and>
     heap_owns h L \<and> request_ok h 512 \<and> (\<exists>s. (unat buf, s) \<in> L \<and> unat n \<le> s)"

lemma ata_request:
  assumes "ata_request_ok device h L a buf n" and "kmalloc h 512 = kret (sector_buf, h1)" and "sector_buf \<noteq> 0"
    and "has_ata io (ata_get_io_base device) chan"
  shows "range_ok io device chan a n buf sector_buf" "\<not> ad_size device < a + n"
    "mem h1 = mem h" "\<exists>s. heap_owns h1 (insert (unat sector_buf, s) L)"
proof -
  note ok = assms(1) [unfolded ata_request_ok_def]
  have fits: "unat a + unat n < 4294967296"
    using ok unat_lt_u32 [of "ad_size device"] by linarith
  then show "\<not> ad_size device < a + n"
    using ok by (simp add: word_less_nat_alt unat_add_u32)
  obtain s where s: "heap_owns h1 (insert (unat sector_buf, s) L)" "mem h1 = mem h" "\<forall>(q, k) \<in> L. disjoint_ranges sector_buf 512 (adr q) k"
    using heap_alloc.alloc_fresh [of h L 512 sector_buf h1] ok assms(2,3) by auto
  obtain k where k: "(unat buf, k) \<in> L" "unat n \<le> k"
    using ok by blast
  have "disjoint_ranges buf (unat n) sector_buf 512"
  proof (rule disjoint_ranges_mono [OF disjoint_ranges_sym])
    show "disjoint_ranges sector_buf 512 buf k"
      using bspec [OF s(3) k(1)] by simp
  qed (use k(2) in simp_all)
  then show "range_ok io device chan a n buf sector_buf"
    using ok fits assms(4) by (simp add: range_ok_def)
  show "mem h1 = mem h" "\<exists>s. heap_owns h1 (insert (unat sector_buf, s) L)"
    using s by blast+
qed

lemma ata_read_ok:
  assumes "ata_request_ok device h L a buf n" and "kmalloc h 512 = kret (sector_buf, h1)" and "sector_buf \<noteq> 0"
    and "has_ata io (ata_get_io_base device) chan" and "ch_ready (chan d)"
  shows "\<exists>m' d'. ata_read io device a buf n h d = kret (n, h1\<lparr>mem := m'\<rparr>, d') \<and> ch_ready (chan d') \<and>
    ch_disk (chan d') = ch_disk (chan d) \<and>
    bytes_at m' buf (unat n) = map (drive_disk chan device d) [unat a..<unat a + unat n] \<and>
    (\<forall>x. \<not> in_range x buf (unat n) \<and> \<not> in_range x sector_buf 512 \<longrightarrow> m' x = mem h x)"
proof -
  note rq = ata_request [OF assms(1-4)]
  have ok: "ad_present device" "ad_lba_supported device"
    using assms(1) by (simp_all add: ata_request_ok_def)
  have zero: "part_done (unat a) (unat n) (unat (a div 512)) = 0"
    by (simp add: unat_div part_bounds)
  obtain m' d' where run: "ata_read_loop io device (a div 512) (a mod 512) ((a + n - 1) div 512) ((a + n - 1) mod 512) sector_buf
      (a div 512) buf 0 (mem h) d = kret (n, m', d')" and ready: "ch_ready (chan d')" "ch_disk (chan d') = ch_disk (chan d)"
    and new: "\<And>x. in_range x buf (unat n) \<Longrightarrow> m' x = drive_disk chan device d (unat a + unat (x - buf))"
    and old: "\<And>x. \<not> in_range x sector_buf 512 \<Longrightarrow> \<not> in_range x buf (unat n) \<Longrightarrow> m' x = mem h x"
    using read_loop_ok [OF rq(1) assms(5), of "a div 512" "mem h"] unfolding zero drive_disk_def
    by (force simp: unat_div div_le_mono)
  have "bytes_at m' buf (unat n) = map (drive_disk chan device d) [unat a..<unat a + unat n]"
  proof (rule nth_equalityI)
    fix j assume "j < length (bytes_at m' buf (unat n))"
    then have j: "j < unat n"
      by simp
    then have "j < 4294967296"
      by (rule less_trans [OF _ unat_lt_u32])
    with j show "bytes_at m' buf (unat n) ! j = map (drive_disk chan device d) [unat a..<unat a + unat n] ! j"
      using new [of "buf + of_nat j"] by simp
  qed simp
  moreover have "ata_read io device a buf n h d = kret (n, h1\<lparr>mem := m'\<rparr>, d')"
    using rq(2) ok assms(2,3) by (simp add: ata_read_def ATA_SECTOR_SIZE_def Let_def rq(3) run)
  ultimately show ?thesis
    using ready old by blast
qed

lemma ata_write_ok:
  assumes "ata_request_ok device h L a buf n" and "kmalloc h 512 = kret (sector_buf, h1)" and "sector_buf \<noteq> 0"
    and "has_ata io (ata_get_io_base device) chan" and "ch_ready (chan d)" and "write_paced io device chan a n"
  shows "\<exists>m' d'. ata_write io device a buf n h d = kret (n, h1\<lparr>mem := m'\<rparr>, d') \<and> ch_transfer (chan d') = Idle \<and>
    (prompt_drive io (ata_get_io_base device) chan \<longrightarrow> ch_ready (chan d')) \<and>
    ch_disk (chan d') = (ch_disk (chan d))(\<not> ata_is_master device :=
      disk_put (drive_disk chan device d) (unat a) (unat a + unat n) (\<lambda>x. mem h (buf + of_nat (x - unat a)))) \<and>
    (\<forall>x. \<not> in_range x sector_buf 512 \<longrightarrow> m' x = mem h x)"
proof -
  note rq = ata_request [OF assms(1-4)]
  have ok: "ad_present device" "ad_lba_supported device"
    using assms(1) by (simp_all add: ata_request_ok_def)
  have zero: "part_done (unat a) (unat n) (unat (a div 512)) = 0"
    by (simp add: unat_div part_bounds)
  have "unat a div 512 \<le> unat (a div 512)" "unat (a div 512) \<le> Suc ((unat a + unat n - 1) div 512)"
    using rq(1) by (simp_all add: unat_div range_ok_def div_le_mono le_SucI)
  from write_loop_ok [OF rq(1) assms(6) _ _ this, of d "mem h" "mem h"] assms(5) obtain m' d' where
    "ata_write_loop io device (a div 512) (a mod 512) ((a + n - 1) div 512) ((a + n - 1) mod 512) sector_buf
      (a div 512) buf 0 (mem h) d = kret (n, m', d')" "ch_transfer (chan d') = Idle" "prompt_drive io (ata_get_io_base device) chan \<longrightarrow> ch_ready (chan d')"
    "ch_disk (chan d') = (ch_disk (chan d))(\<not> ata_is_master device :=
      disk_put (drive_disk chan device d) (unat a) (unat a + unat n) (\<lambda>x. mem h (buf + of_nat (x - unat a))))"
    "\<forall>x. \<not> in_range x sector_buf 512 \<longrightarrow> m' x = mem h x"
    unfolding zero drive_disk_def ch_ready_def by auto
  moreover from this(1) have "ata_write io device a buf n h d = kret (n, h1\<lparr>mem := m'\<rparr>, d')"
    using rq(2) ok assms(2,3) by (simp add: ata_write_def ATA_SECTOR_SIZE_def Let_def rq(3))
  ultimately show ?thesis
    by blast
qed


text \<open>
  A machine with one channel, on which a command takes two readings of the status register and a sector that has come in
  completely takes \<open>t\<close>.
\<close>

definition ata_machine :: "nat \<Rightarrow> ata_channel ports" where
  "ata_machine t = \<lparr>
     in8 = (\<lambda>p c. if p = 0x1F7 then (if ch_busy c = 0 then 0x40 else 0x80, c\<lparr>ch_busy := ch_busy c - 1\<rparr>) else (0, c)),
     out8 = (\<lambda>p v c. if ch_busy c \<noteq> 0 then c else if p = 0x1F2 then c\<lparr>ch_count := v\<rparr> else if p = 0x1F3 then c\<lparr>ch_low := v\<rparr>
       else if p = 0x1F4 then c\<lparr>ch_mid := v\<rparr> else if p = 0x1F5 then c\<lparr>ch_high := v\<rparr> else if p = 0x1F6 then c\<lparr>ch_select := v\<rparr>
       else if p = 0x1F7 then (ch_command v c)\<lparr>ch_busy := 2\<rparr> else c),
     in16 = (\<lambda>p c. case ch_transfer c of Sending a k \<Rightarrow>
         (word_rcat [ch_disk c (ch_slave c) (a + 1), ch_disk c (ch_slave c) a], c\<lparr>ch_transfer := ch_next (Sending a k)\<rparr>)
       | _ \<Rightarrow> (0, c)),
     out16 = (\<lambda>p v c. case ch_transfer c of Receiving a k \<Rightarrow> c\<lparr>ch_busy := (if k = 1 then t else 0), ch_transfer := ch_next (Receiving a k),
         ch_disk := (ch_disk c)(ch_slave c := (ch_disk c (ch_slave c))(a := ucast v, a + 1 := ucast (drop_bit 8 v)))\<rparr>
       | _ \<Rightarrow> c),
     in32 = (\<lambda>p c. (0, c)), out32 = (\<lambda>p v c. c)\<rparr>"

lemma ata_machine_ok: "has_ata (ata_machine t) 0x1F0 id"
  by (auto simp: has_ata_def ata_machine_def ch_command_def)

definition sample_drive :: ata_device where
  "sample_drive = \<lparr>ad_drive = ATA_PRIMARY_MASTER_DRIVE, ad_present = True, ad_lba_supported = True,
     ad_lba48_supported = False, ad_size = 0x100000\<rparr>"

definition sample_channel :: ata_channel where
  "sample_channel = \<lparr>ch_select = 0, ch_count = 0, ch_low = 0, ch_mid = 0, ch_high = 0, ch_busy = 0, ch_transfer = Idle,
     ch_disk = (\<lambda>slave x. of_nat x)\<rparr>"

text \<open>
  C8: \<open>ata_write\<close> of a range inside the drive returns the number of bytes and gives exactly these
  bytes to the drive, whether the range begins and ends on sector boundaries or not; the other drive and the memory
  outside the buffer allocated for a sector stay as they are (that buffer is never released).  The drive may be busy with
  the last sector for any time after the call; when it has finished, which waiting for the busy bit shows, every \<open>ata_read\<close>
  returns the bytes that are on the drive.  A range over several sectors needs a drive that has finished with a sector by
  the next access to its registers, since the driver does not wait between sectors; for such a drive the call also returns
  with the drive ready.
\<close>
theorem ata_write_then_read:
  assumes "has_ata io (ata_get_io_base device) chan" and "ch_ready (chan d)" and "ata_request_ok device h L a buf n"
    and "kmalloc h ATA_SECTOR_SIZE \<noteq> kret (0, h)"
    and "unat a div 512 = (unat a + unat n - 1) div 512 \<or> prompt_drive io (ata_get_io_base device) chan"
  shows "\<exists>h' d' p s. ata_write io device a buf n h d = kret (n, h', d') \<and>
    (prompt_drive io (ata_get_io_base device) chan \<longrightarrow> ch_ready (chan d')) \<and>
    drive_disk chan device d' = disk_put (drive_disk chan device d) (unat a) (unat a + unat n) (\<lambda>x. mem h (buf + of_nat (x - unat a))) \<and>
    ch_disk (chan d') (ata_is_master device) = ch_disk (chan d) (ata_is_master device) \<and>
    heap_owns h' (insert (p, s) L) \<and> (\<forall>x. \<not> in_range x (adr p) 512 \<longrightarrow> mem h' x = mem h x) \<and>
    (\<exists>d2. ata_wait_busy io (ata_get_io_base device + ATA_STATUS_REGISTER_OFFSET) d' = kret d2 \<and>
      ch_ready (chan d2) \<and> ch_disk (chan d2) = ch_disk (chan d')) \<and>
    (\<forall>d2 L' b buf' k. ch_ready (chan d2) \<and> ch_disk (chan d2) = ch_disk (chan d') \<and>
        ata_request_ok device h' L' b buf' k \<and> kmalloc h' ATA_SECTOR_SIZE \<noteq> kret (0, h') \<longrightarrow>
      (\<exists>h'' d''. ata_read io device b buf' k h' d2 = kret (k, h'', d'') \<and> ch_ready (chan d'') \<and> ch_disk (chan d'') = ch_disk (chan d') \<and>
        bytes_at (mem h'') buf' (unat k) = map (drive_disk chan device d') [unat b..<unat b + unat k]))"
proof -
  have alloc: "\<exists>p h1. kmalloc h 512 = kret (p, h1) \<and> p \<noteq> 0"
    if "ata_request_ok device h L a buf n" "kmalloc h ATA_SECTOR_SIZE \<noteq> kret (0, h)" for h L a buf n
  proof -
    have "heap_owns h L" "request_ok h 512"
      using that(1) by (simp_all add: ata_request_ok_def)
    then show ?thesis
      using heap_alloc.alloc_law [of h L 512] heap_alloc.owned_nonzero that(2) by (fastforce simp: ATA_SECTOR_SIZE_def)
  qed
  obtain p h1 where p: "kmalloc h 512 = kret (p, h1)" "p \<noteq> 0"
    using alloc [OF assms(3,4)] by blast
  note rq = ata_request [OF assms(3) p assms(1)]
  obtain m' d' where w: "ata_write io device a buf n h d = kret (n, h1\<lparr>mem := m'\<rparr>, d')" "ch_transfer (chan d') = Idle"
    "ch_disk (chan d') = (ch_disk (chan d))(\<not> ata_is_master device :=
      disk_put (drive_disk chan device d) (unat a) (unat a + unat n) (\<lambda>x. mem h (buf + of_nat (x - unat a))))"
    "\<forall>x. \<not> in_range x p 512 \<longrightarrow> m' x = mem h x"
    "prompt_drive io (ata_get_io_base device) chan \<longrightarrow> ch_ready (chan d')"
    using ata_write_ok [OF assms(3) p assms(1,2)] assms(5) unfolding write_paced_def by blast
  obtain d1 where "ata_wait_busy io (ata_get_io_base device + 7) d' = kret d1" "chan d1 = (chan d')\<lparr>ch_busy := 0\<rparr>"
    using wait_busy_ok [OF assms(1)] by blast
  then have wait: "\<exists>d2. ata_wait_busy io (ata_get_io_base device + ATA_STATUS_REGISTER_OFFSET) d' = kret d2 \<and>
      ch_ready (chan d2) \<and> ch_disk (chan d2) = ch_disk (chan d')"
    using w(2) by (simp add: ata_regs ch_ready_def)
  obtain s where s: "heap_owns (h1\<lparr>mem := m'\<rparr>) (insert (unat p, s) L)"
    using rq(4) heap_owns_mem by blast
  have disks: "drive_disk chan device d' = disk_put (drive_disk chan device d) (unat a) (unat a + unat n) (\<lambda>x. mem h (buf + of_nat (x - unat a)))"
    "ch_disk (chan d') (ata_is_master device) = ch_disk (chan d) (ata_is_master device)"
    using w(3) by (simp_all add: drive_disk_def)
  have rd: "\<exists>h'' d''. ata_read io device b buf' k (h1\<lparr>mem := m'\<rparr>) d2 = kret (k, h'', d'') \<and> ch_ready (chan d'') \<and>
      ch_disk (chan d'') = ch_disk (chan d') \<and> bytes_at (mem h'') buf' (unat k) = map (drive_disk chan device d') [unat b..<unat b + unat k]"
    if d2: "ch_ready (chan d2)" "ch_disk (chan d2) = ch_disk (chan d')" and rd: "ata_request_ok device (h1\<lparr>mem := m'\<rparr>) L' b buf' k" "kmalloc (h1\<lparr>mem := m'\<rparr>) ATA_SECTOR_SIZE \<noteq> kret (0, h1\<lparr>mem := m'\<rparr>)" for d2 L' b buf' k
  proof -
    obtain q h2 where q: "kmalloc (h1\<lparr>mem := m'\<rparr>) 512 = kret (q, h2)" "q \<noteq> 0"
      using alloc [OF rd] by blast
    show ?thesis
      using ata_read_ok [OF rd(1) q assms(1) d2(1)] d2(2) by (force simp: drive_disk_def)
  qed
  show ?thesis
    using w(1,4,5) disks s rd wait by (intro exI [of _ "h1\<lparr>mem := m'\<rparr>"] exI [of _ d'] exI [of _ "unat p"] exI [of _ s]) auto
qed

theorem ata_write_then_read_witness:
  "(\<exists>h' d' d2. ata_write (ata_machine 3) sample_drive 1100 0xC0800014 100 used_kheap sample_channel = kret (100, h', d') \<and>
    ata_wait_busy (ata_machine 3) 0x1F7 d' = kret d2 \<and> ch_ready d2 \<and> drive_disk id sample_drive d2 1099 = of_nat 1099 \<and>
    drive_disk id sample_drive d2 1150 = mem used_kheap (0xC0800014 + 50) \<and> drive_disk id sample_drive d2 1200 = of_nat 1200) \<and>
   (\<exists>h' d'. ata_write (ata_machine 0) sample_drive 1000 0xC0800014 100 used_kheap sample_channel = kret (100, h', d') \<and>
    drive_disk id sample_drive d' 999 = of_nat 999 \<and> drive_disk id sample_drive d' 1050 = mem used_kheap (0xC0800014 + 50) \<and>
    drive_disk id sample_drive d' 1100 = of_nat 1100)"
proof -
  have base: "ata_get_io_base sample_drive = 0x1F0"
    by (simp add: ata_get_io_base_def sample_drive_def ATA_PRIMARY_IO_BASE_def)
  have "heap_owns used_kheap {(0xC0800014, 100)}"
    unfolding heap_owns_def used_kheap_live [symmetric] using used_kheap_inv by blast
  then have ok: "ata_request_ok sample_drive used_kheap {(0xC0800014, 100)} a 0xC0800014 100" if "a = 1000 \<or> a = 1100" for a
    using that by (auto simp: ata_request_ok_def sample_drive_def request_ok_def)
  have "adr (t + 20) \<noteq> 0" if "(t, s) \<in> frees (unat (kheap_base used_kheap)) [(100, False), (0x1FFFF74, True)]" for t s
    using frees_bounds [OF that] used_kheap_inv by (auto simp: heap_inv_def)
  then have free: "kmalloc used_kheap ATA_SECTOR_SIZE \<noteq> kret (0, used_kheap)"
    using kmalloc_live [OF used_kheap_inv, of 512] by (auto simp: request_ok_def ATA_SECTOR_SIZE_def)
  have ready: "ch_ready (id sample_channel)"
    by (simp add: ch_ready_def sample_channel_def)
  have mach: "has_ata (ata_machine t) (ata_get_io_base sample_drive) id" for t
    unfolding base by (rule ata_machine_ok)
  have prompt: "prompt_drive (ata_machine 0) (ata_get_io_base sample_drive) id"
    by (simp add: prompt_drive_def ata_machine_def)
  show ?thesis
    using ata_write_then_read [OF mach ready ok free, of 1100 3] ata_write_then_read [OF mach ready ok free, of 1000 0] prompt
    by (intro conjI; fastforce simp: base ata_regs disk_put_def drive_disk_def sample_channel_def)
qed

end
