(* ===== verification/Heap_Room.thy ===== *)
theory Heap_Room
  imports Heap_Correct
begin

text \<open>
  Allocations that succeed: a heap with a free block that is large enough serves the next requests.
\<close>

definition heap_room :: "kheap \<Rightarrow> (nat \<times> nat) set \<Rightarrow> nat \<Rightarrow> bool" where
  "heap_room h L B \<longleftrightarrow> (\<exists>bs s. heap_inv h bs \<and> L = live (unat (kheap_base h)) bs \<and> (s, True) \<in> set bs \<and> B \<le> s)"

lemma room_owns: "heap_room h L B \<Longrightarrow> heap_owns h L"
  by (auto simp: heap_room_def heap_owns_def)

lemma room_less: "heap_room h L B \<Longrightarrow> C \<le> B \<Longrightarrow> heap_room h L C"
  by (fastforce simp: heap_room_def)

lemma room_mem: "heap_room h L B \<Longrightarrow> heap_room (h\<lparr>mem := m\<rparr>) L B"
  by (auto simp: heap_room_def heap_inv_def linked_def)

text \<open>The payloads lie in the area of the heap.\<close>

lemma room_bounds: "heap_room h L B \<Longrightarrow> (p, s) \<in> L \<Longrightarrow> unat (kheap_base h) + 20 \<le> p \<and> p + s \<le> unat (kheap_base h) + 0x2000000"
  by (auto simp: heap_room_def heap_inv_def dest: live_bounds)

lemma frees_set: "(s, True) \<in> set bs \<Longrightarrow> \<exists>t. (t, s) \<in> frees a bs"
proof (induction bs arbitrary: a)
  case (Cons b bs)
  then show ?case
    by (cases b) auto
qed simp

lemma room_alloc:
  assumes "heap_room h L (B + n + 20)" and "0 < B" and "request_ok h n"
  shows "\<exists>p s h'. kmalloc h (of_nat n) = kret (adr p, h') \<and> n \<le> s \<and> (p, s) \<notin> L \<and> heap_room h' (insert (p, s) L) B \<and>
    mem h' = mem h \<and> kheap_base h' = kheap_base h"
proof -
  let ?a = "unat (kheap_base h)"
  obtain bs z where bs: "heap_inv h bs" "L = live ?a bs" "(z, True) \<in> set bs" "B + n + 20 \<le> z"
    using assms(1) by (auto simp: heap_room_def)
  have fl: "MALLOC_FLAG_NULL AND x = 0" for x
    by (simp add: MALLOC_FLAG_NULL_def)
  have lim: "0 < n" "?a + 0x2000000 + 400 + n < 4294967296"
    using assms(3) by (simp_all add: request_ok_def)
  have eq: "kmalloc h (of_nat n) = kmalloc_heap_base h (of_nat n) MALLOC_FLAG_NULL"
    using bs(1) by (simp add: kmalloc_def kmalloc_base_def heap_inv_def)
  obtain t0 where t0: "(t0, z) \<in> frees ?a bs"
    using frees_set [OF bs(3)] by blast
  have "abs_best (\<lambda>t s. n \<le> s) ?a bs None \<noteq> None"
    using t0 bs(4) unfolding abs_best_None by (auto simp: candidates_def) (meson add_leD2 add_leE)
  then obtain t s where best: "abs_best (\<lambda>t s. n \<le> s) ?a bs None = Some (t, s)"
    by force
  obtain h' where h': "kmalloc h (of_nat n) = kret (adr (t + 20), h')" "heap_inv h' (abs_take ?a t n bs)"
    "kheap_base h' = kheap_base h" "mem h' = mem h"
    using kmalloc_heap_base_plain [OF bs(1) fl lim] best unfolding eq by (auto simp: fl)
  have cand: "(t, s) \<in> frees ?a bs" "n \<le> s"
    using abs_best_Some [OF best] by (auto simp: candidates_def)
  obtain xs ys where sp: "bs = xs @ (s, True) # ys" and t: "t = ?a + span xs"
    using frees_split [OF cand(1)] by blast
  have take: "abs_take ?a t n bs = xs @ carve n s @ ys"
    unfolding sp t abs_take_split ..
  let ?k = "fst (hd (carve n s))"
  have carve: "n \<le> ?k" "live b (carve n s @ ys) = insert (b + 20, ?k) (live (b + 20 + s) ys)" for b
    using cand(2) by (auto simp: carve_def add.assoc)
  have "live ?a (xs @ carve n s @ ys) = insert (t + 20, ?k) L"
    unfolding bs(2) sp live_append [of _ xs] carve(2) t [symmetric] by simp
  moreover have "(t + 20, ?k) \<notin> L"
    unfolding bs(2) sp live_append t by (auto dest: live_bounds)
  moreover have "\<exists>z'. (z', True) \<in> set (xs @ carve n s @ ys) \<and> B \<le> z'"
  proof (cases "(z, True) \<in> set (xs @ ys)")
    case True
    then show ?thesis
      using bs(4) by (intro exI [of _ z]) auto
  next
    case False
    then have "z = s"
      using bs(3) sp by auto
    then show ?thesis
      using bs(4) assms(2) by (intro exI [of _ "s - n - 20"]) (auto simp: carve_def)
  qed
  then have "heap_room h' (live ?a (xs @ carve n s @ ys)) B"
    using h'(2,3) unfolding heap_room_def take by metis
  ultimately show ?thesis
    using h' carve(1) by (intro exI [of _ "t + 20"] exI [of _ ?k] exI [of _ h']) simp
qed

lemma room_release:
  assumes "heap_room h L B" and "(p, s) \<in> L"
  shows "\<exists>h'. kfree h (adr p) = kret h' \<and> heap_room h' (L - {(p, s)}) B \<and> mem h' = mem h \<and> kheap_base h' = kheap_base h"
proof -
  let ?a = "unat (kheap_base h)"
  obtain bs z where inv: "heap_inv h bs" "L = live ?a bs" "(z, True) \<in> set bs" "B \<le> z"
    using assms(1) by (auto simp: heap_room_def)
  obtain xs ys where bs: "bs = xs @ (s, False) # ys" and p: "p = ?a + span xs + 20"
    using live_split assms(2) unfolding inv(2) by blast
  obtain zs s' where ab: "absorb xs s = (zs, s')"
    by force
  obtain H tp where free: "kfree h (adr p) = kret (h\<lparr>heads := H, kheap_tail := tp\<rparr>)"
    and inv': "heap_inv (h\<lparr>heads := H, kheap_tail := tp\<rparr>) (abs_free ?a (?a + span xs) bs)"
    using kfree_block [OF inv(1) bs refl] by (auto simp: p)
  have L: "live ?a (zs @ merge_back s' ys) = L - {(p, s)}"
    unfolding inv(2) bs p by (rule live_free [OF ab])
  have "\<exists>z'. (z', True) \<in> set (zs @ merge_back s' ys) \<and> B \<le> z'"
  proof -
    have s': "\<exists>z'. (z', True) \<in> set (merge_back s' ys) \<and> s' \<le> z'"
      by (auto simp: merge_back_def split: list.split bool.split)
    have "(z, True) \<in> set zs \<or> z \<le> s' \<or> (z, True) \<in> set ys"
      using inv(3) ab unfolding bs by (cases rule: absorb_cases [of xs s]) auto
    moreover have "\<exists>z'. (z', True) \<in> set (merge_back s' ys) \<and> z \<le> z'" if "(z, True) \<in> set ys"
    proof (cases "ys \<noteq> [] \<and> snd (hd ys) \<and> hd ys = (z, True)")
      case True
      then show ?thesis
        by (cases ys) (auto simp: merge_back_def intro!: exI [of _ "s' + (z + 20)"])
    next
      case False
      then show ?thesis
        using that by (intro exI [of _ z]) (auto simp: merge_back_def split: list.split bool.split)
    qed
    ultimately consider "(z, True) \<in> set zs" | "z \<le> s'" | z' where "(z', True) \<in> set (merge_back s' ys)" "z \<le> z'"
      by blast
    then show ?thesis
    proof cases
      case 1
      then show ?thesis
        using inv(4) by (intro exI [of _ z]) simp
    next
      case 2
      obtain z' where "(z', True) \<in> set (merge_back s' ys)" "s' \<le> z'"
        using s' by blast
      with 2 show ?thesis
        using inv(4) by (intro exI [of _ z']) simp
    next
      case 3
      then show ?thesis
        using inv(4) by (intro exI [of _ z']) simp
    qed
  qed
  then have "heap_room (h\<lparr>heads := H, kheap_tail := tp\<rparr>) (L - {(p, s)}) B"
    using inv' L unfolding bs abs_free_split [OF ab] heap_room_def by (intro exI [of _ "zs @ merge_back s' ys"]) auto
  then show ?thesis
    using free by (intro exI [of _ "h\<lparr>heads := H, kheap_tail := tp\<rparr>"]) simp
qed

lemma krealloc_moves:
  assumes owns: "heap_owns h L" and L: "(p, s) \<in> L" and n: "s < n" "n < 4294967296"
    and new: "kmalloc h (of_nat n) = kret (adr q, h1)" "heap_owns h1 (insert (q, k) L)"
    and free: "kfree (h1\<lparr>mem := memcpy (mem h1) (adr q) (adr p) (of_nat s)\<rparr>) (adr p) = kret h3"
  shows "krealloc h (adr p) (of_nat n) = kret (adr q, h3)"
proof -
  obtain bs where inv: "heap_inv h bs" "L = live (unat (kheap_base h)) bs"
    using owns by (auto simp: heap_owns_def)
  have Lbs: "(p, s) \<in> live (unat (kheap_base h)) bs"
    using L inv(2) by simp
  have s: "s < 4294967296"
    using heap_owned_bounds [OF inv(1) Lbs] by simp
  have big: "\<not> (of_nat n :: u32) \<le> of_nat s"
    using n s by (simp add: word_le_unat)
  have flag: "kmalloc_flag h' sz MALLOC_FLAG_NULL = kmalloc h' sz" for h' sz
    by (simp add: kmalloc_flag_def kmalloc_def)
  obtain bs1 where inv1: "heap_inv h1 bs1" "insert (q, k) L = live (unat (kheap_base h1)) bs1"
    using new(2) unfolding heap_owns_def by blast
  then have L1: "(p, s) \<in> live (unat (kheap_base h1)) bs1"
    using L by blast
  have blk: "kb_size b = of_nat s" if "heads h1 (adr (p - 20)) = Some b" for b
    using owned_block(4) [OF inv1(1) L1] that by auto
  have ex: "\<exists>b. heads h1 (adr (p - 20)) = Some b"
    using owned_block(4) [OF inv1(1) L1] by auto
  have "adr q \<noteq> 0"
    using heap_alloc.owned_nonzero [OF new(2), of q k] by simp
  then show ?thesis
    using owned_block [OF inv(1) Lbs] big new(1) free ex blk by (auto simp: krealloc_def krealloc_flag_def flag)
qed

text \<open>A payload that grows: it stays where it is, or moves to a new one with its contents.\<close>

lemma room_grow:
  assumes room: "heap_room h L (B + n + 20)" and L: "(p, s) \<in> L" and B: "0 < B" and n: "request_ok h n"
  shows "\<exists>q k h'. krealloc h (adr p) (of_nat n) = kret (adr q, h') \<and> n \<le> k \<and>
    heap_room h' (insert (q, k) (L - {(p, s)})) B \<and> ((q, k) = (p, s) \<or> (q, k) \<notin> L) \<and> kheap_base h' = kheap_base h \<and>
    (\<forall>i < s. mem h' (adr q + of_nat i) = mem h (adr p + of_nat i)) \<and>
    (\<forall>x. \<not> in_range x (adr q) k \<longrightarrow> mem h' x = mem h x)"
proof (cases "n \<le> s")
  case True
  obtain bs where "heap_inv h bs" "L = live (unat (kheap_base h)) bs"
    using room by (auto simp: heap_room_def)
  then have "krealloc h (adr p) (of_nat n) = kret (adr p, h)"
    using krealloc_shrink L True by blast
  moreover have "heap_room h (insert (p, s) (L - {(p, s)})) B"
    using room_less [OF room] L by (simp add: insert_absorb)
  ultimately show ?thesis
    using True by (intro exI [of _ p] exI [of _ s] exI [of _ h]) simp
next
  case False
  have owns: "heap_owns h L"
    by (rule room_owns [OF room])
  have b: "s < 4294967296" "p < 4294967296" "n < 4294967296"
    using heap_alloc.owned_bounds [OF owns L] n by (simp_all add: request_ok_def)
  obtain q k h1 where new: "kmalloc h (of_nat n) = kret (adr q, h1)" "n \<le> k" "(q, k) \<notin> L"
    "heap_room h1 (insert (q, k) L) B" "mem h1 = mem h" "kheap_base h1 = kheap_base h"
    using room_alloc [OF room B n] by blast
  define h2 where "h2 = h1\<lparr>mem := memcpy (mem h1) (adr q) (adr p) (of_nat s)\<rparr>"
  have "heap_room h2 (insert (q, k) L) B"
    unfolding h2_def by (rule room_mem [OF new(4)])
  from room_release [OF this, of p s] obtain h3 where h3: "kfree h2 (adr p) = kret h3"
    "heap_room h3 (insert (q, k) L - {(p, s)}) B" "mem h3 = mem h2" "kheap_base h3 = kheap_base h2"
    using L by blast
  have ne: "(q, k) \<noteq> (p, s)"
    using new(3) L by blast
  have dis: "disjoint_ranges (adr q) s (adr p) s"
  proof (rule disjoint_ranges_mono)
    show "disjoint_ranges (adr q) k (adr p) s"
      using L ne by (intro heap_alloc.owned_ranges_disjoint [OF room_owns [OF new(4)]]) simp_all
  qed (use new(2) False in simp_all)
  have "krealloc h (adr p) (of_nat n) = kret (adr q, h3)"
    using krealloc_moves [OF owns L _ b(3) new(1) room_owns [OF new(4)]] False h3(1) by (simp add: h2_def)
  moreover have "insert (q, k) L - {(p, s)} = insert (q, k) (L - {(p, s)})"
    using ne by auto
  moreover have cp: "copy_ok (adr q) (adr p) s"
    using dis by (rule copy_ok_disjoint)
  have m3: "mem h3 = (\<lambda>x. if in_range x (adr q) s then mem h (adr p + (x - adr q)) else mem h x)"
    using memcpy_eq [of "adr q" "adr p" "of_nat s" "mem h"] cp b(1) by (simp add: h3(3) h2_def new(5) unat_of_nat_u32)
  have "mem h3 (adr q + of_nat i) = mem h (adr p + of_nat i)" if "i < s" for i
    using that b(1) by (simp add: m3)
  moreover have "mem h3 x = mem h x" if "\<not> in_range x (adr q) k" for x
    using that new(2) False by (auto simp: m3 in_range_def)
  ultimately show ?thesis
    using new(2,3,6) h3(2,4) by (intro exI [of _ q] exI [of _ k] exI [of _ h3]) (simp add: h2_def)
qed


text \<open>Bytes that are in no payload.\<close>

definition off_heap :: "kheap \<Rightarrow> u32 \<Rightarrow> bool" where
  "off_heap h x \<longleftrightarrow> unat x < unat (kheap_base h) \<or> unat (kheap_base h) + 0x2000000 \<le> unat x"

lemma owned_byte:
  assumes "heap_owns h L" and "(p, k) \<in> L" and "in_range x (adr p) k"
  shows "\<not> off_heap h x"
proof
  assume off: "off_heap h x"
  obtain i where i: "i < k" "x = adr p + of_nat i"
    using assms(3) by (auto simp: in_range_ex)
  have "p + k < 4294967296"
    using heap_alloc.owned_bounds [OF assms(1,2)] by simp
  then have "unat x = p + i"
    using i by (simp add: unat_add_u32 unat_of_nat_u32)
  moreover have "unat (kheap_base h) + 20 \<le> p \<and> p + k \<le> unat (kheap_base h) + 0x2000000"
    using assms(1,2) by (auto simp: heap_owns_def heap_inv_def dest: live_bounds)
  ultimately show False
    using off i(1) by (auto simp: off_heap_def)
qed

text \<open>A request that was served, and a release.\<close>

lemma owns_alloc:
  assumes "heap_owns h L" and "request_ok h n" and "kmalloc h (of_nat n) = kret (r, h')" and "r \<noteq> 0"
  shows "\<exists>p s. r = adr p \<and> n \<le> s \<and> (p, s) \<notin> L \<and> heap_owns h' (insert (p, s) L) \<and> mem h' = mem h \<and> kheap_base h' = kheap_base h"
proof -
  obtain bs where "heap_inv h bs" "L = live (unat (kheap_base h)) bs"
    using assms(1) by (auto simp: heap_owns_def)
  with kmalloc_live [OF this(1) assms(2)] assms(3,4) obtain t s bs' where *: "r = adr (t + 20)" "n \<le> s" "heap_inv h' bs'"
    "kheap_base h' = kheap_base h" "mem h' = mem h" "live (unat (kheap_base h)) bs' = insert (t + 20, fst (hd (carve n s))) L"
    "(t + 20, fst (hd (carve n s))) \<notin> L"
    by auto
  moreover have "n \<le> fst (hd (carve n s))"
    using *(2) by (simp add: carve_def)
  ultimately show ?thesis
    unfolding heap_owns_def by metis
qed

lemma owns_release:
  assumes "heap_owns h L" and "(p, s) \<in> L"
  shows "\<exists>h'. kfree h (adr p) = kret h' \<and> heap_owns h' (L - {(p, s)}) \<and> mem h' = mem h \<and> kheap_base h' = kheap_base h"
proof -
  obtain bs where bs: "heap_inv h bs" "L = live (unat (kheap_base h)) bs"
    using assms(1) by (auto simp: heap_owns_def)
  then have "(p, s) \<in> live (unat (kheap_base h)) bs"
    using assms(2) by simp
  from kfree_live [OF bs(1) this] show ?thesis
    unfolding heap_owns_def bs(2) by metis
qed

text \<open>The payloads in use determine the blocks: between them there is at most one free block.\<close>

lemma first_free:
  assumes "live a ((s, True) # bs) = live a ((s', True) # bs')" and "span ((s, True) # bs) = span ((s', True) # bs')"
    and "no_free_pair ((s, True) # bs)" and "no_free_pair ((s', True) # bs')"
  shows "s \<le> s'"
proof (cases bs')
  case Nil
  then have "bs = []"
    using assms(1,3) by (cases bs) (auto simp: no_free_pair_simps)
  then show ?thesis
    using assms(2) Nil by simp
next
  case (Cons b' r')
  then have "(a + 20 + s' + 20, fst b') \<in> live (a + 20 + s') bs'"
    using assms(4) by (cases b') (auto simp: no_free_pair_simps)
  then have "(a + 20 + s' + 20, fst b') \<in> live (a + 20 + s) bs"
    using assms(1) by simp
  then show ?thesis
    by (auto dest: live_bounds)
qed

lemma live_first:
  assumes "live a ((s, f) # bs) = live a ((s', f') # bs')" and "span ((s, f) # bs) = span ((s', f') # bs')"
    and "no_free_pair ((s, f) # bs)" and "no_free_pair ((s', f') # bs')"
  shows "s = s' \<and> f = f'"
proof -
  have used: "f' = False \<and> s' = s" if "(a + 20, s) \<in> live a ((s', f') # bs')" for s s' f' bs'
    using that by (auto split: if_splits dest: live_bounds)
  consider "\<not> f" | "\<not> f'" | "f" "f'"
    by blast
  then show ?thesis
  proof cases
    case 1
    then have "(a + 20, s) \<in> live a ((s', f') # bs')"
      unfolding assms(1) [symmetric] by simp
    then show ?thesis
      using used 1 by blast
  next
    case 2
    then have "(a + 20, s') \<in> live a ((s, f) # bs)"
      unfolding assms(1) by simp
    then show ?thesis
      using used 2 by blast
  next
    case 3
    then show ?thesis
      using first_free [of a s bs s' bs'] first_free [of a s' bs' s bs] assms by simp
  qed
qed

lemma live_determines:
  "live a bs = live a bs' \<Longrightarrow> span bs = span bs' \<Longrightarrow> no_free_pair bs \<Longrightarrow> no_free_pair bs' \<Longrightarrow> bs = bs'"
proof (induction bs arbitrary: a bs')
  case Nil
  then show ?case
    by (metis span_eq_0)
next
  case (Cons b bs)
  obtain s f where b: "b = (s, f)"
    by force
  have "bs' \<noteq> []"
    using Cons.prems(2) by (auto simp: b)
  then obtain s' f' r' where bs': "bs' = (s', f') # r'"
    by (metis list.exhaust surj_pair)
  have eq: "s' = s" "f' = f"
    using live_first [OF Cons.prems [unfolded b bs']] by simp_all
  have "(a + 20, s) \<notin> live (a + 20 + s) r" for r
    by (auto dest: live_bounds)
  then have "live (a + 20 + s) bs = live (a + 20 + s) r'"
    using Cons.prems(1) insert_ident [of "(a + 20, s)"] unfolding b bs' eq by (cases f) simp_all
  then show ?case
    using Cons.IH [of "a + 20 + s" r'] Cons.prems(2-4) by (simp add: b bs' eq no_free_pair_simps)
qed

lemma room_again:
  assumes "heap_room h L B" and "heap_owns h' L" and "kheap_base h' = kheap_base h"
  shows "heap_room h' L B"
proof -
  obtain bs s where bs: "heap_inv h bs" "L = live (unat (kheap_base h)) bs" "(s, True) \<in> set bs" "B \<le> s"
    using assms(1) by (auto simp: heap_room_def)
  obtain bs' where bs': "heap_inv h' bs'" "L = live (unat (kheap_base h)) bs'"
    using assms(2) unfolding heap_owns_def assms(3) by blast
  have "bs = bs'"
    using bs(1,2) bs' by (intro live_determines) (auto simp: heap_inv_def)
  then show ?thesis
    using bs bs'(1) unfolding heap_room_def assms(3) by blast
qed

end
