(* ===== verification/Tty.thy ===== *)
theory Tty
  imports Vga Message
begin

text \<open>
  \<^verbatim>\<open>kernel/src/io/tty.c\<close> and \<^verbatim>\<open>stream.c\<close>: terminals, with a ring from the keyboard listener and a ring to the screen, and
  streams, which are records of functions on a terminal.
\<close>

section \<open>State\<close>

definition TTY_BUFFER_SIZE :: u32 where
  "TTY_BUFFER_SIZE = 1024"

text \<open>The fields for rows, columns, cursor and colours are never used; they are part of the size only.\<close>

record tty =
  tty_input :: circular_buffer
  tty_output :: circular_buffer
  tty_video :: u32
  tty_keyboard :: u32

definition TTY_STRUCT_SIZE :: u32 where
  "TTY_STRUCT_SIZE = 36"

text \<open>The functions a stream can hold.\<close>

datatype stream_fn = Tty_stream_putchar | Tty_stream_getchar | Tty_stream_puts | Tty_stream_gets

record stream =
  st_putchar :: "stream_fn option"
  st_getchar :: "stream_fn option"
  st_puts :: "stream_fn option"
  st_gets :: "stream_fn option"
  st_data :: u32

definition STREAM_STRUCT_SIZE :: u32 where
  "STREAM_STRUCT_SIZE = 52"

text \<open>The array \<^verbatim>\<open>buf\<close> of a stream lies in memory behind the five pointers.\<close>

definition stream_buf :: "u32 \<Rightarrow> u32" where
  "stream_buf s = s + 20"

text \<open>
  The registry with the heap and the memory, the screen, the machine, the terminals and streams by address, the static
  \<^verbatim>\<open>tty_stdterm\<close>, and whether the listener of the terminals is registered with the keyboard driver.
\<close>

record 'd tty_state =
  ts_registry :: registry
  ts_vga :: vga_state
  ts_dev :: 'd
  ts_ttys :: "u32 \<rightharpoonup> tty"
  ts_streams :: "u32 \<rightharpoonup> stream"
  ts_stdterm :: u32
  ts_listening :: bool

text \<open>Addresses of local variables that are passed by address.\<close>

record tty_frame =
  tf_putchar :: u32
  tf_flush :: u32
  tf_getchar :: u32
  tf_listener :: u32
  tf_type :: u32

abbreviation ts_mem :: "'d tty_state \<Rightarrow> mem" where
  "ts_mem s \<equiv> mem (reg_heap (ts_registry s))"

definition ts_set_heap :: "kheap \<Rightarrow> 'd tty_state \<Rightarrow> 'd tty_state" where
  "ts_set_heap h s = s\<lparr>ts_registry := (ts_registry s)\<lparr>reg_heap := h\<rparr>\<rparr>"

definition ts_set_mem :: "mem \<Rightarrow> 'd tty_state \<Rightarrow> 'd tty_state" where
  "ts_set_mem m s = ts_set_heap ((reg_heap (ts_registry s))\<lparr>mem := m\<rparr>) s"

definition ts_screen :: "'d tty_state \<Rightarrow> 'd screen" where
  "ts_screen s = \<lparr>sc_state = ts_vga s, sc_mem = ts_mem s, sc_dev = ts_dev s\<rparr>"

definition ts_set_screen :: "'d screen \<Rightarrow> 'd tty_state \<Rightarrow> 'd tty_state" where
  "ts_set_screen sc s = (ts_set_mem (sc_mem sc) s)\<lparr>ts_vga := sc_state sc, ts_dev := sc_dev sc\<rparr>"

definition ts_update_tty :: "u32 \<Rightarrow> (tty \<Rightarrow> tty) \<Rightarrow> 'd tty_state \<Rightarrow> 'd tty_state kres" where
  "ts_update_tty p f s = kbind (modify (ts_ttys s) p f) (\<lambda>T. kret (s\<lparr>ts_ttys := T\<rparr>))"


section \<open>Terminals\<close>

definition tty_set_stdterm :: "u32 \<Rightarrow> 'd tty_state \<Rightarrow> 'd tty_state" where
  "tty_set_stdterm tty s = s\<lparr>ts_stdterm := tty\<rparr>"

definition tty_get_stdterm :: "'d tty_state \<Rightarrow> u32" where
  "tty_get_stdterm s = ts_stdterm s"

text \<open>A call of \<^verbatim>\<open>write\<close> through the driver of the terminal's screen.\<close>

definition tty_render :: "'d ports \<Rightarrow> u32 \<Rightarrow> u8 \<Rightarrow> 'd tty_state \<Rightarrow> 'd tty_state kres" where
  "tty_render io tty c s =
     kbind (deref (ts_ttys s) tty) (\<lambda>t.
     kbind (deref (driver_ptr (ts_registry s)) (tty_video t)) (\<lambda>driver.
     kbind (deref (video_drivers (ts_registry s)) driver) (\<lambda>v.
     if tm_write v = Vga_write then kbind (vga_write io c (ts_screen s)) (\<lambda>sc. kret (ts_set_screen sc s)) else kfault)))"

text \<open>One round of the loop of \<^verbatim>\<open>tty_flush\<close>.\<close>

definition tty_flush_one :: "'d ports \<Rightarrow> tty_frame \<Rightarrow> u32 \<Rightarrow> tty \<Rightarrow> 'd tty_state \<Rightarrow> 'd tty_state kres" where
  "tty_flush_one io f tty t s =
     kbind (circular_buffer_dequeue (tty_output t) ((ts_mem s)(tf_flush f := 0)) (tf_flush f)) (\<lambda>(ring, m).
     kbind (ts_update_tty tty (\<lambda>t. t\<lparr>tty_output := ring\<rparr>) (ts_set_mem m s)) (\<lambda>s1.
       tty_render io tty (m (tf_flush f)) s1))"

partial_function (option) tty_flush :: "'d ports \<Rightarrow> tty_frame \<Rightarrow> u32 \<Rightarrow> 'd tty_state \<Rightarrow> 'd tty_state kres" where
  "tty_flush io f tty s =
     kbind (deref (ts_ttys s) tty) (\<lambda>t.
     if circular_buffer_empty (tty_output t) then kret s
     else kbind (tty_flush_one io f tty t s) (\<lambda>s1. tty_flush io f tty s1))"

definition tty_putchar :: "'d ports \<Rightarrow> tty_frame \<Rightarrow> u32 \<Rightarrow> u8 \<Rightarrow> 'd tty_state \<Rightarrow> 'd tty_state kres" where
  "tty_putchar io f tty c s =
     kbind (deref (ts_ttys s) tty) (\<lambda>t.
     kbind (circular_buffer_enqueue (tty_output t) ((ts_mem s)(tf_putchar f := c)) (tf_putchar f)) (\<lambda>(ring, m).
     kbind (ts_update_tty tty (\<lambda>t. t\<lparr>tty_output := ring\<rparr>) (ts_set_mem m s)) (\<lambda>s1.
       tty_flush io f tty s1)))"

text \<open>The result of an empty ring is \<^verbatim>\<open>-1\<close>, as a \<^verbatim>\<open>char\<close>.\<close>

definition tty_getchar :: "tty_frame \<Rightarrow> u32 \<Rightarrow> 'd tty_state \<Rightarrow> (u8 \<times> 'd tty_state) kres" where
  "tty_getchar f tty s =
     kbind (deref (ts_ttys s) tty) (\<lambda>t.
     if circular_buffer_empty (tty_input t) then kret (- 1, s)
     else kbind (circular_buffer_dequeue (tty_input t) (ts_mem s) (tf_getchar f)) (\<lambda>(ring, m).
          kbind (ts_update_tty tty (\<lambda>t. t\<lparr>tty_input := ring\<rparr>) (ts_set_mem m s)) (\<lambda>s1.
            kret (m (tf_getchar f), s1))))"

partial_function (option) tty_puts_loop :: "'d ports \<Rightarrow> tty_frame \<Rightarrow> u32 \<Rightarrow> u32 \<Rightarrow> u32 \<Rightarrow> u32 \<Rightarrow> 'd tty_state \<Rightarrow> 'd tty_state kres" where
  "tty_puts_loop io f tty str sz i s =
     (if i < sz then kbind (tty_putchar io f tty (ts_mem s (str + i)) s) (\<lambda>s1. tty_puts_loop io f tty str sz (i + 1) s1)
      else kret s)"

definition tty_puts :: "'d ports \<Rightarrow> tty_frame \<Rightarrow> u32 \<Rightarrow> u32 \<Rightarrow> 'd tty_state \<Rightarrow> 'd tty_state kres" where
  "tty_puts io f tty str s = tty_puts_loop io f tty str (strlen (ts_mem s) str) 0 s"

definition tty_keyboard_listener :: "tty_frame \<Rightarrow> keyboard_event \<Rightarrow> 'd tty_state \<Rightarrow> 'd tty_state kres" where
  "tty_keyboard_listener f event s =
     (let tty = tty_get_stdterm s
      in if tty = 0 then kret s
         else
           let c = ucast (keycode event) :: u8; s1 = ts_set_mem ((ts_mem s)(tf_listener f := c)) s
           in if c \<noteq> 0 \<and> pressed event then
                kbind (deref (ts_ttys s1) tty) (\<lambda>t.
                kbind (circular_buffer_enqueue (tty_input t) (ts_mem s1) (tf_listener f)) (\<lambda>(ring, m).
                  ts_update_tty tty (\<lambda>t. t\<lparr>tty_input := ring\<rparr>) (ts_set_mem m s1)))
              else kret s1)"


section \<open>Line input\<close>

text \<open>
  \<^verbatim>\<open>tty_gets\<close> polls the ring that the keyboard interrupts fill.  \<open>keys n\<close> are the events that arrive before the \<open>n\<close>-th poll;
  an interrupt in the middle of a ring operation is not represented.
\<close>

fun deliver_keys :: "tty_frame \<Rightarrow> keyboard_event list \<Rightarrow> 'd tty_state \<Rightarrow> 'd tty_state kres" where
  "deliver_keys f [] s = kret s"
| "deliver_keys f (e # es) s = kbind (tty_keyboard_listener f e s) (deliver_keys f es)"

record line_buffer =
  lb_buf :: u32
  lb_size :: u32
  lb_idx :: u32

text \<open>The character is put at the end of the line, which is enlarged when there is no room for the terminating zero.  The
  result of \<^verbatim>\<open>krealloc\<close> is not checked: the next store goes through \<^verbatim>\<open>NULL\<close>.\<close>

definition tty_gets_append :: "line_buffer \<Rightarrow> u8 \<Rightarrow> 'd tty_state \<Rightarrow> (line_buffer \<times> 'd tty_state) kres" where
  "tty_gets_append b c s =
     kbind (if lb_idx b = lb_size b - 1 then
              kbind (krealloc (reg_heap (ts_registry s)) (lb_buf b) (lb_size b * 2)) (\<lambda>(p, h).
                if p = 0 then kfault else kret (b\<lparr>lb_size := lb_size b * 2, lb_buf := p\<rparr>, ts_set_heap h s))
            else kret (b, s)) (\<lambda>(b1, s1).
     kret (b1\<lparr>lb_idx := lb_idx b1 + 1\<rparr>, ts_set_mem ((ts_mem s1)(lb_buf b1 + lb_idx b1 := c)) s1))"

partial_function (option) tty_gets_loop ::
  "'d ports \<Rightarrow> tty_frame \<Rightarrow> (nat \<Rightarrow> keyboard_event list) \<Rightarrow> u32 \<Rightarrow> nat \<Rightarrow> line_buffer \<Rightarrow> 'd tty_state \<Rightarrow> (line_buffer \<times> 'd tty_state) kres" where
  "tty_gets_loop io f keys tty n b s =
     kbind (deliver_keys f (keys n) s) (\<lambda>s0.
     kbind (tty_getchar f tty s0) (\<lambda>r.
     if fst r = - 1 \<or> fst r = 0 then tty_gets_loop io f keys tty (n + 1) b (snd r)
     else if fst r = ASCII_CTRL_CR then kbind (tty_putchar io f tty 10 (snd r)) (\<lambda>s2. kret (b, s2))
     else if fst r = ASCII_CTRL_BS \<and> 0 < lb_idx b then
       kbind (tty_putchar io f tty (fst r) (ts_set_mem ((ts_mem (snd r))(lb_buf b + (lb_idx b - 1) := 0)) (snd r))) (\<lambda>s2.
         tty_gets_loop io f keys tty (n + 1) (b\<lparr>lb_idx := lb_idx b - 1\<rparr>) s2)
     else if isalnum (fst r) \<or> fst r = ASCII_SPACE then
       kbind (tty_gets_append b (fst r) (snd r)) (\<lambda>q.
       kbind (tty_putchar io f tty (fst r) (snd q)) (\<lambda>s2. tty_gets_loop io f keys tty (n + 1) (fst q) s2))
     else tty_gets_loop io f keys tty (n + 1) b (snd r)))"

declare tty_flush.simps [code] tty_puts_loop.simps [code] tty_gets_loop.simps [code]

definition tty_gets :: "'d ports \<Rightarrow> tty_frame \<Rightarrow> (nat \<Rightarrow> keyboard_event list) \<Rightarrow> u32 \<Rightarrow> 'd tty_state \<Rightarrow> (u32 \<times> 'd tty_state) kres" where
  "tty_gets io f keys tty s =
     kbind (kmalloc (reg_heap (ts_registry s)) 2) (\<lambda>(buf, h).
     if buf = 0 then out_of_memory else
     kbind (tty_gets_loop io f keys tty 0 \<lparr>lb_buf = buf, lb_size = 2, lb_idx = 0\<rparr> (ts_set_heap h s)) (\<lambda>(b, s1).
       kret (lb_buf b, ts_set_mem ((ts_mem s1)(lb_buf b + lb_idx b := 0)) s1)))"


section \<open>Creation\<close>

text \<open>One ring: the result of \<^verbatim>\<open>circular_buffer_create\<close> is not \<^verbatim>\<open>NULL\<close>, or the machine stops.\<close>

definition tty_ring :: "kheap \<Rightarrow> (circular_buffer \<times> kheap) kres" where
  "tty_ring h =
     kbind (circular_buffer_create h TTY_BUFFER_SIZE 1 kmalloc) (\<lambda>(p, c, h1).
     case c of None \<Rightarrow> out_of_memory | Some ring \<Rightarrow> if p = 0 then out_of_memory else kret (ring, h1))"

definition tty_create :: "tty_frame \<Rightarrow> 'd tty_state \<Rightarrow> (u32 \<times> 'd tty_state) kres" where
  "tty_create f s =
     kbind (kmalloc (reg_heap (ts_registry s)) TTY_STRUCT_SIZE) (\<lambda>(tty, h).
     if tty = 0 then out_of_memory else
     kbind (tty_ring h) (\<lambda>(input, h1).
     kbind (tty_ring h1) (\<lambda>(output, h2).
     let s1 = ts_set_heap h2 s;
         s2 = (if tty_get_stdterm s1 = 0 then tty_set_stdterm tty s1 else s1);
         r = ts_registry s2 in
     kbind (device_find_by_type r (tf_type f) DEVICE_TYPE_KEYBOARD) (\<lambda>keyboard.
     kbind (deref (driver_ptr r) keyboard) (\<lambda>driver.
     kbind (deref (keyboard_drivers r) driver) (\<lambda>k.
     if kd_register_listener k \<noteq> Ps2_keyboard_register_listener then kfault else
     kbind (device_find_by_type r (tf_type f) DEVICE_TYPE_VIDEO) (\<lambda>video.
       kret (tty, s2\<lparr>ts_listening := True, ts_ttys := (ts_ttys s2)(tty \<mapsto>
         \<lparr>tty_input = input, tty_output = output, tty_video = video, tty_keyboard = keyboard\<rparr>)\<rparr>))))))))"

definition tty_destroy :: "u32 \<Rightarrow> 'd tty_state \<Rightarrow> 'd tty_state kres" where
  "tty_destroy tty s = kbind (kfree (reg_heap (ts_registry s)) tty) (\<lambda>h. kret (ts_set_heap h s))"


section \<open>Streams of a terminal\<close>

definition tty_stream_putchar :: "'d ports \<Rightarrow> tty_frame \<Rightarrow> stream \<Rightarrow> u8 \<Rightarrow> 'd tty_state \<Rightarrow> 'd tty_state kres" where
  "tty_stream_putchar io f st c s = tty_putchar io f (st_data st) c s"

definition tty_stream_getchar :: "tty_frame \<Rightarrow> stream \<Rightarrow> 'd tty_state \<Rightarrow> (u8 \<times> 'd tty_state) kres" where
  "tty_stream_getchar f st s = tty_getchar f (st_data st) s"

definition tty_stream_puts :: "'d ports \<Rightarrow> tty_frame \<Rightarrow> stream \<Rightarrow> u32 \<Rightarrow> 'd tty_state \<Rightarrow> 'd tty_state kres" where
  "tty_stream_puts io f st str s = tty_puts io f (st_data st) str s"

definition tty_stream_gets :: "'d ports \<Rightarrow> tty_frame \<Rightarrow> (nat \<Rightarrow> keyboard_event list) \<Rightarrow> stream \<Rightarrow> 'd tty_state \<Rightarrow> (u32 \<times> 'd tty_state) kres" where
  "tty_stream_gets io f keys st s = tty_gets io f keys (st_data st) s"

definition tty_new_stream :: "stream \<Rightarrow> 'd tty_state \<Rightarrow> (u32 \<times> 'd tty_state) kres" where
  "tty_new_stream st s =
     kbind (kmalloc (reg_heap (ts_registry s)) STREAM_STRUCT_SIZE) (\<lambda>(p, h).
     if p = 0 then out_of_memory else
     kret (p, (ts_set_heap h s)\<lparr>ts_streams := (ts_streams s)(p \<mapsto> st)\<rparr>))"

definition tty_get_in_stream :: "u32 \<Rightarrow> 'd tty_state \<Rightarrow> (u32 \<times> 'd tty_state) kres" where
  "tty_get_in_stream tty s =
     tty_new_stream \<lparr>st_putchar = None, st_getchar = Some Tty_stream_getchar, st_puts = None,
       st_gets = Some Tty_stream_gets, st_data = tty\<rparr> s"

definition tty_get_out_stream :: "u32 \<Rightarrow> 'd tty_state \<Rightarrow> (u32 \<times> 'd tty_state) kres" where
  "tty_get_out_stream tty s =
     tty_new_stream \<lparr>st_putchar = Some Tty_stream_putchar, st_getchar = None, st_puts = Some Tty_stream_puts,
       st_gets = None, st_data = tty\<rparr> s"

definition tty_get_err_stream :: "u32 \<Rightarrow> 'd tty_state \<Rightarrow> (u32 \<times> 'd tty_state) kres" where
  "tty_get_err_stream tty s =
     tty_new_stream \<lparr>st_putchar = Some Tty_stream_putchar, st_getchar = None, st_puts = Some Tty_stream_puts,
       st_gets = None, st_data = tty\<rparr> s"


section \<open>Operations on streams\<close>

definition stream_putchar :: "'d ports \<Rightarrow> tty_frame \<Rightarrow> u32 \<Rightarrow> u8 \<Rightarrow> 'd tty_state \<Rightarrow> 'd tty_state kres" where
  "stream_putchar io f p c s =
     (if p = 0 then kret s
      else kbind (deref (ts_streams s) p) (\<lambda>st.
        case st_putchar st of None \<Rightarrow> kret s
        | Some Tty_stream_putchar \<Rightarrow> tty_stream_putchar io f st c s
        | Some _ \<Rightarrow> kfault))"

definition stream_puts :: "'d ports \<Rightarrow> tty_frame \<Rightarrow> u32 \<Rightarrow> u32 \<Rightarrow> 'd tty_state \<Rightarrow> 'd tty_state kres" where
  "stream_puts io f p str s =
     (if p = 0 then kret s
      else kbind (deref (ts_streams s) p) (\<lambda>st.
        case st_puts st of None \<Rightarrow> kret s
        | Some Tty_stream_puts \<Rightarrow> tty_stream_puts io f st str s
        | Some _ \<Rightarrow> kfault))"

definition stream_getchar :: "tty_frame \<Rightarrow> u32 \<Rightarrow> 'd tty_state \<Rightarrow> (u8 \<times> 'd tty_state) kres" where
  "stream_getchar f p s =
     (if p = 0 then kret (0, s)
      else kbind (deref (ts_streams s) p) (\<lambda>st.
        case st_getchar st of None \<Rightarrow> kret (0, s)
        | Some Tty_stream_getchar \<Rightarrow> tty_stream_getchar f st s
        | Some _ \<Rightarrow> kfault))"

definition stream_gets :: "'d ports \<Rightarrow> tty_frame \<Rightarrow> (nat \<Rightarrow> keyboard_event list) \<Rightarrow> u32 \<Rightarrow> 'd tty_state \<Rightarrow> (u32 \<times> 'd tty_state) kres" where
  "stream_gets io f keys p s =
     (if p = 0 then kret (0, s)
      else kbind (deref (ts_streams s) p) (\<lambda>st.
        case st_gets st of None \<Rightarrow> kret (0, s)
        | Some Tty_stream_gets \<Rightarrow> tty_stream_gets io f keys st s
        | Some _ \<Rightarrow> kfault))"

text \<open>The characters of \<^verbatim>\<open>buf\<close>, from the memory as it is when each is written.\<close>

partial_function (option) stream_put_buf :: "'d ports \<Rightarrow> tty_frame \<Rightarrow> u32 \<Rightarrow> u32 \<Rightarrow> u32 \<Rightarrow> 'd tty_state \<Rightarrow> 'd tty_state kres" where
  "stream_put_buf io f p sz i s =
     (if i < sz then kbind (stream_putchar io f p (ts_mem s (stream_buf p + i)) s) (\<lambda>s1. stream_put_buf io f p sz (i + 1) s1)
      else kret s)"

definition stream_put_text :: "'d ports \<Rightarrow> tty_frame \<Rightarrow> u32 \<Rightarrow> 'd tty_state \<Rightarrow> (u32 \<times> 'd tty_state) kres" where
  "stream_put_text io f p s =
     (let sz = strlen (ts_mem s) (stream_buf p) in kbind (stream_put_buf io f p sz 0 s) (\<lambda>s1. kret (sz, s1)))"

definition stream_putint :: "'d ports \<Rightarrow> tty_frame \<Rightarrow> u32 \<Rightarrow> u32 \<Rightarrow> 'd tty_state \<Rightarrow> (u32 \<times> 'd tty_state) kres" where
  "stream_putint io f p n s = stream_put_text io f p (ts_set_mem (fst (itoa (ts_mem s) n (stream_buf p))) s)"

definition stream_puthex :: "'d ports \<Rightarrow> tty_frame \<Rightarrow> u32 \<Rightarrow> u32 \<Rightarrow> 'd tty_state \<Rightarrow> (u32 \<times> 'd tty_state) kres" where
  "stream_puthex io f p n s = stream_put_text io f p (ts_set_mem (fst (htoa (ts_mem s) n (stream_buf p))) s)"

definition stream_putfloat ::
  "'d ports \<Rightarrow> (mem \<Rightarrow> u32 \<Rightarrow> u32 \<Rightarrow> u32 \<Rightarrow> mem \<times> u32) \<Rightarrow> tty_frame \<Rightarrow> u32 \<Rightarrow> u32 \<Rightarrow> u32 \<Rightarrow> 'd tty_state \<Rightarrow> (u32 \<times> 'd tty_state) kres" where
  "stream_putfloat io ftoa f p lo hi s = stream_put_text io f p (ts_set_mem (fst (ftoa (ts_mem s) lo hi (stream_buf p))) s)"

partial_function (option) stream_put_string :: "'d ports \<Rightarrow> tty_frame \<Rightarrow> u32 \<Rightarrow> u32 \<Rightarrow> u32 \<Rightarrow> 'd tty_state \<Rightarrow> (u32 \<times> 'd tty_state) kres" where
  "stream_put_string io f p src cnt s =
     (if ts_mem s src \<noteq> 0 then
        kbind (stream_putchar io f p (ts_mem s src) s) (\<lambda>s1. stream_put_string io f p (src + 1) (cnt + 1) s1)
      else kret (cnt, s))"

text \<open>One conversion: the count, the next argument and the state after it.\<close>

definition stream_conv ::
  "'d ports \<Rightarrow> (mem \<Rightarrow> u32 \<Rightarrow> u32 \<Rightarrow> u32 \<Rightarrow> mem \<times> u32) \<Rightarrow> tty_frame \<Rightarrow> u32 \<Rightarrow> u8 \<Rightarrow> u32 \<Rightarrow> u32 \<Rightarrow> 'd tty_state \<Rightarrow>
   (u32 \<times> u32 \<times> 'd tty_state) kres" where
  "stream_conv io ftoa f p c args cnt s =
     (if c = ch CHR ''d'' then
        kbind (stream_putint io f p (load32 (ts_mem s) args) s) (\<lambda>(n, s1). kret (cnt + n, args + 4, s1))
      else if c = ch CHR ''x'' \<or> c = ch CHR ''p'' then
        kbind (stream_puthex io f p (load32 (ts_mem s) args) s) (\<lambda>(n, s1). kret (cnt + n, args + 4, s1))
      else if c = ch CHR ''f'' then
        kbind (stream_putfloat io ftoa f p (load32 (ts_mem s) args) (load32 (ts_mem s) (args + 4)) s) (\<lambda>(n, s1). kret (cnt + n, args + 8, s1))
      else if c = ch CHR ''s'' then
        kbind (stream_put_string io f p (load32 (ts_mem s) args) cnt s) (\<lambda>(n, s1). kret (n, args + 4, s1))
      else if c = ch CHR ''c'' then
        kbind (stream_putchar io f p (ucast (load32 (ts_mem s) args)) s) (\<lambda>s1. kret (cnt + 1, args + 4, s1))
      else kbind (stream_putchar io f p c s) (\<lambda>s1. kret (cnt + 1, args, s1)))"

partial_function (option) stream_vprintf_loop ::
  "'d ports \<Rightarrow> (mem \<Rightarrow> u32 \<Rightarrow> u32 \<Rightarrow> u32 \<Rightarrow> mem \<times> u32) \<Rightarrow> tty_frame \<Rightarrow> u32 \<Rightarrow> u32 \<Rightarrow> u32 \<Rightarrow> u32 \<Rightarrow> 'd tty_state \<Rightarrow> (u32 \<times> 'd tty_state) kres" where
  "stream_vprintf_loop io ftoa f p fmt args cnt s =
     (if ts_mem s fmt = 0 then kret (cnt, s)
      else if ts_mem s fmt = ch CHR ''%'' then
        kbind (stream_conv io ftoa f p (ts_mem s (fmt + 1)) args cnt s) (\<lambda>r.
          stream_vprintf_loop io ftoa f p (fmt + 2) (fst (snd r)) (fst r) (snd (snd r)))
      else kbind (stream_putchar io f p (ts_mem s fmt) s) (\<lambda>s1. stream_vprintf_loop io ftoa f p (fmt + 1) args (cnt + 1) s1))"

definition stream_vprintf ::
  "'d ports \<Rightarrow> (mem \<Rightarrow> u32 \<Rightarrow> u32 \<Rightarrow> u32 \<Rightarrow> mem \<times> u32) \<Rightarrow> tty_frame \<Rightarrow> u32 \<Rightarrow> u32 \<Rightarrow> u32 \<Rightarrow> 'd tty_state \<Rightarrow> (u32 \<times> 'd tty_state) kres" where
  "stream_vprintf io ftoa f p fmt args s = stream_vprintf_loop io ftoa f p fmt args 0 s"

definition stream_printf ::
  "'d ports \<Rightarrow> (mem \<Rightarrow> u32 \<Rightarrow> u32 \<Rightarrow> u32 \<Rightarrow> mem \<times> u32) \<Rightarrow> tty_frame \<Rightarrow> u32 \<Rightarrow> u32 \<Rightarrow> u32 \<Rightarrow> 'd tty_state \<Rightarrow> (u32 \<times> 'd tty_state) kres" where
  "stream_printf io ftoa f p format args s = stream_vprintf io ftoa f p format args s"

declare stream_put_buf.simps [code] stream_put_string.simps [code] stream_vprintf_loop.simps [code]

end
