(* ===== verification/Tty_Correct.thy ===== *)
theory Tty_Correct
  imports Tty Vga_Correct
begin

text \<open>
  Text on its way to the screen: through a stream, the output ring of a terminal, the driver found in the registry and
  the video memory.
\<close>

lemma memcpy_one: "memcpy m d s 1 = m(d := m s)"
  by (simp add: memcpy_def memcpy_loop.simps)

section \<open>An idle terminal\<close>

text \<open>Between two calls the output ring is empty.\<close>

definition idle_ring :: "circular_buffer \<Rightarrow> bool" where
  "idle_ring cb \<longleftrightarrow> cb_size cb = 0 \<and> cb_element_size cb = 1 \<and> cb_head cb = cb_tail cb \<and> cb_tail cb < cb_capacity cb"

definition tty_area :: "tty_frame \<Rightarrow> tty \<Rightarrow> u32 \<Rightarrow> u32 \<Rightarrow> bool" where
  "tty_area f t screen x \<longleftrightarrow> x = tf_putchar f \<or> x = tf_flush f \<or>
     in_range x (cb_buffer (tty_output t)) (unat (cb_capacity (tty_output t))) \<or> in_range x screen 4000"

definition tty_apart :: "tty_frame \<Rightarrow> tty \<Rightarrow> u32 \<Rightarrow> bool" where
  "tty_apart f t screen \<longleftrightarrow> tf_putchar f \<noteq> 0 \<and> tf_flush f \<noteq> 0 \<and>
     \<not> in_range (tf_flush f) (cb_buffer (tty_output t)) (unat (cb_capacity (tty_output t))) \<and>
     \<not> in_range (tf_putchar f) screen 4000 \<and> \<not> in_range (tf_flush f) screen 4000 \<and>
     disjoint_ranges (cb_buffer (tty_output t)) (unat (cb_capacity (tty_output t))) screen 4000"

definition tty_ok :: "tty_frame \<Rightarrow> u32 \<Rightarrow> tty \<Rightarrow> 'd tty_state \<Rightarrow> bool" where
  "tty_ok f tty t s \<longleftrightarrow> ts_ttys s tty = Some t \<and> idle_ring (tty_output t) \<and> tty_apart f t (vga_buffer (ts_vga s)) \<and>
     vga_ok (ts_vga s) \<and>
     (\<exists>driver v. driver_ptr (ts_registry s) (tty_video t) = Some driver \<and> video_drivers (ts_registry s) driver = Some v \<and>
       tm_write v = Vga_write)"

text \<open>A registry without the bytes of the memory.\<close>

definition but_bytes :: "registry \<Rightarrow> registry" where
  "but_bytes r = r\<lparr>reg_heap := (reg_heap r)\<lparr>mem := \<lambda>_. 0\<rparr>\<rparr>"

lemma but_bytes_set_mem: "but_bytes (ts_registry (ts_set_mem m s)) = but_bytes (ts_registry s)"
  by (simp add: but_bytes_def ts_set_mem_def ts_set_heap_def)

lemma but_bytes_eq:
  "but_bytes r = but_bytes r' \<longleftrightarrow> r = r'\<lparr>reg_heap := (reg_heap r')\<lparr>mem := mem (reg_heap r)\<rparr>\<rparr>"
proof
  assume eq: "but_bytes r = but_bytes r'"
  have "r = (but_bytes r)\<lparr>reg_heap := (reg_heap (but_bytes r))\<lparr>mem := mem (reg_heap r)\<rparr>\<rparr>"
    by (simp add: but_bytes_def)
  also have "\<dots> = r'\<lparr>reg_heap := (reg_heap r')\<lparr>mem := mem (reg_heap r)\<rparr>\<rparr>"
    unfolding eq by (simp add: but_bytes_def)
  finally show "r = r'\<lparr>reg_heap := (reg_heap r')\<lparr>mem := mem (reg_heap r)\<rparr>\<rparr>" .
next
  assume eq: "r = r'\<lparr>reg_heap := (reg_heap r')\<lparr>mem := mem (reg_heap r)\<rparr>\<rparr>"
  show "but_bytes r = but_bytes r'"
    by (subst eq) (simp add: but_bytes_def)
qed

text \<open>What a call on a terminal leaves alone, but for the addresses in \<open>B\<close>.\<close>

definition tty_kept :: "tty_frame \<Rightarrow> u32 \<Rightarrow> (u32 \<Rightarrow> bool) \<Rightarrow> tty \<Rightarrow> 'd tty_state \<Rightarrow> tty \<Rightarrow> 'd tty_state \<Rightarrow> bool" where
  "tty_kept f tty B t s t' s' \<longleftrightarrow> same_mode (ts_vga s) (ts_vga s') \<and> ts_streams s' = ts_streams s \<and>
     but_bytes (ts_registry s') = but_bytes (ts_registry s) \<and> tty_video t' = tty_video t \<and>
     cb_buffer (tty_output t') = cb_buffer (tty_output t) \<and> cb_capacity (tty_output t') = cb_capacity (tty_output t) \<and>
     tty_input t' = tty_input t \<and> ts_stdterm s' = ts_stdterm s \<and> (\<forall>x. \<not> tty_area f t (vga_buffer (ts_vga s)) x \<and> \<not> B x \<longrightarrow> ts_mem s' x = ts_mem s x)"

text \<open>The characters \<open>cs\<close> have come to the screen.\<close>

definition shown :: "tty_frame \<Rightarrow> u32 \<Rightarrow> (u32 \<Rightarrow> bool) \<Rightarrow> u8 list \<Rightarrow> tty \<Rightarrow> 'd tty_state \<Rightarrow> tty \<Rightarrow> 'd tty_state \<Rightarrow> bool" where
  "shown f tty B cs t s t' s' \<longleftrightarrow> tty_ok f tty t' s' \<and> tty_kept f tty B t s t' s' \<and>
     console (ts_screen s') = console_puts (vga_attri (ts_vga s)) cs (console (ts_screen s))"

lemma set_simps [simp]:
  "ts_mem (ts_set_mem m s) = m" "ts_vga (ts_set_mem m s) = ts_vga s" "ts_dev (ts_set_mem m s) = ts_dev s"
  "ts_ttys (ts_set_mem m s) = ts_ttys s" "ts_stdterm (ts_set_mem m s) = ts_stdterm s" "ts_streams (ts_set_mem m s) = ts_streams s"
  "driver_ptr (ts_registry (ts_set_mem m s)) = driver_ptr (ts_registry s)"
  "video_drivers (ts_registry (ts_set_mem m s)) = video_drivers (ts_registry s)"
  "ts_mem (ts_set_screen sc s) = sc_mem sc" "ts_vga (ts_set_screen sc s) = sc_state sc" "ts_dev (ts_set_screen sc s) = sc_dev sc"
  "ts_ttys (ts_set_screen sc s) = ts_ttys s" "ts_stdterm (ts_set_screen sc s) = ts_stdterm s" "ts_streams (ts_set_screen sc s) = ts_streams s"
  "driver_ptr (ts_registry (ts_set_screen sc s)) = driver_ptr (ts_registry s)"
  "video_drivers (ts_registry (ts_set_screen sc s)) = video_drivers (ts_registry s)"
  "sc_state (ts_screen s) = ts_vga s" "sc_mem (ts_screen s) = ts_mem s" "sc_dev (ts_screen s) = ts_dev s"
  by (simp_all add: ts_set_mem_def ts_set_heap_def ts_set_screen_def ts_screen_def)

text \<open>A character passes through the empty ring.\<close>

lemma idle_ring_pass:
  assumes "idle_ring cb" and "p \<noteq> 0" and "q \<noteq> 0" and "\<not> in_range q (cb_buffer cb) (unat (cb_capacity cb))"
  shows "\<exists>cb1 cb2. circular_buffer_enqueue cb (m(p := c)) p = kret (cb1, m(p := c, cb_buffer cb + cb_tail cb := c)) \<and>
    \<not> circular_buffer_empty cb1 \<and> (\<forall>m1. m1 (cb_buffer cb + cb_tail cb) = c \<longrightarrow>
      circular_buffer_dequeue cb1 (m1(q := 0)) q = kret (cb2, m1(q := c))) \<and>
    idle_ring cb2 \<and> cb_buffer cb2 = cb_buffer cb \<and> cb_capacity cb2 = cb_capacity cb"
proof -
  let ?t = "(1 + cb_tail cb) mod cb_capacity cb"
  have c: "cb_capacity cb \<noteq> 0" "cb_size cb \<noteq> cb_capacity cb" and e: "cb_element_size cb = 1" "cb_head cb = cb_tail cb" "cb_size cb = 0"
    using assms(1) by (auto simp: idle_ring_def)
  have "q \<noteq> cb_buffer cb + cb_tail cb"
    using assms(1,4) by (auto simp: idle_ring_def in_range_def word_less_nat_alt)
  moreover have "?t < cb_capacity cb"
    using c(1) by (simp add: word_less_nat_alt unat_mod unat_gt_0)
  ultimately show ?thesis
    using assms(2,3) c e
    by (intro exI [of _ "cb\<lparr>cb_size := 1, cb_tail := ?t\<rparr>"] exI [of _ "cb\<lparr>cb_size := 0, cb_tail := ?t, cb_head := ?t\<rparr>"])
      (auto simp: circular_buffer_enqueue_def circular_buffer_dequeue_def circular_buffer_full_def circular_buffer_empty_def
        umod_def memcpy_one idle_ring_def Let_def add.commute)
qed


lemma ring_tail_in_range: "idle_ring cb \<Longrightarrow> in_range (cb_buffer cb + cb_tail cb) (cb_buffer cb) (unat (cb_capacity cb))"
  by (simp add: idle_ring_def in_range_def word_less_nat_alt)

lemma tty_putchar_ok:
  assumes ok: "tty_ok f tty t s" and bs: "backspace_ok c (ts_screen s)"
  shows "\<exists>t' s'. tty_putchar io f tty c s = kret s' \<and> shown f tty B [c] t s t' s'"
proof -
  let ?cb = "tty_output t" and ?scr = "vga_buffer (ts_vga s)"
  let ?slot = "cb_buffer ?cb + cb_tail ?cb"
  obtain driver v where t: "ts_ttys s tty = Some t" "idle_ring ?cb" "tty_apart f t ?scr" "vga_ok (ts_vga s)"
    and drv: "driver_ptr (ts_registry s) (tty_video t) = Some driver" "video_drivers (ts_registry s) driver = Some v" "tm_write v = Vga_write"
    using ok by (auto simp: tty_ok_def)
  note ap = t(3) [unfolded tty_apart_def]
  obtain cb1 cb2 where pass: "circular_buffer_enqueue ?cb ((ts_mem s)(tf_putchar f := c)) (tf_putchar f) =
      kret (cb1, (ts_mem s)(tf_putchar f := c, ?slot := c))" "\<not> circular_buffer_empty cb1"
    "circular_buffer_dequeue cb1 ((ts_mem s)(tf_putchar f := c, ?slot := c, tf_flush f := 0)) (tf_flush f) =
      kret (cb2, (ts_mem s)(tf_putchar f := c, ?slot := c, tf_flush f := c))"
    and cb2: "idle_ring cb2" "cb_buffer cb2 = cb_buffer ?cb" "cb_capacity cb2 = cb_capacity ?cb"
    using idle_ring_pass [OF t(2), of "tf_putchar f" "tf_flush f" "ts_mem s" c] ap by force
  define m where "m = (ts_mem s)(tf_putchar f := c, ?slot := c, tf_flush f := c)"
  have m_scr: "m x = ts_mem s x" if "in_range x ?scr 4000" for x
    using ring_tail_in_range [OF t(2)] ap that by (auto simp: m_def disjoint_ranges_def)
  have m_out: "m x = ts_mem s x" if "\<not> tty_area f t ?scr x" for x
    using ring_tail_in_range [OF t(2)] that by (auto simp: m_def tty_area_def)
  define t1 where "t1 = t\<lparr>tty_output := cb1\<rparr>"
  define t2 where "t2 = t\<lparr>tty_output := cb2\<rparr>"
  define s2 where "s2 = (ts_set_mem m s)\<lparr>ts_ttys := (ts_ttys s)(tty \<mapsto> t2)\<rparr>"
  have s2: "ts_stdterm s2 = ts_stdterm s" "ts_vga s2 = ts_vga s" "ts_mem s2 = m" "ts_streams s2 = ts_streams s" "ts_ttys s2 tty = Some t2"
    "driver_ptr (ts_registry s2) = driver_ptr (ts_registry s)" "video_drivers (ts_registry s2) = video_drivers (ts_registry s)"
    by (simp_all add: s2_def ts_set_mem_def ts_set_heap_def)
  have con2: "console (ts_screen s2) = console (ts_screen s)"
    unfolding ts_screen_def s2 by (rule console_cong) (simp_all add: m_scr ts_screen_def)
  have "backspace_ok c (ts_screen s2)"
  proof -
    have "in_range (?scr + 2) ?scr 4000"
      by (simp add: in_range_def)
    then show ?thesis
      using bs m_scr by (simp add: backspace_ok_def s2)
  qed
  then obtain sc where sc: "vga_putchar io c (ts_screen s2) = kret sc" "vga_ok (sc_state sc)" "same_mode (ts_vga s) (sc_state sc)"
    "console sc = console_put (vga_attri (ts_vga s)) c (console (ts_screen s))"
    "\<And>x. \<not> in_range x ?scr 4000 \<Longrightarrow> sc_mem sc x = m x"
    using putchar_ok [of "ts_screen s2" c io] t(4) by (auto simp: s2 con2)
  define s' where "s' = ts_set_screen sc s2"
  have reg: "but_bytes (ts_registry s') = but_bytes (ts_registry s)"
    by (simp add: but_bytes_def s'_def s2_def ts_set_screen_def ts_set_mem_def ts_set_heap_def)
  have s': "ts_stdterm s' = ts_stdterm s" "ts_vga s' = sc_state sc" "ts_mem s' = sc_mem sc" "ts_streams s' = ts_streams s" "ts_ttys s' tty = Some t2"
    "driver_ptr (ts_registry s') = driver_ptr (ts_registry s)" "video_drivers (ts_registry s') = video_drivers (ts_registry s)"
    by (simp_all add: s'_def s2)
  have render: "tty_render io tty c s2 = kret s'"
    using drv sc(1) by (simp add: tty_render_def s2 t2_def vga_write_def s'_def)
  have one: "tty_flush_one io f tty t1 ((ts_set_mem ((ts_mem s)(tf_putchar f := c, ?slot := c)) s)\<lparr>ts_ttys := (ts_ttys s)(tty \<mapsto> t1)\<rparr>) = kret s'"
    using pass(3) render
    by (simp add: tty_flush_one_def t1_def t2_def ts_update_tty_def s2_def m_def ts_set_mem_def ts_set_heap_def)
  have "circular_buffer_empty (tty_output t2)"
    using cb2(1) by (simp add: t2_def circular_buffer_empty_def idle_ring_def)
  then have "tty_flush io f tty s' = kret s'"
    by (subst tty_flush.simps) (simp add: s'(5))
  then have run: "tty_putchar io f tty c s = kret s'"
    unfolding tty_putchar_def using t(1) pass(1) one pass(2)
    by (simp add: ts_update_tty_def t1_def) (subst tty_flush.simps, simp add: t1_def)
  have "tty_kept f tty B t s t2 s'"
    using reg sc(3,5) m_out cb2(2,3) by (auto simp: tty_kept_def s' t2_def tty_area_def)
  moreover have "tty_ok f tty t2 s'"
    using sc(2,3) cb2 drv t(3) by (auto simp: tty_ok_def s' t2_def tty_apart_def same_mode_def)
  moreover have "console (ts_screen s') = console_put (vga_attri (ts_vga s)) c (console (ts_screen s))"
    using sc(4) by (simp add: console_def s')
  ultimately show ?thesis
    using run by (auto simp: shown_def console_puts_def)
qed



section \<open>Texts\<close>

lemma tty_area_kept: "tty_kept f tty B t s t' s' \<Longrightarrow> tty_area f t' (vga_buffer (ts_vga s')) = tty_area f t (vga_buffer (ts_vga s))"
  by (auto simp: tty_kept_def tty_area_def same_mode_def fun_eq_iff)

lemma tty_kept_trans: "tty_kept f tty B t s t1 s1 \<Longrightarrow> tty_kept f tty B t1 s1 t2 s2 \<Longrightarrow> tty_kept f tty B t s t2 s2"
  using tty_area_kept [of f tty B t s t1 s1] by (auto simp: tty_kept_def intro: same_mode_trans)

lemma tty_kept_attri: "tty_kept f tty B t s t' s' \<Longrightarrow> vga_attri (ts_vga s') = vga_attri (ts_vga s)"
  by (simp add: tty_kept_def same_mode_def)

lemma shown_nothing: "tty_ok f tty t s \<Longrightarrow> shown f tty B [] t s t s"
  by (simp add: shown_def tty_kept_def same_mode_def console_puts_def)

lemma shown_append:
  assumes "shown f tty B cs t s t1 s1" and "shown f tty B ds t1 s1 t2 s2"
  shows "shown f tty B (cs @ ds) t s t2 s2"
proof -
  have kept: "tty_kept f tty B t s t1 s1" "tty_kept f tty B t1 s1 t2 s2"
    using assms by (simp_all add: shown_def)
  then show ?thesis
    using assms tty_kept_trans [OF kept] tty_kept_attri [OF kept(1)] by (simp add: shown_def console_puts_def)
qed

text \<open>An address whose byte no output changes.\<close>

definition quiet :: "tty_frame \<Rightarrow> (u32 \<Rightarrow> bool) \<Rightarrow> tty \<Rightarrow> 'd tty_state \<Rightarrow> u32 \<Rightarrow> bool" where
  "quiet f B t s x \<longleftrightarrow> \<not> tty_area f t (vga_buffer (ts_vga s)) x \<and> \<not> B x"

lemma shown_quiet:
  assumes "shown f tty B cs t s t' s'"
  shows "quiet f B t' s' = quiet f B t s" and "quiet f B t s x \<Longrightarrow> ts_mem s' x = ts_mem s x"
proof -
  have "tty_kept f tty B t s t' s'"
    using assms by (simp add: shown_def)
  then show "quiet f B t' s' = quiet f B t s" "quiet f B t s x \<Longrightarrow> ts_mem s' x = ts_mem s x"
    using tty_area_kept [of f tty B t s t' s'] by (simp_all add: quiet_def fun_eq_iff tty_kept_def)
qed

text \<open>The interface of a routine that puts out a character; a loop of calls shows the characters in their order.\<close>

locale text_sink =
  fixes put :: "u8 \<Rightarrow> 'd tty_state \<Rightarrow> 'd tty_state kres" and f :: tty_frame and tty :: u32 and B :: "u32 \<Rightarrow> bool"
    and ready :: "'d tty_state \<Rightarrow> bool"
  assumes put_shows: "tty_ok f tty t s \<Longrightarrow> ready s \<Longrightarrow> c \<noteq> 8 \<Longrightarrow>
    \<exists>t' s'. put c s = kret s' \<and> shown f tty B [c] t s t' s' \<and> ready s'"
begin

lemma loop_shows:
  assumes loop: "\<And>i s. loop i s = (if i < of_nat n then kbind (put (ts_mem s (str + i)) s) (loop (i + 1)) else kret s)"
    and "tty_ok f tty t s" and "ready s" and "bytes_at (ts_mem s) str n = cs" and "8 \<notin> set cs" and "i + k = n" and "n < 4294967296"
    and "\<And>j. j < n \<Longrightarrow> quiet f B t s (str + of_nat j)"
  shows "\<exists>t' s'. loop (of_nat i) s = kret s' \<and> shown f tty B (drop i cs) t s t' s' \<and> ready s'"
  using assms(2-)
proof (induction k arbitrary: i s t)
  case 0
  then have "drop i cs = []"
    by auto
  moreover have "loop (of_nat i) s = kret s"
    using 0 by (subst loop) simp
  ultimately show ?case
    using 0 shown_nothing [OF 0(1)] by auto
next
  case (Suc k)
  have i: "i < n" "(of_nat i :: u32) < of_nat n"
    using Suc.prems by (simp_all add: word_less_nat_alt take_bit_nat_eq_self unat_of_nat)
  have c: "ts_mem s (str + of_nat i) = cs ! i" "drop i cs = [cs ! i] @ drop (Suc i) cs" "cs ! i \<in> set cs"
    using i(1) arg_cong [OF Suc.prems(3), of "\<lambda>bs. bs ! i"] arg_cong [OF Suc.prems(3), of length] by (simp_all add: Cons_nth_drop_Suc)
  then have "cs ! i \<noteq> 8"
    using Suc.prems(4) by metis
  from put_shows [OF Suc.prems(1,2) this] obtain t1 s1 where
    s1: "put (cs ! i) s = kret s1" "shown f tty B [cs ! i] t s t1 s1" "ready s1"
    by blast
  note q = shown_quiet [OF s1(2)]
  have "tty_ok f tty t1 s1"
    using s1(2) by (simp add: shown_def)
  moreover have "bytes_at (ts_mem s1) str n = cs"
    unfolding Suc.prems(3) [symmetric] using q(2) Suc.prems(7) by (intro bytes_at_eqI) auto
  ultimately obtain t2 s2 where s2: "loop (of_nat (Suc i)) s1 = kret s2" "shown f tty B (drop (Suc i) cs) t1 s1 t2 s2" "ready s2"
    using Suc.IH [of t1 s1 "Suc i"] Suc.prems(4-) s1(3) q(1) by auto
  have "loop (of_nat i) s = kret s2"
    using i(2) s1(1) s2(1) c(1) by (subst loop) (simp add: add.commute)
  then show ?case
    using s2(3) shown_append [OF s1(2) s2(2)] unfolding c(2) by blast
qed

end

interpretation terminal: text_sink "tty_putchar io f tty" f tty B "\<lambda>_. True" for io f tty B
proof
  fix t and c :: u8 and s :: "'a tty_state"
  assume "tty_ok f tty t s" and "c \<noteq> 8"
  then show "\<exists>t' s'. tty_putchar io f tty c s = kret s' \<and> shown f tty B [c] t s t' s' \<and> True"
    using tty_putchar_ok [of f tty t s c io B] by (simp add: backspace_ok_def)
qed

lemma tty_puts_ok:
  assumes "tty_ok f tty t s" and "cstr (ts_mem s) str cs" and "str_fits str cs" and "8 \<notin> set cs"
    and "\<And>j. j < length cs \<Longrightarrow> quiet f B t s (str + of_nat j)"
  shows "\<exists>t' s'. tty_puts io f tty str s = kret s' \<and> shown f tty B cs t s t' s'"
proof -
  let ?n = "length cs"
  have "\<exists>t' s'. tty_puts_loop io f tty str (of_nat ?n) (of_nat 0) s = kret s' \<and> shown f tty B (drop 0 cs) t s t' s' \<and> True"
    using assms(2-) by (intro terminal.loop_shows [OF tty_puts_loop.simps assms(1), where k = "?n"]) (simp_all add: cstr_iff str_fits_def)
  then show ?thesis
    using strlen_eq [OF assms(2,3)] by (simp add: tty_puts_def)
qed

end
