(* ===== verification/Format.thy ===== *)
theory Format
  imports CString_Correct Message
begin

text \<open>
  Formatted text as a list of characters, without memory: what \<^verbatim>\<open>sprintf\<close> stores and \<^verbatim>\<open>stream_printf\<close> shows.
\<close>

section \<open>The text of a hexadecimal number\<close>

definition hex_digit :: "u32 \<Rightarrow> u8" where
  "hex_digit d = ch (''0123456789abcdef'' ! unat d)"

definition hex_text :: "u32 \<Rightarrow> u8 list" where
  "hex_text n =
     [ch CHR ''0'', ch CHR ''x''] @
     map hex_digit (dropWhile (\<lambda>d. d = 0) (map (\<lambda>i. drop_bit i n AND 0xF) [28, 24, 20, 16, 12, 8, 4])) @ [hex_digit (n AND 0xF)]"

text \<open>What a routine that writes the string \<open>cs\<close> at \<open>str\<close> does to the memory.\<close>

definition prints :: "mem \<Rightarrow> u32 \<Rightarrow> u8 list \<Rightarrow> mem \<Rightarrow> bool" where
  "prints m str cs m' \<longleftrightarrow> cstr m' str cs \<and> (\<forall>x. \<not> in_range x str (length cs + 1) \<longrightarrow> m' x = m x)"

lemma prints_place:
  assumes "prints m str cs m1" and "c \<noteq> 0" and "length cs < 4294967294"
  shows "prints m str (cs @ [c]) (m1(str + of_nat (length cs) := c, str + (of_nat (length cs) + 1) := 0))"
proof -
  let ?m = "store_bytes m1 (str + of_nat (length cs)) ([c] @ [0])"
  have "cstr ?m str (cs @ [c])"
    using assms by (intro cstr_append) (simp_all add: prints_def)
  moreover have "?m x = m x" if x: "\<not> in_range x str (length (cs @ [c]) + 1)" for x
  proof -
    have "\<not> in_range x str (length cs + 1)" "\<not> in_range x (str + of_nat (length cs)) (length ([c] @ [0]))"
      using x in_range_sub [of "length cs" 2 "length cs + 2" x str] in_range_sub [of 0 "length cs + 1" "length cs + 2" x str] assms(3)
      by (auto simp: numeral_2_eq_2)
    then show ?thesis
      using assms(1) by (subst store_bytes_other) (simp_all add: prints_def)
  qed
  ultimately show ?thesis
    by (simp add: prints_def add.assoc)
qed

lemma htoa_digits: "\<forall>k \<in> set [0..<16]. htoa_digit (of_nat k) = hex_digit (of_nat k) \<and> hex_digit (of_nat k) \<noteq> 0"
  by code_simp

lemma htoa_digit_eq: "htoa_digit (x AND 0xF) = hex_digit (x AND 0xF)" and hex_digit_nonzero: "hex_digit (x AND 0xF) \<noteq> 0"
proof -
  have "x AND 0xF = x mod 16"
    using take_bit_eq_mask [of 4 x] by (simp add: mask_eq_exp_minus_1 take_bit_eq_mod)
  also have "\<dots> = of_nat (unat x mod 16)"
    by (intro u32_eqI) (simp add: unat_of_nat unat_mod)
  finally have "x AND 0xF = of_nat (unat x mod 16)" .
  then show "htoa_digit (x AND 0xF) = hex_digit (x AND 0xF)" "hex_digit (x AND 0xF) \<noteq> 0"
    using htoa_digits by simp_all
qed

lemma htoa_loop_prints:
  assumes "prints m str cs m1" and "length cs + length is < 4294967294"
  shows "htoa_loop m1 str n (of_nat (length cs)) zeros is = (m2, len) \<Longrightarrow>
    \<exists>ds. ds = map hex_digit ((if zeros then id else dropWhile (\<lambda>d. d = 0)) (map (\<lambda>i. drop_bit i n AND 0xF) is)) \<and>
      prints m str (cs @ ds) m2 \<and> len = of_nat (length (cs @ ds)) \<and> length ds \<le> length is"
  using assms
proof (induction "is" arbitrary: cs m1 zeros)
  case Nil
  then show ?case
    by auto
next
  case (Cons i "is")
  let ?d = "drop_bit i n AND 0xF"
  show ?case
  proof (cases "?d = 0 \<and> \<not> zeros")
    case True
    then show ?thesis
      using Cons.IH [of m1 cs False] Cons.prems by auto
  next
    case False
    have pr: "prints m str (cs @ [hex_digit ?d])
        (m1(str + of_nat (length cs) := hex_digit ?d, str + (of_nat (length cs) + 1) := 0))"
      using prints_place [OF Cons.prems(2) hex_digit_nonzero] Cons.prems(3) by simp
    have "htoa_loop (m1(str + of_nat (length cs) := hex_digit ?d, str + (of_nat (length cs) + 1) := 0)) str n
        (of_nat (length (cs @ [hex_digit ?d]))) True is = (m2, len)"
      using Cons.prems(1) False by (auto simp: place_at_def Let_def htoa_digit_eq add.commute)
    from Cons.IH [OF this pr] Cons.prems(3) False show ?thesis
      by auto
  qed
qed

lemma htoa_prints: "prints m str (hex_text n) (fst (htoa m n str)) \<and> snd (htoa m n str) = str + of_nat (length (hex_text n))"
  and hex_text_length: "length (hex_text n) \<le> 10"
proof -
  let ?is = "[28, 24, 20, 16, 12, 8, 4] :: nat list"
  let ?p = "[ch CHR ''0'', ch CHR ''x'']"
  define m2 where "m2 = fst (place_at (fst (place_at m str (ch CHR ''0'') 0)) str (ch CHR ''x'') 1)"
  obtain m3 len3 where lp: "htoa_loop m2 str n 2 False ?is = (m3, len3)"
    by fastforce
  have eq: "htoa m n str = (fst (place_at m3 str (hex_digit (n AND 0xF)) len3), str + (len3 + 1))"
    using lp by (simp add: htoa_def place_at_def Let_def m2_def htoa_digit_eq del: htoa_loop.simps)
  have "prints m str [48] (fst (place_at m str 48 0))"
    using cstr_store [of "[48]" m str] store_bytes_other [of _ str "[48, 0]" m]
    by (simp add: prints_def place_at_def)
  then have "prints m str [ch CHR ''0''] (fst (place_at m str (ch CHR ''0'') 0))"
    by simp
  from prints_place [OF this, of "ch CHR ''x''"] have "prints m str ?p m2"
    by (simp add: m2_def place_at_def)
  from htoa_loop_prints [OF this, of ?is n False m3 len3] lp obtain ds where
    ds: "ds = map hex_digit (dropWhile (\<lambda>d. d = 0) (map (\<lambda>i. drop_bit i n AND 0xF) ?is))"
    "prints m str (?p @ ds) m3" "len3 = of_nat (length (?p @ ds))" "length ds \<le> length ?is"
    by (auto simp del: htoa_loop.simps)
  have tx: "hex_text n = (?p @ ds) @ [hex_digit (n AND 0xF)]"
    by (simp only: hex_text_def ds(1) append_assoc)
  show "length (hex_text n) \<le> 10"
    using ds(4) by (simp add: tx)
  show "prints m str (hex_text n) (fst (htoa m n str)) \<and> snd (htoa m n str) = str + of_nat (length (hex_text n))"
    using prints_place [OF ds(2) hex_digit_nonzero [of n]] ds(4) unfolding eq tx by (simp add: place_at_def ds(3) add.commute)
qed


section \<open>The text of an int\<close>

lemma itoa_frame:
  assumes "sint n \<noteq> - 2147483648" and "\<not> in_range x str (length (int_text (sint n)) + 1)"
  shows "fst (itoa m n str) x = m x"
proof -
  define k where "k = nat \<bar>sint n\<bar>"
  define ds where "ds = rev (dec k) @ (if sint n < 0 then [ch CHR ''-''] else [])"
  have n': "sint (if sint n < 0 then - n else n) = int k"
    using sint_minus [OF assms(1)] by (simp add: k_def)
  have "k < 10 ^ 10"
    using sint_bounds [of n] by (simp add: k_def)
  then have len: "length ds \<le> 11" "0 < length ds" "length (int_text (sint n)) = length ds"
    using dec_length_le [of k 10] dec_length_pos [of k] by (simp_all add: ds_def int_text_def k_def [symmetric])
  define m3 where "m3 = store_bytes m str (ds @ [0])"
  have eq: "itoa m n str = (itoa_reverse m3 str 0 (int (length ds) - 1), str + of_nat (length ds))"
    using itoa_digits_eq [of m str 0 k] n'
    by (simp add: itoa_def Let_def m3_def ds_def store_bytes_append add.assoc)
  have out: "\<not> in_range x str (length ds + 1)"
    using assms(2) len(3) by simp
  then have "\<not> unat (x - str) \<le> length ds - 1"
    by (auto simp: in_range_def)
  moreover have "itoa_reverse m3 str 0 (int (length ds) - 1) x =
      (if unat (x - str) \<le> length ds - 1 then m3 (str + of_nat (length ds - 1 - unat (x - str))) else m3 x)"
    using itoa_reverse_eq [of "length ds - 1" m3 str 0] len by (simp add: of_nat_diff)
  ultimately show ?thesis
    using out by (simp add: eq m3_def store_bytes_other)
qed

lemma int_min: "sint (n :: u32) = - 2147483648 \<longleftrightarrow> n = 0x80000000"
proof
  assume "sint n = - 2147483648"
  then show "n = 0x80000000"
    by (intro signed_word_eqI) simp
qed simp

lemma int_text_length: "n \<noteq> 0x80000000 \<Longrightarrow> length (int_text (sint (n :: u32))) \<le> 11"
proof -
  have "nat \<bar>sint n\<bar> < 10 ^ 10"
    using sint_bounds [of n] by simp
  from dec_length_le [OF this] have "length (dec (nat \<bar>sint n\<bar>)) \<le> 10"
    by simp
  moreover have "length (int_text (sint n)) \<le> Suc (length (dec (nat \<bar>sint n\<bar>)))"
    unfolding int_text_def by auto
  ultimately show ?thesis
    by linarith
qed

lemma itoa_prints:
  assumes "n \<noteq> 0x80000000"
  shows "prints m str (int_text (sint n)) (fst (itoa m n str)) \<and> snd (itoa m n str) = str + of_nat (length (int_text (sint n)))"
  using itoa_text [of n m str] itoa_frame [of n _ str m] assms by (auto simp: prints_def int_min)


text \<open>
  The smallest int has no positive counterpart: its only digit is computed from a negative remainder, so that
  \<^verbatim>\<open>itoa\<close> stores a minus sign and an opening parenthesis.
\<close>

definition printed_int :: "u32 \<Rightarrow> u8 list" where
  "printed_int n = (if n = 0x80000000 then map ch ''-('' else int_text (sint n))"

lemma itoa_min: "itoa m 0x80000000 str = (m(str := ch CHR ''-'', str + 1 := ch CHR ''('', str + 2 := 0), str + 2)"
  by (auto simp: itoa_def itoa_digits.simps itoa_reverse.simps Let_def fun_eq_iff)

lemma printed_int_prints:
  "prints m str (printed_int n) (fst (itoa m n str)) \<and> snd (itoa m n str) = str + of_nat (length (printed_int n))"
proof (cases "n = 0x80000000")
  case True
  have "m(str := 45, str + 1 := 40, str + 2 := 0) = store_bytes m str ([45, 40] @ [0])"
    by (auto simp: fun_eq_iff add.assoc)
  moreover have "prints m str [45, 40] (store_bytes m str ([45, 40] @ [0]))"
    using cstr_store [of "[45, 40]" m str] store_bytes_other [of _ str "[45, 40] @ [0]" m] by (simp add: prints_def)
  ultimately show ?thesis
    using True by (simp add: printed_int_def itoa_min)
next
  case False
  then show ?thesis
    using itoa_prints [OF False] by (simp add: printed_int_def)
qed

lemma printed_int_length: "length (printed_int n) \<le> 11"
  using int_text_length [of n] by (simp add: printed_int_def)


section \<open>Formats\<close>

text \<open>
  \<open>texts\<close> gives the characters of the string arguments by their address, and \<open>floats\<close> the text of a \<^verbatim>\<open>double\<close> by its two
  words.  \<open>None\<close>: an argument is missing or not described, or the format ends in the middle of a conversion.
\<close>

definition conv_text :: "(u32 \<rightharpoonup> u8 list) \<Rightarrow> u8 \<Rightarrow> u32 \<Rightarrow> u8 list option" where
  "conv_text texts d w =
     (if d = ch CHR ''d'' then Some (printed_int w)
      else if d = ch CHR ''x'' \<or> d = ch CHR ''p'' then Some (hex_text w)
      else if d = ch CHR ''s'' then texts w
      else if d = ch CHR ''c'' then Some [ucast w]
      else None)"

type_synonym float_texts = "u32 \<Rightarrow> u32 \<Rightarrow> u8 list option"

abbreviation no_floats :: float_texts where
  "no_floats \<equiv> \<lambda>_ _. None"

fun format_text :: "float_texts \<Rightarrow> (u32 \<rightharpoonup> u8 list) \<Rightarrow> u8 list \<Rightarrow> u32 list \<Rightarrow> u8 list option" where
  "format_text floats texts [] ws = Some []"
| "format_text floats texts (c # fs) ws =
     (if c \<noteq> ch CHR ''%'' then map_option (\<lambda>out. c # out) (format_text floats texts fs ws)
      else case fs of [] \<Rightarrow> None
        | d # gs \<Rightarrow>
            if d = ch CHR ''f'' then
              case ws of lo # hi # vs \<Rightarrow>
                  Option.bind (floats lo hi) (\<lambda>out. map_option (\<lambda>rest. out @ rest) (format_text floats texts gs vs))
              | _ \<Rightarrow> None
            else if d \<in> set (map ch ''dxpsc'') then
              case ws of [] \<Rightarrow> None
              | w # vs \<Rightarrow> Option.bind (conv_text texts d w) (\<lambda>out. map_option (\<lambda>rest. out @ rest) (format_text floats texts gs vs))
            else map_option (\<lambda>out. d # out) (format_text floats texts gs ws))"

text \<open>The shape of a format: a character, a conversion, or a character after a percent sign.\<close>

lemma format_text_cases [consumes 1, case_names finish plain float conversion escaped]:
  assumes "format_text floats texts fs ws = Some out"
  obtains "fs = []" "out = []"
  | c gs rest where "fs = c # gs" "c \<noteq> ch CHR ''%''" "out = c # rest" "format_text floats texts gs ws = Some rest"
  | gs lo hi vs cs rest where "fs = ch CHR ''%'' # ch CHR ''f'' # gs" "ws = lo # hi # vs" "floats lo hi = Some cs" "out = cs @ rest"
      "format_text floats texts gs vs = Some rest"
  | d gs w vs cs rest where "fs = ch CHR ''%'' # d # gs" "ws = w # vs" "conv_text texts d w = Some cs" "out = cs @ rest"
      "format_text floats texts gs vs = Some rest"
  | d gs rest where "fs = ch CHR ''%'' # d # gs" "d \<notin> set (map ch ''dxpfsc'')" "out = d # rest"
      "format_text floats texts gs ws = Some rest"
  using assms
  by (cases "(floats, texts, fs, ws)" rule: format_text.cases)
    (auto split: if_splits list.splits simp: bind_eq_Some_conv)

text \<open>What the conversion of a \<^verbatim>\<open>double\<close> does where \<open>floats\<close> describes it.\<close>

definition float_ok :: "(mem \<Rightarrow> u32 \<Rightarrow> u32 \<Rightarrow> u32 \<Rightarrow> mem \<times> u32) \<Rightarrow> float_texts \<Rightarrow> bool" where
  "float_ok ftoa floats \<longleftrightarrow> (\<forall>m lo hi p cs. floats lo hi = Some cs \<longrightarrow>
     length cs < 32 \<and> prints m p cs (fst (ftoa m lo hi p)) \<and> snd (ftoa m lo hi p) = p + of_nat (length cs))"

lemma float_ok_none [simp]: "float_ok ftoa no_floats"
  by (simp add: float_ok_def)

lemma float_okD:
  "float_ok ftoa floats \<Longrightarrow> floats lo hi = Some cs \<Longrightarrow>
   length cs < 32 \<and> (\<exists>m'. ftoa m lo hi p = (m', p + of_nat (length cs)) \<and> prints m p cs m')"
  unfolding float_ok_def by (metis prod.collapse)

definition args_at :: "mem \<Rightarrow> u32 \<Rightarrow> u32 list \<Rightarrow> bool" where
  "args_at m args ws \<longleftrightarrow> (\<forall>i < length ws. load32 m (args + 4 * of_nat i) = ws ! i)"

text \<open>The format, the arguments and the strings lie outside the addresses that are written.\<close>

definition format_input :: "(u32 \<Rightarrow> bool) \<Rightarrow> (u32 \<rightharpoonup> u8 list) \<Rightarrow> mem \<Rightarrow> u32 \<Rightarrow> u8 list \<Rightarrow> u32 \<Rightarrow> u32 list \<Rightarrow> bool" where
  "format_input A texts m fmt fs args ws \<longleftrightarrow>
     cstr m fmt fs \<and> args_at m args ws \<and> (\<forall>j \<le> length fs. \<not> A (fmt + of_nat j)) \<and>
     (\<forall>j < 4 * length ws. \<not> A (args + of_nat j)) \<and>
     (\<forall>w cs. texts w = Some cs \<longrightarrow> cstr m w cs \<and> str_fits w cs \<and> (\<forall>j \<le> length cs. \<not> A (w + of_nat j)))"


lemma cstr_agree: "cstr m p cs \<Longrightarrow> (\<And>j. j \<le> length cs \<Longrightarrow> m' (p + of_nat j) = m (p + of_nat j)) \<Longrightarrow> cstr m' p cs"
proof (induction cs arbitrary: p)
  case Nil
  then show ?case
    using Nil.prems(2) [of 0] by simp
next
  case (Cons c cs)
  have "m' (p + 1 + of_nat j) = m (p + 1 + of_nat j)" if "j \<le> length cs" for j
    using Cons.prems(2) [of "Suc j"] that by (simp add: add.assoc)
  then show ?case
    using Cons.prems(1) Cons.prems(2) [of 0] Cons.IH by simp
qed

lemma format_input_agree:
  assumes "format_input A texts m fmt fs args ws" and eq: "\<And>x. \<not> A x \<Longrightarrow> m' x = m x"
  shows "format_input A texts m' fmt fs args ws"
proof -
  note inp = assms(1) [unfolded format_input_def]
  have "load32 m' (args + 4 * of_nat i) = load32 m (args + 4 * of_nat i)" if i: "i < length ws" for i
  proof (rule load32_agree)
    fix k :: nat assume "k < 4"
    then have "4 * i + k < 4 * length ws"
      using i by simp
    then have "\<not> A (args + of_nat (4 * i + k))"
      using inp by blast
    then show "m' (args + 4 * of_nat i + of_nat k) = m (args + 4 * of_nat i + of_nat k)"
      using eq by (simp add: add.assoc)
  qed
  then have "args_at m' args ws"
    using inp by (simp add: args_at_def)
  moreover have "cstr m' w cs" if "texts w = Some cs" for w cs
    by (rule cstr_agree [of m]) (use inp that eq in auto)
  moreover have "cstr m' fmt fs"
    by (rule cstr_agree [of m]) (use inp eq in auto)
  ultimately show ?thesis
    using inp unfolding format_input_def by blast
qed

lemma format_input_char:
  assumes "format_input A texts m fmt (c # fs) args ws"
  shows "m fmt = c" and "c \<noteq> 0" and "format_input A texts m (fmt + 1) fs args ws"
proof -
  note inp = assms [unfolded format_input_def]
  show "m fmt = c" "c \<noteq> 0"
    using inp by simp_all
  have "\<not> A (fmt + 1 + of_nat j)" if "j \<le> length fs" for j
    using inp that by (auto dest!: spec [of _ "Suc j"] simp: add.assoc)
  then show "format_input A texts m (fmt + 1) fs args ws"
    using inp by (simp add: format_input_def)
qed

lemma format_input_arg:
  assumes "format_input A texts m fmt fs args (w # vs)"
  shows "load32 m args = w" and "format_input A texts m fmt fs (args + 4) vs"
proof -
  note inp = assms [unfolded format_input_def]
  have args: "load32 m (args + 4 * of_nat i) = (w # vs) ! i" if "i < length (w # vs)" for i
    using inp that unfolding args_at_def by blast
  show "load32 m args = w"
    using args [of 0] by simp
  have "args_at m (args + 4) vs"
    using args [of "Suc _"] by (simp add: args_at_def algebra_simps)
  moreover have "\<not> A (args + 4 + of_nat j)" if "j < 4 * length vs" for j
  proof -
    have "4 + j < 4 * length (w # vs)"
      using that by simp
    then have "\<not> A (args + of_nat (4 + j))"
      using inp by blast
    then show ?thesis
      by (simp add: add.assoc)
  qed
  ultimately show "format_input A texts m fmt fs (args + 4) vs"
    using inp by (simp add: format_input_def)
qed

lemma format_input_text:
  "format_input A texts m fmt fs args ws \<Longrightarrow> texts w = Some cs \<Longrightarrow>
    cstr m w cs \<and> str_fits w cs \<and> (\<forall>j \<le> length cs. \<not> A (w + of_nat j))"
  by (simp add: format_input_def)


lemma in_range_before:
  assumes "i < k" and "k + n \<le> 4294967296"
  shows "\<not> in_range (p + of_nat i) (p + of_nat k) n"
proof
  assume "in_range (p + of_nat i) (p + of_nat k) n"
  then obtain j where j: "j < n" "p + of_nat i = p + of_nat k + of_nat j"
    by (auto simp: in_range_ex)
  then have "(of_nat i :: u32) = of_nat (k + j)"
    by (simp add: add.assoc)
  then show False
    using of_nat_u32_inj [of i "k + j"] j(1) assms by simp
qed

lemma push_args_other: "\<not> in_range x a (4 * length ws) \<Longrightarrow> length ws < 1000 \<Longrightarrow> push_args m a ws x = m x"
proof (induction ws arbitrary: m a)
  case (Cons w ws)
  have "\<not> in_range x a 4"
    using Cons.prems(1) by (auto simp: in_range_def)
  moreover have "\<not> in_range x (a + 4) (4 * length ws)"
    using Cons.prems in_range_sub [of 4 "4 * length ws" "4 * length (w # ws)" x a] by auto
  ultimately show ?case
    using Cons.IH Cons.prems(2) by (simp add: store32_other)
qed simp

lemma push_args_args_at: "length ws < 1000 \<Longrightarrow> args_at (push_args m a ws) a ws"
proof (induction ws arbitrary: m a)
  case (Cons w ws)
  have IH: "args_at (push_args (store32 m a w) (a + 4) ws) (a + 4) ws"
    using Cons by simp
  have "\<not> in_range (a + of_nat k) (a + 4) (4 * length ws)" if "k < 4" for k
    using in_range_before [of k 4 "4 * length ws" a] that Cons.prems by simp
  then have "load32 (push_args (store32 m a w) (a + 4) ws) a = load32 (store32 m a w) a"
    using Cons.prems by (intro load32_agree push_args_other) simp_all
  then show ?case
    using IH by (auto simp: args_at_def nth_Cons load32_store32 add.assoc split: nat.split)
qed (simp add: args_at_def)


section \<open>Text in a buffer\<close>

definition puts_at :: "mem \<Rightarrow> u32 \<Rightarrow> u8 list \<Rightarrow> mem \<Rightarrow> bool" where
  "puts_at m p cs m' \<longleftrightarrow> bytes_at m' p (length cs) = cs \<and> (\<forall>x. \<not> in_range x p (length cs + 1) \<longrightarrow> m' x = m x)"

lemma prints_puts: "prints m p cs m' \<Longrightarrow> puts_at m p cs m'"
  by (simp add: prints_def puts_at_def cstr_iff)

lemma puts_at_append:
  assumes "puts_at m p cs m1" and "puts_at m1 (p + of_nat (length cs)) rest m'" and "length cs + length rest < 4294967295"
  shows "puts_at m p (cs @ rest) m'"
proof -
  have "bytes_at m' p (length cs) = bytes_at m1 p (length cs)"
    using assms(2,3) in_range_before [of _ "length cs" "length rest + 1" p]
    by (intro nth_equalityI) (auto simp: puts_at_def)
  moreover have "m' x = m x" if x: "\<not> in_range x p (length (cs @ rest) + 1)" for x
  proof -
    have "\<not> in_range x p (length cs + 1)" "\<not> in_range x (p + of_nat (length cs)) (length rest + 1)"
      using x in_range_sub [of 0 "length cs + 1" "length (cs @ rest) + 1" x p]
        in_range_sub [of "length cs" "length rest + 1" "length (cs @ rest) + 1" x p] assms(3) by auto
    then show ?thesis
      using assms(1,2) by (simp add: puts_at_def)
  qed
  ultimately show ?thesis
    using assms(1,2) by (simp add: puts_at_def bytes_at_add)
qed

lemma puts_at_char: "puts_at m p [c] (m(p := c))"
  by (auto simp: puts_at_def in_range_def bytes_at_Suc)

lemma vsprintf_conv_ok:
  assumes tx: "conv_text texts d w = Some cs" and w: "load32 m args = w"
    and src: "\<And>cs. texts w = Some cs \<Longrightarrow> cstr m w cs \<and> str_fits w cs \<and> (\<forall>j \<le> length cs. \<not> A (w + of_nat j))"
    and out: "\<And>x. in_range x p (length cs + 1) \<Longrightarrow> A x"
  shows "\<exists>m1. vsprintf_conv ftoa m p d args = Some (m1, p + of_nat (length cs), args + 4) \<and> puts_at m p cs m1"
proof -
  consider "d = ch CHR ''d''" "cs = printed_int w" | "d = ch CHR ''x'' \<or> d = ch CHR ''p''" "cs = hex_text w"
    | "d = ch CHR ''s''" "texts w = Some cs" | "d = ch CHR ''c''" "cs = [ucast w]"
    using tx by (auto simp: conv_text_def split: if_splits)
  then show ?thesis
  proof cases
    case 1
    then show ?thesis
      using printed_int_prints [of m p w] w by (auto simp: vsprintf_conv_def prints_puts split: prod.splits)
  next
    case 2
    then show ?thesis
      using htoa_prints [of m p w] w by (auto simp: vsprintf_conv_def prints_puts split: prod.splits)
  next
    case 3
    note src = src [OF 3(2)]
    have len: "length cs < 4294967295"
      using src by (simp add: str_fits_def)
    have "disjoint_ranges p (Suc (length cs)) w (Suc (length cs))"
      unfolding disjoint_ranges_def
    proof (intro allI notI, elim conjE)
      fix x assume "in_range x p (Suc (length cs))" "in_range x w (Suc (length cs))"
      then have "A x" "\<exists>j. x = w + of_nat j \<and> j \<le> length cs"
        using out by (auto simp: in_range_ex [of x w])
      then show False
        using src by blast
    qed
    from strcpy_eq [OF _ this] src len have cp: "strcpy m p w = Some (store_bytes m p (cs @ [0]))"
      by blast
    have nz: "0 \<notin> set cs"
      using src cstr_nonzero by blast
    have pr: "prints m p cs (store_bytes m p (cs @ [0]))"
      using cstr_store [OF nz len, of m p] store_bytes_other [of _ p "cs @ [0]" m] by (simp add: prints_def)
    have "store_bytes m p (cs @ [0]) x = m x" if "\<not> A x" for x
      using pr out that unfolding prints_def by blast
    then have "cstr (store_bytes m p (cs @ [0])) w cs"
      by (rule cstr_agree [of m, rotated]) (use src in auto)
    then show ?thesis
      using 3(1) w cp src strlen_eq [of _ w cs] prints_puts [OF pr] by (simp add: vsprintf_conv_def)
  next
    case 4
    then show ?thesis
      using w puts_at_char [of m p] by (simp add: vsprintf_conv_def)
  qed
qed


lemma vsprintf_loop_ok:
  assumes fl: "float_ok ftoa floats"
    and "format_text floats texts fs ws = Some out" and "format_input A texts m fmt fs args ws"
    and "\<And>x. in_range x p (length out + 1) \<Longrightarrow> A x" and "length out < 4294967295"
  shows "\<exists>m'. vsprintf_loop ftoa m p fmt args = Some (m', p + of_nat (length out)) \<and> puts_at m p out m' \<and>
    m' (p + of_nat (length out)) = 0"
  using assms(2-)
proof (induction "length fs" arbitrary: fs ws out m p fmt args rule: less_induct)
  case less
  note inp = less.prems(2) and A = less.prems(3) and len = less.prems(4)
  have step: ?case
    if "puts_at m p cs m1" "out = cs @ rest" "length gs < length fs" "format_text floats texts gs vs = Some rest"
      "format_input A texts m fmt' gs args' vs"
      "vsprintf_loop ftoa m p fmt args = vsprintf_loop ftoa m1 (p + of_nat (length cs)) fmt' args'"
    for cs m1 rest gs vs fmt' args'
  proof -
    have A': "A x" if "in_range x (p + of_nat (length cs)) (length rest + 1)" for x
      using that len in_range_sub [of "length cs" "length rest + 1" "length out + 1" x p] A \<open>out = cs @ rest\<close> by simp
    have "m1 x = m x" if "\<not> A x" for x
      using that A [of x] in_range_sub [of 0 "length cs + 1" "length out + 1" x p] len \<open>puts_at m p cs m1\<close> \<open>out = cs @ rest\<close>
      by (auto simp: puts_at_def)
    then have "format_input A texts m1 fmt' gs args' vs"
      using format_input_agree [OF \<open>format_input A texts m fmt' gs args' vs\<close>] by blast
    from less.hyps [OF that(3) that(4) this A'] len obtain m' where
      "vsprintf_loop ftoa m1 (p + of_nat (length cs)) fmt' args' = Some (m', p + of_nat (length cs) + of_nat (length rest))"
      "puts_at m1 (p + of_nat (length cs)) rest m'" "m' (p + of_nat (length cs) + of_nat (length rest)) = 0"
      using \<open>out = cs @ rest\<close> by auto
    then show ?thesis
      using puts_at_append [OF that(1)] that(2,6) len by (auto simp: add.assoc)
  qed
  from less.prems(1) show ?case
  proof (cases rule: format_text_cases)
    case finish
    then show ?thesis
      using inp by (subst vsprintf_loop.simps) (auto simp: format_input_def puts_at_def in_range_def)
  next
    case (plain c gs rest)
    note ch = format_input_char [OF inp [unfolded plain(1)]]
    have "vsprintf_loop ftoa m p fmt args = vsprintf_loop ftoa (m(p := c)) (p + 1) (fmt + 1) args"
      using ch(1,2) plain(2) by (subst vsprintf_loop.simps) simp
    then show ?thesis
      using step [OF puts_at_char, of c rest gs ws "fmt + 1" args] plain ch(3) by simp
  next
    case (float gs lo hi vs cs rest)
    note ch = format_input_char [OF inp [unfolded float(1)]]
    note ch' = format_input_char [OF ch(3)]
    note arg = format_input_arg [OF ch'(3) [unfolded float(2)]]
    note arg' = format_input_arg [OF arg(2)]
    obtain m1 where m1: "ftoa m lo hi p = (m1, p + of_nat (length cs))" "puts_at m p cs m1"
      using float_okD [OF fl float(3)] prints_puts by blast
    then have "vsprintf_conv ftoa m p (ch CHR ''f'') args = Some (m1, p + of_nat (length cs), args + 4 + 4)"
      using arg(1) arg'(1) by (simp add: vsprintf_conv_def)
    then have "vsprintf_loop ftoa m p fmt args = vsprintf_loop ftoa m1 (p + of_nat (length cs)) (fmt + 1 + 1) (args + 4 + 4)"
      using ch(1,2) ch'(1) by (subst vsprintf_loop.simps) (simp add: add.commute)
    then show ?thesis
      using step [OF m1(2) float(4) _ float(5) arg'(2)] float(1) by simp
  next
    case (conversion d gs w vs cs rest)
    note ch = format_input_char [OF inp [unfolded conversion(1)]]
    note ch' = format_input_char [OF ch(3)]
    note arg = format_input_arg [OF ch'(3) [unfolded conversion(2)]]
    have "\<exists>m1. vsprintf_conv ftoa m p d args = Some (m1, p + of_nat (length cs), args + 4) \<and> puts_at m p cs m1"
    proof (rule vsprintf_conv_ok [OF conversion(3) arg(1)])
      show "cstr m w cs \<and> str_fits w cs \<and> (\<forall>j \<le> length cs. \<not> A (w + of_nat j))" if "texts w = Some cs" for cs
        using format_input_text [OF inp that] .
      show "A x" if "in_range x p (length cs + 1)" for x
        using that A in_range_sub [of 0 "length cs + 1" "length out + 1" x p] len conversion(4) by simp
    qed
    then obtain m1 where m1: "vsprintf_conv ftoa m p d args = Some (m1, p + of_nat (length cs), args + 4)" "puts_at m p cs m1"
      by blast
    have "vsprintf_loop ftoa m p fmt args = vsprintf_loop ftoa m1 (p + of_nat (length cs)) (fmt + 1 + 1) (args + 4)"
      using ch(1,2) ch'(1) m1(1) by (subst vsprintf_loop.simps) (simp add: add.commute)
    then show ?thesis
      using step [OF m1(2) conversion(4) _ conversion(5) arg(2)] conversion(1) by simp
  next
    case (escaped d gs rest)
    note ch = format_input_char [OF inp [unfolded escaped(1)]]
    note ch' = format_input_char [OF ch(3)]
    have "vsprintf_conv ftoa m p d args = Some (m(p := d), p + 1, args)"
      using escaped(2) by (simp add: vsprintf_conv_def)
    then have "vsprintf_loop ftoa m p fmt args = vsprintf_loop ftoa (m(p := d)) (p + 1) (fmt + 1 + 1) args"
      using ch(1,2) ch'(1) by (subst vsprintf_loop.simps) (simp add: add.commute)
    then show ?thesis
      using step [OF puts_at_char, of d rest gs ws "fmt + 1 + 1" args] escaped ch'(3) by simp
  qed
qed

lemma sprintf_stores:
  assumes "float_ok ftoa floats" and "format_text floats texts fs ws = Some out" and "length out < 4294967295"
    and "format_input (\<lambda>x. in_range x str (length out + 1)) texts m fmt fs args ws"
  shows "\<exists>m'. sprintf ftoa m str fmt args = Some (of_nat (length out), m') \<and> bytes_at m' str (length out + 1) = out @ [0] \<and>
    (\<forall>x. in_range x str (length out + 1) \<or> m' x = m x)"
proof -
  obtain m' where m': "vsprintf_loop ftoa m str fmt args = Some (m', str + of_nat (length out))" "puts_at m str out m'"
    "m' (str + of_nat (length out)) = 0"
    using vsprintf_loop_ok [OF assms(1,2,4) _ assms(3), of str] by auto
  have "bytes_at m' str (length out + 1) = out @ [0]"
    using m'(2,3) unfolding bytes_at_add by (simp add: puts_at_def bytes_at_Suc)
  then show ?thesis
    using m' by (auto simp: sprintf_def vsprintf_def puts_at_def)
qed

text \<open>A format with one conversion of each kind, its arguments and a string.\<close>

definition sample_format :: "u8 list" where
  "sample_format = map ch ''s=%s n=%d%%''"

definition sample_call :: mem where
  "sample_call = store_bytes (store32 (store32 (store_bytes (\<lambda>_. 0) 0x100 sample_format) 0x200 0x300) 0x204 (- 7)) 0x300 [97, 98]"

definition sample_texts :: "u32 \<rightharpoonup> u8 list" where
  "sample_texts = [0x300 \<mapsto> [97, 98]]"

lemma sample_format_text:
  "format_text floats sample_texts sample_format [0x300, - 7] = Some (map ch ''s=ab n=-7%'')"
  by code_simp

lemma sample_call_holds:
  "cstr sample_call 0x100 sample_format \<and> cstr sample_call 0x300 [97, 98] \<and>
   load32 sample_call 0x200 = 0x300 \<and> load32 sample_call 0x204 = - 7"
  by code_simp

lemma sample_call_input:
  assumes "\<And>x. x < 0x400 \<Longrightarrow> \<not> A x"
  shows "format_input A sample_texts sample_call 0x100 sample_format 0x200 [0x300, - 7]"
proof -
  have "\<not> A (p + of_nat j)" if "p \<le> 0x300" "j < 256" for p j
    using that by (intro assms) (simp add: word_less_nat_alt word_le_nat_alt unat_add_u32 unat_of_nat)
  moreover have "args_at sample_call 0x200 [0x300, - 7]"
    using sample_call_holds by (auto simp: args_at_def less_Suc_eq)
  moreover have "length sample_format = 11"
    by (simp add: sample_format_def)
  ultimately show ?thesis
    using sample_call_holds by (auto simp: format_input_def sample_texts_def str_fits_def)
qed

lemma prints_within:
  assumes "prints m str cs m'" and "length cs < k" and "k < 4294967296" and "\<not> in_range x str k"
  shows "m' x = m x"
  using assms in_range_sub [of 0 "length cs + 1" k x str] by (auto simp: prints_def)

text \<open>
  C36: whatever the number, \<^verbatim>\<open>itoa\<close> stores at most 12 bytes and \<^verbatim>\<open>htoa\<close> at most 11, from the destination
  on: the 32 bytes of the buffer of a stream are enough.
\<close>
theorem numbers_fit_buffer:
  "(in_range x str 12 \<or> fst (itoa m n str) x = m x) \<and> (in_range x str 11 \<or> fst (htoa m n str) x = m x)"
proof -
  have "fst (htoa m n str) x = m x" if "\<not> in_range x str 11"
    using htoa_prints [of m str n] hex_text_length [of n] that prints_within [of m str "hex_text n" _ 11 x] by auto
  moreover have "fst (itoa m n str) x = m x" if "\<not> in_range x str 12"
    using printed_int_prints [of m str n] printed_int_length [of n] that prints_within [of m str "printed_int n" _ 12 x] by auto
  ultimately show ?thesis
    by blast
qed

end
