(* ===== verification/Float_Text.thy ===== *)
theory Float_Text
  imports Complex_Main Format
begin

text \<open>
  \<^verbatim>\<open>ftoa\<close> of \<^verbatim>\<open>kernel/src/utils/string.c\<close>.  A finite \<^verbatim>\<open>double\<close> is the rational number it stands for; \<open>rnd\<close> is the rounding
  of a result to the format in which the compiler keeps it.
\<close>

unbundle bit_operations_syntax

section \<open>The code\<close>

text \<open>The number in the double format of IEEE 754; \<open>None\<close> for infinities and NaNs.\<close>

definition double_value :: "u32 \<Rightarrow> u32 \<Rightarrow> rat option" where
  "double_value lo hi =
     (let e = unat hi div 2 ^ 20 mod 2048;
          f = (if e = 0 then 0 else 2 ^ 52) + unat hi mod 2 ^ 20 * 2 ^ 32 + unat lo
      in if e = 2047 then None
         else Some ((if hi < 0x80000000 then 1 else - 1) * (of_nat (f * 2 ^ max 1 e) / 2 ^ 1075)))"

text \<open>A conversion to \<^verbatim>\<open>int\<close> drops the fraction.\<close>

definition truncate_double :: "rat \<Rightarrow> int" where
  "truncate_double x = (if x < 0 then \<lceil>x\<rceil> else \<lfloor>x\<rfloor>)"

text \<open>One digit behind the point, and the fraction that is left.\<close>

definition ftoa_digit :: "(rat \<Rightarrow> rat) \<Rightarrow> rat \<Rightarrow> int \<times> rat" where
  "ftoa_digit rnd fpart =
     (let fpart1 = rnd (fpart * 10);
          digit = truncate_double fpart1;
          digit1 = (if digit < 0 then 0 else digit);
          digit2 = (if digit1 > 9 then 9 else digit1);
          fpart2 = rnd (fpart1 - of_int digit2)
      in (digit2, if fpart2 < 0 then 0 else fpart2))"

primrec ftoa_digits :: "(rat \<Rightarrow> rat) \<Rightarrow> mem \<Rightarrow> u32 \<Rightarrow> rat \<Rightarrow> nat \<Rightarrow> mem \<times> u32" where
  "ftoa_digits rnd m p fpart 0 = (m, p)"
| "ftoa_digits rnd m p fpart (Suc i) =
     (let (digit, fpart1) = ftoa_digit rnd fpart
      in ftoa_digits rnd (m(p := ch CHR ''0'' + of_int digit)) (p + 1) fpart1 i)"

definition ftoa_unsigned :: "(rat \<Rightarrow> rat) \<Rightarrow> mem \<Rightarrow> u32 \<Rightarrow> rat \<Rightarrow> int \<Rightarrow> mem \<times> u32" where
  "ftoa_unsigned rnd m p n prec =
     (let ipart = of_int (truncate_double n) :: u32;
          fpart = rnd (n - of_nat (unat ipart));
          (m1, p1) = itoa m ipart p;
          (m2, p2) = (if 0 < prec then ftoa_digits rnd (m1(p1 := ch CHR ''.'')) (p1 + 1) fpart (nat prec) else (m1, p1))
      in (m2(p2 := 0), p2))"

definition ftoa_finite :: "(rat \<Rightarrow> rat) \<Rightarrow> mem \<Rightarrow> rat \<Rightarrow> u32 \<Rightarrow> int \<Rightarrow> mem \<times> u32" where
  "ftoa_finite rnd m n str prec =
     (if n < 0 then ftoa_unsigned rnd (m(str := ch CHR ''-'')) (str + 1) (- n) prec
      else ftoa_unsigned rnd m str n prec)"

text \<open>
  The conversion of an infinity, a NaN or a number that is not below \<^term>\<open>2 ^ 32\<close> to \<^verbatim>\<open>uint32_t\<close> has no meaning in C; \<open>undef\<close>
  is what happens then.  \<^verbatim>\<open>vsprintf\<close> and \<^verbatim>\<open>stream_putfloat\<close> ask for six digits.
\<close>

definition ftoa :: "(rat \<Rightarrow> rat) \<Rightarrow> (mem \<Rightarrow> u32 \<Rightarrow> u32 \<Rightarrow> u32 \<Rightarrow> mem \<times> u32) \<Rightarrow> mem \<Rightarrow> u32 \<Rightarrow> u32 \<Rightarrow> u32 \<Rightarrow> mem \<times> u32" where
  "ftoa rnd undef m lo hi str =
     (case double_value lo hi of
       None \<Rightarrow> undef m lo hi str
     | Some n \<Rightarrow> if \<bar>n\<bar> < 4294967296 then ftoa_finite rnd m n str 6 else undef m lo hi str)"


section \<open>The digits\<close>

definition decimals :: "rat \<Rightarrow> nat \<Rightarrow> u8 list" where
  "decimals x n = map (\<lambda>i. ch CHR ''0'' + of_int (\<lfloor>x * 10 ^ Suc i\<rfloor> mod 10)) [0..<n]"

lemma decimals_Suc: "decimals x (Suc n) = (ch CHR ''0'' + of_int (\<lfloor>x * 10\<rfloor> mod 10)) # decimals (x * 10) n"
proof -
  have "[0..<Suc n] = 0 # map Suc [0..<n]"
    by (simp add: upt_conv_Cons map_Suc_upt del: upt_Suc)
  then show ?thesis
    by (simp only: decimals_def list.map map_map comp_def power_Suc power_0 mult_1_right mult.assoc)
qed

lemma decimals_shift: "decimals (x - of_int k) n = decimals x n"
proof -
  have "\<lfloor>(x - of_int k) * 10 ^ Suc i\<rfloor> mod 10 = \<lfloor>x * 10 ^ Suc i\<rfloor> mod 10" for i
  proof -
    have "(x - of_int k) * 10 ^ Suc i = x * 10 ^ Suc i - of_int (k * 10 ^ i * 10)"
      by (simp add: algebra_simps)
    then have "\<lfloor>(x - of_int k) * 10 ^ Suc i\<rfloor> = \<lfloor>x * 10 ^ Suc i\<rfloor> - k * 10 ^ i * 10"
      by (simp only: floor_diff_of_int)
    moreover have "(a - j * 10) mod 10 = a mod 10" for a j :: int
      using mod_mult_self1 [of a "- j" 10] by simp
    ultimately show ?thesis
      by (simp only:)
  qed
  then show ?thesis
    by (simp only: decimals_def)
qed

lemma decimals_length [simp]: "length (decimals x n) = n"
  by (simp add: decimals_def)

text \<open>
  The rounding of a result to a floating point format with at least the 53 bits of a \<^verbatim>\<open>double\<close>: it is monotone, exact on
  every \<^verbatim>\<open>double\<close>, and off by at most half a unit in the last place.
\<close>

definition double_rounding :: "(rat \<Rightarrow> rat) \<Rightarrow> bool" where
  "double_rounding rnd \<longleftrightarrow> mono rnd \<and>
     (\<forall>k b. \<bar>k\<bar> < 2 ^ 53 \<and> b \<le> 1074 \<longrightarrow> rnd (of_int k / 2 ^ b) = of_int k / 2 ^ b) \<and>
     (\<forall>z. \<bar>z\<bar> \<le> 16 \<longrightarrow> \<bar>rnd z - z\<bar> \<le> 1 / 2 ^ 50)"

lemma double_roundingD:
  assumes "double_rounding rnd"
  shows "a \<le> b \<Longrightarrow> rnd a \<le> rnd b" and "\<bar>k\<bar> < 2 ^ 53 \<Longrightarrow> j \<le> 1074 \<Longrightarrow> rnd (of_int k / 2 ^ j) = of_int k / 2 ^ j"
    and "\<bar>z\<bar> \<le> 16 \<Longrightarrow> \<bar>rnd z - z\<bar> \<le> 1 / 2 ^ 50"
  using assms by (auto simp: double_rounding_def mono_def)

lemma double_rounding_small: "double_rounding rnd \<Longrightarrow> rnd 0 = 0 \<and> rnd 1 = 1 \<and> rnd 10 = 10"
  using double_roundingD(2) [of rnd 0 0] double_roundingD(2) [of rnd 1 0] double_roundingD(2) [of rnd 10 0] by simp

lemma double_rounding_id: "double_rounding id"
  by (simp add: double_rounding_def mono_def)

text \<open>The digits as a list, and the number they stand for.\<close>

primrec round_digits :: "(rat \<Rightarrow> rat) \<Rightarrow> rat \<Rightarrow> nat \<Rightarrow> u8 list" where
  "round_digits rnd x 0 = []"
| "round_digits rnd x (Suc n) =
     (let z = rnd (x * 10); d = min \<lfloor>z\<rfloor> 9 in (ch CHR ''0'' + of_int d) # round_digits rnd (rnd (z - of_int d)) n)"

primrec digits_value :: "u8 list \<Rightarrow> rat" where
  "digits_value [] = 0"
| "digits_value (c # cs) = (of_nat (unat (c - ch CHR ''0'')) + digits_value cs) / 10"

lemma round_digits_length [simp]: "length (round_digits rnd x n) = n"
  by (induction n arbitrary: x) (simp_all add: Let_def)

lemma digit_round:
  assumes rnd: "double_rounding rnd" and x: "0 \<le> x" "x \<le> 1"
  defines "z \<equiv> rnd (x * 10)"
  defines "d \<equiv> min \<lfloor>z\<rfloor> 9"
  shows "ftoa_digit rnd x = (d, rnd (z - of_int d))" and "0 \<le> d" and "d \<le> 9"
    and "0 \<le> rnd (z - of_int d)" and "rnd (z - of_int d) \<le> 1"
    and "\<bar>x - (of_int d + rnd (z - of_int d)) / 10\<bar> \<le> 1 / 2 ^ 52"
proof -
  note small = double_rounding_small [OF rnd]
  have z: "0 \<le> z" "z \<le> 10"
    using double_roundingD(1) [OF rnd, of 0 "x * 10"] double_roundingD(1) [OF rnd, of "x * 10" 10] x small
    by (simp_all add: z_def)
  then show d: "0 \<le> d" "d \<le> 9"
    by (simp_all add: d_def)
  have zd: "0 \<le> z - of_int d" "z - of_int d \<le> 1"
    using z unfolding d_def by linarith+
  show r: "0 \<le> rnd (z - of_int d)" "rnd (z - of_int d) \<le> 1"
    using double_roundingD(1) [OF rnd zd(1)] double_roundingD(1) [OF rnd zd(2)] small by simp_all
  have tz: "truncate_double z = \<lfloor>z\<rfloor>" "(if 9 < \<lfloor>z\<rfloor> then 9 else \<lfloor>z\<rfloor>) = d"
    and nn: "\<not> \<lfloor>z\<rfloor> < 0" "\<not> rnd (z - of_int d) < 0"
    using z r(1) by (auto simp: truncate_double_def d_def)
  show "ftoa_digit rnd x = (d, rnd (z - of_int d))"
    unfolding ftoa_digit_def Let_def z_def [symmetric] tz(1) if_not_P [OF nn(1)] tz(2) if_not_P [OF nn(2)] ..
  have "\<bar>z - x * 10\<bar> \<le> 1 / 2 ^ 50" "\<bar>rnd (z - of_int d) - (z - of_int d)\<bar> \<le> 1 / 2 ^ 50"
    using double_roundingD(3) [OF rnd, of "x * 10"] double_roundingD(3) [OF rnd, of "z - of_int d"] x zd by (simp_all add: z_def)
  then show "\<bar>x - (of_int d + rnd (z - of_int d)) / 10\<bar> \<le> 1 / 2 ^ 52"
    unfolding abs_le_iff by (simp add: field_simps)
qed

lemma digit_char:
  assumes "0 \<le> d" and "d \<le> 9"
  shows "unat (ch CHR ''0'' + of_int d - ch CHR ''0'') = nat d" and "48 \<le> (ch CHR ''0'' + of_int d :: u8)" and "(ch CHR ''0'' + of_int d :: u8) \<le> 57"
proof -
  have "d = 0 \<or> d = 1 \<or> d = 2 \<or> d = 3 \<or> d = 4 \<or> d = 5 \<or> d = 6 \<or> d = 7 \<or> d = 8 \<or> d = 9"
    using assms by arith
  then show "unat (ch CHR ''0'' + of_int d - ch CHR ''0'') = nat d" "48 \<le> (ch CHR ''0'' + of_int d :: u8)" "(ch CHR ''0'' + of_int d :: u8) \<le> 57"
    by auto
qed

lemma ftoa_digits_round:
  assumes rnd: "double_rounding rnd" and "0 \<le> x" "x \<le> 1" and "n < 1000"
  shows "\<exists>m'. ftoa_digits rnd m p x n = (m', p + of_nat n) \<and> puts_at m p (round_digits rnd x n) m'"
  using assms(2-)
proof (induction n arbitrary: m p x)
  case 0
  then show ?case
    by (simp add: puts_at_def)
next
  case (Suc n)
  define z where "z = rnd (x * 10)"
  define d where "d = min \<lfloor>z\<rfloor> 9"
  note step = digit_round [OF rnd Suc.prems(1,2), folded z_def, folded d_def]
  let ?y = "rnd (z - of_int d)" and ?c = "ch CHR ''0'' + of_int d"
  obtain m' where m': "ftoa_digits rnd (m(p := ?c)) (p + 1) ?y n = (m', p + 1 + of_nat n)" "puts_at (m(p := ?c)) (p + 1) (round_digits rnd ?y n) m'"
    using Suc.IH [OF step(4,5)] Suc.prems(3) by fastforce
  have d: "round_digits rnd x (Suc n) = [?c] @ round_digits rnd ?y n"
    by (simp add: Let_def d_def z_def)
  have "puts_at m p (round_digits rnd x (Suc n)) m'"
    unfolding d by (rule puts_at_append [OF puts_at_char]) (use m'(2) Suc.prems(3) in simp_all)
  then show ?case
    using m'(1) step(1) by (simp add: add.assoc del: round_digits.simps)
qed

lemma round_digits_accurate:
  assumes rnd: "double_rounding rnd" and "0 \<le> x" "x \<le> 1"
  shows "- 1 / 2 ^ 50 \<le> x - digits_value (round_digits rnd x n) \<and>
    x - digits_value (round_digits rnd x n) \<le> 1 / 10 ^ n + 1 / 2 ^ 50 \<and> set (round_digits rnd x n) \<subseteq> {48..57}"
  using assms(2-)
proof (induction n arbitrary: x)
  case (Suc n)
  define z where "z = rnd (x * 10)"
  define d where "d = min \<lfloor>z\<rfloor> 9"
  note step = digit_round [OF rnd Suc.prems(1,2), folded z_def, folded d_def]
  let ?y = "rnd (z - of_int d)"
  define v where "v = digits_value (round_digits rnd ?y n)"
  have ds: "round_digits rnd x (Suc n) = (ch CHR ''0'' + of_int d) # round_digits rnd ?y n"
    by (simp add: Let_def d_def z_def)
  have val: "digits_value (round_digits rnd x (Suc n)) = (of_int d + v) / 10"
    using step(2) unfolding ds digits_value.simps digit_char(1) [OF step(2,3)] v_def by simp
  have IH: "- 1 / 2 ^ 50 \<le> ?y - v" "?y - v \<le> 1 / 10 ^ n + 1 / 2 ^ 50" "set (round_digits rnd ?y n) \<subseteq> {48..57}"
    using Suc.IH [OF step(4,5)] by (simp_all add: v_def)
  have "- 1 / 2 ^ 50 \<le> x - (of_int d + v) / 10"
    using step(6) IH(1) unfolding abs_le_iff by (simp add: field_simps)
  moreover have "x - (of_int d + v) / 10 \<le> 1 / 10 ^ Suc n + 1 / 2 ^ 50"
  proof -
    have "x - (of_int d + v) / 10 = (x - (of_int d + ?y) / 10) + (?y - v) / 10"
      by (simp add: field_simps)
    also have "\<dots> \<le> 1 / 2 ^ 52 + (1 / 10 ^ n + 1 / 2 ^ 50) / 10"
      using step(6) IH(2) unfolding abs_le_iff by (intro add_mono divide_right_mono) simp_all
    also have "\<dots> \<le> 1 / 10 ^ Suc n + 1 / 2 ^ 50"
      by (simp add: field_simps)
    finally show ?thesis .
  qed
  moreover have "set (round_digits rnd x (Suc n)) \<subseteq> {48..57}"
    using digit_char(2,3) [OF step(2,3)] IH(3) unfolding ds list.set insert_subset atLeastAtMost_iff by blast
  ultimately show ?case
    unfolding val by blast
qed simp


section \<open>Exact digits\<close>

text \<open>On numbers with at most 49 bits behind the point the arithmetic of the loop is exact, and the digits are those of the number.\<close>

definition short_fraction :: "rat \<Rightarrow> bool" where
  "short_fraction x \<longleftrightarrow> (\<exists>k b. x = of_int k / 2 ^ b \<and> b \<le> 49)"

lemma short_exact:
  assumes "double_rounding rnd" and "short_fraction x" and "\<bar>x\<bar> < 16"
  shows "rnd x = x"
proof -
  obtain k b where x: "x = of_int k / 2 ^ b" "b \<le> 49"
    using assms(2) by (auto simp: short_fraction_def)
  have "\<bar>of_int k :: rat\<bar> < 16 * 2 ^ b"
    using assms(3) unfolding x(1) by (simp add: field_simps)
  also have "\<dots> \<le> 16 * 2 ^ 49"
    using power_increasing [of b 49 "2 :: rat"] x(2) by simp
  finally have "of_int \<bar>k\<bar> < (of_int (2 ^ 53) :: rat)"
    by simp
  then have "\<bar>k\<bar> < 2 ^ 53"
    by (simp only: of_int_less_iff)
  then show ?thesis
    using double_roundingD(2) [OF assms(1), of k b] x by simp
qed

lemma short_times: "short_fraction x \<Longrightarrow> short_fraction (x * of_int j)"
  unfolding short_fraction_def by (metis of_int_mult times_divide_eq_left)

lemma short_minus: "short_fraction x \<Longrightarrow> short_fraction (x - of_int j)"
proof -
  assume "short_fraction x"
  then obtain k b where "x = of_int k / 2 ^ b" "b \<le> 49"
    by (auto simp: short_fraction_def)
  then have "x - of_int j = of_int (k - j * 2 ^ b) / 2 ^ b" "b \<le> 49"
    by (simp_all add: field_simps)
  then show ?thesis
    unfolding short_fraction_def by blast
qed

lemma round_digits_exact:
  assumes rnd: "double_rounding rnd" and "short_fraction x" "0 \<le> x" "x < 1"
  shows "round_digits rnd x n = decimals x n"
  using assms(2-)
proof (induction n arbitrary: x)
  case 0
  then show ?case
    by (simp add: decimals_def)
next
  case (Suc n)
  let ?y = "x * 10 - of_int \<lfloor>x * 10\<rfloor>"
  have s: "short_fraction (x * 10)" "short_fraction ?y"
    using short_times [OF Suc.prems(1), of 10] short_minus by simp_all
  have y: "0 \<le> ?y" "?y < 1"
    by simp_all linarith
  have d: "0 \<le> \<lfloor>x * 10\<rfloor>" "\<lfloor>x * 10\<rfloor> < 10"
    using Suc.prems(2,3) by (simp_all add: floor_less_iff)
  have "rnd (x * 10) = x * 10" "rnd ?y = ?y"
    using s y Suc.prems(2,3) by (auto intro!: short_exact [OF rnd])
  then have "round_digits rnd x (Suc n) = (ch CHR ''0'' + of_int \<lfloor>x * 10\<rfloor>) # round_digits rnd ?y n"
    using d by (simp add: Let_def min_def)
  then show ?case
    using Suc.IH [OF s(2) y] d by (simp add: decimals_Suc decimals_shift)
qed


section \<open>The text of a number\<close>

text \<open>Its sign, the digits before the point, and six digits behind it.\<close>

definition unsigned_text :: "(rat \<Rightarrow> rat) \<Rightarrow> rat \<Rightarrow> u8 list" where
  "unsigned_text rnd x = dec (nat \<lfloor>x\<rfloor>) @ [ch CHR ''.''] @ round_digits rnd (x - of_int \<lfloor>x\<rfloor>) 6"

definition float_text :: "(rat \<Rightarrow> rat) \<Rightarrow> rat \<Rightarrow> u8 list" where
  "float_text rnd x = (if x < 0 then [ch CHR ''-''] else []) @ unsigned_text rnd \<bar>x\<bar>"

definition double_text :: "(rat \<Rightarrow> rat) \<Rightarrow> float_texts" where
  "double_text rnd lo hi =
     (case double_value lo hi of None \<Rightarrow> None
      | Some x \<Rightarrow> if \<bar>x\<bar> < 2147483648 then Some (float_text rnd x) else None)"

lemma puts_at_end:
  assumes "puts_at m p cs m'" and "length cs < 4294967295"
  shows "puts_at m p cs (m'(p + of_nat (length cs) := 0))"
proof -
  have "puts_at m' (p + of_nat (length cs)) [] (m'(p + of_nat (length cs) := 0))"
    by (auto simp: puts_at_def in_range_def)
  from puts_at_append [OF assms(1) this] show ?thesis
    using assms(2) by simp
qed

text \<open>The fraction of a \<^verbatim>\<open>double\<close> is a \<^verbatim>\<open>double\<close>.\<close>

definition double_number :: "rat \<Rightarrow> bool" where
  "double_number x \<longleftrightarrow> (\<exists>k b. \<bar>x\<bar> = of_int k / 2 ^ b \<and> 0 \<le> k \<and> k < 2 ^ 53 \<and> b \<le> 1074)"

lemma double_value_number:
  assumes "double_value lo hi = Some x" and "\<bar>x\<bar> < 2147483648"
  shows "double_number x"
proof -
  define e where "e = unat hi div 2 ^ 20 mod 2048"
  define f where "f = (if e = 0 then 0 else 2 ^ 52) + unat hi mod 2 ^ 20 * 2 ^ 32 + unat lo"
  define E where "E = max 1 e"
  define q :: rat where "q = of_nat (f * 2 ^ E) / 2 ^ 1075"
  have "(if e = 2047 then None else Some ((if hi < 0x80000000 then 1 else - 1) * q)) = Some x"
    using assms(1) unfolding double_value_def Let_def q_def f_def e_def E_def .
  then have "x = q \<or> x = - q"
    by (auto split: if_splits)
  moreover have "0 \<le> q"
    unfolding q_def by (intro divide_nonneg_nonneg of_nat_0_le_iff zero_le_power) simp
  ultimately have x: "\<bar>x\<bar> = of_nat (f * 2 ^ E) / 2 ^ 1075"
    unfolding q_def [symmetric] by auto
  have "unat hi mod 1048576 \<le> 1048575"
    by (simp add: less_Suc_eq_le [symmetric])
  then have "unat hi mod 1048576 * 4294967296 + unat lo < 4503599627370496"
    using unat_lt_u32 [of lo] by linarith
  then have f: "f < 2 ^ 53"
    unfolding f_def by simp
  show ?thesis
  proof (cases "E \<le> 1075")
    case True
    have "(2 :: rat) ^ 1075 = 2 ^ E * 2 ^ (1075 - E)"
      using True by (simp only: power_add [symmetric]) simp
    then have "\<bar>x\<bar> = of_int (int f) / 2 ^ (1075 - E)"
      unfolding x by (simp del: power_numeral)
    then show ?thesis
      using f unfolding double_number_def by (intro exI [of _ "int f"] exI [of _ "1075 - E"]) (auto simp: E_def)
  next
    case False
    define k where "k = int (f * 2 ^ (E - 1075))"
    have "(2 :: rat) ^ E = 2 ^ 1075 * 2 ^ (E - 1075)"
      using False by (simp only: power_add [symmetric]) simp
    then have k: "\<bar>x\<bar> = of_int k"
      unfolding x k_def by (simp del: power_numeral)
    then have "k < 2147483648"
      using assms(2) by simp
    then show ?thesis
      using k unfolding double_number_def by (intro exI [of _ k] exI [of _ 0]) (simp add: k_def)
  qed
qed

lemma double_fraction_exact:
  assumes "double_rounding rnd" and "double_number x" and "0 \<le> x"
  shows "rnd (x - of_int \<lfloor>x\<rfloor>) = x - of_int \<lfloor>x\<rfloor>"
proof -
  obtain k b where k: "x = of_int k / 2 ^ b" "0 \<le> k" "k < 2 ^ 53" "b \<le> 1074"
    using assms(2,3) by (auto simp: double_number_def)
  define j where "j = k - \<lfloor>x\<rfloor> * 2 ^ b"
  have eq: "x - of_int \<lfloor>x\<rfloor> = of_int j / 2 ^ b"
    by (simp add: j_def k(1) field_simps)
  moreover have "0 \<le> \<lfloor>x\<rfloor> * 2 ^ b"
    using assms(3) by simp
  then have "j \<le> k"
    by (simp add: j_def)
  moreover have "0 \<le> (of_int j :: rat) / 2 ^ b"
    unfolding eq [symmetric] by simp
  then have "0 \<le> j"
    by (simp add: pos_le_divide_eq)
  ultimately show ?thesis
    using double_roundingD(2) [OF assms(1), of j b] k(3,4) by simp
qed

lemma ftoa_unsigned_prints:
  assumes "double_rounding rnd" and "double_number x" and "0 \<le> x" and "x < 2147483648"
  shows "\<exists>m'. ftoa_unsigned rnd m p x 6 = (m', p + of_nat (length (unsigned_text rnd x))) \<and> puts_at m p (unsigned_text rnd x) m' \<and>
    m' (p + of_nat (length (unsigned_text rnd x))) = 0 \<and> length (unsigned_text rnd x) \<le> 18"
proof -
  let ?i = "of_int \<lfloor>x\<rfloor> :: u32" and ?ds = "dec (nat \<lfloor>x\<rfloor>)" and ?f = "x - of_int \<lfloor>x\<rfloor>" and ?n = "length (unsigned_text rnd x)"
  have a: "0 \<le> \<lfloor>x\<rfloor>" "\<lfloor>x\<rfloor> < 2147483648"
    using assms(3,4) by (simp_all add: floor_less_iff)
  then have sint: "sint ?i = \<lfloor>x\<rfloor>"
    by (simp add: signed_of_int signed_take_bit_int_eq_self)
  have eq: "?i = of_nat (nat \<lfloor>x\<rfloor>)"
    using a(1) by (metis int_nat_eq of_int_of_nat_eq)
  have "unat ?i = nat \<lfloor>x\<rfloor>"
    unfolding eq using a by (intro unat_of_nat_u32_small) linarith
  then have unat_int: "rat_of_nat (unat ?i) = of_int \<lfloor>x\<rfloor>"
    using a(1) by (simp only: of_nat_nat)
  have "\<lfloor>x\<rfloor> \<noteq> - 2147483648"
    using a(1) by linarith
  then have i: "?i \<noteq> 0x80000000" "int_text (sint ?i) = ?ds"
    using a(1) int_min [of ?i] unfolding sint by (simp_all add: int_text_def)
  obtain m1 where it: "itoa m ?i p = (m1, p + of_nat (length ?ds))" "puts_at m p ?ds m1"
    using itoa_prints [OF i(1), of m p] unfolding i(2) by (metis prints_puts prod.collapse)
  let ?p1 = "p + of_nat (length ?ds)"
  have len: "length ?ds \<le> 11"
    using int_text_length [OF i(1)] i(2) by simp
  have f: "0 \<le> ?f" "?f \<le> 1"
    by (simp_all add: linorder_not_less) linarith
  note rnd = double_fraction_exact [OF assms(1-3)]
  obtain m2 where m2: "ftoa_digits rnd (m1(?p1 := ch CHR ''.'')) (?p1 + 1) ?f 6 = (m2, ?p1 + 1 + of_nat 6)"
    "puts_at (m1(?p1 := ch CHR ''.'')) (?p1 + 1) (round_digits rnd ?f 6) m2"
    using ftoa_digits_round [OF assms(1) f, of 6 "m1(?p1 := ch CHR ''.'')" "?p1 + 1"] by auto
  have n: "?p1 + 1 + of_nat 6 = p + of_nat ?n" "?n \<le> 18"
    using len by (simp_all add: unsigned_text_def)
  have "puts_at m1 ?p1 ([ch CHR ''.''] @ round_digits rnd ?f 6) m2"
    by (rule puts_at_append [OF puts_at_char]) (use m2(2) in simp_all)
  then have "puts_at m p (unsigned_text rnd x) m2"
    unfolding unsigned_text_def using len by (intro puts_at_append [OF it(2)]) simp_all
  then have "puts_at m p (unsigned_text rnd x) (m2(p + of_nat ?n := 0))"
    by (rule puts_at_end) (use n(2) in simp)
  moreover have "ftoa_unsigned rnd m p x 6 = (m2(p + of_nat ?n := 0), p + of_nat ?n)"
    using assms(3) it(1) m2(1) rnd unat_int unfolding n(1) ftoa_unsigned_def truncate_double_def by simp
  ultimately show ?thesis
    using n(2) by simp
qed

lemma ftoa_prints:
  assumes rnd: "double_rounding rnd" and x: "double_value lo hi = Some x" "\<bar>x\<bar> < 2147483648"
  shows "\<exists>m'. ftoa rnd undef m lo hi p = (m', p + of_nat (length (float_text rnd x))) \<and> puts_at m p (float_text rnd x) m' \<and>
    m' (p + of_nat (length (float_text rnd x))) = 0 \<and> length (float_text rnd x) \<le> 19"
proof -
  have run: "ftoa rnd undef m lo hi p = ftoa_finite rnd m x p 6"
    using x by (simp add: ftoa_def)
  have num: "double_number \<bar>x\<bar>"
    using double_value_number [OF x] by (simp add: double_number_def)
  show ?thesis
  proof (cases "x < 0")
    case False
    then show ?thesis
      using ftoa_unsigned_prints [OF rnd num, of m p] x(2) by (auto simp: run ftoa_finite_def float_text_def)
  next
    case True
    let ?t = "unsigned_text rnd (- x)"
    obtain m' where m': "ftoa_unsigned rnd (m(p := ch CHR ''-'')) (p + 1) (- x) 6 = (m', p + 1 + of_nat (length ?t))"
      "puts_at (m(p := ch CHR ''-'')) (p + 1) ?t m'" "m' (p + 1 + of_nat (length ?t)) = 0" "length ?t \<le> 18"
      using ftoa_unsigned_prints [OF rnd num, of "m(p := ch CHR ''-'')" "p + 1"] True x(2) by auto
    have "puts_at m p ([ch CHR ''-''] @ ?t) m'"
      by (rule puts_at_append [OF puts_at_char]) (use m' in simp_all)
    then show ?thesis
      using True m' by (simp add: run ftoa_finite_def float_text_def add.assoc)
  qed
qed

lemma float_text_nonzero: "double_rounding rnd \<Longrightarrow> 0 \<notin> set (float_text rnd x)"
proof -
  assume "double_rounding rnd"
  then have "set (round_digits rnd (\<bar>x\<bar> - of_int \<lfloor>\<bar>x\<bar>\<rfloor>) 6) \<subseteq> {48..57}"
    using round_digits_accurate [of rnd "\<bar>x\<bar> - of_int \<lfloor>\<bar>x\<bar>\<rfloor>" 6] by simp linarith
  then show ?thesis
    using dec_digits [of 0 "nat \<lfloor>\<bar>x\<bar>\<rfloor>"] by (auto simp: float_text_def unsigned_text_def isdigit_def)
qed

lemma ftoa_float_ok: "double_rounding rnd \<Longrightarrow> float_ok (ftoa rnd undef) (double_text rnd)"
  unfolding float_ok_def
proof (intro allI impI)
  fix m lo hi p cs
  assume rnd: "double_rounding rnd" and cs: "double_text rnd lo hi = Some cs"
  then obtain x where x: "double_value lo hi = Some x" "\<bar>x\<bar> < 2147483648" "cs = float_text rnd x"
    by (auto simp: double_text_def split: option.splits if_splits)
  show "length cs < 32 \<and> prints m p cs (fst (ftoa rnd undef m lo hi p)) \<and> snd (ftoa rnd undef m lo hi p) = p + of_nat (length cs)"
    using ftoa_prints [OF rnd x(1,2), of undef m p] float_text_nonzero [OF rnd, of x] unfolding x(3) [symmetric]
    by (auto simp: prints_def puts_at_def cstr_iff)
qed


section \<open>Properties\<close>

text \<open>
  C26: every \<^verbatim>\<open>double\<close> below \<open>2 ^ 31\<close> in magnitude is stored as its sign, the digits before the point, the
  point and six decimal digits, ended by a zero, and no byte behind it changes.  The digits are those of a number at most a
  millionth below the stored one, up to the rounding of the multiplications by ten (\<open>1 / 2 ^ 50\<close> in all); for a number with at
  most 49 bits behind the point they are exactly its first six decimals, cut off and not rounded.
\<close>
theorem ftoa_truncates:
  assumes "double_rounding rnd" and "double_value lo hi = Some x" and "\<bar>x\<bar> < 2147483648"
  shows "(\<exists>m'. ftoa rnd undef m lo hi p = (m', p + of_nat (length (float_text rnd x))) \<and>
      bytes_at m' p (length (float_text rnd x) + 1) = float_text rnd x @ [0] \<and>
      (\<forall>y. in_range y p (length (float_text rnd x) + 1) \<or> m' y = m y)) \<and>
    (\<exists>ds. float_text rnd x = (if x < 0 then [ch CHR ''-''] else []) @ dec (nat \<lfloor>\<bar>x\<bar>\<rfloor>) @ [ch CHR ''.''] @ ds \<and>
      length ds = 6 \<and> set ds \<subseteq> {48..57} \<and>
      \<bar>x\<bar> - 1 / 10 ^ 6 - 1 / 2 ^ 50 \<le> of_int \<lfloor>\<bar>x\<bar>\<rfloor> + digits_value ds \<and>
      of_int \<lfloor>\<bar>x\<bar>\<rfloor> + digits_value ds \<le> \<bar>x\<bar> + 1 / 2 ^ 50 \<and>
      (short_fraction x \<longrightarrow> ds = decimals \<bar>x\<bar> 6))"
proof
  obtain m' where m': "ftoa rnd undef m lo hi p = (m', p + of_nat (length (float_text rnd x)))" "puts_at m p (float_text rnd x) m'"
    "m' (p + of_nat (length (float_text rnd x))) = 0"
    using ftoa_prints [OF assms] by blast
  have "bytes_at m' p (length (float_text rnd x) + 1) = float_text rnd x @ [0]"
    using m'(2,3) unfolding bytes_at_add by (simp add: puts_at_def bytes_at_def)
  then show "\<exists>m'. ftoa rnd undef m lo hi p = (m', p + of_nat (length (float_text rnd x))) \<and>
      bytes_at m' p (length (float_text rnd x) + 1) = float_text rnd x @ [0] \<and>
      (\<forall>y. in_range y p (length (float_text rnd x) + 1) \<or> m' y = m y)"
    using m' by (auto simp: puts_at_def)
  let ?f = "\<bar>x\<bar> - of_int \<lfloor>\<bar>x\<bar>\<rfloor>"
  have f: "0 \<le> ?f" "?f < 1"
    by simp_all linarith
  have "- 1 / 2 ^ 50 \<le> ?f - digits_value (round_digits rnd ?f 6)" "?f - digits_value (round_digits rnd ?f 6) \<le> 1 / 10 ^ 6 + 1 / 2 ^ 50"
    and set: "set (round_digits rnd ?f 6) \<subseteq> {48..57}"
    using round_digits_accurate [OF assms(1) f(1) less_imp_le [OF f(2)], of 6] by blast+
  then have acc: "\<bar>x\<bar> - 1 / 10 ^ 6 - 1 / 2 ^ 50 \<le> of_int \<lfloor>\<bar>x\<bar>\<rfloor> + digits_value (round_digits rnd ?f 6)"
    "of_int \<lfloor>\<bar>x\<bar>\<rfloor> + digits_value (round_digits rnd ?f 6) \<le> \<bar>x\<bar> + 1 / 2 ^ 50"
    by linarith+
  have "round_digits rnd ?f 6 = decimals \<bar>x\<bar> 6" if "short_fraction x"
  proof -
    have "short_fraction \<bar>x\<bar>"
      using that short_times [OF that, of "- 1"] by (simp add: abs_if)
    then show ?thesis
      using round_digits_exact [OF assms(1) short_minus f] by (simp add: decimals_shift)
  qed
  then show "\<exists>ds. float_text rnd x = (if x < 0 then [ch CHR ''-''] else []) @ dec (nat \<lfloor>\<bar>x\<bar>\<rfloor>) @ [ch CHR ''.''] @ ds \<and>
      length ds = 6 \<and> set ds \<subseteq> {48..57} \<and>
      \<bar>x\<bar> - 1 / 10 ^ 6 - 1 / 2 ^ 50 \<le> of_int \<lfloor>\<bar>x\<bar>\<rfloor> + digits_value ds \<and>
      of_int \<lfloor>\<bar>x\<bar>\<rfloor> + digits_value ds \<le> \<bar>x\<bar> + 1 / 2 ^ 50 \<and>
      (short_fraction x \<longrightarrow> ds = decimals \<bar>x\<bar> 6)"
    using acc set round_digits_length [of rnd ?f 6] unfolding float_text_def unsigned_text_def by blast
qed

lemma sample_doubles:
  "double_value 0 0xC00A0000 = Some (- 13 / 4)" "double_value 0x9999999A 0x3FB99999 = Some (3602879701896397 / 36028797018963968)"
  by (simp_all add: double_value_def)

lemma sample_float_texts:
  "float_text id (- 13 / 4) = map ch ''-3.250000''" "float_text id (3602879701896397 / 36028797018963968) = map ch ''0.100000''"
  by code_simp+

text \<open>The \<^verbatim>\<open>double\<close> next to a tenth.\<close>

theorem ftoa_truncates_witness:
  "\<exists>m'. ftoa id (\<lambda>m lo hi p. (m, p)) (\<lambda>_. 0) 0x9999999A 0x3FB99999 0x1000 = (m', 0x1008) \<and>
     bytes_at m' 0x1000 9 = map ch ''0.100000'' @ [0]"
proof -
  have len: "length (map ch ''0.100000'') = 8"
    by simp
  have small: "\<bar>3602879701896397 / 36028797018963968 :: rat\<bar> < 2147483648"
    by simp
  obtain m' where "ftoa id (\<lambda>m lo hi p. (m, p)) (\<lambda>_. 0) 0x9999999A 0x3FB99999 0x1000 = (m', 0x1000 + of_nat 8)"
    "bytes_at m' 0x1000 (8 + 1) = map ch ''0.100000'' @ [0]"
    using ftoa_truncates [OF double_rounding_id sample_doubles(2) small, of "\<lambda>m lo hi p. (m, p)" "\<lambda>_. 0" "0x1000"]
    unfolding sample_float_texts(2) len by blast
  then show ?thesis
    by (intro exI [of _ m']) (simp del: list.map)
qed

text \<open>
  C25: \<^verbatim>\<open>sprintf\<close> on a format with the conversions \<^verbatim>\<open>%d\<close>, \<^verbatim>\<open>%x\<close>, \<^verbatim>\<open>%p\<close>, \<^verbatim>\<open>%f\<close>, \<^verbatim>\<open>%s\<close> and \<^verbatim>\<open>%c\<close>, each \<^verbatim>\<open>double\<close> below
  \<open>2 ^ 31\<close> in magnitude, and a buffer that overlaps neither the format nor its arguments: it terminates, stores the formatted
  text with its terminating zero, returns its length, and changes no byte behind it.  The text of the smallest int is \<open>-(\<close>.
\<close>
theorem sprintf_formats:
  assumes "double_rounding rnd" and "format_text (double_text rnd) texts fs ws = Some out" and "length out < 4294967295"
    and "format_input (\<lambda>x. in_range x str (length out + 1)) texts m fmt fs args ws"
  shows "\<exists>m'. sprintf (ftoa rnd undef) m str fmt args = Some (of_nat (length out), m') \<and> bytes_at m' str (length out + 1) = out @ [0] \<and>
    (\<forall>x. in_range x str (length out + 1) \<or> m' x = m x)"
  using ftoa_float_ok [OF assms(1)] assms(2-) by (rule sprintf_stores)

text \<open>A call that prints a \<^verbatim>\<open>double\<close>, a hexadecimal number, a string and the smallest int.\<close>

definition sample_floats :: "u8 list" where
  "sample_floats = map ch ''%f %x %s %d''"

definition sample_float_args :: "u32 list" where
  "sample_float_args = [0, 0xC00A0000, 0x5AF, 0x300, 0x80000000]"

definition sample_float_call :: mem where
  "sample_float_call = push_args (store_bytes (store_bytes (\<lambda>_. 0) 0x100 sample_floats) 0x300 [97, 98]) 0x200 sample_float_args"

lemma sample_float_text:
  "format_text (double_text id) sample_texts sample_floats sample_float_args = Some (map ch ''-3.250000 0x5af ab -('')"
proof -
  have "double_text id 0 0xC00A0000 = Some (map ch ''-3.250000'')"
    using sample_float_texts(1) by (simp add: double_text_def sample_doubles(1))
  moreover have "hex_text 0x5AF = map ch ''0x5af''" "printed_int 0x80000000 = map ch ''-(''"
    by code_simp+
  ultimately show ?thesis
    by (simp add: sample_floats_def sample_float_args_def sample_texts_def conv_text_def)
qed

lemma sample_float_input:
  assumes "\<And>x. x < 0x400 \<Longrightarrow> \<not> A x"
  shows "format_input A sample_texts sample_float_call 0x100 sample_floats 0x200 sample_float_args"
proof -
  have "\<not> A (p + of_nat j)" if "p \<le> 0x300" "j < 256" for p j
    using that by (intro assms) (simp add: word_less_nat_alt word_le_nat_alt unat_add_u32 unat_of_nat)
  moreover have "args_at sample_float_call 0x200 sample_float_args"
    unfolding sample_float_call_def by (rule push_args_args_at) (simp add: sample_float_args_def)
  moreover have "cstr sample_float_call 0x100 sample_floats" "cstr sample_float_call 0x300 [97, 98]"
    by code_simp+
  moreover have "length sample_floats = 11" "length sample_float_args = 5"
    by (simp_all add: sample_floats_def sample_float_args_def)
  ultimately show ?thesis
    by (auto simp: format_input_def sample_texts_def str_fits_def)
qed

theorem sprintf_formats_witness:
  "\<exists>m'. sprintf (ftoa id (\<lambda>m lo hi p. (m, p))) sample_float_call 0x1000 0x100 0x200 = Some (21, m') \<and>
     bytes_at m' 0x1000 22 = map ch ''-3.250000 0x5af ab -('' @ [0]"
proof -
  let ?out = "map ch ''-3.250000 0x5af ab -(''"
  have len: "length ?out = 21" "(21 :: nat) + 1 = 22" "(of_nat 21 :: u32) = 21"
    by simp_all
  have "\<not> in_range x 0x1000 (length ?out + 1)" if "x < 0x400" for x
    using that by (auto simp: in_range_ex word_less_nat_alt unat_add_u32 unat_of_nat)
  from sprintf_formats [OF double_rounding_id sample_float_text _ sample_float_input [OF this], of "\<lambda>m lo hi p. (m, p)"] show ?thesis
    unfolding len by fastforce
qed

end
