(* ===== verification/Stream_Correct.thy ===== *)
theory Stream_Correct
  imports Tty_Correct Float_Text Device_Correct
begin

text \<open>
  Streams of a terminal: what is put into the stream appears on the screen, and formatted output shows the text that
  \<^verbatim>\<open>sprintf\<close> would store.
\<close>

section \<open>An output stream\<close>

definition stream_on :: "u32 \<Rightarrow> u32 \<Rightarrow> 'd tty_state \<Rightarrow> bool" where
  "stream_on p tty s \<longleftrightarrow> p \<noteq> 0 \<and> (\<exists>st. ts_streams s p = Some st \<and> st_putchar st = Some Tty_stream_putchar \<and>
     st_puts st = Some Tty_stream_puts \<and> st_data st = tty)"

lemma stream_on_shown: "stream_on p tty s \<Longrightarrow> shown f tty B cs t s t' s' \<Longrightarrow> stream_on p tty s'"
  by (simp add: stream_on_def shown_def tty_kept_def)

interpretation outp: text_sink "stream_putchar io f p" f tty B "stream_on p tty" for io f p tty B
proof
  fix t and c :: u8 and s :: "'a tty_state"
  assume ok: "tty_ok f tty t s" and on: "stream_on p tty s" and "c \<noteq> 8"
  then obtain t' s' where "tty_putchar io f tty c s = kret s'" "shown f tty B [c] t s t' s'"
    using terminal.put_shows [of f tty t s c io B] by auto
  moreover have "stream_putchar io f p c s = tty_putchar io f tty c s"
    using on by (auto simp: stream_on_def stream_putchar_def tty_stream_putchar_def)
  ultimately show "\<exists>t' s'. stream_putchar io f p c s = kret s' \<and> shown f tty B [c] t s t' s' \<and> stream_on p tty s'"
    using stream_on_shown [OF on] by auto
qed

lemma stream_puts_ok:
  assumes "tty_ok f tty t s" and "stream_on p tty s" and "cstr (ts_mem s) str cs" and "str_fits str cs" and "8 \<notin> set cs"
    and "\<And>j. j < length cs \<Longrightarrow> quiet f B t s (str + of_nat j)"
  shows "\<exists>t' s'. stream_puts io f p str s = kret s' \<and> shown f tty B cs t s t' s' \<and> stream_on p tty s'"
proof -
  obtain t' s' where "tty_puts io f tty str s = kret s'" "shown f tty B cs t s t' s'"
    using tty_puts_ok [OF assms(1,3-6)] by blast
  moreover have "stream_puts io f p str s = tty_puts io f tty str s"
    using assms(2) by (auto simp: stream_on_def stream_puts_def tty_stream_puts_def)
  ultimately show ?thesis
    using stream_on_shown [OF assms(2)] by auto
qed

lemma stream_put_string_ok:
  assumes "tty_ok f tty t s" and "stream_on p tty s" and "cstr (ts_mem s) src cs" and "8 \<notin> set cs"
    and "\<And>j. j \<le> length cs \<Longrightarrow> quiet f B t s (src + of_nat j)"
  shows "\<exists>t' s'. stream_put_string io f p src cnt s = kret (cnt + of_nat (length cs), s') \<and> shown f tty B cs t s t' s' \<and> stream_on p tty s'"
  using assms
proof (induction cs arbitrary: t s src cnt)
  case Nil
  then show ?case
    by (subst stream_put_string.simps) (auto intro: shown_nothing)
next
  case (Cons c cs)
  then have c: "ts_mem s src = c" "c \<noteq> 0" "cstr (ts_mem s) (src + 1) cs" "c \<noteq> 8"
    by auto
  from outp.put_shows [OF Cons.prems(1,2) c(4)] obtain t1 s1 where
    s1: "stream_putchar io f p c s = kret s1" "shown f tty B [c] t s t1 s1" "stream_on p tty s1"
    by blast
  note q = shown_quiet [OF s1(2)]
  have quiet: "quiet f B t s (src + 1 + of_nat j)" if "j \<le> length cs" for j
    using Cons.prems(5) [of "Suc j"] that by (simp add: add.assoc)
  have "cstr (ts_mem s1) (src + 1) cs"
    by (rule cstr_agree [OF c(3)]) (use q(2) quiet in blast)
  moreover have "tty_ok f tty t1 s1"
    using s1(2) by (simp add: shown_def)
  ultimately obtain t2 s2 where s2: "stream_put_string io f p (src + 1) (cnt + 1) s1 = kret (cnt + 1 + of_nat (length cs), s2)"
    "shown f tty B cs t1 s1 t2 s2" "stream_on p tty s2"
    using Cons.IH [of t1 s1 "src + 1" "cnt + 1"] s1(3) Cons.prems(4) quiet unfolding q(1) by auto
  have "stream_put_string io f p src cnt s = kret (cnt + of_nat (length (c # cs)), s2)"
    using c s1(1) s2(1) by (subst stream_put_string.simps) (simp add: add.assoc)
  then show ?case
    using shown_append [OF s1(2) s2(2)] s2(3) by auto
qed


section \<open>Formatted output\<close>

text \<open>The 32 bytes behind the pointers of the stream take the digits of a number.\<close>

abbreviation stream_area :: "u32 \<Rightarrow> u32 \<Rightarrow> bool" where
  "stream_area p x \<equiv> in_range x (stream_buf p) 32"

definition stream_apart :: "tty_frame \<Rightarrow> tty \<Rightarrow> 'd tty_state \<Rightarrow> u32 \<Rightarrow> bool" where
  "stream_apart f t s p \<longleftrightarrow> 0 < unat (stream_buf p) \<and> unat (stream_buf p) + 32 \<le> 4294967296 \<and>
     (\<forall>x. stream_area p x \<longrightarrow> \<not> tty_area f t (vga_buffer (ts_vga s)) x)"

lemma set_mem_ok:
  assumes "tty_ok f tty t s" and "\<And>x. \<not> B x \<Longrightarrow> m x = ts_mem s x" and "\<And>x. B x \<Longrightarrow> \<not> tty_area f t (vga_buffer (ts_vga s)) x"
  shows "shown f tty B [] t s t (ts_set_mem m s)"
proof -
  have "console (ts_screen (ts_set_mem m s)) = console (ts_screen s)"
    unfolding ts_screen_def [of "ts_set_mem m s"]
    by (rule console_cong) (use assms(2,3) in \<open>auto simp: tty_area_def\<close>)
  then show ?thesis
    using assms(1,2) by (simp add: shown_def tty_kept_def tty_ok_def same_mode_def console_puts_def but_bytes_set_mem)
qed

lemma stream_put_text_ok:
  assumes ok: "tty_ok f tty t s" and on: "stream_on p tty s" and ap: "stream_apart f t s p"
    and pr: "prints (ts_mem s) (stream_buf p) cs m" and len: "length cs < 32" and cs: "8 \<notin> set cs"
  shows "\<exists>t' s'. stream_put_text io f p (ts_set_mem m s) = kret (of_nat (length cs), s') \<and>
    shown f tty (stream_area p) cs t s t' s' \<and> stream_on p tty s'"
proof -
  let ?b = "stream_buf p" and ?s = "ts_set_mem m s" and ?n = "length cs"
  note apart = ap [unfolded stream_apart_def]
  have frame: "m x = ts_mem s x" if "\<not> stream_area p x" for x
  proof -
    have "\<not> in_range x ?b (?n + 1)"
      using that len unfolding in_range_def by linarith
    then show ?thesis
      using pr unfolding prints_def by blast
  qed
  have sh: "shown f tty (stream_area p) [] t s t ?s"
    using apart by (intro set_mem_ok [OF ok frame]) auto
  then have ok': "tty_ok f tty t ?s" and on': "stream_on p tty ?s"
    using on by (auto simp: shown_def stream_on_def)
  have str: "cstr m ?b cs" "str_fits ?b cs"
    using pr apart len by (auto simp: prints_def str_fits_def)
  have "quiet f (\<lambda>_. False) t ?s (?b + of_nat j)" if "j < ?n" for j
    using that apart len by (simp add: quiet_def)
  then have "\<exists>t' s'. stream_put_buf io f p (of_nat ?n) (of_nat 0) ?s = kret s' \<and> shown f tty (\<lambda>_. False) (drop 0 cs) t ?s t' s' \<and> stream_on p tty s'"
    using str(1) cs len by (intro outp.loop_shows [OF stream_put_buf.simps ok' on', where k = "?n"]) (simp_all add: cstr_iff)
  then obtain t' s' where "stream_put_buf io f p (of_nat ?n) 0 ?s = kret s'" and sh': "shown f tty (\<lambda>_. False) cs t ?s t' s'" "stream_on p tty s'"
    by auto
  then have "stream_put_text io f p ?s = kret (of_nat ?n, s')"
    using strlen_eq [OF str] by (simp add: stream_put_text_def)
  moreover have "shown f tty (stream_area p) cs t ?s t' s'"
    using sh'(1) by (auto simp: shown_def tty_kept_def)
  ultimately show ?thesis
    using sh'(2) shown_append [OF sh] by auto
qed


lemma stream_conv_ok:
  assumes ok: "tty_ok f tty t s" and on: "stream_on p tty s" and ap: "stream_apart f t s p"
    and tx: "conv_text texts d w = Some cs" and w: "load32 (ts_mem s) args = w" and cs: "8 \<notin> set cs"
    and src: "\<And>cs. texts w = Some cs \<Longrightarrow> cstr (ts_mem s) w cs \<and> (\<forall>j \<le> length cs. quiet f (stream_area p) t s (w + of_nat j))"
  shows "\<exists>t' s'. stream_conv io conv f p d args cnt s = kret (cnt + of_nat (length cs), args + 4, s') \<and>
    shown f tty (stream_area p) cs t s t' s' \<and> stream_on p tty s'"
proof -
  consider "d = ch CHR ''d''" "cs = printed_int w" | "d = ch CHR ''x'' \<or> d = ch CHR ''p''" "cs = hex_text w"
    | "d = ch CHR ''s''" "texts w = Some cs" | "d = ch CHR ''c''" "cs = [ucast w]"
    using tx by (auto simp: conv_text_def split: if_splits)
  then show ?thesis
  proof cases
    case 1
    have pr: "prints (ts_mem s) (stream_buf p) cs (fst (itoa (ts_mem s) w (stream_buf p)))"
      using printed_int_prints 1(2) by simp
    have "length cs < 32"
      using printed_int_length [of w] 1(2) by simp
    from stream_put_text_ok [OF ok on ap pr this cs, where io = io] show ?thesis
      using 1(1) w by (auto simp: stream_conv_def stream_putint_def)
  next
    case 2
    have pr: "prints (ts_mem s) (stream_buf p) cs (fst (htoa (ts_mem s) w (stream_buf p)))"
      using htoa_prints 2(2) by simp
    have "length cs < 32"
      using hex_text_length [of w] 2(2) by simp
    from stream_put_text_ok [OF ok on ap pr this cs, where io = io] show ?thesis
      using 2(1) w by (auto simp: stream_conv_def stream_puthex_def)
  next
    case 3
    from stream_put_string_ok [OF ok on, where io = io and src = w and cs = cs and cnt = cnt] src [OF 3(2)] cs show ?thesis
      using 3(1) w by (fastforce simp: stream_conv_def)
  next
    case 4
    from outp.put_shows [OF ok on, where io = io and c = "ucast w"] cs show ?thesis
      using 4 w by (fastforce simp: stream_conv_def)
  qed
qed


lemma stream_apart_shown: "shown f tty B cs t s t' s' \<Longrightarrow> stream_apart f t' s' p \<longleftrightarrow> stream_apart f t s p"
  using tty_area_kept [of f tty B t s t' s'] by (simp add: shown_def stream_apart_def)

definition noisy :: "tty_frame \<Rightarrow> u32 \<Rightarrow> tty \<Rightarrow> 'd tty_state \<Rightarrow> u32 \<Rightarrow> bool" where
  "noisy f p t s x \<longleftrightarrow> \<not> quiet f (stream_area p) t s x"

lemma stream_vprintf_loop_ok:
  assumes fl: "float_ok conv floats" and "format_text floats texts fs ws = Some out" and "format_input (noisy f p t s) texts (ts_mem s) fmt fs args ws"
    and "tty_ok f tty t s" and "stream_on p tty s" and "stream_apart f t s p" and "8 \<notin> set out"
  shows "\<exists>t' s'. stream_vprintf_loop io conv f p fmt args cnt s = kret (cnt + of_nat (length out), s') \<and>
    shown f tty (stream_area p) out t s t' s' \<and> stream_on p tty s'"
  using assms(2-)
proof (induction "length fs" arbitrary: fs ws out t s fmt args cnt rule: less_induct)
  case less
  note inp = less.prems(2) and ok = less.prems(3) and on = less.prems(4) and ap = less.prems(5) and nb = less.prems(6)
  have step: ?case
    if sh: "shown f tty (stream_area p) cs t s t1 s1" "stream_on p tty s1" and out: "out = cs @ rest"
      and fs: "length gs < length fs" "format_text floats texts gs vs = Some rest"
      and inp': "format_input (noisy f p t s) texts (ts_mem s) fmt' gs args' vs"
      and run: "stream_vprintf_loop io conv f p fmt args cnt s = stream_vprintf_loop io conv f p fmt' args' (cnt + of_nat (length cs)) s1"
    for cs t1 s1 rest gs vs fmt' args'
  proof -
    have "noisy f p t1 s1 = noisy f p t s"
      using shown_quiet(1) [OF sh(1)] by (simp add: noisy_def fun_eq_iff)
    moreover have "format_input (noisy f p t s) texts (ts_mem s1) fmt' gs args' vs"
      using shown_quiet(2) [OF sh(1)] by (intro format_input_agree [OF inp']) (simp add: noisy_def)
    ultimately obtain t2 s2 where
      s2: "stream_vprintf_loop io conv f p fmt' args' (cnt + of_nat (length cs)) s1 = kret (cnt + of_nat (length cs) + of_nat (length rest), s2)"
      "shown f tty (stream_area p) rest t1 s1 t2 s2" "stream_on p tty s2"
      using less.hyps [OF fs, of t1 s1 fmt' args' "cnt + of_nat (length cs)"] sh ap nb out stream_apart_shown [OF sh(1), of p]
      by (auto simp: shown_def)
    then show ?thesis
      using shown_append [OF sh(1) s2(2)] run out by (auto simp: add.assoc)
  qed
  from less.prems(1) show ?case
  proof (cases rule: format_text_cases)
    case finish
    then show ?thesis
      using inp shown_nothing [OF ok] on by (subst stream_vprintf_loop.simps) (auto simp: format_input_def)
  next
    case (plain c gs rest)
    note ch = format_input_char [OF inp [unfolded plain(1)]]
    obtain t1 s1 where s1: "stream_putchar io f p c s = kret s1" "shown f tty (stream_area p) [c] t s t1 s1" "stream_on p tty s1"
      using outp.put_shows [OF ok on, where io = io and c = c and B = "stream_area p"] nb plain(3) by auto
    have "stream_vprintf_loop io conv f p fmt args cnt s = stream_vprintf_loop io conv f p (fmt + 1) args (cnt + of_nat (length [c])) s1"
      using ch(1,2) plain(2) s1(1) by (subst stream_vprintf_loop.simps) simp
    from step [OF s1(2,3) _ _ _ ch(3) this] plain show ?thesis
      by simp
  next
    case (float gs lo hi vs cs rest)
    note ch = format_input_char [OF inp [unfolded float(1)]]
    note ch' = format_input_char [OF ch(3)]
    note arg = format_input_arg [OF ch'(3) [unfolded float(2)]]
    note arg' = format_input_arg [OF arg(2)]
    have pr: "prints (ts_mem s) (stream_buf p) cs (fst (conv (ts_mem s) lo hi (stream_buf p)))" and len: "length cs < 32"
      using float_okD [OF fl float(3), of "ts_mem s" "stream_buf p"] by auto
    have "8 \<notin> set cs"
      using nb float(4) by simp
    from stream_put_text_ok [OF ok on ap pr len this, where io = io] obtain t1 s1 where
      s1: "stream_putfloat io conv f p lo hi s = kret (of_nat (length cs), s1)" "shown f tty (stream_area p) cs t s t1 s1" "stream_on p tty s1"
      by (auto simp: stream_putfloat_def)
    have "stream_conv io conv f p (ch CHR ''f'') args cnt s = kret (cnt + of_nat (length cs), args + 4 + 4, s1)"
      using arg(1) arg'(1) s1(1) by (simp add: stream_conv_def)
    then have "stream_vprintf_loop io conv f p fmt args cnt s =
        stream_vprintf_loop io conv f p (fmt + 1 + 1) (args + 4 + 4) (cnt + of_nat (length cs)) s1"
      using ch(1,2) ch'(1) by (subst stream_vprintf_loop.simps) (simp add: add.commute)
    from step [OF s1(2,3) float(4) _ float(5) arg'(2) this] float(1) show ?thesis
      by simp
  next
    case (conversion d gs w vs cs rest)
    note ch = format_input_char [OF inp [unfolded conversion(1)]]
    note ch' = format_input_char [OF ch(3)]
    note arg = format_input_arg [OF ch'(3) [unfolded conversion(2)]]
    have "\<exists>t1 s1. stream_conv io conv f p d args cnt s = kret (cnt + of_nat (length cs), args + 4, s1) \<and>
      shown f tty (stream_area p) cs t s t1 s1 \<and> stream_on p tty s1"
    proof (rule stream_conv_ok [OF ok on ap conversion(3) arg(1)])
      show "8 \<notin> set cs"
        using nb conversion(4) by simp
      show "cstr (ts_mem s) w cs \<and> (\<forall>j \<le> length cs. quiet f (stream_area p) t s (w + of_nat j))" if "texts w = Some cs" for cs
        using format_input_text [OF inp that] by (simp add: noisy_def)
    qed
    then obtain t1 s1 where s1: "stream_conv io conv f p d args cnt s = kret (cnt + of_nat (length cs), args + 4, s1)"
      "shown f tty (stream_area p) cs t s t1 s1" "stream_on p tty s1"
      by blast
    have "stream_vprintf_loop io conv f p fmt args cnt s =
        stream_vprintf_loop io conv f p (fmt + 1 + 1) (args + 4) (cnt + of_nat (length cs)) s1"
      using ch(1,2) ch'(1) s1(1) by (subst stream_vprintf_loop.simps) (simp add: add.commute)
    from step [OF s1(2,3) conversion(4) _ conversion(5) arg(2) this] conversion(1) show ?thesis
      by simp
  next
    case (escaped d gs rest)
    note ch = format_input_char [OF inp [unfolded escaped(1)]]
    note ch' = format_input_char [OF ch(3)]
    obtain t1 s1 where s1: "stream_putchar io f p d s = kret s1" "shown f tty (stream_area p) [d] t s t1 s1" "stream_on p tty s1"
      using outp.put_shows [OF ok on, where io = io and c = d and B = "stream_area p"] nb escaped(3) by auto
    have "stream_conv io conv f p d args cnt s = kret (cnt + 1, args, s1)"
      using escaped(2) s1(1) by (simp add: stream_conv_def)
    then have "stream_vprintf_loop io conv f p fmt args cnt s =
        stream_vprintf_loop io conv f p (fmt + 1 + 1) args (cnt + of_nat (length [d])) s1"
      using ch(1,2) ch'(1) by (subst stream_vprintf_loop.simps) (simp add: add.commute)
    from step [OF s1(2,3) _ _ escaped(4) ch'(3) this] escaped show ?thesis
      by simp
  qed
qed


lemma format_input_mono: "(\<And>x. A x \<Longrightarrow> A' x) \<Longrightarrow> format_input A' texts m fmt fs args ws \<Longrightarrow> format_input A texts m fmt fs args ws"
  unfolding format_input_def by blast


section \<open>Properties\<close>

text \<open>A terminal on the screen, a stream, and the call of the samples of formats.\<close>

definition sample_frame :: tty_frame where
  "sample_frame = \<lparr>tf_putchar = 0x9000, tf_flush = 0x9001, tf_getchar = 0x9002, tf_listener = 0x9003, tf_type = 0x9010\<rparr>"

definition sample_ttys :: tty where
  "sample_ttys = \<lparr>tty_input = \<lparr>cb_buffer = 0xA000, cb_head = 0, cb_tail = 0, cb_capacity = 1024, cb_element_size = 1, cb_size = 0\<rparr>,
     tty_output = \<lparr>cb_buffer = 0xB000, cb_head = 7, cb_tail = 7, cb_capacity = 1024, cb_element_size = 1, cb_size = 0\<rparr>,
     tty_video = 0x5000, tty_keyboard = 0\<rparr>"

definition sample_terminal :: "unit tty_state" where
  "sample_terminal = \<lparr>ts_registry = sample_registry\<lparr>reg_heap := used_kheap\<lparr>mem := sample_call\<rparr>, driver_ptr := [0x5000 \<mapsto> 0x6000],
       video_drivers := [0x6000 \<mapsto> \<lparr>tm_probe = Vga_tm_probe, tm_get_width = Vga_get_width, tm_get_height = Vga_get_height,
         tm_clean_screen = Vga_clean_screen, tm_write = Vga_write, tm_strwrite = Vga_strwrite,
         tm_enable_cursor = Vga_enable_cursor, tm_disable_cursor = Vga_disable_cursor\<rparr>]\<rparr>,
     ts_vga = sc_state sample_screen, ts_dev = (), ts_ttys = [0x7000 \<mapsto> sample_ttys],
     ts_streams = [0x8000 \<mapsto> \<lparr>st_putchar = Some Tty_stream_putchar, st_getchar = None, st_puts = Some Tty_stream_puts,
       st_gets = None, st_data = 0x7000\<rparr>],
     ts_stdterm = 0x7000, ts_listening = True\<rparr>"

lemma sample_area:
  "tty_area sample_frame sample_ttys 0xC00B8000 x \<longleftrightarrow> x = 0x9000 \<or> x = 0x9001 \<or> in_range x 0xB000 1024 \<or> in_range x 0xC00B8000 4000"
  by (simp add: tty_area_def sample_frame_def sample_ttys_def)

lemma not_below: "x < a \<Longrightarrow> unat a + n \<le> 4294967296 \<Longrightarrow> \<not> in_range x a n"
  by (auto simp: in_range_ex word_less_nat_alt unat_add_u32 unat_of_nat)

lemma not_above: "unat a + n \<le> unat x \<Longrightarrow> \<not> in_range x a n"
proof
  assume le: "unat a + n \<le> unat x" and "in_range x a n"
  then obtain i where i: "i < n" "x = a + of_nat i"
    by (auto simp: in_range_ex)
  then have "unat x \<le> unat a + i"
    by (simp add: unat_word_ariths unat_of_nat mod_simps)
  then show False
    using le i(1) by simp
qed

lemma sample_terminal_ok:
  "tty_ok sample_frame 0x7000 sample_ttys sample_terminal" "stream_on 0x8000 0x7000 sample_terminal"
  "vga_buffer (ts_vga sample_terminal) = 0xC00B8000" "ts_mem sample_terminal = sample_call"
  "vga_attri (ts_vga sample_terminal) = 7"
proof -
  show buf: "vga_buffer (ts_vga sample_terminal) = 0xC00B8000" and "ts_mem sample_terminal = sample_call"
    using sample_screen_ok by (simp_all add: sample_terminal_def)
  show "vga_attri (ts_vga sample_terminal) = 7"
    by (simp add: sample_terminal_def sample_screen_def vga_set_mode_def vga_get_attri_def)
  show "stream_on 0x8000 0x7000 sample_terminal"
    by (simp add: sample_terminal_def stream_on_def)
  have "disjoint_ranges 0xB000 1024 0xC00B8000 4000"
    by (rule far_disjoint) simp_all
  moreover have "\<not> in_range 0x9001 0xB000 1024" "\<not> in_range 0x9000 0xC00B8000 4000" "\<not> in_range 0x9001 0xC00B8000 4000"
    by (rule not_below, simp_all)+
  ultimately have "tty_apart sample_frame sample_ttys 0xC00B8000"
    by (simp add: tty_apart_def sample_frame_def sample_ttys_def)
  then show "tty_ok sample_frame 0x7000 sample_ttys sample_terminal"
    using sample_screen_ok(1) buf unfolding tty_ok_def
    by (simp add: sample_terminal_def idle_ring_def) (simp add: sample_ttys_def)
qed

lemma sample_quiet: "x < 0x9000 \<Longrightarrow> \<not> in_range x 0x8014 32 \<Longrightarrow> quiet sample_frame (stream_area 0x8000) sample_ttys sample_terminal x"
  using not_below [of x "0xB000" 1024] not_below [of x "0xC00B8000" 4000]
  by (auto simp: quiet_def sample_terminal_ok sample_area stream_buf_def word_less_nat_alt)

lemma sample_stream_apart: "stream_apart sample_frame sample_ttys sample_terminal 0x8000"
proof -
  have "\<not> tty_area sample_frame sample_ttys 0xC00B8000 x" if "in_range x 0x8014 32" for x
  proof -
    have "x < 0x9000"
      using that by (auto simp: in_range_ex word_less_nat_alt unat_add_u32 unat_of_nat)
    then show ?thesis
      using not_below [of x "0xB000" 1024] not_below [of x "0xC00B8000" 4000] by (auto simp: sample_area word_less_nat_alt)
  qed
  then show ?thesis
    by (simp add: stream_apart_def sample_terminal_ok stream_buf_def)
qed

text \<open>
  C16: a string without backspaces that is put into a stream of a terminal passes through the output
  ring, the driver from the registry and the video memory: the call ends, the screen is a console to which the
  characters were written one after another, and terminal and stream are ready for the next call.
\<close>
theorem stream_puts_shows:
  assumes "tty_ok f tty t s" and "stream_on p tty s" and "cstr (ts_mem s) str cs" and "str_fits str cs" and "8 \<notin> set cs"
    and "\<forall>j < length cs. \<not> tty_area f t (vga_buffer (ts_vga s)) (str + of_nat j)"
  shows "\<exists>t' s'. stream_puts io f p str s = kret s' \<and> tty_ok f tty t' s' \<and> stream_on p tty s' \<and>
    console (ts_screen s') = console_puts (vga_attri (ts_vga s)) cs (console (ts_screen s)) \<and>
    (\<forall>x. tty_area f t (vga_buffer (ts_vga s)) x \<or> ts_mem s' x = ts_mem s x)"
proof -
  have "quiet f (\<lambda>_. False) t s (str + of_nat j)" if "j < length cs" for j
    using assms(6) that by (simp add: quiet_def)
  from stream_puts_ok [OF assms(1-5) this, where io = io] show ?thesis
    by (auto simp: shown_def tty_kept_def)
qed

theorem stream_puts_shows_witness:
  "\<exists>s'. stream_puts silent_ports sample_frame 0x8000 0x300 sample_terminal = kret s' \<and>
     console (ts_screen s') = console_put 7 98 (console_put 7 97 (console (ts_screen sample_terminal)))"
proof -
  have "\<not> tty_area sample_frame sample_ttys (vga_buffer (ts_vga sample_terminal)) (0x300 + of_nat j)" if "j < 2" for j
  proof -
    have "quiet sample_frame (stream_area 0x8000) sample_ttys sample_terminal (0x300 + of_nat j)"
      using that by (intro sample_quiet not_below) (simp_all add: word_less_nat_alt unat_add_u32 unat_of_nat)
    then show ?thesis
      by (simp add: quiet_def)
  qed
  then show ?thesis
    using stream_puts_shows [OF sample_terminal_ok(1,2), of "0x300" "[97, 98]" silent_ports] sample_call_holds sample_terminal_ok(4,5)
    by (auto simp: str_fits_def console_puts_def)
qed


text \<open>
  C5: \<^verbatim>\<open>stream_printf\<close>, which formats character by character into a stream, and \<^verbatim>\<open>sprintf\<close>,
  which formats into a buffer, are the same function of the format and its arguments, for the conversions \<^verbatim>\<open>%d\<close>, \<^verbatim>\<open>%x\<close>, \<^verbatim>\<open>%p\<close>,
  \<^verbatim>\<open>%f\<close>, \<^verbatim>\<open>%s\<close> and \<^verbatim>\<open>%c\<close> with every \<^verbatim>\<open>double\<close> below \<open>2 ^ 31\<close> in magnitude: both terminate with the same count, and the
  characters that come to the screen are those that \<^verbatim>\<open>sprintf\<close> stores.
\<close>
theorem stream_printf_equals_sprintf:
  assumes "tty_ok f tty t s" and "stream_on p tty s" and "stream_apart f t s p" and "double_rounding rnd"
    and "format_text (double_text rnd) texts fs ws = Some out" and "8 \<notin> set out" and "length out < 4294967295"
    and "format_input (\<lambda>x. noisy f p t s x \<or> in_range x str (length out + 1)) texts (ts_mem s) fmt fs args ws"
  shows "\<exists>t' s' m'. stream_printf io (ftoa rnd undef) f p fmt args s = kret (of_nat (length out), s') \<and>
    sprintf (ftoa rnd undef) (ts_mem s) str fmt args = Some (of_nat (length out), m') \<and>
    console (ts_screen s') = console_puts (vga_attri (ts_vga s)) (bytes_at m' str (length out)) (console (ts_screen s)) \<and>
    bytes_at m' str (length out) = out \<and> tty_ok f tty t' s' \<and> stream_on p tty s'"
proof -
  have inp: "format_input (noisy f p t s) texts (ts_mem s) fmt fs args ws"
    "format_input (\<lambda>x. in_range x str (length out + 1)) texts (ts_mem s) fmt fs args ws"
    by (rule format_input_mono [OF _ assms(8)]; simp)+
  have fl: "float_ok (ftoa rnd undef) (double_text rnd)"
    using assms(4) by (rule ftoa_float_ok)
  obtain t' s' where "stream_printf io (ftoa rnd undef) f p fmt args s = kret (of_nat (length out), s')"
    "shown f tty (stream_area p) out t s t' s'" "stream_on p tty s'"
    using stream_vprintf_loop_ok [OF fl assms(5) inp(1) assms(1-3,6), where io = io and cnt = 0]
    by (auto simp: stream_printf_def stream_vprintf_def)
  moreover obtain m' where "sprintf (ftoa rnd undef) (ts_mem s) str fmt args = Some (of_nat (length out), m')" "bytes_at m' str (length out) = out"
    using vsprintf_loop_ok [OF fl assms(5) inp(2) _ assms(7), of str]
    by (auto simp: sprintf_def vsprintf_def puts_at_def)
  ultimately show ?thesis
    by (auto simp: shown_def)
qed

text \<open>The same terminal with the call that prints a \<^verbatim>\<open>double\<close> in its memory.\<close>

definition float_terminal :: "unit tty_state" where
  "float_terminal = sample_terminal\<lparr>ts_registry := (ts_registry sample_terminal)\<lparr>reg_heap := used_kheap\<lparr>mem := sample_float_call\<rparr>\<rparr>\<rparr>"

lemma float_terminal_ok:
  "tty_ok sample_frame 0x7000 sample_ttys float_terminal" "stream_on 0x8000 0x7000 float_terminal"
  "stream_apart sample_frame sample_ttys float_terminal 0x8000"
  "noisy sample_frame 0x8000 sample_ttys float_terminal = noisy sample_frame 0x8000 sample_ttys sample_terminal"
  "ts_mem float_terminal = sample_float_call" "vga_attri (ts_vga float_terminal) = 7"
  using sample_terminal_ok sample_stream_apart
  by (simp_all add: float_terminal_def tty_ok_def stream_on_def stream_apart_def noisy_def quiet_def fun_eq_iff)

theorem stream_printf_equals_sprintf_witness:
  "\<exists>s' m'. stream_printf silent_ports (ftoa id (\<lambda>m lo hi p. (m, p))) sample_frame 0x8000 0x100 0x200 float_terminal = kret (21, s') \<and>
     sprintf (ftoa id (\<lambda>m lo hi p. (m, p))) (ts_mem float_terminal) 0x1000 0x100 0x200 = Some (21, m') \<and>
     console (ts_screen s') = console_puts 7 (map ch ''-3.250000 0x5af ab -('') (console (ts_screen float_terminal))"
proof -
  let ?out = "map ch ''-3.250000 0x5af ab -(''"
  have len: "length ?out = 21" "(21 :: nat) + 1 = 22" "(of_nat 21 :: u32) = 21"
    by simp_all
  have "\<not> (noisy sample_frame 0x8000 sample_ttys float_terminal x \<or> in_range x 0x1000 (length ?out + 1))" if "x < 0x400" for x
    using that sample_quiet [of x] not_below [of x "0x8014" 32] not_below [of x "0x1000" "length ?out + 1"]
    unfolding float_terminal_ok(4) by (auto simp: noisy_def word_less_nat_alt)
  from stream_printf_equals_sprintf [OF float_terminal_ok(1-3) double_rounding_id sample_float_text, of "0x1000" "0x100" "0x200" silent_ports
      "\<lambda>m lo hi p. (m, p)"] sample_float_input [OF this]
  show ?thesis
    unfolding len float_terminal_ok(5,6) by fastforce
qed

end
