(* ===== verification/Tty_Input.thy ===== *)
theory Tty_Input
  imports Heap_Room Stream_Correct Circular_Buffer
begin

text \<open>
  A line that is typed: the listener of the keyboard puts the characters into the input ring of the terminal, the reader
  takes them out, shows them and collects them in a buffer that grows.
\<close>

section \<open>Rings of characters\<close>

definition ring_at :: "circular_buffer \<Rightarrow> mem \<Rightarrow> u8 list \<Rightarrow> bool" where
  "ring_at cb m q \<longleftrightarrow> cb_inv cb \<and> cb_element_size cb = 1 \<and> cb_items cb m = map (\<lambda>c. [c]) q"

abbreviation ring_area :: "circular_buffer \<Rightarrow> u32 \<Rightarrow> bool" where
  "ring_area cb x \<equiv> in_range x (cb_buffer cb) (unat (cb_capacity cb))"

lemma byte_slot:
  assumes "cb_element_size cb = 1" and "k < unat (cb_capacity cb)"
  shows "slot_addr cb k = cb_buffer cb + of_nat k" "ring_area cb (slot_addr cb k)"
proof -
  have "k < 4294967296"
    using assms(2) unat_lt_u32 [of "cb_capacity cb"] by linarith
  then show "slot_addr cb k = cb_buffer cb + of_nat k" "ring_area cb (slot_addr cb k)"
    using assms by (simp_all add: slot_addr_def elem_at_def)
qed

lemma byte_range: "in_range x a (Suc 0) \<longleftrightarrow> x = a"
  by (auto simp: in_range_def unat_eq_0)

lemma byte_disjoint: "disjoint_ranges a (Suc 0) b (Suc 0) \<longleftrightarrow> a \<noteq> b"
  by (auto simp: disjoint_ranges_def byte_range)

lemma bytes_at_1: "bytes_at m a (Suc 0) = [m a]"
  by (simp add: bytes_at_Suc)

lemma ring_at_agree:
  assumes "ring_at cb m q" and "\<And>x. ring_area cb x \<Longrightarrow> m' x = m x"
  shows "ring_at cb m' q"
proof -
  have inv: "cb_inv cb" "cb_element_size cb = 1" "cb_items cb m = map (\<lambda>c. [c]) q"
    using assms(1) by (simp_all add: ring_at_def)
  have "cb_items cb m' = cb_items cb m"
    using assms(2) byte_slot(2) [OF inv(2)] slot_less [OF inv(1)] unfolding cb_items_def by (simp add: inv(2) bytes_at_1)
  then show ?thesis
    using inv by (simp add: ring_at_def)
qed

lemma ring_length: "ring_at cb m q \<Longrightarrow> unat (cb_size cb) = length q"
  using cb_items_length [of cb m] by (simp add: ring_at_def)

lemma ring_empty: "ring_at cb m q \<Longrightarrow> circular_buffer_empty cb \<longleftrightarrow> q = []"
  using ring_length [of cb m q] by (simp add: circular_buffer_empty_def word_unat_eq_iff)

lemma ring_enqueue:
  assumes "ring_at cb m q" and "length q < unat (cb_capacity cb)" and "e \<noteq> 0" and "\<not> ring_area cb e"
  shows "\<exists>cb' m'. circular_buffer_enqueue cb m e = kret (cb', m') \<and> ring_at cb' m' (q @ [m e]) \<and>
    cb_buffer cb' = cb_buffer cb \<and> cb_capacity cb' = cb_capacity cb \<and> (\<forall>x. \<not> ring_area cb x \<longrightarrow> m' x = m x)"
proof -
  have inv: "cb_inv cb" "cb_element_size cb = 1" "cb_items cb m = map (\<lambda>c. [c]) q"
    using assms(1) by (simp_all add: ring_at_def)
  have nf: "\<not> circular_buffer_full cb"
    using ring_length [OF assms(1)] assms(2) by (auto simp: circular_buffer_full_def)
  have "unat (cb_tail cb) < unat (cb_capacity cb)"
    using inv(1) slot_less [OF inv(1)] by (simp add: cb_inv_def)
  note t = byte_slot [OF inv(2) this]
  have "slot_addr cb (unat (cb_tail cb)) \<noteq> e"
    using t(2) assms(4) by auto
  then obtain cb' m' where "circular_buffer_enqueue cb m e = kret (cb', m')" "cb_inv cb'" "cb_items cb' m' = cb_items cb m @ [[m e]]"
    "cb_capacity cb' = cb_capacity cb" "cb_buffer cb' = cb_buffer cb" "cb_element_size cb' = 1"
    "\<And>x. x \<noteq> slot_addr cb (unat (cb_tail cb)) \<Longrightarrow> m' x = m x"
    using circular_buffer_enqueue_items [OF inv(1) nf, of e m] assms(3)
    by (auto simp: inv(2) byte_disjoint byte_range bytes_at_1)
  moreover from this(7) have "m' x = m x" if "\<not> ring_area cb x" for x
    using t(2) that by metis
  ultimately show ?thesis
    using inv(3) by (intro exI [of _ cb'] exI [of _ m']) (simp add: ring_at_def)
qed

lemma ring_dequeue:
  assumes "ring_at cb m (c # q)" and "e \<noteq> 0" and "\<not> ring_area cb e"
  shows "\<exists>cb'. circular_buffer_dequeue cb m e = kret (cb', m(e := c)) \<and> ring_at cb' (m(e := c)) q \<and>
    cb_buffer cb' = cb_buffer cb \<and> cb_capacity cb' = cb_capacity cb"
proof -
  have inv: "cb_inv cb" "cb_element_size cb = 1" "cb_items cb m = [c] # map (\<lambda>c. [c]) q"
    using assms(1) by (simp_all add: ring_at_def)
  have "\<forall>k < unat (cb_capacity cb). disjoint_ranges e (Suc 0) (slot_addr cb k) (Suc 0)"
    using byte_slot(2) [OF inv(2)] assms(3) unfolding byte_disjoint by auto
  then obtain cb' m' where r: "circular_buffer_dequeue cb m e = kret (cb', m')" "cb_inv cb'" "cb_items cb' m' = map (\<lambda>c. [c]) q"
    "m' e = c" "cb_capacity cb' = cb_capacity cb" "cb_buffer cb' = cb_buffer cb" "cb_element_size cb' = 1"
    using circular_buffer_dequeue_items [OF inv(1,3), of e] assms(2) by (auto simp: inv(2) bytes_at_1)
  have "m' = m(e := c)"
  proof -
    have "\<exists>a. m' = m(e := m a)"
      using r(1) assms(2) inv(1,3)
      by (auto simp: circular_buffer_dequeue_def circular_buffer_empty_def memcpy_one inv(2) Let_def umod_def cb_inv_def cb_items_def split: if_splits)
    then show ?thesis
      using r(4) by auto
  qed
  then show ?thesis
    using r by (auto simp: ring_at_def)
qed


section \<open>A terminal that is read\<close>

abbreviation ts_heap :: "'d tty_state \<Rightarrow> kheap" where
  "ts_heap s \<equiv> reg_heap (ts_registry s)"

text \<open>
  The rings are payloads of the heap; the local variables and the screen are not in the heap.
\<close>

definition ring_held :: "(nat \<times> nat) set \<Rightarrow> circular_buffer \<Rightarrow> nat \<Rightarrow> bool" where
  "ring_held L cb k \<longleftrightarrow> (unat (cb_buffer cb), k) \<in> L \<and> unat (cb_capacity cb) \<le> k"

definition input_places :: "tty_frame \<Rightarrow> tty \<Rightarrow> kheap \<Rightarrow> u32 \<Rightarrow> (nat \<times> nat) set \<Rightarrow> nat \<Rightarrow> nat \<Rightarrow> bool" where
  "input_places f t h screen L ki ko \<longleftrightarrow> ring_held L (tty_input t) ki \<and> ring_held L (tty_output t) ko \<and>
     cb_buffer (tty_input t) \<noteq> cb_buffer (tty_output t) \<and>
     (\<forall>a \<in> {tf_putchar f, tf_flush f, tf_getchar f, tf_listener f}. a \<noteq> 0 \<and> off_heap h a \<and> \<not> in_range a screen 4000) \<and>
     (\<forall>x. in_range x screen 4000 \<longrightarrow> off_heap h x)"

text \<open>The line so far, in its payload \<open>(p, k)\<close>, with room for the terminating zero.\<close>

definition line_at :: "mem \<Rightarrow> line_buffer \<Rightarrow> nat \<Rightarrow> nat \<Rightarrow> u8 list \<Rightarrow> bool" where
  "line_at m b p k cs \<longleftrightarrow> lb_buf b = adr p \<and> unat (lb_size b) \<le> k \<and> unat (lb_idx b) = length cs \<and>
     length cs < unat (lb_size b) \<and> (\<forall>i < length cs. m (adr p + of_nat i) = cs ! i)"

definition reading :: "tty_frame \<Rightarrow> u32 \<Rightarrow> nat \<Rightarrow> nat \<Rightarrow> (nat \<times> nat) set \<Rightarrow> nat \<Rightarrow> tty \<Rightarrow> 'd tty_state \<Rightarrow> u8 list \<Rightarrow> bool" where
  "reading f tty ki ko L B t s q \<longleftrightarrow> tty_ok f tty t s \<and> ts_stdterm s = tty \<and> tty \<noteq> 0 \<and> heap_room (ts_heap s) L B \<and>
     input_places f t (ts_heap s) (vga_buffer (ts_vga s)) L ki ko \<and> ring_at (tty_input t) (ts_mem s) q"

text \<open>What the steps leave alone, and what they show.\<close>

definition calm :: "tty \<Rightarrow> 'd tty_state \<Rightarrow> tty \<Rightarrow> 'd tty_state \<Rightarrow> bool" where
  "calm t s t' s' \<longleftrightarrow> same_mode (ts_vga s) (ts_vga s') \<and> ts_streams s' = ts_streams s \<and> ts_stdterm s' = ts_stdterm s \<and>
     tty_video t' = tty_video t \<and> kheap_base (ts_heap s') = kheap_base (ts_heap s) \<and>
     (\<exists>h. ts_registry s' = (ts_registry s)\<lparr>reg_heap := h\<rparr>) \<and>
     cb_buffer (tty_input t') = cb_buffer (tty_input t) \<and> cb_capacity (tty_input t') = cb_capacity (tty_input t) \<and>
     cb_buffer (tty_output t') = cb_buffer (tty_output t) \<and> cb_capacity (tty_output t') = cb_capacity (tty_output t)"

lemma calm_refl: "calm t s t s"
  by (auto simp: calm_def same_mode_def intro: exI [of _ "ts_heap s"])

lemma calm_trans: "calm t s t1 s1 \<Longrightarrow> calm t1 s1 t2 s2 \<Longrightarrow> calm t s t2 s2"
  unfolding calm_def by (auto simp: same_mode_def)

lemma calmD:
  assumes "calm t s t' s'"
  shows "vga_buffer (ts_vga s') = vga_buffer (ts_vga s)" "vga_attri (ts_vga s') = vga_attri (ts_vga s)"
    "kheap_base (ts_heap s') = kheap_base (ts_heap s)" "ts_streams s' = ts_streams s" "ts_stdterm s' = ts_stdterm s"
    "cb_capacity (tty_input t') = cb_capacity (tty_input t)" "cb_buffer (tty_input t') = cb_buffer (tty_input t)"
    "cb_buffer (tty_output t') = cb_buffer (tty_output t)" "cb_capacity (tty_output t') = cb_capacity (tty_output t)"
    "reg_lists (ts_registry s') = reg_lists (ts_registry s)" "driver_ptr (ts_registry s') = driver_ptr (ts_registry s)"
    "video_drivers (ts_registry s') = video_drivers (ts_registry s)" "tty_video t' = tty_video t"
proof -
  show "reg_lists (ts_registry s') = reg_lists (ts_registry s)" "driver_ptr (ts_registry s') = driver_ptr (ts_registry s)"
    "video_drivers (ts_registry s') = video_drivers (ts_registry s)"
    using assms by (auto simp: calm_def)
qed (use assms in \<open>simp_all add: calm_def same_mode_def\<close>)

definition echoed :: "u8 list \<Rightarrow> tty \<Rightarrow> 'd tty_state \<Rightarrow> tty \<Rightarrow> 'd tty_state \<Rightarrow> bool" where
  "echoed cs t s t' s' \<longleftrightarrow> calm t s t' s' \<and>
     console (ts_screen s') = console_puts (vga_attri (ts_vga s)) cs (console (ts_screen s))"

lemma echoed_append: "echoed cs t s t1 s1 \<Longrightarrow> echoed ds t1 s1 t2 s2 \<Longrightarrow> echoed (cs @ ds) t s t2 s2"
  using calm_trans [of t s t1 s1 t2 s2] calmD(2) [of t s t1 s1] by (auto simp: echoed_def console_puts_def)

lemma echoed_nothing: "echoed [] t s t s"
  by (simp add: echoed_def console_puts_def calm_refl)

text \<open>The bytes of other payloads, and bytes outside the heap that are no local variables and not on the screen.\<close>

definition lasting :: "tty_frame \<Rightarrow> tty \<Rightarrow> 'd tty_state \<Rightarrow> (nat \<times> nat) set \<Rightarrow> u32 \<Rightarrow> bool" where
  "lasting f t s L x \<longleftrightarrow>
     off_heap (ts_heap s) x \<and> x \<notin> {tf_putchar f, tf_flush f, tf_getchar f, tf_listener f} \<and> \<not> in_range x (vga_buffer (ts_vga s)) 4000 \<or>
     (\<exists>p k. (p, k) \<in> L \<and> p \<noteq> unat (cb_buffer (tty_input t)) \<and> p \<noteq> unat (cb_buffer (tty_output t)) \<and> in_range x (adr p) k)"

lemma lasting_calm: "calm t s t' s' \<Longrightarrow> lasting f t' s' L = lasting f t s L"
  by (simp add: lasting_def off_heap_def calmD fun_eq_iff)

lemma lasting_mono: "lasting f t s L x \<Longrightarrow> L \<subseteq> L' \<Longrightarrow> lasting f t s L' x"
  by (auto simp: lasting_def)

lemma payload_byte: "heap_room h L B \<Longrightarrow> (p, k) \<in> L \<Longrightarrow> in_range x (adr p) k \<Longrightarrow> \<not> off_heap h x"
  using owned_byte room_owns by blast

lemma payloads_apart:
  assumes "heap_room h L B" and "(p, k) \<in> L" and "(q, j) \<in> L" and "(p, k) \<noteq> (q, j)" and "in_range x (adr p) k"
  shows "\<not> in_range x (adr q) j"
  using heap_alloc.owned_ranges_disjoint [OF room_owns [OF assms(1)] assms(2-4)] assms(5) by (auto simp: disjoint_ranges_def)

lemma same_payload: "heap_room h L B \<Longrightarrow> (p, k) \<in> L \<Longrightarrow> (p, j) \<in> L \<Longrightarrow> k = j"
  using heap_alloc.owned_disjoint [of h L p k p j] heap_alloc.owned_bounds [of h L p k] heap_alloc.owned_bounds [of h L p j] room_owns
  by fastforce

lemma ring_payload: "ring_held L cb k \<Longrightarrow> ring_area cb x \<Longrightarrow> in_range x (adr (unat (cb_buffer cb))) k"
  by (auto simp: ring_held_def in_range_def)

text \<open>A step that writes local variables and the input ring.\<close>

lemma reading_write:
  assumes rd: "reading f tty ki ko L B t s q"
    and st: "ts_vga s' = ts_vga s" "ts_stdterm s' = ts_stdterm s" "ts_ttys s' tty = Some t'" "ts_heap s' = (ts_heap s)\<lparr>mem := ts_mem s'\<rparr>"
      "ts_registry s' = (ts_registry s)\<lparr>reg_heap := ts_heap s'\<rparr>" "ts_streams s' = ts_streams s"
    and t': "tty_output t' = tty_output t" "tty_video t' = tty_video t" "cb_buffer (tty_input t') = cb_buffer (tty_input t)"
      "cb_capacity (tty_input t') = cb_capacity (tty_input t)"
    and ring: "ring_at (tty_input t') (ts_mem s') q'"
    and m: "\<And>x. in_range x (vga_buffer (ts_vga s)) 4000 \<Longrightarrow> ts_mem s' x = ts_mem s x"
  shows "reading f tty ki ko L B t' s' q' \<and> echoed [] t s t' s'"
proof
  have base: "kheap_base (ts_heap s') = kheap_base (ts_heap s)"
    using st(4) by (metis kheap.select_convs(5) kheap.surjective kheap.update_convs(9))
  have "console (ts_screen s') = console (ts_screen s)"
    unfolding ts_screen_def [of s'] by (rule console_cong) (use st(1) m in \<open>simp_all add: ts_screen_def\<close>)
  moreover have calm: "calm t s t' s'"
    using st(1,2,6) t' base exI [of "\<lambda>h. ts_registry s' = (ts_registry s)\<lparr>reg_heap := h\<rparr>", OF st(5)] by (simp add: calm_def same_mode_def)
  ultimately show "echoed [] t s t' s'"
    by (simp add: echoed_def console_puts_def)
  have "heap_room (ts_heap s') L B"
    using rd room_mem [of "ts_heap s" L B "ts_mem s'"] st(4) by (simp add: reading_def)
  moreover have "tty_ok f tty t' s'"
    using rd st(1-4) t' calmD(11,12) [OF calm] by (auto simp: reading_def tty_ok_def tty_apart_def)
  moreover have "input_places f t' (ts_heap s') (vga_buffer (ts_vga s')) L ki ko"
    using rd st(1) t' base by (simp add: reading_def input_places_def ring_held_def off_heap_def)
  ultimately show "reading f tty ki ko L B t' s' q'"
    using rd st(2) ring by (simp add: reading_def)
qed

text \<open>A step that also keeps the payloads that are not rings.\<close>

definition stepped :: "tty_frame \<Rightarrow> (nat \<times> nat) set \<Rightarrow> u8 list \<Rightarrow> tty \<Rightarrow> 'd tty_state \<Rightarrow> tty \<Rightarrow> 'd tty_state \<Rightarrow> bool" where
  "stepped f L cs t s t' s' \<longleftrightarrow> echoed cs t s t' s' \<and> (\<forall>x. lasting f t s L x \<longrightarrow> ts_mem s' x = ts_mem s x)"

lemma stepped_append: "stepped f L cs t s t1 s1 \<Longrightarrow> stepped f L ds t1 s1 t2 s2 \<Longrightarrow> stepped f L (cs @ ds) t s t2 s2"
  using echoed_append [of cs t s t1 s1 ds t2 s2] lasting_calm [of t s t1 s1 f L] unfolding stepped_def echoed_def by auto

lemma stepped_nothing: "stepped f L [] t s t s"
  by (simp add: stepped_def echoed_nothing)

lemma lasting_byte:
  assumes "reading f tty ki ko L B t s q" and "lasting f t s L x"
  shows "x \<notin> {tf_putchar f, tf_flush f, tf_getchar f, tf_listener f}" "\<not> in_range x (vga_buffer (ts_vga s)) 4000"
    "\<not> ring_area (tty_input t) x" "\<not> ring_area (tty_output t) x"
proof -
  have r: "heap_room (ts_heap s) L B" "ring_held L (tty_input t) ki" "ring_held L (tty_output t) ko"
    "\<And>a. a \<in> {tf_putchar f, tf_flush f, tf_getchar f, tf_listener f} \<Longrightarrow> off_heap (ts_heap s) a"
    "\<And>x. in_range x (vga_buffer (ts_vga s)) 4000 \<Longrightarrow> off_heap (ts_heap s) x"
    using assms(1) by (auto simp: reading_def input_places_def)
  have held: "(unat (cb_buffer (tty_input t)), ki) \<in> L" "(unat (cb_buffer (tty_output t)), ko) \<in> L"
    using r(2,3) by (simp_all add: ring_held_def)
  have ring: "\<not> ring_area cb x" if "off_heap (ts_heap s) x" "ring_held L cb k" for cb k
    using payload_byte [OF r(1) _ ring_payload [OF that(2)], of x] that by (auto simp: ring_held_def)
  have other: "\<not> ring_area cb x" if "(p, k) \<in> L" "p \<noteq> unat (cb_buffer cb)" "in_range x (adr p) k" "ring_held L cb j" for cb p k j
    using payloads_apart [OF r(1) that(1) _ _ that(3), of "unat (cb_buffer cb)" j] ring_payload [OF that(4), of x] that(2,4)
    by (auto simp: ring_held_def)
  show "\<not> ring_area (tty_input t) x" "\<not> ring_area (tty_output t) x"
    using assms(2) ring [OF _ r(2)] ring [OF _ r(3)] other [OF _ _ _ r(2)] other [OF _ _ _ r(3)] unfolding lasting_def by blast+
  show "x \<notin> {tf_putchar f, tf_flush f, tf_getchar f, tf_listener f}" "\<not> in_range x (vga_buffer (ts_vga s)) 4000"
    using assms(2) payload_byte [OF r(1)] r(4) [of x] r(5) [of x] unfolding lasting_def by blast+
qed

definition typed :: "keyboard_event list \<Rightarrow> u8 list" where
  "typed es = map (\<lambda>e. ucast (keycode e)) (filter (\<lambda>e. (ucast (keycode e) :: u8) \<noteq> 0 \<and> pressed e) es)"

lemma typed_simps [simp]: "typed [] = []"
  "typed (e # es) = (if (ucast (keycode e) :: u8) \<noteq> 0 \<and> pressed e then [ucast (keycode e)] else []) @ typed es"
  by (simp_all add: typed_def)

lemma listener_ok:
  assumes rd: "reading f tty ki ko L B t s q" and len: "length q + length (typed [e]) \<le> unat (cb_capacity (tty_input t))"
  shows "\<exists>t' s'. tty_keyboard_listener f e s = kret s' \<and> reading f tty ki ko L B t' s' (q @ typed [e]) \<and> stepped f L [] t s t' s'"
proof -
  let ?c = "ucast (keycode e) :: u8" and ?a = "tf_listener f" and ?cb = "tty_input t"
  let ?m = "(ts_mem s)(?a := ?c)"
  have r: "ts_stdterm s = tty" "tty \<noteq> 0" "ts_ttys s tty = Some t" "ring_at ?cb (ts_mem s) q" "heap_room (ts_heap s) L B"
    "ring_held L ?cb ki" "?a \<noteq> 0" "off_heap (ts_heap s) ?a" "\<not> in_range ?a (vga_buffer (ts_vga s)) 4000"
    "\<And>x. in_range x (vga_buffer (ts_vga s)) 4000 \<Longrightarrow> off_heap (ts_heap s) x"
    using rd by (auto simp: reading_def tty_ok_def input_places_def)
  have held: "(unat (cb_buffer ?cb), ki) \<in> L"
    using r(6) by (simp add: ring_held_def)
  have area: "\<not> off_heap (ts_heap s) x" if "ring_area ?cb x" for x
    using payload_byte [OF r(5) held ring_payload [OF r(6) that]] .
  have na: "\<not> ring_area ?cb ?a"
    using area r(8) by blast
  have "ring_at ?cb ?m q"
    by (rule ring_at_agree [OF r(4)]) (use na in auto)
  note ring = this
  show ?thesis
  proof (cases "?c \<noteq> 0 \<and> pressed e")
    case True
    then have "length q < unat (cb_capacity ?cb)"
      using len by simp
    from ring_enqueue [OF ring this r(7) na] obtain cb m where
      enq: "circular_buffer_enqueue ?cb ?m ?a = kret (cb, m)" "ring_at cb m (q @ [?c])" "cb_buffer cb = cb_buffer ?cb"
        "cb_capacity cb = cb_capacity ?cb" "\<And>x. \<not> ring_area ?cb x \<Longrightarrow> m x = ?m x"
      by (auto simp del: fun_upd_apply) (simp add: fun_upd_apply)
    let ?s = "(ts_set_mem m s)\<lparr>ts_ttys := (ts_ttys s)(tty \<mapsto> t\<lparr>tty_input := cb\<rparr>)\<rparr>"
    have run: "tty_keyboard_listener f e s = kret ?s"
      using True r(1-3) enq(1)
      by (simp add: tty_keyboard_listener_def tty_get_stdterm_def ts_update_tty_def Let_def ts_set_mem_def ts_set_heap_def)
    have m: "m x = ts_mem s x" if "\<not> ring_area ?cb x" "x \<noteq> ?a" for x
      using enq(5) that by simp
    have screen: "m x = ts_mem s x" if "in_range x (vga_buffer (ts_vga s)) 4000" for x
      using m [of x] area [of x] r(9) r(10) [OF that] that by auto
    have rest: "m x = ts_mem s x" if "lasting f t s L x" for x
      using m [of x] lasting_byte [OF rd that] by auto
    have "reading f tty ki ko L B (t\<lparr>tty_input := cb\<rparr>) ?s (q @ [?c]) \<and> echoed [] t s (t\<lparr>tty_input := cb\<rparr>) ?s"
      by (rule reading_write [OF rd]) (use enq(2-4) screen r(1) in \<open>simp_all add: ts_set_mem_def ts_set_heap_def\<close>)
    then show ?thesis
      using True run rest
      by (intro exI [of _ "t\<lparr>tty_input := cb\<rparr>"] exI [of _ ?s]) (auto simp: stepped_def ts_set_mem_def ts_set_heap_def)
  next
    case False
    let ?s = "ts_set_mem ?m s"
    have run: "tty_keyboard_listener f e s = kret ?s"
      using False r(1,2) by (auto simp: tty_keyboard_listener_def tty_get_stdterm_def Let_def)
    have "reading f tty ki ko L B t ?s q \<and> echoed [] t s t ?s"
      by (rule reading_write [OF rd]) (use ring r(1,3,9) in \<open>auto simp: ts_set_mem_def ts_set_heap_def\<close>)
    then show ?thesis
      using False run lasting_byte(1) [OF rd] by (intro exI [of _ t] exI [of _ ?s]) (auto simp: stepped_def)
  qed
qed

lemma deliver_ok:
  assumes "reading f tty ki ko L B t s q" and "length q + length (typed es) \<le> unat (cb_capacity (tty_input t))"
  shows "\<exists>t' s'. deliver_keys f es s = kret s' \<and> reading f tty ki ko L B t' s' (q @ typed es) \<and> stepped f L [] t s t' s'"
  using assms
proof (induction es arbitrary: t s q)
  case Nil
  then show ?case
    by (auto intro: stepped_nothing)
next
  case (Cons e es)
  have split: "typed (e # es) = typed [e] @ typed es"
    by simp
  have "length q + length (typed [e]) \<le> unat (cb_capacity (tty_input t))"
    using Cons.prems(2) unfolding split by simp
  from listener_ok [OF Cons.prems(1) this] obtain t1 s1 where one: "tty_keyboard_listener f e s = kret s1"
    "reading f tty ki ko L B t1 s1 (q @ typed [e])" "stepped f L [] t s t1 s1"
    by blast
  have "cb_capacity (tty_input t1) = cb_capacity (tty_input t)"
    using one(3) calmD(6) [of t s t1 s1] by (simp add: stepped_def echoed_def)
  then have "length (q @ typed [e]) + length (typed es) \<le> unat (cb_capacity (tty_input t1))"
    using Cons.prems(2) unfolding split by simp
  from Cons.IH [OF one(2) this] obtain t2 s2 where two: "deliver_keys f es s1 = kret s2"
    "reading f tty ki ko L B t2 s2 ((q @ typed [e]) @ typed es)" "stepped f L [] t1 s1 t2 s2"
    by blast
  then show ?case
    using one(1) stepped_append [OF one(3) two(3)] by (intro exI [of _ t2] exI [of _ s2]) (simp add: split)
qed

lemma getchar_ok:
  assumes rd: "reading f tty ki ko L B t s (c # q)"
  shows "\<exists>t' s'. tty_getchar f tty s = kret (c, s') \<and> reading f tty ki ko L B t' s' q \<and> stepped f L [] t s t' s'"
proof -
  let ?a = "tf_getchar f" and ?cb = "tty_input t"
  have r: "ts_ttys s tty = Some t" "ring_at ?cb (ts_mem s) (c # q)" "heap_room (ts_heap s) L B"
    "ring_held L ?cb ki" "?a \<noteq> 0" "off_heap (ts_heap s) ?a" "\<not> in_range ?a (vga_buffer (ts_vga s)) 4000"
    using rd by (auto simp: reading_def tty_ok_def input_places_def)
  have "(unat (cb_buffer ?cb), ki) \<in> L"
    using r(4) by (simp add: ring_held_def)
  then have na: "\<not> ring_area ?cb ?a"
    using payload_byte [OF r(3) _ ring_payload [OF r(4)], of ?a] r(6) by blast
  let ?m = "(ts_mem s)(?a := c)"
  obtain cb where deq: "circular_buffer_dequeue ?cb (ts_mem s) ?a = kret (cb, ?m)" "ring_at cb ?m q"
    "cb_buffer cb = cb_buffer ?cb" "cb_capacity cb = cb_capacity ?cb"
    using ring_dequeue [OF r(2,5) na] by blast
  let ?s = "(ts_set_mem ?m s)\<lparr>ts_ttys := (ts_ttys s)(tty \<mapsto> t\<lparr>tty_input := cb\<rparr>)\<rparr>"
  have run: "tty_getchar f tty s = kret (c, ?s)"
    using r(1) deq(1) ring_empty [OF r(2)] by (simp add: tty_getchar_def ts_update_tty_def ts_set_mem_def ts_set_heap_def)
  have "reading f tty ki ko L B (t\<lparr>tty_input := cb\<rparr>) ?s q \<and> echoed [] t s (t\<lparr>tty_input := cb\<rparr>) ?s"
    by (rule reading_write [OF rd]) (use deq(2-4) r(7) in \<open>auto simp: ts_set_mem_def ts_set_heap_def\<close>)
  then show ?thesis
    using run lasting_byte(1) [OF rd] by (intro exI [of _ "t\<lparr>tty_input := cb\<rparr>"] exI [of _ ?s]) (auto simp: stepped_def ts_set_mem_def ts_set_heap_def)
qed

lemma getchar_empty: "reading f tty ki ko L B t s [] \<Longrightarrow> tty_getchar f tty s = kret (- 1, s)"
  using ring_empty [of "tty_input t" "ts_mem s" "[]"] by (auto simp: reading_def tty_ok_def tty_getchar_def)


lemma reading_outside: "reading f tty ki ko L B t s q \<Longrightarrow> lasting f t s L x \<Longrightarrow> \<not> tty_area f t (vga_buffer (ts_vga s)) x"
  using lasting_byte [of f tty ki ko L B t s q x] by (auto simp: tty_area_def)

lemma shown_calm:
  assumes "shown f tty B cs t s t' s'"
  shows "calm t s t' s'" "tty_input t' = tty_input t" "ts_heap s' = (ts_heap s)\<lparr>mem := ts_mem s'\<rparr>"
proof -
  have k: "same_mode (ts_vga s) (ts_vga s')" "ts_registry s' = (ts_registry s)\<lparr>reg_heap := (ts_heap s)\<lparr>mem := ts_mem s'\<rparr>\<rparr>"
    "cb_buffer (tty_output t') = cb_buffer (tty_output t)" "cb_capacity (tty_output t') = cb_capacity (tty_output t)"
    "tty_input t' = tty_input t" "ts_stdterm s' = ts_stdterm s" "ts_streams s' = ts_streams s" "tty_video t' = tty_video t"
    using assms by (simp_all add: shown_def tty_kept_def but_bytes_eq)
  show heap: "ts_heap s' = (ts_heap s)\<lparr>mem := ts_mem s'\<rparr>"
    by (subst k(2)) simp
  then have "kheap_base (ts_heap s') = kheap_base (ts_heap s)"
    by (metis kheap.select_convs(5) kheap.surjective kheap.update_convs(9))
  then show "calm t s t' s'"
    using k(1,3-8) exI [of "\<lambda>h. ts_registry s' = (ts_registry s)\<lparr>reg_heap := h\<rparr>", OF k(2)] by (simp add: calm_def)
  show "tty_input t' = tty_input t"
    by (rule k(5))
qed

lemma putchar_step:
  assumes rd: "reading f tty ki ko L B t s q" and c: "c \<noteq> 8"
  shows "\<exists>t' s'. tty_putchar io f tty c s = kret s' \<and> reading f tty ki ko L B t' s' q \<and> stepped f L [c] t s t' s'"
proof -
  have r: "tty_ok f tty t s" "heap_room (ts_heap s) L B" "input_places f t (ts_heap s) (vga_buffer (ts_vga s)) L ki ko"
    "ring_at (tty_input t) (ts_mem s) q" "ts_stdterm s = tty" "tty \<noteq> 0"
    using rd by (auto simp: reading_def)
  have "backspace_ok c (ts_screen s)"
    using c by (simp add: backspace_ok_def)
  then obtain t' s' where out: "tty_putchar io f tty c s = kret s'" "shown f tty (\<lambda>_. False) [c] t s t' s'"
    using tty_putchar_ok [OF r(1)] by blast
  note calm = shown_calm(1) [OF out(2)] and heap = shown_calm(3) [OF out(2)] and input = shown_calm(2) [OF out(2)]
  note k = calmD [OF calm]
  have m: "ts_mem s' x = ts_mem s x" if "\<not> tty_area f t (vga_buffer (ts_vga s)) x" for x
    using out(2) that by (simp add: shown_def tty_kept_def)
  have kept: "ts_mem s' x = ts_mem s x" if "lasting f t s L x" for x
    using m [OF reading_outside [OF rd that]] .
  have "\<not> tty_area f t (vga_buffer (ts_vga s)) x" if x: "ring_area (tty_input t) x" for x
  proof -
    have held: "(unat (cb_buffer (tty_input t)), ki) \<in> L" "(unat (cb_buffer (tty_output t)), ko) \<in> L"
      "unat (cb_buffer (tty_input t)) \<noteq> unat (cb_buffer (tty_output t))" "ring_held L (tty_input t) ki" "ring_held L (tty_output t) ko"
      using r(3) by (auto simp: input_places_def ring_held_def simp flip: word_unat_eq_iff)
    have "\<not> ring_area (tty_output t) x"
      using payloads_apart [OF r(2) held(1,2) _ ring_payload [OF held(4) x]] ring_payload [OF held(5), of x] held(3) by blast
    moreover have "\<not> off_heap (ts_heap s) x"
      using payload_byte [OF r(2) held(1) ring_payload [OF held(4) x]] .
    ultimately show ?thesis
      using r(3) by (auto simp: tty_area_def input_places_def)
  qed
  then have "ring_at (tty_input t') (ts_mem s') q"
    unfolding input by (intro ring_at_agree [OF r(4)] m)
  moreover have "input_places f t' (ts_heap s') (vga_buffer (ts_vga s')) L ki ko"
    using r(3) k by (simp add: input_places_def ring_held_def off_heap_def)
  moreover have "heap_room (ts_heap s') L B"
    using room_mem [OF r(2), of "ts_mem s'"] heap by simp
  ultimately have "reading f tty ki ko L B t' s' q"
    using out(2) r(5,6) k(5) by (simp add: reading_def shown_def)
  moreover have "stepped f L [c] t s t' s'"
    using out(2) calm kept by (auto simp: stepped_def echoed_def shown_def)
  ultimately show ?thesis
    using out(1) by blast
qed

text \<open>A step that writes one payload, maybe a new one.\<close>

lemma reading_heap:
  assumes rd: "reading f tty ki ko L B t s q" and room: "heap_room h L' B'" and base: "kheap_base h = kheap_base (ts_heap s)"
    and p: "(p, k) \<in> L'" "p \<noteq> unat (cb_buffer (tty_input t))"
    and rings: "(unat (cb_buffer (tty_input t)), ki) \<in> L'" "(unat (cb_buffer (tty_output t)), ko) \<in> L'"
    and m: "\<And>x. \<not> in_range x (adr p) k \<Longrightarrow> mem h x = ts_mem s x"
  shows "reading f tty ki ko L' B' t (ts_set_heap h s) q \<and> echoed [] t s t (ts_set_heap h s)"
proof
  let ?s = "ts_set_heap h s"
  have r: "ring_held L (tty_input t) ki" "ring_at (tty_input t) (ts_mem s) q"
    "\<And>x. in_range x (vga_buffer (ts_vga s)) 4000 \<Longrightarrow> off_heap (ts_heap s) x"
    using rd by (auto simp: reading_def input_places_def)
  have "\<not> in_range x (adr p) k" if "in_range x (vga_buffer (ts_vga s)) 4000" for x
    using payload_byte [OF room p(1)] r(3) [OF that] base by (auto simp: off_heap_def)
  then have "console (ts_screen ?s) = console (ts_screen s)"
    unfolding ts_screen_def [of ?s] using m by (intro console_cong) (simp_all add: ts_screen_def ts_set_heap_def)
  then show "echoed [] t s t ?s"
    using base by (auto simp: echoed_def console_puts_def calm_def same_mode_def ts_set_heap_def)
  have "\<not> in_range x (adr p) k" if "ring_area (tty_input t) x" for x
    using payloads_apart [OF room p(1) rings(1)] p(2) ring_payload [OF r(1) that] by auto
  then have "ring_at (tty_input t) (mem h) q"
    using m by (intro ring_at_agree [OF r(2)]) blast
  moreover have "input_places f t h (vga_buffer (ts_vga s)) L' ki ko"
    using rd base rings by (simp add: reading_def input_places_def ring_held_def off_heap_def)
  ultimately show "reading f tty ki ko L' B' t ?s q"
    using rd room by (simp add: reading_def tty_ok_def ts_set_heap_def)
qed

end
