(* ===== verification/Shell.thy ===== *)
theory Shell
  imports Tty Ata Interrupts
begin

text \<open>
  \<^verbatim>\<open>kernel/src/shell/shell.c\<close>: the commands, their list, and the loop that reads and executes them.
\<close>

section \<open>State\<close>

text \<open>The functions a command can hold.\<close>

datatype shell_fn =
    Shell_execute_help | Shell_execute_clear | Shell_execute_message | Shell_execute_memory
  | Shell_execute_ata_read | Shell_execute_ata_write | Shell_execute_interrupt

record shell_command =
  cmd_name :: u32
  cmd_call :: shell_fn

record shell =
  sh_tty :: u32
  sh_in_stream :: u32
  sh_out_stream :: u32
  sh_err_stream :: u32
  sh_commands_list :: u32

definition SHELL_STRUCT_SIZE :: u32 where
  "SHELL_STRUCT_SIZE = 20"

definition SHELL_COMMAND_SIZE :: u32 where
  "SHELL_COMMAND_SIZE = 8"

text \<open>
  The terminals with the registry and the heap, the shells and commands by address, the ring of the log, the drives, the
  listeners of the interrupts, and the static pointer of \<^verbatim>\<open>strtok\<close>.
\<close>

record 'd shell_state =
  ss_tty :: "'d tty_state"
  ss_shells :: "u32 \<rightharpoonup> shell"
  ss_commands :: "u32 \<rightharpoonup> shell_command"
  ss_log :: circular_buffer
  ss_drives :: "ata_device list"
  ss_listeners :: "'d listener option list"
  ss_strtok :: u32

text \<open>
  What does not change: the ports, the conversion of a \<^verbatim>\<open>double\<close>, the addresses of local variables and of the arguments
  on the stack, the literals, and the registers that an interrupt saves.
\<close>

record 'd shell_env =
  se_io :: "'d ports"
  se_ftoa :: "mem \<Rightarrow> u32 \<Rightarrow> u32 \<Rightarrow> u32 \<Rightarrow> mem \<times> u32"
  se_frame :: tty_frame
  se_args :: u32
  se_type :: u32
  se_literal :: "string \<Rightarrow> u32"
  se_cpu :: isr_cpu_state

abbreviation ss_mem :: "'d shell_state \<Rightarrow> mem" where
  "ss_mem s \<equiv> ts_mem (ss_tty s)"

abbreviation ss_heap :: "'d shell_state \<Rightarrow> kheap" where
  "ss_heap s \<equiv> reg_heap (ts_registry (ss_tty s))"

abbreviation ss_lists :: "'d shell_state \<Rightarrow> lstore" where
  "ss_lists s \<equiv> reg_lists (ts_registry (ss_tty s))"

definition ss_set_tty :: "'d tty_state \<Rightarrow> 'd shell_state \<Rightarrow> 'd shell_state" where
  "ss_set_tty t s = s\<lparr>ss_tty := t\<rparr>"

definition ss_set_heap :: "kheap \<Rightarrow> 'd shell_state \<Rightarrow> 'd shell_state" where
  "ss_set_heap h s = ss_set_tty (ts_set_heap h (ss_tty s)) s"

definition ss_set_mem :: "mem \<Rightarrow> 'd shell_state \<Rightarrow> 'd shell_state" where
  "ss_set_mem m s = ss_set_tty (ts_set_mem m (ss_tty s)) s"

definition ss_set_lists :: "lstore \<Rightarrow> 'd shell_state \<Rightarrow> 'd shell_state" where
  "ss_set_lists l s = ss_set_tty ((ss_tty s)\<lparr>ts_registry := (ts_registry (ss_tty s))\<lparr>reg_lists := l\<rparr>\<rparr>) s"

text \<open>A loop of the string routines that does not end does not return here either.\<close>

definition ends :: "'a option \<Rightarrow> 'a kres" where
  "ends r = map_option Inr r"

text \<open>\<^verbatim>\<open>stream_puts\<close> of a literal, and \<^verbatim>\<open>stream_printf\<close> with the arguments pushed on the stack.\<close>

definition shell_puts :: "'d shell_env \<Rightarrow> u32 \<Rightarrow> u32 \<Rightarrow> 'd shell_state \<Rightarrow> 'd shell_state kres" where
  "shell_puts env stream str s =
     kbind (stream_puts (se_io env) (se_frame env) stream str (ss_tty s)) (\<lambda>t. kret (ss_set_tty t s))"

definition shell_printf :: "'d shell_env \<Rightarrow> u32 \<Rightarrow> string \<Rightarrow> u32 list \<Rightarrow> 'd shell_state \<Rightarrow> 'd shell_state kres" where
  "shell_printf env stream format ws s =
     kbind (stream_printf (se_io env) (se_ftoa env) (se_frame env) stream (se_literal env format) (se_args env)
       (ts_set_mem (push_args (ss_mem s) (se_args env) ws) (ss_tty s))) (\<lambda>(_, t). kret (ss_set_tty t s))"


section \<open>The commands\<close>

partial_function (option) shell_help_loop :: "'d shell_env \<Rightarrow> u32 \<Rightarrow> u32 \<Rightarrow> u32 \<Rightarrow> 'd shell_state \<Rightarrow> 'd shell_state kres" where
  "shell_help_loop env sp node i s =
     (if node = 0 then kret s
      else kbind (deref (lnodes (ss_lists s)) node) (\<lambda>n.
        kbind (deref (ss_commands s) (ln_data n)) (\<lambda>c.
        kbind (deref (ss_shells s) sp) (\<lambda>sh.
        kbind (shell_printf env (sh_out_stream sh) (line ''[%d] %s'') [i + 1, cmd_name c] s) (\<lambda>s1.
        kbind (deref (lnodes (ss_lists s1)) node) (\<lambda>n1. shell_help_loop env sp (ln_next n1) (i + 1) s1))))))"

definition shell_execute_help :: "'d shell_env \<Rightarrow> u32 \<Rightarrow> u32 \<Rightarrow> u32 \<Rightarrow> 'd shell_state \<Rightarrow> (int \<times> 'd shell_state) kres" where
  "shell_execute_help env sp argc argv s =
     kbind (deref (ss_shells s) sp) (\<lambda>sh.
     kbind (deref (llists (ss_lists s)) (sh_commands_list sh)) (\<lambda>l.
     kbind (shell_help_loop env sp (ll_head l) 0 s) (\<lambda>s1. kret (0, s1))))"

definition shell_execute_clear :: "'d shell_env \<Rightarrow> u32 \<Rightarrow> u32 \<Rightarrow> u32 \<Rightarrow> 'd shell_state \<Rightarrow> (int \<times> 'd shell_state) kres" where
  "shell_execute_clear env sp argc argv s =
     kbind (deref (ss_shells s) sp) (\<lambda>sh.
     kbind (deref (ts_ttys (ss_tty s)) (sh_tty sh)) (\<lambda>t.
     kbind (deref (driver_ptr (ts_registry (ss_tty s))) (tty_video t)) (\<lambda>driver.
     kbind (deref (video_drivers (ts_registry (ss_tty s))) driver) (\<lambda>v.
     if tm_clean_screen v \<noteq> Vga_clean_screen then kfault
     else kbind (vga_clean_screen (se_io env) (ts_screen (ss_tty s))) (\<lambda>sc.
       kret (0, ss_set_tty (ts_set_screen sc (ss_tty s)) s))))))"

text \<open>The four tests of the level, one after another.\<close>

definition shell_put_level :: "'d shell_env \<Rightarrow> u32 \<Rightarrow> u32 \<Rightarrow> 'd shell_state \<Rightarrow> 'd shell_state kres" where
  "shell_put_level env stream level s =
     (let put = (\<lambda>lvl name s. if level = lvl then shell_puts env stream (se_literal env name) s else kret s)
      in kbind (put KMESSAGE_LEVEL_PANIC ''DEBUG'' s) (\<lambda>s1.
         kbind (put KMESSAGE_LEVEL_INFO ''INFO'' s1) (\<lambda>s2.
         kbind (put KMESSAGE_LEVEL_WARN ''WARN'' s2) (\<lambda>s3.
           put KMESSAGE_LEVEL_ERROR ''ERROR'' s3))))"

text \<open>One entry of the log: its level in four bytes, and the text behind it.\<close>

definition shell_put_entry :: "'d shell_env \<Rightarrow> u32 \<Rightarrow> u32 \<Rightarrow> 'd shell_state \<Rightarrow> 'd shell_state kres" where
  "shell_put_entry env stream element s =
     kbind (shell_puts env stream (se_literal env ''['') s) (\<lambda>s1.
     kbind (shell_put_level env stream (load32 (ss_mem s1) element) s1) (\<lambda>s2.
     kbind (shell_puts env stream (se_literal env ''] '') s2) (\<lambda>s3.
     kbind (shell_puts env stream (element + 4) s3) (\<lambda>s4.
       shell_puts env stream (se_literal env (line [])) s4))))"

partial_function (option) shell_message_loop :: "'d shell_env \<Rightarrow> u32 \<Rightarrow> u32 \<Rightarrow> u32 \<Rightarrow> 'd shell_state \<Rightarrow> 'd shell_state kres" where
  "shell_message_loop env sp i element s =
     (if cb_size (ss_log s) \<le> i then kret s
      else kbind (deref (ss_shells s) sp) (\<lambda>sh.
        kbind (shell_put_entry env (sh_out_stream sh) element s) (\<lambda>s1.
        kbind (circular_buffer_get (ss_log s1) (i + 1)) (\<lambda>next. shell_message_loop env sp (i + 1) next s1))))"

definition shell_execute_message :: "'d shell_env \<Rightarrow> u32 \<Rightarrow> u32 \<Rightarrow> u32 \<Rightarrow> 'd shell_state \<Rightarrow> (int \<times> 'd shell_state) kres" where
  "shell_execute_message env sp argc argv s =
     kbind (circular_buffer_get (kmessage_get_log (ss_log s)) 0) (\<lambda>element.
     kbind (shell_message_loop env sp 0 element s) (\<lambda>s1. kret (0, s1)))"

text \<open>The walk over the blocks of the heap; the result is the sum of their sizes.\<close>

partial_function (option) shell_memory_loop ::
  "'d shell_env \<Rightarrow> u32 \<Rightarrow> u32 \<Rightarrow> u32 \<Rightarrow> u32 \<Rightarrow> 'd shell_state \<Rightarrow> (u32 \<times> 'd shell_state) kres" where
  "shell_memory_loop env sp block i allmemory s =
     (if block = 0 then kret (allmemory, s)
      else kbind (deref (heads (ss_heap s)) block) (\<lambda>b.
        kbind (deref (ss_shells s) sp) (\<lambda>sh.
        kbind (shell_printf env (sh_out_stream sh) (line ''[%d] s=%d, f=%d.'') [i, kb_size b, if kb_free b then 1 else 0] s) (\<lambda>s1.
        kbind (deref (heads (ss_heap s1)) block) (\<lambda>b1.
          shell_memory_loop env sp (kb_next b1) (i + 1) (allmemory + (kb_size b1 + HEAD_SIZE)) s1)))))"

definition shell_execute_memory :: "'d shell_env \<Rightarrow> u32 \<Rightarrow> u32 \<Rightarrow> u32 \<Rightarrow> 'd shell_state \<Rightarrow> (int \<times> 'd shell_state) kres" where
  "shell_execute_memory env sp argc argv s =
     (let heap_enabled = kheap_is_enabled (ss_heap s) in
      kbind (deref (ss_shells s) sp) (\<lambda>sh.
      kbind (shell_printf env (sh_out_stream sh) (line ''heap_enabled: %s'')
        [se_literal env (if heap_enabled then ''True'' else ''False'')] s) (\<lambda>s1.
      kbind (if heap_enabled then shell_memory_loop env sp (kheap_get_heap_head (ss_heap s1)) 0 0 s1 else kret (0, s1)) (\<lambda>(allmemory, s2).
      kbind (shell_printf env (sh_out_stream sh) (line ''tot = %x.'') [allmemory] s2) (\<lambda>s3. kret (0, s3))))))"

text \<open>A call of \<^verbatim>\<open>read\<close> or \<^verbatim>\<open>write\<close> through a storage driver.\<close>

fun shell_storage_read ::
  "'d ports \<Rightarrow> ata_device list \<Rightarrow> driver_fn \<Rightarrow> u32 \<Rightarrow> u32 \<Rightarrow> u32 \<Rightarrow> kheap \<Rightarrow> 'd \<Rightarrow> (u32 \<times> kheap \<times> 'd) kres" where
  "shell_storage_read io drives (Ata_read_drive i) address data n h d =
     (if i = 0 then ata_read_primary_master io drives address data n h d
      else if i = 1 then ata_read_primary_slave io drives address data n h d
      else if i = 2 then ata_read_secondary_master io drives address data n h d
      else ata_read_secondary_slave io drives address data n h d)"
| "shell_storage_read io drives _ address data n h d = kfault"

fun shell_storage_write ::
  "'d ports \<Rightarrow> ata_device list \<Rightarrow> driver_fn \<Rightarrow> u32 \<Rightarrow> u32 \<Rightarrow> u32 \<Rightarrow> kheap \<Rightarrow> 'd \<Rightarrow> (u32 \<times> kheap \<times> 'd) kres" where
  "shell_storage_write io drives (Ata_write_drive i) address data n h d =
     (if i = 0 then ata_write_primary_master io drives address data n h d
      else if i = 1 then ata_write_primary_slave io drives address data n h d
      else if i = 2 then ata_write_secondary_master io drives address data n h d
      else ata_write_secondary_slave io drives address data n h d)"
| "shell_storage_write io drives _ address data n h d = kfault"

definition shell_storage_driver :: "'d shell_env \<Rightarrow> 'd shell_state \<Rightarrow> storage_driver kres" where
  "shell_storage_driver env s =
     (let r = ts_registry (ss_tty s) in
      kbind (device_find_by_type r (se_type env) DEVICE_TYPE_STORAGE) (\<lambda>device.
      kbind (deref (driver_ptr r) device) (\<lambda>driver. deref (storage_drivers r) driver)))"

definition ss_set_storage :: "kheap \<Rightarrow> 'd \<Rightarrow> 'd shell_state \<Rightarrow> 'd shell_state" where
  "ss_set_storage h d s = ss_set_tty ((ts_set_heap h (ss_tty s))\<lparr>ts_dev := d\<rparr>) s"

definition shell_execute_ata_read :: "'d shell_env \<Rightarrow> u32 \<Rightarrow> u32 \<Rightarrow> u32 \<Rightarrow> 'd shell_state \<Rightarrow> (int \<times> 'd shell_state) kres" where
  "shell_execute_ata_read env sp argc argv s =
     (if argc = 3 then
        kbind (ends (atoi (ss_mem s) (load32 (ss_mem s) (argv + 4)))) (\<lambda>addr.
        kbind (ends (atoi (ss_mem s) (load32 (ss_mem s) (argv + 8)))) (\<lambda>read_size.
        kbind (kmalloc (ss_heap s) (read_size + 1)) (\<lambda>(data, h).
        let s1 = ss_set_heap h s in
        kbind (shell_storage_driver env s1) (\<lambda>driver.
        kbind (shell_storage_read (se_io env) (ss_drives s1) (sd_read driver) addr data read_size h (ts_dev (ss_tty s1))) (\<lambda>(_, h1, d).
        if data = 0 then kfault else
        let s2 = ss_set_storage h1 d s1; s3 = ss_set_mem ((ss_mem s2)(data + read_size := 0)) s2 in
        kbind (deref (ss_shells s3) sp) (\<lambda>sh.
        kbind (shell_puts env (sh_out_stream sh) (se_literal env ''read: '') s3) (\<lambda>s4.
        kbind (shell_puts env (sh_out_stream sh) data s4) (\<lambda>s5.
        kbind (shell_puts env (sh_out_stream sh) (se_literal env (line [])) s5) (\<lambda>s6.
        kbind (kfree (ss_heap s6) data) (\<lambda>h2. kret (0, ss_set_heap h2 s6)))))))))))
      else kret (- 1, s))"

definition shell_execute_ata_write :: "'d shell_env \<Rightarrow> u32 \<Rightarrow> u32 \<Rightarrow> u32 \<Rightarrow> 'd shell_state \<Rightarrow> (int \<times> 'd shell_state) kres" where
  "shell_execute_ata_write env sp argc argv s =
     (if argc = 3 then
        kbind (ends (atoi (ss_mem s) (load32 (ss_mem s) (argv + 4)))) (\<lambda>addr.
        let data = load32 (ss_mem s) (argv + 8); write_size = strlen (ss_mem s) data in
        kbind (shell_storage_driver env s) (\<lambda>driver.
        kbind (shell_storage_write (se_io env) (ss_drives s) (sd_write driver) addr data write_size (ss_heap s) (ts_dev (ss_tty s))) (\<lambda>(_, h, d).
          kret (0, ss_set_storage h d s))))
      else kret (- 1, s))"

text \<open>The software interrupt runs the second stage with the interrupted registers and its own number.\<close>

definition shell_raise :: "'d shell_env \<Rightarrow> int \<Rightarrow> 'd shell_state \<Rightarrow> 'd shell_state kres" where
  "shell_raise env i s =
     (case isr_interrupt i of None \<Rightarrow> kret s
      | Some n \<Rightarrow>
          kbind (isr_stage2 (se_io env) (ss_listeners s) ((se_cpu env)\<lparr>st_interrupt_code := of_nat n\<rparr>) (ts_dev (ss_tty s))) (\<lambda>(_, d).
            kret (ss_set_tty ((ss_tty s)\<lparr>ts_dev := d\<rparr>) s)))"

definition shell_execute_interrupt :: "'d shell_env \<Rightarrow> u32 \<Rightarrow> u32 \<Rightarrow> u32 \<Rightarrow> 'd shell_state \<Rightarrow> (int \<times> 'd shell_state) kres" where
  "shell_execute_interrupt env sp argc argv s =
     (if argc = 2 then
        kbind (ends (atoi (ss_mem s) (load32 (ss_mem s) (argv + 4)))) (\<lambda>i.
        kbind (shell_raise env (sint i) s) (\<lambda>s1. kret (0, s1)))
      else kret (- 1, s))"

fun shell_call :: "shell_fn \<Rightarrow> 'd shell_env \<Rightarrow> u32 \<Rightarrow> u32 \<Rightarrow> u32 \<Rightarrow> 'd shell_state \<Rightarrow> (int \<times> 'd shell_state) kres" where
  "shell_call Shell_execute_help = shell_execute_help"
| "shell_call Shell_execute_clear = shell_execute_clear"
| "shell_call Shell_execute_message = shell_execute_message"
| "shell_call Shell_execute_memory = shell_execute_memory"
| "shell_call Shell_execute_ata_read = shell_execute_ata_read"
| "shell_call Shell_execute_ata_write = shell_execute_ata_write"
| "shell_call Shell_execute_interrupt = shell_execute_interrupt"


section \<open>The shell\<close>

text \<open>The three streams; the fields are set one after another.\<close>

definition shell_init :: "u32 \<Rightarrow> u32 \<Rightarrow> 'd shell_state \<Rightarrow> 'd shell_state kres" where
  "shell_init sp tty s =
     kbind (modify (ss_shells s) sp (\<lambda>sh. sh\<lparr>sh_tty := tty\<rparr>)) (\<lambda>S0.
     kbind (tty_get_in_stream tty (ss_tty s)) (\<lambda>(i, t1).
     kbind (modify S0 sp (\<lambda>sh. sh\<lparr>sh_in_stream := i\<rparr>)) (\<lambda>S1.
     kbind (tty_get_out_stream tty t1) (\<lambda>(out, t2).
     kbind (modify S1 sp (\<lambda>sh. sh\<lparr>sh_out_stream := out\<rparr>)) (\<lambda>S2.
     kbind (tty_get_err_stream tty t2) (\<lambda>(err, t3).
     kbind (modify S2 sp (\<lambda>sh. sh\<lparr>sh_err_stream := err\<rparr>)) (\<lambda>S3.
       kret ((ss_set_tty t3 s)\<lparr>ss_shells := S3\<rparr>))))))))"

text \<open>The buffer for the name has as many bytes as the name has characters; \<^verbatim>\<open>strcpy\<close> stores one more.\<close>

definition shell_register_command :: "u32 \<Rightarrow> u32 \<Rightarrow> shell_fn \<Rightarrow> 'd shell_state \<Rightarrow> 'd shell_state kres" where
  "shell_register_command sp name call s =
     kbind (kmalloc (ss_heap s) SHELL_COMMAND_SIZE) (\<lambda>(c, h).
     if c = 0 then out_of_memory else
     kbind (kmalloc h (strlen (mem h) name)) (\<lambda>(buf, h1).
     if buf = 0 then out_of_memory else
     kbind (ends (strcpy (mem h1) buf name)) (\<lambda>m.
     let s1 = (ss_set_heap (h1\<lparr>mem := m\<rparr>) s)\<lparr>ss_commands := (ss_commands s)(c \<mapsto> \<lparr>cmd_name = buf, cmd_call = call\<rparr>)\<rparr> in
     kbind (linked_list_node_create c kmalloc (ss_lists s1) (ss_heap s1)) (\<lambda>(node, L, h2).
     if node = 0 then out_of_memory else
     kbind (deref (ss_shells s1) sp) (\<lambda>sh.
     kbind (linked_list_append L (sh_commands_list sh) node) (\<lambda>L1.
       kret (ss_set_lists L1 (ss_set_heap h2 s1))))))))"

fun shell_register_all :: "u32 \<Rightarrow> (u32 \<times> shell_fn) list \<Rightarrow> 'd shell_state \<Rightarrow> 'd shell_state kres" where
  "shell_register_all sp [] s = kret s"
| "shell_register_all sp ((name, call) # rest) s = kbind (shell_register_command sp name call s) (shell_register_all sp rest)"

text \<open>The commands, in the order in which they are registered.\<close>

definition shell_builtin :: "'d shell_env \<Rightarrow> (u32 \<times> shell_fn) list" where
  "shell_builtin env = map (\<lambda>(name, call). (se_literal env name, call))
     [(''help'', Shell_execute_help), (''clear'', Shell_execute_clear), (''message'', Shell_execute_message),
      (''memory'', Shell_execute_memory), (''ataread'', Shell_execute_ata_read), (''atawrite'', Shell_execute_ata_write),
      (''int'', Shell_execute_interrupt)]"

text \<open>A new shell; the fields that \<^verbatim>\<open>shell_init\<close> sets are arbitrary before it.\<close>

definition shell_create :: "'d shell_env \<Rightarrow> u32 \<Rightarrow> 'd shell_state \<Rightarrow> (u32 \<times> 'd shell_state) kres" where
  "shell_create env tty s =
     kbind (kmalloc (ss_heap s) SHELL_STRUCT_SIZE) (\<lambda>(sp, h).
     if sp = 0 then out_of_memory else
     kbind (linked_list_create kmalloc (ss_lists s) h) (\<lambda>(list, L, h1).
     if list = 0 then out_of_memory else
     let s1 = (ss_set_lists L (ss_set_heap h1 s))\<lparr>ss_shells := (ss_shells s)(sp \<mapsto>
       \<lparr>sh_tty = 0, sh_in_stream = 0, sh_out_stream = 0, sh_err_stream = 0, sh_commands_list = list\<rparr>)\<rparr> in
     kbind (shell_init sp tty s1) (\<lambda>s2.
     kbind (shell_register_all sp (shell_builtin env) s2) (\<lambda>s3. kret (sp, s3)))))"

definition shell_destroy :: "u32 \<Rightarrow> 'd shell_state \<Rightarrow> 'd shell_state kres" where
  "shell_destroy sp s =
     kbind (deref (ss_shells s) sp) (\<lambda>sh.
     kbind (linked_list_destroy (ss_lists s) (sh_commands_list sh) True kfree (ss_heap s)) (\<lambda>h.
     kbind (kfree h sp) (\<lambda>h1. kret (ss_set_heap h1 s))))"

section \<open>Executing a line\<close>

function shell_count_spaces :: "mem \<Rightarrow> u32 \<Rightarrow> u32 \<Rightarrow> u32 \<Rightarrow> u32 \<Rightarrow> u32" where
  "shell_count_spaces m inputs len i num_ws =
     (if i < len then shell_count_spaces m inputs len (i + 1) (if m (inputs + i) = ch CHR '' '' then num_ws + 1 else num_ws)
      else num_ws)"
  by pat_completeness auto
termination
  by (relation "measure (\<lambda>(m, inputs, len, i, n). unat len - unat i)") (auto simp: unat_Suc_less word_less_unat)

declare shell_count_spaces.simps [simp del]

text \<open>The loop that collects the tokens: the result is their number.\<close>

partial_function (option) shell_tokens ::
  "'d shell_env \<Rightarrow> u32 \<Rightarrow> u32 \<Rightarrow> u32 \<Rightarrow> 'd shell_state \<Rightarrow> (u32 \<times> 'd shell_state) kres" where
  "shell_tokens env argv argc token s =
     (if argv = 0 then kfault
      else
        let s1 = ss_set_mem (store32 (ss_mem s) (argv + argc * 4) token) s in
        kbind (ends (strtok (ss_mem s1) (ss_strtok s1) 0 (se_literal env '' ''))) (\<lambda>r.
        let s2 = (ss_set_mem (snd (snd r)) s1)\<lparr>ss_strtok := fst (snd r)\<rparr> in
        if fst r \<noteq> 0 then shell_tokens env argv (argc + 1) (fst r) s2 else kret (argc + 1, s2)))"

text \<open>The walk over the list of commands: every command with that name is called.\<close>

partial_function (option) shell_dispatch ::
  "'d shell_env \<Rightarrow> u32 \<Rightarrow> u32 \<Rightarrow> u32 \<Rightarrow> u32 \<Rightarrow> u32 \<Rightarrow> bool \<Rightarrow> 'd shell_state \<Rightarrow> (bool \<times> 'd shell_state) kres" where
  "shell_dispatch env sp name argc argv node unknown s =
     (if node = 0 then kret (unknown, s)
      else kbind (deref (lnodes (ss_lists s)) node) (\<lambda>n.
        kbind (deref (ss_commands s) (ln_data n)) (\<lambda>c.
        kbind (ends (strcmp (ss_mem s) name (cmd_name c))) (\<lambda>r.
        kbind (if r \<noteq> 0 then kret (unknown, s)
               else kbind (shell_call (cmd_call c) env sp argc argv s) (\<lambda>(errno, s1).
                 kbind (deref (ss_shells s1) sp) (\<lambda>sh.
                 kbind (if errno \<noteq> 0 then shell_printf env (sh_out_stream sh) (line ''Fail to execute: %s'') [name] s1 else kret s1) (\<lambda>s2.
                   kret (False, s2))))) (\<lambda>q.
        kbind (deref (lnodes (ss_lists (snd q))) node) (\<lambda>n1.
          shell_dispatch env sp name argc argv (ln_next n1) (fst q) (snd q)))))))"

definition shell_execute_command :: "'d shell_env \<Rightarrow> u32 \<Rightarrow> u32 \<Rightarrow> 'd shell_state \<Rightarrow> 'd shell_state kres" where
  "shell_execute_command env sp inputs s =
     (let len = strlen (ss_mem s) inputs;
          num_ws = shell_count_spaces (ss_mem s) inputs len 0 0
      in kbind (kmalloc (ss_heap s) ((num_ws + 1) * 4)) (\<lambda>(argv, h).
         let s1 = ss_set_heap h s in
         kbind (ends (strtok (ss_mem s1) (ss_strtok s1) inputs (se_literal env '' ''))) (\<lambda>(token, save, m).
         let s2 = (ss_set_mem m s1)\<lparr>ss_strtok := save\<rparr> in
         if token = 0 then kret s2 else
         kbind (shell_tokens env argv 0 token s2) (\<lambda>(argc, s3).
         kbind (deref (ss_shells s3) sp) (\<lambda>sh.
         kbind (deref (llists (ss_lists s3)) (sh_commands_list sh)) (\<lambda>l.
         kbind (shell_dispatch env sp (load32 (ss_mem s3) argv) argc argv (ll_head l) True s3) (\<lambda>(unknown, s4).
         kbind (kfree (ss_heap s4) argv) (\<lambda>h1.
         let s5 = ss_set_heap h1 s4 in
         if unknown then kbind (deref (ss_shells s5) sp) (\<lambda>sh. shell_puts env (sh_out_stream sh) (se_literal env (line ''Unknown command'')) s5)
         else kret s5))))))))"

text \<open>One round of the shell: the prompt, a line, its execution.  \<open>keys n\<close> are the key events before the \<open>n\<close>-th poll.\<close>

definition shell_round :: "'d shell_env \<Rightarrow> (nat \<Rightarrow> keyboard_event list) \<Rightarrow> u32 \<Rightarrow> 'd shell_state \<Rightarrow> 'd shell_state kres" where
  "shell_round env keys sp s =
     kbind (deref (ss_shells s) sp) (\<lambda>sh.
     kbind (shell_puts env (sh_out_stream sh) (se_literal env ''> '') s) (\<lambda>s1.
     kbind (stream_gets (se_io env) (se_frame env) keys (sh_in_stream sh) (ss_tty s1)) (\<lambda>(inputs, t).
     kbind (shell_execute_command env sp inputs (ss_set_tty t s1)) (\<lambda>s2.
     kbind (kfree (ss_heap s2) inputs) (\<lambda>h. kret (ss_set_heap h s2))))))"

text \<open>The loop has no exit; \<open>input k\<close> is the input of its \<open>k\<close>-th round.\<close>

partial_function (option) shell_execute_from ::
  "'d shell_env \<Rightarrow> (nat \<Rightarrow> nat \<Rightarrow> keyboard_event list) \<Rightarrow> nat \<Rightarrow> u32 \<Rightarrow> 'd shell_state \<Rightarrow> 'd shell_state kres" where
  "shell_execute_from env input k sp s = kbind (shell_round env (input k) sp s) (\<lambda>s1. shell_execute_from env input (k + 1) sp s1)"

definition shell_execute :: "'d shell_env \<Rightarrow> (nat \<Rightarrow> nat \<Rightarrow> keyboard_event list) \<Rightarrow> u32 \<Rightarrow> 'd shell_state \<Rightarrow> 'd shell_state kres" where
  "shell_execute env input sp s = shell_execute_from env input 0 sp s"

declare shell_help_loop.simps [code] shell_message_loop.simps [code] shell_memory_loop.simps [code] shell_tokens.simps [code]
  shell_dispatch.simps [code] shell_execute_from.simps [code]

end
