(* ===== verification/Tty_Line.thy ===== *)
theory Tty_Line
  imports Tty_Input
begin

text \<open>
  \<^verbatim>\<open>tty_gets\<close> of \<^verbatim>\<open>kernel/src/io/tty.c\<close>: the characters that are typed are collected in a payload that grows, until the return
  key ends the line.
\<close>

section \<open>The buffer that grows\<close>

text \<open>The line and its payload, which is none of the rings.\<close>

definition line_held :: "tty \<Rightarrow> 'd tty_state \<Rightarrow> (nat \<times> nat) set \<Rightarrow> line_buffer \<Rightarrow> nat \<Rightarrow> nat \<Rightarrow> u8 list \<Rightarrow> bool" where
  "line_held t s L b p k cs \<longleftrightarrow> (p, k) \<in> L \<and> p \<noteq> unat (cb_buffer (tty_input t)) \<and> p \<noteq> unat (cb_buffer (tty_output t)) \<and>
     line_at (ts_mem s) b p k cs"

lemma stepped_mono: "stepped f L ds t s t' s' \<Longrightarrow> L' \<subseteq> L \<Longrightarrow> stepped f L' ds t s t' s'"
  using lasting_mono [of f t s L' _ L] by (auto simp: stepped_def)

lemma line_lasting: "line_held t s L b p k cs \<Longrightarrow> in_range x (adr p) k \<Longrightarrow> lasting f t s L x"
  by (auto simp: line_held_def lasting_def)

lemma line_held_stepped:
  assumes "line_held t s L b p k cs" and "stepped f L ds t s t' s'" and "heap_room h L B"
  shows "line_held t' s' L b p k cs"
proof -
  have l: "(p, k) \<in> L" "p \<noteq> unat (cb_buffer (tty_input t))" "p \<noteq> unat (cb_buffer (tty_output t))" "line_at (ts_mem s) b p k cs"
    using assms(1) by (simp_all add: line_held_def)
  have "k < 4294967296"
    using heap_alloc.owned_bounds [OF room_owns [OF assms(3)] l(1)] by simp
  then have "ts_mem s' (adr p + of_nat i) = ts_mem s (adr p + of_nat i)" if "i < k" for i
  proof -
    have "in_range (adr p + of_nat i) (adr p) k"
      using that \<open>k < 4294967296\<close> by simp
    then show ?thesis
      using assms(2) line_lasting [OF assms(1)] unfolding stepped_def by blast
  qed
  moreover have "length cs \<le> k"
    using l(4) by (simp add: line_at_def)
  ultimately show ?thesis
    using assms(2) l calmD(7,8) [of t s t' s'] by (simp add: line_held_def stepped_def echoed_def line_at_def)
qed

lemma line_store:
  assumes "line_at m b p k cs" and "length cs + 1 < unat (lb_size b)" and "k < 4294967296" and "m' = m(lb_buf b + lb_idx b := c)"
  shows "line_at m' (b\<lparr>lb_idx := lb_idx b + 1\<rparr>) p k (cs @ [c])" and "\<not> in_range x (adr p) k \<Longrightarrow> m' x = m x"
proof -
  have b: "lb_buf b = adr p" "unat (lb_size b) \<le> k" "unat (lb_idx b) = length cs" "\<And>i. i < length cs \<Longrightarrow> m (adr p + of_nat i) = cs ! i"
    using assms(1) by (simp_all add: line_at_def)
  have idx: "lb_idx b = of_nat (length cs)"
    by (metis b(3) of_nat_unat_u32)
  have "unat (lb_idx b + 1) = length cs + 1"
    using b(2,3) assms(2,3) by (simp add: unat_add_u32)
  moreover have "m' (adr p + of_nat i) = (cs @ [c]) ! i" if "i < length (cs @ [c])" for i
  proof (cases "i = length cs")
    case True
    then show ?thesis
      using assms(4) b(1) idx by simp
  next
    case False
    have "(of_nat i :: u32) \<noteq> of_nat (length cs)"
      using False that assms(2,3) b(2) by (subst of_nat_u32_inj) simp_all
    then show ?thesis
      using False that assms(4) b(1,4) idx by (simp add: nth_append)
  qed
  ultimately show "line_at m' (b\<lparr>lb_idx := lb_idx b + 1\<rparr>) p k (cs @ [c])"
    using b assms(2) by (simp add: line_at_def)
  have "in_range (adr p + of_nat (length cs)) (adr p) k"
    using assms(2,3) b(2) by simp
  then show "\<not> in_range x (adr p) k \<Longrightarrow> m' x = m x"
    using assms(4) b(1) idx by auto
qed

lemma lasting_apart:
  assumes "heap_room h L B" and "(p, k) \<in> L" and "kheap_base h = kheap_base (ts_heap s)" and "lasting f t s (L - {(p, k)}) x"
  shows "\<not> in_range x (adr p) k"
proof -
  have "off_heap h x \<or> (\<exists>q j. (q, j) \<in> L \<and> (q, j) \<noteq> (p, k) \<and> in_range x (adr q) j)"
    using assms(3,4) by (auto simp: lasting_def off_heap_def)
  then show ?thesis
    using payload_byte [OF assms(1,2)] payloads_apart [OF assms(1) _ assms(2)] by blast
qed

lemma gets_append_ok:
  assumes rd: "reading f tty ki ko L (B + 2 * unat (lb_size b) + 20) t s q" and held: "line_held t s L b p k cs" and B: "0 < B"
    and ok: "request_ok (ts_heap s) (2 * unat (lb_size b))"
  shows "\<exists>b' s' p' k' L'. tty_gets_append b c s = kret (b', s') \<and> reading f tty ki ko L' B t s' q \<and>
    line_held t s' L' b' p' k' (cs @ [c]) \<and> L' - {(p', k')} = L - {(p, k)} \<and> stepped f (L - {(p, k)}) [] t s t s' \<and>
    unat (lb_size b') \<le> max (unat (lb_size b)) (2 * (length cs + 1))"
proof -
  have r: "heap_room (ts_heap s) L (B + 2 * unat (lb_size b) + 20)" "ring_held L (tty_input t) ki" "ring_held L (tty_output t) ko"
    using rd by (auto simp: reading_def input_places_def)
  have l: "(p, k) \<in> L" "p \<noteq> unat (cb_buffer (tty_input t))" "p \<noteq> unat (cb_buffer (tty_output t))" "line_at (ts_mem s) b p k cs"
    using held by (simp_all add: line_held_def)
  have la: "lb_buf b = adr p" "unat (lb_size b) \<le> k" "unat (lb_idx b) = length cs" "length cs < unat (lb_size b)"
    "\<And>i. i < length cs \<Longrightarrow> ts_mem s (adr p + of_nat i) = cs ! i"
    using l(4) by (simp_all add: line_at_def)
  have k: "k < 4294967296"
    using heap_alloc.owned_bounds [OF room_owns [OF r(1)] l(1)] by simp
  have full: "lb_idx b = lb_size b - 1 \<longleftrightarrow> length cs + 1 = unat (lb_size b)"
  proof -
    have "unat (lb_size b - 1) = unat (lb_size b) - 1"
      using la(4) by (simp add: unat_sub_u32)
    then show ?thesis
      using la(3,4) by (auto simp: word_unat_eq_iff)
  qed
  have store: "\<exists>s' L'. reading f tty ki ko L' B t s' q \<and> line_held t s' L' (b1\<lparr>lb_idx := lb_idx b1 + 1\<rparr>) p1 k1 (cs @ [c]) \<and>
      L' - {(p1, k1)} = L - {(p, k)} \<and> stepped f (L - {(p, k)}) [] t s t s' \<and> s' = ts_set_mem ((mem h1)(lb_buf b1 + lb_idx b1 := c)) (ts_set_heap h1 s)"
    if h1: "heap_room h1 L1 B" "kheap_base h1 = kheap_base (ts_heap s)" "(p1, k1) \<in> L1" "L1 - {(p1, k1)} = L - {(p, k)}"
      "line_at (mem h1) b1 p1 k1 cs" "length cs + 1 < unat (lb_size b1)" "\<And>x. \<not> in_range x (adr p1) k1 \<Longrightarrow> mem h1 x = ts_mem s x"
      "(p1, k1) = (p, k) \<or> (p1, k1) \<notin> L" for h1 L1 b1 p1 k1
  proof -
    have rings: "(unat (cb_buffer (tty_input t)), ki) \<in> L1" "(unat (cb_buffer (tty_output t)), ko) \<in> L1"
      using r(2,3) l(2,3) h1(4) by (auto simp: ring_held_def)
    have p1: "p1 \<noteq> unat (cb_buffer (tty_input t))" "p1 \<noteq> unat (cb_buffer (tty_output t))"
      using same_payload [OF h1(1) _ rings(1)] same_payload [OF h1(1) _ rings(2)] h1(3) r(2,3) l(2,3) h1(8) by (auto simp: ring_held_def)
    have k1: "k1 < 4294967296"
      using heap_alloc.owned_bounds [OF room_owns [OF h1(1)] h1(3)] by simp
    let ?m = "(mem h1)(lb_buf b1 + lb_idx b1 := c)"
    let ?h = "h1\<lparr>mem := ?m\<rparr>"
    note st = line_store [OF h1(5,6) k1 refl, where c = c]
    have "reading f tty ki ko L1 B t (ts_set_heap ?h s) q \<and> echoed [] t s t (ts_set_heap ?h s)"
      by (rule reading_heap [OF rd room_mem [OF h1(1)] _ h1(3) p1(1) rings]) (use h1(2,7) st(2) in auto)
    moreover have "ts_mem (ts_set_heap ?h s) x = ts_mem s x" if "lasting f t s (L - {(p, k)}) x" for x
    proof -
      have "\<not> in_range x (adr p1) k1"
        using lasting_apart [OF h1(1,3,2)] that unfolding h1(4) by blast
      then show ?thesis
        using st(2) h1(7) by (simp add: ts_set_heap_def)
    qed
    moreover have "ts_set_mem ?m (ts_set_heap h1 s) = ts_set_heap ?h s"
      by (simp add: ts_set_mem_def ts_set_heap_def)
    moreover have "line_held t (ts_set_heap ?h s) L1 (b1\<lparr>lb_idx := lb_idx b1 + 1\<rparr>) p1 k1 (cs @ [c])"
      using st(1) h1(3) p1 by (simp add: line_held_def ts_set_heap_def)
    ultimately show ?thesis
      using h1(4) by (intro exI [of _ "ts_set_heap ?h s"] exI [of _ L1]) (simp add: stepped_def)
  qed
  show ?thesis
  proof (cases "length cs + 1 = unat (lb_size b)")
    case False
    then have "length cs + 1 < unat (lb_size b)"
      using la(4) by simp
    then obtain s' L' where s': "reading f tty ki ko L' B t s' q" "line_held t s' L' (b\<lparr>lb_idx := lb_idx b + 1\<rparr>) p k (cs @ [c])"
      "L' - {(p, k)} = L - {(p, k)}" "stepped f (L - {(p, k)}) [] t s t s'" "s' = ts_set_mem ((ts_mem s)(lb_buf b + lb_idx b := c)) (ts_set_heap (ts_heap s) s)"
      using store [of "ts_heap s" L p k b] room_less [OF r(1), of B] l by auto
    have "ts_set_heap (ts_heap s) s = s"
      by (simp add: ts_set_heap_def)
    then have "tty_gets_append b c s = kret (b\<lparr>lb_idx := lb_idx b + 1\<rparr>, s')"
      using full False s'(5) by (simp add: tty_gets_append_def)
    then show ?thesis
      using s' by (intro exI [of _ "b\<lparr>lb_idx := lb_idx b + 1\<rparr>"] exI [of _ s'] exI [of _ p] exI [of _ k] exI [of _ L']) simp
  next
    case True
    let ?n = "2 * unat (lb_size b)"
    obtain p1 k1 h1 where g: "krealloc (ts_heap s) (adr p) (of_nat ?n) = kret (adr p1, h1)" "?n \<le> k1"
      "heap_room h1 (insert (p1, k1) (L - {(p, k)})) B" "(p1, k1) = (p, k) \<or> (p1, k1) \<notin> L" "kheap_base h1 = kheap_base (ts_heap s)"
      "\<And>i. i < k \<Longrightarrow> mem h1 (adr p1 + of_nat i) = ts_mem s (adr p + of_nat i)"
      "\<And>x. \<not> in_range x (adr p1) k1 \<Longrightarrow> mem h1 x = ts_mem s x"
      using room_grow [OF r(1) l(1) B ok] by blast
    let ?b = "b\<lparr>lb_size := lb_size b * 2, lb_buf := adr p1\<rparr>"
    have n32: "?n < 4294967296"
      using ok by (simp add: request_ok_def)
    then have sz: "unat (lb_size ?b) = ?n" "(of_nat ?n :: u32) = lb_size b * 2"
      by (simp_all add: unat_mult_u32)
    have "line_at (mem h1) ?b p1 k1 cs"
      using la g(2,6) sz(1) by (simp add: line_at_def)
    moreover have "length cs + 1 < unat (lb_size ?b)"
      using True sz(1) by simp
    moreover have "insert (p1, k1) (L - {(p, k)}) - {(p1, k1)} = L - {(p, k)}"
      using g(4) by auto
    ultimately obtain s' L' where s': "reading f tty ki ko L' B t s' q" "line_held t s' L' (?b\<lparr>lb_idx := lb_idx ?b + 1\<rparr>) p1 k1 (cs @ [c])"
      "L' - {(p1, k1)} = L - {(p, k)}" "stepped f (L - {(p, k)}) [] t s t s'" "s' = ts_set_mem ((mem h1)(lb_buf ?b + lb_idx ?b := c)) (ts_set_heap h1 s)"
      using store [OF g(3,5), of p1 k1 ?b] g(4,7) by blast
    have "adr p1 \<noteq> 0"
      using heap_alloc.owned_nonzero [OF room_owns [OF g(3)], of p1 k1] by simp
    moreover have "krealloc (ts_heap s) (adr p) (lb_size b * 2) = kret (adr p1, h1)"
      using g(1) unfolding sz(2) .
    ultimately have "tty_gets_append b c s = kret (?b\<lparr>lb_idx := lb_idx ?b + 1\<rparr>, s')"
      using full True la(1) s'(5) by (simp add: tty_gets_append_def ts_set_heap_def)
    then show ?thesis
      using s'(1-4) sz(1) True by (intro exI [of _ "?b\<lparr>lb_idx := lb_idx ?b + 1\<rparr>"] exI [of _ s'] exI [of _ p1] exI [of _ k1] exI [of _ L']) simp
  qed
qed


section \<open>The loop\<close>

text \<open>A character that belongs to a line, and the keys that are still to come, from poll \<open>n\<close> to poll \<open>N\<close>.\<close>

definition line_char :: "u8 \<Rightarrow> bool" where
  "line_char c \<longleftrightarrow> isalnum c \<or> c = ASCII_SPACE"

definition coming :: "(nat \<Rightarrow> keyboard_event list) \<Rightarrow> nat \<Rightarrow> nat \<Rightarrow> u8 list" where
  "coming keys n N = concat (map (\<lambda>i. typed (keys i)) [n..<N])"

lemma coming_step:
  assumes "\<forall>i \<ge> N. keys i = []"
  shows "coming keys n N = typed (keys n) @ coming keys (n + 1) N"
  using assms by (cases "n < N") (auto simp: coming_def upt_conv_Cons not_less)

lemma line_char_values: "line_char c \<Longrightarrow> c \<noteq> 0 \<and> c \<noteq> - 1 \<and> c \<noteq> 13 \<and> c \<noteq> 8"
proof -
  have "\<not> line_char 0" "\<not> line_char 255" "\<not> line_char 13" "\<not> line_char 8"
    by code_simp+
  moreover have "(- 1 :: u8) = 255"
    by simp
  moreover assume "line_char c"
  ultimately show ?thesis
    by metis
qed

text \<open>What the characters before the end of the line need: the room that the growth of the buffer takes at most, and \<open>R\<close> bytes for
  what follows.\<close>

definition line_room :: "nat \<Rightarrow> nat \<Rightarrow> u8 list \<Rightarrow> nat" where
  "line_room M R cs = length cs * (4 * M + 24) + R"

lemma gets_loop_ok:
  assumes "reading f tty ki ko L (line_room M R (filter line_char xs)) t s q" and "line_held t s L b p k cs"
    and "q @ coming keys n N = xs @ 13 # rest" and "13 \<notin> set xs" and "8 \<notin> set xs" and "\<forall>i \<ge> N. keys i = []"
    and "length (q @ coming keys n N) \<le> unat (cb_capacity (tty_input t))"
    and "length cs + length (filter line_char xs) \<le> M" and "unat (lb_size b) \<le> 2 * (M + 1)"
    and "request_ok (ts_heap s) (4 * M + 4)" and "0 < R"
  shows "\<exists>t' s' b' p' k' L' q'. tty_gets_loop io f keys tty n b s = kret (b', s') \<and> reading f tty ki ko L' R t' s' q' \<and>
    line_held t' s' L' b' p' k' (cs @ filter line_char xs) \<and> L' - {(p', k')} = L - {(p, k)} \<and>
    stepped f (L - {(p, k)}) (filter line_char xs @ [10]) t s t' s' \<and> (\<exists>n'. q' @ coming keys n' N = rest)"
  using assms
proof (induction "(N - n) + length (q @ coming keys n N)" arbitrary: n q xs t s b p k cs L rule: less_induct)
  case less
  note rd = less.prems(1)
  let ?B = "line_room M R (filter line_char xs)"
  have all: "(q @ typed (keys n)) @ coming keys (n + 1) N = xs @ 13 # rest"
    using less.prems(3) unfolding coming_step [OF less.prems(6), of n] by simp
  have "length q + length (typed (keys n)) \<le> unat (cb_capacity (tty_input t))"
    using less.prems(7) unfolding coming_step [OF less.prems(6), of n] by simp
  from deliver_ok [OF rd this] obtain t0 s0 where d: "deliver_keys f (keys n) s = kret s0"
    "reading f tty ki ko L ?B t0 s0 (q @ typed (keys n))" "stepped f L [] t s t0 s0"
    by blast
  have room: "heap_room (ts_heap s) L ?B"
    using rd by (simp add: reading_def)
  have held0: "line_held t0 s0 L b p k cs"
    by (rule line_held_stepped [OF less.prems(2) d(3) room])
  have cap0: "cb_capacity (tty_input t0) = cb_capacity (tty_input t)" and base0: "request_ok (ts_heap s0) (4 * M + 4)"
    using d(3) less.prems(10) calmD(3,6) [of t s t0 s0] by (simp_all add: stepped_def echoed_def request_ok_def)
  have sub: "stepped f L ds u v u' v' \<Longrightarrow> stepped f (L - {(p, k)}) ds u v u' v'" for ds u v u' v'
    using stepped_mono [of f L ds u v u' v' "L - {(p, k)}"] by blast
  have cont: ?case
    if run: "tty_gets_loop io f keys tty n b s = tty_gets_loop io f keys tty (n + 1) b2 s2"
      and rd2: "reading f tty ki ko L2 (line_room M R (filter line_char ys)) t2 s2 q2" and held2: "line_held t2 s2 L2 b2 p2 k2 (cs @ ds)"
      and ys: "q2 @ coming keys (n + 1) N = ys @ 13 # rest" "set ys \<subseteq> set xs" "filter line_char xs = ds @ filter line_char ys"
      and st: "stepped f (L - {(p, k)}) ds t s t2 s2" and L2: "L2 - {(p2, k2)} = L - {(p, k)}" and sz: "unat (lb_size b2) \<le> 2 * (M + 1)"
      and less': "N - (n + 1) + length (q2 @ coming keys (n + 1) N) < N - n + length (q @ coming keys n N)"
      and len: "length (q2 @ coming keys (n + 1) N) \<le> length (q @ coming keys n N)"
    for b2 s2 t2 q2 ys ds L2 p2 k2
  proof -
    have e: "cb_capacity (tty_input t2) = cb_capacity (tty_input t)" "request_ok (ts_heap s2) (4 * M + 4)"
      using st less.prems(10) calmD(3,6) [of t s t2 s2] by (simp_all add: stepped_def echoed_def request_ok_def)
    have "length (cs @ ds) + length (filter line_char ys) \<le> M"
      using less.prems(8) ys(3) by simp
    from less.hyps [OF less' rd2 held2 ys(1) _ _ less.prems(6) _ this sz e(2) less.prems(11)] ys(2) less.prems(4,5,7) len e(1)
    obtain t' s' b' p' k' L' q' where "tty_gets_loop io f keys tty (n + 1) b2 s2 = kret (b', s')" "reading f tty ki ko L' R t' s' q'"
      "line_held t' s' L' b' p' k' ((cs @ ds) @ filter line_char ys)" "L' - {(p', k')} = L2 - {(p2, k2)}"
      "stepped f (L2 - {(p2, k2)}) (filter line_char ys @ [10]) t2 s2 t' s'" "\<exists>n'. q' @ coming keys n' N = rest"
      by fastforce
    then show ?thesis
      using run ys(3) L2 stepped_append [OF st] by (intro exI [of _ t'] exI [of _ s'] exI [of _ b'] exI [of _ p'] exI [of _ k'] exI [of _ L'] exI [of _ q']) simp
  qed
  show ?case
  proof (cases "q @ typed (keys n)")
    case Nil
    have "coming keys (n + 1) N \<noteq> []"
      using all Nil by auto
    then have "n < N"
      by (auto simp: coming_def split: if_splits)
    moreover have "tty_gets_loop io f keys tty n b s = tty_gets_loop io f keys tty (n + 1) b s0"
      using getchar_empty [OF d(2) [unfolded Nil]] d(1) by (subst tty_gets_loop.simps) simp
    ultimately show ?thesis
      using sub [OF d(3)] all less.prems(3,9) held0 d(2) Nil
      by (intro cont [of b s0 L xs t0 "[]" p k "[]"]) auto
  next
    case (Cons c q1)
    have total: "c # q1 @ coming keys (n + 1) N = xs @ 13 # rest"
      using all Cons by simp
    have shorter: "N - (n + 1) + length (q1 @ coming keys (n + 1) N) < N - n + length (q @ coming keys n N)"
      "length (q1 @ coming keys (n + 1) N) \<le> length (q @ coming keys n N)"
      using arg_cong [OF total, of length] less.prems(3) by simp_all
    obtain t1 s1 where g: "tty_getchar f tty s0 = kret (c, s1)" "reading f tty ki ko L ?B t1 s1 q1" "stepped f L [] t0 s0 t1 s1"
      using getchar_ok [OF d(2) [unfolded Cons]] by blast
    have st1: "stepped f L [] t s t1 s1"
      using stepped_append [OF d(3) g(3)] by simp
    have held1: "line_held t1 s1 L b p k cs"
      by (rule line_held_stepped [OF less.prems(2) st1 room])
    show ?thesis
    proof (cases xs)
      case Nil
      then have "c = 13"
        using total by simp
      obtain t2 s2 where e: "tty_putchar io f tty 10 s1 = kret s2" "reading f tty ki ko L ?B t2 s2 q1" "stepped f L [10] t1 s1 t2 s2"
        using putchar_step [OF g(2), of 10 io] by auto
      have "tty_gets_loop io f keys tty n b s = kret (b, s2)"
        using d(1) g(1) e(1) \<open>c = 13\<close> by (subst tty_gets_loop.simps) (simp add: ASCII_CTRL_CR_def)
      moreover have "line_held t2 s2 L b p k cs"
        using line_held_stepped [OF held1 e(3)] room by blast
      ultimately show ?thesis
        using e(2) sub [OF stepped_append [OF st1 e(3)]] Nil total
        by (intro exI [of _ t2] exI [of _ s2] exI [of _ b] exI [of _ p] exI [of _ k] exI [of _ L] exI [of _ q1]) (auto simp: line_room_def)
    next
      case (Cons x ys)
      have c: "c = x" "x \<noteq> 13" "x \<noteq> 8" and rest: "q1 @ coming keys (n + 1) N = ys @ 13 # rest"
        using total less.prems(4,5) Cons by auto
      show ?thesis
      proof (cases "line_char x")
        case False
        have "tty_gets_loop io f keys tty n b s = tty_gets_loop io f keys tty (n + 1) b s1"
          using d(1) g(1) c False by (subst tty_gets_loop.simps) (simp add: ASCII_CTRL_CR_def ASCII_CTRL_BS_def line_char_def)
        then show ?thesis
          using g(2) held1 rest sub [OF st1] less.prems(9) shorter Cons False
          by (intro cont [of b s1 L ys t1 q1 p k "[]"]) auto
      next
        case True
        let ?R = "line_room M R (filter line_char ys)"
        have budget: "?R + 2 * unat (lb_size b) + 20 \<le> ?B" "0 < ?R"
          using less.prems(9,11) Cons True by (simp_all add: line_room_def)
        have "reading f tty ki ko L (?R + 2 * unat (lb_size b) + 20) t1 s1 q1"
          using g(2) room_less [OF _ budget(1)] by (simp add: reading_def)
        moreover have "request_ok (ts_heap s1) (2 * unat (lb_size b))"
          using st1 less.prems(9,10) held1 calmD(3) [of t s t1 s1] by (simp add: stepped_def echoed_def request_ok_def line_held_def line_at_def)
        ultimately obtain b2 s2 p2 k2 L2 where a: "tty_gets_append b x s1 = kret (b2, s2)" "reading f tty ki ko L2 ?R t1 s2 q1"
          "line_held t1 s2 L2 b2 p2 k2 (cs @ [x])" "L2 - {(p2, k2)} = L - {(p, k)}" "stepped f (L - {(p, k)}) [] t1 s1 t1 s2"
          "unat (lb_size b2) \<le> max (unat (lb_size b)) (2 * (length cs + 1))"
          using gets_append_ok [OF _ held1 budget(2), of f tty ki ko q1 x] by metis
        obtain t3 s3 where e: "tty_putchar io f tty x s2 = kret s3" "reading f tty ki ko L2 ?R t3 s3 q1" "stepped f L2 [x] t1 s2 t3 s3"
          using putchar_step [OF a(2) c(3), of io] by auto
        have room2: "heap_room (ts_heap s2) L2 ?R"
          using a(2) by (simp add: reading_def)
        have "tty_gets_loop io f keys tty n b s = tty_gets_loop io f keys tty (n + 1) b2 s3"
          using d(1) g(1) c a(1) e(1) True line_char_values [OF True]
          by (subst tty_gets_loop.simps) (simp add: ASCII_CTRL_CR_def ASCII_CTRL_BS_def line_char_def)
        moreover have "line_held t3 s3 L2 b2 p2 k2 (cs @ [x])"
          by (rule line_held_stepped [OF a(3) e(3) room2])
        moreover have "stepped f (L - {(p, k)}) [x] t1 s2 t3 s3"
          using stepped_mono [OF e(3), of "L2 - {(p2, k2)}"] a(4) by auto
        then have "stepped f (L - {(p, k)}) [x] t s t3 s3"
          using stepped_append [OF sub [OF st1] stepped_append [OF a(5)]] by simp
        moreover have "unat (lb_size b2) \<le> 2 * (M + 1)"
          using a(6) less.prems(8,9) Cons True by simp
        ultimately show ?thesis
          using e(2) a(4) rest shorter Cons True by (intro cont [of b2 s3 L2 ys t3 q1 p2 k2 "[x]"]) auto
      qed
    qed
  qed
qed


section \<open>The line\<close>

text \<open>The first payload of the line.\<close>

lemma gets_start:
  assumes rd: "reading f tty ki ko L (B + 22) t s q" and B: "0 < B" and ok: "request_ok (ts_heap s) 2"
  shows "\<exists>p k h. kmalloc (ts_heap s) 2 = kret (adr p, h) \<and> adr p \<noteq> 0 \<and> (p, k) \<notin> L \<and>
    reading f tty ki ko (insert (p, k) L) B t (ts_set_heap h s) q \<and> kheap_base h = kheap_base (ts_heap s) \<and>
    line_held t (ts_set_heap h s) (insert (p, k) L) \<lparr>lb_buf = adr p, lb_size = 2, lb_idx = 0\<rparr> p k [] \<and>
    stepped f L [] t s t (ts_set_heap h s)"
proof -
  have total: "B + 2 + 20 = B + 22"
    by simp
  have r: "heap_room (ts_heap s) L (B + 2 + 20)" "ring_held L (tty_input t) ki" "ring_held L (tty_output t) ko"
    unfolding total using rd by (auto simp: reading_def input_places_def)
  obtain p k h where al: "kmalloc (ts_heap s) (of_nat 2) = kret (adr p, h)" "2 \<le> k" "(p, k) \<notin> L"
    "heap_room h (insert (p, k) L) B" "mem h = ts_mem s" "kheap_base h = kheap_base (ts_heap s)"
    using room_alloc [OF r(1) B ok] by blast
  have "adr p \<noteq> 0"
    using heap_alloc.owned_nonzero [OF room_owns [OF al(4)], of p k] by simp
  moreover have rings: "(unat (cb_buffer (tty_input t)), ki) \<in> insert (p, k) L" "(unat (cb_buffer (tty_output t)), ko) \<in> insert (p, k) L"
    using r(2,3) by (simp_all add: ring_held_def)
  moreover have p: "p \<noteq> unat (cb_buffer (tty_input t))" "p \<noteq> unat (cb_buffer (tty_output t))"
    using same_payload [OF al(4) _ rings(1), of k] same_payload [OF al(4) _ rings(2), of k] al(3) r(2,3) by (auto simp: ring_held_def)
  moreover have "reading f tty ki ko (insert (p, k) L) B t (ts_set_heap h s) q \<and> echoed [] t s t (ts_set_heap h s)"
    by (rule reading_heap [OF rd al(4,6) _ p(1) rings]) (use al(5) in auto)
  moreover have "ts_mem (ts_set_heap h s) = ts_mem s"
    using al(5) by (simp add: ts_set_heap_def)
  ultimately show ?thesis
    using al by (intro exI [of _ p] exI [of _ k] exI [of _ h]) (simp add: line_held_def line_at_def stepped_def)
qed

text \<open>The zero that ends it.\<close>

lemma gets_end:
  assumes rd: "reading f tty ki ko L R t s q" and held: "line_held t s L b p k cs" and nz: "0 \<notin> set cs"
  shows "\<exists>s'. s' = ts_set_mem ((ts_mem s)(lb_buf b + lb_idx b := 0)) s \<and> cstr (ts_mem s') (adr p) cs \<and> length cs < k \<and>
    reading f tty ki ko L R t s' q \<and> stepped f (L - {(p, k)}) [] t s t s'"
proof -
  have b: "(p, k) \<in> L" "p \<noteq> unat (cb_buffer (tty_input t))" "p \<noteq> unat (cb_buffer (tty_output t))" "line_at (ts_mem s) b p k cs"
    using held by (simp_all add: line_held_def)
  let ?M = "length cs"
  have la: "lb_buf b = adr p" "unat (lb_idx b) = ?M" "?M < k" "\<And>i. i < ?M \<Longrightarrow> ts_mem s (adr p + of_nat i) = cs ! i"
    using b(4) by (auto simp: line_at_def)
  have r: "heap_room (ts_heap s) L R" "ring_held L (tty_input t) ki" "ring_held L (tty_output t) ko"
    using rd by (auto simp: reading_def input_places_def)
  have k: "k < 4294967296"
    using heap_alloc.owned_bounds [OF room_owns [OF r(1)] b(1)] by simp
  have idx: "lb_idx b = of_nat ?M"
    by (metis la(2) of_nat_unat_u32)
  let ?m = "(ts_mem s)(adr p + of_nat ?M := 0)"
  let ?s = "ts_set_heap ((ts_heap s)\<lparr>mem := ?m\<rparr>) s"
  have "in_range (adr p + of_nat ?M) (adr p) k"
    using la(3) k by simp
  then have m: "?m x = ts_mem s x" if "\<not> in_range x (adr p) k" for x
    using that by auto
  have fin: "reading f tty ki ko L R t ?s q \<and> echoed [] t s t ?s"
    by (rule reading_heap [OF rd room_mem [OF r(1)] _ b(1,2)]) (use m r(2,3) in \<open>auto simp: ring_held_def\<close>)
  have "\<not> in_range x (adr p) k" if "lasting f t s (L - {(p, k)}) x" for x
    using lasting_apart [OF r(1) b(1) refl that] .
  then have "stepped f (L - {(p, k)}) [] t s t ?s"
    using fin m by (simp add: stepped_def ts_set_heap_def)
  moreover have "bytes_at ?m (adr p) ?M = cs"
    using la(3,4) k by (intro nth_equalityI) (simp_all add: of_nat_u32_inj)
  then have "bytes_at ?m (adr p) (?M + 1) = cs @ [0]"
    unfolding bytes_at_add by (simp add: bytes_at_def)
  then have "cstr ?m (adr p) cs"
    using nz by (simp add: cstr_bytes_at)
  ultimately show ?thesis
    using fin la(1,3) idx by (intro exI [of _ ?s]) (simp add: ts_set_mem_def ts_set_heap_def)
qed

lemma gets_ok:
  assumes "reading f tty ki ko L (line_room M R (filter line_char xs) + 22) t s q" and "M = length (filter line_char xs)"
    and "q @ coming keys 0 N = xs @ 13 # rest" and "13 \<notin> set xs" and "8 \<notin> set xs" and "\<forall>i \<ge> N. keys i = []"
    and "length (q @ coming keys 0 N) \<le> unat (cb_capacity (tty_input t))" and "request_ok (ts_heap s) (4 * M + 4)" and "0 < R"
  shows "\<exists>p k t' s' q'. tty_gets io f keys tty s = kret (adr p, s') \<and> cstr (ts_mem s') (adr p) (filter line_char xs) \<and> M < k \<and>
    (p, k) \<notin> L \<and> reading f tty ki ko (insert (p, k) L) R t' s' q' \<and> stepped f L (filter line_char xs @ [10]) t s t' s' \<and>
    (\<exists>n'. q' @ coming keys n' N = rest)"
proof -
  let ?line = "filter line_char xs"
  have "0 < line_room M R ?line" "request_ok (ts_heap s) 2"
    using assms(8,9) by (simp_all add: line_room_def request_ok_def)
  from gets_start [OF assms(1) this] obtain p k h where st: "kmalloc (ts_heap s) 2 = kret (adr p, h)" "adr p \<noteq> 0" "(p, k) \<notin> L"
    "reading f tty ki ko (insert (p, k) L) (line_room M R ?line) t (ts_set_heap h s) q" "kheap_base h = kheap_base (ts_heap s)"
    "line_held t (ts_set_heap h s) (insert (p, k) L) \<lparr>lb_buf = adr p, lb_size = 2, lb_idx = 0\<rparr> p k []"
    "stepped f L [] t s t (ts_set_heap h s)"
    by blast
  have "request_ok (ts_heap (ts_set_heap h s)) (4 * M + 4)"
    using assms(8) st(5) by (simp add: request_ok_def ts_set_heap_def)
  moreover have "length [] + length ?line \<le> M" "unat (lb_size \<lparr>lb_buf = adr p, lb_size = 2, lb_idx = 0\<rparr>) \<le> 2 * (M + 1)"
    using assms(2) by simp_all
  ultimately obtain t1 s1 b p1 k1 L1 q1 where
    lp: "tty_gets_loop io f keys tty 0 \<lparr>lb_buf = adr p, lb_size = 2, lb_idx = 0\<rparr> (ts_set_heap h s) = kret (b, s1)"
    "reading f tty ki ko L1 R t1 s1 q1" "line_held t1 s1 L1 b p1 k1 ?line" "L1 - {(p1, k1)} = insert (p, k) L - {(p, k)}"
    "stepped f (insert (p, k) L - {(p, k)}) (?line @ [10]) t (ts_set_heap h s) t1 s1" "\<exists>n'. q1 @ coming keys n' N = rest"
    using gets_loop_ok [OF st(4,6) assms(3-7) _ _ _ assms(9), of io] unfolding append_Nil by blast
  have L1: "L1 - {(p1, k1)} = L" "L1 = insert (p1, k1) L" "(p1, k1) \<notin> L"
    using lp(3,4) st(3) by (auto simp: line_held_def)
  have "0 \<notin> set ?line"
    using line_char_values by auto
  from gets_end [OF lp(2,3) this] obtain s' where e: "s' = ts_set_mem ((ts_mem s1)(lb_buf b + lb_idx b := 0)) s1"
    "cstr (ts_mem s') (adr p1) ?line" "length ?line < k1" "reading f tty ki ko L1 R t1 s' q1" "stepped f L [] t1 s1 t1 s'"
    unfolding L1(1) by blast
  have "tty_gets io f keys tty s = kret (adr p1, s')"
    using st(1,2) lp(1,3) e(1) by (simp add: tty_gets_def line_held_def line_at_def)
  moreover have "stepped f L (?line @ [10]) t s t1 s'"
    using stepped_append [OF st(7) stepped_append [OF _ e(5)]] lp(5) st(3) by simp
  ultimately show ?thesis
    using e(2-4) lp(6) L1(2,3) assms(2)
    by (intro exI [of _ p1] exI [of _ k1] exI [of _ t1] exI [of _ s'] exI [of _ q1]) simp
qed


section \<open>Properties\<close>

text \<open>
  C7: the characters that the keys type up to the return key, at whatever polls they arrive, become
  the line: \<open>tty_gets\<close> returns a payload of its own that holds the letters, digits and spaces among them, ended by a
  zero that is inside the payload, and the screen shows the line as it was typed.  The keys type no backspace, the input
  ring has room for them, and the heap has room for the growing buffer.
\<close>
theorem tty_gets_reads_line:
  assumes "reading f tty ki ko L (line_room M 1 (filter line_char xs) + 22) t s q" and "M = length (filter line_char xs)"
    and "q @ coming keys 0 N = xs @ 13 # rest" and "13 \<notin> set xs" and "8 \<notin> set xs" and "\<forall>i \<ge> N. keys i = []"
    and "length (q @ coming keys 0 N) \<le> unat (cb_capacity (tty_input t))" and "request_ok (ts_heap s) (4 * M + 4)"
  shows "\<exists>buf k t' s'. tty_gets io f keys tty s = kret (buf, s') \<and> cstr (ts_mem s') buf (filter line_char xs) \<and> M < k \<and>
    (unat buf, k) \<notin> L \<and> heap_owns (ts_heap s') (insert (unat buf, k) L) \<and> tty_ok f tty t' s' \<and>
    console (ts_screen s') = console_puts (vga_attri (ts_vga s)) (filter line_char xs @ [10]) (console (ts_screen s))"
proof -
  obtain p k t' s' q' where g: "tty_gets io f keys tty s = kret (adr p, s')" "cstr (ts_mem s') (adr p) (filter line_char xs)" "M < k"
    "(p, k) \<notin> L" "reading f tty ki ko (insert (p, k) L) 1 t' s' q'" "stepped f L (filter line_char xs @ [10]) t s t' s'"
    using gets_ok [OF assms, of io] by auto
  have "heap_owns (ts_heap s') (insert (p, k) L)"
    using g(5) by (auto simp: reading_def intro: room_owns)
  then show ?thesis
    using g heap_alloc.owned_bounds [of "ts_heap s'" "insert (p, k) L" p k]
    by (intro exI [of _ "adr p"] exI [of _ k] exI [of _ t'] exI [of _ s']) (simp add: reading_def stepped_def echoed_def)
qed

text \<open>The heap with the two rings in it, and a terminal that they belong to.\<close>

definition input_kheap :: kheap where
  "input_kheap = boot_kheap\<lparr>heads := [0xC0800000 \<mapsto> mk_head 100 False 0 0xC0800078,
     0xC0800078 \<mapsto> mk_head 100 False 0xC0800000 0xC08000F0, 0xC08000F0 \<mapsto> mk_head 0x1FFFEFC True 0xC0800078 0],
     kheap_tail := 0xC08000F0\<rparr>"

definition input_ttys :: tty where
  "input_ttys = \<lparr>tty_input = \<lparr>cb_buffer = 0xC0800014, cb_head = 60, cb_tail = 60, cb_capacity = 64, cb_element_size = 1, cb_size = 0\<rparr>,
     tty_output = \<lparr>cb_buffer = 0xC080008C, cb_head = 7, cb_tail = 7, cb_capacity = 64, cb_element_size = 1, cb_size = 0\<rparr>,
     tty_video = 0x5000, tty_keyboard = 0\<rparr>"

definition input_terminal :: "unit tty_state" where
  "input_terminal = sample_terminal\<lparr>ts_registry := (ts_registry sample_terminal)\<lparr>reg_heap := input_kheap\<rparr>, ts_ttys := [0x7000 \<mapsto> input_ttys]\<rparr>"

abbreviation input_payloads :: "(nat \<times> nat) set" where
  "input_payloads \<equiv> {(0xC0800014, 100), (0xC080008C, 100)}"

lemma input_kheap_inv: "heap_inv input_kheap [(100, False), (100, False), (0x1FFFEFC, True)]"
  by (simp add: heap_inv_def linked_def input_kheap_def boot_kheap_def kheap_init_head_def
      fresh_kheap_def no_free_pair_simps adr_def)

lemma input_terminal_base [simp]: "kheap_base input_kheap = 0xC0800000" "ts_heap input_terminal = input_kheap"
  "ts_vga input_terminal = sc_state sample_screen"
  by (simp_all add: input_kheap_def boot_kheap_def kheap_init_head_def input_terminal_def sample_terminal_def)

lemma input_room: "B \<le> 0x1FFFEFC \<Longrightarrow> heap_room input_kheap input_payloads B"
  unfolding heap_room_def
  by (rule exI [of _ "[(100, False), (100, False), (0x1FFFEFC, True)]"], rule exI [of _ "0x1FFFEFC"])
    (use input_kheap_inv in \<open>simp add: insert_commute\<close>)

lemma input_terminal_reading:
  assumes "B \<le> 0x1FFFEFC"
  shows "reading sample_frame 0x7000 100 100 input_payloads B input_ttys input_terminal []"
proof -
  have apart: "disjoint_ranges 0xC080008C 64 0xC00B8000 4000"
    by (rule disjoint_ranges_sym, rule far_disjoint) simp_all
  have low: "\<not> in_range x 0xC00B8000 4000" "\<not> in_range x 0xC080008C 64" if "x < 0x9010" for x
    using that not_below [of x "0xC00B8000" 4000] not_below [of x "0xC080008C" 64] by (simp_all add: word_less_nat_alt)
  have "tty_apart sample_frame input_ttys 0xC00B8000"
    using apart low by (simp add: tty_apart_def sample_frame_def input_ttys_def)
  then have "tty_ok sample_frame 0x7000 input_ttys input_terminal"
    using sample_screen_ok by (simp add: tty_ok_def idle_ring_def input_terminal_def sample_terminal_def input_ttys_def)
  moreover have "off_heap input_kheap x" if "in_range x 0xC00B8000 4000" for x
  proof -
    have "\<not> 0xC00B8000 + 4000 \<le> unat x"
      using that not_above [of "0xC00B8000" 4000 x] by auto
    then show ?thesis
      by (simp add: off_heap_def)
  qed
  then have "input_places sample_frame input_ttys input_kheap 0xC00B8000 input_payloads 100 100"
    using low by (simp add: input_places_def ring_held_def input_ttys_def sample_frame_def off_heap_def)
  moreover have "ring_at (tty_input input_ttys) m []" for m
    by (simp add: ring_at_def cb_inv_def cb_items_def input_ttys_def slot_def array_fits_def)
  ultimately show ?thesis
    using input_room [OF assms] sample_screen_ok(2)
    by (simp add: reading_def) (simp add: input_terminal_def sample_terminal_def)
qed

definition sample_keys :: "nat \<Rightarrow> keyboard_event list" where
  "sample_keys n = (if n = 0 then
     [\<lparr>keycode = 97, pressed = True\<rparr>, \<lparr>keycode = 97, pressed = False\<rparr>, \<lparr>keycode = 35, pressed = True\<rparr>]
     else if n = 3 then [\<lparr>keycode = 98, pressed = True\<rparr>, \<lparr>keycode = 13, pressed = True\<rparr>] else [])"

lemma sample_keys_coming: "coming sample_keys 0 4 = [97, 35, 98, 13]"
  by (simp add: coming_def sample_keys_def upt_conv_Cons)

theorem tty_gets_reads_line_witness:
  "\<exists>buf t' s'. tty_gets silent_ports sample_frame sample_keys 0x7000 input_terminal = kret (buf, s') \<and>
     cstr (ts_mem s') buf (map ch ''ab'') \<and> tty_ok sample_frame 0x7000 t' s'"
proof -
  define xs :: "u8 list" where "xs = [97, 35, 98]"
  have line: "filter line_char xs = [97, 98]"
    unfolding xs_def by code_simp
  have xs: "[] @ coming sample_keys 0 4 = xs @ 13 # []" "13 \<notin> set xs" "8 \<notin> set xs" "length xs = 3"
    unfolding sample_keys_coming xs_def by simp_all
  have "reading sample_frame 0x7000 100 100 input_payloads (line_room 2 1 (filter line_char xs) + 22) input_ttys input_terminal []"
    by (rule input_terminal_reading) (simp add: line line_room_def)
  moreover have "request_ok (ts_heap input_terminal) (4 * 2 + 4)"
    by (simp add: request_ok_def input_kheap_def boot_kheap_def kheap_init_head_def fresh_kheap_def)
  moreover have "\<forall>i \<ge> 4. sample_keys i = []" "2 = length (filter line_char xs)"
    "length ([] @ coming sample_keys 0 4) \<le> unat (cb_capacity (tty_input input_ttys))"
    using xs(4) unfolding xs(1) by (simp_all add: sample_keys_def line input_ttys_def)
  ultimately show ?thesis
    using tty_gets_reads_line [OF _ _ xs(1-3), of sample_frame "0x7000" 100 100 input_payloads 2 input_ttys input_terminal silent_ports]
    unfolding line by fastforce
qed

end
