(* ===== verification/Shell_Correct.thy ===== *)
theory Shell_Correct
  imports Shell Tty_Line
begin

text \<open>
  The shell on its terminal: what a command prints comes to the screen, the arguments of a command are the words of the
  line, and the first word selects the command.
\<close>

section \<open>A shell at rest\<close>

definition shell_args :: "'d shell_env \<Rightarrow> u32 \<Rightarrow> bool" where
  "shell_args env x \<longleftrightarrow> in_range x (se_args env) 16"

text \<open>The terminal and the output stream are usable, and the arguments on the stack are apart from them.\<close>

definition shell_ready :: "'d shell_env \<Rightarrow> shell \<Rightarrow> tty \<Rightarrow> 'd shell_state \<Rightarrow> bool" where
  "shell_ready env sh t s \<longleftrightarrow> tty_ok (se_frame env) (sh_tty sh) t (ss_tty s) \<and> stream_on (sh_out_stream sh) (sh_tty sh) (ss_tty s) \<and>
     stream_apart (se_frame env) t (ss_tty s) (sh_out_stream sh) \<and>
     (\<forall>x. shell_args env x \<longrightarrow> \<not> noisy (se_frame env) (sh_out_stream sh) t (ss_tty s) x)"

text \<open>An address whose byte no output of the shell changes, and a string of such bytes.\<close>

definition still :: "'d shell_env \<Rightarrow> shell \<Rightarrow> tty \<Rightarrow> 'd shell_state \<Rightarrow> u32 \<Rightarrow> bool" where
  "still env sh t s x \<longleftrightarrow> \<not> noisy (se_frame env) (sh_out_stream sh) t (ss_tty s) x \<and> \<not> shell_args env x"

definition text_at :: "'d shell_env \<Rightarrow> shell \<Rightarrow> tty \<Rightarrow> 'd shell_state \<Rightarrow> u32 \<Rightarrow> u8 list \<Rightarrow> bool" where
  "text_at env sh t s a cs \<longleftrightarrow> cstr (ss_mem s) a cs \<and> str_fits a cs \<and> (\<forall>j \<le> length cs. still env sh t s (a + of_nat j))"

definition literal_at :: "'d shell_env \<Rightarrow> shell \<Rightarrow> tty \<Rightarrow> 'd shell_state \<Rightarrow> string \<Rightarrow> bool" where
  "literal_at env sh t s str \<longleftrightarrow> text_at env sh t s (se_literal env str) (map ch str)"

text \<open>The shell has printed \<open>cs\<close>, and nothing else has happened.\<close>

definition printed :: "'d shell_env \<Rightarrow> shell \<Rightarrow> u8 list \<Rightarrow> tty \<Rightarrow> 'd shell_state \<Rightarrow> tty \<Rightarrow> 'd shell_state \<Rightarrow> bool" where
  "printed env sh cs t s t' s' \<longleftrightarrow> shell_ready env sh t' s' \<and> s' = ss_set_tty (ss_tty s') s \<and>
     but_bytes (ts_registry (ss_tty s')) = but_bytes (ts_registry (ss_tty s)) \<and>
     calm t (ss_tty s) t' (ss_tty s') \<and> tty_input t' = tty_input t \<and>
     still env sh t' s' = still env sh t s \<and> (\<forall>x. still env sh t s x \<longrightarrow> ss_mem s' x = ss_mem s x) \<and>
     vga_attri (ts_vga (ss_tty s')) = vga_attri (ts_vga (ss_tty s)) \<and>
     console (ts_screen (ss_tty s')) = console_puts (vga_attri (ts_vga (ss_tty s))) cs (console (ts_screen (ss_tty s)))"

lemma printed_nothing: "shell_ready env sh t s \<Longrightarrow> printed env sh [] t s t s"
  by (simp add: printed_def ss_set_tty_def console_puts_def calm_refl)

lemma printed_append:
  assumes "printed env sh cs t s t1 s1" and "printed env sh ds t1 s1 t2 s2"
  shows "printed env sh (cs @ ds) t s t2 s2"
proof -
  have "s2 = ss_set_tty (ss_tty s2) s"
  proof -
    have "s2 = ss_set_tty (ss_tty s2) s1" "s1 = ss_set_tty (ss_tty s1) s"
      using assms by (auto simp: printed_def)
    then show ?thesis
      by (metis ss_set_tty_def shell_state.update_convs(1) shell_state.surjective)
  qed
  moreover have "calm t (ss_tty s) t2 (ss_tty s2)"
    using assms calm_trans [of t "ss_tty s" t1 "ss_tty s1"] by (auto simp: printed_def)
  ultimately show ?thesis
    using assms by (auto simp: printed_def console_puts_def)
qed

lemma printed_state:
  assumes "printed env sh cs t s t' s'"
  shows "ss_shells s' = ss_shells s" "ss_commands s' = ss_commands s" "ss_log s' = ss_log s" "ss_drives s' = ss_drives s"
    "ss_strtok s' = ss_strtok s" "ss_lists s' = ss_lists s" "heads (ss_heap s') = heads (ss_heap s)"
    "ss_heap s' = (ss_heap s)\<lparr>mem := ss_mem s'\<rparr>"
proof -
  have s': "s' = ss_set_tty (ss_tty s') s"
    and r: "but_bytes (ts_registry (ss_tty s')) = but_bytes (ts_registry (ss_tty s))"
    using assms by (simp_all add: printed_def)
  show "ss_shells s' = ss_shells s" "ss_commands s' = ss_commands s" "ss_log s' = ss_log s" "ss_drives s' = ss_drives s"
    "ss_strtok s' = ss_strtok s"
    by (subst s', simp add: ss_set_tty_def)+
  have reg: "ts_registry (ss_tty s') = (ts_registry (ss_tty s))\<lparr>reg_heap := (ss_heap s)\<lparr>mem := ss_mem s'\<rparr>\<rparr>"
    using r by (simp add: but_bytes_eq)
  then show "ss_heap s' = (ss_heap s)\<lparr>mem := ss_mem s'\<rparr>"
    by (metis registry.select_convs(1) registry.update_convs(1) registry.surjective)
  then show "heads (ss_heap s') = heads (ss_heap s)"
    by (metis kheap.select_convs(8) kheap.surjective kheap.update_convs(9))
  show "ss_lists s' = ss_lists s"
    by (subst reg) simp
qed

section \<open>Printing\<close>

lemma shell_readyD:
  assumes "shell_ready env sh t s"
  shows "tty_ok (se_frame env) (sh_tty sh) t (ss_tty s)" and "stream_on (sh_out_stream sh) (sh_tty sh) (ss_tty s)"
    and "stream_apart (se_frame env) t (ss_tty s) (sh_out_stream sh)"
    and "\<And>x. shell_args env x \<Longrightarrow> \<not> noisy (se_frame env) (sh_out_stream sh) t (ss_tty s) x"
  using assms by (auto simp: shell_ready_def)

lemma same_tty [simp]: "ts_set_mem (ts_mem u) u = u"
  by (simp add: ts_set_mem_def ts_set_heap_def)

lemma shown_printed:
  assumes ready: "shell_ready env sh t s" and m: "\<And>x. \<not> shell_args env x \<Longrightarrow> m x = ss_mem s x"
    and sh: "shown (se_frame env) (sh_tty sh) (stream_area (sh_out_stream sh)) cs t (ts_set_mem m (ss_tty s)) t' u"
  shows "printed env sh cs t s t' (ss_set_tty u s)"
proof -
  let ?f = "se_frame env" and ?p = "sh_out_stream sh" and ?s0 = "ts_set_mem m (ss_tty s)"
  note r = shell_readyD [OF ready]
  have "\<not> tty_area ?f t (vga_buffer (ts_vga (ss_tty s))) x" if "shell_args env x" for x
    using r(4) [OF that] by (simp add: noisy_def quiet_def)
  from set_mem_ok [where B = "shell_args env", OF r(1) m this] have s0: "shown ?f (sh_tty sh) (shell_args env) [] t (ss_tty s) t ?s0"
    by blast
  have on: "stream_on ?p (sh_tty sh) u"
    using stream_on_shown [OF stream_on_shown [OF r(2) s0] sh] .
  have noisy0: "noisy ?f ?p t ?s0 = noisy ?f ?p t (ss_tty s)"
    by (simp add: noisy_def quiet_def fun_eq_iff)
  have noisy: "noisy ?f ?p t' u = noisy ?f ?p t (ss_tty s)"
    using shown_quiet(1) [OF sh] noisy0 by (simp add: noisy_def fun_eq_iff)
  have "stream_apart ?f t' u ?p"
    using r(3) stream_apart_shown [OF s0, of ?p] stream_apart_shown [OF sh, of ?p] by simp
  then have "shell_ready env sh t' (ss_set_tty u s)"
    using sh on r(4) noisy by (simp add: shell_ready_def shown_def ss_set_tty_def)
  moreover have "still env sh t' (ss_set_tty u s) = still env sh t s"
    by (simp add: still_def ss_set_tty_def noisy fun_eq_iff)
  moreover have "ts_mem u x = ss_mem s x" if "still env sh t s x" for x
  proof -
    have "quiet ?f (stream_area ?p) t ?s0 x"
      using that noisy0 by (simp add: still_def noisy_def fun_eq_iff)
    then show ?thesis
      using shown_quiet(2) [OF sh] that m by (simp add: still_def)
  qed
  moreover have "console (ts_screen ?s0) = console (ts_screen (ss_tty s))"
    using s0 by (simp add: shown_def console_puts_def)
  moreover have "calm t (ss_tty s) t' u"
    using calm_trans [OF shown_calm(1) [OF s0] shown_calm(1) [OF sh]] .
  ultimately show ?thesis
    using sh by (simp add: printed_def shown_def tty_kept_def ss_set_tty_def but_bytes_set_mem same_mode_def)
qed

lemma shell_puts_ok:
  assumes ready: "shell_ready env sh t s" and str: "text_at env sh t s str cs" and nb: "8 \<notin> set cs"
  shows "\<exists>t' s'. shell_puts env (sh_out_stream sh) str s = kret s' \<and> printed env sh cs t s t' s'"
proof -
  note r = shell_readyD [OF ready]
  have "cstr (ss_mem s) str cs" "str_fits str cs"
    "quiet (se_frame env) (stream_area (sh_out_stream sh)) t (ss_tty s) (str + of_nat j)" if "j < length cs" for j
    using str that by (auto simp: text_at_def still_def noisy_def)
  moreover have "cstr (ss_mem s) str cs" "str_fits str cs"
    using str by (simp_all add: text_at_def)
  ultimately obtain t' u where u: "stream_puts (se_io env) (se_frame env) (sh_out_stream sh) str (ss_tty s) = kret u"
    "shown (se_frame env) (sh_tty sh) (stream_area (sh_out_stream sh)) cs t (ss_tty s) t' u"
    using stream_puts_ok [OF r(1,2) _ _ nb, of str "stream_area (sh_out_stream sh)" "se_io env"] by auto
  then show ?thesis
    using shown_printed [OF ready, of "ss_mem s" cs t' u] by (auto simp: shell_puts_def)
qed

lemma shell_printf_ok:
  assumes ready: "shell_ready env sh t s" and lit: "literal_at env sh t s format"
    and out: "format_text no_floats texts (map ch format) ws = Some cs" and nb: "8 \<notin> set cs" and ws: "length ws \<le> 4"
    and texts: "\<And>w ds. texts w = Some ds \<Longrightarrow> text_at env sh t s w ds"
  shows "\<exists>t' s'. shell_printf env (sh_out_stream sh) format ws s = kret s' \<and> printed env sh cs t s t' s'"
proof -
  let ?f = "se_frame env" and ?p = "sh_out_stream sh" and ?m = "push_args (ss_mem s) (se_args env) ws"
  let ?s0 = "ts_set_mem ?m (ss_tty s)" and ?fmt = "se_literal env format"
  note r = shell_readyD [OF ready]
  have m: "?m x = ss_mem s x" if "\<not> shell_args env x" for x
  proof (rule push_args_other)
    show "\<not> in_range x (se_args env) (4 * length ws)"
      using that ws by (auto simp: shell_args_def in_range_def)
  qed (use ws in simp)
  have "\<not> tty_area ?f t (vga_buffer (ts_vga (ss_tty s))) x" if "shell_args env x" for x
    using r(4) [OF that] by (simp add: noisy_def quiet_def)
  from set_mem_ok [where B = "shell_args env", OF r(1) m this] have s0: "shown ?f (sh_tty sh) (shell_args env) [] t (ss_tty s) t ?s0"
    by blast
  have noisy0: "noisy ?f ?p t ?s0 = noisy ?f ?p t (ss_tty s)"
    by (simp add: noisy_def quiet_def fun_eq_iff)
  have tx: "cstr ?m a ds \<and> str_fits a ds \<and> (\<forall>j \<le> length ds. \<not> noisy ?f ?p t ?s0 (a + of_nat j))" if "text_at env sh t s a ds" for a ds
  proof -
    have "cstr ?m a ds"
      by (rule cstr_agree [of "ss_mem s"]) (use that m in \<open>auto simp: text_at_def still_def\<close>)
    then show ?thesis
      using that noisy0 by (simp add: text_at_def still_def)
  qed
  have strings: "\<forall>w cs. texts w = Some cs \<longrightarrow> cstr ?m w cs \<and> str_fits w cs \<and> (\<forall>j \<le> length cs. \<not> noisy ?f ?p t ?s0 (w + of_nat j))"
    using tx texts by blast
  have "shell_args env (se_args env + of_nat j)" if "j < 4 * length ws" for j
    using that ws by (simp add: shell_args_def)
  then have inp: "format_input (noisy ?f ?p t ?s0) texts (ts_mem ?s0) ?fmt (map ch format) (se_args env) ws"
    using strings tx [OF lit [unfolded literal_at_def]] push_args_args_at [of ws "ss_mem s" "se_args env"] ws r(4) noisy0
    unfolding format_input_def by simp
  have ok: "tty_ok ?f (sh_tty sh) t ?s0" "stream_on ?p (sh_tty sh) ?s0" "stream_apart ?f t ?s0 ?p"
    using s0 stream_on_shown [OF r(2) s0] stream_apart_shown [OF s0, of ?p] r(3) by (simp_all add: shown_def)
  from stream_vprintf_loop_ok [OF float_ok_none out inp ok nb, where io = "se_io env" and conv = "se_ftoa env" and cnt = 0] obtain t' u where
    u: "stream_vprintf_loop (se_io env) (se_ftoa env) ?f ?p ?fmt (se_args env) 0 ?s0 = kret (0 + of_nat (length cs), u)"
    "shown ?f (sh_tty sh) (stream_area ?p) cs t ?s0 t' u"
    by blast
  then have "shell_printf env ?p format ws s = kret (ss_set_tty u s)"
    by (simp add: shell_printf_def stream_printf_def stream_vprintf_def)
  then show ?thesis
    using shown_printed [OF ready m u(2)] by blast
qed

lemma text_at_printed: "printed env sh cs t s t' s' \<Longrightarrow> text_at env sh t s a ds \<Longrightarrow> text_at env sh t' s' a ds"
  unfolding text_at_def
proof (elim conjE, intro conjI)
  assume pr: "printed env sh cs t s t' s'" and c: "cstr (ss_mem s) a ds" and st: "\<forall>j \<le> length ds. still env sh t s (a + of_nat j)"
  have st': "still env sh t' s' = still env sh t s" and m: "still env sh t s x \<Longrightarrow> ss_mem s' x = ss_mem s x" for x
    using pr by (auto simp: printed_def)
  show "cstr (ss_mem s') a ds"
    by (rule cstr_agree [OF c]) (use st m in blast)
  show "\<forall>j \<le> length ds. still env sh t' s' (a + of_nat j)"
    using st st' by simp
qed

lemma literal_at_printed: "printed env sh cs t s t' s' \<Longrightarrow> literal_at env sh t s str \<Longrightarrow> literal_at env sh t' s' str"
  unfolding literal_at_def by (rule text_at_printed)


section \<open>The list of commands\<close>

definition command_at :: "'d shell_env \<Rightarrow> shell \<Rightarrow> tty \<Rightarrow> 'd shell_state \<Rightarrow> u32 \<Rightarrow> u8 list \<times> shell_fn \<Rightarrow> bool" where
  "command_at env sh t s node cmd \<longleftrightarrow> (\<exists>n c. lnodes (ss_lists s) node = Some n \<and> ss_commands s (ln_data n) = Some c \<and>
     cmd_call c = snd cmd \<and> text_at env sh t s (cmd_name c) (fst cmd))"

definition commands_at :: "'d shell_env \<Rightarrow> u32 \<Rightarrow> shell \<Rightarrow> tty \<Rightarrow> u32 list \<Rightarrow> (u8 list \<times> shell_fn) list \<Rightarrow> 'd shell_state \<Rightarrow> bool" where
  "commands_at env sp sh t nodes cmds s \<longleftrightarrow> ss_shells s sp = Some sh \<and> list_ok (ss_lists s) (sh_commands_list sh) nodes \<and>
     list_all2 (command_at env sh t s) nodes cmds"

lemma command_at_printed: "printed env sh cs t s t' s' \<Longrightarrow> command_at env sh t s node cmd \<Longrightarrow> command_at env sh t' s' node cmd"
  using text_at_printed [of env sh cs t s t' s'] printed_state [of env sh cs t s t' s'] by (fastforce simp: command_at_def)

lemma all_commands_printed:
  "printed env sh cs t s t' s' \<Longrightarrow> list_all2 (command_at env sh t s) nodes cmds \<Longrightarrow> list_all2 (command_at env sh t' s') nodes cmds"
  using command_at_printed by (rule list_all2_mono [rotated]) blast

lemma commands_at_printed: "printed env sh cs t s t' s' \<Longrightarrow> commands_at env sp sh t nodes cmds s \<Longrightarrow> commands_at env sp sh t' nodes cmds s'"
  using printed_state [of env sh cs t s t' s'] all_commands_printed [of env sh cs t s t' s'] by (simp add: commands_at_def)

text \<open>What \<^verbatim>\<open>help\<close> prints: the names with their numbers.\<close>

fun help_text :: "nat \<Rightarrow> u8 list list \<Rightarrow> u8 list" where
  "help_text i [] = []"
| "help_text i (name # names) = map ch ''['' @ int_text (int i + 1) @ map ch ''] '' @ name @ map ch (line '''') @ help_text (Suc i) names"

lemma help_format:
  assumes "i < 2147483647"
  shows "format_text no_floats [a \<mapsto> name] (map ch (line ''[%d] %s'')) [of_nat i + 1, a] = 
    Some (map ch ''['' @ int_text (int i + 1) @ map ch ''] '' @ name @ map ch (line ''''))"
proof -
  have u: "(of_nat i + 1 :: u32) = of_nat (Suc i)"
    by simp
  have "unat (of_nat (Suc i) :: u32) = Suc i"
    using assms by (intro unat_of_nat_u32_small) simp
  moreover from this have "sint (of_nat (Suc i) :: u32) = int i + 1"
    using assms by (subst sint_unat) simp_all
  moreover have "unat (0x80000000 :: u32) = 2147483648"
    by simp
  ultimately have "of_nat i + 1 \<noteq> (0x80000000 :: u32)" "sint (of_nat i + 1 :: u32) = int i + 1"
    using assms unfolding u by (auto dest: arg_cong [where f = unat])
  then show ?thesis
    by (simp add: conv_text_def printed_int_def)
qed

lemma shell_help_loop_ok:
  assumes "ss_shells s sp = Some sh" and "shell_ready env sh t s" and "literal_at env sh t s (line ''[%d] %s'')"
    and "dseg (lnodes (ss_lists s)) pr node nodes 0" and "list_all2 (command_at env sh t s) nodes cmds"
    and "i + length cmds < 2147483647" and "\<forall>cmd \<in> set cmds. 8 \<notin> set (fst cmd)"
  shows "\<exists>t' s'. shell_help_loop env sp node (of_nat i) s = kret s' \<and> printed env sh (help_text i (map fst cmds)) t s t' s'"
  using assms
proof (induction nodes arbitrary: pr node cmds i s t)
  case Nil
  then have "node = 0" "cmds = []"
    by simp_all
  then show ?case
    using printed_nothing [OF Nil.prems(2)] by (subst shell_help_loop.simps) auto
next
  case (Cons x nodes)
  obtain name call rest where cmds: "cmds = (name, call) # rest" and cmd: "command_at env sh t s x (name, call)"
    and rest: "list_all2 (command_at env sh t s) nodes rest"
    using Cons.prems(5) by (auto simp: list_all2_Cons1)
  obtain n c where nc: "lnodes (ss_lists s) x = Some n" "ss_commands s (ln_data n) = Some c" "text_at env sh t s (cmd_name c) name"
    using cmd by (auto simp: command_at_def)
  have node: "node = x" "x \<noteq> 0" "dseg (lnodes (ss_lists s)) x (ln_next n) nodes 0"
    using Cons.prems(4) nc(1) by auto
  have one: "map ch ''['' @ int_text (int i + 1) @ map ch ''] '' @ name @ map ch (line '''') = help_text i [name]"
    by simp
  have "8 \<notin> set (help_text i [name])"
    using Cons.prems(7) dec_digits [of 8] isdigit_iff [of 8] by (auto simp: cmds int_text_def)
  moreover have "i < 2147483647"
    using Cons.prems(6) by (simp add: cmds)
  moreover have "text_at env sh t s w ds" if "[cmd_name c \<mapsto> name] w = Some ds" for w ds
    using that nc(3) by (simp split: if_splits)
  ultimately obtain t1 s1 where s1: "shell_printf env (sh_out_stream sh) (line ''[%d] %s'') [of_nat i + 1, cmd_name c] s = kret s1"
    "printed env sh (help_text i [name]) t s t1 s1"
    using shell_printf_ok [OF Cons.prems(2,3) help_format [of i "cmd_name c" name, unfolded one]] by fastforce
  note st = printed_state [OF s1(2)]
  have ready: "shell_ready env sh t1 s1"
    using s1(2) by (simp add: printed_def)
  have "ss_shells s1 sp = Some sh" "dseg (lnodes (ss_lists s1)) x (ln_next n) nodes 0"
    using Cons.prems(1) node(3) by (simp_all add: st)
  from Cons.IH [OF this(1) ready literal_at_printed [OF s1(2) Cons.prems(3)] this(2) all_commands_printed [OF s1(2) rest], of "Suc i"]
  obtain t2 s2 where s2: "shell_help_loop env sp (ln_next n) (of_nat (Suc i)) s1 = kret s2"
    "printed env sh (help_text (Suc i) (map fst rest)) t1 s1 t2 s2"
    using Cons.prems(6,7) by (auto simp: cmds)
  have "shell_help_loop env sp node (of_nat i) s = kret s2"
    using Cons.prems(1) node nc s1(1) s2(1) by (subst shell_help_loop.simps) (simp add: st add.commute)
  moreover have "help_text i [name] @ help_text (Suc i) (map fst rest) = help_text i (map fst cmds)"
    by (simp add: cmds)
  ultimately show ?case
    using printed_append [OF s1(2) s2(2)] by metis
qed

lemma shell_execute_help_ok:
  assumes "commands_at env sp sh t nodes cmds s" and "shell_ready env sh t s" and "literal_at env sh t s (line ''[%d] %s'')"
    and "length cmds < 2147483647" and "\<forall>cmd \<in> set cmds. 8 \<notin> set (fst cmd)"
  shows "\<exists>t' s'. shell_execute_help env sp argc argv s = kret (0, s') \<and> printed env sh (help_text 0 (map fst cmds)) t s t' s'"
proof -
  have c: "ss_shells s sp = Some sh" "list_ok (ss_lists s) (sh_commands_list sh) nodes" "list_all2 (command_at env sh t s) nodes cmds"
    using assms(1) by (simp_all add: commands_at_def)
  note l = list_okD [OF c(2)]
  obtain t' s' where "shell_help_loop env sp (hd_or nodes 0) (of_nat 0) s = kret s'" "printed env sh (help_text 0 (map fst cmds)) t s t' s'"
    using shell_help_loop_ok [OF c(1) assms(2,3) l(3) c(3), of 0] assms(4,5) by auto
  then show ?thesis
    using c(1) l(2) by (auto simp: shell_execute_help_def)
qed

section \<open>The words of a line\<close>

function words :: "u8 list \<Rightarrow> u8 list list" where
  "words cs =
     (let rest = dropWhile (\<lambda>c. c = 32) cs; tok = takeWhile (\<lambda>c. c \<noteq> 32) rest in
      if rest = [] then [] else tok # words (drop (length tok + 1) rest))"
  by pat_completeness auto
termination
proof (relation "measure length")
  fix cs rest tok :: "u8 list"
  assume rest: "rest = dropWhile (\<lambda>c. c = 32) cs" and ne: "rest \<noteq> []"
  have "length rest \<le> length cs"
    unfolding rest by (rule length_dropWhile_le)
  moreover have "0 < length rest"
    using ne by simp
  ultimately show "(drop (length tok + 1) rest, cs) \<in> measure length"
    by (simp only: in_measure length_drop)
qed simp

declare words.simps [simp del]

lemma words_none: "words cs = [] \<Longrightarrow> set cs \<subseteq> {32}"
  by (subst (asm) words.simps) (auto simp: Let_def dropWhile_eq_Nil_conv split: if_splits)

lemma words_some:
  assumes "words cs = w # ws"
  obtains pre rest where "cs = pre @ w @ rest" "set pre \<subseteq> {32}" "w \<noteq> []" "32 \<notin> set w"
    "rest = [] \<and> ws = [] \<or> (\<exists>ys. rest = 32 # ys \<and> words ys = ws)"
proof -
  define pre where "pre = takeWhile (\<lambda>c. c = 32) cs"
  define rest where "rest = dropWhile (\<lambda>c. c = 32) cs"
  define tail where "tail = dropWhile (\<lambda>c. c \<noteq> 32) rest"
  have unfold: "words cs = (if rest = [] then [] else takeWhile (\<lambda>c. c \<noteq> 32) rest # words (drop (length (takeWhile (\<lambda>c. c \<noteq> 32) rest) + 1) rest))"
    unfolding rest_def by (subst words.simps) (simp only: Let_def)
  have ne: "rest \<noteq> []" and w: "w = takeWhile (\<lambda>c. c \<noteq> 32) rest" and ws: "ws = words (drop (length w + 1) rest)"
    using assms unfolding unfold by (auto split: if_splits)
  have split: "rest = w @ tail"
    by (simp add: w tail_def)
  have "cs = pre @ w @ tail"
    unfolding split [symmetric] by (simp add: pre_def rest_def)
  moreover have "set pre \<subseteq> {32}"
    unfolding pre_def using set_takeWhileD by fastforce
  moreover have "w \<noteq> []"
    unfolding w using ne hd_dropWhile [of "\<lambda>c. c = 32" cs] by (cases rest) (auto simp: rest_def)
  moreover have "32 \<notin> set w"
    unfolding w using set_takeWhileD by fastforce
  moreover have "tail = [] \<and> ws = [] \<or> (\<exists>ys. tail = 32 # ys \<and> words ys = ws)"
  proof (cases tail)
    case Nil
    then show ?thesis
      using ws split by (simp add: words.simps [of "[]"])
  next
    case (Cons y ys)
    then have "y = 32"
      using hd_dropWhile [of "\<lambda>c. c \<noteq> 32" rest] by (simp add: tail_def)
    then show ?thesis
      using ws split Cons by simp
  qed
  ultimately show ?thesis
    using that by blast
qed

lemma strtok_none:
  assumes "cstr m delim ds" and "str_fits delim ds" and "cstr m p cs" and "set cs \<subseteq> set ds"
    and "p = (if str \<noteq> 0 then str else save)" and "p \<noteq> 0"
  shows "strtok m save str delim = Some (0, 0, m)"
proof -
  have tw: "takeWhile (\<lambda>c. c \<in> set ds) cs = cs"
    using assms(4) by (simp add: takeWhile_eq_all_conv subset_iff)
  have "strtok_skip m delim p = Some (p + of_nat (length cs))"
    using strtok_skip_eq [OF assms(1-3)] unfolding tw .
  then show ?thesis
    using assms(3,5,6) by (simp add: strtok_def cstr_iff)
qed

lemma strtok_word:
  assumes "cstr m delim ds" and "str_fits delim ds" and "cstr m p (pre @ w @ rest)"
    and "set pre \<subseteq> set ds" and "w \<noteq> []" and "set w \<inter> set ds = {}" and "rest = [] \<or> hd rest \<in> set ds"
    and "p = (if str \<noteq> 0 then str else save)" and "p \<noteq> 0" and q: "q = p + of_nat (length pre)"
  shows "strtok m save str delim =
    (if rest = [] then Some (q, 0, m) else Some (q, q + of_nat (length w) + 1, m(q + of_nat (length w) := 0)))"
proof -
  have "takeWhile (\<lambda>c. c \<in> set ds) (pre @ w @ rest) = pre"
    using assms(4-6) by (subst takeWhile_append2) (auto simp: neq_Nil_conv)
  then have skip: "strtok_skip m delim p = Some q"
    using strtok_skip_eq [OF assms(1-3)] by (simp add: q)
  have at: "cstr m q (w @ rest)"
    using cstr_drop [OF assms(3)] by (simp add: q)
  have "takeWhile (\<lambda>c. c \<notin> set ds) (w @ rest) = w"
    using assms(6,7) by (subst takeWhile_append2) (auto, cases rest, auto)
  then have scan: "strtok_scan m delim q = Some (q + of_nat (length w))"
    using strtok_scan_eq [OF assms(1,2) at] by simp
  have "m q \<noteq> 0"
    using at assms(5) by (cases w) auto
  moreover have "m (q + of_nat (length w)) = 0 \<longleftrightarrow> rest = []"
    using cstr_drop [OF at] by (cases rest) auto
  ultimately show ?thesis
    using skip scan assms(8,9) by (simp add: strtok_def)
qed


section \<open>The argument vector\<close>

text \<open>
  The line ends at \<open>e\<close>.  \<open>pending\<close>: from the saved pointer on it holds the words \<open>ws\<close>; no byte below \<open>lo\<close> is changed any more.
\<close>

definition pending :: "mem \<Rightarrow> u32 \<Rightarrow> nat \<Rightarrow> nat \<Rightarrow> u8 list list \<Rightarrow> bool" where
  "pending m save lo e ws \<longleftrightarrow> e < 4294967296 \<and> (save = 0 \<and> ws = [] \<and> lo = e + 1 \<or>
     save \<noteq> 0 \<and> (\<exists>cs. cstr m save cs \<and> words cs = ws \<and> unat save + length cs = e \<and> lo = unat save))"

definition token_at :: "mem \<Rightarrow> nat \<Rightarrow> nat \<Rightarrow> u32 \<Rightarrow> u8 list \<Rightarrow> bool" where
  "token_at m a lo q w \<longleftrightarrow> cstr m q w \<and> q \<noteq> 0 \<and> a \<le> unat q \<and> unat q + length w < lo"

lemma offset_unat: "unat (p :: u32) + n < 4294967296 \<Longrightarrow> unat (p + of_nat n) = unat p + n"
  by (simp add: unat_add_u32 unat_of_nat_u32)

lemma strtok_pending:
  assumes del: "cstr m delim [32]" "str_fits delim [32]" and p: "p = (if str \<noteq> 0 then str else save)" "p \<noteq> 0"
    and cs: "cstr m p cs" "words cs = ws" "unat p + length cs = e" "e < 4294967296"
  shows "case ws of [] \<Rightarrow> strtok m save str delim = Some (0, 0, m)
    | w # ws' \<Rightarrow> \<exists>q save' m' lo'. strtok m save str delim = Some (q, save', m') \<and> token_at m' (unat p) lo' q w \<and>
        pending m' save' lo' e ws' \<and> (\<forall>x. \<not> (unat p \<le> unat x \<and> unat x \<le> e) \<longrightarrow> m' x = m x)"
proof (cases ws)
  case Nil
  then show ?thesis
    using strtok_none [OF del cs(1) _ p] words_none [of cs] cs(2) by simp
next
  case (Cons w ws')
  obtain pre rest where s: "cs = pre @ w @ rest" "set pre \<subseteq> {32}" "w \<noteq> []" "32 \<notin> set w"
    "rest = [] \<and> ws' = [] \<or> (\<exists>ys. rest = 32 # ys \<and> words ys = ws')"
    using words_some [of cs w ws'] cs(2) Cons by blast
  define q where "q = p + of_nat (length pre)"
  have lenq: "unat q = unat p + length pre"
    using cs(3,4) unfolding q_def s(1) by (intro offset_unat) simp
  have at: "cstr m q (w @ rest)"
    using cstr_drop [of m p pre "w @ rest"] cs(1) by (simp add: s(1) q_def)
  have "0 < unat p"
    using p(2) by (simp add: unat_gt_0)
  then have qe: "unat q + length w + length rest = e" "q \<noteq> 0"
    using cs(3) lenq by (auto simp: s(1))
  have tok: "strtok m save str delim =
      (if rest = [] then Some (q, 0, m) else Some (q, q + of_nat (length w) + 1, m(q + of_nat (length w) := 0)))"
    using strtok_word [OF del cs(1) [unfolded s(1)] _ s(3) _ _ p q_def] s(2,4,5) by auto
  show ?thesis
  proof (cases rest)
    case Nil
    have "token_at m (unat p) (e + 1) q w"
      using at qe lenq by (simp add: Nil token_at_def)
    moreover have "pending m 0 (e + 1) e ws'"
      using s(5) cs(4) by (simp add: Nil pending_def)
    ultimately show ?thesis
      using tok by (auto simp: Cons Nil)
  next
    case (Cons y ys)
    then have y: "rest = 32 # ys" "words ys = ws'"
      using s(5) by auto
    let ?m = "m(q + of_nat (length w) := 0)"
    have fin: "unat (q + of_nat (length w)) = unat q + length w" "unat (q + of_nat (length w) + 1) = unat q + length w + 1"
      using offset_unat [of q "length w"] offset_unat [of q "length w + 1"] qe cs(4) by (simp_all add: y(1) add.assoc add.commute [of 1])
    have "0 < unat q"
      using qe(2) by (simp add: unat_gt_0)
    then have len: "length w + length ys < 4294967294"
      using qe(1) cs(4) by (simp add: y(1))
    have cut: "cstr ?m q w" "cstr ?m (q + of_nat (length w) + 1) ys"
      using cstr_cut [of m q w 32 ys] at len by (simp_all add: y(1))
    have "token_at ?m (unat p) (unat q + length w + 1) q w"
      using cut(1) qe lenq by (simp add: token_at_def)
    moreover have "q + of_nat (length w) + 1 \<noteq> 0"
      using fin(2) by auto
    then have "pending ?m (q + of_nat (length w) + 1) (unat q + length w + 1) e ws'"
      using cut(2) y qe(1) cs(4) fin(2) unfolding pending_def by (intro conjI disjI2 exI [of _ ys]) auto
    moreover have "?m x = m x" if "\<not> (unat p \<le> unat x \<and> unat x \<le> e)" for x
      using that fin(1) lenq qe(1) by (auto simp: y(1))
    ultimately show ?thesis
      using tok by (auto simp: \<open>ws = w # ws'\<close> y(1))
  qed
qed


lemma pending_agree:
  assumes "pending m save lo e ws" and "\<And>x. lo \<le> unat x \<Longrightarrow> unat x \<le> e \<Longrightarrow> m' x = m x"
  shows "pending m' save lo e ws"
proof (cases "save = 0")
  case True
  then show ?thesis
    using assms(1) by (simp add: pending_def)
next
  case False
  then obtain cs where cs: "cstr m save cs" "words cs = ws" "unat save + length cs = e" "lo = unat save" "e < 4294967296"
    using assms(1) by (auto simp: pending_def)
  have "cstr m' save cs"
  proof (rule cstr_agree [OF cs(1)])
    fix j assume "j \<le> length cs"
    then show "m' (save + of_nat j) = m (save + of_nat j)"
      using cs(3-5) offset_unat [of save j] by (intro assms(2)) auto
  qed
  then show ?thesis
    using False cs(2-5) unfolding pending_def by blast
qed

lemma token_at_agree:
  assumes "token_at m a lo q w" and "lo \<le> 4294967296" and "\<And>x. a \<le> unat x \<Longrightarrow> unat x < lo \<Longrightarrow> m' x = m x"
  shows "token_at m' a lo q w"
proof -
  have "cstr m' q w"
  proof (rule cstr_agree [of m])
    fix j assume "j \<le> length w"
    then show "m' (q + of_nat j) = m (q + of_nat j)"
      using assms(1,2) offset_unat [of q j] by (intro assms(3)) (auto simp: token_at_def)
  qed (use assms(1) in \<open>simp add: token_at_def\<close>)
  then show ?thesis
    using assms(1) by (simp add: token_at_def)
qed

text \<open>The bytes of the entries \<open>k .. n - 1\<close> of an argument vector.\<close>

definition entries :: "u32 \<Rightarrow> nat \<Rightarrow> nat \<Rightarrow> u32 \<Rightarrow> bool" where
  "entries argv k n x \<longleftrightarrow> 4 * k \<le> unat (x - argv) \<and> unat (x - argv) < 4 * n"

lemma entry_range:
  assumes "4 * k + 4 < 4294967296"
  shows "in_range x (argv + of_nat k * 4) 4 \<longleftrightarrow> entries argv k (Suc k) x"
proof -
  have x: "x = argv + of_nat (unat (x - argv))"
    by simp
  have a: "argv + of_nat k * 4 = argv + of_nat (4 * k)"
    by (simp add: mult.commute)
  show ?thesis
    unfolding a by (subst x, subst in_range_window) (use assms in \<open>auto simp: entries_def\<close>)
qed


abbreviation in_line :: "nat \<Rightarrow> nat \<Rightarrow> u32 \<Rightarrow> bool" where
  "in_line a e x \<equiv> a \<le> unat x \<and> unat x \<le> e"

text \<open>The line, the argument vector and the string of the delimiter are apart.\<close>

definition split_apart :: "'d shell_env \<Rightarrow> nat \<Rightarrow> nat \<Rightarrow> u32 \<Rightarrow> nat \<Rightarrow> bool" where
  "split_apart env a e argv n \<longleftrightarrow> argv \<noteq> 0 \<and> 4 * n < 4294967296 \<and> e < 4294967296 \<and>
     (\<forall>x. \<not> (in_line a e x \<and> entries argv 0 n x)) \<and>
     (\<forall>j \<le> 1. \<not> in_line a e (se_literal env '' '' + of_nat j) \<and> \<not> entries argv 0 n (se_literal env '' '' + of_nat j))"

definition delim_ok :: "'d shell_env \<Rightarrow> mem \<Rightarrow> bool" where
  "delim_ok env m \<longleftrightarrow> cstr m (se_literal env '' '') [32] \<and> str_fits (se_literal env '' '') [32]"

lemma delim_ok_agree: "delim_ok env m \<Longrightarrow> (\<And>j. j \<le> 1 \<Longrightarrow> m' (se_literal env '' '' + of_nat j) = m (se_literal env '' '' + of_nat j)) \<Longrightarrow> delim_ok env m'"
  unfolding delim_ok_def by (metis One_nat_def cstr_agree length_Cons list.size(3))

definition split_state :: "mem \<Rightarrow> u32 \<Rightarrow> 'd shell_state \<Rightarrow> 'd shell_state" where
  "split_state m save s = (ss_set_mem m s)\<lparr>ss_strtok := save\<rparr>"

lemma split_state_simps [simp]:
  "ss_mem (split_state m save s) = m" "ss_strtok (split_state m save s) = save" "ss_mem (ss_set_mem m s) = m"
  "ss_strtok (ss_set_mem m s) = ss_strtok s"
  "(ss_set_mem m' (split_state m save s))\<lparr>ss_strtok := save'\<rparr> = split_state m' save' s"
  "split_state m' save' (split_state m save s) = split_state m' save' s"
  "(ss_set_mem m' (ss_set_mem m s))\<lparr>ss_strtok := save'\<rparr> = split_state m' save' s"
  "ss_set_mem m (split_state m' save s) = split_state m save s" "(split_state m save s)\<lparr>ss_strtok := save'\<rparr> = split_state m save' s"
  by (simp_all add: split_state_def ss_set_mem_def ss_set_tty_def ts_set_mem_def ts_set_heap_def)

lemma entries_split: "k < n \<Longrightarrow> entries argv k n x \<longleftrightarrow> entries argv k (Suc k) x \<or> entries argv (Suc k) n x"
  by (auto simp: entries_def)

lemma pending_lo: "pending m save lo e ws \<Longrightarrow> lo \<le> e + 1"
  by (auto simp: pending_def)

lemma token_at_weaken: "token_at m a lo q w \<Longrightarrow> b \<le> a \<Longrightarrow> lo \<le> hi \<Longrightarrow> token_at m b hi q w"
  by (auto simp: token_at_def)

text \<open>One entry is stored; the next token is cut off.\<close>

lemma token_stored:
  assumes "token_at m a lo q w" and "pending m save lo e ws" and "delim_ok env m" and "split_apart env a e argv n" and "k < n"
    and m1: "m1 = store32 m (argv + of_nat k * 4) q"
  shows "token_at m1 a lo q w" "pending m1 save lo e ws" "delim_ok env m1" "load32 m1 (argv + of_nat k * 4) = q"
    "\<not> entries argv k (Suc k) x \<Longrightarrow> m1 x = m x"
proof -
  have ap: "4 * n < 4294967296" "e < 4294967296" "\<not> (in_line a e x \<and> entries argv 0 n x)" for x
    using assms(4) by (auto simp: split_apart_def)
  have m1x: "m1 x = m x" if "\<not> entries argv k (Suc k) x" for x
    unfolding m1 by (rule store32_other) (use that entry_range [of k x argv] assms(5) ap(1) in auto)
  then show "\<not> entries argv k (Suc k) x \<Longrightarrow> m1 x = m x" .
  have out: "\<not> entries argv k (Suc k) x" if "\<not> entries argv 0 n x" for x
    using that assms(5) by (auto simp: entries_def)
  have lo: "lo \<le> e + 1" "a \<le> lo"
    using pending_lo [OF assms(2)] assms(1) by (auto simp: token_at_def)
  show "token_at m1 a lo q w"
    by (rule token_at_agree [OF assms(1)]) (use lo ap m1x out in force)+
  show "pending m1 save lo e ws"
    by (rule pending_agree [OF assms(2)]) (use lo ap m1x out in force)
  show "delim_ok env m1"
    by (rule delim_ok_agree [OF assms(3)]) (use assms(4) m1x out in \<open>auto simp: split_apart_def\<close>)
  show "load32 m1 (argv + of_nat k * 4) = q"
    by (simp add: m1 load32_store32)
qed

lemma token_next:
  assumes "pending m save lo e ws" and "delim_ok env m" and "split_apart env a e argv n" and "a \<le> lo"
  shows "case ws of [] \<Rightarrow> strtok m save 0 (se_literal env '' '') = Some (0, 0, m)
    | w # ws' \<Rightarrow> \<exists>q save' m' lo'. strtok m save 0 (se_literal env '' '') = Some (q, save', m') \<and> token_at m' lo lo' q w \<and>
        pending m' save' lo' e ws' \<and> delim_ok env m' \<and> (\<forall>x. \<not> in_line lo e x \<longrightarrow> m' x = m x)"
proof (cases "save = 0")
  case True
  then show ?thesis
    using assms(1) by (simp add: pending_def strtok_def)
next
  case False
  then obtain cs where cs: "cstr m save cs" "words cs = ws" "unat save + length cs = e" "e < 4294967296" "lo = unat save"
    using assms(1) by (auto simp: pending_def)
  have p: "save = (if (0 :: u32) \<noteq> 0 then 0 else save)"
    by simp
  have "delim_ok env m'" if "\<And>x. \<not> in_line lo e x \<Longrightarrow> m' x = m x" for m'
    by (rule delim_ok_agree [OF assms(2)]) (use assms(3,4) that in \<open>fastforce simp: split_apart_def\<close>)
  moreover have d: "cstr m (se_literal env '' '') [32]" "str_fits (se_literal env '' '') [32]"
    using assms(2) by (simp_all add: delim_ok_def)
  ultimately show ?thesis
    using strtok_pending [OF d p False cs(1-4)] by (auto split: list.splits simp: cs(5))
qed

text \<open>What the loop leaves from its entry \<open>k\<close> on.\<close>

definition args_stored :: "nat \<Rightarrow> nat \<Rightarrow> u32 \<Rightarrow> nat \<Rightarrow> mem \<Rightarrow> u32 list \<Rightarrow> u8 list list \<Rightarrow> bool" where
  "args_stored a e argv k m qs ws \<longleftrightarrow> (\<forall>i < length qs. load32 m (argv + of_nat (k + i) * 4) = qs ! i) \<and>
     list_all2 (token_at m a (e + 1)) qs ws"

lemma args_stored_Cons:
  assumes "args_stored a e argv (Suc k) m qs ws" and "load32 m (argv + of_nat k * 4) = q" and "token_at m a (e + 1) q w"
  shows "args_stored a e argv k m (q # qs) (w # ws)"
  unfolding args_stored_def
proof (intro conjI allI impI)
  fix i assume i: "i < length (q # qs)"
  show "load32 m (argv + of_nat (k + i) * 4) = (q # qs) ! i"
  proof (cases i)
    case 0
    then show ?thesis
      using assms(2) by simp
  next
    case (Suc j)
    then have "load32 m (argv + of_nat (Suc k + j) * 4) = qs ! j"
      using assms(1) i unfolding args_stored_def by (metis length_Cons not_less_eq)
    then show ?thesis
      by (simp only: Suc nth_Cons_Suc add_Suc add_Suc_right)
  qed
qed (use assms(1,3) in \<open>simp add: args_stored_def\<close>)

lemma shell_tokens_ok:
  assumes "token_at m a lo q w" and "pending m save lo e ws" and "delim_ok env m" and "split_apart env a e argv n"
    and "k + length ws < n"
  shows "\<exists>qs m'. shell_tokens env argv (of_nat k) q (split_state m save s) = kret (of_nat (k + 1 + length ws), split_state m' 0 s) \<and>
    args_stored a e argv k m' qs (w # ws) \<and> (\<forall>x. \<not> in_line lo e x \<longrightarrow> \<not> entries argv k n x \<longrightarrow> m' x = m x)"
  using assms
proof (induction ws arbitrary: m lo q w save k)
  case Nil
  define m1 where "m1 = store32 m (argv + of_nat k * 4) q"
  have k: "k < n" and a: "a \<le> lo" and argv: "argv \<noteq> 0"
    using Nil.prems by (auto simp: token_at_def split_apart_def)
  note st = token_stored [OF Nil.prems(1-4) k m1_def]
  have "strtok m1 save 0 (se_literal env '' '') = Some (0, 0, m1)"
    using token_next [OF st(2,3) Nil.prems(4) a] by simp
  then have "shell_tokens env argv (of_nat k) q (split_state m save s) = kret (of_nat k + 1, split_state m1 0 s)"
    using argv by (subst shell_tokens.simps) (simp add: Let_def m1_def [symmetric] ends_def)
  moreover have "token_at m1 a (e + 1) q w"
    using token_at_weaken [OF st(1) le_refl pending_lo [OF st(2)]] .
  then have "args_stored a e argv k m1 [q] [w]"
    using st(4) by (simp add: args_stored_def)
  moreover have "m1 x = m x" if "\<not> entries argv k n x" for x
    using st(5) [of x] that k by (auto simp: entries_split [of k n])
  ultimately show ?case
    by (intro exI [of _ "[q]"] exI [of _ m1]) (simp add: add.commute)
next
  case (Cons v ws)
  define m1 where "m1 = store32 m (argv + of_nat k * 4) q"
  have k: "k < n" and a: "a \<le> lo" and argv: "argv \<noteq> 0" and q: "unat q + length w < lo"
    using Cons.prems by (auto simp: token_at_def split_apart_def)
  have ap: "4 * n < 4294967296" "e < 4294967296" "\<not> (in_line a e x \<and> entries argv 0 n x)" for x
    using Cons.prems(4) by (auto simp: split_apart_def)
  note st = token_stored [OF Cons.prems(1-4) k m1_def]
  obtain q2 save2 m2 lo2 where tok: "strtok m1 save 0 (se_literal env '' '') = Some (q2, save2, m2)"
    "token_at m2 lo lo2 q2 v" "pending m2 save2 lo2 e ws" "delim_ok env m2" "\<And>x. \<not> in_line lo e x \<Longrightarrow> m2 x = m1 x"
    using token_next [OF st(2,3) Cons.prems(4) a] by auto
  have lo2: "lo \<le> lo2" "q2 \<noteq> 0" "lo2 \<le> e + 1"
    using tok(2) pending_lo [OF tok(3)] by (auto simp: token_at_def)
  obtain qs m' where IH: "shell_tokens env argv (of_nat (Suc k)) q2 (split_state m2 save2 s) = kret (of_nat (Suc k + 1 + length ws), split_state m' 0 s)"
    "args_stored a e argv (Suc k) m' qs (v # ws)" "\<And>x. \<not> in_line lo2 e x \<Longrightarrow> \<not> entries argv (Suc k) n x \<Longrightarrow> m' x = m2 x"
    using Cons.IH [OF token_at_weaken [OF tok(2) a le_refl] tok(3,4) Cons.prems(4), of "Suc k"] Cons.prems(5) by auto
  have m': "m' x = m1 x" if "\<not> in_line lo e x" "\<not> entries argv (Suc k) n x" for x
    using IH(3) [of x] tok(5) [of x] that lo2(1) by auto
  have "shell_tokens env argv (of_nat k) q (split_state m save s) = kret (of_nat (Suc k + 1 + length ws), split_state m' 0 s)"
    using argv tok(1) lo2(2) IH(1) by (subst shell_tokens.simps) (simp add: Let_def m1_def [symmetric] ends_def add.commute)
  moreover have "load32 m' (argv + of_nat k * 4) = q"
  proof -
    have "m' (argv + of_nat k * 4 + of_nat j) = m1 (argv + of_nat k * 4 + of_nat j)" if "j < 4" for j
    proof -
      let ?x = "argv + of_nat k * 4 + of_nat j"
      have "in_range ?x (argv + of_nat k * 4) 4"
        using that by simp
      then have "entries argv k (Suc k) ?x"
        using entry_range [of k ?x argv] ap(1) k by simp
      then show ?thesis
        using ap(3) [of ?x] k a by (intro m') (auto simp: entries_def)
    qed
    then show ?thesis
      using load32_agree [of m' "argv + of_nat k * 4" m1] st(4) by simp
  qed
  moreover have "token_at m' a (e + 1) q w"
  proof -
    have "token_at m' a lo q w"
      by (rule token_at_agree [OF st(1)]) (use lo2 ap m' in \<open>force simp: entries_def\<close>)+
    then show ?thesis
      using token_at_weaken lo2 by fastforce
  qed
  moreover have "m' x = m x" if "\<not> in_line lo e x" "\<not> entries argv k n x" for x
    using m' [of x] st(5) [of x] that k by (auto simp: entries_split [of k n])
  ultimately show ?case
    using args_stored_Cons [OF IH(2), of q w] by (intro exI [of _ "q # qs"] exI [of _ m']) auto
qed

end
