(* ===== verification/Shell_Run.thy ===== *)
theory Shell_Run
  imports Shell_Correct
begin

text \<open>
  A whole line: its words are counted, the argument vector is allocated and filled, the first word selects the command,
  and the vector is released again.
\<close>

section \<open>The size of the argument vector\<close>

definition spaces :: "u8 list \<Rightarrow> nat" where
  "spaces cs = length (filter (\<lambda>c. c = 32) cs)"

lemma spaces_simps [simp]: "spaces [] = 0" "spaces (c # cs) = (if c = 32 then Suc (spaces cs) else spaces cs)"
  "spaces (xs @ ys) = spaces xs + spaces ys"
  by (simp_all add: spaces_def)

lemma spaces_le: "spaces cs \<le> length cs"
  by (simp add: spaces_def)

lemma words_le_spaces: "length (words cs) \<le> spaces cs + 1"
proof (induction "length (words cs)" arbitrary: cs)
  case (Suc n)
  then obtain w ws where w: "words cs = w # ws"
    by (cases "words cs") auto
  from words_some [OF w] obtain pre rest where s: "cs = pre @ w @ rest"
    "rest = [] \<and> ws = [] \<or> (\<exists>ys. rest = 32 # ys \<and> words ys = ws)"
    by metis
  then show ?case
    using Suc w by fastforce
qed simp

lemma count_spaces_eq:
  assumes "cstr m p (xs @ ys)" and "length (xs @ ys) < 4294967296"
  shows "shell_count_spaces m p (of_nat (length (xs @ ys))) (of_nat (length xs)) n = n + of_nat (spaces ys)"
  using assms
proof (induction ys arbitrary: xs n)
  case Nil
  then show ?case
    by (simp add: shell_count_spaces.simps)
next
  case (Cons y ys)
  have "(of_nat (length xs) :: u32) < of_nat (length (xs @ y # ys))"
    unfolding word_less_nat_alt by (subst (1 2) unat_of_nat_u32_small) (use Cons.prems(2) in auto)
  moreover have "m (p + of_nat (length xs)) = y"
    using cstr_drop [OF Cons.prems(1)] by simp
  ultimately show ?case
    using Cons.IH [of "xs @ [y]"] Cons.prems by (subst shell_count_spaces.simps) (simp add: add.commute add.left_commute)
qed


section \<open>Bytes that are not printed over\<close>

text \<open>The line in the input buffer and the argument vector.\<close>

definition scratch :: "u32 \<Rightarrow> u8 list \<Rightarrow> u32 \<Rightarrow> u32 \<Rightarrow> bool" where
  "scratch inputs cs argv x \<longleftrightarrow> in_line (unat inputs) (unat inputs + length cs) x \<or> entries argv 0 (spaces cs + 1) x"

lemma split_state_fields [simp]:
  "ss_shells (split_state m v s) = ss_shells s" "ss_commands (split_state m v s) = ss_commands s"
  "ss_lists (split_state m v s) = ss_lists s" "ss_shells (ss_set_heap h s) = ss_shells s"
  "ss_commands (ss_set_heap h s) = ss_commands s" "ss_lists (ss_set_heap h s) = ss_lists s"
  "ss_heap (ss_set_heap h s) = h" "ss_mem (ss_set_heap h s) = mem h" "ss_strtok (ss_set_heap h s) = ss_strtok s"
  "ss_heap (split_state m v s) = (ss_heap s)\<lparr>mem := m\<rparr>"
  by (simp_all add: split_state_def ss_set_mem_def ss_set_heap_def ss_set_tty_def ts_set_mem_def ts_set_heap_def)

lemma split_state_tty [simp]:
  "ts_vga (ss_tty (split_state m v s)) = ts_vga (ss_tty s)" "ts_ttys (ss_tty (split_state m v s)) = ts_ttys (ss_tty s)"
  "ts_streams (ss_tty (split_state m v s)) = ts_streams (ss_tty s)"
  "driver_ptr (ts_registry (ss_tty (split_state m v s))) = driver_ptr (ts_registry (ss_tty s))"
  "video_drivers (ts_registry (ss_tty (split_state m v s))) = video_drivers (ts_registry (ss_tty s))"
  "ts_vga (ss_tty (ss_set_heap h s)) = ts_vga (ss_tty s)" "ts_ttys (ss_tty (ss_set_heap h s)) = ts_ttys (ss_tty s)"
  "ts_streams (ss_tty (ss_set_heap h s)) = ts_streams (ss_tty s)"
  "driver_ptr (ts_registry (ss_tty (ss_set_heap h s))) = driver_ptr (ts_registry (ss_tty s))"
  "video_drivers (ts_registry (ss_tty (ss_set_heap h s))) = video_drivers (ts_registry (ss_tty s))"
  "ts_dev (ss_tty (split_state m v s)) = ts_dev (ss_tty s)" "ts_dev (ss_tty (ss_set_heap h s)) = ts_dev (ss_tty s)"
  by (simp_all add: split_state_def ss_set_mem_def ss_set_heap_def ss_set_tty_def ts_set_mem_def ts_set_heap_def)

text \<open>A new heap and other bytes at quiet addresses leave the shell ready.\<close>

lemma same_output:
  assumes "ts_vga (ss_tty s') = ts_vga (ss_tty s)" and "ts_ttys (ss_tty s') = ts_ttys (ss_tty s)"
    and "ts_streams (ss_tty s') = ts_streams (ss_tty s)"
    and "driver_ptr (ts_registry (ss_tty s')) = driver_ptr (ts_registry (ss_tty s))"
    and "video_drivers (ts_registry (ss_tty s')) = video_drivers (ts_registry (ss_tty s))"
  shows "shell_ready env sh t s' = shell_ready env sh t s" and "still env sh t s' = still env sh t s"
  using assms by (simp_all add: shell_ready_def still_def noisy_def quiet_def stream_on_def stream_apart_def tty_ok_def fun_eq_iff)

lemma same_console:
  assumes ready: "shell_ready env sh t s" and "ts_vga (ss_tty s') = ts_vga (ss_tty s)"
    and m: "\<And>x. \<not> R x \<Longrightarrow> ss_mem s' x = ss_mem s x" and R: "\<And>x. R x \<Longrightarrow> still env sh t s x"
  shows "console (ts_screen (ss_tty s')) = console (ts_screen (ss_tty s))"
proof -
  have "\<not> R x" if "in_range x (vga_buffer (ts_vga (ss_tty s))) 4000" for x
    using R [of x] that by (auto simp: still_def noisy_def quiet_def tty_area_def)
  then show ?thesis
    unfolding ts_screen_def [of "ss_tty s'"] using m assms(2) by (intro console_cong) (auto simp: ts_screen_def)
qed

lemma text_at_same:
  assumes "text_at env sh t s a ds" and "still env sh t s' = still env sh t s"
    and "\<And>j. j \<le> length ds \<Longrightarrow> ss_mem s' (a + of_nat j) = ss_mem s (a + of_nat j)"
  shows "text_at env sh t s' a ds"
  using assms cstr_agree [of "ss_mem s" a ds "ss_mem s'"] by (simp add: text_at_def)

section \<open>Selecting the command\<close>

lemma dispatch_skips:
  assumes "dseg (lnodes (ss_lists s)) pr node nodes nx" and "list_all2 (command_at env sh t s) nodes cmds"
    and "cstr (ss_mem s) name w" and "w \<notin> fst ` set cmds"
  shows "shell_dispatch env sp name argc argv node unknown s = shell_dispatch env sp name argc argv nx unknown s"
  using assms(1,2,4)
proof (induction nodes arbitrary: pr node cmds)
  case (Cons x nodes)
  obtain name' call rest where cmds: "cmds = (name', call) # rest" and cmd: "command_at env sh t s x (name', call)"
    and rest: "list_all2 (command_at env sh t s) nodes rest"
    using Cons.prems(2) by (auto simp: list_all2_Cons1)
  obtain n c where nc: "lnodes (ss_lists s) x = Some n" "ss_commands s (ln_data n) = Some c" "cstr (ss_mem s) (cmd_name c) name'"
    using cmd by (auto simp: command_at_def text_at_def)
  have node: "node = x" "x \<noteq> 0" "dseg (lnodes (ss_lists s)) x (ln_next n) nodes nx"
    using Cons.prems(1) nc(1) by auto
  obtain r where r: "strcmp (ss_mem s) name (cmd_name c) = Some r" "r \<noteq> 0"
    using strcmp_eq [OF assms(3) nc(3)] Cons.prems(3) by (auto simp: cmds)
  have "shell_dispatch env sp name argc argv node unknown s = shell_dispatch env sp name argc argv (ln_next n) unknown s"
    using node nc r by (subst shell_dispatch.simps) (simp add: ends_def)
  then show ?case
    using Cons.IH [OF node(3) rest] Cons.prems(3) by (simp add: cmds)
qed (auto simp: list_all2_Nil)

lemma dispatch_ends: "shell_dispatch env sp name argc argv 0 unknown s = kret (unknown, s)"
  by (simp add: shell_dispatch.simps)

lemma dispatch_unknown:
  assumes "dseg (lnodes (ss_lists s)) pr node nodes 0" and "list_all2 (command_at env sh t s) nodes cmds"
    and "cstr (ss_mem s) name w" and "w \<notin> fst ` set cmds"
  shows "shell_dispatch env sp name argc argv node unknown s = kret (unknown, s)"
  using dispatch_skips [OF assms] by (simp add: dispatch_ends)

lemma dispatch_calls:
  assumes nodes: "dseg (lnodes (ss_lists s)) pr node nodes 0" and cmds: "list_all2 (command_at env sh t s) nodes (before @ (w, fn) # after)"
    and name: "text_at env sh t s name w" and sh: "ss_shells s sp = Some sh" and new: "w \<notin> fst ` set before" "w \<notin> fst ` set after"
    and call: "shell_call fn env sp argc argv s = kret (0, s1)" and pr: "printed env sh out t s t1 s1"
  shows "shell_dispatch env sp name argc argv node unknown s = kret (False, s1)"
proof -
  obtain ns x ns' where ns: "nodes = ns @ x # ns'" "list_all2 (command_at env sh t s) ns before"
    "command_at env sh t s x (w, fn)" "list_all2 (command_at env sh t s) ns' after"
    using cmds by (auto simp: list_all2_append2 list_all2_Cons2)
  note st = printed_state [OF pr]
  have cstr: "cstr (ss_mem s) name w"
    using name by (simp add: text_at_def)
  obtain n c where nc: "lnodes (ss_lists s) x = Some n" "ss_commands s (ln_data n) = Some c" "cmd_call c = fn" "cstr (ss_mem s) (cmd_name c) w"
    using ns(3) by (auto simp: command_at_def text_at_def)
  obtain q where seg: "dseg (lnodes (ss_lists s)) pr node ns x" "x \<noteq> 0" "dseg (lnodes (ss_lists s)) q x (x # ns') 0"
    using nodes nc(1) by (auto simp: ns(1) dseg_append)
  then have rest: "dseg (lnodes (ss_lists s1)) x (ln_next n) ns' 0"
    using nc(1) by (auto simp: st)
  have "strcmp (ss_mem s) name (cmd_name c) = Some 0"
    using strcmp_eq [OF cstr nc(4)] by auto
  then have "shell_dispatch env sp name argc argv x unknown s = shell_dispatch env sp name argc argv (ln_next n) False s1"
    using seg(2) nc call sh by (subst shell_dispatch.simps) (simp add: ends_def st)
  also have "\<dots> = kret (False, s1)"
    using dispatch_unknown [OF rest all_commands_printed [OF pr ns(4)] _ new(2)] text_at_printed [OF pr name] by (simp add: text_at_def)
  finally show ?thesis
    using dispatch_skips [OF seg(1) ns(2) cstr new(1)] by simp
qed

section \<open>A line\<close>

text \<open>The line in the input buffer, apart from the vector that is allocated, from the output and from the delimiter.\<close>

definition line_ready :: "'d shell_env \<Rightarrow> shell \<Rightarrow> tty \<Rightarrow> 'd shell_state \<Rightarrow> u32 \<Rightarrow> u8 list \<Rightarrow> u32 \<Rightarrow> bool" where
  "line_ready env sh t s inputs cs argv \<longleftrightarrow>
     cstr (ss_mem s) inputs cs \<and> inputs \<noteq> 0 \<and> unat inputs + length cs < 4294967296 \<and> delim_ok env (ss_mem s) \<and>
     split_apart env (unat inputs) (unat inputs + length cs) argv (spaces cs + 1) \<and>
     (\<forall>x. scratch inputs cs argv x \<longrightarrow> still env sh t s x)"

text \<open>What follows the splitting.\<close>

definition run_words :: "'d shell_env \<Rightarrow> u32 \<Rightarrow> u32 \<Rightarrow> u32 \<Rightarrow> u32 \<Rightarrow> 'd shell_state \<Rightarrow> 'd shell_state kres" where
  "run_words env sp name argc argv s =
     kbind (deref (ss_shells s) sp) (\<lambda>sh.
     kbind (deref (llists (ss_lists s)) (sh_commands_list sh)) (\<lambda>l.
     kbind (shell_dispatch env sp name argc argv (ll_head l) True s) (\<lambda>(unknown, s4).
     kbind (kfree (ss_heap s4) argv) (\<lambda>h1.
     let s5 = ss_set_heap h1 s4 in
     if unknown then kbind (deref (ss_shells s5) sp) (\<lambda>sh. shell_puts env (sh_out_stream sh) (se_literal env (line ''Unknown command'')) s5)
     else kret s5))))"

lemma argv_first: "args_stored a e argv 0 m (q # qs) ws \<Longrightarrow> load32 m argv = q"
  by (force simp: args_stored_def)

lemma line_counted:
  assumes "line_ready env sh t s inputs cs argv" and "kmalloc (ss_heap s) (of_nat (4 * (spaces cs + 1))) = kret (argv, h)"
  shows "shell_execute_command env sp inputs s =
    kbind (ends (strtok (mem h) (ss_strtok s) inputs (se_literal env '' ''))) (\<lambda>(token, save, m).
      let s2 = split_state m save (ss_set_heap h s) in
      if token = 0 then kret s2
      else kbind (shell_tokens env argv 0 token s2) (\<lambda>(argc, s3). run_words env sp (load32 (ss_mem s3) argv) argc argv s3))"
proof -
  have l: "cstr (ss_mem s) inputs cs" "inputs \<noteq> 0" "unat inputs + length cs < 4294967296"
    using assms(1) by (simp_all add: line_ready_def)
  have "str_fits inputs cs"
    using l(2,3) by (simp add: str_fits_def unat_gt_0)
  then have len: "strlen (ss_mem s) inputs = of_nat (length cs)"
    by (rule strlen_eq [OF l(1)])
  have num: "shell_count_spaces (ss_mem s) inputs (of_nat (length cs)) 0 0 = of_nat (spaces cs)"
    using count_spaces_eq [of "ss_mem s" inputs "[]" cs 0] l(1,3) by simp
  have sz: "(of_nat (spaces cs) + 1) * 4 = (of_nat (4 * (spaces cs + 1)) :: u32)"
    by (simp add: algebra_simps)
  have "kmalloc (ss_heap s) ((of_nat (spaces cs) + 1) * 4) = kret (argv, h)"
    unfolding sz by (rule assms(2))
  then show ?thesis
    unfolding shell_execute_command_def run_words_def split_state_def by (simp add: len num)
qed

lemma shell_splits:
  assumes "line_ready env sh t s inputs cs argv" and "kmalloc (ss_heap s) (of_nat (4 * (spaces cs + 1))) = kret (argv, h)"
    and "mem h = ss_mem s" and ws: "words cs = w # ws"
  shows "\<exists>q qs m. shell_execute_command env sp inputs s =
      run_words env sp q (of_nat (length (words cs))) argv (split_state m 0 (ss_set_heap h s)) \<and>
    args_stored (unat inputs) (unat inputs + length cs) argv 0 m (q # qs) (words cs) \<and>
    (\<forall>x. \<not> scratch inputs cs argv x \<longrightarrow> m x = ss_mem s x)"
proof -
  let ?a = "unat inputs" and ?e = "unat inputs + length cs" and ?n = "spaces cs + 1" and ?s1 = "ss_set_heap h s"
  have l: "cstr (ss_mem s) inputs cs" "inputs \<noteq> 0" "?e < 4294967296" "delim_ok env (ss_mem s)" "split_apart env ?a ?e argv ?n"
    using assms(1) by (simp_all add: line_ready_def)
  have d: "cstr (ss_mem s) (se_literal env '' '') [32]" "str_fits (se_literal env '' '') [32]"
    using l(4) by (simp_all add: delim_ok_def)
  have "inputs = (if inputs \<noteq> 0 then inputs else ss_strtok s)"
    using l(2) by simp
  from strtok_pending [OF d this l(2,1) ws refl l(3)] obtain q save m lo where
    tok: "strtok (ss_mem s) (ss_strtok s) inputs (se_literal env '' '') = Some (q, save, m)" "token_at m ?a lo q w"
    "pending m save lo ?e ws" "\<And>x. \<not> in_line ?a ?e x \<Longrightarrow> m x = ss_mem s x"
    by (auto simp: ws)
  have "delim_ok env m"
    by (rule delim_ok_agree [OF l(4)]) (use l(5) tok(4) in \<open>fastforce simp: split_apart_def\<close>)
  moreover have "length ws < ?n"
    using words_le_spaces [of cs] by (simp add: ws)
  ultimately obtain qs m' where run: "shell_tokens env argv 0 q (split_state m save ?s1) = kret (of_nat (1 + length ws), split_state m' 0 ?s1)"
    "args_stored ?a ?e argv 0 m' qs (w # ws)" "\<And>x. \<not> in_line lo ?e x \<Longrightarrow> \<not> entries argv 0 ?n x \<Longrightarrow> m' x = m x"
    using shell_tokens_ok [OF tok(2,3) _ l(5), of 0 ?s1] by auto
  obtain q' qs' where qs: "qs = q' # qs'"
    using run(2) by (auto simp: args_stored_def list_all2_Cons2)
  have lo: "?a \<le> lo" "q \<noteq> 0"
    using tok(2) by (auto simp: token_at_def)
  have "shell_execute_command env sp inputs s = run_words env sp q' (of_nat (length (words cs))) argv (split_state m' 0 ?s1)"
    using assms(3) tok(1) lo(2) run(1) argv_first [OF run(2) [unfolded qs]]
    by (simp add: line_counted [OF assms(1,2)] ends_def ws)
  moreover have "m' x = ss_mem s x" if "\<not> scratch inputs cs argv x" for x
    using run(3) [of x] tok(4) [of x] that lo(1) by (auto simp: scratch_def)
  ultimately show ?thesis
    using run(2) by (intro exI [of _ q'] exI [of _ qs'] exI [of _ m']) (simp add: qs ws)
qed

text \<open>The names of the commands are not in these bytes.\<close>

definition names_apart :: "(u32 \<Rightarrow> bool) \<Rightarrow> 'd shell_state \<Rightarrow> u32 list \<Rightarrow> (u8 list \<times> shell_fn) list \<Rightarrow> bool" where
  "names_apart R s nodes cmds \<longleftrightarrow> list_all2 (\<lambda>node cmd. \<forall>n c j. lnodes (ss_lists s) node = Some n \<longrightarrow>
     ss_commands s (ln_data n) = Some c \<longrightarrow> j \<le> length (fst cmd) \<longrightarrow> \<not> R (cmd_name c + of_nat j)) nodes cmds"

lemma commands_at_same:
  assumes "commands_at env sp sh t nodes cmds s" and "names_apart R s nodes cmds" and "still env sh t s' = still env sh t s"
    and m: "\<And>x. \<not> R x \<Longrightarrow> ss_mem s' x = ss_mem s x"
    and st: "ss_shells s' = ss_shells s" "ss_commands s' = ss_commands s" "ss_lists s' = ss_lists s"
  shows "commands_at env sp sh t nodes cmds s'"
proof -
  have "list_all2 (command_at env sh t s') nodes cmds"
    unfolding list_all2_conv_all_nth
  proof (intro conjI allI impI)
    show "length nodes = length cmds"
      using assms(1) by (auto simp: commands_at_def dest: list_all2_lengthD)
    fix i assume i: "i < length nodes"
    have "command_at env sh t s (nodes ! i) (cmds ! i)"
      using assms(1) i by (simp add: commands_at_def list_all2_conv_all_nth)
    then obtain n c where nc: "lnodes (ss_lists s) (nodes ! i) = Some n" "ss_commands s (ln_data n) = Some c"
      "cmd_call c = snd (cmds ! i)" "text_at env sh t s (cmd_name c) (fst (cmds ! i))"
      unfolding command_at_def by blast
    have "\<not> R (cmd_name c + of_nat j)" if "j \<le> length (fst (cmds ! i))" for j
      using assms(2) i nc(1,2) that by (auto simp: names_apart_def list_all2_conv_all_nth)
    then have "text_at env sh t s' (cmd_name c) (fst (cmds ! i))"
      using text_at_same [OF nc(4) assms(3)] m by blast
    then show "command_at env sh t s' (nodes ! i) (cmds ! i)"
      using nc unfolding command_at_def st by blast
  qed
  then show ?thesis
    using assms(1) by (simp add: commands_at_def st)
qed

text \<open>Before a command is called, and after its vector is released.\<close>

definition run_ready :: "'d shell_env \<Rightarrow> u32 \<Rightarrow> shell \<Rightarrow> tty \<Rightarrow> 'd shell_state \<Rightarrow> u32 list \<Rightarrow> (u8 list \<times> shell_fn) list \<Rightarrow>
    (nat \<times> nat) set \<Rightarrow> string list \<Rightarrow> u32 \<Rightarrow> u8 list \<Rightarrow> bool" where
  "run_ready env sp sh t s nodes cmds L literals inputs cs \<longleftrightarrow>
     commands_at env sp sh t nodes cmds s \<and> shell_ready env sh t s \<and> (\<forall>l \<in> set literals. literal_at env sh t s l) \<and>
     heap_owns (ss_heap s) L \<and> request_ok (ss_heap s) (4 * (spaces cs + 1)) \<and>
     (\<exists>argv h. kmalloc (ss_heap s) (of_nat (4 * (spaces cs + 1))) = kret (argv, h) \<and> line_ready env sh t s inputs cs argv \<and>
       names_apart (scratch inputs cs argv) s nodes cmds \<and>
       (\<forall>l \<in> set literals. \<forall>j \<le> length l. \<not> scratch inputs cs argv (se_literal env l + of_nat j)))"

definition run_done :: "'d shell_env \<Rightarrow> u32 \<Rightarrow> shell \<Rightarrow> u8 list \<Rightarrow> tty \<Rightarrow> 'd shell_state \<Rightarrow> tty \<Rightarrow> 'd shell_state \<Rightarrow> u32 list \<Rightarrow>
    (u8 list \<times> shell_fn) list \<Rightarrow> (nat \<times> nat) set \<Rightarrow> bool" where
  "run_done env sp sh out t s t' s' nodes cmds L \<longleftrightarrow>
     commands_at env sp sh t' nodes cmds s' \<and> shell_ready env sh t' s' \<and> heap_owns (ss_heap s') L \<and>
     console (ts_screen (ss_tty s')) = console_puts (vga_attri (ts_vga (ss_tty s))) out (console (ts_screen (ss_tty s)))"

text \<open>
  What running a line leaves alone: the bytes outside the heap and in the payloads that were there before, but for the
  line itself and what the output writes to.
\<close>

definition spared :: "'d shell_env \<Rightarrow> shell \<Rightarrow> (nat \<times> nat) set \<Rightarrow> u32 \<Rightarrow> u8 list \<Rightarrow> tty \<Rightarrow> 'd shell_state \<Rightarrow> u32 \<Rightarrow> bool" where
  "spared env sh L inputs cs t s x \<longleftrightarrow> still env sh t s x \<and> \<not> in_line (unat inputs) (unat inputs + length cs) x \<and>
     (off_heap (ss_heap s) x \<or> (\<exists>p k. (p, k) \<in> L \<and> in_range x (adr p) k))"

definition run_keeps :: "'d shell_env \<Rightarrow> shell \<Rightarrow> (nat \<times> nat) set \<Rightarrow> u32 \<Rightarrow> u8 list \<Rightarrow> tty \<Rightarrow> 'd shell_state \<Rightarrow> tty \<Rightarrow> 'd shell_state \<Rightarrow> bool" where
  "run_keeps env sh L inputs cs t s t' s' \<longleftrightarrow> calm t (ss_tty s) t' (ss_tty s') \<and> tty_input t' = tty_input t \<and>
     still env sh t' s' = still env sh t s \<and> ss_shells s' = ss_shells s \<and> ss_commands s' = ss_commands s \<and>
     (\<forall>x. spared env sh L inputs cs t s x \<longrightarrow> ss_mem s' x = ss_mem s x)"

lemma run_keeps_trans:
  assumes "run_keeps env sh L inputs cs t s t1 s1" and "run_keeps env sh L inputs cs t1 s1 t2 s2"
  shows "run_keeps env sh L inputs cs t s t2 s2"
proof -
  have "kheap_base (ss_heap s1) = kheap_base (ss_heap s)" "still env sh t1 s1 = still env sh t s"
    using assms(1) calmD(3) [of t "ss_tty s" t1 "ss_tty s1"] by (simp_all add: run_keeps_def)
  then have "spared env sh L inputs cs t1 s1 = spared env sh L inputs cs t s"
    by (simp add: spared_def off_heap_def fun_eq_iff)
  then show ?thesis
    using assms calm_trans [of t "ss_tty s" t1 "ss_tty s1" t2 "ss_tty s2"] by (simp add: run_keeps_def)
qed

lemma run_keeps_printed: "printed env sh out t s t' s' \<Longrightarrow> run_keeps env sh L inputs cs t s t' s'"
  using printed_state(1,2) [of env sh out t s t' s'] by (simp add: printed_def run_keeps_def spared_def)

lemma run_keeps_heap:
  assumes "kheap_base h = kheap_base (ss_heap s)" and "\<And>x. spared env sh L inputs cs t s x \<Longrightarrow> mem h x = ss_mem s x"
  shows "run_keeps env sh L inputs cs t s t (ss_set_heap h s)"
proof -
  have "still env sh t (ss_set_heap h s) = still env sh t s"
    by (rule same_output; simp)
  moreover have "calm t (ss_tty s) t (ss_tty (ss_set_heap h s))"
    using assms(1) by (auto simp: calm_def same_mode_def ss_set_heap_def ss_set_tty_def ts_set_heap_def)
  ultimately show ?thesis
    using assms(2) by (simp add: run_keeps_def)
qed

lemma run_keeps_split: "run_keeps env sh L inputs cs t s t (split_state m v u) \<longleftrightarrow> run_keeps env sh L inputs cs t s t (ss_set_mem m u)"
  using same_output(2) [of "split_state m v u" "ss_set_mem m u" env sh t] by (simp add: run_keeps_def split_state_def)

lemma new_heap:
  assumes "commands_at env sp sh t nodes cmds s" and "shell_ready env sh t s" and "mem h = ss_mem s"
  shows "commands_at env sp sh t nodes cmds (ss_set_heap h s)" and "shell_ready env sh t (ss_set_heap h s)"
    and "console (ts_screen (ss_tty (ss_set_heap h s))) = console (ts_screen (ss_tty s))"
    and "text_at env sh t (ss_set_heap h s) = text_at env sh t s"
proof -
  have st: "still env sh t (ss_set_heap h s) = still env sh t s" "shell_ready env sh t (ss_set_heap h s) = shell_ready env sh t s"
    by (simp_all add: same_output [of "ss_set_heap h s" s])
  show "shell_ready env sh t (ss_set_heap h s)"
    using st(2) assms(2) by simp
  show "text_at env sh t (ss_set_heap h s) = text_at env sh t s"
    by (intro ext) (simp add: text_at_def st(1) assms(3))
  show "console (ts_screen (ss_tty (ss_set_heap h s))) = console (ts_screen (ss_tty s))"
    using same_console [of env sh t s "ss_set_heap h s" "\<lambda>_. False"] assms(2,3) by simp
  have "names_apart (\<lambda>_. False) s nodes cmds"
    using assms(1) by (simp add: names_apart_def commands_at_def list_all2_conv_all_nth)
  then show "commands_at env sp sh t nodes cmds (ss_set_heap h s)"
    using commands_at_same [OF assms(1) _ st(1), of "\<lambda>_. False"] assms(3) by simp
qed

lemma same_state:
  assumes "commands_at env sp sh t nodes cmds s" and "shell_ready env sh t s"
  shows "commands_at env sp sh t nodes cmds (split_state (ss_mem s) v (ss_set_heap h s))"
    and "shell_ready env sh t (split_state (ss_mem s) v (ss_set_heap h s))"
    and "console (ts_screen (ss_tty (split_state (ss_mem s) v (ss_set_heap h s)))) = console (ts_screen (ss_tty s))"
proof -
  let ?s = "split_state (ss_mem s) v (ss_set_heap h s)"
  have st: "shell_ready env sh t ?s = shell_ready env sh t s" "still env sh t ?s = still env sh t s"
    by (rule same_output; simp)+
  show "shell_ready env sh t ?s" "console (ts_screen (ss_tty ?s)) = console (ts_screen (ss_tty s))"
    using st(1) assms(2) same_console [of env sh t s ?s "\<lambda>_. False"] by simp_all
  have "names_apart (\<lambda>_. False) s nodes cmds"
    using assms(1) by (auto simp: names_apart_def commands_at_def list_all2_conv_all_nth)
  then show "commands_at env sp sh t nodes cmds ?s"
    by (rule commands_at_same [OF assms(1) _ st(2)]) simp_all
qed

lemma run_splits:
  assumes "run_ready env sp sh t s nodes cmds L literals inputs cs" and w: "words cs = w # ws"
  obtains q argv h m sz where
    "shell_execute_command env sp inputs s = run_words env sp q (of_nat (length (words cs))) argv (split_state m 0 (ss_set_heap h s))"
    "commands_at env sp sh t nodes cmds (split_state m 0 (ss_set_heap h s))" "shell_ready env sh t (split_state m 0 (ss_set_heap h s))"
    "text_at env sh t (split_state m 0 (ss_set_heap h s)) q w"
    "\<forall>l \<in> set literals. literal_at env sh t (split_state m 0 (ss_set_heap h s)) l"
    "console (ts_screen (ss_tty (split_state m 0 (ss_set_heap h s)))) = console (ts_screen (ss_tty s))"
    "heap_owns h (insert (unat argv, sz) L)" "(unat argv, sz) \<notin> L"
    "run_keeps env sh L inputs cs t s t (split_state m 0 (ss_set_heap h s))"
proof -
  obtain argv h where ah: "kmalloc (ss_heap s) (of_nat (4 * (spaces cs + 1))) = kret (argv, h)" "line_ready env sh t s inputs cs argv"
    "names_apart (scratch inputs cs argv) s nodes cmds"
    "\<And>l j. l \<in> set literals \<Longrightarrow> j \<le> length l \<Longrightarrow> \<not> scratch inputs cs argv (se_literal env l + of_nat j)"
    using assms(1) by (auto simp: run_ready_def)
  have a: "commands_at env sp sh t nodes cmds s" "shell_ready env sh t s" "\<And>l. l \<in> set literals \<Longrightarrow> literal_at env sh t s l"
    "heap_owns (ss_heap s) L" "request_ok (ss_heap s) (4 * (spaces cs + 1))"
    using assms(1) by (simp_all add: run_ready_def)
  have argv: "argv \<noteq> 0" "unat inputs + length cs < 4294967296"
    using ah(2) by (simp_all add: line_ready_def split_apart_def)
  obtain p sz where p: "argv = adr p" "heap_owns h (insert (p, sz) L)" "(p, sz) \<notin> L" "mem h = ss_mem s"
    "4 * (spaces cs + 1) \<le> sz" "kheap_base h = kheap_base (ss_heap s)"
    using owns_alloc [OF a(4,5) ah(1) argv(1)] by blast
  have up: "unat argv = p"
    using heap_alloc.owned_bounds [OF p(2), of p sz] by (simp add: p(1))
  obtain q qs m where r: "shell_execute_command env sp inputs s =
      run_words env sp q (of_nat (length (words cs))) argv (split_state m 0 (ss_set_heap h s))"
    "args_stored (unat inputs) (unat inputs + length cs) argv 0 m (q # qs) (words cs)"
    "\<And>x. \<not> scratch inputs cs argv x \<Longrightarrow> m x = ss_mem s x"
    using shell_splits [OF ah(2,1) p(4) w] by blast
  let ?s = "split_state m 0 (ss_set_heap h s)"
  have out: "shell_ready env sh t ?s = shell_ready env sh t s" "still env sh t ?s = still env sh t s"
    by (rule same_output; simp)+
  have tok: "token_at m (unat inputs) (unat inputs + length cs + 1) q w"
    using r(2) by (simp add: args_stored_def w)
  have "still env sh t s (q + of_nat j)" if "j \<le> length w" for j
  proof -
    have "unat (q + of_nat j) = unat q + j"
      using tok that argv(2) by (intro offset_unat) (auto simp: token_at_def)
    then show ?thesis
      using tok that ah(2) by (auto simp: token_at_def line_ready_def scratch_def)
  qed
  moreover have "str_fits q w"
    using tok argv(2) by (auto simp: token_at_def str_fits_def unat_gt_0)
  ultimately have name: "text_at env sh t ?s q w"
    using tok by (simp add: text_at_def out(2) token_at_def)
  have lit: "literal_at env sh t ?s l" if "l \<in> set literals" for l
    unfolding literal_at_def
    by (rule text_at_same [OF a(3) [OF that, unfolded literal_at_def] out(2)]) (use r(3) ah(4) [OF that] in simp)
  have con: "console (ts_screen (ss_tty ?s)) = console (ts_screen (ss_tty s))"
    by (rule same_console [OF a(2), of _ "scratch inputs cs argv"]) (use r(3) ah(2) in \<open>auto simp: line_ready_def\<close>)
  have "m x = ss_mem s x" if sp: "spared env sh L inputs cs t s x" for x
  proof -
    have "\<not> in_range x (adr p) sz"
    proof
      assume x: "in_range x (adr p) sz"
      then have "\<not> off_heap (ss_heap s) x"
        using owned_byte [OF p(2), of p sz x] p(6) by (simp add: off_heap_def)
      then obtain q k where q: "(q, k) \<in> L" "in_range x (adr q) k"
        using sp by (auto simp: spared_def)
      then show False
        using heap_alloc.owned_ranges_disjoint [OF p(2), of p sz q k] x p(3) by (auto simp: disjoint_ranges_def)
    qed
    then have "\<not> entries argv 0 (spaces cs + 1) x"
      using p(1,5) by (auto simp: entries_def in_range_def)
    then show ?thesis
      using sp r(3) by (simp add: scratch_def spared_def)
  qed
  then have "run_keeps env sh L inputs cs t s t (ss_set_heap (h\<lparr>mem := m\<rparr>) s)"
    using p(6) by (intro run_keeps_heap) simp_all
  then have keeps: "run_keeps env sh L inputs cs t s t ?s"
    unfolding run_keeps_split by (simp add: ss_set_mem_def ss_set_heap_def ss_set_tty_def ts_set_mem_def ts_set_heap_def)
  have "commands_at env sp sh t nodes cmds ?s"
    by (rule commands_at_same [OF a(1) ah(3) out(2)]) (use r(3) in simp_all)
  then show ?thesis
    using that r(1) a(2) out(1) name lit con p(2,3) up keeps by simp
qed

lemma run_releases:
  assumes "commands_at env sp sh t nodes cmds s" and "printed env sh out t s t1 s1" and "heap_owns (ss_heap s) (insert (unat argv, sz) L)"
    and "(unat argv, sz) \<notin> L"
  obtains h1 where "kfree (ss_heap s1) argv = kret h1" "mem h1 = ss_mem s1"
    "run_done env sp sh out t s t1 (ss_set_heap h1 s1) nodes cmds L" "\<And>L inputs cs. run_keeps env sh L inputs cs t s t1 (ss_set_heap h1 s1)"
proof -
  note pr = printed_state [OF assms(2)]
  have own: "heap_owns (ss_heap s1) (insert (unat argv, sz) L)"
    using heap_owns_mem [OF assms(3)] pr(8) by metis
  obtain h1 where h1: "kfree (ss_heap s1) argv = kret h1" "heap_owns h1 L" "mem h1 = ss_mem s1" "kheap_base h1 = kheap_base (ss_heap s1)"
    using owns_release [OF own, of "unat argv" sz] assms(4) by auto
  have "run_keeps env sh L' inputs cs t s t1 (ss_set_heap h1 s1)" for L' inputs cs
    using run_keeps_trans [OF run_keeps_printed [OF assms(2)] run_keeps_heap [OF h1(4)]] h1(3) by simp
  moreover have "shell_ready env sh t1 s1" "console (ts_screen (ss_tty s1)) = console_puts (vga_attri (ts_vga (ss_tty s))) out (console (ts_screen (ss_tty s)))"
    using assms(2) by (simp_all add: printed_def)
  then have "run_done env sp sh out t s t1 (ss_set_heap h1 s1) nodes cmds L"
    using new_heap [OF commands_at_printed [OF assms(2,1)] _ h1(3)] h1(2) by (simp add: run_done_def)
  ultimately show ?thesis
    using h1 that by blast
qed


section \<open>Lines that run\<close>

lemma run_unknown:
  assumes "run_ready env sp sh t s nodes cmds L [line ''Unknown command''] inputs cs" and "words cs = w # ws"
    and "w \<notin> fst ` set cmds"
  shows "\<exists>t' s'. shell_execute_command env sp inputs s = kret s' \<and>
    run_done env sp sh (map ch (line ''Unknown command'')) t s t' s' nodes cmds L \<and> run_keeps env sh L inputs cs t s t' s'"
proof -
  obtain q argv h m sz where r: "shell_execute_command env sp inputs s =
      run_words env sp q (of_nat (length (words cs))) argv (split_state m 0 (ss_set_heap h s))"
    "commands_at env sp sh t nodes cmds (split_state m 0 (ss_set_heap h s))" "shell_ready env sh t (split_state m 0 (ss_set_heap h s))"
    "text_at env sh t (split_state m 0 (ss_set_heap h s)) q w" "\<forall>l \<in> set [line ''Unknown command'']. literal_at env sh t (split_state m 0 (ss_set_heap h s)) l"
    "console (ts_screen (ss_tty (split_state m 0 (ss_set_heap h s)))) = console (ts_screen (ss_tty s))"
    "heap_owns h (insert (unat argv, sz) L)" "(unat argv, sz) \<notin> L"
    "run_keeps env sh L inputs cs t s t (split_state m 0 (ss_set_heap h s))"
    by (rule run_splits [OF assms(1,2)])
  let ?s = "split_state m 0 (ss_set_heap h s)"
  have c: "ss_shells ?s sp = Some sh" "list_ok (ss_lists ?s) (sh_commands_list sh) nodes" "list_all2 (command_at env sh t ?s) nodes cmds"
    using r(2) by (simp_all add: commands_at_def)
  note l = list_okD [OF c(2)]
  have "shell_dispatch env sp q (of_nat (length (words cs))) argv (hd_or nodes 0) True ?s = kret (True, ?s)"
    using dispatch_unknown [OF l(3) c(3) _ assms(3)] r(4) by (simp add: text_at_def)
  moreover obtain h1 where h1: "kfree (ss_heap ?s) argv = kret h1" "mem h1 = ss_mem ?s" "run_done env sp sh [] t ?s t (ss_set_heap h1 ?s) nodes cmds L"
      "run_keeps env sh L inputs cs t ?s t (ss_set_heap h1 ?s)"
    by (rule run_releases [OF r(2) printed_nothing [OF r(3)] _ r(8)]) (use heap_owns_mem [OF r(7)] in auto)
  ultimately have run: "shell_execute_command env sp inputs s = shell_puts env (sh_out_stream sh) (se_literal env (line ''Unknown command'')) (ss_set_heap h1 ?s)"
    using r(1) c(1) l(2) by (simp add: run_words_def)
  have ready: "shell_ready env sh t (ss_set_heap h1 ?s)" "commands_at env sp sh t nodes cmds (ss_set_heap h1 ?s)" "heap_owns h1 L"
    using h1(3) by (simp_all add: run_done_def)
  have "text_at env sh t (ss_set_heap h1 ?s) (se_literal env (line ''Unknown command'')) (map ch (line ''Unknown command''))"
    unfolding new_heap(4) [OF r(2,3) h1(2)] using r(5) by (simp add: literal_at_def)
  moreover have "8 \<notin> set (map ch (line ''Unknown command''))"
    by simp
  ultimately obtain t' s' where puts: "shell_puts env (sh_out_stream sh) (se_literal env (line ''Unknown command'')) (ss_set_heap h1 ?s) = kret s'"
    and pr: "printed env sh (map ch (line ''Unknown command'')) t (ss_set_heap h1 ?s) t' s'"
    using shell_puts_ok [OF ready(1)] by blast
  have "heap_owns (ss_heap s') L"
    by (subst printed_state(8) [OF pr]) (simp add: heap_owns_mem ready(3))
  moreover have "console (ts_screen (ss_tty s')) =
      console_puts (vga_attri (ts_vga (ss_tty s))) (map ch (line ''Unknown command'')) (console (ts_screen (ss_tty s)))"
    using pr h1(3) r(6) by (simp add: printed_def run_done_def console_puts_def)
  moreover have "run_keeps env sh L inputs cs t s t' s'"
    using run_keeps_trans [OF r(9) run_keeps_trans [OF h1(4) run_keeps_printed [OF pr]]] .
  ultimately show ?thesis
    using commands_at_printed [OF pr ready(2)] pr run puts by (intro exI [of _ t'] exI [of _ s']) (simp add: run_done_def printed_def)
qed

lemma run_help:
  assumes "run_ready env sp sh t s nodes cmds L [line ''[%d] %s''] inputs cs" and "words cs = w # ws"
    and "(w, Shell_execute_help) \<in> set cmds" and "distinct (map fst cmds)" and "length cmds < 2147483647"
    and "\<forall>cmd \<in> set cmds. 8 \<notin> set (fst cmd)"
  shows "\<exists>t' s'. shell_execute_command env sp inputs s = kret s' \<and>
    run_done env sp sh (help_text 0 (map fst cmds)) t s t' s' nodes cmds L \<and> run_keeps env sh L inputs cs t s t' s'"
proof -
  obtain q argv h m sz where r: "shell_execute_command env sp inputs s =
      run_words env sp q (of_nat (length (words cs))) argv (split_state m 0 (ss_set_heap h s))"
    "commands_at env sp sh t nodes cmds (split_state m 0 (ss_set_heap h s))" "shell_ready env sh t (split_state m 0 (ss_set_heap h s))"
    "text_at env sh t (split_state m 0 (ss_set_heap h s)) q w" "\<forall>l \<in> set [line ''[%d] %s'']. literal_at env sh t (split_state m 0 (ss_set_heap h s)) l"
    "console (ts_screen (ss_tty (split_state m 0 (ss_set_heap h s)))) = console (ts_screen (ss_tty s))"
    "heap_owns h (insert (unat argv, sz) L)" "(unat argv, sz) \<notin> L"
    "run_keeps env sh L inputs cs t s t (split_state m 0 (ss_set_heap h s))"
    by (rule run_splits [OF assms(1,2)])
  let ?s = "split_state m 0 (ss_set_heap h s)" and ?n = "of_nat (length (words cs)) :: u32"
  have c: "ss_shells ?s sp = Some sh" "list_ok (ss_lists ?s) (sh_commands_list sh) nodes" "list_all2 (command_at env sh t ?s) nodes cmds"
    using r(2) by (simp_all add: commands_at_def)
  note l = list_okD [OF c(2)]
  obtain before after where cmds: "cmds = before @ (w, Shell_execute_help) # after" "w \<notin> fst ` set before" "w \<notin> fst ` set after"
    using assms(3,4) by (auto dest!: split_list)
  obtain t1 s1 where call: "shell_execute_help env sp ?n argv ?s = kret (0, s1)" "printed env sh (help_text 0 (map fst cmds)) t ?s t1 s1"
    using shell_execute_help_ok [OF r(2,3) _ assms(5,6)] r(5) by fastforce
  have "shell_dispatch env sp q ?n argv (hd_or nodes 0) True ?s = kret (False, s1)"
    using dispatch_calls [OF l(3) c(3) [unfolded cmds(1)] r(4) c(1) cmds(2,3) _ call(2)] call(1) by simp
  moreover obtain h1 where "kfree (ss_heap s1) argv = kret h1" "run_done env sp sh (help_text 0 (map fst cmds)) t ?s t1 (ss_set_heap h1 s1) nodes cmds L"
      "run_keeps env sh L inputs cs t ?s t1 (ss_set_heap h1 s1)"
    by (rule run_releases [OF r(2) call(2) _ r(8)]) (use heap_owns_mem [OF r(7)] in auto)
  ultimately show ?thesis
    using r(1,6) c(1) l(2) run_keeps_trans [OF r(9)] by (intro exI [of _ t1] exI [of _ "ss_set_heap h1 s1"]) (simp add: run_words_def run_done_def)
qed


section \<open>A sample shell\<close>

text \<open>Two commands, and two lines in the input buffer.\<close>

definition sample_line :: "u8 list" where
  "sample_line = map ch ''  help me''"

definition sample_noise :: "u8 list" where
  "sample_noise = map ch ''abc''"

definition sample_shell_mem :: mem where
  "sample_shell_mem = store_bytes (store_bytes (store_bytes (store_bytes (store_bytes (store_bytes (store_bytes (\<lambda>_. 0)
     0x100 sample_line) 0x180 sample_noise) 0x200 (map ch ''help'')) 0x220 (map ch ''clear'')) 0x300 (map ch '' ''))
     0x310 (map ch (line ''Unknown command''))) 0x340 (map ch (line ''[%d] %s''))"

definition sample_env :: "unit shell_env" where
  "sample_env = \<lparr>se_io = silent_ports, se_ftoa = \<lambda>m lo hi p. (m, p), se_frame = sample_frame, se_args = 0x380, se_type = 0,
     se_literal = \<lambda>l. if l = '' '' then 0x300 else if l = line ''Unknown command'' then 0x310 else 0x340, se_cpu = idle_cpu\<rparr>"

definition sample_sh :: shell where
  "sample_sh = \<lparr>sh_tty = 0x7000, sh_in_stream = 0, sh_out_stream = 0x8000, sh_err_stream = 0, sh_commands_list = 0x520\<rparr>"

definition sample_shell :: "unit shell_state" where
  "sample_shell = \<lparr>ss_tty = sample_terminal\<lparr>ts_registry := (ts_registry sample_terminal)\<lparr>reg_heap := used_kheap\<lparr>mem := sample_shell_mem\<rparr>,
       reg_lists := \<lparr>lnodes = [0x500 \<mapsto> \<lparr>ln_prev = 0, ln_next = 0x510, ln_data = 0x530\<rparr>, 0x510 \<mapsto> \<lparr>ln_prev = 0x500, ln_next = 0, ln_data = 0x540\<rparr>],
         llists = [0x520 \<mapsto> \<lparr>ll_head = 0x500, ll_tail = 0x510, ll_size = 2\<rparr>]\<rparr>\<rparr>\<rparr>,
     ss_shells = [0x550 \<mapsto> sample_sh],
     ss_commands = [0x530 \<mapsto> \<lparr>cmd_name = 0x200, cmd_call = Shell_execute_help\<rparr>, 0x540 \<mapsto> \<lparr>cmd_name = 0x220, cmd_call = Shell_execute_clear\<rparr>],
     ss_log = \<lparr>cb_buffer = 0, cb_head = 0, cb_tail = 0, cb_capacity = 0, cb_element_size = 0, cb_size = 0\<rparr>,
     ss_drives = [], ss_listeners = [], ss_strtok = 0\<rparr>"

definition sample_commands :: "(u8 list \<times> shell_fn) list" where
  "sample_commands = [(map ch ''help'', Shell_execute_help), (map ch ''clear'', Shell_execute_clear)]"

lemma sample_shell_strings:
  "cstr sample_shell_mem 0x100 sample_line" "cstr sample_shell_mem 0x180 sample_noise" "cstr sample_shell_mem 0x200 (map ch ''help'')"
  "cstr sample_shell_mem 0x220 (map ch ''clear'')" "cstr sample_shell_mem 0x300 [32]"
  "cstr sample_shell_mem 0x310 (map ch (line ''Unknown command''))" "cstr sample_shell_mem 0x340 (map ch (line ''[%d] %s''))"
  by code_simp+

lemma sample_words: "words sample_line = [map ch ''help'', map ch ''me'']" "words sample_noise = [sample_noise]"
  by (simp_all add: sample_line_def sample_noise_def words.simps)

lemma sample_still:
  assumes "unat x < 0x9000 \<or> 0xC0800000 \<le> unat x" and "\<not> (0x380 \<le> unat x \<and> unat x < 0x390)" and "\<not> (0x8000 \<le> unat x \<and> unat x < 0x9000)"
  shows "still sample_env sample_sh sample_ttys sample_shell x"
proof -
  have "\<not> in_range x 0x380 16" "\<not> in_range x 0x8014 32" "\<not> in_range x 0xB000 1024" "\<not> in_range x 0xC00B8000 4000"
    using assms not_below [of x "0x380" 16] not_above [of "0x380" 16 x] not_below [of x "0x8014" 32] not_above [of "0x8014" 32 x]
      not_below [of x "0xB000" 1024] not_above [of "0xB000" 1024 x] not_below [of x "0xC00B8000" 4000] not_above [of "0xC00B8000" 4000 x]
    by (auto simp: word_less_nat_alt)
  moreover have "x \<noteq> 0x9000" "x \<noteq> 0x9001"
    using assms by auto
  ultimately show ?thesis
    using sample_terminal_ok(3)
    by (simp add: still_def noisy_def quiet_def shell_args_def sample_env_def sample_sh_def sample_shell_def sample_area stream_buf_def)
qed


lemma sample_text:
  assumes "cstr sample_shell_mem p cs" and "0 < unat p" and "unat p + length cs < 0x380"
  shows "text_at sample_env sample_sh sample_ttys sample_shell p cs"
proof -
  have "still sample_env sample_sh sample_ttys sample_shell (p + of_nat j)" if "j \<le> length cs" for j
    using offset_unat [of p j] that assms(3) by (intro sample_still) auto
  moreover have "ss_mem sample_shell = sample_shell_mem"
    by (simp add: sample_shell_def)
  ultimately show ?thesis
    using assms by (simp add: text_at_def str_fits_def)
qed

lemma sample_shell_ready: "shell_ready sample_env sample_sh sample_ttys sample_shell"
proof -
  have "tty_ok sample_frame 0x7000 sample_ttys (ss_tty sample_shell)" "stream_on 0x8000 0x7000 (ss_tty sample_shell)"
    "stream_apart sample_frame sample_ttys (ss_tty sample_shell) 0x8000"
    using sample_terminal_ok(1,2) sample_stream_apart
    by (simp_all add: tty_ok_def stream_on_def stream_apart_def sample_shell_def)
  moreover have "\<not> noisy sample_frame 0x8000 sample_ttys (ss_tty sample_shell) x" if "in_range x 0x380 16" for x
  proof -
    have "x < 0x400"
      using that by (auto simp: in_range_ex word_less_nat_alt unat_add_u32 unat_of_nat)
    then have "quiet sample_frame (stream_area 0x8000) sample_ttys sample_terminal x"
      by (intro sample_quiet not_below) (simp_all add: word_less_nat_alt)
    then show ?thesis
      by (simp add: noisy_def quiet_def sample_shell_def)
  qed
  ultimately show ?thesis
    by (simp add: shell_ready_def shell_args_def sample_env_def sample_sh_def)
qed

lemma sample_commands_at: "commands_at sample_env 0x550 sample_sh sample_ttys [0x500, 0x510] sample_commands sample_shell"
proof -
  have name: "text_at sample_env sample_sh sample_ttys sample_shell 0x200 (map ch ''help'')"
    "text_at sample_env sample_sh sample_ttys sample_shell 0x220 (map ch ''clear'')"
    by (rule sample_text [OF sample_shell_strings(3)], simp, simp) (rule sample_text [OF sample_shell_strings(4)], simp, simp)
  have "list_all2 (command_at sample_env sample_sh sample_ttys sample_shell) [0x500, 0x510] sample_commands"
    using name unfolding sample_commands_def by (auto simp: command_at_def sample_shell_def)
  then show ?thesis
    by (simp add: commands_at_def sample_shell_def sample_sh_def list_ok_def hd_or_def last_or_def)
qed

lemma sample_run_ready:
  assumes line: "cstr sample_shell_mem p cs" "0x100 \<le> unat p" "unat p + length cs < 0x200"
    and lits: "set literals \<subseteq> {line ''Unknown command'', line ''[%d] %s''}"
  shows "run_ready sample_env 0x550 sample_sh sample_ttys sample_shell [0x500, 0x510] sample_commands {(0xC0800014, 100)} literals p cs"
proof -
  let ?n = "4 * (spaces cs + 1)"
  have n: "?n < 2000"
    using spaces_le [of cs] line(2,3) by simp
  define h where "h = used_kheap\<lparr>mem := sample_shell_mem\<rparr>"
  have heap: "ss_heap sample_shell = h" and m: "ss_mem sample_shell = sample_shell_mem"
    by (simp_all add: sample_shell_def h_def)
  have inv: "heap_inv h [(100, False), (0x1FFFF74, True)]"
    using used_kheap_inv by (simp add: h_def heap_inv_def linked_def)
  then have own: "heap_owns h {(0xC0800014, 100)}"
    unfolding heap_owns_def used_kheap_live [symmetric] using h_def by (intro exI conjI) (assumption, simp)
  have ok: "request_ok h ?n"
    using n by (simp add: request_ok_def h_def)
  obtain h' where al: "kmalloc h (of_nat ?n) = kret (0xC080008C, h')"
    using kmalloc_live [OF inv ok] n by (fastforce simp: h_def adr_def)
  let ?R = "scratch p cs 0xC080008C"
  have vec: "0xC080008C \<le> unat x \<and> unat x < 0xC080108C" if "entries 0xC080008C 0 (spaces cs + 1) x" for x
  proof -
    have "unat (x - 0xC080008C) < 2000"
      using that n by (simp add: entries_def)
    moreover have "x = 0xC080008C + (x - 0xC080008C)"
      by simp
    ultimately show ?thesis
      using unat_add_u32 [of "0xC080008C" "x - 0xC080008C"] by simp
  qed
  have R: "0x100 \<le> unat x \<and> unat x < 0x200 \<or> 0xC080008C \<le> unat x" if "?R x" for x
    using that vec [of x] line(2,3) by (auto simp: scratch_def)
  have far: "\<not> ?R (q + of_nat j)" if "0x200 \<le> unat q" "j < 0x100" "unat q \<le> 0x400" for q j
    using R [of "q + of_nat j"] offset_unat [of q j] that by auto
  have lr: "line_ready sample_env sample_sh sample_ttys sample_shell p cs 0xC080008C"
  proof -
    have "still sample_env sample_sh sample_ttys sample_shell x" if "?R x" for x
      using R [OF that] vec line(3) that by (intro sample_still) (auto simp: scratch_def)
    moreover have "delim_ok sample_env sample_shell_mem"
      using sample_shell_strings(5) by (simp add: delim_ok_def sample_env_def str_fits_def)
    moreover have "split_apart sample_env (unat p) (unat p + length cs) 0xC080008C (spaces cs + 1)"
    proof -
      have "unat (0x300 + of_nat j :: u32) = 0x300 + j" if "j \<le> 1" for j
        using offset_unat [of "0x300" j] that by simp
      then have "\<not> ?R (0x300 + of_nat j)" if "j \<le> 1" for j
        using R [of "0x300 + of_nat j"] that by auto
      moreover have "\<not> (in_line (unat p) (unat p + length cs) x \<and> entries 0xC080008C 0 (spaces cs + 1) x)" for x
        using vec [of x] line(3) by auto
      ultimately show ?thesis
        using n line(3) by (simp add: split_apart_def sample_env_def scratch_def)
    qed
    ultimately show ?thesis
      using line by (auto simp: line_ready_def m)
  qed
  have "names_apart ?R sample_shell [0x500, 0x510] sample_commands"
    using far [of "0x200"] far [of "0x220"] by (auto simp: names_apart_def sample_shell_def sample_commands_def)
  moreover have "\<forall>l \<in> set literals. \<forall>j \<le> length l. \<not> ?R (se_literal sample_env l + of_nat j)"
    using far [of "0x310"] far [of "0x340"] lits by (auto simp: sample_env_def subset_iff)
  moreover have "literal_at sample_env sample_sh sample_ttys sample_shell (line ''Unknown command'')"
    unfolding literal_at_def by (rule sample_text) (use sample_shell_strings(6) in \<open>simp_all add: sample_env_def\<close>)
  moreover have "literal_at sample_env sample_sh sample_ttys sample_shell (line ''[%d] %s'')"
    unfolding literal_at_def by (rule sample_text) (use sample_shell_strings(7) in \<open>simp_all add: sample_env_def\<close>)
  ultimately have "names_apart ?R sample_shell [0x500, 0x510] sample_commands"
    "\<forall>l \<in> set literals. \<forall>j \<le> length l. \<not> ?R (se_literal sample_env l + of_nat j)"
    "\<forall>l \<in> set literals. literal_at sample_env sample_sh sample_ttys sample_shell l"
    using lits by blast+
  then show ?thesis
    using sample_commands_at sample_shell_ready own ok al lr unfolding run_ready_def heap by blast
qed

section \<open>Properties\<close>

text \<open>
  C17: a line whose first word is the name of no command is answered with the message, and the
  shell, its commands and the payloads of the heap are as before.
\<close>
theorem shell_unknown_command:
  assumes "run_ready env sp sh t s nodes cmds L [line ''Unknown command''] inputs cs" and "words cs = w # ws"
    and "w \<notin> fst ` set cmds"
  shows "\<exists>t' s'. shell_execute_command env sp inputs s = kret s' \<and>
    run_done env sp sh (map ch (line ''Unknown command'')) t s t' s' nodes cmds L"
  using run_unknown [OF assms] by blast

theorem shell_unknown_command_witness:
  "\<exists>t' s'. shell_execute_command sample_env 0x550 0x180 sample_shell = kret s' \<and>
     run_done sample_env 0x550 sample_sh (map ch (line ''Unknown command'')) sample_ttys sample_shell t' s' [0x500, 0x510] sample_commands {(0xC0800014, 100)}"
proof -
  have "run_ready sample_env 0x550 sample_sh sample_ttys sample_shell [0x500, 0x510] sample_commands {(0xC0800014, 100)}
      [line ''Unknown command''] 0x180 sample_noise"
    by (rule sample_run_ready [OF sample_shell_strings(2)]) (simp_all add: sample_noise_def)
  from shell_unknown_command [OF this sample_words(2)] show ?thesis
    by (simp add: sample_noise_def sample_commands_def)
qed

text \<open>
  C6: a line whose first word is the name of the command \<open>help\<close> prints the names of all commands
  with their numbers, and the shell, its commands and the payloads of the heap are as before.
\<close>
theorem shell_help_command:
  assumes "run_ready env sp sh t s nodes cmds L [line ''[%d] %s''] inputs cs" and "words cs = w # ws"
    and "(w, Shell_execute_help) \<in> set cmds" and "distinct (map fst cmds)" and "length cmds < 2147483647"
    and "\<forall>cmd \<in> set cmds. 8 \<notin> set (fst cmd)"
  shows "\<exists>t' s'. shell_execute_command env sp inputs s = kret s' \<and>
    run_done env sp sh (help_text 0 (map fst cmds)) t s t' s' nodes cmds L"
  using run_help [OF assms] by blast

theorem shell_help_command_witness:
  "\<exists>t' s'. shell_execute_command sample_env 0x550 0x100 sample_shell = kret s' \<and>
     run_done sample_env 0x550 sample_sh (help_text 0 [map ch ''help'', map ch ''clear'']) sample_ttys sample_shell t' s' [0x500, 0x510] sample_commands {(0xC0800014, 100)}"
proof -
  have "run_ready sample_env 0x550 sample_sh sample_ttys sample_shell [0x500, 0x510] sample_commands {(0xC0800014, 100)}
      [line ''[%d] %s''] 0x100 sample_line"
    by (rule sample_run_ready [OF sample_shell_strings(1)]) (simp_all add: sample_line_def)
  from shell_help_command [OF this sample_words(1)] show ?thesis
    by (simp add: sample_commands_def)
qed


text \<open>
  C32: a line without words prints nothing, but the argument vector that was allocated for it stays
  in use: every such line takes another payload from the heap.
\<close>
theorem shell_blank_line_leaks:
  assumes "run_ready env sp sh t s nodes cmds L [] inputs cs" and "words cs = []"
  shows "\<exists>s' argv sz. shell_execute_command env sp inputs s = kret s' \<and> (argv, sz) \<notin> L \<and>
    run_done env sp sh [] t s t s' nodes cmds (insert (argv, sz) L)"
proof -
  have a: "commands_at env sp sh t nodes cmds s" "shell_ready env sh t s" "heap_owns (ss_heap s) L"
    "request_ok (ss_heap s) (4 * (spaces cs + 1))"
    using assms(1) by (simp_all add: run_ready_def)
  obtain argv h where al: "kmalloc (ss_heap s) (of_nat (4 * (spaces cs + 1))) = kret (argv, h)" "line_ready env sh t s inputs cs argv"
    using assms(1) by (auto simp: run_ready_def)
  have l: "cstr (ss_mem s) inputs cs" "inputs \<noteq> 0" "unat inputs + length cs < 4294967296" "delim_ok env (ss_mem s)" "argv \<noteq> 0"
    using al(2) by (simp_all add: line_ready_def split_apart_def)
  obtain p sz where p: "argv = adr p" "heap_owns h (insert (p, sz) L)" "(p, sz) \<notin> L" "mem h = ss_mem s"
    using heap_alloc.alloc_law [OF a(3,4)] al(1) l(5) by auto
  note run = line_counted [OF al(2,1)]
  have d: "cstr (ss_mem s) (se_literal env '' '') [32]" "str_fits (se_literal env '' '') [32]"
    using l(4) by (simp_all add: delim_ok_def)
  have "strtok (ss_mem s) (ss_strtok s) inputs (se_literal env '' '') = Some (0, 0, ss_mem s)"
    using strtok_none [OF d l(1) _ _ l(2)] words_none [OF assms(2)] l(2) by simp
  then have "shell_execute_command env sp inputs s = kret (split_state (ss_mem s) 0 (ss_set_heap h s))"
    using p(4) by (simp add: run ends_def split_state_def)
  moreover have "commands_at env sp sh t nodes cmds (split_state (ss_mem s) 0 (ss_set_heap h s))"
    "shell_ready env sh t (split_state (ss_mem s) 0 (ss_set_heap h s))"
    "console (ts_screen (ss_tty (split_state (ss_mem s) 0 (ss_set_heap h s)))) = console (ts_screen (ss_tty s))"
    using same_state [OF a(1,2)] by simp_all
  moreover have "heap_owns (h\<lparr>mem := ss_mem s\<rparr>) (insert (p, sz) L)"
    by (rule heap_owns_mem [OF p(2)])
  ultimately show ?thesis
    using p(3) by (intro exI conjI) (assumption, simp_all add: run_done_def console_puts_def)
qed

theorem shell_blank_line_leaks_witness:
  "\<exists>s' argv sz. shell_execute_command sample_env 0x550 0x1F0 sample_shell = kret s' \<and> (argv, sz) \<noteq> (0xC0800014, 100) \<and>
     heap_owns (ss_heap s') {(argv, sz), (0xC0800014, 100)}"
proof -
  have "cstr sample_shell_mem 0x1F0 []"
    by code_simp
  then have "run_ready sample_env 0x550 sample_sh sample_ttys sample_shell [0x500, 0x510] sample_commands {(0xC0800014, 100)} [] 0x1F0 []"
    by (rule sample_run_ready) simp_all
  from shell_blank_line_leaks [OF this] show ?thesis
    by (auto simp: words.simps run_done_def)
qed

end
