(* ===== verification/Panic.thy ===== *)
theory Panic
  imports Vga
begin

text \<open>
  \<^verbatim>\<open>kernel/src/system/panic.c\<close>: the screen that a panic shows before the machine stops.  In the other theories a call of
  \<^verbatim>\<open>KPANIC\<close> is the error \<open>KPanic\<close>, which ends the computation; this is what the call does.
\<close>

text \<open>The address of \<^verbatim>\<open>panic_buf\<close>, of the arguments on the stack, and the literals.\<close>

record panic_frame =
  qf_buf :: u32
  qf_args :: u32
  qf_literal :: "string \<Rightarrow> u32"

definition kpanic_line ::
  "'d ports \<Rightarrow> (mem \<Rightarrow> u32 \<Rightarrow> u32 \<Rightarrow> u32 \<Rightarrow> mem \<times> u32) \<Rightarrow> panic_frame \<Rightarrow> string \<Rightarrow> u32 list \<Rightarrow> 'd screen \<Rightarrow> 'd screen kres" where
  "kpanic_line io ftoa f format ws sc =
     (case sprintf ftoa (push_args (sc_mem sc) (qf_args f) ws) (qf_buf f) (qf_literal f format) (qf_args f) of None \<Rightarrow> None
      | Some (_, m) \<Rightarrow> vga_strwrite io (qf_buf f) (sc\<lparr>sc_mem := m\<rparr>))"

text \<open>The four lines.\<close>

definition kpanic_lines ::
  "'d ports \<Rightarrow> (mem \<Rightarrow> u32 \<Rightarrow> u32 \<Rightarrow> u32 \<Rightarrow> mem \<times> u32) \<Rightarrow> panic_frame \<Rightarrow> u32 \<Rightarrow> u32 \<Rightarrow> u32 \<Rightarrow> u32 \<Rightarrow> 'd screen \<Rightarrow> 'd screen kres" where
  "kpanic_lines io ftoa f code message file lin sc =
     kbind (vga_strwrite io (qf_literal f (line ''==== KERNEL PANIC ===='')) sc) (\<lambda>sc1.
     kbind (kpanic_line io ftoa f (line ''Location : %s:%d'') [file, lin] sc1) (\<lambda>sc2.
     kbind (kpanic_line io ftoa f (line ''Code     : %d'') [code] sc2) (\<lambda>sc3.
       kpanic_line io ftoa f (line ''Reason   : %s'') [message] sc3)))"

text \<open>Everything before the last loop.  \<^verbatim>\<open>vga_init\<close> allocates, so it can panic itself.\<close>

definition kpanic_report ::
  "'d ports \<Rightarrow> (mem \<Rightarrow> u32 \<Rightarrow> u32 \<Rightarrow> u32 \<Rightarrow> mem \<times> u32) \<Rightarrow> panic_frame \<Rightarrow> u32 \<Rightarrow> u32 \<Rightarrow> u32 \<Rightarrow> u32 \<Rightarrow> u32 \<Rightarrow> vga_state \<Rightarrow> registry \<Rightarrow> 'd \<Rightarrow>
   'd screen kres" where
  "kpanic_report io ftoa f code message file lin vga_ptr v r d =
     kbind (vga_init io (qf_literal f ''VGA Controller'') VGA_80x25_16_TEXT vga_ptr v r d) (\<lambda>(_, v1, r1, d1).
       kpanic_lines io ftoa f code message file lin \<lparr>sc_state = v1, sc_mem = mem (reg_heap r1), sc_dev = d1\<rparr>)"

text \<open>\<^verbatim>\<open>while(1)\<close> at the end: the call does not return.\<close>

definition kpanic_call ::
  "'d ports \<Rightarrow> (mem \<Rightarrow> u32 \<Rightarrow> u32 \<Rightarrow> u32 \<Rightarrow> mem \<times> u32) \<Rightarrow> panic_frame \<Rightarrow> u32 \<Rightarrow> u32 \<Rightarrow> u32 \<Rightarrow> u32 \<Rightarrow> u32 \<Rightarrow> vga_state \<Rightarrow> registry \<Rightarrow> 'd \<Rightarrow>
   'a kres" where
  "kpanic_call io ftoa f code message file lin vga_ptr v r d =
     kbind (kpanic_report io ftoa f code message file lin vga_ptr v r d) (\<lambda>_. None)"

end
