(* ===== verification/Kernel.thy ===== *)
theory Kernel
  imports Shell Vmm_Boot Pci Keyboard Panic
begin

text \<open>
  \<^verbatim>\<open>kernel/src/main.c\<close>: the sequence of the initialisations and the shell.

  The components have their own states; here they become one.  The heap, whose bytes are the memory, is that of the
  virtual memory manager until \<^verbatim>\<open>device_init\<close>, and that of the registry afterwards.
\<close>

section \<open>State\<close>

record 'd kernel =
  kn_segments :: segments
  kn_log :: circular_buffer
  kn_vmm :: vmm
  kn_registry :: registry
  kn_listeners :: "'d listener option list"
  kn_interrupts :: bool
  kn_vga_ptr :: u32
  kn_vga :: vga_state
  kn_pci :: "u32 \<rightharpoonup> pci_device"
  kn_drives :: "ata_device list"
  kn_dev :: 'd

text \<open>
  What the linker, the boot loader and the compiler determine: the literals, the addresses of local variables, arguments
  and tables, the entry points of the interrupts, the bounds of the kernel, the stack pointer in \<^verbatim>\<open>init_kernel\<close>, the
  handler of the keyboard, and what a new PCI structure contains.
\<close>

record 'd kernel_env =
  ke_io :: "'d ports"
  ke_ftoa :: "mem \<Rightarrow> u32 \<Rightarrow> u32 \<Rightarrow> u32 \<Rightarrow> mem \<times> u32"
  ke_literal :: "string \<Rightarrow> u32"
  ke_message :: u32
  ke_args :: u32
  ke_log :: u32
  ke_tables :: "u32 \<times> u32 \<times> u32"
  ke_exc :: "nat \<Rightarrow> u32"
  ke_irq :: "nat \<Rightarrow> u32"
  ke_syscall :: u32
  ke_kernel :: "u32 \<times> u32"
  ke_esp :: u32
  ke_keyboard :: "'d listener"
  ke_fresh :: pci_general_device_info
  ke_frame :: tty_frame
  ke_type :: u32
  ke_cpu :: isr_cpu_state

definition kn_set_heap :: "kheap \<Rightarrow> 'd kernel \<Rightarrow> 'd kernel" where
  "kn_set_heap h k = k\<lparr>kn_vmm := (kn_vmm k)\<lparr>vheap := h\<rparr>\<rparr>"

text \<open>The log as the descriptor tables see it.\<close>

definition kn_klog :: "'d kernel_env \<Rightarrow> 'd kernel \<Rightarrow> klog" where
  "kn_klog env k = \<lparr>kl_ring = kn_log k, kl_mem = mem (vheap (kn_vmm k)), kl_frame = ke_log env, kl_literal = ke_literal env\<rparr>"

definition kn_set_klog :: "klog \<Rightarrow> 'd kernel \<Rightarrow> 'd kernel" where
  "kn_set_klog l k = (kn_set_heap ((vheap (kn_vmm k))\<lparr>mem := kl_mem l\<rparr>) k)\<lparr>kn_log := kl_ring l\<rparr>"

text \<open>A message that is a literal.\<close>

definition kernel_say :: "'d kernel_env \<Rightarrow> string \<Rightarrow> 'd kernel \<Rightarrow> 'd kernel kres" where
  "kernel_say env msg k = kbind (klog_literal (kn_klog env k) KMESSAGE_LEVEL_INFO msg) (\<lambda>l. kret (kn_set_klog l k))"


section \<open>The initialisations with their messages\<close>

text \<open>\<^verbatim>\<open>pmm_init\<close>, up to its last line: the message with the number of free frames and the size of the memory.\<close>

definition kernel_pmm_init :: "'d kernel_env \<Rightarrow> multiboot_info \<Rightarrow> 'd kernel \<Rightarrow> 'd kernel kres" where
  "kernel_pmm_init env info k =
     kbind (pmm_init info (vpmm (kn_vmm k)) (vheap (kn_vmm k))) (\<lambda>(p, h).
     let num_frames = num_memory_frames p - num_memory_frames_used p;
         k1 = k\<lparr>kn_vmm := (kn_vmm k)\<lparr>vheap := h, vpmm := p\<rparr>\<rparr>
     in case sprintf (ke_ftoa env) (push_args (mem h) (ke_args env) [num_frames, memory_size p div 1024 div 1024]) (ke_message env)
          (ke_literal env ''memory: PMM initialized with %d (%d MB) memory frames'') (ke_args env) of None \<Rightarrow> None
        | Some (_, m) \<Rightarrow>
            kbind (kmessage (kn_log k1) m (ke_log env) KMESSAGE_LEVEL_INFO (ke_message env)) (\<lambda>(ring, m1).
              kret ((kn_set_heap (h\<lparr>mem := m1\<rparr>) k1)\<lparr>kn_log := ring\<rparr>)))"

definition kernel_vmm_init :: "'d kernel_env \<Rightarrow> 'd kernel \<Rightarrow> 'd kernel kres" where
  "kernel_vmm_init env k =
     kbind (vmm_init (kn_vmm k) (fst (ke_kernel env)) (snd (ke_kernel env))) (\<lambda>v.
       kernel_say env ''memory: VMM initialized'' (k\<lparr>kn_vmm := v\<rparr>))"

definition kernel_kheap_init :: "'d kernel_env \<Rightarrow> 'd kernel \<Rightarrow> 'd kernel kres" where
  "kernel_kheap_init env k =
     kbind (kheap_init (kn_vmm k)) (\<lambda>v. kernel_say env ''memory: Kernel heap initialized'' (k\<lparr>kn_vmm := v\<rparr>))"

text \<open>\<^verbatim>\<open>gdt_init\<close>, \<^verbatim>\<open>idt_init\<close> and \<^verbatim>\<open>tss_init\<close> on the one state.\<close>

definition kernel_gdt_init :: "'d kernel_env \<Rightarrow> 'd kernel \<Rightarrow> 'd kernel kres" where
  "kernel_gdt_init env k =
     kbind (gdt_init (fst (ke_tables env)) (kn_segments k) (kn_klog env k)) (\<lambda>(s, l). kret ((kn_set_klog l k)\<lparr>kn_segments := s\<rparr>))"

definition kernel_idt_init :: "'d kernel_env \<Rightarrow> 'd kernel \<Rightarrow> 'd kernel kres" where
  "kernel_idt_init env k =
     kbind (idt_init (fst (snd (ke_tables env))) (ke_exc env) (ke_irq env) (ke_syscall env) (kn_segments k) (kn_klog env k)) (\<lambda>(s, l).
       kret ((kn_set_klog l k)\<lparr>kn_segments := s\<rparr>))"

definition kernel_tss_init :: "'d kernel_env \<Rightarrow> 'd kernel \<Rightarrow> 'd kernel kres" where
  "kernel_tss_init env k =
     kbind (tss_init (snd (snd (ke_tables env))) (ucast (gdt_get_selector_value GDT_KERNEL_DATA_SELEKTOR 0)) 0 (kn_segments k) (kn_klog env k)) (\<lambda>(s, l).
       kret ((kn_set_klog l k)\<lparr>kn_segments := s\<rparr>))"

text \<open>One instruction that reads the register.\<close>

definition tss_get_stack_point :: "'d kernel_env \<Rightarrow> u32" where
  "tss_get_stack_point env = ke_esp env"

section \<open>The devices\<close>

text \<open>The registry takes the heap over.\<close>

definition kernel_device_init :: "'d kernel_env \<Rightarrow> 'd kernel \<Rightarrow> 'd kernel kres" where
  "kernel_device_init env k =
     kbind (device_init (ke_literal env ''Computer'') ((kn_registry k)\<lparr>reg_heap := vheap (kn_vmm k)\<rparr>)) (\<lambda>r.
       kret (k\<lparr>kn_registry := r\<rparr>))"

definition kernel_vga_init :: "'d kernel_env \<Rightarrow> 'd kernel \<Rightarrow> 'd kernel kres" where
  "kernel_vga_init env k =
     kbind (vga_init (ke_io env) (ke_literal env ''VGA Controller'') VGA_80x25_16_TEXT (kn_vga_ptr k) (kn_vga k) (kn_registry k) (kn_dev k))
       (\<lambda>(p, v, r, d). kret (k\<lparr>kn_vga_ptr := p, kn_vga := v, kn_registry := r, kn_dev := d\<rparr>))"

definition kernel_ps2_keyboard_init :: "'d kernel_env \<Rightarrow> 'd kernel \<Rightarrow> 'd kernel kres" where
  "kernel_ps2_keyboard_init env k =
     kbind (ps2_keyboard_init (ke_io env) (ke_literal env ''PS/2 Keyboard'') (ke_keyboard env) (kn_registry k) (kn_listeners k) (kn_dev k))
       (\<lambda>(_, r, L, d). kret (k\<lparr>kn_registry := r, kn_listeners := L, kn_dev := d\<rparr>))"

definition kernel_pci_init :: "'d kernel_env \<Rightarrow> 'd kernel \<Rightarrow> 'd kernel kres" where
  "kernel_pci_init env k =
     kbind (pci_init (ke_io env) (ke_ftoa env)
         \<lparr>pf_literal = ke_literal env, pf_message = ke_message env, pf_args = ke_args env, pf_log = ke_log env, pf_fresh = ke_fresh env\<rparr>
         \<lparr>ps_registry = kn_registry k, ps_log = kn_log k, ps_devices = kn_pci k\<rparr> (kn_dev k)) (\<lambda>(_, s, d).
       kret (k\<lparr>kn_registry := ps_registry s, kn_log := ps_log s, kn_pci := ps_devices s, kn_dev := d\<rparr>))"

definition kernel_ata_init :: "'d kernel_env \<Rightarrow> 'd kernel \<Rightarrow> 'd kernel kres" where
  "kernel_ata_init env k =
     kbind (ata_init (ke_io env) (ke_ftoa env)
         \<lparr>af_literal = ke_literal env, af_message = ke_message env, af_args = ke_args env, af_log = ke_log env\<rparr>
         \<lparr>ai_devices = kn_drives k, ai_registry = kn_registry k, ai_log = kn_log k\<rparr> (kn_dev k)) (\<lambda>(_, s, d).
       kret (k\<lparr>kn_registry := ai_registry s, kn_log := ai_log s, kn_drives := ai_devices s, kn_dev := d\<rparr>))"


section \<open>The sequence\<close>

definition kernel_log_init :: "'d kernel \<Rightarrow> 'd kernel kres" where
  "kernel_log_init k =
     kbind (kmessage_init (vheap (kn_vmm k))) (\<lambda>(_, ring, h).
     case ring of None \<Rightarrow> kfault | Some cb \<Rightarrow> kret ((kn_set_heap h k)\<lparr>kn_log := cb\<rparr>))"

definition init_kernel :: "'d kernel_env \<Rightarrow> multiboot_info \<Rightarrow> 'd kernel \<Rightarrow> 'd kernel kres" where
  "init_kernel env info k =
     kbind (kernel_log_init k) (\<lambda>k1.
     kbind (kernel_gdt_init env k1) (\<lambda>k2.
     kbind (kernel_idt_init env k2) (\<lambda>k3.
     kbind (kernel_tss_init env k3) (\<lambda>k4.
     kbind (kernel_pmm_init env info k4) (\<lambda>k5.
     kbind (kernel_vmm_init env k5) (\<lambda>k6.
     let k7 = k6\<lparr>kn_dev := pic_8259_init (ke_io env) (kn_dev k6)\<rparr>;
         k8 = k7\<lparr>kn_segments := tss_update_ring0_stack (ucast (gdt_get_selector_value GDT_KERNEL_DATA_SELEKTOR 0))
           (tss_get_stack_point env) (kn_segments k7)\<rparr> in
     kbind (kernel_kheap_init env k8) (\<lambda>k9.
     kbind (kernel_device_init env k9) (\<lambda>k10.
     kbind (kernel_vga_init env k10) (\<lambda>k11.
     kbind (kernel_ps2_keyboard_init env k11) (\<lambda>k12.
     kbind (kernel_pci_init env k12) (\<lambda>k13.
       kernel_ata_init env k13)))))))))))"

text \<open>The shell starts with no terminal, stream, shell or command.\<close>

definition kernel_shell_env :: "'d kernel_env \<Rightarrow> 'd shell_env" where
  "kernel_shell_env env = \<lparr>se_io = ke_io env, se_ftoa = ke_ftoa env, se_frame = ke_frame env, se_args = ke_args env,
     se_type = ke_type env, se_literal = ke_literal env, se_cpu = ke_cpu env\<rparr>"

definition kernel_shell_state :: "'d kernel \<Rightarrow> 'd shell_state" where
  "kernel_shell_state k = \<lparr>ss_tty = \<lparr>ts_registry = kn_registry k, ts_vga = kn_vga k, ts_dev = kn_dev k, ts_ttys = Map.empty,
       ts_streams = Map.empty, ts_stdterm = 0, ts_listening = False\<rparr>,
     ss_shells = Map.empty, ss_commands = Map.empty, ss_log = kn_log k, ss_drives = kn_drives k, ss_listeners = kn_listeners k, ss_strtok = 0\<rparr>"

definition execute_shell :: "'d kernel_env \<Rightarrow> (nat \<Rightarrow> nat \<Rightarrow> keyboard_event list) \<Rightarrow> 'd kernel \<Rightarrow> 'd shell_state kres" where
  "execute_shell env input k =
     (let senv = kernel_shell_env env; s = kernel_shell_state k in
      kbind (tty_create (ke_frame env) (ss_tty s)) (\<lambda>(tty, t).
      kbind (shell_create senv tty (ss_set_tty t s)) (\<lambda>(sp, s1).
      kbind (shell_execute senv input sp s1) (\<lambda>s2.
      kbind (tty_destroy tty (ss_tty s2)) (\<lambda>t1. shell_destroy sp (ss_set_tty t1 s2))))))"

definition kmain :: "'d kernel_env \<Rightarrow> (nat \<Rightarrow> nat \<Rightarrow> keyboard_event list) \<Rightarrow> multiboot_info \<Rightarrow> 'd kernel \<Rightarrow> 'd shell_state kres" where
  "kmain env input info k =
     (let k0 = k\<lparr>kn_interrupts := clear_interrupt_flag (kn_interrupts k)\<rparr> in
      kbind (init_kernel env info k0) (\<lambda>k1.
      let k2 = k1\<lparr>kn_interrupts := set_interrupt_flag (kn_interrupts k1)\<rparr> in
      execute_shell env input k2))"

end
