(* ===== verification/Kernel_Correct.thy ===== *)
theory Kernel_Correct
  imports Kernel
begin

text \<open>The kernel does not end: after its initialisation the shell serves one line after another.\<close>

lemma kbind_eq_kret: "kbind m f = kret y \<longleftrightarrow> (\<exists>x. m = kret x \<and> f x = kret y)"
  by (simp add: kbind_def split: option.splits sum.splits)

lemma shell_execute_from_never: "shell_execute_from env input k sp s = Some r \<Longrightarrow> \<exists>e. r = Inl e"
proof (rule shell_execute_from.raw_induct [rotated, where P = "\<lambda>_ _ _ _ _ r. \<exists>e. r = Inl e"], assumption)
  fix run :: "'a shell_env \<Rightarrow> (nat \<Rightarrow> nat \<Rightarrow> keyboard_event list) \<Rightarrow> nat \<Rightarrow> u32 \<Rightarrow> 'a shell_state \<Rightarrow> 'a shell_state kres"
    and env input k sp s r
  assume "\<And>env input k sp s r. run env input k sp s = Some r \<Longrightarrow> \<exists>e. r = Inl e"
    and "kbind (shell_round env (input k) sp s) (\<lambda>s1. run env input (k + 1) sp s1) = Some r"
  then show "\<exists>e. r = Inl e"
    by (auto simp: kbind_def split: option.splits sum.splits)
qed

text \<open>The first \<open>n\<close> rounds.\<close>

fun shell_rounds :: "'d shell_env \<Rightarrow> (nat \<Rightarrow> nat \<Rightarrow> keyboard_event list) \<Rightarrow> nat \<Rightarrow> u32 \<Rightarrow> 'd shell_state \<Rightarrow> 'd shell_state kres" where
  "shell_rounds env input 0 sp s = kret s"
| "shell_rounds env input (Suc n) sp s = kbind (shell_rounds env input n sp s) (shell_round env (input n) sp)"

lemma shell_execute_rounds:
  "shell_execute env input sp s = kbind (shell_rounds env input n sp s) (shell_execute_from env input n sp)"
proof (induction n)
  case (Suc n)
  then show ?case
    by (simp add: shell_execute_from.simps [of env input n] kbind_assoc)
qed (simp add: shell_execute_def)

lemma shell_rounds_front:
  "shell_rounds env input (Suc n) sp s = kbind (shell_round env (input 0) sp s) (shell_rounds env (\<lambda>j. input (Suc j)) n sp)"
  by (induction n) (simp_all add: kbind_assoc)

lemma shell_rounds_prefix: "shell_rounds env input m sp s = kret s' \<Longrightarrow> n \<le> m \<Longrightarrow> \<exists>s1. shell_rounds env input n sp s = kret s1"
  by (induction m arbitrary: s') (auto simp: kbind_eq_kret le_Suc_eq)

text \<open>The loop ends with an error exactly when one of its rounds does, all rounds before it having succeeded.\<close>

lemma shell_execute_from_error:
  "shell_execute_from env input k sp s = Some r \<Longrightarrow>
   \<exists>n s2. shell_rounds env (\<lambda>j. input (k + j)) n sp s = kret s2 \<and> shell_round env (input (k + n)) sp s2 = Some r"
proof (rule shell_execute_from.raw_induct [rotated, where P = "\<lambda>env input k sp s r.
    \<exists>n s2. shell_rounds env (\<lambda>j. input (k + j)) n sp s = kret s2 \<and> shell_round env (input (k + n)) sp s2 = Some r"], assumption)
  fix run :: "'a shell_env \<Rightarrow> (nat \<Rightarrow> nat \<Rightarrow> keyboard_event list) \<Rightarrow> nat \<Rightarrow> u32 \<Rightarrow> 'a shell_state \<Rightarrow> 'a shell_state kres"
    and env input k sp s r
  assume IH: "\<And>env input k sp s r. run env input k sp s = Some r \<Longrightarrow>
      \<exists>n s2. shell_rounds env (\<lambda>j. input (k + j)) n sp s = kret s2 \<and> shell_round env (input (k + n)) sp s2 = Some r"
    and run: "kbind (shell_round env (input k) sp s) (\<lambda>s1. run env input (k + 1) sp s1) = Some r"
  show "\<exists>n s2. shell_rounds env (\<lambda>j. input (k + j)) n sp s = kret s2 \<and> shell_round env (input (k + n)) sp s2 = Some r"
  proof (cases "\<exists>s1. shell_round env (input k) sp s = kret s1")
    case True
    then obtain s1 where one: "shell_round env (input k) sp s = kret s1"
      by blast
    then obtain n s2 where "shell_rounds env (\<lambda>j. input (k + 1 + j)) n sp s1 = kret s2"
      "shell_round env (input (k + 1 + n)) sp s2 = Some r"
      using run IH [of env input "k + 1" sp s1 r] by auto
    then show ?thesis
      using one by (intro exI [of _ "Suc n"] exI [of _ s2]) (simp add: shell_rounds_front del: shell_rounds.simps)
  next
    case False
    then have "shell_round env (input k) sp s = Some r"
      using run by (auto simp: kbind_def split: option.splits sum.splits)
    then show ?thesis
      by (intro exI [of _ 0] exI [of _ s]) simp
  qed
qed

lemma shell_execute_error:
  "shell_execute env input sp s = Some (Inl e) \<longleftrightarrow>
   (\<exists>n s2. shell_rounds env input n sp s = kret s2 \<and> shell_round env (input n) sp s2 = Some (Inl e))"
proof
  assume "shell_execute env input sp s = Some (Inl e)"
  then show "\<exists>n s2. shell_rounds env input n sp s = kret s2 \<and> shell_round env (input n) sp s2 = Some (Inl e)"
    using shell_execute_from_error [of env input 0 sp s] by (auto simp: shell_execute_def)
next
  assume "\<exists>n s2. shell_rounds env input n sp s = kret s2 \<and> shell_round env (input n) sp s2 = Some (Inl e)"
  then obtain n s2 where "shell_rounds env input n sp s = kret s2" "shell_round env (input n) sp s2 = Some (Inl e)"
    by blast
  then show "shell_execute env input sp s = Some (Inl e)"
    by (simp add: shell_execute_rounds [of env input sp s n] shell_execute_from.simps [of env input n] kbind_def)
qed

text \<open>Rounds that are known to succeed are not the one that fails.\<close>

lemma shell_execute_error_after:
  assumes "shell_rounds env input m sp s = kret s'"
  shows "shell_execute env input sp s = Some (Inl e) \<longleftrightarrow>
    (\<exists>n \<ge> m. \<exists>s2. shell_rounds env input n sp s = kret s2 \<and> shell_round env (input n) sp s2 = Some (Inl e))"
proof -
  have "m \<le> n" if "shell_rounds env input n sp s = kret s2" "shell_round env (input n) sp s2 = Some (Inl e)" for n s2
  proof (rule ccontr)
    assume "\<not> m \<le> n"
    then obtain s1 where "shell_rounds env input (Suc n) sp s = kret s1"
      using shell_rounds_prefix [OF assms, of "Suc n"] by auto
    then show False
      using that by simp
  qed
  then show ?thesis
    unfolding shell_execute_error by blast
qed

text \<open>
  The shell never returns; after any number of rounds that succeed it goes on with the next one,
  so it stops only when a round panics, faults or does not end itself.
\<close>
theorem shell_execute_serves:
  "shell_execute env input sp s \<noteq> kret r \<and>
   shell_execute env input sp s = kbind (shell_rounds env input n sp s) (shell_execute_from env input n sp)"
  using shell_execute_rounds shell_execute_from_never [of env input 0 sp s] by (auto simp: shell_execute_def)

text \<open>
  Whatever the machine, the boot information and the input are, \<open>kmain\<close> does not return: the
  code behind the shell that destroys the terminal and the shell is never reached.
\<close>
theorem kmain_never_returns: "kmain env input info k \<noteq> kret r"
proof
  assume "kmain env input info k = kret r"
  then obtain sp s s2 where "shell_execute (kernel_shell_env env) input sp s = kret s2"
    by (auto simp: kmain_def execute_shell_def kbind_eq_kret Let_def)
  then show False
    using shell_execute_from_never [of "kernel_shell_env env" input 0 sp s] by (auto simp: shell_execute_def)
qed

end
