(* ===== verification/Shell_Serve.thy ===== *)
theory Shell_Serve
  imports Shell_Run Kernel_Correct
begin

text \<open>
  Rounds of the shell, from the prompt over the keys that are typed to the answer on the screen: each ends as it began,
  so a session shows its rounds one after another and keeps no memory.
\<close>

section \<open>A shell that is served\<close>

text \<open>A byte that neither the output nor the input of the shell changes.\<close>

definition fixed :: "'d shell_env \<Rightarrow> shell \<Rightarrow> (nat \<times> nat) set \<Rightarrow> tty \<Rightarrow> 'd shell_state \<Rightarrow> u32 \<Rightarrow> bool" where
  "fixed env sh L t s x \<longleftrightarrow> still env sh t s x \<and> lasting (se_frame env) t (ss_tty s) L x"

definition shell_literals :: "string list" where
  "shell_literals = [''> '', '' '', line ''Unknown command'', line ''[%d] %s'']"

definition literals_fixed :: "'d shell_env \<Rightarrow> shell \<Rightarrow> (nat \<times> nat) set \<Rightarrow> tty \<Rightarrow> 'd shell_state \<Rightarrow> bool" where
  "literals_fixed env sh L t s \<longleftrightarrow> (\<forall>l \<in> set shell_literals. literal_at env sh t s l \<and>
     (\<forall>j \<le> length l. fixed env sh L t s (se_literal env l + of_nat j)))"

definition input_on :: "u32 \<Rightarrow> u32 \<Rightarrow> 'd tty_state \<Rightarrow> bool" where
  "input_on p tty s \<longleftrightarrow> p \<noteq> 0 \<and> (\<exists>st. ts_streams s p = Some st \<and> st_gets st = Some Tty_stream_gets \<and> st_data st = tty)"

text \<open>The buffer of the output stream and the arguments on the stack.\<close>

definition output_places :: "'d shell_env \<Rightarrow> shell \<Rightarrow> (nat \<times> nat) set \<Rightarrow> tty \<Rightarrow> 'd shell_state \<Rightarrow> bool" where
  "output_places env sh L t s \<longleftrightarrow>
     (\<forall>x. stream_area (sh_out_stream sh) x \<or> shell_args env x \<longrightarrow> lasting (se_frame env) t (ss_tty s) L x)"

definition serving :: "'d shell_env \<Rightarrow> u32 \<Rightarrow> shell \<Rightarrow> u32 list \<Rightarrow> (u8 list \<times> shell_fn) list \<Rightarrow> nat \<Rightarrow> nat \<Rightarrow> (nat \<times> nat) set \<Rightarrow> nat \<Rightarrow>
    tty \<Rightarrow> 'd shell_state \<Rightarrow> u8 list \<Rightarrow> bool" where
  "serving env sp sh nodes cmds ki ko L B t s q \<longleftrightarrow> reading (se_frame env) (sh_tty sh) ki ko L B t (ss_tty s) q \<and>
     shell_ready env sh t s \<and> commands_at env sp sh t nodes cmds s \<and> input_on (sh_in_stream sh) (sh_tty sh) (ss_tty s) \<and>
     output_places env sh L t s \<and> literals_fixed env sh L t s \<and> names_apart (\<lambda>x. \<not> fixed env sh L t s x) s nodes cmds"

lemma servingD:
  assumes "serving env sp sh nodes cmds ki ko L B t s q"
  shows "reading (se_frame env) (sh_tty sh) ki ko L B t (ss_tty s) q" "shell_ready env sh t s"
    "commands_at env sp sh t nodes cmds s" "input_on (sh_in_stream sh) (sh_tty sh) (ss_tty s)" "output_places env sh L t s"
    "literals_fixed env sh L t s" "names_apart (\<lambda>x. \<not> fixed env sh L t s x) s nodes cmds"
  using assms by (simp_all add: serving_def)

text \<open>All that depends on the terminal only as far as calm steps keep it.\<close>

lemma tty_area_calm: "calm t s t' s' \<Longrightarrow> tty_area f t' (vga_buffer (ts_vga s')) = tty_area f t (vga_buffer (ts_vga s))"
  by (simp add: tty_area_def calmD fun_eq_iff)

lemma still_calm: "calm t (ss_tty s) t' (ss_tty s') \<Longrightarrow> still env sh t' s' = still env sh t s"
  by (simp add: still_def noisy_def quiet_def tty_area_calm fun_eq_iff)

lemma fixed_calm: "calm t (ss_tty s) t' (ss_tty s') \<Longrightarrow> fixed env sh L t' s' = fixed env sh L t s"
  by (simp add: fixed_def still_calm lasting_calm fun_eq_iff)

lemma fixed_mono: "fixed env sh L t s x \<Longrightarrow> L \<subseteq> L' \<Longrightarrow> fixed env sh L' t s x"
  by (auto simp: fixed_def intro: lasting_mono)

lemma shell_ready_calm:
  assumes "shell_ready env sh t s" and "calm t (ss_tty s) t' (ss_tty s')" and "tty_ok (se_frame env) (sh_tty sh) t' (ss_tty s')"
  shows "shell_ready env sh t' s'"
  using assms by (simp add: shell_ready_def stream_on_def stream_apart_def noisy_def quiet_def tty_area_calm calmD(4))

text \<open>Calm steps that keep the fixed bytes keep the service, also while the heap has more payloads.\<close>

lemma serving_calm:
  assumes srv: "serving env sp sh nodes cmds ki ko L B t s q" and calm: "calm t (ss_tty s) t' (ss_tty s')" and L: "L \<subseteq> L'"
    and rd: "reading (se_frame env) (sh_tty sh) ki ko L' B' t' (ss_tty s') q'"
    and m: "\<And>x. fixed env sh L t s x \<Longrightarrow> ss_mem s' x = ss_mem s x"
    and st: "ss_shells s' = ss_shells s" "ss_commands s' = ss_commands s"
  shows "serving env sp sh nodes cmds ki ko L' B' t' s' q'"
proof -
  note v = servingD [OF srv] and still = still_calm [OF calm]
  have lists: "ss_lists s' = ss_lists s"
    by (rule calmD(10) [OF calm])
  have tx: "text_at env sh t' s' a ds" if "text_at env sh t s a ds" "\<And>j. j \<le> length ds \<Longrightarrow> fixed env sh L t s (a + of_nat j)" for a ds
    using that still m cstr_agree [of "ss_mem s" a ds "ss_mem s'"] by (simp add: text_at_def)
  have fx: "fixed env sh L' t' s' x" if "fixed env sh L t s x" for x
    using that fixed_mono [OF _ L] fixed_calm [OF calm] by metis
  have "literals_fixed env sh L' t' s'"
    using v(6) by (auto simp: literals_fixed_def literal_at_def intro!: tx fx)
  moreover have "output_places env sh L' t' s'"
    using v(5) unfolding output_places_def lasting_calm [OF calm] by (blast intro: lasting_mono [OF _ L])
  moreover have "shell_ready env sh t' s'"
    using shell_ready_calm [OF v(2) calm] rd by (simp add: reading_def)
  moreover have "names_apart (\<lambda>x. \<not> fixed env sh L' t' s' x) s' nodes cmds"
    using v(7) fx unfolding names_apart_def lists st by (force elim!: list_all2_mono)
  moreover have "list_all2 (command_at env sh t' s') nodes cmds"
    using v(3,7) unfolding commands_at_def names_apart_def list_all2_conv_all_nth
    by (fastforce simp: command_at_def lists st intro: tx)
  then have "commands_at env sp sh t' nodes cmds s'"
    using v(3) by (simp add: commands_at_def lists st)
  moreover have "input_on (sh_in_stream sh) (sh_tty sh) (ss_tty s')"
    using v(4) by (simp add: input_on_def calmD(4) [OF calm])
  ultimately show ?thesis
    using rd by (simp add: serving_def)
qed

section \<open>Payloads and the output\<close>

text \<open>The payloads but the output ring are out of reach for the terminal, and the new ones for the output of the shell.\<close>

lemma payload_quiet:
  assumes "heap_room h L' B" and "kheap_base h = kheap_base g" and "input_places f t g screen L ki ko" and "L \<subseteq> L'"
    and "(p, k) \<in> L'" and "p \<noteq> unat (cb_buffer (tty_output t))" and "in_range x (adr p) k"
  shows "\<not> tty_area f t screen x"
proof -
  have "ring_held L (tty_output t) ko" "(unat (cb_buffer (tty_output t)), ko) \<in> L'"
    using assms(3,4) by (auto simp: input_places_def ring_held_def)
  then have "\<not> ring_area (tty_output t) x"
    using payloads_apart [OF assms(1,5) _ _ assms(7)] ring_payload [of L "tty_output t" ko x] assms(6) by blast
  moreover have "\<not> off_heap g x"
    using payload_byte [OF assms(1,5,7)] assms(2) by (simp add: off_heap_def)
  ultimately show ?thesis
    using assms(3) by (auto simp: tty_area_def input_places_def)
qed

lemma lasting_new:
  assumes "heap_room h L' B" and "kheap_base h = kheap_base (ts_heap s)" and "L \<subseteq> L'" and "(p, k) \<in> L'"
    and "(p, k) \<notin> L \<or> p = unat (cb_buffer (tty_input t))" and "lasting f t s L x"
  shows "\<not> in_range x (adr p) k"
proof -
  have "off_heap h x \<or> (\<exists>q j. (q, j) \<in> L' \<and> (q, j) \<noteq> (p, k) \<and> in_range x (adr q) j)"
    using assms(2-6) by (auto simp: lasting_def off_heap_def)
  then show ?thesis
    using payload_byte [OF assms(1,4)] payloads_apart [OF assms(1) _ assms(4)] by blast
qed

lemma payload_still:
  assumes srv: "serving env sp sh nodes cmds ki ko L B t s q" and room: "heap_room h L' B'" "kheap_base h = kheap_base (ss_heap s)" "L \<subseteq> L'"
    and p: "(p, k) \<in> L'" "(p, k) \<notin> L \<or> p = unat (cb_buffer (tty_input t))" and x: "in_range x (adr p) k"
  shows "still env sh t s x"
proof -
  note v = servingD [OF srv]
  have places: "input_places (se_frame env) t (ss_heap s) (vga_buffer (ts_vga (ss_tty s))) L ki ko"
    using v(1) by (simp add: reading_def)
  have "p \<noteq> unat (cb_buffer (tty_output t))"
  proof
    assume "p = unat (cb_buffer (tty_output t))"
    moreover from this have "(p, ko) \<in> L"
      using places by (simp add: input_places_def ring_held_def)
    moreover from this have "k = ko"
      using same_payload [OF room(1) p(1)] room(3) by blast
    ultimately show False
      using p(2) places by (auto simp: input_places_def simp flip: word_unat_eq_iff)
  qed
  then have "\<not> tty_area (se_frame env) t (vga_buffer (ts_vga (ss_tty s))) x"
    by (rule payload_quiet [OF room(1,2) places room(3) p(1) _ x])
  moreover have "\<not> (stream_area (sh_out_stream sh) x \<or> shell_args env x)"
    using v(5) lasting_new [OF room p, of "se_frame env" x] x by (auto simp: output_places_def)
  ultimately show ?thesis
    by (simp add: still_def noisy_def quiet_def)
qed

section \<open>One round\<close>

lemma reading_calm:
  assumes rd: "reading f tty ki ko L B t s q" and calm: "calm t s t' s'" and ok: "tty_ok f tty t' s'"
    and room: "heap_room (ts_heap s') L' B'" and L: "(unat (cb_buffer (tty_input t)), ki) \<in> L'" "(unat (cb_buffer (tty_output t)), ko) \<in> L'"
    and input: "tty_input t' = tty_input t" and m: "\<And>x. ring_area (tty_input t) x \<Longrightarrow> ts_mem s' x = ts_mem s x"
  shows "reading f tty ki ko L' B' t' s' q"
proof -
  have "ring_at (tty_input t') (ts_mem s') q"
    unfolding input by (rule ring_at_agree) (use rd m in \<open>auto simp: reading_def\<close>)
  moreover have "input_places f t' (ts_heap s') (vga_buffer (ts_vga s')) L' ki ko"
    using rd L calmD [OF calm] by (simp add: reading_def input_places_def ring_held_def off_heap_def)
  ultimately show ?thesis
    using rd ok room calmD(5) [OF calm] by (simp add: reading_def)
qed

lemma readingD:
  assumes "reading f tty ki ko L B t s q"
  shows "heap_room (ts_heap s) L B" "(unat (cb_buffer (tty_input t)), ki) \<in> L" "(unat (cb_buffer (tty_output t)), ko) \<in> L"
    "ring_held L (tty_input t) ki"
  using assms by (simp_all add: reading_def input_places_def ring_held_def)

lemma input_still:
  assumes "serving env sp sh nodes cmds ki ko L B t s q" and "ring_area (tty_input t) x"
  shows "still env sh t s x"
proof -
  note r = readingD [OF servingD(1) [OF assms(1)]]
  show ?thesis
    using payload_still [OF assms(1) r(1) refl subset_refl r(2) _ ring_payload [OF r(4) assms(2)]] by blast
qed

lemma serving_puts:
  assumes srv: "serving env sp sh nodes cmds ki ko L B t s q" and l: "l \<in> set shell_literals" "8 \<notin> set (map ch l)"
  shows "\<exists>t' s'. shell_puts env (sh_out_stream sh) (se_literal env l) s = kret s' \<and> printed env sh (map ch l) t s t' s' \<and>
    serving env sp sh nodes cmds ki ko L B t' s' q"
proof -
  note v = servingD [OF srv]
  have "text_at env sh t s (se_literal env l) (map ch l)"
    using v(6) l(1) by (simp add: literals_fixed_def literal_at_def)
  from shell_puts_ok [OF v(2) this l(2)] obtain t' s' where
    out: "shell_puts env (sh_out_stream sh) (se_literal env l) s = kret s'" "printed env sh (map ch l) t s t' s'"
    by blast
  have pr: "calm t (ss_tty s) t' (ss_tty s')" "tty_input t' = tty_input t" "\<And>x. still env sh t s x \<Longrightarrow> ss_mem s' x = ss_mem s x"
    "tty_ok (se_frame env) (sh_tty sh) t' (ss_tty s')"
    using out(2) by (simp_all add: printed_def shell_ready_def)
  have "heap_room (ss_heap s') L B"
    using room_mem [OF readingD(1) [OF v(1)], of "ss_mem s'"] printed_state(8) [OF out(2)] by metis
  then have "reading (se_frame env) (sh_tty sh) ki ko L B t' (ss_tty s') q"
    by (rule reading_calm [OF v(1) pr(1,4) _ readingD(2,3) [OF v(1)] pr(2)]) (use pr(3) input_still [OF srv] in blast)
  then have "serving env sp sh nodes cmds ki ko L B t' s' q"
    by (rule serving_calm [OF srv pr(1) subset_refl]) (use pr(3) printed_state(1,2) [OF out(2)] in \<open>auto simp: fixed_def\<close>)
  then show ?thesis
    using out by blast
qed

lemma serving_gets:
  assumes srv: "serving env sp sh nodes cmds ki ko L (line_room M R (filter line_char xs) + 22) t s q" and M: "M = length (filter line_char xs)"
    and keys: "q @ coming keys 0 N = xs @ 13 # rest" "13 \<notin> set xs" "8 \<notin> set xs" "\<forall>i \<ge> N. keys i = []"
    "length (q @ coming keys 0 N) \<le> unat (cb_capacity (tty_input t))" and req: "request_ok (ss_heap s) (4 * M + 4)" "0 < R"
  shows "\<exists>p k t' u q'. stream_gets (se_io env) (se_frame env) keys (sh_in_stream sh) (ss_tty s) = kret (adr p, u) \<and>
    cstr (ts_mem u) (adr p) (filter line_char xs) \<and> M < k \<and> (p, k) \<notin> L \<and>
    serving env sp sh nodes cmds ki ko (insert (p, k) L) R t' (ss_set_tty u s) q' \<and>
    stepped (se_frame env) L (filter line_char xs @ [10]) t (ss_tty s) t' u \<and> (\<exists>n'. q' @ coming keys n' N = rest)"
proof -
  note v = servingD [OF srv]
  obtain p k t' u q' where g: "tty_gets (se_io env) (se_frame env) keys (sh_tty sh) (ss_tty s) = kret (adr p, u)"
    "cstr (ts_mem u) (adr p) (filter line_char xs)" "M < k" "(p, k) \<notin> L"
    "reading (se_frame env) (sh_tty sh) ki ko (insert (p, k) L) R t' u q'"
    "stepped (se_frame env) L (filter line_char xs @ [10]) t (ss_tty s) t' u" "\<exists>n'. q' @ coming keys n' N = rest"
    using gets_ok [OF v(1) M keys req, of "se_io env"] by blast
  have run: "stream_gets (se_io env) (se_frame env) keys (sh_in_stream sh) (ss_tty s) = kret (adr p, u)"
    using v(4) g(1) by (auto simp: stream_gets_def tty_stream_gets_def input_on_def)
  have "serving env sp sh nodes cmds ki ko (insert (p, k) L) R t' (ss_set_tty u s) q'"
    by (rule serving_calm [OF srv]) (use g(5,6) in \<open>auto simp: stepped_def echoed_def ss_set_tty_def fixed_def\<close>)
  then show ?thesis
    using run g(2-4,6,7) by blast
qed

text \<open>The bytes of the line and of the argument vector.\<close>

lemma in_line_payload:
  assumes "in_line (unat (adr p)) (unat (adr p) + n) x" and "n < k" and "p + k < 4294967296"
  shows "in_range x (adr p) k"
proof -
  have p: "unat (adr p) = p"
    using assms(3) by simp
  then have "x = adr p + of_nat (unat x - p)"
    using assms(1) by (metis adr_add adr_unat le_add_diff_inverse)
  moreover have "unat x - p < k"
    using assms(1,2) unfolding p by linarith
  ultimately show ?thesis
    using in_range_offset [of "unat x - p" "adr p" k] assms(3) by (metis add_lessD1 add.commute less_trans)
qed

lemma line_runs:
  assumes srv: "serving env sp sh nodes cmds ki ko L B t s q" and calm: "calm t (ss_tty s) t' (ss_tty s')" and new: "(p, k) \<notin> L"
    and st: "ss_commands s' = ss_commands s"
    and srv': "serving env sp sh nodes cmds ki ko (insert (p, k) L) (4 * (spaces cs + 1) + 21) t' s' q'"
    and line: "cstr (ss_mem s') (adr p) cs" "length cs < k" and req: "request_ok (ss_heap s') (4 * (spaces cs + 1))"
    and lits: "set literals \<subseteq> set shell_literals"
  shows "run_ready env sp sh t' s' nodes cmds (insert (p, k) L) literals (adr p) cs"
proof -
  let ?n = "4 * (spaces cs + 1)" and ?L = "insert (p, k) L"
  note v = servingD [OF srv] and v' = servingD [OF srv'] and still = still_calm [OF calm]
  have room: "heap_room (ss_heap s') ?L (1 + ?n + 20)"
    using readingD(1) [OF v'(1)] by (simp add: add.commute)
  obtain a z h where al: "kmalloc (ss_heap s') (of_nat ?n) = kret (adr a, h)" "?n \<le> z" "(a, z) \<notin> ?L"
    "heap_room h (insert (a, z) ?L) 1" "kheap_base h = kheap_base (ss_heap s')"
    using room_alloc [OF room _ req] by auto
  have base: "kheap_base h = kheap_base (ss_heap s)"
    using al(5) calmD(3) [OF calm] by simp
  note b = heap_alloc.owned_bounds [OF room_owns [OF al(4)]]
  have p: "p \<noteq> 0" "p + k < 4294967296" "a \<noteq> 0" "a + z < 4294967296"
    using b [of p k] b [of a z] heap_alloc.owned_nonzero [OF room_owns [OF al(4)], of p k]
      heap_alloc.owned_nonzero [OF room_owns [OF al(4)], of a z] by (auto intro: gr0I)
  have sc: "in_range x (adr p) k \<or> in_range x (adr a) z" if "scratch (adr p) cs (adr a) x" for x
    using that in_line_payload [OF _ line(2) p(2), of x] al(2) by (auto simp: scratch_def entries_def in_range_def)
  have sub: "L \<subseteq> insert (a, z) ?L"
    by blast
  have "still env sh t s x" if "in_range x (adr p) k \<or> in_range x (adr a) z" for x
    using payload_still [OF srv al(4) base sub, of p k x] payload_still [OF srv al(4) base sub, of a z x] new al(3) that by auto
  then have quiet: "still env sh t' s' x" if "scratch (adr p) cs (adr a) x" for x
    unfolding still using sc [OF that] by blast
  have apart: "\<not> scratch (adr p) cs (adr a) x" if "fixed env sh L t s x" for x
    using lasting_new [OF al(4) base sub, of p k t "se_frame env" x] lasting_new [OF al(4) base sub, of a z t "se_frame env" x]
      that new al(3) sc [of x] by (auto simp: fixed_def)
  have lit: "\<not> scratch (adr p) cs (adr a) (se_literal env l + of_nat j)" if "l \<in> set shell_literals" "j \<le> length l" for l j
    using v(6) apart that by (simp add: literals_fixed_def)
  have delim: "literal_at env sh t' s' '' ''"
    using v'(6) by (simp add: literals_fixed_def shell_literals_def)
  have "\<not> (in_range x (adr p) k \<and> in_range x (adr a) z)" for x
    using payloads_apart [OF al(4), of p k a z x] al(3) by auto
  then have "\<not> (in_line (unat (adr p)) (unat (adr p) + length cs) x \<and> entries (adr a) 0 (spaces cs + 1) x)" for x
    using in_line_payload [OF _ line(2) p(2), of x] al(2) by (fastforce simp: entries_def in_range_def)
  then have "split_apart env (unat (adr p)) (unat (adr p) + length cs) (adr a) (spaces cs + 1)"
    using p al(2) line(2) lit [of "'' ''"] by (auto simp: split_apart_def scratch_def shell_literals_def)
  moreover have "delim_ok env (ss_mem s')"
    using delim by (simp add: delim_ok_def literal_at_def text_at_def)
  ultimately have "line_ready env sh t' s' (adr p) cs (adr a)"
    using line p quiet by (simp add: line_ready_def)
  moreover have "names_apart (scratch (adr p) cs (adr a)) s' nodes cmds"
    using v(7) apart calmD(10) [OF calm] unfolding names_apart_def st by (force elim!: list_all2_mono)
  moreover have "\<forall>l \<in> set literals. literal_at env sh t' s' l"
    using v'(6) lits by (auto simp: literals_fixed_def)
  ultimately show ?thesis
    using v'(2,3) room_owns [OF room] req al(1) lit lits by (auto simp: run_ready_def)
qed

lemma line_releases:
  assumes srv: "serving env sp sh nodes cmds ki ko L B t s q" and calm: "calm t (ss_tty s) t1 (ss_tty s1)" and new: "(p, k) \<notin> L"
    and st: "ss_shells s1 = ss_shells s" "ss_commands s1 = ss_commands s" and m1: "\<And>x. fixed env sh L t s x \<Longrightarrow> ss_mem s1 x = ss_mem s x"
    and srv1: "serving env sp sh nodes cmds ki ko (insert (p, k) L) R t1 s1 q'" and line: "length cs < k"
    and ran: "run_done env sp sh out t1 s1 t2 s2 nodes cmds (insert (p, k) L)"
    and keeps: "run_keeps env sh (insert (p, k) L) (adr p) cs t1 s1 t2 s2"
  shows "\<exists>h. kfree (ss_heap s2) (adr p) = kret h \<and> serving env sp sh nodes cmds ki ko L B t2 (ss_set_heap h s2) q' \<and>
    mem h = ss_mem s2 \<and> calm t (ss_tty s) t2 (ss_tty (ss_set_heap h s2))"
proof -
  let ?L = "insert (p, k) L"
  note v = servingD [OF srv] and v1 = servingD [OF srv1]
  note r = readingD [OF v(1)] and r1 = readingD [OF v1(1)]
  have k: "calm t1 (ss_tty s1) t2 (ss_tty s2)" "tty_input t2 = tty_input t1" "ss_shells s2 = ss_shells s1" "ss_commands s2 = ss_commands s1"
    "\<And>x. spared env sh ?L (adr p) cs t1 s1 x \<Longrightarrow> ss_mem s2 x = ss_mem s1 x"
    using keeps by (simp_all add: run_keeps_def)
  have d: "heap_owns (ss_heap s2) ?L" "shell_ready env sh t2 s2"
    using ran by (simp_all add: run_done_def)
  obtain h where h: "kfree (ss_heap s2) (adr p) = kret h" "heap_owns h (?L - {(p, k)})" "mem h = ss_mem s2" "kheap_base h = kheap_base (ss_heap s2)"
    using owns_release [OF d(1), of p k] by blast
  have L: "?L - {(p, k)} = L"
    using new by simp
  have base: "kheap_base h = kheap_base (ss_heap s)"
    using h(4) calmD(3) [OF k(1)] calmD(3) [OF calm] by simp
  let ?s = "ss_set_heap h s2"
  have set: "calm t2 (ss_tty s2) t2 (ss_tty ?s)"
    using h(4) by (auto simp: calm_def same_mode_def ss_set_heap_def ss_set_tty_def ts_set_heap_def)
  have c1: "calm t1 (ss_tty s1) t2 (ss_tty ?s)"
    by (rule calm_trans [OF k(1) set])
  have c: "calm t (ss_tty s) t2 (ss_tty ?s)"
    by (rule calm_trans [OF calm c1])
  have pk: "p + k < 4294967296"
    using heap_alloc.owned_bounds [OF room_owns [OF r1(1)], of p k] by simp
  have apart: "\<not> in_line (unat (adr p)) (unat (adr p) + length cs) x" if "\<not> in_range x (adr p) k" for x
    using in_line_payload [OF _ line pk, of x] that by blast
  have ring: "ss_mem s2 x = ss_mem s1 x" if x: "ring_area (tty_input t1) x" for x
  proof -
    have held: "(unat (cb_buffer (tty_input t1)), ki) \<in> L"
      using r(2) calmD(7) [OF calm] by simp
    have inside: "in_range x (adr (unat (cb_buffer (tty_input t1)))) ki"
      by (rule ring_payload [OF r1(4) x])
    then have "\<not> in_range x (adr p) k"
      using payloads_apart [OF r1(1,2) _ _ inside, of p k] held new by auto
    then show ?thesis
      using inside k(5) [of x] input_still [OF srv1 x] apart [of x] r1(2) unfolding spared_def by blast
  qed
  have "shell_ready env sh t2 ?s"
    using d(2) by (simp add: same_output [of ?s s2])
  then have ok: "tty_ok (se_frame env) (sh_tty sh) t2 (ss_tty ?s)"
    by (simp add: shell_ready_def)
  have "reading (se_frame env) (sh_tty sh) ki ko L B t2 (ss_tty ?s) q'"
  proof (rule reading_calm [OF v1(1) c1 ok _ _ _ k(2)])
    show "heap_room (ss_heap ?s) L B"
      using room_again [OF r(1) h(2) [unfolded L] base] by simp
    show "(unat (cb_buffer (tty_input t1)), ki) \<in> L" "(unat (cb_buffer (tty_output t1)), ko) \<in> L"
      using r(2,3) calmD(7,8) [OF calm] by simp_all
    show "ss_mem ?s x = ss_mem s1 x" if "ring_area (tty_input t1) x" for x
      using ring [OF that] h(3) by simp
  qed
  then have "serving env sp sh nodes cmds ki ko L B t2 ?s q'"
  proof (rule serving_calm [OF srv c subset_refl])
    fix x assume x: "fixed env sh L t s x"
    then have "\<not> in_range x (adr p) k"
      using lasting_new [OF r1(1) calmD(3) [OF calm], of L p k t "se_frame env" x] new by (auto simp: fixed_def)
    moreover have "off_heap (ss_heap s1) x \<or> (\<exists>p' k'. (p', k') \<in> ?L \<and> in_range x (adr p') k')"
      using x calmD(3) [OF calm] by (auto simp: fixed_def lasting_def off_heap_def)
    moreover have "still env sh t1 s1 x"
      using x still_calm [OF calm] by (simp add: fixed_def)
    ultimately show "ss_mem ?s x = ss_mem s x"
      using k(5) [of x] apart [of x] m1 [OF x] h(3) by (simp add: spared_def)
  qed (use st k(3,4) in simp_all)
  then show ?thesis
    using h(1,3) c by blast
qed

text \<open>The answer to a line, and what a round shows.\<close>

definition reply :: "(u8 list \<times> shell_fn) list \<Rightarrow> u8 list \<Rightarrow> u8 list" where
  "reply cmds cs = (if hd (words cs) \<in> fst ` set cmds then help_text 0 (map fst cmds) else map ch (line ''Unknown command''))"

definition answered :: "(u8 list \<times> shell_fn) list \<Rightarrow> u8 list \<Rightarrow> bool" where
  "answered cmds cs \<longleftrightarrow> words cs \<noteq> [] \<and> (hd (words cs) \<in> fst ` set cmds \<longrightarrow> (hd (words cs), Shell_execute_help) \<in> set cmds)"

definition round_text :: "(u8 list \<times> shell_fn) list \<Rightarrow> u8 list \<Rightarrow> u8 list" where
  "round_text cmds cs = map ch ''> '' @ cs @ [10] @ reply cmds cs"

definition commands_ok :: "(u8 list \<times> shell_fn) list \<Rightarrow> bool" where
  "commands_ok cmds \<longleftrightarrow> distinct (map fst cmds) \<and> length cmds < 2147483647 \<and> (\<forall>cmd \<in> set cmds. 8 \<notin> set (fst cmd))"

text \<open>The line fits: the ring takes the keys, the heap the line and its words.\<close>

definition line_fits :: "tty \<Rightarrow> kheap \<Rightarrow> nat \<Rightarrow> u8 list \<Rightarrow> nat \<Rightarrow> bool" where
  "line_fits t h B cs n \<longleftrightarrow> n \<le> unat (cb_capacity (tty_input t)) \<and> request_ok h (4 * length cs + 4) \<and>
     line_room (length cs) (4 * (spaces cs + 1) + 21) cs + 22 \<le> B"

lemma line_fits_calm: "calm t (ss_tty s) t' (ss_tty s') \<Longrightarrow> line_fits t' (ss_heap s') B cs n \<longleftrightarrow> line_fits t (ss_heap s) B cs n"
  by (simp add: line_fits_def calmD(3,6) request_ok_def)

lemma serving_less:
  assumes "serving env sp sh nodes cmds ki ko L B t s q" and "C \<le> B"
  shows "serving env sp sh nodes cmds ki ko L C t s q"
  using assms room_less [of "ss_heap s" L B C] by (auto simp: serving_def reading_def)

lemma line_answered:
  assumes "run_ready env sp sh t s nodes cmds L [line ''Unknown command''] inputs cs"
    and "run_ready env sp sh t s nodes cmds L [line ''[%d] %s''] inputs cs" and "answered cmds cs" and "commands_ok cmds"
  shows "\<exists>t' s'. shell_execute_command env sp inputs s = kret s' \<and> run_done env sp sh (reply cmds cs) t s t' s' nodes cmds L \<and>
    run_keeps env sh L inputs cs t s t' s'"
proof -
  obtain w ws where w: "words cs = w # ws"
    using assms(3) by (cases "words cs") (auto simp: answered_def)
  show ?thesis
  proof (cases "w \<in> fst ` set cmds")
    case True
    then show ?thesis
      using run_help [OF assms(2) w] assms(3,4) w by (simp add: answered_def commands_ok_def reply_def)
  next
    case False
    then show ?thesis
      using run_unknown [OF assms(1) w] w by (simp add: reply_def)
  qed
qed

lemma round_ok:
  assumes srv: "serving env sp sh nodes cmds ki ko L B t s q" and cmds: "commands_ok cmds" and ans: "answered cmds (filter line_char xs)"
    and keys: "q @ coming keys 0 N = xs @ 13 # rest" "13 \<notin> set xs" "8 \<notin> set xs" "\<forall>i \<ge> N. keys i = []"
    and fits: "line_fits t (ss_heap s) B (filter line_char xs) (length (q @ coming keys 0 N))"
  shows "\<exists>t' s' q'. shell_round env keys sp s = kret s' \<and> serving env sp sh nodes cmds ki ko L B t' s' q' \<and>
    calm t (ss_tty s) t' (ss_tty s') \<and> (\<exists>n'. q' @ coming keys n' N = rest) \<and>
    console (ts_screen (ss_tty s')) =
      console_puts (vga_attri (ts_vga (ss_tty s))) (round_text cmds (filter line_char xs)) (console (ts_screen (ss_tty s)))"
proof -
  let ?cs = "filter line_char xs" and ?M = "length (filter line_char xs)"
  let ?R = "4 * (spaces ?cs + 1) + 21"
  have "''> '' \<in> set shell_literals" "8 \<notin> set (map ch ''> '')"
    by (simp add: shell_literals_def) code_simp
  from serving_puts [OF srv this] obtain t1 s1 where
    out: "shell_puts env (sh_out_stream sh) (se_literal env ''> '') s = kret s1" "printed env sh (map ch ''> '') t s t1 s1"
    and srv1: "serving env sp sh nodes cmds ki ko L B t1 s1 q"
    by blast
  have c1: "calm t (ss_tty s) t1 (ss_tty s1)"
    using out(2) by (simp add: printed_def)
  have fit: "line_fits t1 (ss_heap s1) B ?cs (length (q @ coming keys 0 N))"
    using fits line_fits_calm [OF c1] by blast
  then have room: "line_room ?M ?R ?cs + 22 \<le> B" and cap: "length (q @ coming keys 0 N) \<le> unat (cb_capacity (tty_input t1))"
    and req: "request_ok (ss_heap s1) (4 * ?M + 4)"
    by (simp_all add: line_fits_def)
  have pos: "0 < ?R"
    by simp
  from serving_gets [OF serving_less [OF srv1 room] refl keys cap req pos] obtain p k t2 u q' where
    get: "stream_gets (se_io env) (se_frame env) keys (sh_in_stream sh) (ss_tty s1) = kret (adr p, u)" "cstr (ts_mem u) (adr p) ?cs"
      "?M < k" "(p, k) \<notin> L" "stepped (se_frame env) L (?cs @ [10]) t1 (ss_tty s1) t2 u" "\<exists>n'. q' @ coming keys n' N = rest"
    and srv2: "serving env sp sh nodes cmds ki ko (insert (p, k) L) ?R t2 (ss_set_tty u s1) q'"
    by blast
  let ?s2 = "ss_set_tty u s1"
  have u: "ss_tty ?s2 = u" "ss_shells ?s2 = ss_shells s1" "ss_commands ?s2 = ss_commands s1"
    by (simp_all add: ss_set_tty_def)
  have c2: "calm t1 (ss_tty s1) t2 (ss_tty ?s2)" and m2: "\<And>x. fixed env sh L t1 s1 x \<Longrightarrow> ss_mem ?s2 x = ss_mem s1 x"
    using get(5) by (simp_all add: u stepped_def echoed_def fixed_def)
  have "request_ok (ss_heap ?s2) (4 * (spaces ?cs + 1))"
    using req spaces_le [of ?cs] calmD(3) [OF c2] by (simp add: request_ok_def)
  then have "run_ready env sp sh t2 ?s2 nodes cmds (insert (p, k) L) [l] (adr p) ?cs" if "l \<in> set shell_literals" for l
    by (intro line_runs [OF srv1 c2 get(4) u(3) srv2]) (use get(2,3) that in \<open>simp_all add: u\<close>)
  from line_answered [OF this this ans cmds] obtain t3 s3 where
    run: "shell_execute_command env sp (adr p) ?s2 = kret s3" "run_done env sp sh (reply cmds ?cs) t2 ?s2 t3 s3 nodes cmds (insert (p, k) L)"
      "run_keeps env sh (insert (p, k) L) (adr p) ?cs t2 ?s2 t3 s3"
    by (auto simp: shell_literals_def)
  from line_releases [OF srv1 c2 get(4) u(2,3) m2 srv2 get(3) run(2,3)] obtain h where
    fr: "kfree (ss_heap s3) (adr p) = kret h" "serving env sp sh nodes cmds ki ko L B t3 (ss_set_heap h s3) q'"
      "mem h = ss_mem s3" "calm t1 (ss_tty s1) t3 (ss_tty (ss_set_heap h s3))"
    by blast
  have "ss_shells s sp = Some sh"
    using servingD(3) [OF srv] by (simp add: commands_at_def)
  then have "shell_round env keys sp s = kret (ss_set_heap h s3)"
    using out(1) get(1) run(1) fr(1) by (simp add: shell_round_def)
  moreover have "console (ts_screen (ss_tty (ss_set_heap h s3))) = console (ts_screen (ss_tty s3))"
    using new_heap(3) [of env sp sh t3 nodes cmds, OF _ _ fr(3)] run(2) unfolding run_done_def by blast
  then have "console (ts_screen (ss_tty (ss_set_heap h s3))) =
      console_puts (vga_attri (ts_vga (ss_tty s))) (round_text cmds ?cs) (console (ts_screen (ss_tty s)))"
    using out(2) get(5) run(2) calmD(2) [OF c1] calmD(2) [OF c2]
    by (simp add: printed_def stepped_def echoed_def run_done_def u round_text_def console_puts_def)
  ultimately show ?thesis
    using fr(2) calm_trans [OF c1 fr(4)] get(6) by blast
qed

section \<open>A session\<close>

text \<open>The keys of a round type a line, and nothing else.\<close>

definition types_line :: "(nat \<Rightarrow> keyboard_event list) \<Rightarrow> u8 list \<Rightarrow> bool" where
  "types_line keys xs \<longleftrightarrow> (\<exists>N. coming keys 0 N = xs @ [13] \<and> (\<forall>i \<ge> N. keys i = [])) \<and> 13 \<notin> set xs \<and> 8 \<notin> set xs"

lemma rounds_ok:
  assumes srv: "serving env sp sh nodes cmds ki ko L B t s []" and cmds: "commands_ok cmds"
    and lines: "\<forall>i < length lines. types_line (input i) (lines ! i) \<and> answered cmds (filter line_char (lines ! i)) \<and>
      line_fits t (ss_heap s) B (filter line_char (lines ! i)) (length (lines ! i) + 1)"
  shows "\<exists>t' s'. shell_rounds env input (length lines) sp s = kret s' \<and> serving env sp sh nodes cmds ki ko L B t' s' [] \<and>
    calm t (ss_tty s) t' (ss_tty s') \<and> console (ts_screen (ss_tty s')) =
      console_puts (vga_attri (ts_vga (ss_tty s))) (concat (map (round_text cmds \<circ> filter line_char) lines)) (console (ts_screen (ss_tty s)))"
  using lines
proof (induction lines rule: rev_induct)
  case Nil
  then show ?case
    using srv by (auto simp: console_puts_def calm_refl)
next
  case (snoc xs lines)
  have "\<forall>i < length lines. types_line (input i) (lines ! i) \<and> answered cmds (filter line_char (lines ! i)) \<and>
      line_fits t (ss_heap s) B (filter line_char (lines ! i)) (length (lines ! i) + 1)"
  proof (intro allI impI)
    fix i assume "i < length lines"
    then show "types_line (input i) (lines ! i) \<and> answered cmds (filter line_char (lines ! i)) \<and>
      line_fits t (ss_heap s) B (filter line_char (lines ! i)) (length (lines ! i) + 1)"
      using snoc.prems [rule_format, of i] by (simp add: nth_append)
  qed
  from snoc.IH [OF this] obtain t1 s1 where one: "shell_rounds env input (length lines) sp s = kret s1"
    "serving env sp sh nodes cmds ki ko L B t1 s1 []" "calm t (ss_tty s) t1 (ss_tty s1)" "console (ts_screen (ss_tty s1)) =
      console_puts (vga_attri (ts_vga (ss_tty s))) (concat (map (round_text cmds \<circ> filter line_char) lines)) (console (ts_screen (ss_tty s)))"
    by blast
  let ?keys = "input (length lines)"
  have this_line: "types_line ?keys xs" "answered cmds (filter line_char xs)"
    "line_fits t (ss_heap s) B (filter line_char xs) (length xs + 1)"
    using snoc.prems [rule_format, of "length lines"] by simp_all
  then obtain N where N: "coming ?keys 0 N = xs @ [13]" "\<forall>i \<ge> N. ?keys i = []" "13 \<notin> set xs" "8 \<notin> set xs"
    by (auto simp: types_line_def)
  have "line_fits t1 (ss_heap s1) B (filter line_char xs) (length ([] @ coming ?keys 0 N))"
    using this_line(3) line_fits_calm [OF one(3)] by (simp add: N(1))
  from round_ok [OF one(2) cmds this_line(2) _ N(3,4,2) this, of "[]"] obtain t2 s2 q' where
    two: "shell_round env ?keys sp s1 = kret s2" "serving env sp sh nodes cmds ki ko L B t2 s2 q'" "calm t1 (ss_tty s1) t2 (ss_tty s2)"
      "q' = []" "console (ts_screen (ss_tty s2)) =
      console_puts (vga_attri (ts_vga (ss_tty s1))) (round_text cmds (filter line_char xs)) (console (ts_screen (ss_tty s1)))"
    by (auto simp: N(1))
  then show ?case
    using one(1,4) calm_trans [OF one(3) two(3)] calmD(2) [OF one(3)] by (auto simp: console_puts_def o_def)
qed

section \<open>Properties\<close>

text \<open>
  C4: a whole session.  For every line that is typed, at whatever polls its keys arrive, the screen shows the
  prompt, the line as it is typed and the answer: what \<open>help\<close> prints, or that the command is unknown.  After the round of the
  last line the shell holds the payloads of the heap that it held before the first one, and no others, and it is as ready as
  before.  The endless loop goes on from there: it never returns, and it ends with an error exactly when one of the later
  rounds, reached by the rounds before it, ends with that error.
\<close>
theorem shell_session:
  assumes "serving env sp sh nodes cmds ki ko L B t s []" and "commands_ok cmds"
    and "\<forall>i < length lines. types_line (input i) (lines ! i) \<and> answered cmds (filter line_char (lines ! i)) \<and>
      line_fits t (ss_heap s) B (filter line_char (lines ! i)) (length (lines ! i) + 1)"
  shows "\<exists>t' s'. shell_rounds env input (length lines) sp s = kret s' \<and>
    serving env sp sh nodes cmds ki ko L B t' s' [] \<and> heap_owns (ss_heap s') L \<and>
    console (ts_screen (ss_tty s')) =
      console_puts (vga_attri (ts_vga (ss_tty s))) (concat (map (round_text cmds \<circ> filter line_char) lines)) (console (ts_screen (ss_tty s))) \<and>
    shell_execute env input sp s = shell_execute_from env input (length lines) sp s' \<and>
    (\<forall>r. shell_execute env input sp s \<noteq> kret r) \<and>
    (\<forall>e. shell_execute env input sp s = Some (Inl e) \<longleftrightarrow> (\<exists>n \<ge> length lines. \<exists>s2.
       shell_rounds env input n sp s = kret s2 \<and> shell_round env (input n) sp s2 = Some (Inl e)))"
proof -
  obtain t' s' where r: "shell_rounds env input (length lines) sp s = kret s'" "serving env sp sh nodes cmds ki ko L B t' s' []"
    "console (ts_screen (ss_tty s')) =
      console_puts (vga_attri (ts_vga (ss_tty s))) (concat (map (round_text cmds \<circ> filter line_char) lines)) (console (ts_screen (ss_tty s)))"
    using rounds_ok [OF assms] by blast
  then show ?thesis
    using shell_execute_rounds [of env input sp s "length lines"] room_owns [OF readingD(1) [OF servingD(1) [OF r(2)]]]
      shell_execute_error_after [OF r(1)] shell_execute_from_never [of env input 0 sp s]
    by (intro exI [of _ t'] exI [of _ s']) (auto simp: shell_execute_def)
qed

text \<open>A shell with two commands on a terminal whose rings are in the heap, and the keys of two lines.\<close>

definition serve_mem :: mem where
  "serve_mem = store_bytes sample_shell_mem 0x360 (map ch ''> '')"

definition serve_env :: "unit shell_env" where
  "serve_env = sample_env\<lparr>se_literal := (\<lambda>l. if l = ''> '' then 0x360 else se_literal sample_env l)\<rparr>"

definition serve_sh :: shell where
  "serve_sh = sample_sh\<lparr>sh_in_stream := 0x8100\<rparr>"

definition serve_terminal :: "unit tty_state" where
  "serve_terminal = input_terminal\<lparr>
     ts_registry := (ts_registry (ss_tty sample_shell))\<lparr>reg_heap := input_kheap\<lparr>mem := serve_mem\<rparr>\<rparr>,
     ts_streams := (ts_streams input_terminal)(0x8100 \<mapsto>
       \<lparr>st_putchar = None, st_getchar = None, st_puts = None, st_gets = Some Tty_stream_gets, st_data = 0x7000\<rparr>)\<rparr>"

definition serve_shell :: "unit shell_state" where
  "serve_shell = sample_shell\<lparr>ss_tty := serve_terminal, ss_shells := [0x550 \<mapsto> serve_sh]\<rparr>"

definition serve_lines :: "u8 list list" where
  "serve_lines = [map ch ''help!'', map ch ''ab'']"

definition serve_input :: "nat \<Rightarrow> nat \<Rightarrow> keyboard_event list" where
  "serve_input k n = (if n = 0 then map (\<lambda>c. \<lparr>keycode = ucast c, pressed = True\<rparr>) (serve_lines ! k @ [13]) else [])"

lemma serve_fields:
  "ts_mem serve_terminal = serve_mem" "ts_heap serve_terminal = input_kheap\<lparr>mem := serve_mem\<rparr>" "ss_tty serve_shell = serve_terminal"
  "vga_buffer (ts_vga serve_terminal) = 0xC00B8000" "se_frame serve_env = sample_frame" "se_args serve_env = 0x380"
  "sh_out_stream serve_sh = 0x8000" "sh_tty serve_sh = 0x7000" "sh_in_stream serve_sh = 0x8100"
  using sample_screen_ok(2) by (simp_all add: serve_shell_def serve_terminal_def serve_env_def serve_sh_def sample_env_def sample_sh_def)

lemma serve_reading:
  assumes "B \<le> 0x1FFFEFC"
  shows "reading sample_frame 0x7000 100 100 input_payloads B input_ttys serve_terminal []"
proof -
  note r = input_terminal_reading [OF assms]
  have "tty_ok sample_frame 0x7000 input_ttys serve_terminal"
    using r by (simp add: reading_def tty_ok_def serve_terminal_def input_terminal_def sample_shell_def)
  moreover have "heap_room (input_kheap\<lparr>mem := serve_mem\<rparr>) input_payloads B"
    using input_room [OF assms] by (rule room_mem)
  moreover have "input_places sample_frame input_ttys (input_kheap\<lparr>mem := serve_mem\<rparr>) (vga_buffer (ts_vga serve_terminal)) input_payloads 100 100"
    using r by (simp add: reading_def input_places_def off_heap_def serve_terminal_def)
  moreover have "ring_at (tty_input input_ttys) serve_mem []"
    by (simp add: ring_at_def cb_inv_def cb_items_def input_ttys_def slot_def array_fits_def)
  moreover have "ts_stdterm serve_terminal = 0x7000"
    using r by (simp add: reading_def serve_terminal_def)
  ultimately show ?thesis
    by (simp add: reading_def) (simp add: serve_terminal_def)
qed

lemma serve_low:
  assumes "unat x < 0x9000"
  shows "lasting sample_frame input_ttys serve_terminal input_payloads x"
    and "still serve_env serve_sh input_ttys serve_shell x \<longleftrightarrow> \<not> stream_area 0x8000 x \<and> \<not> in_range x 0x380 16"
proof -
  have far: "\<not> in_range x 0xC080008C 64" "\<not> in_range x 0xC00B8000 4000" "x \<notin> {0x9000, 0x9001, 0x9002, 0x9003}"
    using assms not_below [of x "0xC080008C" 64] not_below [of x "0xC00B8000" 4000] by (auto simp: word_less_nat_alt)
  show "lasting sample_frame input_ttys serve_terminal input_payloads x"
    using assms far by (simp add: lasting_def off_heap_def sample_frame_def serve_fields)
  show "still serve_env serve_sh input_ttys serve_shell x \<longleftrightarrow> \<not> stream_area 0x8000 x \<and> \<not> in_range x 0x380 16"
    using far by (simp add: still_def noisy_def quiet_def tty_area_def shell_args_def serve_fields sample_frame_def input_ttys_def)
qed

lemma serve_window: "in_range x a n \<Longrightarrow> unat a + n \<le> 0x9000 \<Longrightarrow> unat a \<le> unat x \<and> unat x < 0x9000"
  using not_below [of x a n] not_above [of a n x] by (force simp: word_less_nat_alt not_less)

lemma serve_fixed:
  assumes "unat x < 0x380"
  shows "fixed serve_env serve_sh input_payloads input_ttys serve_shell x"
  using assms serve_low [of x] serve_window [of x "0x8014" 32] serve_window [of x "0x380" 16]
  by (auto simp: fixed_def serve_fields stream_buf_def)

lemma serve_text:
  assumes "cstr serve_mem p cs" and "0 < unat p" and "unat p + length cs < 0x380"
  shows "text_at serve_env serve_sh input_ttys serve_shell p cs"
    and "\<forall>j \<le> length cs. fixed serve_env serve_sh input_payloads input_ttys serve_shell (p + of_nat j)"
proof -
  show *: "\<forall>j \<le> length cs. fixed serve_env serve_sh input_payloads input_ttys serve_shell (p + of_nat j)"
    using offset_unat [of p] assms(3) by (auto intro: serve_fixed)
  then show "text_at serve_env serve_sh input_ttys serve_shell p cs"
    using assms by (simp add: text_at_def str_fits_def serve_fields fixed_def)
qed

lemma serve_string:
  assumes "cstr sample_shell_mem p cs" and "unat p + length cs < 0x360"
  shows "cstr serve_mem p cs"
proof (rule cstr_agree [OF assms(1)])
  fix j assume "j \<le> length cs"
  then have "unat (p + of_nat j) < 0x360"
    using offset_unat [of p j] assms(2) by simp
  then have "\<not> in_range (p + of_nat j) 0x360 (length (map ch ''> ''))"
    using not_below [of "p + of_nat j" "0x360" "length (map ch ''> '')"] by (simp add: word_less_nat_alt)
  then show "serve_mem (p + of_nat j) = sample_shell_mem (p + of_nat j)"
    unfolding serve_mem_def by (rule store_bytes_other)
qed

lemma serve_strings:
  "cstr serve_mem 0x200 (map ch ''help'')" "cstr serve_mem 0x220 (map ch ''clear'')" "cstr serve_mem 0x300 [32]"
  "cstr serve_mem 0x310 (map ch (line ''Unknown command''))" "cstr serve_mem 0x340 (map ch (line ''[%d] %s''))"
  by (rule serve_string, rule sample_shell_strings, simp)+

lemma serve_prompt: "cstr serve_mem 0x360 (map ch ''> '')"
  by code_simp

lemma serve_shell_serving:
  assumes "B \<le> 0x1FFFEFC"
  shows "serving serve_env 0x550 serve_sh [0x500, 0x510] sample_commands 100 100 input_payloads B input_ttys serve_shell []"
proof -
  note tx = serve_text [OF serve_strings(1)] serve_text [OF serve_strings(2)] serve_text [OF serve_strings(3)]
    serve_text [OF serve_strings(4)] serve_text [OF serve_strings(5)] serve_text [OF serve_prompt]
  have out: "unat x < 0x9000" if "stream_area 0x8000 x \<or> in_range x 0x380 16" for x
    using that serve_window [of x "0x8014" 32] serve_window [of x "0x380" 16] by (auto simp: stream_buf_def)
  have quiet: "\<not> tty_area sample_frame input_ttys 0xC00B8000 x" if "unat x < 0x9000" for x
    using not_below [of x "0xC080008C" 64] not_below [of x "0xC00B8000" 4000] that
    by (auto simp: tty_area_def sample_frame_def input_ttys_def word_less_nat_alt)
  have apart: "\<not> stream_area 0x8000 x" if "in_range x 0x380 16" for x
    using that serve_window [of x "0x8014" 32] not_above [of "0x380" 16 x] by (auto simp: stream_buf_def)
  have ok: "tty_ok sample_frame 0x7000 input_ttys serve_terminal"
    using serve_reading [OF assms] by (simp add: reading_def)
  have "stream_on 0x8000 0x7000 serve_terminal"
    by (simp add: stream_on_def serve_terminal_def input_terminal_def sample_terminal_def)
  then have "shell_ready serve_env serve_sh input_ttys serve_shell"
    using ok out quiet apart
    by (auto simp: shell_ready_def stream_apart_def shell_args_def noisy_def quiet_def serve_fields) (simp_all add: stream_buf_def)
  moreover have "output_places serve_env serve_sh input_payloads input_ttys serve_shell"
    using out serve_low(1) by (auto simp: output_places_def serve_fields shell_args_def)
  moreover have "literals_fixed serve_env serve_sh input_payloads input_ttys serve_shell"
    using tx by (simp add: literals_fixed_def shell_literals_def literal_at_def serve_env_def sample_env_def)
  moreover have "names_apart (\<lambda>x. \<not> fixed serve_env serve_sh input_payloads input_ttys serve_shell x) serve_shell [0x500, 0x510] sample_commands"
    using tx by (simp add: names_apart_def sample_commands_def serve_shell_def serve_terminal_def sample_shell_def)
  moreover have "commands_at serve_env 0x550 serve_sh input_ttys [0x500, 0x510] sample_commands serve_shell"
    using tx sample_commands_at
    by (simp add: commands_at_def command_at_def sample_commands_def serve_shell_def serve_terminal_def serve_sh_def sample_sh_def sample_shell_def)
  moreover have "input_on 0x8100 0x7000 serve_terminal"
    by (simp add: input_on_def serve_terminal_def)
  ultimately show ?thesis
    using serve_reading [OF assms] by (simp add: serving_def serve_fields)
qed

lemma serve_types: "i < 2 \<Longrightarrow> types_line (serve_input i) (serve_lines ! i)"
proof -
  assume i: "i < 2"
  have "typed (serve_input i 0) = serve_lines ! i @ [13]" "13 \<notin> set (serve_lines ! i)" "8 \<notin> set (serve_lines ! i)"
    using i by (auto simp: less_2_cases_iff serve_lines_def serve_input_def)
  then show ?thesis
    by (auto simp: types_line_def coming_def serve_input_def intro!: exI [of _ 1])
qed

theorem shell_session_witness:
  "\<exists>s'. shell_rounds serve_env serve_input 2 0x550 serve_shell = kret s' \<and>
     shell_execute serve_env serve_input 0x550 serve_shell = shell_execute_from serve_env serve_input 2 0x550 s' \<and>
     heap_owns (ss_heap s') input_payloads \<and>
     console (ts_screen (ss_tty s')) = console_puts 7
       (concat (map (\<lambda>l. map ch (line l)) [''> help'', ''[1] help'', ''[2] clear'', ''> ab'', ''Unknown command'']))
       (console (ts_screen (ss_tty serve_shell)))"
proof -
  have cs: "filter line_char (serve_lines ! 0) = map ch ''help''" "filter line_char (serve_lines ! 1) = map ch ''ab''"
    by code_simp+
  have ws: "words (map ch ''help'') = [map ch ''help'']" "words (map ch ''ab'') = [map ch ''ab'']"
    by (simp_all add: words.simps)
  have two: "serve_lines = [serve_lines ! 0, serve_lines ! 1]"
    by (simp add: serve_lines_def)
  have "concat (map (round_text sample_commands \<circ> filter line_char) serve_lines) =
      round_text sample_commands (map ch ''help'') @ round_text sample_commands (map ch ''ab'')"
    by (subst two) (simp only: list.map comp_apply cs concat.simps append_Nil2)
  also have "\<dots> = concat (map (\<lambda>l. map ch (line l)) [''> help'', ''[1] help'', ''[2] clear'', ''> ab'', ''Unknown command''])"
    unfolding round_text_def reply_def ws list.sel by code_simp
  finally have shows_text: "concat (map (round_text sample_commands \<circ> filter line_char) serve_lines) = \<dots>" .
  have "answered sample_commands (filter line_char (serve_lines ! i)) \<and>
      line_fits input_ttys (ss_heap serve_shell) 1000 (filter line_char (serve_lines ! i)) (length (serve_lines ! i) + 1)" if "i < 2" for i
  proof -
    have "request_ok (ss_heap serve_shell) 20" "request_ok (ss_heap serve_shell) 12"
      by (simp_all add: serve_fields request_ok_def)
    moreover have "length (serve_lines ! 0) = 5" "length (serve_lines ! 1) = 2" "unat (cb_capacity (tty_input input_ttys)) = 64"
      by (simp_all add: serve_lines_def input_ttys_def)
    moreover have "answered sample_commands (map ch ''help'')" "answered sample_commands (map ch ''ab'')"
      unfolding answered_def ws list.sel by code_simp+
    ultimately show ?thesis
      using that cs by (auto simp: less_2_cases_iff line_fits_def line_room_def)
  qed
  moreover have "commands_ok sample_commands"
    by (simp add: commands_ok_def sample_commands_def)
  moreover have "vga_attri (ts_vga (ss_tty serve_shell)) = 7"
    using sample_terminal_ok(5) by (simp add: serve_shell_def serve_terminal_def input_terminal_def)
  moreover have "length serve_lines = 2"
    by (simp add: serve_lines_def)
  ultimately show ?thesis
    using shell_session [OF serve_shell_serving [of 1000], of serve_lines serve_input] serve_types unfolding shows_text
    by fastforce
qed

end
