(* ===== verification/Panic_Correct.thy ===== *)
theory Panic_Correct
  imports Panic Vga_Correct Format Heap_Correct Device_Correct
begin

text \<open>
  A panic shows where it happened, its code and its message; but the call initialises the screen first, which allocates,
  so that on a full heap it panics again before anything is shown.
\<close>

section \<open>One line\<close>

text \<open>What the call writes in memory: the buffer of 256 bytes, the arguments, and the screen.\<close>

definition panic_area :: "panic_frame \<Rightarrow> vga_state \<Rightarrow> u32 \<Rightarrow> bool" where
  "panic_area f v x \<longleftrightarrow> in_range x (qf_buf f) 256 \<or> in_range x (qf_args f) 8 \<or> in_range x (vga_buffer v) 4000"

definition panic_apart :: "panic_frame \<Rightarrow> vga_state \<Rightarrow> bool" where
  "panic_apart f v \<longleftrightarrow> 0 < unat (qf_buf f) \<and> unat (qf_buf f) + 256 < 4294967296 \<and> disjoint_ranges (vga_buffer v) 4000 (qf_buf f) 256 \<and>
     disjoint_ranges (vga_buffer v) 4000 (qf_args f) 8 \<and> disjoint_ranges (qf_buf f) 256 (qf_args f) 8"

definition panic_string :: "panic_frame \<Rightarrow> vga_state \<Rightarrow> mem \<Rightarrow> u32 \<Rightarrow> u8 list \<Rightarrow> bool" where
  "panic_string f v m a cs \<longleftrightarrow> cstr m a cs \<and> str_fits a cs \<and> (\<forall>j \<le> length cs. \<not> panic_area f v (a + of_nat j))"

definition panic_shown :: "panic_frame \<Rightarrow> u8 list \<Rightarrow> 'd screen \<Rightarrow> 'd screen \<Rightarrow> bool" where
  "panic_shown f cs sc sc' \<longleftrightarrow> vga_ok (sc_state sc') \<and> same_mode (sc_state sc) (sc_state sc') \<and>
     console sc' = console_puts (vga_attri (sc_state sc)) cs (console sc) \<and>
     (\<forall>x. \<not> panic_area f (sc_state sc) x \<longrightarrow> sc_mem sc' x = sc_mem sc x)"

lemma panic_area_mode: "same_mode v w \<Longrightarrow> panic_area f w = panic_area f v" "same_mode v w \<Longrightarrow> panic_apart f w = panic_apart f v"
  by (simp_all add: panic_area_def panic_apart_def same_mode_def fun_eq_iff)

lemma panic_shown_append:
  assumes "panic_shown f cs s s1" and "panic_shown f ds s1 s2"
  shows "panic_shown f (cs @ ds) s s2"
  using assms panic_area_mode(1) [of "sc_state s" "sc_state s1" f] same_mode_trans
  by (auto simp: panic_shown_def console_puts_def same_mode_def)

lemma panic_string_shown:
  assumes "panic_string f (sc_state s) (sc_mem s) a ds" and "panic_shown f cs s s1"
  shows "panic_string f (sc_state s1) (sc_mem s1) a ds"
  using assms panic_area_mode(1) [of "sc_state s" "sc_state s1" f] cstr_agree [of "sc_mem s" a ds "sc_mem s1"]
  by (auto simp: panic_string_def panic_shown_def)

lemma panic_strwrite_ok:
  assumes "vga_ok (sc_state s)" and "cstr (sc_mem s) a cs" and "str_fits a cs" and "length cs < 2147483648"
    and "disjoint_ranges (vga_buffer (sc_state s)) 4000 a (length cs)" and "8 \<notin> set cs"
  shows "\<exists>s'. vga_strwrite io a s = kret s' \<and> panic_shown f cs s s'"
  using strwrite_putchars [OF assms, of io] putchars_ok [OF assms(1,6), of io] by (auto simp: panic_shown_def panic_area_def)

lemma panic_string_apart: "panic_string f v m a cs \<Longrightarrow> disjoint_ranges (vga_buffer v) 4000 a (length cs)"
  by (force simp: panic_string_def panic_area_def disjoint_ranges_def in_range_ex [of _ a])

lemma panic_arg:
  assumes "panic_apart f v" and "j < 8"
  shows "\<not> in_range (qf_args f + of_nat j) (qf_buf f) 256" "\<not> in_range (qf_args f + of_nat j) (vga_buffer v) 4000"
  using assms disjoint_rangesD [of "qf_buf f" 256 "qf_args f" 8 j] disjoint_rangesD [of "vga_buffer v" 4000 "qf_args f" 8 j]
  by (simp_all add: panic_apart_def)

lemma kpanic_line_ok:
  assumes ok: "vga_ok (sc_state s)" "panic_apart f (sc_state s)"
    and lit: "panic_string f (sc_state s) (sc_mem s) (qf_literal f format) (map ch format)"
    and out: "format_text no_floats texts (map ch format) ws = Some cs" and nb: "0 \<notin> set cs" "8 \<notin> set cs" and len: "length cs < 256" and ws: "length ws \<le> 2"
    and texts: "\<And>w ds. texts w = Some ds \<Longrightarrow> panic_string f (sc_state s) (sc_mem s) w ds"
  shows "\<exists>s'. kpanic_line io ftoa f format ws s = kret s' \<and> panic_shown f cs s s'"
proof -
  let ?v = "sc_state s" and ?m = "push_args (sc_mem s) (qf_args f) ws" and ?B = "\<lambda>x. in_range x (qf_buf f) (length cs + 1)"
  have m: "?m x = sc_mem s x" if "\<not> in_range x (qf_args f) 8" for x
    by (rule push_args_other) (use that ws in \<open>auto simp: in_range_def\<close>)
  have B: "\<not> ?B x" if "\<not> in_range x (qf_buf f) 256" for x
    using that len by (auto simp: in_range_def)
  have str: "cstr ?m a ds \<and> str_fits a ds \<and> (\<forall>j \<le> length ds. \<not> ?B (a + of_nat j))" if "panic_string f ?v (sc_mem s) a ds" for a ds
    using that m B cstr_agree [of "sc_mem s" a ds ?m] by (auto simp: panic_string_def panic_area_def)
  have strings: "\<forall>w cs. texts w = Some cs \<longrightarrow> cstr ?m w cs \<and> str_fits w cs \<and> (\<forall>j \<le> length cs. \<not> ?B (w + of_nat j))"
    using str texts by blast
  have "\<not> ?B (qf_args f + of_nat j)" if "j < 4 * length ws" for j
    using panic_arg(1) [OF ok(2), of j] that ws B by simp
  then have inp: "format_input ?B texts ?m (qf_literal f format) (map ch format) (qf_args f) ws"
    using strings str [OF lit] push_args_args_at [of ws "sc_mem s" "qf_args f"] ws unfolding format_input_def by simp
  obtain m' where m': "sprintf ftoa ?m (qf_buf f) (qf_literal f format) (qf_args f) = Some (of_nat (length cs), m')"
    "bytes_at m' (qf_buf f) (length cs + 1) = cs @ [0]" "\<And>x. ?B x \<or> m' x = ?m x"
    using sprintf_stores [OF float_ok_none out _ inp, of ftoa] len by auto
  let ?s = "s\<lparr>sc_mem := m'\<rparr>"
  have c: "cstr (sc_mem ?s) (qf_buf f) cs" "str_fits (qf_buf f) cs"
    using m'(2) ok(2) len nb by (simp_all add: cstr_bytes_at str_fits_def panic_apart_def)
  have screen: "m' x = sc_mem s x" if "in_range x (vga_buffer ?v) 4000" for x
    using that m'(3) [of x] m [of x] B [of x] ok(2) by (auto simp: panic_apart_def disjoint_ranges_def)
  have rest: "m' x = sc_mem s x" if "\<not> panic_area f ?v x" for x
    using that m'(3) [of x] m [of x] B [of x] by (auto simp: panic_area_def)
  have "disjoint_ranges (vga_buffer ?v) 4000 (qf_buf f) (length cs)"
    using ok(2) len by (auto simp: panic_apart_def intro: disjoint_ranges_mono)
  then obtain s' where s': "vga_strwrite io (qf_buf f) ?s = kret s'" "panic_shown f cs ?s s'"
    using panic_strwrite_ok [OF _ c, of io f] ok(1) len nb by auto
  have "console ?s = console s"
    using screen by (simp add: console_def screen_text_cong [of "vga_buffer ?v" m' "sc_mem s"])
  then have "panic_shown f cs s s'"
    using s'(2) rest by (simp add: panic_shown_def)
  then show ?thesis
    using s'(1) m'(1) by (auto simp: kpanic_line_def)
qed


section \<open>The four lines\<close>

definition panic_text :: "u32 \<Rightarrow> u8 list \<Rightarrow> u8 list \<Rightarrow> u32 \<Rightarrow> u8 list" where
  "panic_text code message file lin =
     map ch (line ''==== KERNEL PANIC ===='') @ (map ch ''Location : '' @ file @ map ch '':'' @ int_text (sint lin) @ map ch (line '''')) @
     (map ch ''Code     : '' @ int_text (sint code) @ map ch (line '''')) @ (map ch ''Reason   : '' @ message @ map ch (line ''''))"

lemma panic_formats:
  "lin \<noteq> 0x80000000 \<Longrightarrow> format_text no_floats [file \<mapsto> fs] (map ch (line ''Location : %s:%d'')) [file, lin] =
     Some (map ch ''Location : '' @ fs @ map ch '':'' @ int_text (sint lin) @ map ch (line ''''))"
  "code \<noteq> 0x80000000 \<Longrightarrow> format_text no_floats Map.empty (map ch (line ''Code     : %d'')) [code] =
     Some (map ch ''Code     : '' @ int_text (sint code) @ map ch (line ''''))"
  "format_text no_floats [message \<mapsto> ms] (map ch (line ''Reason   : %s'')) [message] = Some (map ch ''Reason   : '' @ ms @ map ch (line ''''))"
  by (simp_all add: conv_text_def printed_int_def)


lemma int_text_plain: "c \<in> set (int_text n) \<Longrightarrow> c \<noteq> 0 \<and> c \<noteq> 8"
  using dec_digits [of 8] dec_digits [of 0] isdigit_iff [of 8] isdigit_iff [of 0] by (auto simp: int_text_def)

definition panic_ready :: "panic_frame \<Rightarrow> 'd screen \<Rightarrow> u32 \<Rightarrow> u8 list \<Rightarrow> u32 \<Rightarrow> u8 list \<Rightarrow> bool" where
  "panic_ready f sc message ms file fs \<longleftrightarrow> vga_ok (sc_state sc) \<and> panic_apart f (sc_state sc) \<and>
     (\<forall>l \<in> {line ''==== KERNEL PANIC ===='', line ''Location : %s:%d'', line ''Code     : %d'', line ''Reason   : %s''}.
       panic_string f (sc_state sc) (sc_mem sc) (qf_literal f l) (map ch l)) \<and>
     panic_string f (sc_state sc) (sc_mem sc) message ms \<and> panic_string f (sc_state sc) (sc_mem sc) file fs \<and>
     length ms < 240 \<and> length fs < 230 \<and> 8 \<notin> set ms \<and> 8 \<notin> set fs"

lemma panic_ready_shown:
  assumes "panic_ready f s message ms file fs" and "panic_shown f cs s s1"
  shows "panic_ready f s1 message ms file fs"
  using assms panic_area_mode(2) [of "sc_state s" "sc_state s1" f] panic_string_shown [OF _ assms(2)]
  by (auto simp: panic_ready_def panic_shown_def)


text \<open>
  C28: on an initialised screen the report of a panic ends, and the console then shows its place, its code
  and its message.
\<close>
theorem kpanic_shows:
  assumes "panic_ready f sc message ms file fs" and "code \<noteq> 0x80000000" and "lin \<noteq> 0x80000000"
  shows "\<exists>sc'. kpanic_lines io ftoa f code message file lin sc = kret sc' \<and> vga_ok (sc_state sc') \<and>
    console sc' = console_puts (vga_attri (sc_state sc)) (panic_text code ms fs lin) (console sc)"
proof -
  let ?head = "line ''==== KERNEL PANIC ====''"
  note rd = panic_ready_shown
  have ms: "0 \<notin> set ms" "0 \<notin> set fs"
    using assms(1) cstr_nonzero by (auto simp: panic_ready_def panic_string_def)
  have "panic_string f (sc_state sc) (sc_mem sc) (qf_literal f ?head) (map ch ?head)" "vga_ok (sc_state sc)"
    using assms(1) by (simp_all add: panic_ready_def)
  moreover from this have "disjoint_ranges (vga_buffer (sc_state sc)) 4000 (qf_literal f ?head) (length (map ch ?head))"
    by (intro panic_string_apart)
  moreover have "length (map ch ?head) < 2147483648" "8 \<notin> set (map ch ?head)"
    by simp_all
  ultimately obtain s1 where s1: "vga_strwrite io (qf_literal f ?head) sc = kret s1" "panic_shown f (map ch ?head) sc s1"
    using panic_strwrite_ok [of sc "qf_literal f ?head" "map ch ?head" io f] unfolding panic_string_def by metis
  have ln: "\<exists>s'. kpanic_line io ftoa f l ws s = kret s' \<and> panic_shown f cs s s'"
    if "panic_ready f s message ms file fs" "l \<in> {line ''Location : %s:%d'', line ''Code     : %d'', line ''Reason   : %s''}"
      "format_text no_floats texts (map ch l) ws = Some cs" "0 \<notin> set cs" "8 \<notin> set cs" "length cs < 256" "length ws \<le> 2"
      "Map.graph texts \<subseteq> {(file, fs), (message, ms)}" for s l texts ws cs
    by (rule kpanic_line_ok [OF _ _ _ that(3-7)]) (use that(1,2,8) in \<open>auto simp: panic_ready_def dest: in_graphI [where m = texts]\<close>)
  let ?loc = "map ch ''Location : '' @ fs @ map ch '':'' @ int_text (sint lin) @ map ch (line '''')"
  let ?code = "map ch ''Code     : '' @ int_text (sint code) @ map ch (line '''')"
  let ?reason = "map ch ''Reason   : '' @ ms @ map ch (line '''')"
  have plain: "0 \<notin> set ?loc" "8 \<notin> set ?loc" "0 \<notin> set ?code" "8 \<notin> set ?code" "0 \<notin> set ?reason" "8 \<notin> set ?reason"
    using ms assms(1) int_text_plain by (auto simp: panic_ready_def)
  have short: "length ?loc < 256" "length ?code < 256" "length ?reason < 256"
    using assms(1) int_text_length [OF assms(2)] int_text_length [OF assms(3)] by (simp_all add: panic_ready_def)
  note r1 = rd [OF assms(1) s1(2)]
  obtain s2 where s2: "kpanic_line io ftoa f (line ''Location : %s:%d'') [file, lin] s1 = kret s2" "panic_shown f ?loc s1 s2"
    using ln [OF r1 _ panic_formats(1) [OF assms(3), of "file" fs] plain(1,2) short(1)] by (auto simp: graph_map_upd)
  note r2 = rd [OF r1 s2(2)]
  obtain s3 where s3: "kpanic_line io ftoa f (line ''Code     : %d'') [code] s2 = kret s3" "panic_shown f ?code s2 s3"
    using ln [OF r2 _ panic_formats(2) [OF assms(2)] plain(3,4) short(2)] by auto
  obtain s4 where s4: "kpanic_line io ftoa f (line ''Reason   : %s'') [message] s3 = kret s4" "panic_shown f ?reason s3 s4"
    using ln [OF rd [OF r2 s3(2)] _ panic_formats(3) [where message = message] plain(5,6) short(3)] by (auto simp: graph_map_upd)
  have "panic_shown f (panic_text code ms fs lin) sc s4"
    unfolding panic_text_def using panic_shown_append [OF s1(2) panic_shown_append [OF s2(2) panic_shown_append [OF s3(2) s4(2)]]] .
  moreover have "kpanic_lines io ftoa f code message file lin sc = kret s4"
    using s1(1) s2(1) s3(1) s4(1) by (simp add: kpanic_lines_def)
  ultimately show ?thesis
    by (auto simp: panic_shown_def)
qed


definition sample_panic_mem :: mem where
  "sample_panic_mem = store_bytes (store_bytes (store_bytes (store_bytes (store_bytes (store_bytes (\<lambda>_. 0)
     0x100 (map ch (line ''==== KERNEL PANIC ===='')))  0x140 (map ch (line ''Location : %s:%d''))) 0x180 (map ch (line ''Code     : %d'')))
     0x1C0 (map ch (line ''Reason   : %s''))) 0x200 (map ch ''lost'')) 0x240 (map ch ''main.c'')"

definition sample_panic_frame :: panic_frame where
  "sample_panic_frame = \<lparr>qf_buf = 0x2000, qf_args = 0x2200, qf_literal = \<lambda>l. if l = line ''==== KERNEL PANIC ===='' then 0x100
     else if l = line ''Location : %s:%d'' then 0x140 else if l = line ''Code     : %d'' then 0x180 else 0x1C0\<rparr>"

lemma sample_panic_strings:
  "cstr sample_panic_mem 0x100 (map ch (line ''==== KERNEL PANIC ====''))" "cstr sample_panic_mem 0x140 (map ch (line ''Location : %s:%d''))"
  "cstr sample_panic_mem 0x180 (map ch (line ''Code     : %d''))" "cstr sample_panic_mem 0x1C0 (map ch (line ''Reason   : %s''))"
  "cstr sample_panic_mem 0x200 (map ch ''lost'')" "cstr sample_panic_mem 0x240 (map ch ''main.c'')"
  by code_simp+

lemma sample_panic_string:
  assumes "cstr sample_panic_mem a cs" and "0 < unat a" and "unat a + length cs < 0x400"
  shows "panic_string sample_panic_frame (sc_state sample_screen) sample_panic_mem a cs"
proof -
  have "\<not> panic_area sample_panic_frame (sc_state sample_screen) (a + of_nat j)" if "j \<le> length cs" for j
  proof -
    have "unat (a + of_nat j) = unat a + j"
      using assms(3) that by (simp add: unat_add_u32 unat_of_nat)
    moreover have "\<not> in_range x p n" if "unat x < 0x400" "0x400 \<le> unat p" "unat p + n \<le> 4294967296" for x p n
      using that by (auto simp: in_range_ex unat_add_u32 unat_of_nat)
    ultimately show ?thesis
      using assms(3) that by (simp add: panic_area_def sample_panic_frame_def sample_screen_ok)
  qed
  then show ?thesis
    using assms by (simp add: panic_string_def str_fits_def)
qed

theorem kpanic_shows_witness:
  "\<exists>sc'. kpanic_lines silent_ports (\<lambda>m lo hi p. (m, p)) sample_panic_frame 3 0x200 0x240 17 (sample_screen\<lparr>sc_mem := sample_panic_mem\<rparr>) = kret sc' \<and>
     console sc' = console_puts 7 (panic_text 3 (map ch ''lost'') (map ch ''main.c'') 17) (console (sample_screen\<lparr>sc_mem := sample_panic_mem\<rparr>))"
proof -
  let ?f = "sample_panic_frame" and ?s = "sample_screen\<lparr>sc_mem := sample_panic_mem\<rparr>"
  have "disjoint_ranges 0xC00B8000 4000 0x2000 256" "disjoint_ranges 0xC00B8000 4000 0x2200 8" "disjoint_ranges 0x2000 256 0x2200 8"
    by (rule disjoint_ranges_sym, rule far_disjoint, simp, simp)+ (rule far_disjoint, simp_all)
  then have "panic_apart ?f (sc_state sample_screen)"
    by (simp add: panic_apart_def sample_screen_ok sample_panic_frame_def)
  moreover have "\<forall>l \<in> {line ''==== KERNEL PANIC ===='', line ''Location : %s:%d'', line ''Code     : %d'', line ''Reason   : %s''}.
      panic_string ?f (sc_state sample_screen) sample_panic_mem (qf_literal ?f l) (map ch l)"
    using sample_panic_string [OF sample_panic_strings(1)] sample_panic_string [OF sample_panic_strings(2)]
      sample_panic_string [OF sample_panic_strings(3)] sample_panic_string [OF sample_panic_strings(4)]
    by (simp add: sample_panic_frame_def)
  ultimately have "panic_ready ?f ?s 0x200 (map ch ''lost'') 0x240 (map ch ''main.c'')"
    using sample_panic_string [OF sample_panic_strings(5)] sample_panic_string [OF sample_panic_strings(6)] sample_screen_ok(1)
    by (simp add: panic_ready_def)
  from kpanic_shows [OF this, of 3 17 silent_ports "\<lambda>m lo hi p. (m, p)"] show ?thesis
    by (auto simp: sample_screen_def vga_set_mode_def vga_get_attri_def)
qed


text \<open>
  C29: when the heap has no free block for the record of a device, as when it is the heap that panics
  because it is full, the call of \<open>vga_init\<close> fails to allocate and panics itself before anything is shown.  The report
  of a panic of any code is then that panic again.
\<close>
theorem kpanic_full_heap:
  assumes "heap_inv (reg_heap r) bs" and "request_ok (reg_heap r) 31" and "vga_ptr \<noteq> 0"
    and "\<forall>(t, s) \<in> frees (unat (kheap_base (reg_heap r))) bs. s < 31"
  shows "kpanic_report io ftoa f code message file lin vga_ptr v r d = out_of_memory"
proof -
  have "kmalloc (reg_heap r) (of_nat 31) = kret (0, reg_heap r)"
    using kmalloc_live [OF assms(1,2)] assms(4) by fastforce
  then have "driver_device name 15 DEVICE_TYPE_VIDEO r = out_of_memory" for name
    by (simp add: driver_device_def DRIVEN_DEVICE_SIZE_def)
  then show ?thesis
    using assms(3) by (simp add: kpanic_report_def vga_init_def)
qed

definition full_kheap :: kheap where
  "full_kheap = boot_kheap\<lparr>heads := [0xC0800000 \<mapsto> mk_head 0x1FFFFEC False 0 0], kheap_tail := 0xC0800000\<rparr>"

theorem kpanic_full_heap_witness:
  "kpanic_report silent_ports (\<lambda>m lo hi p. (m, p)) sample_panic_frame 1 0x200 0x240 17 0x400 (sc_state sample_screen)
     (sample_registry\<lparr>reg_heap := full_kheap\<rparr>) () = out_of_memory"
proof -
  have inv: "heap_inv full_kheap [(0x1FFFFEC, False)]"
    by (simp add: heap_inv_def linked_def full_kheap_def boot_kheap_def kheap_init_head_def fresh_kheap_def no_free_pair_simps adr_def)
  then have "request_ok full_kheap 31"
    by (simp add: request_ok_def heap_inv_def full_kheap_def)
  with inv show ?thesis
    by (intro kpanic_full_heap [of _ "[(0x1FFFFEC, False)]"]) simp_all
qed

end
