(* ===== verification/Float_Ceil.thy ===== *)
theory Float_Ceil
  imports Complex_Main Numeric
begin

text \<open>
  \<^verbatim>\<open>ceil\<close> of \<^verbatim>\<open>kernel/src/utils/numeric.c\<close>.  A \<^verbatim>\<open>float\<close> is its bit pattern in the single format of IEEE 754: one bit of sign,
  eight of exponent, 23 of fraction; its value is a rational number.
\<close>

unbundle bit_operations_syntax

section \<open>The code\<close>

text \<open>\<^verbatim>\<open>x > 0\<close>: not zero, not negative, not a NaN.\<close>

definition float_positive :: "u32 \<Rightarrow> bool" where
  "float_positive b \<longleftrightarrow> 0 < b \<and> b \<le> 0x7F800000"

text \<open>The fields of the format, and the significand with its leading bit.\<close>

definition float_exponent :: "u32 \<Rightarrow> nat" where
  "float_exponent b = unat b div 2 ^ 23 mod 256"

definition float_mantissa :: "u32 \<Rightarrow> nat" where
  "float_mantissa b = (if float_exponent b = 0 then 0 else 2 ^ 23) + unat b mod 2 ^ 23"

fun log2_floor :: "nat \<Rightarrow> nat" where
  "log2_floor n = (if n < 2 then 0 else Suc (log2_floor (n div 2)))"

declare log2_floor.simps [simp del]

text \<open>The pattern of a positive number below \<^term>\<open>2 ^ 24\<close>: every such number is a \<^verbatim>\<open>float\<close>.\<close>

definition float_of_count :: "nat \<Rightarrow> u32" where
  "float_of_count n = of_nat ((126 + log2_floor n) * 2 ^ 23 + n * 2 ^ (23 - log2_floor n))"

text \<open>
  \<^verbatim>\<open>++x\<close>: the sum is exact for a number \<open>x\<close> from 1 to \<^term>\<open>2 ^ 23 - 1\<close> without fraction, and \<open>x\<close> is such a number where the
  code adds.
\<close>

definition float_increment :: "u32 \<Rightarrow> u32" where
  "float_increment b = float_of_count (float_mantissa b div 2 ^ (150 - float_exponent b) + 1)"

text \<open>The conversion of the truth value \<^verbatim>\<open>x > 0\<close> gives \<^verbatim>\<open>1.0\<close> or \<^verbatim>\<open>0.0\<close>.\<close>

definition ceil :: "u32 \<Rightarrow> u32" where
  "ceil x =
     (let input = x; exponent = sint ((drop_bit 23 input AND 255) - 127)
      in if exponent < 0 then if float_positive x then 0x3F800000 else 0
         else
           let fractional_bits = 23 - exponent
           in if fractional_bits \<le> 0 then x
              else
                let integral_mask = push_bit (nat fractional_bits) (0xFFFFFFFF :: u32); output_bits = input AND integral_mask
                in if float_positive output_bits \<and> output_bits \<noteq> input then float_increment output_bits else output_bits)"


section \<open>The value of a pattern\<close>

definition float_value :: "u32 \<Rightarrow> rat" where
  "float_value b = (if b < 0x80000000 then 1 else - 1) * of_nat (float_mantissa b * 2 ^ (max 1 (float_exponent b))) / 2 ^ 150"

lemma log2_floor_bounds: "0 < n \<Longrightarrow> 2 ^ log2_floor n \<le> n \<and> n < 2 ^ Suc (log2_floor n)"
proof (induction n rule: log2_floor.induct)
  case (1 n)
  then show ?case
    by (cases "n < 2") (auto simp: log2_floor.simps [of n] less_Suc_eq)
qed

lemma exponent_bits: "unat (drop_bit 23 b AND 255 :: u32) = float_exponent b"
proof -
  have "drop_bit 23 b AND 255 = drop_bit 23 b AND mask 8"
    by (simp add: mask_eq_exp_minus_1)
  then show ?thesis
    by (simp only: unat_and_mask unat_drop_bit_eq) (simp add: drop_bit_eq_div float_exponent_def)
qed

lemma exponent_eq: "sint ((drop_bit 23 b AND 255) - 127 :: u32) = int (float_exponent b) - 127"
proof -
  have "sint (w - 127) = int (unat w) - 127" if "unat w < 256" for w :: u32
  proof -
    have "w - 127 = of_int (int (unat w) - 127)"
      by simp
    moreover have "sint (of_int k :: u32) = k" if "- 2147483648 \<le> k" "k < 2147483648" for k
      using that by (simp add: signed_of_int signed_take_bit_int_eq_self)
    from this [of "int (unat w) - 127"] have "sint (of_int (int (unat w) - 127) :: u32) = int (unat w) - 127"
      using that by linarith
    ultimately show ?thesis
      by (simp only:)
  qed
  then show ?thesis
    using exponent_bits [of b] unfolding float_exponent_def by (metis mod_less_divisor zero_less_numeral)
qed

lemma mask_bits: "unat (b AND push_bit n (0xFFFFFFFF :: u32)) = unat b - unat b mod 2 ^ n"
proof -
  have "(0xFFFFFFFF :: u32) = - 1"
    by simp
  then have "push_bit n (0xFFFFFFFF :: u32) = NOT (mask n)"
    by (simp only: push_bit_minus_one_eq_not_mask)
  then show ?thesis
    by (simp only: unat_and_not_mask)
qed

text \<open>The parts of a pattern.\<close>

lemma parts: "unat b = unat b div 2 ^ 31 * 2 ^ 31 + float_exponent b * 2 ^ 23 + unat b mod 2 ^ 23"
proof -
  have decomp: "x = x div d div e * (d * e) + x div d mod e * d + x mod d" for x d e :: nat
  proof -
    have "x = (x div d div e * e + x div d mod e) * d + x mod d"
      by (simp only: div_mod_decomp [symmetric])
    also have "\<dots> = x div d div e * (d * e) + x div d mod e * d + x mod d"
      by (simp only: add_mult_distrib mult.assoc mult.commute [of e d])
    finally show ?thesis .
  qed
  have "unat b div 2 ^ 31 = unat b div 2 ^ 23 div 2 ^ 8"
    by (simp add: div_mult2_eq [symmetric])
  then show ?thesis
    using decomp [of "unat b" "2 ^ 23" "2 ^ 8"] unfolding float_exponent_def by simp
qed

lemma fields:
  assumes "unat b = s * 2 ^ 31 + e * 2 ^ 23 + f" and "e < 256" and "f < 2 ^ 23"
  shows "float_exponent b = e" "unat b mod 2 ^ 23 = f" "b < 0x80000000 \<longleftrightarrow> s = 0"
proof -
  have "unat b = (s * 2 ^ 8 + e) * 2 ^ 23 + f"
    using assms(1) by simp
  moreover have "(k * 2 ^ 23 + f) div 2 ^ 23 = k" "(k * 2 ^ 23 + f) mod 2 ^ 23 = f" for k
    using assms(3) by simp_all
  ultimately have d: "unat b div 2 ^ 23 = s * 2 ^ 8 + e" "unat b mod 2 ^ 23 = f"
    by (simp_all only:)
  then show "float_exponent b = e" "unat b mod 2 ^ 23 = f"
    using assms(2) by (simp_all add: float_exponent_def)
  show "b < 0x80000000 \<longleftrightarrow> s = 0"
    using assms by (cases s) (auto simp: word_less_nat_alt)
qed

lemma value_of_count:
  assumes "0 < n" and "n < 2 ^ 24"
  shows "float_value (float_of_count n) = of_nat n"
proof -
  define e where "e = log2_floor n"
  have b: "2 ^ e \<le> n" "n < 2 ^ Suc e"
    using log2_floor_bounds [OF assms(1)] by (simp_all add: e_def)
  have "(2 :: nat) ^ e < 2 ^ 24"
    using b(1) assms(2) by linarith
  then have e: "e < 24"
    by (rule power_less_imp_less_exp [rotated]) simp
  define f where "f = n * 2 ^ (23 - e) - 2 ^ 23"
  have pw: "(2 :: nat) ^ e * 2 ^ (23 - e) = 2 ^ 23" "(2 :: nat) ^ Suc e * 2 ^ (23 - e) = 2 ^ 24"
    using e by (simp_all add: power_add [symmetric])
  have "2 ^ e * 2 ^ (23 - e) \<le> n * 2 ^ (23 - e)"
    using b(1) by (intro mult_le_mono1)
  moreover have "n * 2 ^ (23 - e) < 2 ^ Suc e * 2 ^ (23 - e)"
    using b(2) by (intro mult_less_mono1) simp_all
  ultimately have f: "n * 2 ^ (23 - e) = 2 ^ 23 + f" "f < 2 ^ 23"
    unfolding pw f_def by simp_all
  have "(126 + e) * 2 ^ 23 + n * 2 ^ (23 - e) = 0 * 2 ^ 31 + (127 + e) * 2 ^ 23 + f"
    using f(1) by (simp add: algebra_simps)
  moreover have "(127 + e) * 2 ^ 23 + f < 4294967296"
    using e f(2) by simp
  ultimately have u: "unat (float_of_count n) = 0 * 2 ^ 31 + (127 + e) * 2 ^ 23 + f"
    unfolding float_of_count_def e_def [symmetric] by (simp only: unat_of_nat_u32) simp
  note fs = fields [OF u _ f(2)]
  have "(2 :: nat) ^ (23 - e) * 2 ^ (127 + e) = 2 ^ 150"
    using e by (simp add: power_add [symmetric])
  moreover have "float_mantissa (float_of_count n) = n * 2 ^ (23 - e)"
    using fs e f(1) by (simp add: float_mantissa_def)
  ultimately have "float_mantissa (float_of_count n) * 2 ^ max 1 (float_exponent (float_of_count n)) = n * 2 ^ 150"
    using fs(1) e by (simp add: mult.assoc)
  then show ?thesis
    using fs(3) e by (simp add: float_value_def)
qed

lemma value_signed:
  "float_value b = (if unat b div 2 ^ 31 = 0 then 1 else - 1) * of_nat (float_mantissa b * 2 ^ (max 1 (float_exponent b))) / 2 ^ 150"
proof -
  have "b < 0x80000000 \<longleftrightarrow> unat b div 2 ^ 31 = 0"
    by (auto simp: word_less_nat_alt)
  then show ?thesis
    by (simp add: float_value_def)
qed

lemma positive_iff:
  assumes "float_exponent b < 255"
  shows "float_positive b \<longleftrightarrow> unat b div 2 ^ 31 = 0 \<and> 0 < float_mantissa b"
proof -
  define s e f where "s = unat b div 2 ^ 31" and "e = float_exponent b" and "f = unat b mod 2 ^ 23"
  have u: "unat b = s * 2147483648 + e * 8388608 + f" and lim: "f < 8388608" "e < 255"
    using parts [of b] assms by (simp_all add: s_def e_def f_def)
  have "float_positive b \<longleftrightarrow> 0 < unat b \<and> unat b \<le> 0x7F800000"
    by (simp add: float_positive_def word_less_nat_alt word_le_nat_alt)
  also have "\<dots> \<longleftrightarrow> s = 0 \<and> (0 < e \<or> 0 < f)"
  proof (cases s)
    case 0
    then have "unat b \<le> 0x7F800000"
      using u lim by linarith
    then show ?thesis
      using u 0 by auto
  next
    case (Suc m)
    then show ?thesis
      using u by simp
  qed
  also have "(0 < e \<or> 0 < f) \<longleftrightarrow> 0 < float_mantissa b"
    unfolding float_mantissa_def e_def f_def by simp
  finally show ?thesis
    by (simp add: s_def)
qed

lemma value_small:
  assumes "float_exponent b < 127"
  shows "\<lceil>float_value b\<rceil> = (if float_positive b then 1 else 0)"
proof -
  define V where "V = float_mantissa b * 2 ^ max 1 (float_exponent b)"
  have f: "unat b mod 2 ^ 23 < 2 ^ 23"
    by simp
  moreover have "float_mantissa b \<le> 2 ^ 23 + unat b mod 2 ^ 23"
    by (simp add: float_mantissa_def)
  moreover have "(2 :: nat) ^ 24 = 2 ^ 23 + 2 ^ 23"
    by simp
  ultimately have "float_mantissa b < 2 ^ 24"
    by linarith
  moreover have "(2 :: nat) ^ max 1 (float_exponent b) \<le> 2 ^ 126"
    using assms by (intro power_increasing) simp_all
  ultimately have "V < 2 ^ 24 * 2 ^ 126"
    unfolding V_def by (intro mult_less_le_imp_less) simp_all
  then have "V < 2 ^ 150"
    by simp
  then have "of_nat V < (of_nat (2 ^ 150) :: rat)"
    by (simp only: of_nat_less_iff)
  then have "of_nat V / 2 ^ 150 < (1 :: rat)"
    by simp
  moreover have "float_value b = (if unat b div 2 ^ 31 = 0 then 1 else - 1) * (of_nat V / 2 ^ 150)"
    unfolding value_signed V_def by simp
  moreover have "0 < V \<longleftrightarrow> 0 < float_mantissa b"
    by (simp add: V_def)
  ultimately show ?thesis
    using positive_iff [of b] assms by (cases "V = 0") (auto simp: ceiling_eq_iff)
qed

lemma value_one: "float_value 0x3F800000 = 1" "float_value 0 = 0"
  by (simp_all add: float_value_def float_exponent_def float_mantissa_def)


lemma ceil_middle:
  assumes e: "127 \<le> float_exponent b" "float_exponent b < 150"
    and m: "m = b AND push_bit (150 - float_exponent b) (0xFFFFFFFF :: u32)" and k: "k = 150 - float_exponent b"
  shows "float_exponent m = float_exponent b" "unat m div 2 ^ 31 = unat b div 2 ^ 31"
    "float_mantissa m = float_mantissa b - float_mantissa b mod 2 ^ k" "m = b \<longleftrightarrow> float_mantissa b mod 2 ^ k = 0"
proof -
  define s f where "s = unat b div 2 ^ 31" and "f = unat b mod 2 ^ 23"
  have u: "unat b = s * 2 ^ 31 + float_exponent b * 2 ^ 23 + f" and f: "f < 2 ^ 23"
    using parts [of b] by (simp_all only: s_def f_def) simp
  have "k \<le> 23"
    using e k by simp
  then have pw: "(2 :: nat) ^ 23 = 2 ^ (23 - k) * 2 ^ k"
    by (simp add: power_add [symmetric])
  have "s * 2 ^ 31 + float_exponent b * 2 ^ 23 = (s * 2 ^ 8 + float_exponent b) * 2 ^ 23"
    by simp
  also have "\<dots> = (s * 2 ^ 8 + float_exponent b) * 2 ^ (23 - k) * 2 ^ k"
    unfolding pw by (simp only: mult.assoc)
  finally have low: "unat b mod 2 ^ k = f mod 2 ^ k"
    unfolding u by simp
  have mant: "float_mantissa b = 2 ^ 23 + f" "float_mantissa b mod 2 ^ k = f mod 2 ^ k"
    using e pw by (simp_all add: float_mantissa_def f_def) (metis mod_mult_self3)
  have um: "unat m = s * 2 ^ 31 + float_exponent b * 2 ^ 23 + (f - f mod 2 ^ k)"
    unfolding m mask_bits k [symmetric] low using u mod_less_eq_dividend [of f "2 ^ k"] by linarith
  have "f - f mod 2 ^ k < 2 ^ 23"
    using f by simp
  note fs = fields [OF um _ this]
  show "float_exponent m = float_exponent b"
    using fs(1) e by simp
  then show "float_mantissa m = float_mantissa b - float_mantissa b mod 2 ^ k"
    using fs(2) e mant by (simp add: float_mantissa_def)
  show "unat m div 2 ^ 31 = unat b div 2 ^ 31"
  proof -
    define r where "r = float_exponent b * 2 ^ 23 + (f - f mod 2 ^ k)"
    have "r < 2 ^ 31"
      using f e(2) by (simp add: r_def)
    then have "(s * 2 ^ 31 + r) div 2 ^ 31 = s"
      by simp
    moreover have "unat m = s * 2 ^ 31 + r"
      using um unfolding r_def by (simp only: add.assoc)
    ultimately show ?thesis
      unfolding s_def [symmetric] by simp
  qed
  have "f - r = f \<longleftrightarrow> r = 0" if "r \<le> f" for r
    using that by auto
  then have "f - f mod 2 ^ k = f \<longleftrightarrow> f mod 2 ^ k = 0"
    by (metis mod_less_eq_dividend)
  moreover have "m = b \<longleftrightarrow> f - f mod 2 ^ k = f"
    unfolding word_unat_eq_iff um u by (simp only: add_left_cancel)
  ultimately show "m = b \<longleftrightarrow> float_mantissa b mod 2 ^ k = 0"
    unfolding mant(2) by simp
qed

text \<open>The value between 1 and \<^term>\<open>2 ^ 23\<close>: the part before the point, and the part behind it.\<close>

lemma value_middle:
  assumes "127 \<le> float_exponent b" "float_exponent b < 150" and k: "k = 150 - float_exponent b"
  shows "float_value b = (if unat b div 2 ^ 31 = 0 then 1 else - 1) *
    (of_nat (float_mantissa b div 2 ^ k) + of_nat (float_mantissa b mod 2 ^ k) / 2 ^ k)"
proof -
  let ?M = "float_mantissa b" and ?e = "float_exponent b"
  have quot: "(Q * A + R) * B / (A * B) = Q + R / A" if "A \<noteq> 0" "B \<noteq> 0" for A B Q R :: rat
    using that by (simp add: field_simps)
  have p: "(2 :: rat) ^ 150 = 2 ^ k * 2 ^ ?e"
    unfolding power_add [symmetric] using assms by simp
  have M: "(of_nat ?M :: rat) = of_nat (?M div 2 ^ k) * 2 ^ k + of_nat (?M mod 2 ^ k)"
    using arg_cong [OF div_mod_decomp [of ?M "2 ^ k"], of "of_nat :: nat \<Rightarrow> rat"] by simp
  have V: "(of_nat (?M * 2 ^ max 1 ?e) :: rat) = of_nat ?M * 2 ^ ?e"
    using assms(1) by simp
  have "(of_nat (?M * 2 ^ max 1 ?e) :: rat) / 2 ^ 150 = of_nat (?M div 2 ^ k) + of_nat (?M mod 2 ^ k) / 2 ^ k"
    unfolding V p M by (rule quot) simp_all
  then show ?thesis
    unfolding value_signed times_divide_eq_right [symmetric] by simp
qed

lemma value_ceiling:
  assumes "0 < d" and "r < d"
  shows "\<lceil>of_nat q + of_nat r / of_nat d :: rat\<rceil> = int (if r = 0 then q else q + 1)" "\<lceil>- (of_nat q + of_nat r / of_nat d :: rat)\<rceil> = - int q"
  using assms by (auto simp: ceiling_eq_iff field_simps)

section \<open>Properties\<close>

text \<open>
  C27: the value of \<open>ceil\<close> of a finite \<^verbatim>\<open>float\<close>, computed on its bits, is the smallest integer that is not
  below its value; infinities and NaNs are returned as they are.
\<close>
theorem ceil_rounds_up:
  "if float_exponent x = 255 then ceil x = x else float_value (ceil x) = of_int \<lceil>float_value x\<rceil>"
proof -
  let ?e = "float_exponent x"
  have e256: "?e < 256"
    by (simp add: float_exponent_def)
  consider "?e < 127" | "127 \<le> ?e" "?e < 150" | "150 \<le> ?e"
    by linarith
  then show ?thesis
  proof cases
    case 1
    then have "ceil x = (if float_positive x then 0x3F800000 else 0)"
      by (simp add: ceil_def exponent_eq Let_def)
    then show ?thesis
      using 1 value_small [OF 1] by (simp add: value_one)
  next
    case 2
    define k m where "k = 150 - ?e" and "m = x AND push_bit k (0xFFFFFFFF :: u32)"
    note mid = ceil_middle [OF 2 m_def [unfolded k_def] k_def]
    let ?M = "float_mantissa x"
    have fb: "nat (23 - (int ?e - 127)) = k" "0 \<le> int ?e - 127" "\<not> 23 - (int ?e - 127) \<le> 0"
      using 2 by (simp_all add: k_def nat_diff_distrib)
    have c: "ceil x = (if float_positive m \<and> m \<noteq> x then float_increment m else m)"
      using fb by (simp add: ceil_def exponent_eq Let_def m_def)
    have "?M < 2 ^ 24" "2 ^ 23 \<le> ?M"
      using 2 mod_less_divisor [of "2 ^ 23" "unat x"] unfolding float_mantissa_def by simp_all
    have M: "?M - ?M mod 2 ^ k = ?M div 2 ^ k * 2 ^ k"
      by (simp add: minus_mod_eq_div_mult)
    have pos: "float_positive m \<longleftrightarrow> unat x div 2 ^ 31 = 0"
      using positive_iff [of m] 2 mid by (simp add: float_mantissa_def)
    have vm: "float_value m = (if unat x div 2 ^ 31 = 0 then 1 else - 1) * of_nat (?M div 2 ^ k)"
      using value_middle [of m k] 2 mid M by (simp add: k_def)
    have vx: "float_value x = (if unat x div 2 ^ 31 = 0 then 1 else - 1) * (of_nat (?M div 2 ^ k) + of_nat (?M mod 2 ^ k) / of_nat (2 ^ k))"
      using value_middle [OF 2 k_def] by simp
    have "?M div 2 ^ k < 2 ^ 23"
    proof -
      have "?M div 2 ^ k \<le> ?M div 2 ^ 1"
        using 2 power_increasing [of 1 k "2 :: nat"] by (intro div_le_mono2) (simp_all add: k_def)
      then show ?thesis
        using \<open>?M < 2 ^ 24\<close> by simp
    qed
    then have inc: "float_value (float_increment m) = of_nat (?M div 2 ^ k + 1)"
      unfolding float_increment_def mid(1,3) k_def [symmetric] M by (subst value_of_count) simp_all
    show ?thesis
      using 2 value_ceiling [of "2 ^ k" "?M mod 2 ^ k" "?M div 2 ^ k"] unfolding c vx pos mid(4) by (simp add: vm inc)
  next
    case 3
    then have "ceil x = x"
      by (simp add: ceil_def exponent_eq Let_def)
    moreover have "float_value x = of_int \<lceil>float_value x\<rceil>"
    proof -
      have "(2 :: rat) ^ ?e = 2 ^ (?e - 150) * 2 ^ 150"
        unfolding power_add [symmetric] using 3 by simp
      then have "float_value x = of_int ((if unat x div 2 ^ 31 = 0 then 1 else - 1) * int (float_mantissa x * 2 ^ (?e - 150)))"
        using 3 unfolding value_signed by (simp add: max_def)
      then show ?thesis
        by (metis ceiling_of_int)
    qed
    ultimately show ?thesis
      by simp
  qed
qed

end
