(* ===== verification/Spec2Isabelle.thy ===== *)
theory Spec2Isabelle
  imports Heap_Correct Pmm_Init Message CString_Correct Vmm_Boot Device_Correct Descriptors_Correct Keyboard_Correct
    Vga_Correct Pci_Correct Ata_Correct Tty_Input Shell_Serve Panic_Correct Kernel_Correct Float_Ceil Float_Text
begin

text \<open>
  \<^bold>\<open>SakanaOS\<close> is a kernel for 32-bit x86 machines in C.  This development models its code under \<^verbatim>\<open>kernel/src\<close> and
  \<^verbatim>\<open>kernel/include\<close> and proves what each part does.  Paths below are relative to \<^verbatim>\<open>kernel/src\<close>.

  \<^bold>\<open>The program.\<close>  The boot loader hands a memory map to \<^verbatim>\<open>kmain\<close>.  The physical memory manager turns it into a bitmap
  of frames, the virtual memory manager builds page tables from frames, and the kernel heap is mapped with them.  Until
  then memory comes from a fixed placement area.  Descriptor tables, interrupt controllers and interrupt dispatch are set
  up; drivers for the screen, the keyboard and the disks allocate a device each and put it into a registry, which is a
  tree; the drivers reach their hardware through ports.  Messages go into a ring.  A terminal and a shell use all of it.

  \<^bold>\<open>The common model.\<close>
  \<^item> \<open>Prelude\<close>: words (\<open>u8\<close>, \<open>u16\<close>, \<open>u32\<close>), the simplification rules for their arithmetic, and \<open>kres\<close>, the result of
    kernel code: it returns (\<open>kret\<close>), calls \<^verbatim>\<open>KPANIC\<close>, accesses memory where the model has no object, traps, or never
    returns (\<open>None\<close>).  Loops that may not end are \<open>partial_function (option)\<close>; all other loops have a termination proof.
    There is no fuel.
  \<^item> \<open>Memory\<close>: memory is a function from 32-bit addresses to bytes; \<^verbatim>\<open>memcpy\<close> and \<^verbatim>\<open>memset\<close> of \<^verbatim>\<open>utils/string.c\<close> with
    their closed forms; ranges that may wrap around.  Structures whose layout no code depends on are records in stores
    indexed by address (block heads, list and tree nodes, page tables, devices).
  \<^item> \<open>Ports\<close>: \<^verbatim>\<open>arch/i386/ports.c\<close>.  What the machine does at a port is an argument, a record of six functions on an
    arbitrary state.  A theorem that depends on hardware has what the driver relies on as hypothesis (\<open>has_8259\<close>,
    \<open>has_ata\<close>, \<open>has_pci\<close>), and its witness a machine that behaves so.

  \<^bold>\<open>The components.\<close>
  \<^item> \<open>Paging\<close> (\<^verbatim>\<open>arch/i386/paging.c\<close>), \<open>Heap\<close> (\<^verbatim>\<open>memory/heap.c\<close>): block heads as a doubly linked list over the heap.
    \<open>Heap_Refine\<close> and \<open>Heap_Free\<close> relate the pointer operations to operations on the list of block sizes; \<open>Heap_Live\<close>
    states what a client may rely on as the locales \<open>allocator\<close> and \<open>releasing_allocator\<close> and interprets them for the heap
    and for the placement area; \<open>Heap_Correct\<close> has the properties: first smallest block, merging, freshness after any
    run of \<^verbatim>\<open>kmalloc\<close>, \<^verbatim>\<open>krealloc\<close>, \<^verbatim>\<open>kfree\<close> and writes, when \<^verbatim>\<open>krealloc\<close> fails and what it moves, double release detected,
    alignment, and the aligned allocations that break the list, which the runs above exclude for that reason.
  \<^item> \<open>Pmm\<close>, \<open>Pmm_Correct\<close>, \<open>Pmm_Init\<close> (\<^verbatim>\<open>memory/pmm.c\<close>): the bitmap as a set of frames; the table of regions and the
    free frames at boot, both in terms of the memory map of the boot loader (\<open>boot_table\<close>); the search.
    \<open>Array\<close> (\<^verbatim>\<open>utils/array.c\<close>) sorts the memory regions.
  \<^item> \<open>Vmm\<close>, \<open>Vmm_Correct\<close>, \<open>Vmm_Map\<close>, \<open>Vmm_Boot\<close> (\<^verbatim>\<open>memory/vmm.c\<close>): page directories and tables, the mapping they
    stand for, \<^verbatim>\<open>vmm_init\<close> and the mapping of the heap by \<^verbatim>\<open>kheap_init\<close>.  The kernel finds a table through its own array
    of pointers, the hardware through the entries of the directory: \<open>mmu_walk\<close> is the walk of the paging unit from \<^verbatim>\<open>CR3\<close>, and
    \<open>linked\<close> says that the entries of a directory lead to the tables of the array.
  \<^item> \<open>Circular_Buffer\<close>, \<open>Message\<close> (\<^verbatim>\<open>utils/circular_buffer.c\<close>, \<^verbatim>\<open>system/message.c\<close>): the ring as a queue, the log as its
    latest entries.
  \<^item> \<open>CString\<close>, \<open>CString_Correct\<close>, \<open>Format\<close>, \<open>Numeric\<close> (\<^verbatim>\<open>utils/string.c\<close>, \<^verbatim>\<open>utils/numeric.c\<close>, \<^verbatim>\<open>utils/rand.c\<close>,
    \<^verbatim>\<open>device/uuid.c\<close>): strings in memory, numbers to text and back, tokens, identifiers; the text of a format as a list of
    characters (\<open>format_text\<close>: every conversion and every int, with the text of a \<^verbatim>\<open>double\<close> as argument); how many bytes a
    number takes.  \<open>Float_Ceil\<close> and \<open>Float_Text\<close>: \<^verbatim>\<open>ceil\<close> on the bits of a \<^verbatim>\<open>float\<close>, and \<^verbatim>\<open>ftoa\<close> on the number that a
    \<^verbatim>\<open>double\<close> stands for, for every number below \<open>2 ^ 31\<close> in magnitude (beyond, the code prints wrong digits); \<^verbatim>\<open>sprintf\<close> with it.
  \<^item> \<open>Linked_List\<close>, \<open>Linked_List_Correct\<close>, \<open>Generic_Tree\<close>, \<open>Generic_Tree_Correct\<close> (\<^verbatim>\<open>utils/linked_list.c\<close>,
    \<^verbatim>\<open>utils/generic_tree.c\<close>): well-formed pointer structures, every operation keeps them so, every traversal ends and
    visits the nodes in order; sorting.
  \<^item> \<open>Device\<close>, \<open>Device_Correct\<close> (\<^verbatim>\<open>device/device.c\<close>): the registry over the heap, the trees and the lists.
  \<^item> \<open>Descriptors\<close>, \<open>Descriptors_Correct\<close>, \<open>Interrupts\<close> (\<^verbatim>\<open>arch/i386/gdt.c\<close>, \<^verbatim>\<open>tss.c\<close>, \<^verbatim>\<open>idt.c\<close>, \<^verbatim>\<open>pic.c\<close>,
    \<^verbatim>\<open>interrupts/isr.c\<close>, \<^verbatim>\<open>interrupts/isr_stage2.c\<close>): bit-fields as words of their width, the gates, dispatch to listeners and
    the end of an interrupt.
  \<^item> \<open>Keyboard\<close>, \<open>Keyboard_Correct\<close> (\<^verbatim>\<open>device/keyboard.c\<close>, \<^verbatim>\<open>drivers/input/ps2/keyboard.c\<close>): from the interrupt of a key to
    the call of the listener.
  \<^item> \<open>Vga\<close>, \<open>Vga_Correct\<close> (\<^verbatim>\<open>drivers/video/vga/vga.c\<close>): the video memory as lines of cells; writing refines a terminal that
    places characters, breaks lines and scrolls.
  \<^item> \<open>Ata\<close>, \<open>Ata_Correct\<close> (\<^verbatim>\<open>drivers/storage/ata.c\<close>): sectors and byte ranges on a drive that may be
    busy for any time after a command and after the last word of a sector.  The driver does not wait after that word, so a
    range over several sectors needs a drive that finishes before the next access to its registers (\<open>prompt_drive\<close>).
  \<^item> \<open>Pci\<close>, \<open>Pci_Correct\<close> (\<^verbatim>\<open>drivers/pci/pci.c\<close>, \<^verbatim>\<open>drivers/storage/sata.c\<close>): the configuration space, the size of regions,
    enumeration.
  \<^item> \<open>Tty\<close>, \<open>Tty_Correct\<close>, \<open>Stream_Correct\<close> (\<^verbatim>\<open>io/tty.c\<close>, \<^verbatim>\<open>io/stream.c\<close>): a character goes through the output ring, the
    registered driver and the video memory to the console; a stream shows the text that \<^verbatim>\<open>sprintf\<close> would store.
    \<open>Heap_Room\<close>, \<open>Tty_Input\<close>, \<open>Tty_Line\<close>: key events enter the input ring, and \<^verbatim>\<open>tty_gets\<close> makes a line of them in a payload that
    \<^verbatim>\<open>krealloc\<close> moves while it grows.
  \<^item> \<open>Shell\<close>, \<open>Shell_Correct\<close>, \<open>Shell_Run\<close> (\<^verbatim>\<open>shell/shell.c\<close>): the line is split into words by \<^verbatim>\<open>strtok\<close>, the first word is
    looked up among the registered commands; what \<open>help\<close>, an unknown command and an empty line show and leave in the heap.
  \<^item> \<open>Panic\<close>, \<open>Panic_Correct\<close> (\<^verbatim>\<open>system/panic.c\<close>): the panic screen, and the panic it causes itself when memory is exhausted.
  \<^item> \<open>Kernel\<close>, \<open>Kernel_Correct\<close> (\<^verbatim>\<open>main.c\<close>): the initialisations one after another on one state, and the shell, which serves
    lines for ever.
  \<^item> \<open>Shell_Serve\<close>: a session from the keys to the screen.  Every round ends in the state it began in, so the lines that are
    typed are answered one after another, and no payload of the heap is lost.  The endless loop is tied to its rounds: it ends
    with an error exactly when one of them does (\<open>shell_rounds\<close> is the first \<open>n\<close> rounds).

  \<^bold>\<open>Arguments of the model.\<close>  The ports; the addresses the linker and the stack determine (literals, local variables,
  the tables of descriptors, the entry points of the gates); the byte behind the table of scan codes; the key events that
  arrive before each poll of the terminal; the rounding of floating point results (\<open>double_rounding\<close>: monotone, exact on
  numbers of 53 bits, within \<open>1 / 2 ^ 50\<close> of numbers up to 16, as rounding to the nearest \<^verbatim>\<open>double\<close> is).  The formatting routines take the conversion of a \<^verbatim>\<open>double\<close> as an
  argument \<open>ftoa\<close>, which the properties on formats instantiate with the \<open>ftoa\<close> of \<open>Float_Text\<close>.

  \<^bold>\<open>Not modelled.\<close>  The boot code, the first stage of the interrupt entry and the linker script, which are assembly and build
  files.  An interrupt in the middle of an operation on a ring: key events arrive between the polls of \<^verbatim>\<open>tty_gets\<close>.  Of the
  headers, the macros and structures that no code uses (\<^verbatim>\<open>multiboot.h\<close>, \<^verbatim>\<open>pci_class_codes.h\<close>, the names of scan codes).

  \<^bold>\<open>Bounds.\<close>  The heap is 32 MB and a request is small enough that no address wraps (\<open>request_ok\<close>); strings and buffers end
  before the end of the address space (\<open>str_fits\<close>); the line that is read fits into the input ring, and the heap has room
  for the buffer and its growth (\<open>heap_room\<close>).
\<close>

end
